(* ===== verification/Prelude.thy ===== *)
theory Prelude
  imports Main "HOL-Library.Word" "HOL-Library.Monad_Syntax"
begin

text \<open>
  Shared vocabulary of the development: the machine integer types of the C sources, byte buffers
  with the two operations the code performs on them (copy a range out, copy a block in), the
  little-endian layout of 16 and 32 bit fields, and C strings.

  Every model function whose C original can touch memory out of bounds, dereference a null
  pointer or loop for ever has an \<^theory_text>\<open>option\<close> result: \<open>None\<close> is that undefined
  outcome, and a theorem that such a function \<open>= Some r\<close> says that it does not happen.
\<close>

unbundle bit_operations_syntax

section \<open>Machine integers\<close>

type_synonym u8 = "8 word"
type_synonym u16 = "16 word"
type_synonym u32 = "32 word"

text \<open>Value range of \<open>int\<close>, \<open>long\<close> and \<open>s32_t\<close> on the 32-bit target.\<close>

definition s32_range :: "int \<Rightarrow> bool" where
  "s32_range v \<longleftrightarrow> - (2 ^ 31) \<le> v \<and> v < 2 ^ 31"

text \<open>C division truncates towards zero.\<close>

definition c_div :: "int \<Rightarrow> int \<Rightarrow> int" where
  "c_div a b = sgn a * sgn b * (\<bar>a\<bar> div \<bar>b\<bar>)"

lemma c_div_of_nat [simp]: "c_div (int a) (int b) = int (a div b)"
  by (cases "a = 0"; cases "b = 0") (auto simp: c_div_def zdiv_int sgn_if)

lemma sint_word_of_int_s32:
  "s32_range v \<Longrightarrow> sint (word_of_int v :: u32) = v"
  by (simp add: s32_range_def int_word_sint)

named_theorems buffer_simps "equations for reads and writes of byte buffers"
named_theorems width_simps "wrap-around and truncation facts"

lemma unat_u8_less [width_simps]: "unat (x :: u8) < 256"
  using unsigned_less [of x] by simp

lemma unat_u16_less [width_simps]: "unat (x :: u16) < 65536"
  using unsigned_less [of x] by simp

lemma unat_u32_less [width_simps]: "unat (x :: u32) < 4294967296"
  using unsigned_less [of x] by simp

lemma unat_add_no_wrap:
  fixes a b :: "'a::len word"
  assumes "unat a + unat b < 2 ^ LENGTH('a)"
  shows "unat (a + b) = unat a + unat b"
  using assms by (simp add: unat_word_ariths)

lemma unat_mult_no_wrap:
  fixes a b :: "'a::len word"
  assumes "unat a * unat b < 2 ^ LENGTH('a)"
  shows "unat (a * b) = unat a * unat b"
  using assms by (simp add: unat_word_ariths)

lemma unat_sub_no_wrap:
  fixes a b :: "'a::len word"
  assumes "unat b \<le> unat a"
  shows "unat (a - b) = unat a - unat b"
  using assms by (simp add: unat_sub_if')

lemma unat_Suc_no_wrap:
  fixes a :: "'a::len word"
  assumes "Suc (unat a) < 2 ^ LENGTH('a)"
  shows "unat (a + 1) = Suc (unat a)"
  using assms by (simp add: unat_word_ariths)

lemma unat_word_of_nat_u32: "n < 2 ^ 32 \<Longrightarrow> unat (word_of_nat n :: u32) = n"
  by (simp add: unat_of_nat)

text \<open>Alignment masks: the low bits of an address and the address rounded down.\<close>

lemma unat_and_3 [width_simps]: "unat ((x :: u32) AND 3) = unat x mod 4"
proof -
  have "x AND 3 = take_bit 2 x" by (simp add: take_bit_eq_mask mask_eq_exp_minus_1)
  then have "unat (x AND 3) = take_bit 2 (unat x)" by (simp only: unsigned_take_bit_eq)
  then show ?thesis by (simp add: take_bit_eq_mod)
qed

lemma and_not_eq_diff: "(x :: 'a::len word) AND NOT m = x - (x AND m)"
proof -
  have "(x AND NOT m) + (x AND m) = (x AND NOT m) OR (x AND m)"
    by (rule disjunctive_add_eq_or) (auto intro: bit_word_eqI simp: bit_simps)
  also have "\<dots> = x"
    by (rule bit_word_eqI) (auto simp: bit_simps)
  finally show ?thesis by (metis add_diff_cancel_right')
qed

lemma unat_and_not_3 [width_simps]: "unat ((x :: u32) AND NOT 3) = unat x - unat x mod 4"
proof -
  have "x AND 3 \<le> x" by (rule word_and_le2)
  then have "unat (x - (x AND 3)) = unat x - unat (x AND 3)"
    by (simp add: unat_sub_no_wrap word_le_nat_alt)
  then show ?thesis unfolding and_not_eq_diff unat_and_3 .
qed

lemmas unat_and_minus_4 [width_simps] = unat_and_not_3 [simplified]

lemma and_255 [simp]: "(x :: u8) AND 255 = x" and and_255_left [simp]: "255 AND (x :: u8) = x"
proof -
  have "(255 :: u8) = mask 8" by (simp add: mask_eq_exp_minus_1)
  moreover have "x AND mask 8 = x"
    using take_bit_length_eq [of x] by (simp only: take_bit_eq_mask len_num1 len_bit0) simp
  ultimately show "x AND 255 = x" "255 AND x = x" by (simp_all only: and.commute)
qed

section \<open>Byte buffers\<close>

text \<open>\<open>slice off n buf\<close> is \<open>memcpy(dst, buf + off, n)\<close> seen from the destination.\<close>

definition slice :: "nat \<Rightarrow> nat \<Rightarrow> 'a list \<Rightarrow> 'a list" where
  "slice off n xs = take n (drop off xs)"

text \<open>\<open>blit off src buf\<close> is the buffer after \<open>memcpy(buf + off, src, length src)\<close>.\<close>

definition blit :: "nat \<Rightarrow> 'a list \<Rightarrow> 'a list \<Rightarrow> 'a list" where
  "blit off src xs = take off xs @ src @ drop (off + length src) xs"

lemma length_slice [simp]: "off + n \<le> length xs \<Longrightarrow> length (slice off n xs) = n"
  by (simp add: slice_def)

lemma nth_slice [buffer_simps]: "off + n \<le> length xs \<Longrightarrow> i < n \<Longrightarrow> slice off n xs ! i = xs ! (off + i)"
  by (simp add: slice_def)

lemma slice_all [simp]: "slice 0 (length xs) xs = xs"
  by (simp add: slice_def)

lemma slice_0 [simp]: "slice off 0 xs = []"
  by (simp add: slice_def)

lemma length_blit [simp]: "off + length src \<le> length xs \<Longrightarrow> length (blit off src xs) = length xs"
  by (simp add: blit_def)

lemma nth_blit [buffer_simps]:
  "off + length src \<le> length xs \<Longrightarrow> i < length xs \<Longrightarrow>
   blit off src xs ! i = (if off \<le> i \<and> i < off + length src then src ! (i - off) else xs ! i)"
  by (auto simp: blit_def nth_append)

lemma slice_blit_same [simp]:
  "off + length src \<le> length xs \<Longrightarrow> slice off (length src) (blit off src xs) = src"
  by (simp add: blit_def slice_def)

lemma slice_blit_disjoint [buffer_simps]:
  assumes "off + length src \<le> length xs" and "o' + n \<le> length xs"
    and "o' + n \<le> off \<or> off + length src \<le> o'"
  shows "slice o' n (blit off src xs) = slice o' n xs"
  by (rule nth_equalityI) (use assms in \<open>auto simp: buffer_simps\<close>)

lemma slice_slice [simp]:
  "a + m \<le> n \<Longrightarrow> slice a m (slice b n xs) = slice (b + a) m xs"
  by (simp add: slice_def take_drop add.commute min_def)

lemma slice_map: "slice a n (map f xs) = map f (slice a n xs)"
  by (simp add: slice_def take_map drop_map)

lemma slice_upt: "a + n \<le> m \<Longrightarrow> slice a n [b..<b + m] = [b + a..<b + a + n]"
  by (simp add: slice_def)

section \<open>Searching index ranges\<close>

text \<open>\<open>find p [a..<b]\<close> is the loop \<^verbatim>\<open>for (i = a; i < b; i++) if (p(i)) return i\<close>.\<close>

lemma find_append:
  "find p (xs @ ys) = (case find p xs of None \<Rightarrow> find p ys | Some x \<Rightarrow> Some x)"
  by (induction xs) auto

lemma find_map: "find p (map f xs) = map_option f (find (p \<circ> f) xs)"
  by (induction xs) auto

lemma find_upt_Suc: "find p [Suc a..<Suc b] = map_option Suc (find (\<lambda>i. p (Suc i)) [a..<b])"
  by (simp only: map_Suc_upt [symmetric] find_map comp_def)

lemma find_upt_Some:
  "find p [a..<b] = Some i \<longleftrightarrow> a \<le> i \<and> i < b \<and> p i \<and> (\<forall>j. a \<le> j \<and> j < i \<longrightarrow> \<not> p j)"
proof
  assume "find p [a..<b] = Some i"
  then obtain k where k: "k < b - a" "p (a + k)" "i = a + k" "\<forall>j<k. \<not> p (a + j)"
    by (auto simp: find_Some_iff)
  have "\<not> p j" if "a \<le> j" "j < i" for j
    using k(4) [rule_format, of "j - a"] that k(3) by simp
  then show "a \<le> i \<and> i < b \<and> p i \<and> (\<forall>j. a \<le> j \<and> j < i \<longrightarrow> \<not> p j)"
    using k by simp
next
  assume "a \<le> i \<and> i < b \<and> p i \<and> (\<forall>j. a \<le> j \<and> j < i \<longrightarrow> \<not> p j)"
  then show "find p [a..<b] = Some i"
    by (auto simp: find_Some_iff intro!: exI [of _ "i - a"])
qed

lemma find_upt_None: "find p [a..<b] = None \<longleftrightarrow> (\<forall>j. a \<le> j \<and> j < b \<longrightarrow> \<not> p j)"
  by (auto simp: find_None_iff)

section \<open>Little-endian fields\<close>

definition bytes16 :: "u16 \<Rightarrow> u8 list" where
  "bytes16 w = [ucast w, ucast (drop_bit 8 w)]"

definition bytes32 :: "u32 \<Rightarrow> u8 list" where
  "bytes32 w = [ucast w, ucast (drop_bit 8 w), ucast (drop_bit 16 w), ucast (drop_bit 24 w)]"

definition word16 :: "u8 \<Rightarrow> u8 \<Rightarrow> u16" where
  "word16 b0 b1 = ucast b0 OR push_bit 8 (ucast b1)"

definition word32 :: "u8 \<Rightarrow> u8 \<Rightarrow> u8 \<Rightarrow> u8 \<Rightarrow> u32" where
  "word32 b0 b1 b2 b3 =
     ucast b0 OR push_bit 8 (ucast b1) OR push_bit 16 (ucast b2) OR push_bit 24 (ucast b3)"

text \<open>Reads of a field at a byte offset of a buffer, as the C code reads through a cast pointer.\<close>

definition get16 :: "u8 list \<Rightarrow> nat \<Rightarrow> u16" where
  "get16 b i = word16 (b ! i) (b ! (i + 1))"

definition get32 :: "u8 list \<Rightarrow> nat \<Rightarrow> u32" where
  "get32 b i = word32 (b ! i) (b ! (i + 1)) (b ! (i + 2)) (b ! (i + 3))"

lemma length_bytes16 [simp]: "length (bytes16 w) = 2"
  by (simp add: bytes16_def)

lemma length_bytes32 [simp]: "length (bytes32 w) = 4"
  by (simp add: bytes32_def)

lemma word16_bytes16 [simp]: "word16 (ucast w) (ucast (drop_bit 8 w)) = w"
  by (rule bit_word_eqI) (auto simp: word16_def bit_simps)

lemma word32_bytes32 [simp]:
  "word32 (ucast w) (ucast (drop_bit 8 w)) (ucast (drop_bit 16 w)) (ucast (drop_bit 24 w)) = w"
proof (rule bit_word_eqI)
  fix n assume "n < LENGTH(32)"
  then consider "n < 8" | "8 \<le> n" "n < 16" | "16 \<le> n" "n < 24" | "24 \<le> n" "n < 32"
    by fastforce
  then show "bit (word32 (ucast w) (ucast (drop_bit 8 w)) (ucast (drop_bit 16 w))
      (ucast (drop_bit 24 w))) n = bit w n"
    by cases (auto simp: word32_def bit_simps)
qed

lemma bytes16_word16 [simp]: "bytes16 (word16 a b) = [a, b]"
proof -
  have "\<not> bit a (8 + n)" for n
    using bit_imp_le_length [of a "8 + n"] by auto
  then show ?thesis
    by (auto simp: bytes16_def word16_def bit_simps intro!: bit_word_eqI)
qed

lemma get16_bytes16 [simp]: "get16 (bytes16 w) 0 = w"
  by (simp add: get16_def bytes16_def)

lemma get16_blit:
  "off + 2 \<le> length b \<Longrightarrow> get16 (blit off (bytes16 w) b) off = w"
  by (simp add: get16_def buffer_simps) (simp add: bytes16_def)

lemma bytes16_inject [simp]: "bytes16 a = bytes16 b \<longleftrightarrow> a = b"
proof
  assume "bytes16 a = bytes16 b"
  then have "get16 (bytes16 a) 0 = get16 (bytes16 b) 0" by simp
  then show "a = b" by simp
qed simp

section \<open>C strings\<close>

text \<open>
  A C string is read from a byte buffer, the list of the bytes from the pointer to the end of the
  object it points into; reading past that end is undefined.
\<close>

definition str :: "string \<Rightarrow> u8 list" where
  "str = map of_char"

fun strlen :: "u8 list \<Rightarrow> nat option" where
  "strlen [] = None"
| "strlen (c # cs) = (if c = 0 then Some 0 else map_option Suc (strlen cs))"

lemma strlen_append: "0 \<notin> set s \<Longrightarrow> strlen (s @ 0 # r) = Some (length s)"
  by (induction s) auto

lemma strlen_Some_iff:
  "strlen b = Some n \<longleftrightarrow> n < length b \<and> b ! n = 0 \<and> (\<forall>i<n. b ! i \<noteq> 0)"
proof (induction b arbitrary: n)
  case (Cons c cs)
  then show ?case
    by (cases n) (auto simp: less_Suc_eq_0_disj split: if_splits)
qed simp

lemma strlen_Some_split:
  assumes "strlen b = Some n"
  shows "b = take n b @ 0 # drop (Suc n) b" and "0 \<notin> set (take n b)"
  using assms by (auto simp: strlen_Some_iff id_take_nth_drop [symmetric] in_set_conv_nth)
    (metis id_take_nth_drop)

end
