(* ===== verification/Libc.thy ===== *)
theory Libc
  imports Prelude
begin

text \<open>
  The C library replacements of the framework (\<^verbatim>\<open>libc_replacements.c\<close>) and its number/string
  conversions (\<^verbatim>\<open>core_esp8266_noniso.c\<close>).  A pointer argument is the list of bytes from the
  pointer to the end of its object; \<open>None\<close> is an access outside it.  Characters are unsigned
  (the default of the Xtensa compiler).  The \<^verbatim>\<open>__ieee754\<close> wrappers, \<^verbatim>\<open>strtod\<close> and
  \<^verbatim>\<open>dtostrf\<close> (floating point) and the \<^verbatim>\<open>printf\<close> family (calls of the ROM) are not modelled.
\<close>

section \<open>Allocation sizes\<close>

text \<open>\<^verbatim>\<open>malloc\<close> and \<^verbatim>\<open>realloc\<close> round the request up to a multiple of four before calling the SDK.\<close>

definition malloc_size :: "u32 \<Rightarrow> u32" where
  "malloc_size sz = (sz + 3) AND NOT 3"

lemma unat_malloc_size:
  assumes "unat sz + 3 < 2 ^ 32"
  shows "unat (malloc_size sz) = (unat sz + 3) div 4 * 4"
proof -
  have "unat (sz + 3) = unat sz + 3"
    using assms by (subst unat_add_no_wrap) auto
  then show ?thesis
    by (simp add: malloc_size_def width_simps minus_mod_eq_div_mult)
qed

section \<open>Character classes\<close>

definition iscntrl :: "int \<Rightarrow> bool" where
  "iscntrl c \<longleftrightarrow> c \<le> 0x1F \<or> c = 0x7F"

definition isdigit :: "int \<Rightarrow> bool" where
  "isdigit c \<longleftrightarrow> of_char (CHR ''0'') \<le> c \<and> c \<le> of_char (CHR ''9'')"

definition islower :: "int \<Rightarrow> bool" where
  "islower c \<longleftrightarrow> of_char (CHR ''a'') \<le> c \<and> c \<le> of_char (CHR ''z'')"

definition isupper :: "int \<Rightarrow> bool" where
  "isupper c \<longleftrightarrow> of_char (CHR ''A'') \<le> c \<and> c \<le> of_char (CHR ''Z'')"

definition isalpha :: "int \<Rightarrow> bool" where
  "isalpha c \<longleftrightarrow> islower c \<or> isupper c"

definition isalnum :: "int \<Rightarrow> bool" where
  "isalnum c \<longleftrightarrow> isalpha c \<or> isdigit c"

definition isprint :: "int \<Rightarrow> bool" where
  "isprint c \<longleftrightarrow> \<not> iscntrl c"

definition isgraph :: "int \<Rightarrow> bool" where
  "isgraph c \<longleftrightarrow> isprint c \<and> c \<noteq> of_char (CHR '' '')"

definition ispunct :: "int \<Rightarrow> bool" where
  "ispunct c \<longleftrightarrow> isgraph c \<and> \<not> isalnum c"

definition isspace :: "int \<Rightarrow> bool" where
  "isspace c \<longleftrightarrow> c \<in> {0x20, 0x09, 0x0a, 0x0b, 0x0c, 0x0d}"

definition isxdigit :: "int \<Rightarrow> bool" where
  "isxdigit c \<longleftrightarrow>
     (if of_char (CHR ''A'') \<le> c \<and> c \<le> of_char (CHR ''F'') then True
      else if of_char (CHR ''a'') \<le> c \<and> c \<le> of_char (CHR ''f'') then True
      else isdigit c)"

definition isblank :: "int \<Rightarrow> bool" where
  "isblank c \<longleftrightarrow> c \<in> {0x20, 0x09}"

definition tolower :: "int \<Rightarrow> int" where
  "tolower c = (if isupper c then c + 0x20 else c)"

definition toupper :: "int \<Rightarrow> int" where
  "toupper c = (if islower c then c - 0x20 else c)"

lemmas ctype_defs = iscntrl_def isdigit_def islower_def isupper_def isalpha_def isalnum_def
  isprint_def isgraph_def ispunct_def isspace_def isxdigit_def isblank_def tolower_def toupper_def

section \<open>Searching\<close>

fun strnlen :: "u8 list \<Rightarrow> nat \<Rightarrow> nat option" where
  "strnlen s 0 = Some 0"
| "strnlen [] (Suc n) = None"
| "strnlen (c # s) (Suc n) = (if c = 0 then Some 0 else map_option Suc (strnlen s n))"

text \<open>
  \<^verbatim>\<open>strchr\<close> and \<^verbatim>\<open>strrchr\<close> return a pointer into the string or NULL: here the offset, or the
  inner \<open>None\<close>.  \<^verbatim>\<open>(char) character\<close> is the low byte of the argument.
\<close>

fun strchr_from :: "u8 list \<Rightarrow> nat \<Rightarrow> u8 \<Rightarrow> nat option option" where
  "strchr_from [] i ch = None"
| "strchr_from (c # s) i ch =
     (if c = 0 then Some None else if c = ch then Some (Some i) else strchr_from s (Suc i) ch)"

definition strchr :: "u8 list \<Rightarrow> int \<Rightarrow> nat option option" where
  "strchr s character = strchr_from s 0 (word_of_int character)"

fun strrchr_from :: "u8 list \<Rightarrow> nat \<Rightarrow> u8 \<Rightarrow> nat option \<Rightarrow> nat option option" where
  "strrchr_from [] i ch ret = None"
| "strrchr_from (c # s) i ch ret =
     (if c = 0 then Some ret else strrchr_from s (Suc i) ch (if c = ch then Some i else ret))"

definition strrchr :: "u8 list \<Rightarrow> int \<Rightarrow> nat option option" where
  "strrchr s character = strrchr_from s 0 (word_of_int character) None"

fun strcasecmp :: "u8 list \<Rightarrow> u8 list \<Rightarrow> int option" where
  "strcasecmp (a # s1) (b # s2) =
     (let c1 = tolower (uint a); c2 = tolower (uint b); d = c1 - c2
      in if d \<noteq> 0 \<or> c2 = 0 then Some d else strcasecmp s1 s2)"
| "strcasecmp _ _ = None"

section \<open>Copying\<close>

fun strncat_loop :: "u8 list \<Rightarrow> nat \<Rightarrow> u8 list \<Rightarrow> nat \<Rightarrow> u8 list option" where
  "strncat_loop dest off src 0 = Some dest"
| "strncat_loop dest off [] (Suc n) = None"
| "strncat_loop dest off (c # src) (Suc n) =
     (if off < length dest
      then if c = 0 then Some (dest[off := c]) else strncat_loop (dest[off := c]) (Suc off) src n
      else None)"

definition strncat :: "u8 list \<Rightarrow> u8 list \<Rightarrow> nat \<Rightarrow> u8 list option" where
  "strncat dest src n = do { off \<leftarrow> strlen dest; strncat_loop dest off src n }"

definition strcat :: "u8 list \<Rightarrow> u8 list \<Rightarrow> u8 list option" where
  "strcat dest src = do { n \<leftarrow> strlen src; strncat dest src n }"

text \<open>The outcome of \<^verbatim>\<open>malloc\<close> is an argument: \<open>False\<close> is a NULL result.\<close>

definition strdup :: "bool \<Rightarrow> u8 list \<Rightarrow> u8 list option option" where
  "strdup malloc_ok s =
     do { n \<leftarrow> strlen s; Some (if malloc_ok then Some (take (n + 1) s) else None) }"

section \<open>Tokens\<close>

text \<open>
  \<^verbatim>\<open>strtok_r\<close> with a non-null \<^verbatim>\<open>str\<close>.  The \<^verbatim>\<open>for\<close> loop over the delimiters has no effect but its
  own \<^verbatim>\<open>break\<close>; \<open>delim_index\<close> is the value its counter stops at.  The result is the token the
  new heap object holds (\<^verbatim>\<open>size\<close> bytes, no terminator) and the offset stored in \<^verbatim>\<open>*temp\<close>.
\<close>

fun delim_index :: "u8 \<Rightarrow> u8 list \<Rightarrow> nat \<Rightarrow> nat" where
  "delim_index c [] i = i"
| "delim_index c (d # ds) i = (if c = d then i else delim_index c ds (Suc i))"

fun strtok_scan :: "u8 list \<Rightarrow> nat \<Rightarrow> u8 list \<Rightarrow> nat option" where
  "strtok_scan (c # s) end ds =
     (let i = delim_index c ds 0; end' = Suc end
      in case s of [] \<Rightarrow> None | c' # _ \<Rightarrow> if c' = 0 then Some end' else strtok_scan s end' ds)"
| "strtok_scan [] end ds = None"

fun strncpy :: "u8 list \<Rightarrow> nat \<Rightarrow> u8 list option" where
  "strncpy s 0 = Some []"
| "strncpy [] (Suc n) = None"
| "strncpy (c # s) (Suc n) =
     (if c = 0 then Some (replicate (Suc n) 0) else map_option ((#) c) (strncpy s n))"

definition strtok_r :: "u8 list \<Rightarrow> u8 list \<Rightarrow> (u8 list \<times> nat) option" where
  "strtok_r s delimiters =
     do { n \<leftarrow> strlen delimiters;
          end \<leftarrow> strtok_scan s 0 (take n delimiters);
          tok \<leftarrow> strncpy s end;
          Some (tok, end) }"

section \<open>What the string functions compute\<close>

lemma strnlen_spec: "strlen s = Some n \<Longrightarrow> strnlen s m = Some (min n m)"
proof (induction s m arbitrary: n rule: strnlen.induct)
  case (3 c s m)
  then show ?case by (cases n) (auto split: if_splits)
qed auto

lemma strchr_from_spec:
  "strlen s = Some n \<Longrightarrow>
   strchr_from s i ch = Some (map_option ((+) i) (find (\<lambda>j. s ! j = ch) [0..<n]))"
proof (induction s i ch arbitrary: n rule: strchr_from.induct)
  case (2 c s i ch)
  show ?case
  proof (cases "c = 0")
    case False
    with "2.prems" obtain m where m: "strlen s = Some m" "n = Suc m" by auto
    have "find (\<lambda>j. (c # s) ! j = ch) [Suc 0..<Suc m] = map_option Suc (find (\<lambda>j. s ! j = ch) [0..<m])"
      by (simp add: find_upt_Suc del: upt_Suc)
    with False m "2.IH" [OF False _ m(1)] show ?thesis
      by (auto simp: upt_conv_Cons option.map_comp comp_def simp del: upt_Suc)
  qed (use "2.prems" in simp)
qed simp

lemma strrchr_from_spec:
  "strlen s = Some n \<Longrightarrow>
   strrchr_from s i ch ret =
     Some (case find (\<lambda>j. s ! j = ch) (rev [0..<n]) of None \<Rightarrow> ret | Some j \<Rightarrow> Some (i + j))"
proof (induction s i ch ret arbitrary: n rule: strrchr_from.induct)
  case (2 c s i ch ret)
  show ?case
  proof (cases "c = 0")
    case False
    with "2.prems" obtain m where m: "strlen s = Some m" "n = Suc m" by auto
    have "rev [0..<Suc m] = map Suc (rev [0..<m]) @ [0]"
      by (simp add: map_Suc_upt upt_conv_Cons flip: rev_map del: upt_Suc)
    then have "find (\<lambda>j. (c # s) ! j = ch) (rev [0..<Suc m]) =
        (case find (\<lambda>j. s ! j = ch) (rev [0..<m]) of
           None \<Rightarrow> if c = ch then Some 0 else None | Some j \<Rightarrow> Some (Suc j))"
      by (simp add: find_append find_map comp_def del: upt_Suc split: option.splits)
    with False m "2.IH" [OF False m(1)] show ?thesis
      by (simp split: option.splits del: upt_Suc)
  qed (use "2.prems" in simp)
qed simp

text \<open>On a terminated string \<^verbatim>\<open>strchr\<close> returns the first and \<^verbatim>\<open>strrchr\<close> the last
  position before the terminator that holds the low byte of the argument, and NULL if there is
  none; neither reads past the terminator.  In particular, unlike the C standard's functions,
  neither ever finds the terminator itself.\<close>

theorem strchr_strrchr_find:
  assumes "strlen s = Some n"
  shows "strchr s character = Some (find (\<lambda>j. s ! j = word_of_int character) [0..<n]) \<and>
         strrchr s character = Some (find (\<lambda>j. s ! j = word_of_int character) (rev [0..<n])) \<and>
         strchr s 0 = Some None"
proof -
  have "find (\<lambda>j. s ! j = (0 :: u8)) [0..<n] = None"
    using assms by (auto simp: find_upt_None strlen_Some_iff)
  then show ?thesis
    using strchr_from_spec [OF assms, of 0] strrchr_from_spec [OF assms, of 0 _ None]
    by (simp add: strchr_def strrchr_def map_option_case split: option.splits)
qed

theorem strchr_strrchr_find_witness:
  "strchr (str ''a/b/c'' @ [0]) 47 = Some (Some 1) \<and> strrchr (str ''a/b/c'' @ [0]) 47 = Some (Some 3)"
proof -
  have "strlen (str ''a/b/c'' @ [0]) = Some 5" by (simp add: str_def)
  from strchr_strrchr_find [OF this, of 47] show ?thesis
    by (simp add: str_def upt_rec)
qed

lemma strncat_loop_blit:
  "n \<le> length src \<Longrightarrow> \<forall>i<n. src ! i \<noteq> 0 \<Longrightarrow> off + n \<le> length dest \<Longrightarrow>
   strncat_loop dest off src n = Some (blit off (take n src) dest)"
proof (induction dest off src n rule: strncat_loop.induct)
  case (3 dest off c src n)
  then have c: "c \<noteq> 0" and s: "\<forall>i<n. src ! i \<noteq> 0"
    by fastforce+
  have "blit (Suc off) (take n src) (dest[off := c]) = blit off (c # take n src) dest"
    using "3.prems" by (simp add: blit_def upd_conv_take_nth_drop add.commute)
  then show ?case using 3 c s by simp
qed (simp_all add: blit_def)

lemma strncat_blit:
  assumes "strlen dest = Some k" and "strlen src = Some m" and "n \<le> m" and "k + n \<le> length dest"
  shows "strncat dest src n = Some (blit k (take n src) dest)"
proof -
  have "n \<le> length src" "\<forall>i<n. src ! i \<noteq> 0"
    using assms(2,3) by (auto simp: strlen_Some_iff)
  then show ?thesis
    using assms strncat_loop_blit by (simp add: strncat_def)
qed

text \<open>\<^verbatim>\<open>strcat\<close> passes \<^verbatim>\<open>strlen(src)\<close> as the count to a \<^verbatim>\<open>strncat\<close> that stops
  before copying a terminator: the characters of the source land after those of the destination,
  every byte after them keeps its value, and the result is the concatenated string exactly if the
  destination buffer happened to hold a zero at that place.\<close>

theorem strcat_leaves_terminator:
  assumes "strlen dest = Some k" and "strlen src = Some m" and "k + m < length dest"
  shows "\<exists>d. strcat dest src = Some d \<and> length d = length dest \<and>
             slice 0 (k + m) d = slice 0 k dest @ slice 0 m src \<and>
             drop (k + m) d = drop (k + m) dest \<and>
             (strlen d = Some (k + m) \<longleftrightarrow> dest ! (k + m) = 0)"
proof -
  let ?d = "blit k (take m src) dest"
  have m: "m < length src" "\<forall>i<m. src ! i \<noteq> 0" and k: "\<forall>i<k. dest ! i \<noteq> 0"
    using assms by (auto simp: strlen_Some_iff)
  have eq: "strcat dest src = Some ?d"
    using strncat_blit [OF assms(1,2), of m] assms by (simp add: strcat_def)
  have nz: "?d ! i \<noteq> 0" if "i < k + m" for i
    using that m k assms(3) by (auto simp: buffer_simps)
  have "slice 0 (k + m) ?d = slice 0 k dest @ slice 0 m src"
    and "drop (k + m) ?d = drop (k + m) dest" and "length ?d = length dest"
    using m assms(3) by (simp_all add: blit_def slice_def)
  moreover have "strlen ?d = Some (k + m) \<longleftrightarrow> dest ! (k + m) = 0"
    using nz m assms(3) by (auto simp: strlen_Some_iff buffer_simps)
  ultimately show ?thesis using eq by blast
qed

theorem strcat_leaves_terminator_witness:
  "strcat (str ''ab'' @ [0, 7, 7]) (str ''c'' @ [0]) = Some (str ''abc'' @ [7, 7])
   \<and> strlen (str ''abc'' @ [7, 7]) \<noteq> Some 3"
proof -
  have h: "strlen (str ''ab'' @ [0, 7, 7]) = Some 2" "strlen (str ''c'' @ [0]) = Some 1"
    "2 + 1 < length (str ''ab'' @ [0, 7, 7 :: u8])"
    by (simp_all add: str_def)
  from strcat_leaves_terminator [OF h] show ?thesis
    by (simp add: strcat_def strncat_def str_def)
qed

lemma strtok_scan_to_end:
  "strlen s = Some n \<Longrightarrow> 0 < n \<Longrightarrow> strtok_scan s e ds = Some (e + n)"
proof (induction s e ds arbitrary: n rule: strtok_scan.induct)
  case (1 c s e ds)
  then obtain m where m: "strlen s = Some m" "n = Suc m" "c \<noteq> 0"
    by (cases "c = 0") auto
  show ?case
  proof (cases m)
    case 0
    with m show ?thesis by (cases s) (auto split: if_splits)
  next
    case (Suc j)
    with m obtain c' s' where "s = c' # s'" "c' \<noteq> 0" by (cases s) (auto split: if_splits)
    with "1.IH" [of _ _ c' s' m] m Suc show ?thesis by (simp add: Let_def)
  qed
qed simp

lemma strncpy_prefix:
  "n \<le> length s \<Longrightarrow> \<forall>i<n. s ! i \<noteq> 0 \<Longrightarrow> strncpy s n = Some (take n s)"
proof (induction s n rule: strncpy.induct)
  case (3 c s n)
  then have "c \<noteq> 0" "\<forall>i<n. s ! i \<noteq> 0" by fastforce+
  with 3 show ?case by simp
qed simp_all

text \<open>The inner \<^verbatim>\<open>break\<close> of \<^verbatim>\<open>strtok_r\<close> leaves only the loop over the delimiters, so on
  every non-empty string the token is the whole string and the saved position its terminator,
  whatever the delimiters: the function does not tokenise.\<close>

theorem strtok_r_ignores_delimiters:
  assumes "strlen s = Some n" and "0 < n" and "strlen delimiters = Some d"
  shows "strtok_r s delimiters = Some (take n s, n)"
proof -
  have "n \<le> length s" "\<forall>i<n. s ! i \<noteq> 0"
    using assms(1) by (auto simp: strlen_Some_iff)
  then show ?thesis
    using assms by (simp add: strtok_r_def strtok_scan_to_end strncpy_prefix)
qed

theorem strtok_r_ignores_delimiters_witness:
  "strtok_r (str ''a,b'' @ [0]) (str '','' @ [0]) = Some (str ''a,b'', 3)"
  using strtok_r_ignores_delimiters [of "str ''a,b'' @ [0]" 3 "str '','' @ [0]" 1]
  by (simp add: str_def)

end
