(* ===== verification/NumConv.thy ===== *)
theory NumConv
  imports Libc
begin

text \<open>
  Numbers to text and back: \<^verbatim>\<open>strtol\<close> (\<^verbatim>\<open>libc_replacements.c\<close>) with \<^verbatim>\<open>atol\<close>, \<^verbatim>\<open>atoi\<close>, and the
  \<^verbatim>\<open>itoa\<close> family (\<^verbatim>\<open>core_esp8266_noniso.c\<close>).  \<open>long\<close> and \<open>int\<close> are 32 bits; the
  accumulation in \<^verbatim>\<open>strtol\<close> wraps.  The lemmas give the digits the printers write, the buffer
  they need, and the round trip through the parser.
\<close>

section \<open>Parsing\<close>

fun skip_space :: "u8 list \<Rightarrow> u8 list option" where
  "skip_space [] = None"
| "skip_space (c # s) = (if isspace (uint c) then skip_space s else Some (c # s))"

fun strtol_digits :: "int \<Rightarrow> u8 list \<Rightarrow> u32 \<Rightarrow> (u32 \<times> u8 list) option" where
  "strtol_digits base [] r = None"
| "strtol_digits base (c # s) r =
     (if c = 0 then Some (r, c # s)
      else let x = uint c - of_char (CHR ''0'')
           in if x < 0 \<or> x > base - 1 then Some (r, c # s)
              else strtol_digits base s (r * word_of_int base + word_of_int x))"

text \<open>The result is the converted value and the string \<^verbatim>\<open>*endptr\<close> is left pointing to.\<close>

definition strtol :: "u8 list \<Rightarrow> int \<Rightarrow> (int \<times> u8 list) option" where
  "strtol s base =
     do { s \<leftarrow> skip_space s;
          (if hd s = 0 then Some (0, s)
           else if base = 10 then
             (let (sign, s) = (if hd s = of_char (CHR ''-'') then (- 1, tl s)
                               else if hd s = of_char (CHR ''+'') then (1, tl s)
                               else (1, s))
              in do { (r, e) \<leftarrow> strtol_digits 10 s 0; Some (sint (sign * r), e) })
           else if base = 2 then
             do { (r, e) \<leftarrow> strtol_digits 2 s 0; Some (sint r, e) }
           else Some (0, s)) }"

definition atol :: "u8 list \<Rightarrow> int option" where
  "atol s = do { (v, e) \<leftarrow> strtol s 10; Some v }"

definition atoi :: "u8 list \<Rightarrow> int option" where
  "atoi s = atol s"

section \<open>Printing\<close>

text \<open>The 17 bytes of the literal \<^verbatim>\<open>"0123456789abcdef"\<close> the code indexes.\<close>

definition digit_literal :: "u8 list" where
  "digit_literal = str ''0123456789abcdef'' @ [0]"

text \<open>\<^verbatim>\<open>abs\<close> of the smallest \<open>int\<close> is that value again.\<close>

definition c_abs :: "int \<Rightarrow> int" where
  "c_abs v = (if v = - (2 ^ 31) then v else \<bar>v\<bar>)"

text \<open>The \<^verbatim>\<open>do ... while\<close> loop: the bytes written so far, least significant digit first.\<close>

partial_function (option) itoa_loop :: "int \<Rightarrow> int \<Rightarrow> u8 list \<Rightarrow> u8 list option" where
  "itoa_loop base quot out =
     (let tmp = c_div quot base; i = quot - tmp * base
      in if 0 \<le> i \<and> i < int (length digit_literal)
         then (let out = out @ [digit_literal ! nat i]
               in if tmp \<noteq> 0 then itoa_loop base tmp out else Some out)
         else None)"

declare itoa_loop.simps [code]

function reverse_loop :: "'a list \<Rightarrow> nat \<Rightarrow> nat \<Rightarrow> 'a list" where
  "reverse_loop xs lo hi =
     (if lo < hi then reverse_loop (xs[hi := xs ! lo, lo := xs ! hi]) (Suc lo) (hi - 1) else xs)"
  by pat_completeness auto
termination
  by (relation "measure (\<lambda>(xs, lo, hi). hi - lo)") auto

declare reverse_loop.simps [simp del]

text \<open>\<^verbatim>\<open>reverse(begin, end)\<close> on offsets; \<^verbatim>\<open>end\<close> points past the last byte.\<close>

definition reverse :: "'a list \<Rightarrow> nat \<Rightarrow> nat \<Rightarrow> 'a list" where
  "reverse xs begin end = reverse_loop xs begin (end - 1)"

definition itoa :: "int \<Rightarrow> int \<Rightarrow> u8 list option" where
  "itoa value base =
     (if base < 2 \<or> base > 16 then Some [0]
      else do { out \<leftarrow> itoa_loop base (c_abs value) [];
                (let out = (if value < 0 then out @ [of_char (CHR ''-'')] else out)
                 in Some (reverse out 0 (length out) @ [0])) })"

definition ltoa :: "int \<Rightarrow> int \<Rightarrow> u8 list option" where
  "ltoa value base =
     (if base < 2 \<or> base > 16 then Some [0]
      else do { out \<leftarrow> itoa_loop base (c_abs value) [];
                (let out = (if value < 0 then out @ [of_char (CHR ''-'')] else out)
                 in Some (reverse out 0 (length out) @ [0])) })"

definition utoa :: "u32 \<Rightarrow> int \<Rightarrow> u8 list option" where
  "utoa value base =
     (if base < 2 \<or> base > 16 then Some [0]
      else do { out \<leftarrow> itoa_loop base (uint value) [];
                Some (reverse out 0 (length out) @ [0]) })"

definition ultoa :: "u32 \<Rightarrow> int \<Rightarrow> u8 list option" where
  "ultoa value base =
     (if base < 2 \<or> base > 16 then Some [0]
      else do { out \<leftarrow> itoa_loop base (uint value) [];
                Some (reverse out 0 (length out) @ [0]) })"

section \<open>In-place reversal\<close>

lemma reverse_loop_length [simp]: "length (reverse_loop xs lo hi) = length xs"
proof (induction xs lo hi rule: reverse_loop.induct)
  case (1 xs lo hi)
  then show ?case
    by (cases "lo < hi") (simp_all add: reverse_loop.simps [of xs lo hi])
qed

lemma reverse_loop_nth:
  "lo \<le> Suc hi \<Longrightarrow> hi < length xs \<Longrightarrow> i < length xs \<Longrightarrow>
   reverse_loop xs lo hi ! i = (if lo \<le> i \<and> i \<le> hi then xs ! (lo + hi - i) else xs ! i)"
proof (induction xs lo hi rule: reverse_loop.induct)
  case (1 xs lo hi)
  show ?case
  proof (cases "lo < hi")
    case True
    let ?xs = "xs[hi := xs ! lo, lo := xs ! hi]"
    have "reverse_loop xs lo hi ! i = reverse_loop ?xs (Suc lo) (hi - 1) ! i"
      using True by (simp add: reverse_loop.simps [of xs lo hi])
    also have "\<dots> = (if Suc lo \<le> i \<and> i \<le> hi - 1 then ?xs ! (Suc lo + (hi - 1) - i) else ?xs ! i)"
      using "1.IH" [OF True] "1.prems" True by simp
    also have "\<dots> = (if lo \<le> i \<and> i \<le> hi then xs ! (lo + hi - i) else xs ! i)"
      using True "1.prems" by (auto simp: nth_list_update not_le less_Suc_eq_le)
    finally show ?thesis .
  next
    case False
    have "lo + hi - i = i" if "lo \<le> i" and "i \<le> hi"
      using that False by simp
    with False show ?thesis
      by (auto simp: reverse_loop.simps [of xs lo hi])
  qed
qed

lemma reverse_rev: "reverse xs 0 (length xs) = rev xs"
proof (cases "xs = []")
  case True
  then show ?thesis by (simp add: reverse_def reverse_loop.simps)
next
  case False
  then show ?thesis
    by (intro nth_equalityI) (auto simp: reverse_def reverse_loop_nth rev_nth)
qed

section \<open>Digits\<close>

function lsb_digits :: "nat \<Rightarrow> nat \<Rightarrow> nat list" where
  "lsb_digits b n = (if b < 2 \<or> n < b then [n] else n mod b # lsb_digits b (n div b))"
  by pat_completeness auto
termination
  by (relation "measure snd") auto

declare lsb_digits.simps [simp del]

definition digit_byte :: "nat \<Rightarrow> u8" where
  "digit_byte d = digit_literal ! d"

lemma itoa_loop_digits:
  "2 \<le> b \<Longrightarrow> b \<le> 16 \<Longrightarrow>
   itoa_loop (int b) (int n) out = Some (out @ map digit_byte (lsb_digits b n))"
proof (induction b n arbitrary: out rule: lsb_digits.induct)
  case (1 b n)
  have i: "int n - int (n div b) * int b = int (n mod b)"
    by (metis div_times_less_eq_dividend minus_div_mult_eq_mod of_nat_diff of_nat_mult)
  have d: "n mod b < 17"
    using "1.prems" mod_less_divisor [of b n] by linarith
  have l: "length digit_literal = 17" by (simp add: digit_literal_def str_def)
  show ?case
  proof (cases "n < b")
    case True
    then show ?thesis
      using d i l by (simp add: itoa_loop.simps lsb_digits.simps [of b n] Let_def digit_byte_def)
  next
    case False
    with "1.prems" have "n div b \<noteq> 0" by (simp add: div_eq_0_iff)
    with False "1.IH" "1.prems" show ?thesis
      using d i l
      by (simp add: itoa_loop.simps [of "int b" "int n"] lsb_digits.simps [of b n] Let_def digit_byte_def)
  qed
qed


lemma lsb_digits_less: "2 \<le> b \<Longrightarrow> d \<in> set (lsb_digits b n) \<Longrightarrow> d < b"
proof (induction b n rule: lsb_digits.induct)
  case (1 b n)
  then show ?case
    by (cases "n < b") (auto simp: lsb_digits.simps [of b n])
qed

lemma lsb_digits_value: "2 \<le> b \<Longrightarrow> foldr (\<lambda>d a. d + b * a) (lsb_digits b n) 0 = n"
proof (induction b n rule: lsb_digits.induct)
  case (1 b n)
  then show ?case
    by (cases "n < b") (simp_all add: lsb_digits.simps [of b n])
qed

lemma lsb_digits_length: "2 \<le> b \<Longrightarrow> 0 < k \<Longrightarrow> n < b ^ k \<Longrightarrow> length (lsb_digits b n) \<le> k"
proof (induction b n arbitrary: k rule: lsb_digits.induct)
  case (1 b n)
  show ?case
  proof (cases "n < b")
    case True
    with "1.prems" show ?thesis by (simp add: lsb_digits.simps [of b n])
  next
    case False
    obtain j where k: "k = Suc j" using "1.prems"(2) by (cases k) auto
    have "0 < j" using False "1.prems"(3) k by (cases j) auto
    have "n div b < b ^ j"
      using "1.prems" k by (simp add: less_mult_imp_div_less mult.commute)
    then show ?thesis
      using "1.IH" [of j] "1.prems" False k \<open>0 < j\<close> by (simp add: lsb_digits.simps [of b n])
  qed
qed

lemma lsb_digits_nonempty [simp]: "lsb_digits b n \<noteq> []"
  by (simp add: lsb_digits.simps [of b n])

lemma digit_byte_decimal: "d < 10 \<Longrightarrow> uint (digit_byte d) = 48 + int d"
proof -
  assume "d < 10"
  then have "d \<in> {0, 1, 2, 3, 4, 5, 6, 7, 8, 9}" by auto
  then show ?thesis by (auto simp: digit_byte_def digit_literal_def str_def)
qed

lemma strtol_digits_scan:
  assumes "b \<le> 10"
  shows "\<forall>d \<in> set ds. d < b \<Longrightarrow>
    strtol_digits (int b) (map digit_byte ds @ 0 # rest) r =
    Some (foldl (\<lambda>r d. r * of_nat b + of_nat d) r ds, 0 # rest)"
proof (induction ds arbitrary: r)
  case (Cons d ds)
  with assms have "d < 10" "d < b" by auto
  then have u: "uint (digit_byte d) = 48 + int d" by (simp add: digit_byte_decimal)
  then have "digit_byte d \<noteq> 0" by auto
  with u \<open>d < b\<close> Cons show ?case by (simp add: Let_def)
qed simp

lemma foldl_digits_value:
  "foldl (\<lambda>r d. r * of_nat b + of_nat d) (0 :: u32) (rev ds) = of_nat (foldr (\<lambda>d a. d + b * a) ds 0)"
  by (induction ds) (simp_all add: algebra_simps)

lemma strtol_digits_printed:
  assumes "2 \<le> b" and "b \<le> 10"
  shows "strtol_digits (int b) (rev (map digit_byte (lsb_digits b n)) @ 0 # rest) 0 = Some (of_nat n, 0 # rest)"
proof -
  have "\<forall>d \<in> set (rev (lsb_digits b n)). d < b"
    using assms lsb_digits_less by auto
  from strtol_digits_scan [OF assms(2) this, of rest 0] show ?thesis
    using assms by (simp add: rev_map foldl_digits_value lsb_digits_value)
qed

section \<open>What the printers write\<close>

lemma itoa_text:
  assumes "2 \<le> b" "b \<le> 16" "v \<noteq> - (2 ^ 31)"
  shows "itoa v (int b) = Some ((if v < 0 then [45] else []) @
           rev (map digit_byte (lsb_digits b (nat \<bar>v\<bar>))) @ [0])"
proof -
  have "itoa_loop (int b) \<bar>v\<bar> [] = Some (map digit_byte (lsb_digits b (nat \<bar>v\<bar>)))"
    using itoa_loop_digits [OF assms(1,2), of "nat \<bar>v\<bar>" "[]"] by simp
  then show ?thesis
    using assms by (simp add: itoa_def c_abs_def Let_def reverse_rev)
qed

lemma utoa_text:
  assumes "2 \<le> b" "b \<le> 16"
  shows "utoa v (int b) = Some (rev (map digit_byte (lsb_digits b (unat v))) @ [0])"
proof -
  have "itoa_loop (int b) (uint v) [] = Some (map digit_byte (lsb_digits b (unat v)))"
    using itoa_loop_digits [OF assms(1,2), of "unat v" "[]"] by simp
  then show ?thesis
    using assms by (simp add: utoa_def reverse_rev)
qed

lemma ltoa_itoa: "ltoa v b = itoa v b"
  by (simp add: ltoa_def itoa_def)

lemma ultoa_utoa: "ultoa v b = utoa v b"
  by (simp add: ultoa_def utoa_def)

lemma printed_head:
  assumes "2 \<le> b" "b \<le> 10"
  obtains c s where "rev (map digit_byte (lsb_digits b n)) = c # s"
    and "48 \<le> uint c" and "uint c \<le> 57"
proof -
  obtain d ds where r: "rev (lsb_digits b n) = d # ds"
    by (cases "rev (lsb_digits b n)") auto
  then have "d \<in> set (lsb_digits b n)" by (metis list.set_intros(1) set_rev)
  then have "d < 10" using assms lsb_digits_less [of b d n] by simp
  then show ?thesis using r digit_byte_decimal [of d] that [of "digit_byte d" "map digit_byte ds"]
    by (simp add: rev_map)
qed


lemma skip_space_head:
  "\<not> isspace (uint c) \<Longrightarrow> skip_space (c # s) = Some (c # s)"
  by simp

lemma atol_digits:
  "atol (rev (map digit_byte (lsb_digits 10 n)) @ 0 # rest) = Some (sint (of_nat n :: u32))"
proof -
  obtain c s where cs: "rev (map digit_byte (lsb_digits 10 n)) = c # s" "48 \<le> uint c" "uint c \<le> 57"
    by (rule printed_head [of 10 n]) auto
  have sp: "\<not> isspace (uint c)" and c: "c \<noteq> 0" "c \<noteq> 45" "c \<noteq> 43"
    using cs(2,3) by (auto simp: isspace_def)
  show ?thesis
    using strtol_digits_printed [of 10 n rest] cs(1) sp c by (simp add: atol_def strtol_def)
qed

lemma atol_negative_digits:
  "atol (45 # rev (map digit_byte (lsb_digits 10 n)) @ 0 # rest) = Some (sint (- of_nat n :: u32))"
  using strtol_digits_printed [of 10 n rest] by (simp add: atol_def strtol_def isspace_def)

text \<open>C40 (roundtrip). The decimal text \<^verbatim>\<open>itoa\<close> writes for any \<open>int\<close> but the smallest is parsed back to
  the same value by \<^verbatim>\<open>atol\<close>, whatever bytes follow the terminator in memory.\<close>

theorem atol_itoa:
  assumes "s32_range v" and "v \<noteq> - (2 ^ 31)"
  shows "\<exists>s. itoa v 10 = Some s \<and> atol (s @ rest) = Some v"
proof -
  have n: "- of_nat (nat \<bar>v\<bar>) = (word_of_int v :: u32)" if "v < 0"
  proof -
    from that obtain k where "v = - int k" by (metis int_cases less_irrefl of_nat_less_0_iff)
    then show ?thesis by simp
  qed
  have p: "of_nat (nat \<bar>v\<bar>) = (word_of_int v :: u32)" if "0 \<le> v"
    using that by simp
  have "sint (if v < 0 then - of_nat (nat \<bar>v\<bar>) else of_nat (nat \<bar>v\<bar>) :: u32) = v"
  proof (cases "v < 0")
    case True
    show ?thesis unfolding if_P [OF True] n [OF True] by (rule sint_word_of_int_s32 [OF assms(1)])
  next
    case False
    then have "0 \<le> v" by simp
    show ?thesis unfolding if_not_P [OF False] p [OF \<open>0 \<le> v\<close>]
      by (rule sint_word_of_int_s32 [OF assms(1)])
  qed
  then show ?thesis
    using itoa_text [of 10 v] assms atol_digits [of "nat \<bar>v\<bar>" rest]
      atol_negative_digits [of "nat \<bar>v\<bar>" rest]
    by auto
qed

theorem atol_itoa_witness:
  "\<exists>s. itoa (- 5660) 10 = Some s \<and> atol (s @ [7]) = Some (- 5660)"
  by (rule atol_itoa) (simp_all add: s32_range_def)

lemma c_div_negative: "c_div (- int n) (int b) = - int (n div b)"
  by (cases "n = 0"; cases "b = 0") (auto simp: c_div_def zdiv_int)

text \<open>A negative quotient makes the index into the digit table negative sooner or later.\<close>

lemma itoa_loop_negative:
  "0 < n \<Longrightarrow> 2 \<le> b \<Longrightarrow> itoa_loop (int b) (- int n) out = None"
proof (induction n arbitrary: out rule: less_induct)
  case (less n)
  have "int n = int (n div b) * int b + int (n mod b)"
    by (metis div_mult_mod_eq of_nat_add of_nat_mult)
  then have i: "- int n - (- int (n div b) * int b) = - int (n mod b)" by simp
  show ?case
  proof (cases "n mod b = 0")
    case True
    with less.prems have "n div b < n" "0 < n div b"
      by (auto simp: div_greater_zero_iff dest!: mod_eq_0_iff_dvd [THEN iffD1] dvd_imp_le)
    with less show ?thesis
      using i True by (simp add: itoa_loop.simps [of "int b" "- int n"] c_div_negative Let_def)
  next
    case False
    with i show ?thesis
      by (simp add: itoa_loop.simps [of "int b" "- int n"] c_div_negative Let_def)
  qed
qed

lemma itoa_min: "2 \<le> b \<Longrightarrow> b \<le> 16 \<Longrightarrow> itoa (- (2 ^ 31)) (int b) = None"
  using itoa_loop_negative [of "2 ^ 31" b] by (simp add: itoa_def c_abs_def)

text \<open>The stack buffers of the \<^verbatim>\<open>String\<close> constructors, \<^verbatim>\<open>2 + 8 * sizeof(int)\<close> bytes for
  \<^verbatim>\<open>itoa\<close> and one less for \<^verbatim>\<open>utoa\<close>, hold the text of every value in every base, terminator
  included, except for the smallest \<open>int\<close>, where \<^verbatim>\<open>itoa\<close> reads outside its digit table.\<close>

theorem number_text_fits:
  "(itoa v base = None \<longleftrightarrow> v = - (2 ^ 31) \<and> 2 \<le> base \<and> base \<le> 16) \<and>
   (\<forall>s. s32_range v \<and> itoa v base = Some s \<longrightarrow> length s \<le> 2 + 8 * 4 \<and> last s = 0) \<and>
   (\<exists>s. utoa w base = Some s \<and> length s \<le> 1 + 8 * 4 \<and> last s = 0)"
proof (cases "2 \<le> base \<and> base \<le> 16")
  case False
  then show ?thesis by (auto simp: itoa_def utoa_def)
next
  case True
  then obtain b where b: "base = int b" "2 \<le> b" "b \<le> 16"
    by (metis nat_0_le nat_le_iff of_nat_numeral of_nat_le_iff order_trans zero_le_numeral)
  have len: "length (lsb_digits b n) \<le> 32" if "n < 2 ^ 32" for n
    using lsb_digits_length [OF b(2), of 32 n] that power_mono [OF b(2), of 32] by simp
  have "length (lsb_digits b (unat w)) \<le> 32"
    using len [of "unat w"] unat_u32_less [of w] by simp
  moreover have "length (lsb_digits b (nat \<bar>v\<bar>)) \<le> 32" if "s32_range v"
    using that by (intro len) (auto simp: s32_range_def)
  ultimately show ?thesis
    using itoa_min [OF b(2,3)] itoa_text [OF b(2,3), of v] utoa_text [OF b(2,3), of w] b
    by (cases "v = - (2 ^ 31)") auto
qed

theorem number_text_fits_witness:
  "s32_range (- 5660) \<and> itoa (- 5660) 16 = Some (str ''-161c'' @ [0])
   \<and> length (str ''-161c'' @ [0]) \<le> 34"
proof -
  have r: "s32_range (- 5660)" by (simp add: s32_range_def)
  have e: "itoa (- 5660) 16 = Some (str ''-161c'' @ [0])" by code_simp
  show ?thesis
    using number_text_fits [of "- 5660" 16 0] r e by simp
qed

end
