(* ===== verification/Flashmem.thy ===== *)
theory Flashmem
  imports Prelude
begin

text \<open>
  The SPI flash access layer: \<^verbatim>\<open>spiffs_esp8266.c\<close> (word-aligned accesses made out of unaligned
  ones) and the three callbacks \<^verbatim>\<open>api_spiffs_read/write/erase\<close> of \<^verbatim>\<open>FileSystem.cpp\<close> that the file
  system reaches the flash through.

  The SDK's \<^verbatim>\<open>spi_flash_*\<close> functions and the heap are not part of the sources: they are the
  record \<open>sdk\<close>, an argument of every function here, over an arbitrary type \<open>'d\<close> of chip
  contents.  Locale \<open>flash_chip\<close> states their documented behaviour on NOR flash: aligned reads
  return the stored bytes, aligned writes clear bits, a sector erase sets 4096 bytes to \<open>0xff\<close>.  It says nothing
  of the heap, so the copy of a source that is not aligned may fail; locale \<open>spi_chip\<close> adds that every request for
  memory succeeds.  The destination of a read is taken to be aligned as the SDK wants it.
\<close>

section \<open>NOR memory\<close>

text \<open>The effect of programming and of erasing on the bytes of the chip.\<close>

definition nor_program :: "(nat \<Rightarrow> u8) \<Rightarrow> nat \<Rightarrow> u8 list \<Rightarrow> nat \<Rightarrow> u8" where
  "nor_program m a bs = (\<lambda>i. if a \<le> i \<and> i < a + length bs then m i AND bs ! (i - a) else m i)"

definition nor_erase :: "(nat \<Rightarrow> u8) \<Rightarrow> nat \<Rightarrow> nat \<Rightarrow> nat \<Rightarrow> u8" where
  "nor_erase m a n = (\<lambda>i. if a \<le> i \<and> i < a + n then 0xff else m i)"

definition nor_read :: "(nat \<Rightarrow> u8) \<Rightarrow> nat \<Rightarrow> nat \<Rightarrow> u8 list" where
  "nor_read m a n = map m [a..<a + n]"

named_theorems nor_simps "equations of the NOR memory"

lemma length_nor_read [simp]: "length (nor_read m a n) = n"
  by (simp add: nor_read_def)

lemma nth_nor_read [simp]: "i < n \<Longrightarrow> nor_read m a n ! i = m (a + i)"
  by (simp add: nor_read_def)

lemma nor_read_append [nor_simps]: "nor_read m a (n + k) = nor_read m a n @ nor_read m (a + n) k"
  using upt_add_eq_append [of a "a + n" k] by (simp add: nor_read_def add.assoc)

lemma slice_nor_read: "r + k \<le> n \<Longrightarrow> slice r k (nor_read m a n) = nor_read m (a + r) k"
  by (rule nth_equalityI) (simp_all add: nth_slice add.assoc)

lemma nor_program_Nil [simp]: "nor_program m a [] = m"
  by (auto simp: nor_program_def fun_eq_iff)

lemma nor_program_append [nor_simps]:
  "nor_program (nor_program m a bs) (a + length bs) cs = nor_program m a (bs @ cs)"
  by (auto simp: nor_program_def fun_eq_iff nth_append)

text \<open>Writing back what a word already holds changes nothing, so a read-modify-write of whole words
  programs just the modified bytes.\<close>

lemma nor_program_merge:
  assumes "r + length bs \<le> n"
  shows "nor_program m a (blit r bs (nor_read m a n)) = nor_program m (a + r) bs"
proof
  fix i
  consider "i < a" | "a + n \<le> i" | k where "i = a + k" "k < n"
    by (metis le_add_diff_inverse less_diff_conv2 not_less add.commute le_add_diff_inverse2)
  then show "nor_program m a (blit r bs (nor_read m a n)) i = nor_program m (a + r) bs i"
    using assms by cases (auto simp: nor_program_def buffer_simps)
qed

lemma nor_read_program_erased:
  assumes "\<And>i. a \<le> i \<Longrightarrow> i < a + length bs \<Longrightarrow> m i = 0xff"
  shows "nor_read (nor_program m a bs) a (length bs) = bs"
proof (rule nth_equalityI)
  fix i assume "i < length (nor_read (nor_program m a bs) a (length bs))"
  then show "nor_read (nor_program m a bs) a (length bs) ! i = bs ! i"
    using assms by (simp add: nor_program_def)
qed simp

section \<open>The SDK and the processor state\<close>

text \<open>
  The SDK routines take the size field of \<^verbatim>\<open>flashchip\<close> as an argument because the code changes it
  around each call.  \<open>spi_flash_read\<close> returns whether the result was \<^verbatim>\<open>SPI_FLASH_RESULT_OK\<close> and
  the bytes it left in the destination buffer; \<open>os_malloc_ok\<close> says whether a request of that size
  is granted and \<open>tmpdata_addr\<close> is the address of the local word buffer.
\<close>

record 'd sdk =
  spi_flash_erase_sector :: "u32 \<Rightarrow> u32 \<Rightarrow> 'd \<Rightarrow> bool \<times> 'd"
  spi_flash_write :: "u32 \<Rightarrow> u32 \<Rightarrow> u8 list \<Rightarrow> 'd \<Rightarrow> bool \<times> 'd"
  spi_flash_read :: "u32 \<Rightarrow> u32 \<Rightarrow> u32 \<Rightarrow> 'd \<Rightarrow> bool \<times> u8 list \<times> 'd"
  os_malloc_ok :: "u32 \<Rightarrow> bool"
  tmpdata_addr :: u32

record 'd flash_hw =
  chip_size :: u32
  ps :: u32
  interrupts_state :: u32
  chip :: 'd

definition noInterrupts :: "'d flash_hw \<Rightarrow> 'd flash_hw" where
  "noInterrupts hw = hw\<lparr>interrupts_state := ps hw, ps := ps hw OR 15\<rparr>"

definition interrupts :: "'d flash_hw \<Rightarrow> 'd flash_hw" where
  "interrupts hw = hw\<lparr>ps := interrupts_state hw\<rparr>"

definition INTERNAL_FLASH_START_ADDRESS :: u32 where
  "INTERNAL_FLASH_START_ADDRESS = 0x40200000"

definition INTERNAL_FLASH_SECTOR_SIZE :: u32 where
  "INTERNAL_FLASH_SECTOR_SIZE = 4096"

section \<open>Lowest level accesses\<close>

definition flashmem_erase_sector :: "'d sdk \<Rightarrow> u32 \<Rightarrow> 'd flash_hw \<Rightarrow> bool \<times> 'd flash_hw" where
  "flashmem_erase_sector k sector_id hw =
     (let hw = noInterrupts hw;
          size = chip_size hw;
          hw = hw\<lparr>chip_size := 0x01000000\<rparr>;
          (erased, d) = spi_flash_erase_sector k (chip_size hw) sector_id (chip hw);
          hw = hw\<lparr>chip := d, chip_size := size\<rparr>
      in (erased, interrupts hw))"

definition flashmem_write_internal ::
  "'d sdk \<Rightarrow> u32 \<Rightarrow> u8 list \<Rightarrow> u32 \<Rightarrow> 'd flash_hw \<Rightarrow> u32 \<times> 'd flash_hw" where
  "flashmem_write_internal k from data toaddr hw =
     (let toaddr = toaddr - INTERNAL_FLASH_START_ADDRESS; size = word_of_nat (length data)
      in if from AND 3 \<noteq> 0 \<and> \<not> os_malloc_ok k size then (0, hw)
         else let hw = noInterrupts hw;
                  old = chip_size hw;
                  hw = hw\<lparr>chip_size := 0x01000000\<rparr>;
                  (r, d) = spi_flash_write k (chip_size hw) toaddr data (chip hw);
                  hw = interrupts (hw\<lparr>chip := d, chip_size := old\<rparr>)
              in (if r then size else 0, hw))"

definition flashmem_read_internal ::
  "'d sdk \<Rightarrow> u32 \<Rightarrow> u32 \<Rightarrow> 'd flash_hw \<Rightarrow> u32 \<times> u8 list \<times> 'd flash_hw" where
  "flashmem_read_internal k fromaddr sz hw =
     (let fromaddr = fromaddr - INTERNAL_FLASH_START_ADDRESS;
          hw = noInterrupts hw;
          old = chip_size hw;
          hw = hw\<lparr>chip_size := 0x01000000\<rparr>;
          (r, buf, d) = spi_flash_read k (chip_size hw) fromaddr sz (chip hw);
          hw = interrupts (hw\<lparr>chip := d, chip_size := old\<rparr>)
      in (if r then sz else 0, buf, hw))"

section \<open>Unaligned accesses\<close>

text \<open>\<^verbatim>\<open>for (i = ..; size && i < lim; i++, size--, pfrom++) tmpdata[i] = *pfrom;\<close> with the bytes still
  to be written as the second result.\<close>

fun fill_tmp :: "nat \<Rightarrow> nat \<Rightarrow> u8 list \<Rightarrow> u8 list \<Rightarrow> u8 list \<times> u8 list" where
  "fill_tmp i lim tmp [] = (tmp, [])"
| "fill_tmp i lim tmp (b # pfrom) =
     (if i < lim then fill_tmp (Suc i) lim (tmp[i := b]) pfrom else (tmp, b # pfrom))"

text \<open>The second part of \<^verbatim>\<open>flashmem_write\<close>, from an aligned address on.\<close>

definition flashmem_write_aligned ::
  "'d sdk \<Rightarrow> u32 \<Rightarrow> u8 list \<Rightarrow> u32 \<Rightarrow> 'd flash_hw \<Rightarrow> 'd flash_hw" where
  "flashmem_write_aligned k pfrom data toaddr hw =
     (let size = word_of_nat (length data) :: u32;
          rest = size AND 3;
          temp = size AND NOT 3;
          (pfrom, data, toaddr, hw) =
            (if temp \<noteq> 0
             then let (n, hw) = flashmem_write_internal k pfrom (take (unat temp) data) toaddr hw
                  in (pfrom + temp, drop (unat temp) data, toaddr + temp, hw)
             else (pfrom, data, toaddr, hw))
      in if rest \<noteq> 0
         then let (n, tmpdata, hw) = flashmem_read_internal k toaddr 4 hw;
                  (tmpdata, data) = fill_tmp 0 (unat rest) tmpdata data;
                  (n, hw) = flashmem_write_internal k (tmpdata_addr k) tmpdata toaddr hw
              in hw
         else hw)"

definition flashmem_write ::
  "'d sdk \<Rightarrow> u32 \<Rightarrow> u8 list \<Rightarrow> u32 \<Rightarrow> 'd flash_hw \<Rightarrow> u32 \<times> 'd flash_hw" where
  "flashmem_write k from data toaddr hw =
     (let ssize = word_of_nat (length data)
      in if toaddr AND 3 \<noteq> 0
         then let rest = toaddr AND 3;
                  temp = toaddr AND NOT 3;
                  (n, tmpdata, hw) = flashmem_read_internal k temp 4 hw;
                  (tmpdata, data') = fill_tmp (unat rest) 4 tmpdata data;
                  pfrom = from + word_of_nat (length data - length data');
                  (n, hw) = flashmem_write_internal k (tmpdata_addr k) tmpdata temp hw
              in if data' = [] then (ssize, hw)
                 else (ssize, flashmem_write_aligned k pfrom data' (temp + 4) hw)
         else (ssize, flashmem_write_aligned k from data toaddr hw))"

text \<open>\<^verbatim>\<open>for (i = ..; size && i < lim; i++, size--, pto++) *pto = tmpdata[i];\<close>: the bytes copied and the
  size still to be read.\<close>

fun drain_tmp :: "nat \<Rightarrow> nat \<Rightarrow> u8 list \<Rightarrow> nat \<Rightarrow> u8 list \<times> nat" where
  "drain_tmp i lim tmp 0 = ([], 0)"
| "drain_tmp i lim tmp (Suc sz) =
     (if i < lim then let (bs, n) = drain_tmp (Suc i) lim tmp sz in (tmp ! i # bs, n)
      else ([], Suc sz))"

definition flashmem_read_aligned ::
  "'d sdk \<Rightarrow> u32 \<Rightarrow> nat \<Rightarrow> 'd flash_hw \<Rightarrow> u8 list \<times> 'd flash_hw" where
  "flashmem_read_aligned k fromaddr sz hw =
     (let size = word_of_nat sz :: u32;
          rest = size AND 3;
          temp = size AND NOT 3;
          (bs, fromaddr, hw) =
            (if temp \<noteq> 0
             then let (n, buf, hw) = flashmem_read_internal k fromaddr temp hw
                  in (buf, fromaddr + temp, hw)
             else ([], fromaddr, hw))
      in if rest \<noteq> 0
         then let (n, tmpdata, hw) = flashmem_read_internal k fromaddr 4 hw;
                  (cs, n) = drain_tmp 0 (unat rest) tmpdata (sz - unat temp)
              in (bs @ cs, hw)
         else (bs, hw))"

text \<open>The second result is the destination buffer.\<close>

definition flashmem_read ::
  "'d sdk \<Rightarrow> u32 \<Rightarrow> u32 \<Rightarrow> 'd flash_hw \<Rightarrow> u32 \<times> u8 list \<times> 'd flash_hw" where
  "flashmem_read k fromaddr sz hw =
     (let ssize = sz
      in if fromaddr AND 3 \<noteq> 0
         then let rest = fromaddr AND 3;
                  temp = fromaddr AND NOT 3;
                  (n, tmpdata, hw) = flashmem_read_internal k temp 4 hw;
                  (bs, size') = drain_tmp (unat rest) 4 tmpdata (unat sz)
              in if size' = 0 then (ssize, bs, hw)
                 else let (cs, hw) = flashmem_read_aligned k (temp + 4) size' hw
                      in (ssize, bs @ cs, hw)
         else let (cs, hw) = flashmem_read_aligned k fromaddr (unat sz) hw
              in (ssize, cs, hw))"

definition flashmem_get_sector_of_address :: "u32 \<Rightarrow> u32" where
  "flashmem_get_sector_of_address addr =
     (addr - INTERNAL_FLASH_START_ADDRESS) div INTERNAL_FLASH_SECTOR_SIZE"

section \<open>The callbacks given to the file system\<close>

definition SPIFFS_ERR_INTERNAL :: int where
  "SPIFFS_ERR_INTERNAL = - 10050"

definition api_spiffs_read :: "'d sdk \<Rightarrow> u32 \<Rightarrow> u32 \<Rightarrow> 'd flash_hw \<Rightarrow> int \<times> u8 list \<times> 'd flash_hw" where
  "api_spiffs_read k addr sz hw = (let (n, bs, hw) = flashmem_read k addr sz hw in (0, bs, hw))"

definition api_spiffs_write :: "'d sdk \<Rightarrow> u32 \<Rightarrow> u32 \<Rightarrow> u8 list \<Rightarrow> 'd flash_hw \<Rightarrow> int \<times> 'd flash_hw" where
  "api_spiffs_write k src addr data hw = (let (n, hw) = flashmem_write k src data addr hw in (0, hw))"

text \<open>\<^verbatim>\<open>while (sect_first <= sect_last) if (!flashmem_erase_sector(sect_first++)) return ..\<close>\<close>

partial_function (option) erase_sectors ::
  "'d sdk \<Rightarrow> u32 \<Rightarrow> u32 \<Rightarrow> 'd flash_hw \<Rightarrow> (int \<times> 'd flash_hw) option" where
  "erase_sectors k sect_first sect_last hw =
     (if sect_first \<le> sect_last
      then let (ok, hw) = flashmem_erase_sector k sect_first hw
           in if ok then erase_sectors k (sect_first + 1) sect_last hw
              else Some (SPIFFS_ERR_INTERNAL, hw)
      else Some (0, hw))"

declare erase_sectors.simps [code]

definition api_spiffs_erase :: "'d sdk \<Rightarrow> u32 \<Rightarrow> u32 \<Rightarrow> 'd flash_hw \<Rightarrow> (int \<times> 'd flash_hw) option" where
  "api_spiffs_erase k addr sz hw =
     (let sect_first = flashmem_get_sector_of_address addr;
          sect_last = flashmem_get_sector_of_address (addr + sz)
      in erase_sectors k sect_first sect_last hw)"

section \<open>The contract of the chip\<close>

locale flash_chip =
  fixes k :: "'d sdk" and view :: "'d \<Rightarrow> nat \<Rightarrow> u8"
  assumes read_ok:
    "\<lbrakk>unat a mod 4 = 0; unat n mod 4 = 0; unat a + unat n \<le> unat csz\<rbrakk> \<Longrightarrow>
     \<exists>d'. spi_flash_read k csz a n d = (True, nor_read (view d) (unat a) (unat n), d') \<and> view d' = view d"
  and write_ok:
    "\<lbrakk>unat a mod 4 = 0; length bs mod 4 = 0; unat a + length bs \<le> unat csz\<rbrakk> \<Longrightarrow>
     \<exists>d'. spi_flash_write k csz a bs d = (True, d') \<and> view d' = nor_program (view d) (unat a) bs"
  and erase_ok:
    "unat s * 4096 + 4096 \<le> unat csz \<Longrightarrow>
     \<exists>d'. spi_flash_erase_sector k csz s d = (True, d') \<and> view d' = nor_erase (view d) (unat s * 4096) 4096"
  and word_buffer: "tmpdata_addr k AND 3 = 0"

text \<open>With memory for every request: what a caller needs that lets the source buffer lie anywhere.\<close>

locale spi_chip = flash_chip k view for k :: "'d sdk" and view :: "'d \<Rightarrow> nat \<Rightarrow> u8" +
  assumes heap_ok: "os_malloc_ok k n"
begin

text \<open>What an access leaves behind: the same SDK settings and interrupt level, and a chip with the
  given contents.\<close>

abbreviation leaves :: "'d flash_hw \<Rightarrow> (nat \<Rightarrow> u8) \<Rightarrow> 'd flash_hw \<Rightarrow> bool" where
  "leaves hw m hw' \<equiv> view (chip hw') = m \<and> chip_size hw' = chip_size hw \<and> ps hw' = ps hw"

abbreviation off :: "u32 \<Rightarrow> nat" where
  "off addr \<equiv> unat (addr - INTERNAL_FLASH_START_ADDRESS)"

lemma read_internal:
  assumes "off a mod 4 = 0" "unat n mod 4 = 0" "off a + unat n \<le> 0x01000000"
  shows "\<exists>hw'. flashmem_read_internal k a n hw = (n, nor_read (view (chip hw)) (off a) (unat n), hw') \<and>
    leaves hw (view (chip hw)) hw'"
  using read_ok [of "a - INTERNAL_FLASH_START_ADDRESS" n "0x01000000" "chip hw"] assms
  by (auto simp: flashmem_read_internal_def noInterrupts_def interrupts_def)

lemma write_internal:
  assumes "off a mod 4 = 0" "length bs mod 4 = 0" "off a + length bs \<le> 0x01000000"
  shows "\<exists>hw'. flashmem_write_internal k src bs a hw = (word_of_nat (length bs), hw') \<and>
    leaves hw (nor_program (view (chip hw)) (off a) bs) hw'"
  using write_ok [of "a - INTERNAL_FLASH_START_ADDRESS" bs "0x01000000" "chip hw"] assms heap_ok
  by (auto simp: flashmem_write_internal_def noInterrupts_def interrupts_def)

lemma erase_internal:
  assumes "unat s * 4096 + 4096 \<le> 0x01000000"
  shows "\<exists>hw'. flashmem_erase_sector k s hw = (True, hw') \<and>
    leaves hw (nor_erase (view (chip hw)) (unat s * 4096) 4096) hw'"
  using erase_ok [of s "0x01000000" "chip hw"] assms
  by (auto simp: flashmem_erase_sector_def noInterrupts_def interrupts_def)

end

section \<open>Address arithmetic and the word buffers\<close>

lemma fill_tmp_blit:
  "i \<le> lim \<Longrightarrow> lim \<le> length tmp \<Longrightarrow>
   fill_tmp i lim tmp src = (blit i (take (lim - i) src) tmp, drop (lim - i) src)"
proof (induction i lim tmp src rule: fill_tmp.induct)
  case (2 i lim tmp b src)
  then show ?case
    by (cases "i < lim")
      (auto simp: blit_def upd_conv_take_nth_drop Suc_diff_le take_Cons' drop_Cons' add.commute)
qed (simp add: blit_def)

lemma drain_tmp_slice:
  "i \<le> lim \<Longrightarrow> lim \<le> length tmp \<Longrightarrow>
   drain_tmp i lim tmp n = (slice i (min n (lim - i)) tmp, n - (lim - i))"
proof (induction i lim tmp n rule: drain_tmp.induct)
  case (2 i lim tmp n)
  show ?case
  proof (cases "i < lim")
    case True
    then have "min (Suc n) (lim - i) = Suc (min n (lim - Suc i))" by simp
    moreover have "slice i (Suc m) tmp = tmp ! i # slice (Suc i) m tmp" for m
      using True "2.prems" by (simp add: slice_def take_Suc_conv_app_nth Cons_nth_drop_Suc [symmetric])
    ultimately show ?thesis using True 2 by simp
  qed (use "2.prems" in simp)
qed (simp add: slice_def)

lemma unat_diff_mod_4:
  fixes a s :: u32
  assumes "unat s mod 4 = 0"
  shows "unat (a - s) mod 4 = unat a mod 4"
proof -
  have "unat ((a - s) + s) mod 4 = (unat (a - s) + unat s) mod 2 ^ 32 mod 4"
    by (simp only: unat_word_ariths) simp
  also have "\<dots> = (unat (a - s) + unat s) mod 4"
    by (rule mod_mod_cancel) simp
  also have "\<dots> = unat (a - s) mod 4"
    using assms by presburger
  finally show ?thesis by simp
qed

lemma unat_addr_mod_4: "unat a mod 4 = unat (a - INTERNAL_FLASH_START_ADDRESS) mod 4"
  by (rule unat_diff_mod_4 [symmetric]) (simp add: INTERNAL_FLASH_START_ADDRESS_def)

context spi_chip
begin

lemma off_add: "off a + unat n < 2 ^ 32 \<Longrightarrow> off (a + n) = off a + unat n"
  using unat_add_no_wrap [of "a - INTERNAL_FLASH_START_ADDRESS" n]
  by (simp only: diff_add_eq len_num1 len_bit0) simp

lemma unat_low_bits: "unat (a AND 3) = off a mod 4"
  by (rule trans [OF unat_and_3 unat_addr_mod_4])

lemma low_bits_0_iff: "a AND 3 = 0 \<longleftrightarrow> off a mod 4 = 0"
  by (metis unat_low_bits unat_eq_zero)

lemma off_align: "off (a AND NOT 3) = off a - off a mod 4"
proof -
  have "unat (a AND 3) \<le> off a"
    unfolding unat_low_bits by (rule mod_less_eq_dividend)
  then have "unat ((a - INTERNAL_FLASH_START_ADDRESS) - (a AND 3)) = off a - unat (a AND 3)"
    by (rule unat_sub_no_wrap)
  moreover have "(a AND NOT 3) - INTERNAL_FLASH_START_ADDRESS =
      (a - INTERNAL_FLASH_START_ADDRESS) - (a AND 3)"
    unfolding and_not_eq_diff by (rule diff_right_commute)
  ultimately show ?thesis by (simp only: unat_low_bits)
qed

lemma write_aligned:
  assumes a: "off a mod 4 = 0" and l: "off a + length data \<le> 0x01000000"
  shows "leaves hw (nor_program (view (chip hw)) (off a) data) (flashmem_write_aligned k src data a hw)"
proof -
  let ?n = "length data" and ?size = "word_of_nat (length data) :: u32"
  have n: "unat ?size = ?n" using l by (simp add: unat_of_nat)
  let ?t = "?n - ?n mod 4" and ?temp = "?size AND NOT 3"
  have t: "unat ?temp = ?t" and r: "unat (?size AND 3) = ?n mod 4"
    by (simp_all only: unat_and_not_3 unat_and_3 n)
  have z: "?temp \<noteq> 0 \<longleftrightarrow> ?t \<noteq> 0" "?size AND 3 \<noteq> 0 \<longleftrightarrow> ?n mod 4 \<noteq> 0"
    by (metis t unat_eq_zero) (metis r unat_eq_zero)
  have t4: "?t mod 4 = 0" "?t \<le> ?n" "?n - ?t = ?n mod 4" by presburger+
  obtain src' a' hw' where s1: "(if ?temp \<noteq> 0
             then let (n, hw) = flashmem_write_internal k src (take (unat ?temp) data) a hw
                  in (src + ?temp, drop (unat ?temp) data, a + ?temp, hw)
             else (src, data, a, hw)) = (src', drop ?t data, a', hw')"
    and a': "off a' = off a + ?t"
    and l1: "leaves hw (nor_program (view (chip hw)) (off a) (take ?t data)) hw'"
  proof (cases "?t = 0")
    case True
    then show ?thesis using that z(1) by simp
  next
    case False
    have lt: "length (take ?t data) = ?t" "length (take ?t data) mod 4 = 0"
      "off a + length (take ?t data) \<le> 0x01000000"
      using l t4(1,2) by simp_all
    from write_internal [OF a lt(2,3), of src hw] obtain n' hw' where
      w: "flashmem_write_internal k src (take ?t data) a hw = (n', hw')"
      and l': "leaves hw (nor_program (view (chip hw)) (off a) (take ?t data)) hw'"
      by blast
    have "off (a + ?temp) = off a + ?t"
      using off_add [of a ?temp] l t4(2) unfolding t by simp
    with z(1) False w l' show ?thesis
      by (intro that [of "src + ?temp" "a + ?temp" hw']) (simp_all only: t if_True Let_def prod.case simp_thms)
  qed
  show ?thesis
  proof (cases "?n mod 4 = 0")
    case True
    then have "?t = ?n" by simp
    with l1 have "leaves hw (nor_program (view (chip hw)) (off a) data) hw'" by simp
    moreover have "flashmem_write_aligned k src data a hw = hw'"
      unfolding flashmem_write_aligned_def
      by (simp only: Let_def s1 [unfolded Let_def] prod.case z(2) True simp_thms if_False)
    ultimately show ?thesis by simp
  next
    case False
    have e: "off a' + 4 \<le> 0x01000000" "off a' mod 4 = 0"
      using a l a' False by presburger+
    obtain hw2 where rd: "flashmem_read_internal k a' 4 hw' = (4, nor_read (view (chip hw')) (off a') 4, hw2)"
      and l2: "leaves hw' (view (chip hw')) hw2"
      using read_internal [of a' 4 hw'] e by auto
    let ?tmp = "blit 0 (drop ?t data) (nor_read (view (chip hw')) (off a') 4)"
    have len: "length (drop ?t data) = ?n mod 4" "?n mod 4 < 4" using t4 by simp_all
    then have "length ?tmp = 4" by (simp add: less_imp_le)
    then obtain hw3 where wr: "flashmem_write_internal k (tmpdata_addr k) ?tmp a' hw2 = (4, hw3)"
      and l3: "leaves hw2 (nor_program (view (chip hw2)) (off a') ?tmp) hw3"
      using write_internal [of a' ?tmp "tmpdata_addr k" hw2] e by auto
    have "fill_tmp 0 (?n mod 4) (nor_read (view (chip hw')) (off a') 4) (drop ?t data) = (?tmp, [])"
      using fill_tmp_blit [of 0 "?n mod 4" "nor_read (view (chip hw')) (off a') 4" "drop ?t data"] len
      by (simp add: less_imp_le)
    then have "flashmem_write_aligned k src data a hw = hw3"
      unfolding flashmem_write_aligned_def
      by (simp only: Let_def s1 [unfolded Let_def] prod.case z(2) r False simp_thms if_True rd wr)
    moreover have "nor_program (view (chip hw2)) (off a') ?tmp =
        nor_program (nor_program (view (chip hw)) (off a) (take ?t data)) (off a + ?t) (drop ?t data)"
      using nor_program_merge [of 0 "drop ?t data" 4 "view (chip hw')" "off a'"] len l1 l2 a' by simp
    moreover have "\<dots> = nor_program (view (chip hw)) (off a) data"
      using nor_program_append [of "view (chip hw)" "off a" "take ?t data" "drop ?t data"] t4 by simp
    ultimately show ?thesis using l1 l2 l3 by simp
  qed
qed

lemma read_aligned:
  assumes a: "off a mod 4 = 0" and l: "off a + n \<le> 0x01000000"
  shows "\<exists>hw'. flashmem_read_aligned k a n hw = (nor_read (view (chip hw)) (off a) n, hw') \<and>
    leaves hw (view (chip hw)) hw'"
proof -
  let ?size = "word_of_nat n :: u32"
  have n: "unat ?size = n" using l by (simp add: unat_of_nat)
  let ?t = "n - n mod 4" and ?temp = "?size AND NOT 3"
  have t: "unat ?temp = ?t" and r: "unat (?size AND 3) = n mod 4"
    by (simp_all only: unat_and_not_3 unat_and_3 n)
  have z: "?temp \<noteq> 0 \<longleftrightarrow> ?t \<noteq> 0" "?size AND 3 \<noteq> 0 \<longleftrightarrow> n mod 4 \<noteq> 0"
    by (metis t unat_eq_zero) (metis r unat_eq_zero)
  have t4: "?t mod 4 = 0" "?t \<le> n" "n - ?t = n mod 4" by presburger+
  obtain a' hw' where s1: "(if ?temp \<noteq> 0
             then let (n, buf, hw) = flashmem_read_internal k a ?temp hw
                  in (buf, a + ?temp, hw)
             else ([], a, hw)) = (nor_read (view (chip hw)) (off a) ?t, a', hw')"
    and a': "off a' = off a + ?t"
    and l1: "leaves hw (view (chip hw)) hw'"
  proof (cases "?t = 0")
    case True
    then show ?thesis using that z(1) by (simp add: nor_read_def)
  next
    case False
    have "off a + ?t \<le> 0x01000000" using l by simp
    from read_internal [OF a, of ?temp hw, unfolded t, OF t4(1) this] obtain hw' where
      w: "flashmem_read_internal k a ?temp hw = (?temp, nor_read (view (chip hw)) (off a) ?t, hw')"
      and l': "leaves hw (view (chip hw)) hw'"
      by blast
    have "off (a + ?temp) = off a + ?t"
      using off_add [of a ?temp] l t4(2) unfolding t by simp
    with z(1) False w l' show ?thesis
      by (intro that [of "a + ?temp" hw']) (simp_all only: t if_True Let_def prod.case simp_thms)
  qed
  show ?thesis
  proof (cases "n mod 4 = 0")
    case True
    then have "flashmem_read_aligned k a n hw = (nor_read (view (chip hw)) (off a) ?t, hw')"
      unfolding flashmem_read_aligned_def
      by (simp only: Let_def s1 [unfolded Let_def] prod.case z(2) True simp_thms if_False)
    with l1 True show ?thesis by simp
  next
    case False
    have e: "off a' + 4 \<le> 0x01000000" "off a' mod 4 = 0"
      using a l a' False by presburger+
    obtain hw2 where rd: "flashmem_read_internal k a' 4 hw' = (4, nor_read (view (chip hw')) (off a') 4, hw2)"
      and l2: "leaves hw' (view (chip hw')) hw2"
      using read_internal [of a' 4 hw'] e by auto
    have "n mod 4 \<le> 4" by simp
    then have d: "drain_tmp 0 (n mod 4) (nor_read (view (chip hw')) (off a') 4) (n - ?t) =
        (nor_read (view (chip hw')) (off a') (n mod 4), 0)"
      using drain_tmp_slice [of 0 "n mod 4" "nor_read (view (chip hw')) (off a') 4" "n - ?t"]
      unfolding t4(3) by (simp add: slice_nor_read)
    have "flashmem_read_aligned k a n hw =
        (nor_read (view (chip hw)) (off a) ?t @ nor_read (view (chip hw')) (off a') (n mod 4), hw2)"
      unfolding flashmem_read_aligned_def
      by (simp only: Let_def s1 [unfolded Let_def] prod.case z(2) r t d False simp_thms if_True rd)
    also have "\<dots> = (nor_read (view (chip hw)) (off a) n, hw2)"
      using nor_read_append [of "view (chip hw)" "off a" ?t "n mod 4"] l1 a' t4 by simp
    finally show ?thesis using l1 l2 by simp
  qed
qed

theorem flashmem_write_spec:
  assumes l: "off a + length data \<le> 0x01000000"
  shows "\<exists>hw'. flashmem_write k src data a hw = (word_of_nat (length data), hw') \<and>
    leaves hw (nor_program (view (chip hw)) (off a) data) hw'"
proof (cases "off a mod 4 = 0")
  case True
  then have "\<not> a AND 3 \<noteq> 0" using low_bits_0_iff by simp
  then have "flashmem_write k src data a hw =
      (word_of_nat (length data), flashmem_write_aligned k src data a hw)"
    by (simp only: flashmem_write_def Let_def if_False)
  with write_aligned [OF True l, where hw = hw and src = src] show ?thesis by simp
next
  case False
  then have u: "a AND 3 \<noteq> 0" using low_bits_0_iff by simp
  let ?t = "a AND NOT 3" and ?r = "off a mod 4" and ?k = "4 - off a mod 4"
  have ot: "off ?t = off a - ?r" by (rule off_align)
  have e: "off ?t mod 4 = 0" "off ?t + 4 \<le> 0x01000000" "?r < 4" "off ?t + ?r = off a"
    using l False unfolding ot by presburger+
  obtain hw1 where rd: "flashmem_read_internal k ?t 4 hw = (4, nor_read (view (chip hw)) (off ?t) 4, hw1)"
    and l1: "leaves hw (view (chip hw)) hw1"
    using read_internal [of ?t 4 hw] e by auto
  let ?tmp = "blit ?r (take ?k data) (nor_read (view (chip hw)) (off ?t) 4)"
  have len: "?r + length (take ?k data) \<le> 4" using e(3) by simp
  then have "length ?tmp = 4" by simp
  then obtain hw2 where wr: "flashmem_write_internal k (tmpdata_addr k) ?tmp ?t hw1 = (4, hw2)"
    and l2: "leaves hw1 (nor_program (view (chip hw1)) (off ?t) ?tmp) hw2"
    using write_internal [of ?t ?tmp "tmpdata_addr k" hw1] e by auto
  have f: "fill_tmp ?r 4 (nor_read (view (chip hw)) (off ?t) 4) data = (?tmp, drop ?k data)"
    using fill_tmp_blit [of ?r 4 "nor_read (view (chip hw)) (off ?t) 4" data] e(3) by simp
  have "nor_program (view (chip hw)) (off ?t) ?tmp = nor_program (view (chip hw)) (off a) (take ?k data)"
    using nor_program_merge [OF len, of "view (chip hw)" "off ?t"] e(4) by simp
  with l1 l2 have m2: "leaves hw (nor_program (view (chip hw)) (off a) (take ?k data)) hw2" by simp
  show ?thesis
  proof (cases "drop ?k data = []")
    case True
    then have "flashmem_write k src data a hw = (word_of_nat (length data), hw2)"
      unfolding flashmem_write_def
      by (simp only: Let_def u simp_thms if_True rd prod.case unat_low_bits f wr)
    with m2 True show ?thesis by simp
  next
    case False
    let ?src = "src + word_of_nat (length data - length (drop ?k data))"
    have w: "flashmem_write k src data a hw =
        (word_of_nat (length data), flashmem_write_aligned k ?src (drop ?k data) (?t + 4) hw2)"
      unfolding flashmem_write_def
      by (simp only: Let_def u simp_thms if_True if_False rd prod.case unat_low_bits f wr False)
    have o4: "off (?t + 4) = off a + ?k"
      using off_add [of ?t 4] e by simp
    have "off (?t + 4) mod 4 = 0" "off (?t + 4) + length (drop ?k data) \<le> 0x01000000"
      using l False e unfolding o4 by (presburger, simp)
    note write_aligned [OF this, where hw = hw2 and src = ?src]
    moreover have "nor_program (view (chip hw2)) (off (?t + 4)) (drop ?k data) =
        nor_program (view (chip hw)) (off a) data"
      using nor_program_append [of "view (chip hw)" "off a" "take ?k data" "drop ?k data"] m2 False
      unfolding o4 by (simp add: min_absorb2)
    ultimately show ?thesis using w m2 by simp
  qed
qed

theorem flashmem_read_spec:
  assumes l: "off a + unat n \<le> 0x01000000"
  shows "\<exists>hw'. flashmem_read k a n hw = (n, nor_read (view (chip hw)) (off a) (unat n), hw') \<and>
    leaves hw (view (chip hw)) hw'"
proof (cases "off a mod 4 = 0")
  case True
  then have "\<not> a AND 3 \<noteq> 0" using low_bits_0_iff by simp
  with read_aligned [OF True l, of hw] show ?thesis
    by (auto simp only: flashmem_read_def Let_def if_False prod.case)
next
  case False
  then have u: "a AND 3 \<noteq> 0" using low_bits_0_iff by simp
  let ?t = "a AND NOT 3" and ?r = "off a mod 4" and ?k = "4 - off a mod 4"
  have ot: "off ?t = off a - ?r" by (rule off_align)
  have e: "off ?t mod 4 = 0" "off ?t + 4 \<le> 0x01000000" "?r < 4" "off ?t + ?r = off a"
    using l False unfolding ot by presburger+
  obtain hw1 where rd: "flashmem_read_internal k ?t 4 hw = (4, nor_read (view (chip hw)) (off ?t) 4, hw1)"
    and l1: "leaves hw (view (chip hw)) hw1"
    using read_internal [of ?t 4 hw] e by auto
  have d: "drain_tmp ?r 4 (nor_read (view (chip hw)) (off ?t) 4) (unat n) =
      (nor_read (view (chip hw)) (off a) (min (unat n) ?k), unat n - ?k)"
    using drain_tmp_slice [of ?r 4 "nor_read (view (chip hw)) (off ?t) 4" "unat n"] e(3,4)
    by (simp add: slice_nor_read)
  show ?thesis
  proof (cases "unat n - ?k = 0")
    case True
    then have "flashmem_read k a n hw = (n, nor_read (view (chip hw)) (off a) (min (unat n) ?k), hw1)"
      unfolding flashmem_read_def
      by (simp only: Let_def u simp_thms if_True rd prod.case unat_low_bits d)
    moreover have "min (unat n) ?k = unat n" using True by simp
    ultimately show ?thesis using l1 by simp
  next
    case False
    have o4: "off (?t + 4) = off a + ?k"
      using off_add [of ?t 4] e by simp
    have "off (?t + 4) mod 4 = 0" "off (?t + 4) + (unat n - ?k) \<le> 0x01000000"
      using l False e unfolding o4 by (presburger, simp)
    from read_aligned [OF this, of hw1] obtain hw2 where
      al: "flashmem_read_aligned k (?t + 4) (unat n - ?k) hw1 =
        (nor_read (view (chip hw1)) (off a + ?k) (unat n - ?k), hw2)"
      and l2: "leaves hw1 (view (chip hw1)) hw2"
      unfolding o4 by blast
    have "flashmem_read k a n hw =
        (n, nor_read (view (chip hw)) (off a) (min (unat n) ?k) @
            nor_read (view (chip hw1)) (off a + ?k) (unat n - ?k), hw2)"
      unfolding flashmem_read_def
      by (simp only: Let_def u simp_thms if_True if_False rd prod.case unat_low_bits d False al)
    moreover have "min (unat n) ?k = ?k" using False by simp
    ultimately show ?thesis
      using nor_read_append [of "view (chip hw)" "off a" ?k "unat n - ?k"] l1 l2 False by simp
  qed
qed

end
section \<open>Erasing\<close>

lemma nor_erase_append: "nor_erase (nor_erase m a n) (a + n) j = nor_erase m a (n + j)"
  by (auto simp: nor_erase_def fun_eq_iff)

lemma nor_erase_Suc_sector:
  "nor_erase (nor_erase m (4096 * f) 4096) (4096 * Suc f) (4096 * j) = nor_erase m (4096 * f) (4096 * Suc j)"
  using nor_erase_append [of m "4096 * f" 4096 "4096 * j"] by (simp add: add.commute)

lemma unat_sector [width_simps]:
  "unat (flashmem_get_sector_of_address a) = unat (a - INTERNAL_FLASH_START_ADDRESS) div 4096"
  by (simp add: flashmem_get_sector_of_address_def INTERNAL_FLASH_SECTOR_SIZE_def unat_div)

lemma mult_div_exact: "(x :: nat) mod m = 0 \<Longrightarrow> m * (x div m) = x"
  by auto

context spi_chip
begin

lemma erase_sectors_spec:
  assumes "unat f + j = Suc (unat l)" and "unat l * 4096 + 4096 \<le> 0x01000000"
  shows "\<exists>hw'. erase_sectors k f l hw = Some (0, hw') \<and>
    leaves hw (nor_erase (view (chip hw)) (4096 * unat f) (4096 * j)) hw'"
  using assms
proof (induction j arbitrary: f hw)
  case 0
  then have "\<not> f \<le> l" by (simp add: word_le_nat_alt)
  moreover have "nor_erase m a 0 = m" for m a by (auto simp: nor_erase_def fun_eq_iff)
  ultimately show ?case by (subst erase_sectors.simps) simp
next
  case (Suc j)
  then have fl: "f \<le> l" "unat f * 4096 + 4096 \<le> 0x01000000" by (simp_all add: word_le_nat_alt)
  then have f1: "unat (f + 1) = Suc (unat f)"
    by (intro unat_Suc_no_wrap) simp
  from erase_internal [OF fl(2), of hw] obtain hw1 where
    e: "flashmem_erase_sector k f hw = (True, hw1)"
    and l1: "leaves hw (nor_erase (view (chip hw)) (4096 * unat f) 4096) hw1"
    by (auto simp: mult.commute)
  from Suc.IH [of "f + 1" hw1] Suc.prems f1 obtain hw2 where
    r: "erase_sectors k (f + 1) l hw1 = Some (0, hw2)"
    and l2: "leaves hw1 (nor_erase (view (chip hw1)) (4096 * Suc (unat f)) (4096 * j)) hw2"
    by auto
  have "erase_sectors k f l hw = Some (0, hw2)"
    by (subst erase_sectors.simps) (simp add: fl e r)
  then show ?case using l1 l2 by (simp only: nor_erase_Suc_sector) simp
qed

theorem api_spiffs_erase_spec:
  assumes "off a mod 4096 = 0" "unat n mod 4096 = 0" "off a + unat n + 4096 \<le> 0x01000000"
  shows "\<exists>hw'. api_spiffs_erase k a n hw = Some (0, hw') \<and>
    leaves hw (nor_erase (view (chip hw)) (off a) (unat n + 4096)) hw'"
proof -
  let ?f = "flashmem_get_sector_of_address a" and ?l = "flashmem_get_sector_of_address (a + n)"
  have o: "off (a + n) = off a + unat n" using assms by (intro off_add) simp
  have f: "4096 * unat ?f = off a" unfolding unat_sector by (rule mult_div_exact) (rule assms(1))
  have "(off a + unat n) mod 4096 = 0" using assms(1,2) by (metis mod_add_eq add_0 mod_0)
  then have l: "4096 * unat ?l = off a + unat n"
    unfolding unat_sector o by (rule mult_div_exact)
  let ?j = "Suc (unat ?l) - unat ?f"
  have fj: "unat ?f + ?j = Suc (unat ?l)" and j: "4096 * ?j = unat n + 4096" using f l by simp_all
  have "unat ?l * 4096 + 4096 \<le> 0x01000000" using l assms(3) by simp
  with fj have "\<exists>hw'. erase_sectors k ?f ?l hw = Some (0, hw') \<and>
      leaves hw (nor_erase (view (chip hw)) (4096 * unat ?f) (4096 * ?j)) hw'"
    by (rule erase_sectors_spec)
  then show ?thesis unfolding f j api_spiffs_erase_def Let_def .
qed

end

section \<open>The contract offered to the file system\<close>

locale nor_flash =
  fixes hread :: "u32 \<Rightarrow> u32 \<Rightarrow> 's \<Rightarrow> int \<times> u8 list \<times> 's"
    and hwrite :: "u32 \<Rightarrow> u8 list \<Rightarrow> 's \<Rightarrow> int \<times> 's"
    and herase :: "u32 \<Rightarrow> u32 \<Rightarrow> 's \<Rightarrow> (int \<times> 's) option"
    and fview :: "'s \<Rightarrow> nat \<Rightarrow> u8" and lo hi :: nat
  assumes hal_read:
    "\<lbrakk>lo \<le> unat a; unat a + unat n \<le> hi\<rbrakk> \<Longrightarrow>
     \<exists>s'. hread a n s = (0, nor_read (fview s) (unat a) (unat n), s') \<and> fview s' = fview s"
  and hal_write:
    "\<lbrakk>lo \<le> unat a; unat a + length bs \<le> hi\<rbrakk> \<Longrightarrow>
     \<exists>s'. hwrite a bs s = (0, s') \<and> fview s' = nor_program (fview s) (unat a) bs"
  and hal_erase:
    "\<lbrakk>lo \<le> unat a; (unat a - lo) mod 4096 = 0; unat n mod 4096 = 0; unat a + unat n + 4096 \<le> hi\<rbrakk> \<Longrightarrow>
     \<exists>s'. herase a n s = Some (0, s') \<and>
       (\<forall>i. unat a \<le> i \<and> i < unat a + unat n \<longrightarrow> fview s' i = 0xff) \<and>
       (\<forall>i. i < unat a \<or> unat a + unat n + 4096 \<le> i \<longrightarrow> fview s' i = fview s i)"
begin

lemma hal_write_read:
  assumes "lo \<le> unat a" "unat a + length bs \<le> hi" "length bs < 2 ^ 32"
    and "\<And>i. unat a \<le> i \<Longrightarrow> i < unat a + length bs \<Longrightarrow> fview s i = 0xff"
  shows "\<exists>s1 s2. hwrite a bs s = (0, s1) \<and> hread a (word_of_nat (length bs)) s1 = (0, bs, s2)"
proof -
  have n: "unat (word_of_nat (length bs) :: u32) = length bs"
    using assms(3) by (simp add: unat_of_nat)
  from hal_write [OF assms(1,2), of s] obtain s1 where
    w: "hwrite a bs s = (0, s1)" "fview s1 = nor_program (fview s) (unat a) bs" by blast
  have "nor_read (fview s1) (unat a) (length bs) = bs"
    using nor_read_program_erased [of "unat a" bs "fview s"] assms(4) unfolding w(2) by blast
  then show ?thesis
    using hal_read [of a "word_of_nat (length bs)" s1] assms(1,2) w unfolding n by auto
qed

end

text \<open>The flash window seen at the addresses the file system uses.\<close>

definition flash_window :: "('d \<Rightarrow> nat \<Rightarrow> u8) \<Rightarrow> 'd flash_hw \<Rightarrow> nat \<Rightarrow> u8" where
  "flash_window view hw i = (if i < 0x40200000 then 0 else view (chip hw) (i - 0x40200000))"

lemma window_off: "0x40200000 \<le> unat a \<Longrightarrow>
  unat (a - INTERNAL_FLASH_START_ADDRESS) = unat a - 0x40200000"
  by (subst unat_sub_no_wrap) (simp_all add: INTERNAL_FLASH_START_ADDRESS_def)

lemma nor_read_window:
  "0x40200000 \<le> a \<Longrightarrow> nor_read (flash_window v hw) a n = nor_read (v (chip hw)) (a - 0x40200000) n"
  by (rule nth_equalityI) (simp_all add: flash_window_def)

lemma nor_program_window:
  "0x40200000 \<le> a \<Longrightarrow> v (chip hw') = nor_program (v (chip hw)) (a - 0x40200000) bs \<Longrightarrow>
   flash_window v hw' = nor_program (flash_window v hw) a bs"
  by (auto simp: flash_window_def nor_program_def fun_eq_iff)

sublocale spi_chip \<subseteq> hal: nor_flash "api_spiffs_read k" "api_spiffs_write k src" "api_spiffs_erase k"
  "flash_window view" "0x40200000" "0x41200000"
proof unfold_locales
  fix a n :: u32 and s
  assume a: "0x40200000 \<le> unat a" "unat a + unat n \<le> 0x41200000"
  then have "off a + unat n \<le> 0x01000000" by (simp add: window_off)
  from flashmem_read_spec [OF this, of s] obtain s' where
    "flashmem_read k a n s = (n, nor_read (view (chip s)) (off a) (unat n), s')"
    "view (chip s') = view (chip s)" by blast
  then show "\<exists>s'. api_spiffs_read k a n s = (0, nor_read (flash_window view s) (unat a) (unat n), s') \<and>
      flash_window view s' = flash_window view s"
    using a by (simp add: api_spiffs_read_def nor_read_window window_off flash_window_def fun_eq_iff)
next
  fix a :: u32 and bs :: "u8 list" and s
  assume a: "0x40200000 \<le> unat a" "unat a + length bs \<le> 0x41200000"
  then have "off a + length bs \<le> 0x01000000" by (simp add: window_off)
  from flashmem_write_spec [OF this, where src = src and hw = s] obtain s' where
    "flashmem_write k src bs a s = (word_of_nat (length bs), s')"
    "view (chip s') = nor_program (view (chip s)) (off a) bs" by blast
  then show "\<exists>s'. api_spiffs_write k src a bs s = (0, s') \<and>
      flash_window view s' = nor_program (flash_window view s) (unat a) bs"
    using a nor_program_window [of "unat a" view s' s bs] by (simp add: api_spiffs_write_def window_off)
next
  fix a n :: u32 and s
  assume a: "0x40200000 \<le> unat a" "(unat a - 0x40200000) mod 4096 = 0" "unat n mod 4096 = 0"
    "unat a + unat n + 4096 \<le> 0x41200000"
  then have "off a mod 4096 = 0" "off a + unat n + 4096 \<le> 0x01000000" by (simp_all add: window_off)
  from api_spiffs_erase_spec [OF this(1) a(3) this(2), of s] obtain s' where
    e: "api_spiffs_erase k a n s = Some (0, s')"
    and v: "view (chip s') = nor_erase (view (chip s)) (off a) (unat n + 4096)" by blast
  show "\<exists>s'. api_spiffs_erase k a n s = Some (0, s') \<and>
      (\<forall>i. unat a \<le> i \<and> i < unat a + unat n \<longrightarrow> flash_window view s' i = 0xff) \<and>
      (\<forall>i. i < unat a \<or> unat a + unat n + 4096 \<le> i \<longrightarrow> flash_window view s' i = flash_window view s i)"
    using a(1) by (intro exI [of _ s'])
      (auto simp: e v window_off flash_window_def nor_erase_def)
qed

context spi_chip
begin

lemma nor_flash_hal:
  "nor_flash (api_spiffs_read k) (api_spiffs_write k src) (api_spiffs_erase k) (flash_window view)
     0x40200000 0x41200000"
  by (rule hal.nor_flash_axioms)

end

section \<open>A write without memory\<close>

text \<open>
  Only the whole words in the middle of a request are copied to a block from the heap, and only when their source
  is not at a word boundary: \<open>body_writable\<close> says that they reach the flash.
\<close>

definition write_head :: "u32 \<Rightarrow> u8 list \<Rightarrow> nat" where
  "write_head a data = min (length data) ((4 - unat (a AND 3)) mod 4)"

definition write_body :: "u32 \<Rightarrow> u8 list \<Rightarrow> nat" where
  "write_body a data = (length data - write_head a data) div 4 * 4"

definition body_writable :: "'d sdk \<Rightarrow> u32 \<Rightarrow> u8 list \<Rightarrow> u32 \<Rightarrow> bool" where
  "body_writable k src data a \<longleftrightarrow> write_body a data = 0 \<or> (src + word_of_nat (write_head a data)) AND 3 = 0 \<or>
     os_malloc_ok k (word_of_nat (write_body a data))"

definition with_heap :: "'d sdk \<Rightarrow> 'd sdk" where
  "with_heap k = k\<lparr>os_malloc_ok := \<lambda>n. True\<rparr>"

lemma with_heap_simps [simp]:
  "flashmem_read_internal (with_heap k) = flashmem_read_internal k" "tmpdata_addr (with_heap k) = tmpdata_addr k"
  by (simp_all add: with_heap_def flashmem_read_internal_def fun_eq_iff)

lemma with_heap_write:
  "src AND 3 = 0 \<or> os_malloc_ok k (word_of_nat (length data)) \<Longrightarrow>
   flashmem_write_internal (with_heap k) src data a hw = flashmem_write_internal k src data a hw"
  by (auto simp: with_heap_def flashmem_write_internal_def)

lemma write_internal_no_memory:
  "src AND 3 \<noteq> 0 \<Longrightarrow> \<not> os_malloc_ok k (word_of_nat (length data)) \<Longrightarrow>
   flashmem_write_internal k src data a hw = (0, hw)"
  by (simp add: flashmem_write_internal_def)

lemma unat_whole_words: "n < 2 ^ 32 \<Longrightarrow> unat ((word_of_nat n :: u32) AND NOT 3) = n div 4 * 4"
proof -
  assume "n < 2 ^ 32"
  then have "unat (word_of_nat n :: u32) = n" by (simp add: unat_of_nat)
  then have "unat ((word_of_nat n :: u32) AND NOT 3) = n - n mod 4" by (simp only: unat_and_not_3)
  then show ?thesis by (simp add: minus_mod_eq_div_mult)
qed

context flash_chip
begin

lemma with_heap_chip: "spi_chip (with_heap k) view"
proof unfold_locales
  show "tmpdata_addr (with_heap k) AND 3 = 0" using word_buffer by simp
  show "os_malloc_ok (with_heap k) n" for n by (simp add: with_heap_def)
qed (use read_ok write_ok erase_ok in \<open>auto simp: with_heap_def\<close>)

lemma with_heap_aligned:
  assumes "length data < 2 ^ 32"
    and "length data div 4 = 0 \<or> src AND 3 = 0 \<or> os_malloc_ok k (word_of_nat (length data div 4 * 4))"
  shows "flashmem_write_aligned (with_heap k) src data a hw = flashmem_write_aligned k src data a hw"
proof -
  let ?temp = "(word_of_nat (length data) :: u32) AND NOT 3"
  have t: "unat ?temp = length data div 4 * 4" by (rule unat_whole_words [OF assms(1)])
  have "unat ?temp = 0 \<longleftrightarrow> length data div 4 * 4 = 0" by (simp only: t)
  then have "?temp = 0 \<longleftrightarrow> length data div 4 = 0" unfolding unat_eq_zero by simp
  moreover have "length (take (unat ?temp) data) = length data div 4 * 4" unfolding t by simp
  ultimately have "?temp \<noteq> 0 \<Longrightarrow> flashmem_write_internal (with_heap k) src (take (unat ?temp) data) a hw =
      flashmem_write_internal k src (take (unat ?temp) data) a hw"
    using assms(2) by (intro with_heap_write) auto
  then show ?thesis
    by (cases "?temp = 0") (auto simp: flashmem_write_aligned_def Let_def with_heap_write word_buffer split: prod.splits)
qed

text \<open>Without memory the whole words are left out, and the rest is written as if nothing had happened.\<close>

lemma aligned_no_memory:
  assumes "length data < 2 ^ 32" "length data div 4 \<noteq> 0" "src AND 3 \<noteq> 0"
    and "\<not> os_malloc_ok k (word_of_nat (length data div 4 * 4))"
  defines "n \<equiv> length data div 4 * 4"
  shows "flashmem_write_aligned k src data a hw = flashmem_write_aligned k (src + word_of_nat n) (drop n data) (a + word_of_nat n) hw"
proof -
  let ?w = "word_of_nat (length data) :: u32"
  let ?temp = "?w AND NOT 3"
  have t: "unat ?temp = n" unfolding n_def by (rule unat_whole_words [OF assms(1)])
  moreover have "n < 2 ^ 32" using assms(1) by (simp add: n_def)
  then have "unat (word_of_nat n :: u32) = n" by (simp add: unat_of_nat)
  ultimately have "unat ?temp = unat (word_of_nat n :: u32)" by (simp only:)
  then have temp: "?temp = word_of_nat n" by (simp only: word_unat_eq_iff)
  have n0: "0 < n" "n \<le> length data" "(length data - n) div 4 = 0" using assms(2) by (simp_all add: n_def)
  have tk: "length (take n data) = n" using n0 by simp
  have w: "flashmem_write_internal k src (take n data) a hw = (0, hw)"
    by (rule write_internal_no_memory) (use assms(3,4) tk n_def in simp_all)
  have nz: "?temp \<noteq> 0" using t n0(1) by auto
  let ?v = "word_of_nat (length (drop n data)) :: u32"
  have "unat (?v AND NOT 3) = 0" using n0(3) assms(1) unat_whole_words [of "length (drop n data)"] by simp
  then have v0: "?v AND NOT 3 = 0" by (simp add: unat_eq_zero)
  have "unat (?v AND 3) = unat (?w AND 3)"
  proof -
    have "unat ?w = length data" "unat ?v = length data - n" using assms(1) by (simp_all add: unat_of_nat)
    moreover have "(length data - n) mod 4 = length data mod 4" by (simp add: n_def minus_div_mult_eq_mod)
    ultimately show ?thesis by (simp only: unat_and_3)
  qed
  then have r: "?v AND 3 = ?w AND 3" by (simp only: word_unat_eq_iff)
  show ?thesis
    unfolding flashmem_write_aligned_def Let_def v0 r
    by (simp only: t w nz temp [symmetric] prod.case if_True if_False simp_thms not_False_eq_True)
qed

lemma nor_program_none: "nor_program m a [] = m"
  by (rule ext) (auto simp: nor_program_def)

text \<open>From an address inside a word the first bytes go through the word buffer.\<close>

lemma unaligned_write:
  assumes u: "a AND 3 \<noteq> 0" and l: "unat (a - INTERNAL_FLASH_START_ADDRESS) + length data \<le> 0x01000000"
  defines "h \<equiv> 4 - unat (a AND 3)"
  obtains hw2 where "view (chip hw2) = nor_program (view (chip hw)) (unat (a - INTERNAL_FLASH_START_ADDRESS)) (take h data)"
    "chip_size hw2 = chip_size hw" "ps hw2 = ps hw"
    "flashmem_write k src data a hw = (word_of_nat (length data), if drop h data = [] then hw2
       else flashmem_write_aligned k (src + word_of_nat h) (drop h data) ((a AND NOT 3) + 4) hw2)"
    "flashmem_write (with_heap k) src data a hw = (word_of_nat (length data), if drop h data = [] then hw2
       else flashmem_write_aligned (with_heap k) (src + word_of_nat h) (drop h data) ((a AND NOT 3) + 4) hw2)"
proof -
  let ?off = "\<lambda>a. unat (a - INTERNAL_FLASH_START_ADDRESS)"
  let ?t = "a AND NOT 3" and ?r = "?off a mod 4"
  note low = spi_chip.unat_low_bits [OF with_heap_chip, of a] and zero = spi_chip.low_bits_0_iff [OF with_heap_chip, of a]
  have h: "h = 4 - ?r" by (simp only: h_def low)
  have ot: "?off ?t = ?off a - ?r" by (rule spi_chip.off_align [OF with_heap_chip])
  have e: "?off ?t mod 4 = 0" "?off ?t + 4 \<le> 0x01000000" "?r < 4" "?off ?t + ?r = ?off a"
    using l u zero unfolding ot by presburger+
  obtain hw1 where rd: "flashmem_read_internal k ?t 4 hw = (4, nor_read (view (chip hw)) (?off ?t) 4, hw1)"
    and l1: "view (chip hw1) = view (chip hw)" "chip_size hw1 = chip_size hw" "ps hw1 = ps hw"
    using spi_chip.read_internal [OF with_heap_chip, of ?t 4 hw] e by auto
  let ?tmp = "blit ?r (take h data) (nor_read (view (chip hw)) (?off ?t) 4)"
  have len: "?r + length (take h data) \<le> 4" using e(3) h by simp
  then have "length ?tmp = 4" by simp
  then obtain hw2 where wr: "flashmem_write_internal (with_heap k) (tmpdata_addr k) ?tmp ?t hw1 = (4, hw2)"
    and l2: "view (chip hw2) = nor_program (view (chip hw1)) (?off ?t) ?tmp" "chip_size hw2 = chip_size hw1" "ps hw2 = ps hw1"
    using spi_chip.write_internal [OF with_heap_chip, of ?t ?tmp "tmpdata_addr k" hw1] e by auto
  have wr': "flashmem_write_internal k (tmpdata_addr k) ?tmp ?t hw1 = (4, hw2)"
    using wr with_heap_write [of "tmpdata_addr k" k] word_buffer by simp
  have f: "fill_tmp ?r 4 (nor_read (view (chip hw)) (?off ?t) 4) data = (?tmp, drop h data)"
    using fill_tmp_blit [of ?r 4 "nor_read (view (chip hw)) (?off ?t) 4" data] e(3) by (simp add: h)
  have m: "nor_program (view (chip hw)) (?off ?t) ?tmp = nor_program (view (chip hw)) (?off a) (take h data)"
    using nor_program_merge [OF len, of "view (chip hw)" "?off ?t"] e(4) by simp
  have d: "length data - length (drop h data) = h" if "drop h data \<noteq> []" using that by auto
  show thesis
  proof (rule that [of hw2])
    show "flashmem_write k src data a hw = (word_of_nat (length data), if drop h data = [] then hw2
       else flashmem_write_aligned k (src + word_of_nat h) (drop h data) ((a AND NOT 3) + 4) hw2)"
      unfolding flashmem_write_def
      by (cases "drop h data = []") (simp_all only: Let_def u simp_thms if_True if_False rd prod.case low f wr' d)
    show "flashmem_write (with_heap k) src data a hw = (word_of_nat (length data), if drop h data = [] then hw2
       else flashmem_write_aligned (with_heap k) (src + word_of_nat h) (drop h data) ((a AND NOT 3) + 4) hw2)"
      unfolding flashmem_write_def
      by (cases "drop h data = []") (simp_all only: Let_def u simp_thms if_True if_False rd prod.case low f wr d with_heap_simps)
  qed (use l1 l2 m in simp_all)
qed

lemma write_with_memory:
  assumes l: "unat (a - INTERNAL_FLASH_START_ADDRESS) + length data \<le> 0x01000000" and w: "body_writable k src data a"
  shows "flashmem_write (with_heap k) src data a hw = flashmem_write k src data a hw"
proof (cases "a AND 3 = 0")
  case True
  have "length data < 2 ^ 32" using l by simp
  moreover have "length data div 4 = 0 \<or> src AND 3 = 0 \<or> os_malloc_ok k (word_of_nat (length data div 4 * 4))"
    using w True by (simp add: body_writable_def write_head_def write_body_def)
  ultimately show ?thesis using True with_heap_aligned by (simp add: flashmem_write_def)
next
  case False
  let ?h = "4 - unat (a AND 3)"
  have "unat (a AND 3) \<noteq> 0" using False by (simp add: unat_eq_zero)
  then have h: "?h mod 4 = ?h" by simp
  obtain hw2 where e: "flashmem_write k src data a hw = (word_of_nat (length data), if drop ?h data = [] then hw2
       else flashmem_write_aligned k (src + word_of_nat ?h) (drop ?h data) ((a AND NOT 3) + 4) hw2)"
    "flashmem_write (with_heap k) src data a hw = (word_of_nat (length data), if drop ?h data = [] then hw2
       else flashmem_write_aligned (with_heap k) (src + word_of_nat ?h) (drop ?h data) ((a AND NOT 3) + 4) hw2)"
    by (rule unaligned_write [OF False l, of hw src])
  show ?thesis
  proof (cases "drop ?h data = []")
    case False
    then have "write_head a data = ?h" using h by (simp add: write_head_def)
    then have "length (drop ?h data) div 4 = 0 \<or> (src + word_of_nat ?h) AND 3 = 0 \<or>
        os_malloc_ok k (word_of_nat (length (drop ?h data) div 4 * 4))"
      using w unfolding body_writable_def write_body_def by (simp only: length_drop) simp
    moreover have "length (drop ?h data) < 2 ^ 32" using l by simp
    ultimately show ?thesis unfolding e using with_heap_aligned by simp
  qed (simp add: e)
qed

lemma write_without_memory:
  fixes a :: u32
  assumes l: "unat (a - INTERNAL_FLASH_START_ADDRESS) + length data \<le> 0x01000000" and w: "\<not> body_writable k src data a"
  defines "h \<equiv> write_head a data" and "n \<equiv> write_body a data"
  obtains hw' where "flashmem_write k src data a hw = (word_of_nat (length data), hw')"
    "view (chip hw') = nor_program (nor_program (view (chip hw)) (unat (a - INTERNAL_FLASH_START_ADDRESS)) (take h data))
       (unat (a - INTERNAL_FLASH_START_ADDRESS) + h + n) (drop (h + n) data)"
    "chip_size hw' = chip_size hw" "ps hw' = ps hw"
proof -
  let ?off = "\<lambda>a. unat (a - INTERNAL_FLASH_START_ADDRESS)"
  note low = spi_chip.unat_low_bits [OF with_heap_chip, of a]
  have n: "n = (length data - h) div 4 * 4" by (simp add: n_def h_def write_body_def)
  have w': "n \<noteq> 0" "(src + word_of_nat h) AND 3 \<noteq> 0" "\<not> os_malloc_ok k (word_of_nat n)"
    using w by (simp_all add: body_writable_def n_def h_def)
  then have h: "h = (4 - unat (a AND 3)) mod 4" "h < 4" "length data - h \<ge> 4" by (auto simp: n h_def write_head_def)
  obtain a' hw2 where a': "?off a' = ?off a + h" "?off a' mod 4 = 0"
    and m2: "view (chip hw2) = nor_program (view (chip hw)) (?off a) (take h data)" "chip_size hw2 = chip_size hw" "ps hw2 = ps hw"
    and e: "flashmem_write k src data a hw = (word_of_nat (length data), flashmem_write_aligned k (src + word_of_nat h) (drop h data) a' hw2)"
  proof (cases "a AND 3 = 0")
    case True
    then have "h = 0" using h by simp
    then show thesis
      using True low by (intro that [of a hw]) (simp_all add: flashmem_write_def nor_program_none)
  next
    case False
    then have r: "unat (a AND 3) \<noteq> 0" by (simp add: unat_eq_zero)
    moreover have "unat (a AND 3) < 4" unfolding low by simp
    ultimately have h': "h = 4 - unat (a AND 3)" using h(1) by simp
    obtain hw2 where "view (chip hw2) = nor_program (view (chip hw)) (?off a) (take h data)"
      "chip_size hw2 = chip_size hw" "ps hw2 = ps hw"
      "flashmem_write k src data a hw = (word_of_nat (length data), if drop h data = [] then hw2
         else flashmem_write_aligned k (src + word_of_nat h) (drop h data) ((a AND NOT 3) + 4) hw2)"
      by (rule unaligned_write [OF False l, of hw src, folded h'])
    moreover have "drop h data \<noteq> []" using h(3) by auto
    moreover have "?off ((a AND NOT 3) + 4) = ?off a + h"
    proof -
      have t: "?off (a AND NOT 3) = ?off a - ?off a mod 4" by (rule spi_chip.off_align [OF with_heap_chip])
      have "?off ((a AND NOT 3) + 4) = ?off (a AND NOT 3) + 4"
        using spi_chip.off_add [OF with_heap_chip, of "a AND NOT 3" 4] l t by simp
      moreover have "?off a mod 4 \<le> ?off a" "?off a mod 4 < 4" by simp_all
      ultimately show ?thesis using t h' unfolding low by linarith
    qed
    moreover have "(?off a + h) mod 4 = 0" using h' r unfolding low by presburger
    ultimately show thesis
      by (intro that [of "(a AND NOT 3) + 4" hw2]) simp_all
  qed
  let ?d = "drop h data"
  have n': "length ?d div 4 * 4 = n" by (simp add: n)
  have d: "length ?d < 2 ^ 32" "length ?d div 4 \<noteq> 0" using l h(3) by simp_all
  have al: "flashmem_write_aligned k (src + word_of_nat h) ?d a' hw2 =
      flashmem_write_aligned k (src + word_of_nat h + word_of_nat n) (drop n ?d) (a' + word_of_nat n) hw2"
    using aligned_no_memory [OF d w'(2)] w'(3) unfolding n' by blast
  have small: "length (drop n ?d) div 4 = 0" using n' by (simp add: minus_div_mult_eq_mod flip: n')
  have heap: "flashmem_write_aligned k s (drop n ?d) x hw2 = flashmem_write_aligned (with_heap k) s (drop n ?d) x hw2" for s x
    by (rule with_heap_aligned [symmetric]) (use small d(1) in simp_all)
  have nn: "n \<le> length data - h" by (simp add: n)
  have "unat (word_of_nat n :: u32) = n" using nn l by (simp add: unat_of_nat)
  then have o: "?off (a' + word_of_nat n) = ?off a + h + n"
    using spi_chip.off_add [OF with_heap_chip, of a' "word_of_nat n"] a'(1) nn l h(3) by simp
  have "?off (a' + word_of_nat n) mod 4 = 0" unfolding o a'(1) [symmetric] using a'(2) by (simp add: n mod_simps)
  moreover have "?off (a' + word_of_nat n) + length (drop n ?d) \<le> 0x01000000" unfolding o using nn l h(3) by simp
  ultimately have t: "view (chip (flashmem_write_aligned (with_heap k) s (drop n ?d) (a' + word_of_nat n) hw2)) =
        nor_program (view (chip hw2)) (?off (a' + word_of_nat n)) (drop n ?d) \<and>
      chip_size (flashmem_write_aligned (with_heap k) s (drop n ?d) (a' + word_of_nat n) hw2) = chip_size hw2 \<and>
      ps (flashmem_write_aligned (with_heap k) s (drop n ?d) (a' + word_of_nat n) hw2) = ps hw2" for s
    by (rule spi_chip.write_aligned [OF with_heap_chip])
  have dd: "drop n ?d = drop (h + n) data" by (simp add: add.commute)
  show thesis
    using t m2 unfolding o dd by (intro that [OF e [unfolded al heap, unfolded dd]]) simp_all
qed

end

section \<open>A reference chip\<close>

text \<open>A chip as the data sheet describes it, with every request granted: it meets the contract.\<close>

definition reference_sdk :: "(nat \<Rightarrow> u8) sdk" where
  "reference_sdk = \<lparr>
     spi_flash_erase_sector = (\<lambda>csz s d.
       if unat s * 4096 + 4096 \<le> unat csz then (True, nor_erase d (unat s * 4096) 4096) else (False, d)),
     spi_flash_write = (\<lambda>csz a bs d.
       if unat a mod 4 = 0 \<and> length bs mod 4 = 0 \<and> unat a + length bs \<le> unat csz
       then (True, nor_program d (unat a) bs) else (False, d)),
     spi_flash_read = (\<lambda>csz a n d.
       if unat a mod 4 = 0 \<and> unat n mod 4 = 0 \<and> unat a + unat n \<le> unat csz
       then (True, nor_read d (unat a) (unat n), d) else (False, replicate (unat n) 0, d)),
     os_malloc_ok = (\<lambda>n. True),
     tmpdata_addr = 0x3fff0000\<rparr>"

interpretation ref_chip: spi_chip reference_sdk id
  by unfold_locales (simp_all add: reference_sdk_def)

text \<open>The same chip when the heap is exhausted.\<close>

interpretation no_heap_chip: flash_chip "reference_sdk\<lparr>os_malloc_ok := \<lambda>n. False\<rparr>" id
  by unfold_locales (simp_all add: reference_sdk_def)

section \<open>Properties\<close>

text \<open>C29 (functional). On a chip that behaves as documented, \<^verbatim>\<open>api_spiffs_read\<close> returns success and
  exactly the bytes stored at the requested address, for every alignment and every length that ends
  inside the 16 MB window; contents, chip size setting and interrupt level are as before.\<close>

theorem api_read_exact:
  assumes "spi_chip k view" "unat (a - INTERNAL_FLASH_START_ADDRESS) + unat n \<le> 0x01000000"
  shows "\<exists>hw'. api_spiffs_read k a n hw =
      (0, nor_read (view (chip hw)) (unat (a - INTERNAL_FLASH_START_ADDRESS)) (unat n), hw') \<and>
    view (chip hw') = view (chip hw) \<and> chip_size hw' = chip_size hw \<and> ps hw' = ps hw"
  using spi_chip.flashmem_read_spec [OF assms, of hw] by (auto simp: api_spiffs_read_def)

theorem api_read_exact_witness:
  "\<exists>hw'. api_spiffs_read reference_sdk 0x40200003 6
      \<lparr>chip_size = 512, ps = 0, interrupts_state = 0, chip = (\<lambda>i. of_nat i)\<rparr> =
    (0, [3, 4, 5, 6, 7, 8], hw')"
  using api_read_exact [OF ref_chip.spi_chip_axioms, of "0x40200003" 6
    "\<lparr>chip_size = 512, ps = 0, interrupts_state = 0, chip = (\<lambda>i. of_nat i)\<rparr>"]
  by (auto simp: INTERNAL_FLASH_START_ADDRESS_def nor_read_def upt_rec)

text \<open>C28 (equivalence). Writing through \<^verbatim>\<open>api_spiffs_write\<close>, which splits a request into an unaligned
  head, whole words and an unaligned tail with read-modify-write of the border words, programs
  exactly the given bytes at the given address and nothing else, whenever the source of the whole words lies at a
  word boundary, there are none, or a copy of them can be allocated.  In the other case the whole words are left out,
  head and tail are programmed, and the result is still success.  Either way
  the chip size setting and the interrupt level are restored.\<close>

theorem api_write_programs_exactly:
  assumes "flash_chip k view" "unat (a - INTERNAL_FLASH_START_ADDRESS) + length data \<le> 0x01000000"
  shows "\<exists>hw'. api_spiffs_write k src a data hw = (0, hw') \<and>
    view (chip hw') =
      (let offset = unat (a - INTERNAL_FLASH_START_ADDRESS); h = write_head a data; n = write_body a data
       in if body_writable k src data a then nor_program (view (chip hw)) offset data
          else nor_program (nor_program (view (chip hw)) offset (take h data)) (offset + h + n) (drop (h + n) data)) \<and>
    chip_size hw' = chip_size hw \<and> ps hw' = ps hw"
proof (cases "body_writable k src data a")
  case True
  then show ?thesis
    using spi_chip.flashmem_write_spec [OF flash_chip.with_heap_chip [OF assms(1)] assms(2), of src hw]
      flash_chip.write_with_memory [OF assms True, of hw]
    by (auto simp: api_spiffs_write_def Let_def)
next
  case False
  obtain hw' where "flashmem_write k src data a hw = (word_of_nat (length data), hw')"
    "view (chip hw') = nor_program (nor_program (view (chip hw)) (unat (a - INTERNAL_FLASH_START_ADDRESS)) (take (write_head a data) data))
       (unat (a - INTERNAL_FLASH_START_ADDRESS) + write_head a data + write_body a data) (drop (write_head a data + write_body a data) data)"
    "chip_size hw' = chip_size hw" "ps hw' = ps hw"
    by (rule flash_chip.write_without_memory [OF assms False])
  with False show ?thesis by (simp add: api_spiffs_write_def Let_def)
qed

text \<open>Six bytes written from an odd place, with memory and without.\<close>

theorem api_write_programs_exactly_witness:
  "(\<exists>hw'. api_spiffs_write reference_sdk 0x3fff1002 0x40200003 [1, 2, 3, 4, 5, 6]
      \<lparr>chip_size = 512, ps = 0, interrupts_state = 0, chip = (\<lambda>i. 0xff)\<rparr> = (0, hw') \<and>
    map (chip hw') [0..<10] = [0xff, 0xff, 0xff, 1, 2, 3, 4, 5, 6, 0xff]) \<and>
   (\<exists>hw'. api_spiffs_write (reference_sdk\<lparr>os_malloc_ok := \<lambda>n. False\<rparr>) 0x3fff1002 0x40200003 [1, 2, 3, 4, 5, 6]
      \<lparr>chip_size = 512, ps = 0, interrupts_state = 0, chip = (\<lambda>i. 0xff)\<rparr> = (0, hw') \<and>
    map (chip hw') [0..<10] = [0xff, 0xff, 0xff, 1, 0xff, 0xff, 0xff, 0xff, 6, 0xff])"
proof -
  have h: "write_head 0x40200003 [1, 2, 3, 4, 5, 6] = 1" "write_body 0x40200003 [1, 2, 3, 4, 5, 6] = 4"
    by (simp_all add: write_head_def write_body_def)
  have b: "body_writable reference_sdk 0x3fff1002 [1, 2, 3, 4, 5, 6] 0x40200003"
    "\<not> body_writable (reference_sdk\<lparr>os_malloc_ok := \<lambda>n. False\<rparr>) 0x3fff1002 [1, 2, 3, 4, 5, 6] 0x40200003"
    by (simp_all add: body_writable_def h reference_sdk_def)
  show ?thesis
    using api_write_programs_exactly [OF ref_chip.flash_chip_axioms, of "0x40200003" "[1, 2, 3, 4, 5, 6]"
        "0x3fff1002" "\<lparr>chip_size = 512, ps = 0, interrupts_state = 0, chip = (\<lambda>i. 0xff)\<rparr>"]
      api_write_programs_exactly [OF no_heap_chip.flash_chip_axioms, of "0x40200003" "[1, 2, 3, 4, 5, 6]"
        "0x3fff1002" "\<lparr>chip_size = 512, ps = 0, interrupts_state = 0, chip = (\<lambda>i. 0xff)\<rparr>"]
    by (auto simp: INTERNAL_FLASH_START_ADDRESS_def nor_program_def upt_rec h b)
qed

text \<open>What is written to an erased range of the flash window is read back.\<close>

theorem api_write_read_roundtrip:
  assumes "spi_chip k view"
    and "0x40200000 \<le> unat a" "unat a + length data \<le> 0x41200000"
    and "\<forall>i < length data. flash_window view hw (unat a + i) = 0xff"
  shows "\<exists>hw1 hw2. api_spiffs_write k src a data hw = (0, hw1) \<and>
    api_spiffs_read k a (word_of_nat (length data)) hw1 = (0, data, hw2)"
proof -
  have "flash_window view hw i = 0xff" if "unat a \<le> i" "i < unat a + length data" for i
    using assms(4) [rule_format, of "i - unat a"] that by simp
  moreover have "length data < 2 ^ 32" using assms(3) by simp
  ultimately show ?thesis
    using nor_flash.hal_write_read [OF spi_chip.nor_flash_hal [OF assms(1)] assms(2,3)] by blast
qed

text \<open>C39 (safety). \<^verbatim>\<open>api_spiffs_erase\<close> of a sector-aligned range returns, reports success and leaves the
  range erased; but the last sector it erases is that of the address just after the range, so
  exactly the 4096 bytes that follow are erased with it and everything else keeps its contents.\<close>

theorem api_erase_one_sector_too_many:
  assumes "spi_chip k view"
    and "unat (a - INTERNAL_FLASH_START_ADDRESS) mod 4096 = 0" "unat n mod 4096 = 0"
    and "unat (a - INTERNAL_FLASH_START_ADDRESS) + unat n + 4096 \<le> 0x01000000"
  shows "\<exists>hw'. api_spiffs_erase k a n hw = Some (0, hw') \<and>
    view (chip hw') =
      nor_erase (view (chip hw)) (unat (a - INTERNAL_FLASH_START_ADDRESS)) (unat n + 4096) \<and>
    chip_size hw' = chip_size hw \<and> ps hw' = ps hw"
  by (rule spi_chip.api_spiffs_erase_spec [OF assms])

theorem api_erase_one_sector_too_many_witness:
  "\<exists>hw'. api_spiffs_erase reference_sdk 0x40202000 4096
      \<lparr>chip_size = 512, ps = 0, interrupts_state = 0, chip = (\<lambda>i. 7)\<rparr> = Some (0, hw') \<and>
    map (chip hw') [8191, 8192, 12287, 12288, 16383, 16384] = [7, 0xff, 0xff, 0xff, 0xff, 7]"
  using api_erase_one_sector_too_many [OF ref_chip.spi_chip_axioms, of "0x40202000" 4096
    "\<lparr>chip_size = 512, ps = 0, interrupts_state = 0, chip = (\<lambda>i. 7)\<rparr>"]
  by (auto simp: INTERNAL_FLASH_START_ADDRESS_def nor_erase_def)

theorem api_write_read_roundtrip_witness:
  "\<exists>hw1 hw2. api_spiffs_write reference_sdk 0 0x40200001 [5, 6, 7]
      \<lparr>chip_size = 512, ps = 0, interrupts_state = 0, chip = (\<lambda>i. 0xff)\<rparr> = (0, hw1) \<and>
    api_spiffs_read reference_sdk 0x40200001 3 hw1 = (0, [5, 6, 7], hw2)"
  using api_write_read_roundtrip [OF ref_chip.spi_chip_axioms, of "0x40200001" "[5, 6, 7]"
    "\<lparr>chip_size = 512, ps = 0, interrupts_state = 0, chip = (\<lambda>i. 0xff)\<rparr>" 0]
  by (simp add: flash_window_def)

end
