(* ===== verification/SpiffsLayout.thy ===== *)
theory SpiffsLayout
  imports Flashmem
begin

text \<open>
  The on-flash layout of the file system: \<^verbatim>\<open>spiffs_config\<close> of \<^verbatim>\<open>spiffs.h\<close> and the address macros of
  \<^verbatim>\<open>spiffs_nucleus.h\<close>, as functions of the configuration with the \<open>u32\<close> arithmetic of the C
  expressions.  Flash is divided into blocks of \<open>SPIFFS_PAGES_PER_BLOCK\<close> pages; the first
  \<open>SPIFFS_OBJ_LOOKUP_PAGES\<close> of a block hold one 16-bit object id for each of the other pages
  of the block, and the erase counter of the block in their last two bytes.

  Predicate \<open>geometry\<close> collects what the comments of \<^verbatim>\<open>spiffs.h\<close> and \<^verbatim>\<open>spiffs_config.h\<close> ask of a
  configuration; under it the lemmas give the values of the macros without wrap-around and show
  that (block, entry), page index and physical address determine each other.
\<close>

section \<open>Configuration\<close>

record 'd spiffs_config =
  hal_read_f :: "u32 \<Rightarrow> u32 \<Rightarrow> 'd \<Rightarrow> int \<times> u8 list \<times> 'd"
  hal_write_f :: "u32 \<Rightarrow> u8 list \<Rightarrow> 'd \<Rightarrow> int \<times> 'd"
  hal_erase_f :: "u32 \<Rightarrow> u32 \<Rightarrow> 'd \<Rightarrow> (int \<times> 'd) option"
  phys_size :: u32
  phys_addr :: u32
  phys_erase_block :: u32
  log_block_size :: u32
  log_page_size :: u32

text \<open>Sizes of the packed structures on flash.\<close>

definition sizeof_obj_id :: u32 where "sizeof_obj_id = 2"
definition sizeof_page_ix :: u32 where "sizeof_page_ix = 2"
definition sizeof_page_header :: u32 where "sizeof_page_header = 5"
definition offsetof_flags :: u32 where "offsetof_flags = 4"

text \<open>The \<^verbatim>\<open>_align\<close> member has \<^verbatim>\<open>4 - (sizeof(spiffs_page_header)&3)==0 ? 4 : (sizeof(spiffs_page_header)&3)\<close>
  bytes, and the header structure is padded to the alignment of a page index.\<close>

definition sizeof_align :: u32 where
  "sizeof_align = (if 4 - (sizeof_page_header AND 3) = 0 then 4 else sizeof_page_header AND 3)"

definition sizeof_page_object_ix :: u32 where
  "sizeof_page_object_ix = sizeof_page_header + sizeof_align"

definition SPIFFS_OBJ_NAME_LEN :: nat where "SPIFFS_OBJ_NAME_LEN = 32"

definition sizeof_page_object_ix_header :: u32 where
  "sizeof_page_object_ix_header =
     (let n = sizeof_page_header + sizeof_align + 4 + 1 + 32 in (n + 1) AND NOT 1)"

definition SPIFFS_OBJ_ID_IX_FLAG :: u16 where "SPIFFS_OBJ_ID_IX_FLAG = 0x8000"
definition SPIFFS_OBJ_ID_DELETED :: u16 where "SPIFFS_OBJ_ID_DELETED = 0"
definition SPIFFS_OBJ_ID_FREE :: u16 where "SPIFFS_OBJ_ID_FREE = 0xffff"

section \<open>Address macros\<close>

definition SPIFFS_MAX_PAGES :: "'d spiffs_config \<Rightarrow> u32" where
  "SPIFFS_MAX_PAGES cfg = phys_size cfg div log_page_size cfg"

definition SPIFFS_PAGES_PER_BLOCK :: "'d spiffs_config \<Rightarrow> u32" where
  "SPIFFS_PAGES_PER_BLOCK cfg = log_block_size cfg div log_page_size cfg"

definition SPIFFS_OBJ_LOOKUP_PAGES :: "'d spiffs_config \<Rightarrow> u32" where
  "SPIFFS_OBJ_LOOKUP_PAGES cfg =
     max 1 ((SPIFFS_PAGES_PER_BLOCK cfg * sizeof_obj_id) div log_page_size cfg)"

definition SPIFFS_IS_LOOKUP_PAGE :: "'d spiffs_config \<Rightarrow> u32 \<Rightarrow> bool" where
  "SPIFFS_IS_LOOKUP_PAGE cfg pix \<longleftrightarrow> pix mod SPIFFS_PAGES_PER_BLOCK cfg < SPIFFS_OBJ_LOOKUP_PAGES cfg"

definition SPIFFS_OBJ_LOOKUP_MAX_ENTRIES :: "'d spiffs_config \<Rightarrow> u32" where
  "SPIFFS_OBJ_LOOKUP_MAX_ENTRIES cfg = SPIFFS_PAGES_PER_BLOCK cfg - SPIFFS_OBJ_LOOKUP_PAGES cfg"

definition SPIFFS_BLOCK_TO_PADDR :: "'d spiffs_config \<Rightarrow> u32 \<Rightarrow> u32" where
  "SPIFFS_BLOCK_TO_PADDR cfg block = phys_addr cfg + block * log_block_size cfg"

definition SPIFFS_OBJ_LOOKUP_ENTRY_TO_PIX :: "'d spiffs_config \<Rightarrow> u32 \<Rightarrow> u32 \<Rightarrow> u32" where
  "SPIFFS_OBJ_LOOKUP_ENTRY_TO_PIX cfg block entry =
     block * SPIFFS_PAGES_PER_BLOCK cfg + (SPIFFS_OBJ_LOOKUP_PAGES cfg + entry)"

definition SPIFFS_OBJ_LOOKUP_ENTRY_TO_PADDR :: "'d spiffs_config \<Rightarrow> u32 \<Rightarrow> u32 \<Rightarrow> u32" where
  "SPIFFS_OBJ_LOOKUP_ENTRY_TO_PADDR cfg block entry =
     SPIFFS_BLOCK_TO_PADDR cfg block + (SPIFFS_OBJ_LOOKUP_PAGES cfg + entry) * log_page_size cfg"

definition SPIFFS_PAGE_TO_PADDR :: "'d spiffs_config \<Rightarrow> u32 \<Rightarrow> u32" where
  "SPIFFS_PAGE_TO_PADDR cfg page = phys_addr cfg + page * log_page_size cfg"

definition SPIFFS_PADDR_TO_PAGE :: "'d spiffs_config \<Rightarrow> u32 \<Rightarrow> u32" where
  "SPIFFS_PADDR_TO_PAGE cfg addr = (addr - phys_addr cfg) div log_page_size cfg"

definition SPIFFS_PADDR_TO_PAGE_OFFSET :: "'d spiffs_config \<Rightarrow> u32 \<Rightarrow> u32" where
  "SPIFFS_PADDR_TO_PAGE_OFFSET cfg addr = (addr - phys_addr cfg) mod log_page_size cfg"

definition SPIFFS_BLOCK_FOR_PAGE :: "'d spiffs_config \<Rightarrow> u32 \<Rightarrow> u32" where
  "SPIFFS_BLOCK_FOR_PAGE cfg page = page div SPIFFS_PAGES_PER_BLOCK cfg"

definition SPIFFS_PAGE_FOR_BLOCK :: "'d spiffs_config \<Rightarrow> u32 \<Rightarrow> u32" where
  "SPIFFS_PAGE_FOR_BLOCK cfg block = block * SPIFFS_PAGES_PER_BLOCK cfg"

definition SPIFFS_OBJ_LOOKUP_ENTRY_FOR_PAGE :: "'d spiffs_config \<Rightarrow> u32 \<Rightarrow> u32" where
  "SPIFFS_OBJ_LOOKUP_ENTRY_FOR_PAGE cfg page =
     page mod SPIFFS_PAGES_PER_BLOCK cfg - SPIFFS_OBJ_LOOKUP_PAGES cfg"

definition SPIFFS_DATA_PAGE_SIZE :: "'d spiffs_config \<Rightarrow> u32" where
  "SPIFFS_DATA_PAGE_SIZE cfg = log_page_size cfg - sizeof_page_header"

definition SPIFFS_ERASE_COUNT_PADDR :: "'d spiffs_config \<Rightarrow> u32 \<Rightarrow> u32" where
  "SPIFFS_ERASE_COUNT_PADDR cfg bix =
     SPIFFS_BLOCK_TO_PADDR cfg bix + SPIFFS_OBJ_LOOKUP_PAGES cfg * log_page_size cfg - sizeof_obj_id"

definition SPIFFS_OBJ_HDR_IX_LEN :: "'d spiffs_config \<Rightarrow> u32" where
  "SPIFFS_OBJ_HDR_IX_LEN cfg = (log_page_size cfg - sizeof_page_object_ix_header) div sizeof_page_ix"

definition SPIFFS_OBJ_IX_LEN :: "'d spiffs_config \<Rightarrow> u32" where
  "SPIFFS_OBJ_IX_LEN cfg = (log_page_size cfg - sizeof_page_object_ix) div sizeof_page_ix"

definition SPIFFS_OBJ_IX_ENTRY :: "'d spiffs_config \<Rightarrow> u32 \<Rightarrow> u32" where
  "SPIFFS_OBJ_IX_ENTRY cfg spix =
     (if spix < SPIFFS_OBJ_HDR_IX_LEN cfg then spix
      else (spix - SPIFFS_OBJ_HDR_IX_LEN cfg) mod SPIFFS_OBJ_IX_LEN cfg)"

definition SPIFFS_OBJ_IX_ENTRY_SPAN_IX :: "'d spiffs_config \<Rightarrow> u32 \<Rightarrow> u32" where
  "SPIFFS_OBJ_IX_ENTRY_SPAN_IX cfg spix =
     (if spix < SPIFFS_OBJ_HDR_IX_LEN cfg then 0
      else 1 + (spix - SPIFFS_OBJ_HDR_IX_LEN cfg) div SPIFFS_OBJ_IX_LEN cfg)"

section \<open>Valid geometries\<close>

text \<open>Page size, pages per block, lookup pages per block, entries per block and number of blocks as
  natural numbers.\<close>

definition psz :: "'d spiffs_config \<Rightarrow> nat" where "psz cfg = unat (log_page_size cfg)"
definition ppb :: "'d spiffs_config \<Rightarrow> nat" where
  "ppb cfg = unat (log_block_size cfg) div psz cfg"
definition lups :: "'d spiffs_config \<Rightarrow> nat" where
  "lups cfg = max 1 (ppb cfg * 2 div psz cfg)"
definition ents :: "'d spiffs_config \<Rightarrow> nat" where "ents cfg = ppb cfg - lups cfg"
definition blks :: "'d spiffs_config \<Rightarrow> nat" where
  "blks cfg = unat (phys_size cfg) div unat (log_block_size cfg)"
definition base :: "'d spiffs_config \<Rightarrow> nat" where "base cfg = unat (phys_addr cfg)"

text \<open>A block is a whole number of pages and the file system a whole number of blocks, inside the
  address space; page indices fit 16 bits with \<open>0xffff\<close> left over; a page holds an index header
  and some entries; and the object ids of a block either fit one lookup page or fill them.\<close>

definition geometry :: "'d spiffs_config \<Rightarrow> bool" where
  "geometry cfg \<longleftrightarrow>
     64 \<le> psz cfg \<and> psz cfg mod 2 = 0 \<and>
     unat (log_block_size cfg) mod psz cfg = 0 \<and> 2 \<le> ppb cfg \<and>
     unat (phys_size cfg) mod unat (log_block_size cfg) = 0 \<and> 0 < blks cfg \<and>
     base cfg + unat (phys_size cfg) < 2 ^ 32 \<and>
     unat (phys_size cfg) div psz cfg \<le> 65535 \<and>
     (ppb cfg * 2 \<le> psz cfg \<or> (ppb cfg * 2) mod psz cfg = 0)"

section \<open>The macros under a valid geometry\<close>

named_theorems layout_simps "values of the address macros"

lemma mult_le_of_le: "(a :: nat) < b \<Longrightarrow> a * c + c \<le> b * c"
  by (metis add.commute mult_Suc mult_le_mono1 Suc_leI)

lemma geometry_facts:
  assumes "geometry cfg"
  shows "64 \<le> psz cfg" and "psz cfg mod 2 = 0"
    and "unat (log_block_size cfg) = ppb cfg * psz cfg"
    and "unat (phys_size cfg) = blks cfg * (ppb cfg * psz cfg)"
    and "2 \<le> ppb cfg" and "0 < blks cfg" and "blks cfg * ppb cfg \<le> 65535"
    and "base cfg + blks cfg * (ppb cfg * psz cfg) < 2 ^ 32"
    and "1 \<le> lups cfg" and "lups cfg < ppb cfg" and "ents cfg * 2 + 2 \<le> lups cfg * psz cfg"
proof -
  note g = assms [unfolded geometry_def]
  show p: "64 \<le> psz cfg" and "psz cfg mod 2 = 0" and b2: "2 \<le> ppb cfg" and "0 < blks cfg"
    using g by auto
  show b: "unat (log_block_size cfg) = ppb cfg * psz cfg"
    using g by (auto simp: ppb_def)
  show s: "unat (phys_size cfg) = blks cfg * (ppb cfg * psz cfg)"
    using g unfolding b [symmetric] by (auto simp: blks_def)
  have "blks cfg * (ppb cfg * psz cfg) div psz cfg = blks cfg * ppb cfg"
    using p by (metis mult.assoc div_mult_self_is_m less_le_trans zero_less_numeral)
  with g show "blks cfg * ppb cfg \<le> 65535" unfolding s by simp
  show "base cfg + blks cfg * (ppb cfg * psz cfg) < 2 ^ 32"
    using g unfolding s by simp
  show l1: "1 \<le> lups cfg" by (simp add: lups_def)
  have "ppb cfg * 2 div psz cfg \<le> ppb cfg * 2 div 64" using p by (intro div_le_mono2) simp_all
  also have "ppb cfg * 2 div 64 < ppb cfg" using b2 by simp
  finally show l2: "lups cfg < ppb cfg" using b2 unfolding lups_def by simp
  show "ents cfg * 2 + 2 \<le> lups cfg * psz cfg"
  proof (cases "ppb cfg * 2 \<le> psz cfg")
    case True
    have "psz cfg \<le> lups cfg * psz cfg" using l1 by simp
    with True l1 l2 show ?thesis unfolding ents_def by linarith
  next
    case False
    with g have "(ppb cfg * 2) mod psz cfg = 0" by blast
    then have "ppb cfg * 2 = (ppb cfg * 2 div psz cfg) * psz cfg" by auto
    moreover have "1 \<le> ppb cfg * 2 div psz cfg"
      using False p by (metis div_greater_zero_iff less_le_trans linorder_not_le less_imp_le zero_less_numeral Suc_leI One_nat_def)
    ultimately have "lups cfg * psz cfg = ppb cfg * 2" by (simp add: lups_def max_def)
    with l1 l2 show ?thesis unfolding ents_def by linarith
  qed
qed

lemma sizeof_simps [layout_simps, simp]:
  "sizeof_obj_id = 2" "sizeof_page_ix = 2" "sizeof_page_header = 5" "offsetof_flags = 4"
  "sizeof_align = 1" "sizeof_page_object_ix = 6" "sizeof_page_object_ix_header = 44"
  by (simp_all add: sizeof_obj_id_def sizeof_page_ix_def sizeof_page_header_def offsetof_flags_def
      sizeof_align_def sizeof_page_object_ix_def sizeof_page_object_ix_header_def)

locale spiffs_geometry =
  fixes cfg :: "'d spiffs_config"
  assumes g: "geometry cfg"
begin

lemma unat_pages_per_block [layout_simps]: "unat (SPIFFS_PAGES_PER_BLOCK cfg) = ppb cfg"
  by (simp add: SPIFFS_PAGES_PER_BLOCK_def ppb_def psz_def unat_div)

lemma ppb_bound: "ppb cfg \<le> 65535"
  using geometry_facts(6,7) [OF g] by (metis le_trans mult_le_mono1 nat_mult_1 Suc_leI One_nat_def)

lemma unat_lookup_pages [layout_simps]: "unat (SPIFFS_OBJ_LOOKUP_PAGES cfg) = lups cfg"
proof -
  have "unat (SPIFFS_PAGES_PER_BLOCK cfg * 2) = ppb cfg * 2"
    using ppb_bound unat_mult_no_wrap [of "SPIFFS_PAGES_PER_BLOCK cfg" 2]
    by (simp add: unat_pages_per_block)
  then have u: "unat (SPIFFS_PAGES_PER_BLOCK cfg * 2 div log_page_size cfg) = ppb cfg * 2 div psz cfg"
    by (simp add: unat_div psz_def)
  have "unat (max 1 w) = max 1 (unat w)" for w :: u32
    by (simp add: max_def word_le_nat_alt)
  then show ?thesis unfolding SPIFFS_OBJ_LOOKUP_PAGES_def lups_def sizeof_simps u [symmetric] .
qed

lemma unat_max_entries [layout_simps]: "unat (SPIFFS_OBJ_LOOKUP_MAX_ENTRIES cfg) = ents cfg"
  unfolding SPIFFS_OBJ_LOOKUP_MAX_ENTRIES_def ents_def
  using geometry_facts(10) [OF g]
  by (subst unat_sub_no_wrap) (simp_all add: layout_simps)

lemma unat_page_to_paddr [layout_simps]:
  assumes "unat pg < blks cfg * ppb cfg"
  shows "unat (SPIFFS_PAGE_TO_PADDR cfg pg) = base cfg + unat pg * psz cfg"
proof -
  have "unat pg * psz cfg < blks cfg * ppb cfg * psz cfg"
    using assms geometry_facts(1) [OF g] by simp
  then have l: "base cfg + unat pg * psz cfg < 2 ^ 32"
    using geometry_facts(8) [OF g] unfolding mult.assoc by linarith
  then have "unat (pg * log_page_size cfg) = unat pg * psz cfg"
    unfolding psz_def by (intro unat_mult_no_wrap) simp
  with l show ?thesis
    unfolding SPIFFS_PAGE_TO_PADDR_def base_def by (subst unat_add_no_wrap) simp_all
qed

lemma unat_block_to_paddr [layout_simps]:
  assumes "unat b < blks cfg"
  shows "unat (SPIFFS_BLOCK_TO_PADDR cfg b) = base cfg + unat b * (ppb cfg * psz cfg)"
proof -
  have "unat b * (ppb cfg * psz cfg) \<le> blks cfg * (ppb cfg * psz cfg)"
    using assms by (intro mult_le_mono1) simp
  then have l: "base cfg + unat b * (ppb cfg * psz cfg) < 2 ^ 32"
    using geometry_facts(8) [OF g] by linarith
  then have "unat (b * log_block_size cfg) = unat b * (ppb cfg * psz cfg)"
    unfolding geometry_facts(3) [OF g, symmetric] by (intro unat_mult_no_wrap) simp
  with l show ?thesis
    unfolding SPIFFS_BLOCK_TO_PADDR_def base_def by (subst unat_add_no_wrap) simp_all
qed

lemma entry_page_bound:
  assumes "b < blks cfg" "e < ents cfg"
  shows "b * ppb cfg + (lups cfg + e) < blks cfg * ppb cfg"
  using mult_le_of_le [OF assms(1), of "ppb cfg"] assms(2) by (simp add: ents_def)

lemma unat_entry_to_pix [layout_simps]:
  assumes "unat b < blks cfg" "unat e < ents cfg"
  shows "unat (SPIFFS_OBJ_LOOKUP_ENTRY_TO_PIX cfg b e) = unat b * ppb cfg + (lups cfg + unat e)"
proof -
  note l = entry_page_bound [OF assms] geometry_facts(7) [OF g]
  then have 1: "unat (b * SPIFFS_PAGES_PER_BLOCK cfg) = unat b * ppb cfg"
    by (subst unat_mult_no_wrap) (simp_all add: layout_simps)
  have 2: "unat (SPIFFS_OBJ_LOOKUP_PAGES cfg + e) = lups cfg + unat e"
    using l by (subst unat_add_no_wrap) (simp_all add: layout_simps)
  show ?thesis
    unfolding SPIFFS_OBJ_LOOKUP_ENTRY_TO_PIX_def using l
    by (subst unat_add_no_wrap) (simp_all only: 1 2, simp_all)
qed

lemma unat_entry_to_paddr [layout_simps]:
  assumes "unat b < blks cfg" "unat e < ents cfg"
  shows "unat (SPIFFS_OBJ_LOOKUP_ENTRY_TO_PADDR cfg b e) =
    base cfg + (unat b * ppb cfg + (lups cfg + unat e)) * psz cfg"
proof -
  let ?q = "unat b * ppb cfg + (lups cfg + unat e)"
  have "?q * psz cfg + psz cfg \<le> blks cfg * ppb cfg * psz cfg"
    by (rule mult_le_of_le) (rule entry_page_bound [OF assms])
  then have l: "base cfg + unat b * (ppb cfg * psz cfg) + (lups cfg + unat e) * psz cfg < 2 ^ 32"
    using geometry_facts(8) [OF g] unfolding add_mult_distrib mult.assoc
    using geometry_facts(1) [OF g] by linarith
  have 2: "unat (SPIFFS_OBJ_LOOKUP_PAGES cfg + e) = lups cfg + unat e"
    using entry_page_bound [OF assms] geometry_facts(7) [OF g]
    by (subst unat_add_no_wrap) (simp_all add: layout_simps)
  have 3: "unat ((SPIFFS_OBJ_LOOKUP_PAGES cfg + e) * log_page_size cfg) = (lups cfg + unat e) * psz cfg"
    using l by (subst unat_mult_no_wrap) (simp_all only: 2 psz_def [symmetric], simp_all)
  show ?thesis
    unfolding SPIFFS_OBJ_LOOKUP_ENTRY_TO_PADDR_def using l
    by (subst unat_add_no_wrap) (simp_all only: 3 unat_block_to_paddr [OF assms(1)] add_mult_distrib mult.assoc, simp_all)
qed

lemma unat_erase_count_paddr [layout_simps]:
  assumes "unat b < blks cfg"
  shows "unat (SPIFFS_ERASE_COUNT_PADDR cfg b) =
    base cfg + unat b * (ppb cfg * psz cfg) + (lups cfg * psz cfg - 2)"
proof -
  have "unat b * (ppb cfg * psz cfg) + (ppb cfg * psz cfg) \<le> blks cfg * (ppb cfg * psz cfg)"
    by (rule mult_le_of_le) (rule assms)
  moreover have "lups cfg * psz cfg \<le> ppb cfg * psz cfg"
    using geometry_facts(10) [OF g] by simp
  ultimately have l: "base cfg + unat b * (ppb cfg * psz cfg) + lups cfg * psz cfg < 2 ^ 32"
    using geometry_facts(8) [OF g] by linarith
  have 1: "unat (SPIFFS_OBJ_LOOKUP_PAGES cfg * log_page_size cfg) = lups cfg * psz cfg"
    using l by (subst unat_mult_no_wrap) (simp_all add: layout_simps psz_def [symmetric])
  have 2: "unat (SPIFFS_BLOCK_TO_PADDR cfg b + SPIFFS_OBJ_LOOKUP_PAGES cfg * log_page_size cfg) =
      base cfg + unat b * (ppb cfg * psz cfg) + lups cfg * psz cfg"
    using l by (subst unat_add_no_wrap) (simp_all only: 1 unat_block_to_paddr [OF assms], simp_all)
  have "2 \<le> lups cfg * psz cfg" using geometry_facts(11) [OF g] by simp
  then show ?thesis
    unfolding SPIFFS_ERASE_COUNT_PADDR_def sizeof_simps
    by (subst unat_sub_no_wrap) (simp_all add: 2)
qed

lemma unat_paddr_to_page [layout_simps]:
  "base cfg \<le> unat addr \<Longrightarrow> unat (SPIFFS_PADDR_TO_PAGE cfg addr) = (unat addr - base cfg) div psz cfg"
  by (simp add: SPIFFS_PADDR_TO_PAGE_def unat_div psz_def base_def unat_sub_no_wrap)

lemma unat_paddr_to_page_offset [layout_simps]:
  "base cfg \<le> unat addr \<Longrightarrow>
   unat (SPIFFS_PADDR_TO_PAGE_OFFSET cfg addr) = (unat addr - base cfg) mod psz cfg"
  by (simp add: SPIFFS_PADDR_TO_PAGE_OFFSET_def unat_mod psz_def base_def unat_sub_no_wrap)

lemma unat_block_for_page [layout_simps]: "unat (SPIFFS_BLOCK_FOR_PAGE cfg pg) = unat pg div ppb cfg"
  by (simp add: SPIFFS_BLOCK_FOR_PAGE_def unat_div layout_simps)

lemma is_lookup_page_iff [layout_simps]: "SPIFFS_IS_LOOKUP_PAGE cfg pg \<longleftrightarrow> unat pg mod ppb cfg < lups cfg"
  by (simp add: SPIFFS_IS_LOOKUP_PAGE_def word_less_nat_alt unat_mod layout_simps)

lemma unat_entry_for_page [layout_simps]:
  "\<not> SPIFFS_IS_LOOKUP_PAGE cfg pg \<Longrightarrow>
   unat (SPIFFS_OBJ_LOOKUP_ENTRY_FOR_PAGE cfg pg) = unat pg mod ppb cfg - lups cfg"
  unfolding SPIFFS_OBJ_LOOKUP_ENTRY_FOR_PAGE_def is_lookup_page_iff
  by (subst unat_sub_no_wrap) (simp_all add: unat_mod layout_simps)

end
section \<open>The configuration the application mounts\<close>

text \<open>\<^verbatim>\<open>FSClass::_mountInternal\<close> with the linker's addresses as arguments: the configuration it fills
  in; a page or block size of 0 selects the defaults.\<close>

definition mount_config ::
  "'d sdk \<Rightarrow> u32 \<Rightarrow> u32 \<Rightarrow> u32 \<Rightarrow> u32 \<Rightarrow> u32 \<Rightarrow> 'd flash_hw spiffs_config option" where
  "mount_config k src beginAddress endAddress pageSize blockSize =
     (if beginAddress = 0 \<or> beginAddress \<ge> endAddress then None
      else Some \<lparr>hal_read_f = api_spiffs_read k, hal_write_f = api_spiffs_write k src,
        hal_erase_f = api_spiffs_erase k,
        phys_size = endAddress - beginAddress, phys_addr = beginAddress,
        phys_erase_block = INTERNAL_FLASH_SECTOR_SIZE,
        log_block_size = (if blockSize = 0 then 4096 else blockSize),
        log_page_size = (if pageSize = 0 then 256 else pageSize)\<rparr>)"

lemma mount_config_geometry:
  "geometry (the (mount_config k src 0x40300000 0x40400000 256 8192))"
  by (simp add: mount_config_def geometry_def psz_def ppb_def blks_def base_def)

interpretation mounted: spiffs_geometry "the (mount_config k src 0x40300000 0x40400000 256 8192)"
  for k src
  by unfold_locales (rule mount_config_geometry)

section \<open>Pages and entries\<close>

context spiffs_geometry
begin

lemma unat_max_pages [layout_simps]: "unat (SPIFFS_MAX_PAGES cfg) = blks cfg * ppb cfg"
proof -
  have "blks cfg * (ppb cfg * psz cfg) div psz cfg = blks cfg * ppb cfg"
    using geometry_facts(1) [OF g]
    by (metis mult.assoc div_mult_self_is_m less_le_trans zero_less_numeral)
  then show ?thesis
    by (simp add: SPIFFS_MAX_PAGES_def unat_div psz_def [symmetric] geometry_facts(4) [OF g])
qed

lemma entry_to_page:
  assumes "unat b < blks cfg" "unat e < ents cfg"
  defines "pix \<equiv> SPIFFS_OBJ_LOOKUP_ENTRY_TO_PIX cfg b e"
  shows "SPIFFS_BLOCK_FOR_PAGE cfg pix = b" and "\<not> SPIFFS_IS_LOOKUP_PAGE cfg pix"
    and "SPIFFS_OBJ_LOOKUP_ENTRY_FOR_PAGE cfg pix = e" and "pix < SPIFFS_MAX_PAGES cfg"
    and "SPIFFS_PAGE_TO_PADDR cfg pix = SPIFFS_OBJ_LOOKUP_ENTRY_TO_PADDR cfg b e"
proof -
  have u: "unat pix = unat b * ppb cfg + (lups cfg + unat e)"
    unfolding pix_def by (rule unat_entry_to_pix [OF assms(1,2)])
  have le: "lups cfg + unat e < ppb cfg" using assms(2) by (simp add: ents_def)
  show l: "\<not> SPIFFS_IS_LOOKUP_PAGE cfg pix"
    using le by (simp add: is_lookup_page_iff u)
  show "SPIFFS_BLOCK_FOR_PAGE cfg pix = b"
    using le by (intro iffD2 [OF word_unat_eq_iff]) (simp add: unat_block_for_page u)
  show "SPIFFS_OBJ_LOOKUP_ENTRY_FOR_PAGE cfg pix = e"
    using le by (intro iffD2 [OF word_unat_eq_iff]) (simp add: unat_entry_for_page [OF l] u)
  have lt: "unat pix < blks cfg * ppb cfg" unfolding u by (rule entry_page_bound [OF assms(1,2)])
  then show "pix < SPIFFS_MAX_PAGES cfg" by (simp add: word_less_nat_alt unat_max_pages)
  show "SPIFFS_PAGE_TO_PADDR cfg pix = SPIFFS_OBJ_LOOKUP_ENTRY_TO_PADDR cfg b e"
    by (intro iffD2 [OF word_unat_eq_iff])
      (simp only: unat_page_to_paddr [OF lt] unat_entry_to_paddr [OF assms(1,2)] u)
qed

lemma page_to_entry:
  assumes "unat pix < blks cfg * ppb cfg" and "\<not> SPIFFS_IS_LOOKUP_PAGE cfg pix"
  shows "unat (SPIFFS_BLOCK_FOR_PAGE cfg pix) < blks cfg"
    and "unat (SPIFFS_OBJ_LOOKUP_ENTRY_FOR_PAGE cfg pix) < ents cfg"
    and "SPIFFS_OBJ_LOOKUP_ENTRY_TO_PIX cfg (SPIFFS_BLOCK_FOR_PAGE cfg pix)
      (SPIFFS_OBJ_LOOKUP_ENTRY_FOR_PAGE cfg pix) = pix"
proof -
  have p: "0 < ppb cfg" using geometry_facts(5) [OF g] by simp
  show b: "unat (SPIFFS_BLOCK_FOR_PAGE cfg pix) < blks cfg"
    using assms(1) p by (simp add: unat_block_for_page div_less_iff_less_mult)
  have l: "lups cfg \<le> unat pix mod ppb cfg" using assms(2) by (simp add: is_lookup_page_iff)
  then show e: "unat (SPIFFS_OBJ_LOOKUP_ENTRY_FOR_PAGE cfg pix) < ents cfg"
    using p by (simp add: unat_entry_for_page [OF assms(2)] ents_def diff_less_mono)
  show "SPIFFS_OBJ_LOOKUP_ENTRY_TO_PIX cfg (SPIFFS_BLOCK_FOR_PAGE cfg pix)
      (SPIFFS_OBJ_LOOKUP_ENTRY_FOR_PAGE cfg pix) = pix"
    by (intro iffD2 [OF word_unat_eq_iff])
      (simp add: unat_entry_to_pix [OF b e] unat_block_for_page unat_entry_for_page [OF assms(2)] l)
qed

lemma entry_slot:
  assumes "unat b < blks cfg" "e < ents cfg"
  shows "unat (SPIFFS_BLOCK_TO_PADDR cfg b) + 2 * e + 2 \<le> unat (SPIFFS_ERASE_COUNT_PADDR cfg b)"
proof -
  have "2 * e + 2 \<le> lups cfg * psz cfg - 2"
    using assms(2) geometry_facts(11) [OF g] by linarith
  then show ?thesis
    by (simp add: unat_block_to_paddr [OF assms(1)] unat_erase_count_paddr [OF assms(1)])
qed

text \<open>Index entries: the header page holds the first \<open>hdr_len\<close> data pages, index page \<open>n\<close> the \<open>ix_len\<close>
  pages from \<open>hdr_len + (n - 1) * ix_len\<close> on.\<close>

lemma unat_ix_len [layout_simps]:
  "unat (SPIFFS_OBJ_HDR_IX_LEN cfg) = (psz cfg - 44) div 2"
  "unat (SPIFFS_OBJ_IX_LEN cfg) = (psz cfg - 6) div 2"
proof -
  have "64 \<le> unat (log_page_size cfg)" using geometry_facts(1) [OF g] by (simp add: psz_def)
  then have "unat (log_page_size cfg - 44) = psz cfg - 44" "unat (log_page_size cfg - 6) = psz cfg - 6"
    by (simp_all add: psz_def unat_sub_no_wrap)
  then show "unat (SPIFFS_OBJ_HDR_IX_LEN cfg) = (psz cfg - 44) div 2"
    "unat (SPIFFS_OBJ_IX_LEN cfg) = (psz cfg - 6) div 2"
    by (simp_all add: SPIFFS_OBJ_HDR_IX_LEN_def SPIFFS_OBJ_IX_LEN_def unat_div)
qed

end

section \<open>Properties\<close>

text \<open>Under a valid geometry a block index and an object lookup entry determine the
  page they describe and are recovered from it, the page is never one of the lookup pages, and the
  two macros for its physical address agree; conversely every page that is not a lookup page is the
  page of exactly that entry.\<close>

theorem entry_page_roundtrip:
  assumes "geometry cfg"
  shows "(\<forall>b e. unat b < blks cfg \<and> unat e < ents cfg \<longrightarrow>
      (let pix = SPIFFS_OBJ_LOOKUP_ENTRY_TO_PIX cfg b e in
        SPIFFS_BLOCK_FOR_PAGE cfg pix = b \<and> SPIFFS_OBJ_LOOKUP_ENTRY_FOR_PAGE cfg pix = e \<and>
        \<not> SPIFFS_IS_LOOKUP_PAGE cfg pix \<and> pix < SPIFFS_MAX_PAGES cfg \<and>
        SPIFFS_PAGE_TO_PADDR cfg pix = SPIFFS_OBJ_LOOKUP_ENTRY_TO_PADDR cfg b e)) \<and>
    (\<forall>pix. pix < SPIFFS_MAX_PAGES cfg \<and> \<not> SPIFFS_IS_LOOKUP_PAGE cfg pix \<longrightarrow>
      SPIFFS_OBJ_LOOKUP_ENTRY_TO_PIX cfg (SPIFFS_BLOCK_FOR_PAGE cfg pix)
        (SPIFFS_OBJ_LOOKUP_ENTRY_FOR_PAGE cfg pix) = pix)"
proof -
  have l: "spiffs_geometry cfg" by unfold_locales (rule assms)
  have "unat pix < blks cfg * ppb cfg" if "pix < SPIFFS_MAX_PAGES cfg" for pix
    using that by (simp add: word_less_nat_alt spiffs_geometry.unat_max_pages [OF l])
  then show ?thesis
    using spiffs_geometry.entry_to_page [OF l] spiffs_geometry.page_to_entry(3) [OF l]
    by (simp add: Let_def)
qed

definition example_config :: "(nat \<Rightarrow> u8) flash_hw spiffs_config" where
  "example_config = the (mount_config reference_sdk 0 0x40300000 0x40400000 256 8192)"

lemma example_config_geometry: "geometry example_config"
  unfolding example_config_def by (rule mount_config_geometry)

lemma example_config_sizes [layout_simps]:
  "psz example_config = 256" "ppb example_config = 32" "lups example_config = 1"
  "ents example_config = 31" "blks example_config = 128" "base example_config = 0x40300000"
  by (simp_all add: example_config_def mount_config_def psz_def ppb_def lups_def ents_def blks_def
      base_def)

theorem entry_page_roundtrip_witness:
  "SPIFFS_OBJ_LOOKUP_ENTRY_FOR_PAGE example_config
     (SPIFFS_OBJ_LOOKUP_ENTRY_TO_PIX example_config 5 30) = 30"
  using conjunct1 [OF entry_page_roundtrip [OF example_config_geometry], rule_format, of 5 30]
  by (simp add: layout_simps Let_def)

text \<open>The lookup entries of a block never reach its erase counter, which ends where the
  first data page of the block begins.\<close>

theorem erase_count_apart_from_entries:
  assumes "geometry cfg" "unat b < blks cfg" "e < ents cfg"
  shows "unat (SPIFFS_BLOCK_TO_PADDR cfg b) + 2 * e + 2 \<le> unat (SPIFFS_ERASE_COUNT_PADDR cfg b) \<and>
    unat (SPIFFS_ERASE_COUNT_PADDR cfg b) + 2 = unat (SPIFFS_OBJ_LOOKUP_ENTRY_TO_PADDR cfg b 0)"
proof -
  have l: "spiffs_geometry cfg" by unfold_locales (rule assms)
  have "unat (0 :: u32) < ents cfg" using assms(3) by simp
  moreover have "2 \<le> lups cfg * psz cfg" using geometry_facts(11) [OF assms(1)] by simp
  ultimately show ?thesis
    using spiffs_geometry.entry_slot [OF l assms(2,3)]
    by (simp add: spiffs_geometry.unat_erase_count_paddr [OF l assms(2)] add_mult_distrib
        spiffs_geometry.unat_entry_to_paddr [OF l assms(2)])
qed

theorem erase_count_apart_from_entries_witness:
  "unat (SPIFFS_ERASE_COUNT_PADDR example_config 5) + 2 =
   unat (SPIFFS_OBJ_LOOKUP_ENTRY_TO_PADDR example_config 5 0)"
  using erase_count_apart_from_entries [OF example_config_geometry, of 5 30]
  by (simp add: layout_simps)

text \<open>The object index is a faithful two-level table: the pair of index page (span index)
  and slot in it that the two macros compute determines the data page, and the slot lies within the
  entries that fit the page after its header, 44 bytes in the header page and 6 in the others.\<close>

theorem index_slot_injective:
  assumes "geometry cfg"
  shows "(\<forall>s t. SPIFFS_OBJ_IX_ENTRY cfg s = SPIFFS_OBJ_IX_ENTRY cfg t \<and>
      SPIFFS_OBJ_IX_ENTRY_SPAN_IX cfg s = SPIFFS_OBJ_IX_ENTRY_SPAN_IX cfg t \<longrightarrow> s = t) \<and>
    (\<forall>s. (if SPIFFS_OBJ_IX_ENTRY_SPAN_IX cfg s = 0 then 44 else 6) +
       2 * unat (SPIFFS_OBJ_IX_ENTRY cfg s) + 2 \<le> psz cfg)"
proof -
  have l: "spiffs_geometry cfg" by unfold_locales (rule assms)
  have h: "64 \<le> psz cfg" "psz cfg mod 2 = 0" using geometry_facts [OF assms] by auto
  let ?H = "SPIFFS_OBJ_HDR_IX_LEN cfg" and ?I = "SPIFFS_OBJ_IX_LEN cfg"
  have u: "unat ?H = (psz cfg - 44) div 2" "unat ?I = (psz cfg - 6) div 2"
    by (rule spiffs_geometry.unat_ix_len [OF l])+
  have I: "29 \<le> unat ?I" unfolding u using h(1) by linarith
  have nz: "1 + (s - ?H) div ?I \<noteq> 0" for s
  proof
    assume "1 + (s - ?H) div ?I = 0"
    then have "(s - ?H) div ?I = - 1" by (simp add: add_eq_0_iff)
    then have "unat ((s - ?H) div ?I) = unat (- 1 :: u32)" by (rule arg_cong)
    then have "unat (s - ?H) div unat ?I = 2 ^ 32 - 1"
      by (simp add: unat_div unsigned_minus_1_eq_mask mask_eq_exp_minus_1)
    moreover have "unat (s - ?H) div unat ?I \<le> unat (s - ?H) div 29"
      using I by (intro div_le_mono2) simp_all
    ultimately show False using unat_u32_less [of "s - ?H"] by simp
  qed
  have "s = t" if e: "SPIFFS_OBJ_IX_ENTRY cfg s = SPIFFS_OBJ_IX_ENTRY cfg t"
    and sp: "SPIFFS_OBJ_IX_ENTRY_SPAN_IX cfg s = SPIFFS_OBJ_IX_ENTRY_SPAN_IX cfg t" for s t
  proof (cases "s < ?H \<or> t < ?H")
    case True
    then show ?thesis
      using e sp nz by (auto simp: SPIFFS_OBJ_IX_ENTRY_def SPIFFS_OBJ_IX_ENTRY_SPAN_IX_def
          split: if_splits)
  next
    case False
    then have "(s - ?H) div ?I = (t - ?H) div ?I" "(s - ?H) mod ?I = (t - ?H) mod ?I"
      using e sp by (simp_all add: SPIFFS_OBJ_IX_ENTRY_def SPIFFS_OBJ_IX_ENTRY_SPAN_IX_def)
    then have "s - ?H = t - ?H" by (metis div_mult_mod_eq)
    then show ?thesis by simp
  qed
  moreover have "(if SPIFFS_OBJ_IX_ENTRY_SPAN_IX cfg s = 0 then 44 else 6) +
       2 * unat (SPIFFS_OBJ_IX_ENTRY cfg s) + 2 \<le> psz cfg" for s
  proof (cases "s < ?H")
    case True
    then have "unat s < (psz cfg - 44) div 2" by (simp add: word_less_nat_alt u)
    then show ?thesis
      using True h(1) by (simp add: SPIFFS_OBJ_IX_ENTRY_def SPIFFS_OBJ_IX_ENTRY_SPAN_IX_def)
  next
    case False
    have "unat (s - ?H) mod unat ?I < unat ?I" using I by (intro mod_less_divisor) linarith
    then have "6 + 2 * (unat (s - ?H) mod unat ?I) + 2 \<le> psz cfg"
      using h(1) unfolding u by linarith
    then show ?thesis
      using False nz [of s]
      by (simp add: SPIFFS_OBJ_IX_ENTRY_def SPIFFS_OBJ_IX_ENTRY_SPAN_IX_def unat_mod)
  qed
  ultimately show ?thesis by blast
qed

theorem index_slot_injective_witness:
  "44 + 2 * unat (SPIFFS_OBJ_IX_ENTRY example_config 105) + 2 = psz example_config \<and>
   (SPIFFS_OBJ_IX_ENTRY example_config 106, SPIFFS_OBJ_IX_ENTRY_SPAN_IX example_config 106) = (0, 1) \<and>
   6 + 2 * unat (SPIFFS_OBJ_IX_ENTRY example_config 230) + 2 \<le> psz example_config"
proof -
  have "SPIFFS_OBJ_IX_ENTRY example_config 105 = 105"
    "(SPIFFS_OBJ_IX_ENTRY example_config 106, SPIFFS_OBJ_IX_ENTRY_SPAN_IX example_config 106) = (0, 1)"
    "SPIFFS_OBJ_IX_ENTRY_SPAN_IX example_config 230 = 1"
    by (simp_all add: SPIFFS_OBJ_IX_ENTRY_def SPIFFS_OBJ_IX_ENTRY_SPAN_IX_def SPIFFS_OBJ_HDR_IX_LEN_def
        SPIFFS_OBJ_IX_LEN_def example_config_def mount_config_def)
  then show ?thesis
    using conjunct2 [OF index_slot_injective [OF example_config_geometry], rule_format, of 230]
    by (simp add: layout_simps)
qed

end
