(* ===== verification/SpiffsCache.thy ===== *)
theory SpiffsCache
  imports SpiffsLayout
begin

text \<open>
  The state of a mounted file system (\<^verbatim>\<open>spiffs\<close> of \<^verbatim>\<open>spiffs.h\<close>, the cache and descriptor structures of
  \<^verbatim>\<open>spiffs_nucleus.h\<close>) and the page cache of \<^verbatim>\<open>spiffs_cache.c\<close>, through which every access to flash
  goes.  A pointer to a cache page or to a file descriptor is its index in the table it lives in; the
  flash device behind the HAL functions is the last field, \<open>dev\<close>.

  Locale \<open>spiffs_flash\<close> is the client side of the HAL contract \<open>nor_flash\<close>; in it the cache is
  shown to be transparent: reads return the bytes on flash, writes that clear bits keep every cached
  page equal to its flash page.
\<close>

section \<open>State\<close>

text \<open>The anonymous union of a cache page is one 16-bit field: the page index of a read page and the
  object id of a write page have the same place.\<close>

record cache_page =
  cp_flags :: u8
  cp_ix :: u8
  cp_last_access :: u32
  cp_id :: u16
  cp_offset :: u32
  cp_size :: u16
  cp_mem :: "u8 list"

record spiffs_cache =
  cpage_count :: u8
  last_access :: u32
  cpage_use_map :: u32
  cpage_use_mask :: u32
  cpages :: "cache_page list"

record spiffs_fd =
  file_nbr :: int
  fd_obj_id :: u16
  fd_size :: u32
  objix_hdr_pix :: u16
  cursor_objix_pix :: u16
  cursor_objix_spix :: u16
  fd_offset :: u32
  fdoffset :: u32
  fd_flags :: u16
  fd_cache_page :: "nat option"

record 'd spiffs =
  cfg :: "'d spiffs_config"
  block_count :: u32
  free_cursor_block_ix :: u16
  free_cursor_obj_lu_entry :: nat
  cursor_block_ix :: u16
  cursor_obj_lu_entry :: nat
  lu_work :: "u8 list"
  work :: "u8 list"
  fd_space :: "spiffs_fd list"
  err_code :: int
  free_blocks :: u32
  stats_p_allocated :: u32
  stats_p_deleted :: u32
  cleaning :: u8
  max_erase_count :: u16
  cache :: "spiffs_cache option"
  cache_size :: u32
  mounted :: u8
  config_magic :: u32
  dev :: 'd

definition SPIFFS_OK :: int where "SPIFFS_OK = 0"

definition SPIFFS_CACHE_FLAG_DIRTY :: u8 where "SPIFFS_CACHE_FLAG_DIRTY = 1"
definition SPIFFS_CACHE_FLAG_WRTHRU :: u8 where "SPIFFS_CACHE_FLAG_WRTHRU = 2"
definition SPIFFS_CACHE_FLAG_TYPE_WR :: u8 where "SPIFFS_CACHE_FLAG_TYPE_WR = 0x80"

text \<open>An operation code is a page type in the two low bits and a command above.\<close>

definition SPIFFS_OP_T_OBJ_LU :: u8 where "SPIFFS_OP_T_OBJ_LU = 0"
definition SPIFFS_OP_T_OBJ_LU2 :: u8 where "SPIFFS_OP_T_OBJ_LU2 = 1"
definition SPIFFS_OP_T_OBJ_IX :: u8 where "SPIFFS_OP_T_OBJ_IX = 2"
definition SPIFFS_OP_T_OBJ_DA :: u8 where "SPIFFS_OP_T_OBJ_DA = 3"
definition SPIFFS_OP_C_DELE :: u8 where "SPIFFS_OP_C_DELE = 0"
definition SPIFFS_OP_C_UPDT :: u8 where "SPIFFS_OP_C_UPDT = 4"
definition SPIFFS_OP_C_MOVS :: u8 where "SPIFFS_OP_C_MOVS = 8"
definition SPIFFS_OP_C_MOVD :: u8 where "SPIFFS_OP_C_MOVD = 12"
definition SPIFFS_OP_C_READ :: u8 where "SPIFFS_OP_C_READ = 20"
definition SPIFFS_OP_C_WRTHRU :: u8 where "SPIFFS_OP_C_WRTHRU = 24"
definition SPIFFS_OP_TYPE_MASK :: u8 where "SPIFFS_OP_TYPE_MASK = 3"
definition SPIFFS_OP_COM_MASK :: u8 where "SPIFFS_OP_COM_MASK = 28"

text \<open>\<open>cp_update i f c\<close> is an assignment through a pointer to cache page \<open>i\<close>.\<close>

definition cp_update :: "nat \<Rightarrow> (cache_page \<Rightarrow> cache_page) \<Rightarrow> spiffs_cache \<Rightarrow> spiffs_cache" where
  "cp_update i f c = c\<lparr>cpages := (cpages c)[i := f (cpages c ! i)]\<rparr>"

section \<open>Page table of the cache\<close>

text \<open>Returns the cached page for a page index, or the null pointer.\<close>

definition spiffs_cache_page_get :: "'d spiffs \<Rightarrow> u16 \<Rightarrow> (nat option \<times> 'd spiffs) option" where
  "spiffs_cache_page_get fs pix = do {
     c \<leftarrow> cache fs;
     if cpage_use_map c AND cpage_use_mask c = 0 then Some (None, fs)
     else case find (\<lambda>i. bit (cpage_use_map c) i \<and>
                cp_flags (cpages c ! i) AND SPIFFS_CACHE_FLAG_TYPE_WR = 0 \<and>
                cp_id (cpages c ! i) = pix) [0..<unat (cpage_count c)] of
            Some i \<Rightarrow> Some (Some i,
              fs\<lparr>cache := Some (cp_update i (\<lambda>cp. cp\<lparr>cp_last_access := last_access c\<rparr>) c)\<rparr>)
          | None \<Rightarrow> Some (None, fs)}"

text \<open>Frees a cached page, writing it back first when asked to and dirty.\<close>

definition spiffs_cache_page_free :: "'d spiffs \<Rightarrow> nat \<Rightarrow> bool \<Rightarrow> (int \<times> 'd spiffs) option" where
  "spiffs_cache_page_free fs ix write_back = do {
     c \<leftarrow> cache fs;
     let cp = cpages c ! ix;
     if bit (cpage_use_map c) ix
     then let (res, d) =
            (if write_back \<and> cp_flags cp AND SPIFFS_CACHE_FLAG_TYPE_WR = 0 \<and>
                cp_flags cp AND SPIFFS_CACHE_FLAG_DIRTY \<noteq> 0
             then hal_write_f (cfg fs) (SPIFFS_PAGE_TO_PADDR (cfg fs) (ucast (cp_id cp))) (cp_mem cp) (dev fs)
             else (SPIFFS_OK, dev fs));
          c = cp_update ix (\<lambda>cp. cp\<lparr>cp_flags := 0\<rparr>) c
        in Some (res, fs\<lparr>dev := d,
             cache := Some (c\<lparr>cpage_use_map := cpage_use_map c AND NOT (push_bit ix 1)\<rparr>)\<rparr>)
     else Some (SPIFFS_OK, fs)}"

text \<open>The scan for the page with the oldest access: \<^verbatim>\<open>cand_ix\<close> (\<open>None\<close> for -1) and \<^verbatim>\<open>oldest_val\<close>.\<close>

definition oldest_step ::
  "spiffs_cache \<Rightarrow> u8 \<Rightarrow> u8 \<Rightarrow> nat \<Rightarrow> nat option \<times> u32 \<Rightarrow> nat option \<times> u32" where
  "oldest_step c flag_mask flags i st =
     (let cp = cpages c ! i
      in if last_access c - cp_last_access cp > snd st \<and> cp_flags cp AND flag_mask = flags
         then (Some i, last_access c - cp_last_access cp) else st)"

definition spiffs_cache_page_remove_oldest :: "'d spiffs \<Rightarrow> u8 \<Rightarrow> u8 \<Rightarrow> (int \<times> 'd spiffs) option" where
  "spiffs_cache_page_remove_oldest fs flag_mask flags = do {
     c \<leftarrow> cache fs;
     if cpage_use_map c AND cpage_use_mask c \<noteq> cpage_use_mask c then Some (SPIFFS_OK, fs)
     else case fst (fold (oldest_step c flag_mask flags) [0..<unat (cpage_count c)] (None, 0)) of
            Some cand_ix \<Rightarrow> spiffs_cache_page_free fs cand_ix True
          | None \<Rightarrow> Some (SPIFFS_OK, fs)}"

text \<open>Allocates a cache page, or returns the null pointer if all are busy.\<close>

definition spiffs_cache_page_allocate :: "'d spiffs \<Rightarrow> (nat option \<times> 'd spiffs) option" where
  "spiffs_cache_page_allocate fs = do {
     c \<leftarrow> cache fs;
     if cpage_use_map c = 0xffffffff then Some (None, fs)
     else case find (\<lambda>i. \<not> bit (cpage_use_map c) i) [0..<unat (cpage_count c)] of
            Some i \<Rightarrow> Some (Some i, fs\<lparr>cache := Some (cp_update i
                (\<lambda>cp. cp\<lparr>cp_last_access := last_access c\<rparr>)
                (c\<lparr>cpage_use_map := cpage_use_map c OR push_bit i 1\<rparr>))\<rparr>)
          | None \<Rightarrow> Some (None, fs)}"

definition spiffs_cache_drop_page :: "'d spiffs \<Rightarrow> u16 \<Rightarrow> 'd spiffs option" where
  "spiffs_cache_drop_page fs pix = do {
     (cp, fs) \<leftarrow> spiffs_cache_page_get fs pix;
     case cp of
       Some i \<Rightarrow> do {
         c \<leftarrow> cache fs;
         (res, fs) \<leftarrow> spiffs_cache_page_free fs (unat (cp_ix (cpages c ! i))) False;
         Some fs }
     | None \<Rightarrow> Some fs}"

section \<open>Reads and writes through the cache\<close>

text \<open>The results are the return code, the bytes stored at \<^verbatim>\<open>dst\<close> and the new state.  Using the null
  cache page, which the C code does when no page could be allocated, is undefined, as is a copy that
  runs past the page buffer.\<close>

definition spiffs_phys_rd :: "'d spiffs \<Rightarrow> u8 \<Rightarrow> int \<Rightarrow> u32 \<Rightarrow> u32 \<Rightarrow> (int \<times> u8 list \<times> 'd spiffs) option" where
  "spiffs_phys_rd fs op fh addr len = do {
     (cp, fs) \<leftarrow> spiffs_cache_page_get fs (ucast (SPIFFS_PADDR_TO_PAGE (cfg fs) addr));
     c \<leftarrow> cache fs;
     let c = c\<lparr>last_access := last_access c + 1\<rparr>;
     let fs = fs\<lparr>cache := Some c\<rparr>;
     if cp = None \<and> op AND SPIFFS_OP_TYPE_MASK = SPIFFS_OP_T_OBJ_LU2
     then let (res, bs, d) = hal_read_f (cfg fs) addr len (dev fs) in Some (res, bs, fs\<lparr>dev := d\<rparr>)
     else do {
       (res, i, fs) \<leftarrow>
         (case cp of
            Some i \<Rightarrow> Some (SPIFFS_OK, i,
              fs\<lparr>cache := Some (cp_update i (\<lambda>cp. cp\<lparr>cp_last_access := last_access c\<rparr>) c)\<rparr>)
          | None \<Rightarrow> do {
              (res, fs) \<leftarrow> spiffs_cache_page_remove_oldest fs SPIFFS_CACHE_FLAG_TYPE_WR 0;
              (cp, fs) \<leftarrow> spiffs_cache_page_allocate fs;
              i \<leftarrow> cp;
              c \<leftarrow> cache fs;
              let c = cp_update i (\<lambda>cp. cp\<lparr>cp_flags := SPIFFS_CACHE_FLAG_WRTHRU,
                        cp_id := ucast (SPIFFS_PADDR_TO_PAGE (cfg fs) addr)\<rparr>) c;
              let (res2, bs, d) = hal_read_f (cfg fs) (addr - SPIFFS_PADDR_TO_PAGE_OFFSET (cfg fs) addr)
                        (log_page_size (cfg fs)) (dev fs);
              let c = cp_update (unat (cp_ix (cpages c ! i))) (\<lambda>cp. cp\<lparr>cp_mem := bs\<rparr>) c;
              Some (if res2 \<noteq> SPIFFS_OK then res2 else res, i, fs\<lparr>cache := Some c, dev := d\<rparr>) });
       c \<leftarrow> cache fs;
       let mem = cp_mem (cpages c ! unat (cp_ix (cpages c ! i)));
       let off = unat (SPIFFS_PADDR_TO_PAGE_OFFSET (cfg fs) addr);
       if off + unat len \<le> length mem then Some (res, slice off (unat len) mem, fs) else None }}"

definition spiffs_phys_wr :: "'d spiffs \<Rightarrow> u8 \<Rightarrow> int \<Rightarrow> u32 \<Rightarrow> u8 list \<Rightarrow> (int \<times> 'd spiffs) option" where
  "spiffs_phys_wr fs op fh addr src = do {
     (cp, fs) \<leftarrow> spiffs_cache_page_get fs (ucast (SPIFFS_PADDR_TO_PAGE (cfg fs) addr));
     let hal_write = (\<lambda>fs. let (res, d) = hal_write_f (cfg fs) addr src (dev fs) in Some (res, fs\<lparr>dev := d\<rparr>));
     case cp of
       None \<Rightarrow> hal_write fs
     | Some i \<Rightarrow>
         if op AND SPIFFS_OP_COM_MASK = SPIFFS_OP_C_WRTHRU then hal_write fs
         else do {
           c \<leftarrow> cache fs;
           if op AND SPIFFS_OP_COM_MASK = SPIFFS_OP_C_DELE \<and> op AND SPIFFS_OP_TYPE_MASK \<noteq> SPIFFS_OP_T_OBJ_LU
           then do {
             (_, fs) \<leftarrow> spiffs_cache_page_free fs (unat (cp_ix (cpages c ! i))) False;
             hal_write fs }
           else let m = unat (cp_ix (cpages c ! i));
                    off = unat (SPIFFS_PADDR_TO_PAGE_OFFSET (cfg fs) addr)
             in if off + length src \<le> length (cp_mem (cpages c ! m))
                then let c = cp_update m (\<lambda>cp. cp\<lparr>cp_mem := blit off src (cp_mem cp)\<rparr>) c;
                         c = c\<lparr>last_access := last_access c + 1\<rparr>;
                         c = cp_update i (\<lambda>cp. cp\<lparr>cp_last_access := last_access c\<rparr>) c;
                         fs = fs\<lparr>cache := Some c\<rparr>
                     in if cp_flags (cpages c ! i) \<noteq> 0 \<and> SPIFFS_CACHE_FLAG_WRTHRU \<noteq> 0
                        then hal_write fs else Some (SPIFFS_OK, fs)
                else None }}"

section \<open>Write cache pages of open files\<close>

definition spiffs_cache_page_get_by_fd :: "'d spiffs \<Rightarrow> spiffs_fd \<Rightarrow> nat option option" where
  "spiffs_cache_page_get_by_fd fs fd = do {
     c \<leftarrow> cache fs;
     if cpage_use_map c AND cpage_use_mask c = 0 then Some None
     else Some (find (\<lambda>i. bit (cpage_use_map c) i \<and>
            cp_flags (cpages c ! i) AND SPIFFS_CACHE_FLAG_TYPE_WR \<noteq> 0 \<and>
            cp_id (cpages c ! i) = fd_obj_id fd) [0..<unat (cpage_count c)])}"

text \<open>The descriptor is given by its index in \<^verbatim>\<open>fd_space\<close>.\<close>

definition spiffs_cache_page_allocate_by_fd :: "'d spiffs \<Rightarrow> nat \<Rightarrow> (nat option \<times> 'd spiffs) option" where
  "spiffs_cache_page_allocate_by_fd fs f = do {
     (_, fs) \<leftarrow> spiffs_cache_page_remove_oldest fs SPIFFS_CACHE_FLAG_TYPE_WR 0;
     (cp, fs) \<leftarrow> spiffs_cache_page_allocate fs;
     case cp of
       None \<Rightarrow> Some (None, fs)
     | Some i \<Rightarrow> do {
         c \<leftarrow> cache fs;
         let fd = fd_space fs ! f;
         let c = cp_update i (\<lambda>cp. cp\<lparr>cp_flags := SPIFFS_CACHE_FLAG_TYPE_WR, cp_id := fd_obj_id fd\<rparr>) c;
         Some (Some i, fs\<lparr>cache := Some c,
           fd_space := (fd_space fs)[f := fd\<lparr>fd_cache_page := Some i\<rparr>]\<rparr>) }}"

definition spiffs_cache_fd_release :: "'d spiffs \<Rightarrow> nat option \<Rightarrow> 'd spiffs option" where
  "spiffs_cache_fd_release fs cp =
     (case cp of
        None \<Rightarrow> Some fs
      | Some i \<Rightarrow> do {
          let fs = fs\<lparr>fd_space := map (\<lambda>cur_fd.
                if file_nbr cur_fd \<noteq> 0 \<and> fd_cache_page cur_fd = Some i
                then cur_fd\<lparr>fd_cache_page := None\<rparr> else cur_fd) (fd_space fs)\<rparr>;
          c \<leftarrow> cache fs;
          (_, fs) \<leftarrow> spiffs_cache_page_free fs (unat (cp_ix (cpages c ! i))) False;
          c \<leftarrow> cache fs;
          Some (fs\<lparr>cache := Some (cp_update i (\<lambda>cp. cp\<lparr>cp_id := 0\<rparr>) c)\<rparr>) })"

section \<open>Initialisation\<close>

definition sizeof_cache :: u32 where "sizeof_cache = 20"
definition SPIFFS_CACHE_PAGE_SIZE :: "'d spiffs_config \<Rightarrow> u32" where
  "SPIFFS_CACHE_PAGE_SIZE config = 20 + log_page_size config"

definition empty_cache_page :: "'d spiffs_config \<Rightarrow> nat \<Rightarrow> cache_page" where
  "empty_cache_page config i = \<lparr>cp_flags = 0, cp_ix = word_of_nat i, cp_last_access = 0, cp_id = 0,
     cp_offset = 0, cp_size = 0, cp_mem = replicate (unat (log_page_size config)) 0\<rparr>"

definition spiffs_cache_init :: "'d spiffs \<Rightarrow> 'd spiffs" where
  "spiffs_cache_init fs =
     (case cache fs of
        None \<Rightarrow> fs
      | Some _ \<Rightarrow>
          let cache_entries = sint ((cache_size fs - sizeof_cache) div SPIFFS_CACHE_PAGE_SIZE (cfg fs))
          in if cache_entries \<le> 0 then fs
             else let cache_mask = ((\<lambda>m. push_bit 1 m OR 1) ^^ nat cache_entries) (0 :: u32);
                      count = word_of_int cache_entries :: u8
                  in fs\<lparr>cache := Some \<lparr>cpage_count = count, last_access = 0,
                       cpage_use_map = 0xffffffff AND NOT cache_mask, cpage_use_mask = cache_mask,
                       cpages = map (empty_cache_page (cfg fs)) [0..<unat count]\<rparr>\<rparr>)"

section \<open>Invariant of the cache\<close>

text \<open>Slot \<open>i\<close> holds a valid page of the read cache, or a page of the write cache.\<close>

definition read_slot :: "spiffs_cache \<Rightarrow> nat \<Rightarrow> bool" where
  "read_slot c i \<longleftrightarrow> i < unat (cpage_count c) \<and> bit (cpage_use_map c) i \<and>
     cp_flags (cpages c ! i) AND SPIFFS_CACHE_FLAG_TYPE_WR = 0"

definition write_slot :: "spiffs_cache \<Rightarrow> nat \<Rightarrow> bool" where
  "write_slot c i \<longleftrightarrow> i < unat (cpage_count c) \<and> bit (cpage_use_map c) i \<and>
     cp_flags (cpages c ! i) AND SPIFFS_CACHE_FLAG_TYPE_WR \<noteq> 0"

text \<open>The table: one descriptor and one page buffer per slot, and no access in the future.\<close>

definition cache_table :: "nat \<Rightarrow> spiffs_cache \<Rightarrow> bool" where
  "cache_table n c \<longleftrightarrow> length (cpages c) = unat (cpage_count c) \<and> unat (cpage_count c) \<le> 32 \<and>
     cpage_use_mask c = mask (unat (cpage_count c)) \<and>
     (\<forall>i < unat (cpage_count c). unat (cp_ix (cpages c ! i)) = i \<and>
        length (cp_mem (cpages c ! i)) = n \<and>
        cp_last_access (cpages c ! i) \<le> last_access c)"

text \<open>Coherence: every page of the read cache is clean, holds the bytes of its flash page, and no page is
  cached twice.\<close>

definition coherent :: "'d spiffs_config \<Rightarrow> (nat \<Rightarrow> u8) \<Rightarrow> spiffs_cache \<Rightarrow> bool" where
  "coherent conf m c \<longleftrightarrow>
     (\<forall>i. read_slot c i \<longrightarrow> cp_flags (cpages c ! i) = SPIFFS_CACHE_FLAG_WRTHRU \<and>
        cp_mem (cpages c ! i) =
          nor_read m (base conf + unat (cp_id (cpages c ! i)) * psz conf) (psz conf)) \<and>
     (\<forall>i j. read_slot c i \<and> read_slot c j \<and> cp_id (cpages c ! i) = cp_id (cpages c ! j) \<longrightarrow> i = j)"

definition cache_ok :: "'d spiffs_config \<Rightarrow> (nat \<Rightarrow> u8) \<Rightarrow> spiffs_cache \<Rightarrow> bool" where
  "cache_ok conf m c \<longleftrightarrow> cache_table (psz conf) c \<and> coherent conf m c"

text \<open>The write cache is the same before and after.\<close>

definition same_write_slots :: "spiffs_cache \<Rightarrow> spiffs_cache \<Rightarrow> bool" where
  "same_write_slots c c' \<longleftrightarrow> cpage_count c' = cpage_count c \<and>
     (\<forall>i. write_slot c' i = write_slot c i) \<and>
     (\<forall>i. write_slot c i \<longrightarrow> cp_id (cpages c' ! i) = cp_id (cpages c ! i) \<and>
        cp_mem (cpages c' ! i) = cp_mem (cpages c ! i) \<and> cp_offset (cpages c' ! i) = cp_offset (cpages c ! i) \<and>
        cp_size (cpages c' ! i) = cp_size (cpages c ! i))"

named_theorems cache_simps "definitions of the cache invariant"
lemmas [cache_simps] = cache_ok_def cache_table_def coherent_def read_slot_def write_slot_def

lemma cp_update_simps [simp]:
  "cpage_count (cp_update i f c) = cpage_count c" "cpage_use_map (cp_update i f c) = cpage_use_map c"
  "cpage_use_mask (cp_update i f c) = cpage_use_mask c" "last_access (cp_update i f c) = last_access c"
  "length (cpages (cp_update i f c)) = length (cpages c)"
  by (simp_all add: cp_update_def)

lemma nth_cp_update: "i < length (cpages c) \<Longrightarrow> j < length (cpages c) \<Longrightarrow>
  cpages (cp_update i f c) ! j = (if i = j then f (cpages c ! j) else cpages c ! j)"
  by (simp add: cp_update_def)

lemma bit_u32_use_map: "bit (m :: u32) i \<Longrightarrow> i < 32"
  using bit_imp_le_length [of m i] by simp

lemma and_mask_0_iff: "(m :: u32) AND mask n = 0 \<longleftrightarrow> (\<forall>i<n. \<not> bit m i)"
proof -
  have "m AND mask n = 0 \<longleftrightarrow> (\<forall>i<32. \<not> bit (m AND mask n) i)"
    by (auto simp: bit_eq_iff dest: bit_u32_use_map)
  then show ?thesis by (auto simp: bit_simps dest: bit_u32_use_map)
qed

lemma and_mask_full_iff:
  assumes "n \<le> 32"
  shows "(m :: u32) AND mask n = mask n \<longleftrightarrow> (\<forall>i<n. bit m i)"
proof -
  have "m AND mask n = mask n \<longleftrightarrow> (\<forall>i<32. bit (m AND mask n) i = bit (mask n :: u32) i)"
    by (auto simp: bit_eq_iff)
  also have "\<dots> \<longleftrightarrow> (\<forall>i<n. bit m i)"
    using assms by (auto simp: bit_simps dest: less_le_trans)
  finally show ?thesis .
qed

text \<open>The invariant only depends on the occupancy and on four fields of a page.\<close>

lemma cache_ok_frame:
  assumes "cache_ok conf m c" "cpage_count c' = cpage_count c" "cpage_use_map c' = cpage_use_map c"
    "cpage_use_mask c' = cpage_use_mask c" "length (cpages c') = length (cpages c)"
    and f: "\<And>j. cp_flags (cpages c' ! j) = cp_flags (cpages c ! j)"
      "\<And>j. cp_ix (cpages c' ! j) = cp_ix (cpages c ! j)" "\<And>j. cp_id (cpages c' ! j) = cp_id (cpages c ! j)"
      "\<And>j. cp_mem (cpages c' ! j) = cp_mem (cpages c ! j)"
    and t: "\<And>j. j < unat (cpage_count c) \<Longrightarrow> cp_last_access (cpages c' ! j) \<le> last_access c'"
  shows "cache_ok conf m c'"
proof -
  have "read_slot c' i = read_slot c i" for i
    by (simp add: read_slot_def assms)
  then show ?thesis
    using assms by (simp add: cache_ok_def cache_table_def coherent_def)
qed

lemma touch_fields [simp]:
  "cp_flags (cpages (cp_update i (\<lambda>cp. cp\<lparr>cp_last_access := t\<rparr>) c) ! j) = cp_flags (cpages c ! j)"
  "cp_ix (cpages (cp_update i (\<lambda>cp. cp\<lparr>cp_last_access := t\<rparr>) c) ! j) = cp_ix (cpages c ! j)"
  "cp_id (cpages (cp_update i (\<lambda>cp. cp\<lparr>cp_last_access := t\<rparr>) c) ! j) = cp_id (cpages c ! j)"
  "cp_mem (cpages (cp_update i (\<lambda>cp. cp\<lparr>cp_last_access := t\<rparr>) c) ! j) = cp_mem (cpages c ! j)"
  "cp_offset (cpages (cp_update i (\<lambda>cp. cp\<lparr>cp_last_access := t\<rparr>) c) ! j) = cp_offset (cpages c ! j)"
  "cp_size (cpages (cp_update i (\<lambda>cp. cp\<lparr>cp_last_access := t\<rparr>) c) ! j) = cp_size (cpages c ! j)"
  by (cases "i < length (cpages c)"; cases "i = j"; simp add: cp_update_def list_update_beyond)+

lemma touch_cases:
  "cp_last_access (cpages (cp_update i (\<lambda>cp. cp\<lparr>cp_last_access := t\<rparr>) c) ! j) = t \<or>
   cp_last_access (cpages (cp_update i (\<lambda>cp. cp\<lparr>cp_last_access := t\<rparr>) c) ! j) = cp_last_access (cpages c ! j)"
  by (cases "i < length (cpages c)"; cases "i = j"; simp add: cp_update_def list_update_beyond)

lemma touch_ok:
  assumes "cache_ok conf m c" "t \<le> last_access c"
  shows "cache_ok conf m (cp_update i (\<lambda>cp. cp\<lparr>cp_last_access := t\<rparr>) c)"
proof (rule cache_ok_frame [OF assms(1)])
  fix j assume "j < unat (cpage_count c)"
  with assms show "cp_last_access (cpages (cp_update i (\<lambda>cp. cp\<lparr>cp_last_access := t\<rparr>) c) ! j)
      \<le> last_access (cp_update i (\<lambda>cp. cp\<lparr>cp_last_access := t\<rparr>) c)"
    using touch_cases [of i t c j] by (auto simp: cache_ok_def cache_table_def)
qed simp_all

lemma touch_write_slots:
  "same_write_slots c (cp_update i (\<lambda>cp. cp\<lparr>cp_last_access := t\<rparr>) c)"
  by (simp add: same_write_slots_def write_slot_def)

lemma tick_ok:
  assumes "cache_ok conf m c" "unat (last_access c) < 2 ^ 32 - 1"
  shows "cache_ok conf m (c\<lparr>last_access := last_access c + 1\<rparr>)"
proof (rule cache_ok_frame [OF assms(1)])
  have "last_access c \<le> last_access c + 1"
    using assms(2) by (simp add: word_le_nat_alt unat_Suc_no_wrap)
  moreover fix j assume "j < unat (cpage_count c)"
  ultimately show "cp_last_access (cpages (c\<lparr>last_access := last_access c + 1\<rparr>) ! j)
      \<le> last_access (c\<lparr>last_access := last_access c + 1\<rparr>)"
    using assms(1) by (auto simp: cache_ok_def cache_table_def intro: order_trans)
qed simp_all

lemma tick_write_slots: "same_write_slots c (c\<lparr>last_access := t\<rparr>)"
  by (simp add: same_write_slots_def write_slot_def)

lemma same_write_slots_refl: "same_write_slots c c"
  by (simp add: same_write_slots_def)

lemma same_write_slots_trans:
  "same_write_slots a b \<Longrightarrow> same_write_slots b c \<Longrightarrow> same_write_slots a c"
  by (simp add: same_write_slots_def)

text \<open>Lookup in the page table.\<close>

lemma page_get:
  assumes "cache fs = Some c" "cache_ok conf m c"
  shows "(spiffs_cache_page_get fs pix = Some (None, fs) \<and>
      (\<forall>i. read_slot c i \<longrightarrow> cp_id (cpages c ! i) \<noteq> pix)) \<or>
    (\<exists>i. spiffs_cache_page_get fs pix = Some (Some i,
        fs\<lparr>cache := Some (cp_update i (\<lambda>cp. cp\<lparr>cp_last_access := last_access c\<rparr>) c)\<rparr>) \<and>
      read_slot c i \<and> cp_id (cpages c ! i) = pix)"
proof (cases "cpage_use_map c AND cpage_use_mask c = 0")
  case True
  then have "\<not> read_slot c i" for i
    using assms(2) by (auto simp: cache_ok_def cache_table_def read_slot_def and_mask_0_iff)
  then show ?thesis using True by (simp add: spiffs_cache_page_get_def assms(1))
next
  case False
  show ?thesis
  proof (cases "find (\<lambda>i. bit (cpage_use_map c) i \<and>
                cp_flags (cpages c ! i) AND SPIFFS_CACHE_FLAG_TYPE_WR = 0 \<and>
                cp_id (cpages c ! i) = pix) [0..<unat (cpage_count c)]")
    case None
    then have "spiffs_cache_page_get fs pix = Some (None, fs)"
      using False by (simp add: spiffs_cache_page_get_def assms(1))
    with None show ?thesis by (auto simp: read_slot_def find_upt_None)
  next
    case (Some i)
    then have "read_slot c i \<and> cp_id (cpages c ! i) = pix"
      by (auto simp: find_upt_Some read_slot_def)
    then show ?thesis
      using False Some by (simp add: spiffs_cache_page_get_def assms(1))
  qed
qed

text \<open>Freeing a slot of the read cache.\<close>

lemma page_free:
  assumes "cache fs = Some c" "cache_ok conf m c" "read_slot c i"
  shows "\<exists>c'. spiffs_cache_page_free fs i b = Some (0, fs\<lparr>cache := Some c'\<rparr>) \<and> cache_ok conf m c' \<and>
    same_write_slots c c' \<and> \<not> bit (cpage_use_map c') i \<and> last_access c' = last_access c \<and>
    (\<forall>j. read_slot c' j \<longleftrightarrow> j \<noteq> i \<and> read_slot c j) \<and>
    (\<forall>j. cp_id (cpages c' ! j) = cp_id (cpages c ! j))"
proof -
  have i: "bit (cpage_use_map c) i" "i < unat (cpage_count c)" "i < length (cpages c)"
    using assms(2,3) by (auto simp: cache_simps)
  have fl: "cp_flags (cpages c ! i) = SPIFFS_CACHE_FLAG_WRTHRU"
    using assms(2,3) by (auto simp: cache_ok_def coherent_def)
  define c' where "c' = (cp_update i (\<lambda>cp. cp\<lparr>cp_flags := 0\<rparr>) c)
      \<lparr>cpage_use_map := cpage_use_map c AND NOT (push_bit i 1)\<rparr>"
  have free: "spiffs_cache_page_free fs i b = Some (0, fs\<lparr>cache := Some c'\<rparr>)"
    by (simp add: spiffs_cache_page_free_def assms(1) i fl SPIFFS_CACHE_FLAG_WRTHRU_def
        SPIFFS_CACHE_FLAG_DIRTY_def SPIFFS_OK_def c'_def)
  have b: "bit (cpage_use_map c') j \<longleftrightarrow> j \<noteq> i \<and> bit (cpage_use_map c) j" for j
    unfolding c'_def
    by (auto simp: bit_simps dest: bit_u32_use_map)
  have f: "j \<noteq> i \<Longrightarrow> cpages c' ! j = cpages c ! j" for j
    by (simp add: cp_update_def c'_def)
  have g: "cpage_count c' = cpage_count c" "cpage_use_mask c' = cpage_use_mask c"
    "last_access c' = last_access c" "length (cpages c') = length (cpages c)"
    by (simp_all add: c'_def)
  have fi: "cp_id (cpages c' ! j) = cp_id (cpages c ! j)" "cp_ix (cpages c' ! j) = cp_ix (cpages c ! j)"
    "cp_mem (cpages c' ! j) = cp_mem (cpages c ! j)"
    "cp_last_access (cpages c' ! j) = cp_last_access (cpages c ! j)" for j
    using i(3) by (cases "j = i"; simp add: cp_update_def c'_def)+
  have r: "read_slot c' j \<longleftrightarrow> j \<noteq> i \<and> read_slot c j" for j
    by (cases "j = i") (auto simp: read_slot_def b f g)
  have w: "write_slot c' j \<longleftrightarrow> write_slot c j" for j
    using assms(3) by (cases "j = i") (auto simp: read_slot_def write_slot_def b f g)
  have "cache_table (psz conf) c'"
    using assms(2) by (simp add: cache_ok_def cache_table_def fi g)
  moreover have "coherent conf m c'"
    using assms(2) by (simp add: cache_ok_def coherent_def fi r f)
  moreover have "j \<noteq> i" if "write_slot c j" for j
    using that assms(3) by (auto simp: read_slot_def write_slot_def)
  ultimately show ?thesis
    using free by (auto simp: cache_ok_def b r fi g w f same_write_slots_def)
qed

text \<open>Replacing the oldest page.\<close>

lemma oldest_keeps: "fst st \<noteq> None \<Longrightarrow> fst (fold (oldest_step c k f) xs st) \<noteq> None"
  by (induction xs arbitrary: st) (auto simp: oldest_step_def Let_def)

lemma oldest_sound:
  "fst (fold (oldest_step c k f) xs st) = Some i \<Longrightarrow>
   fst st = Some i \<or> i \<in> set xs \<and> cp_flags (cpages c ! i) AND k = f"
  by (induction xs arbitrary: st) (fastforce simp: oldest_step_def Let_def split: if_splits)+

lemma oldest_complete:
  assumes "i \<in> set xs" "cp_flags (cpages c ! i) AND k = f" "cp_last_access (cpages c ! i) \<noteq> last_access c"
  shows "fst (fold (oldest_step c k f) xs (None, 0)) \<noteq> None"
  using assms(1)
proof (induction xs)
  case (Cons x xs)
  show ?case
  proof (cases "oldest_step c k f x (None, 0) = (None, 0)")
    case True
    then have "x \<noteq> i"
      using assms(2,3) by (auto simp: oldest_step_def Let_def word_gt_0)
    with Cons True show ?thesis by simp
  next
    case False
    then have "fst (oldest_step c k f x (None, 0)) \<noteq> None"
      by (auto simp: oldest_step_def Let_def split: if_splits)
    then show ?thesis using oldest_keeps by simp
  qed
qed simp

lemma page_remove_oldest:
  assumes "cache fs = Some c" "cache_ok conf m c" "i < unat (cpage_count c)" "\<not> write_slot c i"
    and fresh: "\<And>j. j < unat (cpage_count c) \<Longrightarrow> cp_last_access (cpages c ! j) < last_access c"
  shows "\<exists>c' j. spiffs_cache_page_remove_oldest fs SPIFFS_CACHE_FLAG_TYPE_WR 0 =
      Some (0, fs\<lparr>cache := Some c'\<rparr>) \<and> cache_ok conf m c' \<and> same_write_slots c c' \<and>
    last_access c' = last_access c \<and> j < unat (cpage_count c') \<and> \<not> bit (cpage_use_map c') j \<and>
    (\<forall>j. read_slot c' j \<longrightarrow> read_slot c j \<and> cp_id (cpages c' ! j) = cp_id (cpages c ! j))"
proof -
  have msk: "cpage_use_mask c = mask (unat (cpage_count c))" "unat (cpage_count c) \<le> 32"
    using assms(2) by (simp_all add: cache_ok_def cache_table_def)
  show ?thesis
  proof (cases "cpage_use_map c AND cpage_use_mask c = cpage_use_mask c")
    case False
    then obtain j where j: "j < unat (cpage_count c)" "\<not> bit (cpage_use_map c) j"
      unfolding msk(1) and_mask_full_iff [OF msk(2)] by blast
    have "spiffs_cache_page_remove_oldest fs SPIFFS_CACHE_FLAG_TYPE_WR 0 = Some (0, fs\<lparr>cache := Some c\<rparr>)"
      using False by (simp add: spiffs_cache_page_remove_oldest_def assms(1) SPIFFS_OK_def)
    with j assms(2) show ?thesis using same_write_slots_refl by blast
  next
    case True
    then have all: "bit (cpage_use_map c) j" if "j < unat (cpage_count c)" for j
      unfolding msk(1) and_mask_full_iff [OF msk(2)] using that by blast
    let ?r = "fst (fold (oldest_step c SPIFFS_CACHE_FLAG_TYPE_WR 0) [0..<unat (cpage_count c)] (None, 0))"
    have "?r \<noteq> None"
      using assms(3,4) fresh [OF assms(3)] all [OF assms(3)]
      by (intro oldest_complete [of i]) (auto simp: write_slot_def)
    then obtain k where k: "?r = Some k" by blast
    from oldest_sound [OF this] have r: "read_slot c k"
      using all by (auto simp: read_slot_def)
    have "spiffs_cache_page_remove_oldest fs SPIFFS_CACHE_FLAG_TYPE_WR 0 = spiffs_cache_page_free fs k True"
      using True k by (simp add: spiffs_cache_page_remove_oldest_def assms(1))
    moreover from page_free [OF assms(1,2) r, of True] obtain c' where
      "spiffs_cache_page_free fs k True = Some (0, fs\<lparr>cache := Some c'\<rparr>)" "cache_ok conf m c'"
      "same_write_slots c c'" "\<not> bit (cpage_use_map c') k" "last_access c' = last_access c"
      "\<forall>j. read_slot c' j \<longleftrightarrow> j \<noteq> k \<and> read_slot c j" "\<forall>j. cp_id (cpages c' ! j) = cp_id (cpages c ! j)"
      by blast
    moreover have "k < unat (cpage_count c')"
      using r \<open>same_write_slots c c'\<close> by (simp add: read_slot_def same_write_slots_def)
    ultimately show ?thesis by auto
  qed
qed

lemma page_allocate:
  assumes "cache fs = Some c" "j < unat (cpage_count c)" "unat (cpage_count c) \<le> 32"
    "\<not> bit (cpage_use_map c) j"
  shows "\<exists>i. spiffs_cache_page_allocate fs = Some (Some i, fs\<lparr>cache := Some (cp_update i
        (\<lambda>cp. cp\<lparr>cp_last_access := last_access c\<rparr>) (c\<lparr>cpage_use_map := cpage_use_map c OR push_bit i 1\<rparr>))\<rparr>) \<and>
      i < unat (cpage_count c) \<and> \<not> bit (cpage_use_map c) i"
proof -
  have "cpage_use_map c \<noteq> 0xffffffff"
  proof
    assume "cpage_use_map c = 0xffffffff"
    then have "cpage_use_map c = mask 32" by (simp add: mask_eq_exp_minus_1)
    with assms(2-4) show False by (simp add: bit_simps)
  qed
  moreover have "find (\<lambda>i. \<not> bit (cpage_use_map c) i) [0..<unat (cpage_count c)] \<noteq> None"
    using assms(2,4) by (auto simp: find_upt_None)
  then obtain i where f: "find (\<lambda>i. \<not> bit (cpage_use_map c) i) [0..<unat (cpage_count c)] = Some i" by blast
  moreover from f have "i < unat (cpage_count c) \<and> \<not> bit (cpage_use_map c) i" by (auto simp: find_upt_Some)
  ultimately show ?thesis by (simp add: spiffs_cache_page_allocate_def assms(1))
qed

text \<open>Filling a free slot with a page that is not cached yet.\<close>

lemma fill_slot:
  assumes "cache_ok conf m c" "i < unat (cpage_count c)" "\<not> bit (cpage_use_map c) i"
    and fresh: "\<And>j. read_slot c j \<Longrightarrow> cp_id (cpages c ! j) \<noteq> pix"
    and mem: "mem = nor_read m (base conf + unat pix * psz conf) (psz conf)"
  defines "c' \<equiv> cp_update i (\<lambda>cp. cp\<lparr>cp_last_access := last_access c, cp_flags := SPIFFS_CACHE_FLAG_WRTHRU,
      cp_id := pix, cp_mem := mem\<rparr>) (c\<lparr>cpage_use_map := cpage_use_map c OR push_bit i 1\<rparr>)"
  shows "cache_ok conf m c'" "same_write_slots c c'" "read_slot c' i" "cp_id (cpages c' ! i) = pix"
proof -
  have t: "cache_table (psz conf) c" and k: "coherent conf m c" using assms(1) by (simp_all add: cache_ok_def)
  have l: "i < length (cpages c)" using t assms(2) by (simp add: cache_table_def)
  have b: "bit (cpage_use_map c') j \<longleftrightarrow> j = i \<or> bit (cpage_use_map c) j" for j
    using t assms(2) unfolding c'_def cache_table_def
    by (auto simp: bit_simps)
  have f: "j \<noteq> i \<Longrightarrow> cpages c' ! j = cpages c ! j" for j
    by (simp add: cp_update_def c'_def)
  have n: "cpages c' ! i = (cpages c ! i)\<lparr>cp_last_access := last_access c, cp_flags := SPIFFS_CACHE_FLAG_WRTHRU,
      cp_id := pix, cp_mem := mem\<rparr>"
    using l by (simp add: cp_update_def c'_def)
  have g: "cpage_count c' = cpage_count c" "cpage_use_mask c' = cpage_use_mask c"
    "last_access c' = last_access c" "length (cpages c') = length (cpages c)"
    by (simp_all add: c'_def)
  have wr0: "SPIFFS_CACHE_FLAG_WRTHRU AND SPIFFS_CACHE_FLAG_TYPE_WR = 0"
    by (simp add: SPIFFS_CACHE_FLAG_WRTHRU_def SPIFFS_CACHE_FLAG_TYPE_WR_def)
  have r: "read_slot c' j \<longleftrightarrow> j = i \<or> read_slot c j" for j
    using assms(2) wr0 by (cases "j = i") (auto simp: read_slot_def b f g n)
  have w: "write_slot c' j \<longleftrightarrow> write_slot c j" for j
    using assms(3) wr0 by (cases "j = i") (auto simp: write_slot_def b f g n)
  have ni: "\<not> read_slot c i" "\<not> write_slot c i" using assms(3) by (simp_all add: read_slot_def write_slot_def)
  show "read_slot c' i" "cp_id (cpages c' ! i) = pix" by (simp_all add: r n)
  have ct: "unat (cp_ix (cpages c' ! j)) = j \<and> length (cp_mem (cpages c' ! j)) = psz conf \<and>
      cp_last_access (cpages c' ! j) \<le> last_access c'" if "j < unat (cpage_count c')" for j
    using t that mem by (cases "j = i") (simp_all add: cache_table_def f g n)
  then have "cache_table (psz conf) c'" using t by (simp add: cache_table_def g)
  moreover have "coherent conf m c'"
    unfolding coherent_def
  proof (intro conjI allI impI)
    fix j assume j: "read_slot c' j"
    then show "cp_flags (cpages c' ! j) = SPIFFS_CACHE_FLAG_WRTHRU"
      "cp_mem (cpages c' ! j) = nor_read m (base conf + unat (cp_id (cpages c' ! j)) * psz conf) (psz conf)"
      using k by (cases "j = i"; simp add: n f r mem coherent_def)+
  next
    fix j k' assume "read_slot c' j \<and> read_slot c' k' \<and> cp_id (cpages c' ! j) = cp_id (cpages c' ! k')"
    then show "j = k'"
      using k fresh by (cases "j = i"; cases "k' = i") (auto simp: r n f coherent_def)
  qed
  ultimately show "cache_ok conf m c'" by (simp add: cache_ok_def)
  have "j \<noteq> i" if "write_slot c j" for j using that ni by blast
  then show "same_write_slots c c'" using w by (auto simp: same_write_slots_def g f)
qed

lemma cp_update_compose:
  "i < length (cpages c) \<Longrightarrow> cp_update i f (cp_update i g c) = cp_update i (\<lambda>cp. f (g cp)) c"
  by (simp add: cp_update_def)

section \<open>The file system over a flash\<close>

text \<open>A mounted state: the cache is coherent with the flash contents and not all of its pages are held
  by write caches.\<close>

definition ready :: "'d spiffs_config \<Rightarrow> (nat \<Rightarrow> u8) \<Rightarrow> 'd spiffs \<Rightarrow> bool" where
  "ready conf m fs \<longleftrightarrow> cfg fs = conf \<and> (\<exists>c. cache fs = Some c \<and> cache_ok conf m c \<and>
     (\<exists>i < unat (cpage_count c). \<not> write_slot c i))"

definition ticks :: "'d spiffs \<Rightarrow> nat" where
  "ticks fs = (case cache fs of None \<Rightarrow> 0 | Some c \<Rightarrow> unat (last_access c))"

text \<open>Only the cache and the device differ, and the write cache pages are untouched.\<close>

definition only_flash :: "'d spiffs \<Rightarrow> 'd spiffs \<Rightarrow> bool" where
  "only_flash fs fs' \<longleftrightarrow> (\<exists>c c' d. cache fs = Some c \<and> fs' = fs\<lparr>cache := Some c', dev := d\<rparr> \<and>
     same_write_slots c c')"

text \<open>A range of bytes inside one page of the file system.\<close>

definition in_page :: "'d spiffs_config \<Rightarrow> u32 \<Rightarrow> nat \<Rightarrow> bool" where
  "in_page conf addr n \<longleftrightarrow> base conf \<le> unat addr \<and> unat addr < base conf + unat (phys_size conf) \<and>
     (unat addr - base conf) mod psz conf + n \<le> psz conf"

locale spiffs_flash =
  nor_flash "hal_read_f conf" "hal_write_f conf" "hal_erase_f conf" view lo hi + spiffs_geometry conf
  for conf :: "'d spiffs_config" and view :: "'d \<Rightarrow> nat \<Rightarrow> u8" and lo hi :: nat +
  assumes lo_base: "lo \<le> base conf" and top_hi: "base conf + unat (phys_size conf) \<le> hi"
begin

lemma phys_size_pages: "unat (phys_size conf) = blks conf * ppb conf * psz conf"
  using geometry_facts(4) [OF g] by (simp only: mult.assoc)

lemma psz_pos: "0 < psz conf"
  using geometry_facts(1) [OF g] by simp

lemma in_page_facts:
  assumes "in_page conf addr n"
  defines "q \<equiv> (unat addr - base conf) div psz conf" and "off \<equiv> unat (SPIFFS_PADDR_TO_PAGE_OFFSET conf addr)"
  shows "unat (ucast (SPIFFS_PADDR_TO_PAGE conf addr) :: u16) = q" "q < blks conf * ppb conf"
    "off + n \<le> psz conf" "unat addr = base conf + q * psz conf + off"
    "unat (addr - SPIFFS_PADDR_TO_PAGE_OFFSET conf addr) = base conf + q * psz conf"
    "lo \<le> unat addr" "unat addr + n \<le> hi"
    "lo \<le> base conf + q * psz conf" "base conf + q * psz conf + psz conf \<le> hi"
proof -
  have b: "base conf \<le> unat addr" using assms(1) by (simp add: in_page_def)
  have q: "unat (SPIFFS_PADDR_TO_PAGE conf addr) = q" by (simp add: q_def unat_paddr_to_page [OF b])
  show ql: "q < blks conf * ppb conf"
    using assms(1) psz_pos unfolding q_def in_page_def phys_size_pages
    by (metis div_less_iff_less_mult less_diff_conv2 add.commute)
  have "q < 65536" using ql geometry_facts(7) [OF g] by simp
  then show "unat (ucast (SPIFFS_PADDR_TO_PAGE conf addr) :: u16) = q"
    by (simp add: unsigned_ucast_eq q take_bit_nat_eq_self)
  have off: "off = (unat addr - base conf) mod psz conf"
    by (simp add: off_def unat_paddr_to_page_offset [OF b])
  then show o: "off + n \<le> psz conf" using assms(1) by (simp add: in_page_def)
  show a: "unat addr = base conf + q * psz conf + off"
    using b by (simp add: off q_def add.assoc)
  then show "unat (addr - SPIFFS_PADDR_TO_PAGE_OFFSET conf addr) = base conf + q * psz conf"
    by (subst unat_sub_no_wrap) (simp_all add: off_def)
  have "q * psz conf + psz conf \<le> unat (phys_size conf)"
    using mult_le_of_le [OF ql, of "psz conf"] by (simp add: phys_size_pages)
  then show p: "base conf + q * psz conf + psz conf \<le> hi" using top_hi by linarith
  show "lo \<le> base conf + q * psz conf" "lo \<le> unat addr" using lo_base b by simp_all
  show "unat addr + n \<le> hi" using p o a by linarith
qed

text \<open>Reads are transparent.\<close>

theorem phys_rd_ok:
  assumes r: "ready conf (view (dev fs)) fs" and p: "in_page conf addr (unat len)"
    and t: "ticks fs < 2 ^ 32 - 1"
  shows "\<exists>fs'. spiffs_phys_rd fs op fh addr len = Some (0, nor_read (view (dev fs)) (unat addr) (unat len), fs') \<and>
    only_flash fs fs' \<and> view (dev fs') = view (dev fs) \<and> ready conf (view (dev fs')) fs' \<and>
    ticks fs' = ticks fs + 1"
proof -
  let ?m = "view (dev fs)" and ?pix = "ucast (SPIFFS_PADDR_TO_PAGE conf addr) :: u16"
  let ?q = "(unat addr - base conf) div psz conf"
  let ?off = "unat (SPIFFS_PADDR_TO_PAGE_OFFSET conf addr)"
  note P = in_page_facts [OF p]
  obtain c i where c: "cache fs = Some c" "cfg fs = conf" "cache_ok conf ?m c"
    and i: "i < unat (cpage_count c)" "\<not> write_slot c i"
    using r by (auto simp: ready_def)
  have tc: "unat (last_access c) < 2 ^ 32 - 1" using t c by (simp add: ticks_def)
  let ?page = "nor_read ?m (base conf + ?q * psz conf) (psz conf)"
  have sl: "slice ?off (unat len) ?page = nor_read ?m (unat addr) (unat len)"
    using slice_nor_read [OF P(3), of ?m "base conf + ?q * psz conf"] P(4) by simp
  from page_get [OF c(1,3), of ?pix] show ?thesis
  proof (elim disjE exE conjE)
    fix j assume get: "spiffs_cache_page_get fs ?pix = Some (Some j,
        fs\<lparr>cache := Some (cp_update j (\<lambda>cp. cp\<lparr>cp_last_access := last_access c\<rparr>) c)\<rparr>)"
      and j: "read_slot c j" "cp_id (cpages c ! j) = ?pix"
    define c1 where "c1 = cp_update j (\<lambda>cp. cp\<lparr>cp_last_access := last_access c\<rparr>) c"
    define c2 where "c2 = c1\<lparr>last_access := last_access c1 + 1\<rparr>"
    define c3 where "c3 = cp_update j (\<lambda>cp. cp\<lparr>cp_last_access := last_access c2\<rparr>) c2"
    have l: "last_access c1 = last_access c" "last_access c3 = last_access c + 1"
      by (simp_all add: c1_def c2_def c3_def)
    have ok3: "cache_ok conf ?m c3"
      unfolding c3_def c2_def
      using tc by (intro touch_ok tick_ok) (simp_all add: c1_def touch_ok [OF c(3)])
    have w3: "same_write_slots c c3"
      unfolding c3_def c2_def c1_def
      by (rule same_write_slots_trans [OF touch_write_slots
            same_write_slots_trans [OF tick_write_slots touch_write_slots]])
    have "unat (cp_ix (cpages c ! j)) = j" "cp_mem (cpages c ! j) = ?page"
      using c(3) j P(1) by (auto simp: cache_ok_def cache_table_def coherent_def read_slot_def)
    then have "unat (cp_ix (cpages c1 ! j)) = j" "cp_mem (cpages c1 ! j) = ?page"
      "unat (cp_ix (cpages c2 ! j)) = j" "cp_mem (cpages c2 ! j) = ?page"
      by (simp_all add: c2_def c1_def)
    moreover have "c3 = cp_update j (\<lambda>cp. cp\<lparr>cp_last_access := last_access c1 + 1\<rparr>) c2"
      by (simp add: c3_def c2_def)
    ultimately have "spiffs_phys_rd fs op fh addr len =
        Some (0, nor_read ?m (unat addr) (unat len), fs\<lparr>cache := Some c3\<rparr>)"
      using P(3) by (simp add: spiffs_phys_rd_def c get c1_def [symmetric] c2_def [symmetric]
          Let_def SPIFFS_OK_def sl)
    moreover have "i < unat (cpage_count c3) \<and> \<not> write_slot c3 i" using w3 i by (simp add: same_write_slots_def)
    moreover have "only_flash fs (fs\<lparr>cache := Some c3\<rparr>)"
      unfolding only_flash_def using c(1) w3 by (intro exI [of _ c] exI [of _ c3] exI [of _ "dev fs"]) simp
    ultimately show ?thesis
      using ok3 c tc by (auto simp: ready_def ticks_def l unat_Suc_no_wrap)
  next
    assume get: "spiffs_cache_page_get fs ?pix = Some (None, fs)"
      and miss: "\<forall>i. read_slot c i \<longrightarrow> cp_id (cpages c ! i) \<noteq> ?pix"
    define c2 where "c2 = c\<lparr>last_access := last_access c + 1\<rparr>"
    have ok2: "cache_ok conf ?m c2" unfolding c2_def by (rule tick_ok [OF c(3) tc])
    have w2: "same_write_slots c c2" unfolding c2_def by (rule tick_write_slots)
    have i2: "i < unat (cpage_count c2)" "\<not> write_slot c2 i" using w2 i by (simp_all add: same_write_slots_def)
    have l2: "last_access c2 = last_access c + 1" by (simp add: c2_def)
    show ?thesis
    proof (cases "op AND SPIFFS_OP_TYPE_MASK = SPIFFS_OP_T_OBJ_LU2")
      case True
      from hal_read [OF P(6,7), of "dev fs"] obtain d where
        d: "hal_read_f conf addr len (dev fs) = (0, nor_read ?m (unat addr) (unat len), d)" "view d = ?m" by blast
      then have "spiffs_phys_rd fs op fh addr len =
          Some (0, nor_read ?m (unat addr) (unat len), fs\<lparr>cache := Some c2, dev := d\<rparr>)"
        using True by (simp add: spiffs_phys_rd_def c get c2_def Let_def)
      moreover have "only_flash fs (fs\<lparr>cache := Some c2, dev := d\<rparr>)"
        unfolding only_flash_def using c(1) w2 by blast
      ultimately show ?thesis
        using ok2 c tc i2 d(2) by (auto simp: ready_def ticks_def l2 unat_Suc_no_wrap)
    next
      case False
      have fresh: "cp_last_access (cpages c2 ! j) < last_access c2" if "j < unat (cpage_count c2)" for j
      proof -
        have "cp_last_access (cpages c ! j) \<le> last_access c"
          using c(3) that by (simp add: cache_ok_def cache_table_def c2_def)
        then show ?thesis
          using tc by (simp add: c2_def word_le_nat_alt word_less_nat_alt unat_Suc_no_wrap)
      qed
      from page_remove_oldest [of "fs\<lparr>cache := Some c2\<rparr>" c2, OF _ ok2 i2 fresh]
      obtain c4 j where rem: "spiffs_cache_page_remove_oldest (fs\<lparr>cache := Some c2\<rparr>) SPIFFS_CACHE_FLAG_TYPE_WR 0 =
          Some (0, fs\<lparr>cache := Some c4\<rparr>)"
        and ok4: "cache_ok conf ?m c4" and w4: "same_write_slots c2 c4"
        and l4: "last_access c4 = last_access c2"
        and j: "j < unat (cpage_count c4)" "\<not> bit (cpage_use_map c4) j"
        and sub: "\<forall>j. read_slot c4 j \<longrightarrow> read_slot c2 j \<and> cp_id (cpages c4 ! j) = cp_id (cpages c2 ! j)"
        by auto
      have "unat (cpage_count c4) \<le> 32" using ok4 by (simp add: cache_ok_def cache_table_def)
      from page_allocate [of "fs\<lparr>cache := Some c4\<rparr>" c4, OF _ j(1) this j(2)] obtain n where
        al: "spiffs_cache_page_allocate (fs\<lparr>cache := Some c4\<rparr>) = Some (Some n,
          fs\<lparr>cache := Some (cp_update n (\<lambda>cp. cp\<lparr>cp_last_access := last_access c4\<rparr>)
            (c4\<lparr>cpage_use_map := cpage_use_map c4 OR push_bit n 1\<rparr>))\<rparr>)"
        and n: "n < unat (cpage_count c4)" "\<not> bit (cpage_use_map c4) n" by auto
      have nl: "n < length (cpages c4)" and nx: "unat (cp_ix (cpages c4 ! n)) = n"
        using ok4 n(1) by (simp_all add: cache_ok_def cache_table_def)
      from hal_read [of "addr - SPIFFS_PADDR_TO_PAGE_OFFSET conf addr" "log_page_size conf" "dev fs"] P(5,8,9)
      obtain d where d: "hal_read_f conf (addr - SPIFFS_PADDR_TO_PAGE_OFFSET conf addr) (log_page_size conf) (dev fs) =
          (0, ?page, d)" "view d = ?m"
        by (auto simp: psz_def)
      define c5 where "c5 = cp_update n (\<lambda>cp. cp\<lparr>cp_last_access := last_access c4,
          cp_flags := SPIFFS_CACHE_FLAG_WRTHRU, cp_id := ?pix, cp_mem := ?page\<rparr>)
            (c4\<lparr>cpage_use_map := cpage_use_map c4 OR push_bit n 1\<rparr>)"
      have new: "\<And>j. read_slot c4 j \<Longrightarrow> cp_id (cpages c4 ! j) \<noteq> ?pix"
        using sub miss by (simp add: c2_def read_slot_def)
      have pg: "?page = nor_read ?m (base conf + unat ?pix * psz conf) (psz conf)" by (simp only: P(1))
      note ok5 = fill_slot [OF ok4 n new pg, folded c5_def]
      have w5: "same_write_slots c c5" by (rule same_write_slots_trans [OF w2 same_write_slots_trans [OF w4 ok5(2)]])
      have m5: "cp_ix (cpages c5 ! n) = cp_ix (cpages c4 ! n)" "cp_mem (cpages c5 ! n) = ?page"
        "last_access c5 = last_access c + 1"
        using nl by (simp_all add: c5_def cp_update_def l4 l2)
      have "spiffs_phys_rd fs op fh addr len =
          Some (0, nor_read ?m (unat addr) (unat len), fs\<lparr>cache := Some c5, dev := d\<rparr>)"
        using False P(3) nl nx m5
        by (simp add: spiffs_phys_rd_def c get c2_def [symmetric] Let_def rem al d SPIFFS_OK_def
            cp_update_compose nth_cp_update sl c5_def)
      moreover have "only_flash fs (fs\<lparr>cache := Some c5, dev := d\<rparr>)"
        unfolding only_flash_def using c(1) w5 by blast
      moreover have "i < unat (cpage_count c5) \<and> \<not> write_slot c5 i" using w5 i by (simp add: same_write_slots_def)
      ultimately show ?thesis
        using ok5(1) c tc d(2) m5(3) by (auto simp: ready_def ticks_def unat_Suc_no_wrap)
    qed
  qed
qed

end
section \<open>Writes\<close>

text \<open>A write that programs exactly the given bytes: it only clears bits.\<close>

definition clears_bits :: "(nat \<Rightarrow> u8) \<Rightarrow> nat \<Rightarrow> u8 list \<Rightarrow> bool" where
  "clears_bits m a bs \<longleftrightarrow> (\<forall>i < length bs. m (a + i) AND bs ! i = bs ! i)"

lemma nor_read_program_blit:
  assumes "off + length src \<le> n" "clears_bits m (s + off) src"
  shows "nor_read (nor_program m (s + off) src) s n = blit off src (nor_read m s n)"
proof (rule nth_equalityI)
  fix i assume "i < length (nor_read (nor_program m (s + off) src) s n)"
  moreover have "m (s + i) AND src ! (i - off) = src ! (i - off)" if "off \<le> i" "i < off + length src"
    using assms(2) [unfolded clears_bits_def, rule_format, of "i - off"] that by (simp add: add.assoc)
  ultimately show "nor_read (nor_program m (s + off) src) s n ! i = blit off src (nor_read m s n) ! i"
    using assms(1) by (auto simp: nor_program_def buffer_simps)
qed (use assms(1) in simp)

lemma nor_read_program_disjoint:
  "s + n \<le> a \<or> a + length src \<le> s \<Longrightarrow> nor_read (nor_program m a src) s n = nor_read m s n"
  by (rule nth_equalityI) (auto simp: nor_program_def)

lemma pages_disjoint:
  assumes "p \<noteq> q" "off + n \<le> (z :: nat)"
  shows "b + p * z + z \<le> b + q * z + off \<or> b + q * z + off + n \<le> b + p * z"
proof (cases "p < q")
  case True
  then show ?thesis using mult_le_of_le [OF True, of z] by simp
next
  case False
  then have "q < p" using assms(1) by simp
  then show ?thesis using mult_le_of_le [of q p z] assms(2) by simp
qed

text \<open>Programming bytes of a page that is not cached keeps the cache coherent.\<close>

lemma coherent_other_page:
  assumes "coherent conf m c" "off + length src \<le> psz conf"
    and "\<And>j. read_slot c j \<Longrightarrow> unat (cp_id (cpages c ! j)) \<noteq> q"
  shows "coherent conf (nor_program m (base conf + q * psz conf + off) src) c"
  using assms(1) nor_read_program_disjoint [OF pages_disjoint [OF assms(3) assms(2)]]
  by (simp add: coherent_def)

lemma update_mem_fields [simp]:
  "cp_flags (cpages (cp_update i (\<lambda>cp. cp\<lparr>cp_mem := f cp\<rparr>) c) ! j) = cp_flags (cpages c ! j)"
  "cp_ix (cpages (cp_update i (\<lambda>cp. cp\<lparr>cp_mem := f cp\<rparr>) c) ! j) = cp_ix (cpages c ! j)"
  "cp_id (cpages (cp_update i (\<lambda>cp. cp\<lparr>cp_mem := f cp\<rparr>) c) ! j) = cp_id (cpages c ! j)"
  "cp_last_access (cpages (cp_update i (\<lambda>cp. cp\<lparr>cp_mem := f cp\<rparr>) c) ! j) = cp_last_access (cpages c ! j)"
  by (cases "i < length (cpages c)"; cases "i = j"; simp add: cp_update_def list_update_beyond)+

lemma update_page_ok:
  assumes "cache_ok conf m c" "read_slot c j" "unat (cp_id (cpages c ! j)) = q"
    "off + length src \<le> psz conf" "clears_bits m (base conf + q * psz conf + off) src"
  defines "c' \<equiv> cp_update j (\<lambda>cp. cp\<lparr>cp_mem := blit off src (cp_mem cp)\<rparr>) c"
  shows "cache_ok conf (nor_program m (base conf + q * psz conf + off) src) c'" and "same_write_slots c c'"
proof -
  have t: "cache_table (psz conf) c" and k: "coherent conf m c" using assms(1) by (simp_all add: cache_ok_def)
  have l: "j < length (cpages c)" using t assms(2) by (simp add: cache_table_def read_slot_def)
  have r: "read_slot c' i \<longleftrightarrow> read_slot c i" and w: "write_slot c' i \<longleftrightarrow> write_slot c i" for i
    by (simp_all add: c'_def read_slot_def write_slot_def)
  have o: "i \<noteq> j \<Longrightarrow> cpages c' ! i = cpages c ! i" for i by (simp add: c'_def cp_update_def)
  have n: "cp_mem (cpages c' ! j) = blit off src (cp_mem (cpages c ! j))" using l by (simp add: c'_def cp_update_def)
  have "length (cp_mem (cpages c' ! i)) = psz conf" if "i < unat (cpage_count c)" for i
    using t that assms(4) by (cases "i = j") (simp_all add: cache_table_def o n)
  then have "cache_table (psz conf) c'"
    using t by (simp add: cache_table_def c'_def)
  moreover have "coherent conf (nor_program m (base conf + q * psz conf + off) src) c'"
    unfolding coherent_def r
  proof (intro conjI allI impI)
    fix i assume i: "read_slot c i"
    then show "cp_flags (cpages c' ! i) = SPIFFS_CACHE_FLAG_WRTHRU" using k by (simp add: coherent_def c'_def)
    have e: "cp_mem (cpages c ! i) = nor_read m (base conf + unat (cp_id (cpages c ! i)) * psz conf) (psz conf)"
      using i k by (simp add: coherent_def)
    show "cp_mem (cpages c' ! i) = nor_read (nor_program m (base conf + q * psz conf + off) src)
        (base conf + unat (cp_id (cpages c' ! i)) * psz conf) (psz conf)"
    proof (cases "i = j")
      case True
      then show ?thesis using e n nor_read_program_blit [OF assms(4,5)] assms(3) by (simp add: c'_def)
    next
      case False
      then have "cp_id (cpages c ! i) \<noteq> cp_id (cpages c ! j)"
        using k i assms(2) by (auto simp: coherent_def)
      then have "unat (cp_id (cpages c ! i)) \<noteq> q" using assms(3) by (metis word_unat_eq_iff)
      then show ?thesis
        using e o [OF False] nor_read_program_disjoint [OF pages_disjoint [OF _ assms(4)]] by simp
    qed
  next
    fix i j assume "read_slot c i \<and> read_slot c j \<and> cp_id (cpages c' ! i) = cp_id (cpages c' ! j)"
    then show "i = j" using k by (simp add: coherent_def c'_def)
  qed
  ultimately show "cache_ok conf (nor_program m (base conf + q * psz conf + off) src) c'"
    by (simp add: cache_ok_def)
  have "i \<noteq> j" if "write_slot c i" for i using that assms(2) by (auto simp: read_slot_def write_slot_def)
  moreover have "cpage_count c' = cpage_count c" by (simp add: c'_def)
  ultimately show "same_write_slots c c'" by (auto simp: same_write_slots_def w o)
qed

context spiffs_flash
begin

text \<open>A write whose operation code does not ask for write-through programs the bytes and keeps the
  cache coherent, when it only clears bits or removes the page from the cache.\<close>

theorem phys_wr_ok:
  assumes r: "ready conf (view (dev fs)) fs" and p: "in_page conf addr (length src)"
    and t: "ticks fs < 2 ^ 32 - 1" and op: "op AND SPIFFS_OP_COM_MASK \<noteq> SPIFFS_OP_C_WRTHRU"
    and b: "op AND SPIFFS_OP_COM_MASK = SPIFFS_OP_C_DELE \<and> op AND SPIFFS_OP_TYPE_MASK \<noteq> SPIFFS_OP_T_OBJ_LU \<or>
      clears_bits (view (dev fs)) (unat addr) src"
  shows "\<exists>fs'. spiffs_phys_wr fs op fh addr src = Some (0, fs') \<and> only_flash fs fs' \<and>
    view (dev fs') = nor_program (view (dev fs)) (unat addr) src \<and> ready conf (view (dev fs')) fs' \<and>
    ticks fs' \<le> ticks fs + 1"
proof -
  let ?m = "view (dev fs)" and ?pix = "ucast (SPIFFS_PADDR_TO_PAGE conf addr) :: u16"
  let ?q = "(unat addr - base conf) div psz conf"
  let ?off = "unat (SPIFFS_PADDR_TO_PAGE_OFFSET conf addr)"
  note P = in_page_facts [OF p]
  obtain c i where c: "cache fs = Some c" "cfg fs = conf" "cache_ok conf ?m c"
    and i: "i < unat (cpage_count c)" "\<not> write_slot c i"
    using r by (auto simp: ready_def)
  have tc: "unat (last_access c) < 2 ^ 32 - 1" using t c by (simp add: ticks_def)
  let ?m' = "nor_program ?m (base conf + ?q * psz conf + ?off) src"
  have m': "nor_program ?m (unat addr) src = ?m'"
    by (rule arg_cong [where f = "\<lambda>a. nor_program ?m a src", OF P(4)])
  from hal_write [OF P(6,7), of "dev fs"] obtain d where
    d: "hal_write_f conf addr src (dev fs) = (0, d)" "view d = ?m'" unfolding m' by blast
  text \<open>It is enough to give the cache after the write.\<close>
  have fin: ?thesis if "spiffs_phys_wr fs op fh addr src = Some (0, fs\<lparr>cache := Some c', dev := d\<rparr>)"
    "cache_ok conf ?m' c'" "same_write_slots c c'" "unat (last_access c') \<le> unat (last_access c) + 1" for c'
  proof -
    have "only_flash fs (fs\<lparr>cache := Some c', dev := d\<rparr>)"
      unfolding only_flash_def using c(1) that(3) by blast
    moreover have "i < unat (cpage_count c') \<and> \<not> write_slot c' i" using that(3) i by (simp add: same_write_slots_def)
    ultimately show ?thesis
      using that c d(2) unfolding m' by (auto simp: ready_def ticks_def)
  qed
  from page_get [OF c(1,3), of ?pix] show ?thesis
  proof (elim disjE exE conjE)
    assume get: "spiffs_cache_page_get fs ?pix = Some (None, fs)"
      and miss: "\<forall>i. read_slot c i \<longrightarrow> cp_id (cpages c ! i) \<noteq> ?pix"
    have "unat (cp_id (cpages c ! j)) \<noteq> ?q" if "read_slot c j" for j
      using miss that P(1) by (metis word_unat_eq_iff)
    then have ok: "cache_ok conf ?m' c"
      using c(3) coherent_other_page [OF _ P(3), of ?m c] by (simp add: cache_ok_def)
    have "spiffs_phys_wr fs op fh addr src = Some (0, fs\<lparr>cache := Some c, dev := d\<rparr>)"
      using c(1) by (simp add: spiffs_phys_wr_def c get d Let_def)
    then show ?thesis by (rule fin [OF _ ok same_write_slots_refl]) simp
  next
    fix j assume get: "spiffs_cache_page_get fs ?pix = Some (Some j,
        fs\<lparr>cache := Some (cp_update j (\<lambda>cp. cp\<lparr>cp_last_access := last_access c\<rparr>) c)\<rparr>)"
      and j: "read_slot c j" "cp_id (cpages c ! j) = ?pix"
    define c1 where "c1 = cp_update j (\<lambda>cp. cp\<lparr>cp_last_access := last_access c\<rparr>) c"
    have ok1: "cache_ok conf ?m c1" unfolding c1_def by (rule touch_ok [OF c(3)]) simp
    have w1: "same_write_slots c c1" unfolding c1_def by (rule touch_write_slots)
    have l1: "last_access c1 = last_access c" by (simp add: c1_def)
    have j1: "read_slot c1 j" "cp_id (cpages c1 ! j) = ?pix" "unat (cp_ix (cpages c1 ! j)) = j"
      "cp_flags (cpages c1 ! j) = SPIFFS_CACHE_FLAG_WRTHRU" "length (cp_mem (cpages c1 ! j)) = psz conf"
      using j ok1 by (auto simp: c1_def cache_ok_def cache_table_def coherent_def read_slot_def)
    have id: "unat (cp_id (cpages c1 ! j)) = ?q" using j1(2) P(1) by simp
    show ?thesis
    proof (cases "op AND SPIFFS_OP_COM_MASK = SPIFFS_OP_C_DELE \<and> op AND SPIFFS_OP_TYPE_MASK \<noteq> SPIFFS_OP_T_OBJ_LU")
      case True
      from page_free [OF _ ok1 j1(1), of "fs\<lparr>cache := Some c1\<rparr>" False] obtain c2 where
        free: "spiffs_cache_page_free (fs\<lparr>cache := Some c1\<rparr>) j False = Some (0, fs\<lparr>cache := Some c2\<rparr>)"
        and ok2: "cache_ok conf ?m c2" "same_write_slots c1 c2" "last_access c2 = last_access c1"
        and s: "\<forall>k. read_slot c2 k \<longleftrightarrow> k \<noteq> j \<and> read_slot c1 k" "\<forall>k. cp_id (cpages c2 ! k) = cp_id (cpages c1 ! k)"
        by auto
      have "unat (cp_id (cpages c2 ! k)) \<noteq> ?q" if "read_slot c2 k" for k
        using s that j1(1) ok1 id unfolding cache_ok_def coherent_def by (metis word_unat_eq_iff)
      then have ok: "cache_ok conf ?m' c2"
        using ok2(1) coherent_other_page [OF _ P(3), of ?m c2] by (simp add: cache_ok_def)
      have "spiffs_phys_wr fs op fh addr src = Some (0, fs\<lparr>cache := Some c2, dev := d\<rparr>)"
        using True op free by (simp add: spiffs_phys_wr_def c get d Let_def c1_def [symmetric] j1)
      then show ?thesis
        by (rule fin [OF _ ok same_write_slots_trans [OF w1 ok2(2)]]) (simp add: ok2 l1)
    next
      case False
      with b have cb: "clears_bits ?m (base conf + ?q * psz conf + ?off) src"
        by (intro subst [OF P(4), where P = "\<lambda>a. clears_bits ?m a src"]) blast
      define c2 where "c2 = cp_update j (\<lambda>cp. cp\<lparr>cp_mem := blit ?off src (cp_mem cp)\<rparr>) c1"
      define c3 where "c3 = c2\<lparr>last_access := last_access c2 + 1\<rparr>"
      define c4 where "c4 = cp_update j (\<lambda>cp. cp\<lparr>cp_last_access := last_access c3\<rparr>) c3"
      note ok2 = update_page_ok [OF ok1 j1(1) id P(3) cb, folded c2_def]
      have l2: "last_access c2 = last_access c" by (simp add: c2_def l1)
      have ok3: "cache_ok conf ?m' c3" unfolding c3_def by (rule tick_ok [OF ok2(1)]) (use tc in \<open>simp add: l2\<close>)
      have ok4: "cache_ok conf ?m' c4" unfolding c4_def by (rule touch_ok [OF ok3]) simp
      have w4: "same_write_slots c c4"
        unfolding c4_def c3_def
        by (rule same_write_slots_trans [OF w1 same_write_slots_trans [OF ok2(2)
              same_write_slots_trans [OF tick_write_slots touch_write_slots]]])
      have "cp_flags (cpages c4 ! j) = SPIFFS_CACHE_FLAG_WRTHRU"
        by (simp add: c4_def c3_def c2_def j1)
      then have fl: "cp_flags (cpages c4 ! j) \<noteq> 0 \<and> SPIFFS_CACHE_FLAG_WRTHRU \<noteq> 0"
        by (simp add: SPIFFS_CACHE_FLAG_WRTHRU_def)
      have "spiffs_phys_wr fs op fh addr src =
          (let fs = fs\<lparr>cache := Some c4\<rparr> in if cp_flags (cpages c4 ! j) \<noteq> 0 \<and> SPIFFS_CACHE_FLAG_WRTHRU \<noteq> 0
           then (let (res, d) = hal_write_f (cfg fs) addr src (dev fs) in Some (res, fs\<lparr>dev := d\<rparr>))
           else Some (SPIFFS_OK, fs))"
        using op P(3)
        by (simp add: False spiffs_phys_wr_def c get Let_def c1_def [symmetric] j1 c4_def c3_def c2_def)
      also have "\<dots> = Some (0, fs\<lparr>cache := Some c4, dev := d\<rparr>)"
        using fl by (simp add: Let_def c d)
      finally show ?thesis
        by (rule fin [OF _ ok4 w4]) (use tc in \<open>simp add: c4_def c3_def l2 unat_Suc_no_wrap\<close>)
    qed
  qed
qed

end
section \<open>Mounting\<close>

text \<open>The state \<^verbatim>\<open>SPIFFS_mount\<close> builds before it scans the flash: everything zero but the configuration,
  the buffers given by the caller (their addresses decide about the alignment bytes that are lost)
  and the cache.  \<open>junk\<close> is what the cache memory held.\<close>

definition sizeof_fd :: u32 where "sizeof_fd = 36"

definition SPIFFS_CONFIG_MAGIC :: u32 where "SPIFFS_CONFIG_MAGIC = 0x20090315"

definition zero_fd :: spiffs_fd where
  "zero_fd = \<lparr>file_nbr = 0, fd_obj_id = 0, fd_size = 0, objix_hdr_pix = 0, cursor_objix_pix = 0,
     cursor_objix_spix = 0, fd_offset = 0, fdoffset = 0, fd_flags = 0, fd_cache_page = None\<rparr>"

definition align_lost :: "u32 \<Rightarrow> u32" where
  "align_lost addr = (if addr AND 3 \<noteq> 0 then 4 - (addr AND 3) else 0)"

definition SPIFFS_mount_state ::
  "'d spiffs_config \<Rightarrow> u8 list \<Rightarrow> u32 \<Rightarrow> u32 \<Rightarrow> u32 \<Rightarrow> u32 \<Rightarrow> spiffs_cache \<Rightarrow> 'd \<Rightarrow> 'd spiffs" where
  "SPIFFS_mount_state config work_mem fd_addr fd_space_size cache_addr cache_sz junk d =
     (let fd_space_size = fd_space_size - align_lost fd_addr;
          cache_sz = cache_sz - align_lost cache_addr;
          cache_sz = cache_sz - (cache_sz AND 3);
          n = unat (log_page_size config)
      in (spiffs_cache_init
          \<lparr>cfg = config, block_count = phys_size config div log_block_size config,
           free_cursor_block_ix = 0, free_cursor_obj_lu_entry = 0, cursor_block_ix = 0,
           cursor_obj_lu_entry = 0, lu_work = slice n n work_mem, work = slice 0 n work_mem,
           fd_space = replicate (unat (fd_space_size div sizeof_fd)) zero_fd,
           err_code = 0, free_blocks = 0, stats_p_allocated = 0, stats_p_deleted = 0, cleaning = 0,
           max_erase_count = 0, cache = (if cache_addr = 0 then None else Some junk),
           cache_size = cache_sz, mounted = 0, config_magic = 0, dev = d\<rparr>)
         \<lparr>config_magic := SPIFFS_CONFIG_MAGIC\<rparr>)"

text \<open>The initialised cache is empty, so it is coherent with any flash.\<close>

lemma shift_mask: "n \<le> 32 \<Longrightarrow> ((\<lambda>m. push_bit 1 m OR 1) ^^ n) (0 :: u32) = mask n"
proof (induction n)
  case (Suc n)
  then have "((\<lambda>m. push_bit 1 m OR 1) ^^ Suc n) (0 :: u32) = push_bit 1 (mask n) OR 1" by simp
  also have "\<dots> = mask (Suc n)"
    by (simp add: mask_Suc_double or.commute mult.commute)
  finally show ?case .
qed simp

lemma cache_init_ok:
  assumes "cache fs \<noteq> None" and e: "n = unat ((cache_size fs - sizeof_cache) div SPIFFS_CACHE_PAGE_SIZE (cfg fs))"
    and "1 \<le> n" "n \<le> 32"
  shows "\<exists>c. spiffs_cache_init fs = fs\<lparr>cache := Some c\<rparr> \<and> cache_ok (cfg fs) m c \<and>
    unat (cpage_count c) = n \<and> (\<forall>i. \<not> bit (cpage_use_map c) i \<longleftrightarrow> i < n \<or> 32 \<le> i) \<and> last_access c = 0"
proof -
  let ?w = "(cache_size fs - sizeof_cache) div SPIFFS_CACHE_PAGE_SIZE (cfg fs)"
  have "?w = word_of_int (int n)" unfolding e by simp
  moreover have "s32_range (int n)" using assms(4) by (simp add: s32_range_def)
  ultimately have s: "sint ?w = int n" using sint_word_of_int_s32 by metis
  have cnt: "unat (word_of_int (int n) :: u8) = n" using assms(4) by (simp add: unat_of_nat)
  define c where "c = \<lparr>cpage_count = word_of_int (int n), last_access = 0,
     cpage_use_map = 0xffffffff AND NOT (mask n), cpage_use_mask = mask n,
     cpages = map (empty_cache_page (cfg fs)) [0..<n]\<rparr>"
  have i: "spiffs_cache_init fs = fs\<lparr>cache := Some c\<rparr>"
    using assms(1,3,4) cnt shift_mask [OF assms(4), simplified]
    by (auto simp: spiffs_cache_init_def s Let_def c_def)
  have c: "unat (cpage_count c) = n" "last_access c = 0" "cpage_use_mask c = mask n"
    "cpages c = map (empty_cache_page (cfg fs)) [0..<n]"
    using cnt by (simp_all add: c_def)
  have f: "(0xffffffff :: u32) = mask 32" by (simp add: mask_eq_exp_minus_1)
  have b: "bit (cpage_use_map c) j \<longleftrightarrow> n \<le> j \<and> j < 32" for j
    unfolding c_def using assms(4) by (auto simp: f bit_simps dest: bit_imp_le_length)
  have "cache_table (psz (cfg fs)) c"
    using assms(4) by (simp add: cache_table_def c empty_cache_page_def psz_def unat_of_nat)
  moreover have "\<not> read_slot c j" for j by (simp add: read_slot_def b c)
  ultimately have "cache_ok (cfg fs) m c" by (simp add: cache_ok_def coherent_def)
  then show ?thesis using i b c by (intro exI [of _ c]) (simp add: not_le not_less)
qed

section \<open>The mounted file system of the application\<close>

lemma mount_config_fields:
  "hal_read_f (the (mount_config k src 0x40300000 0x40400000 256 8192)) = api_spiffs_read k"
  "hal_write_f (the (mount_config k src 0x40300000 0x40400000 256 8192)) = api_spiffs_write k src"
  "hal_erase_f (the (mount_config k src 0x40300000 0x40400000 256 8192)) = api_spiffs_erase k"
  "base (the (mount_config k src 0x40300000 0x40400000 256 8192)) = 0x40300000"
  "phys_size (the (mount_config k src 0x40300000 0x40400000 256 8192)) = 0x100000"
  by (simp_all add: mount_config_def base_def)

sublocale spi_chip \<subseteq> mounted_fs: spiffs_flash
  "the (mount_config k src 0x40300000 0x40400000 256 8192)" "flash_window view" "0x40200000" "0x41200000"
  by (intro spiffs_flash.intro spiffs_flash_axioms.intro spiffs_geometry.intro mount_config_geometry)
    (simp_all add: mount_config_fields nor_flash_hal)

interpretation example_flash: spiffs_flash example_config "flash_window id" "0x40200000" "0x41200000"
  unfolding example_config_def by (rule ref_chip.mounted_fs.spiffs_flash_axioms)

definition example_junk :: spiffs_cache where
  "example_junk = \<lparr>cpage_count = 0, last_access = 0, cpage_use_map = 0, cpage_use_mask = 0, cpages = []\<rparr>"

text \<open>The buffers of \<^verbatim>\<open>FSClass::_mountInternal\<close> for 256 byte pages and four open files.\<close>

definition example_mount :: "(nat \<Rightarrow> u8) \<Rightarrow> (nat \<Rightarrow> u8) flash_hw spiffs" where
  "example_mount d = SPIFFS_mount_state example_config (replicate 512 0) 0x3fff2000 (32 * 4)
     0x3fff3000 ((32 + 256) * 4) example_junk
     \<lparr>chip_size = 512, ps = 0, interrupts_state = 0, chip = d\<rparr>"

lemma example_config_fields:
  "log_page_size example_config = 256" "phys_addr example_config = 0x40300000"
  "phys_size example_config = 0x100000" "log_block_size example_config = 8192"
  "phys_erase_block example_config = 4096"
  by (simp_all add: example_config_def mount_config_def INTERNAL_FLASH_SECTOR_SIZE_def)

lemma cache_init_keeps: "\<exists>c. spiffs_cache_init fs = fs\<lparr>cache := c\<rparr>"
  by (cases "cache fs") (auto simp: spiffs_cache_init_def Let_def intro: exI [of _ "cache fs"])

lemma SPIFFS_mount_state_fields:
  "block_count (SPIFFS_mount_state config w fa fsz ca csz junk d) = phys_size config div log_block_size config"
  "cfg (SPIFFS_mount_state config w fa fsz ca csz junk d) = config"
proof -
  have f: "block_count (spiffs_cache_init fs) = block_count fs" "cfg (spiffs_cache_init fs) = cfg fs" for fs :: "'d spiffs"
    using cache_init_keeps [of fs] by auto
  show "block_count (SPIFFS_mount_state config w fa fsz ca csz junk d) = phys_size config div log_block_size config"
    "cfg (SPIFFS_mount_state config w fa fsz ca csz junk d) = config"
    by (simp_all add: SPIFFS_mount_state_def Let_def f)
qed

lemma SPIFFS_mount_state_ready:
  assumes "cache_addr \<noteq> 0"
    and n: "n = unat ((cache_sz - align_lost cache_addr - ((cache_sz - align_lost cache_addr) AND 3) -
      sizeof_cache) div SPIFFS_CACHE_PAGE_SIZE config)" "1 \<le> n" "n \<le> 32"
    and st: "fs = SPIFFS_mount_state config work_mem fd_addr fd_sz cache_addr cache_sz junk d"
  shows "ready config m fs \<and> ticks fs = 0 \<and> dev fs = d"
proof -
  let ?sz = "cache_sz - align_lost cache_addr"
  define fs0 where "fs0 = \<lparr>cfg = config, block_count = phys_size config div log_block_size config,
      free_cursor_block_ix = 0, free_cursor_obj_lu_entry = 0, cursor_block_ix = 0,
      cursor_obj_lu_entry = 0,
      lu_work = slice (unat (log_page_size config)) (unat (log_page_size config)) work_mem,
      work = slice 0 (unat (log_page_size config)) work_mem,
      fd_space = replicate (unat ((fd_sz - align_lost fd_addr) div sizeof_fd)) zero_fd,
      err_code = 0, free_blocks = 0, stats_p_allocated = 0, stats_p_deleted = 0, cleaning = 0,
      max_erase_count = 0, cache = Some junk, cache_size = ?sz - (?sz AND 3), mounted = 0,
      config_magic = 0, dev = d\<rparr>"
  have fs: "fs = (spiffs_cache_init fs0)\<lparr>config_magic := SPIFFS_CONFIG_MAGIC\<rparr>"
    using assms(1) by (simp add: st SPIFFS_mount_state_def fs0_def Let_def)
  have "cache fs0 \<noteq> None" "n = unat ((cache_size fs0 - sizeof_cache) div SPIFFS_CACHE_PAGE_SIZE (cfg fs0))"
    using n(1) by (simp_all add: fs0_def)
  from cache_init_ok [OF this n(2,3), of m] obtain c where
    c: "spiffs_cache_init fs0 = fs0\<lparr>cache := Some c\<rparr>" "cache_ok (cfg fs0) m c" "unat (cpage_count c) = n"
      "\<forall>i. \<not> bit (cpage_use_map c) i \<longleftrightarrow> i < n \<or> 32 \<le> i" "last_access c = 0" by blast
  have "\<not> write_slot c 0" using c(4) n(2) by (simp add: write_slot_def)
  then show ?thesis
    using c n(2) by (auto simp: ready_def ticks_def fs fs0_def intro: exI [of _ 0])
qed

lemma example_mount_ready:
  "ready example_config m (example_mount d)" "ticks (example_mount d) = 0"
  "dev (example_mount d) = \<lparr>chip_size = 512, ps = 0, interrupts_state = 0, chip = d\<rparr>"
proof -
  have "4 = unat (((32 + 256) * 4 - align_lost 0x3fff3000 - (((32 + 256) * 4 - align_lost 0x3fff3000) AND 3) -
      sizeof_cache) div SPIFFS_CACHE_PAGE_SIZE example_config)"
    by (simp add: align_lost_def sizeof_cache_def SPIFFS_CACHE_PAGE_SIZE_def example_config_fields)
  from SPIFFS_mount_state_ready [OF _ this _ _ example_mount_def, of m d]
  show "ready example_config m (example_mount d)" "ticks (example_mount d) = 0"
    "dev (example_mount d) = \<lparr>chip_size = 512, ps = 0, interrupts_state = 0, chip = d\<rparr>"
    by simp_all
qed

section \<open>Properties\<close>

text \<open>C3 (refinement). While the access counter has not wrapped, a read through the page cache of any
  range inside one page returns success and exactly the bytes on flash, whether the page was cached,
  had to replace another or is bypassed; flash and write cache are unchanged and the cache stays
  coherent.\<close>

theorem cached_read_is_flash_read:
  assumes "spiffs_flash conf view lo hi" "ready conf (view (dev fs)) fs"
    and "in_page conf addr (unat len)" "ticks fs < 2 ^ 32 - 1"
  shows "\<exists>fs'. spiffs_phys_rd fs op fh addr len = Some (0, nor_read (view (dev fs)) (unat addr) (unat len), fs') \<and>
    only_flash fs fs' \<and> view (dev fs') = view (dev fs) \<and> ready conf (view (dev fs')) fs' \<and>
    ticks fs' = ticks fs + 1"
  by (rule spiffs_flash.phys_rd_ok [OF assms])

theorem cached_read_is_flash_read_witness:
  "\<exists>fs'. spiffs_phys_rd (example_mount (\<lambda>i. of_nat i)) SPIFFS_OP_C_READ 0 0x40300103 2 = Some (0, [3, 4], fs')"
proof -
  have "in_page example_config 0x40300103 (unat (2 :: u32))"
    by (simp add: in_page_def layout_simps example_config_fields)
  from cached_read_is_flash_read [OF example_flash.spiffs_flash_axioms
      example_mount_ready(1) [of _ "\<lambda>i. of_nat i"] this,
      where op = SPIFFS_OP_C_READ and fh = 0]
  show ?thesis
    by (auto simp: example_mount_ready nor_read_def flash_window_def upt_rec)
qed

text \<open>C4 (refinement). A write through the cache that only clears bits (or deletes the page from the
  cache) programs exactly its bytes on flash and leaves every cached page equal to its flash page, so
  later reads see it; this excludes the write-through code the erase counter uses.\<close>

theorem cached_write_programs_flash:
  assumes "spiffs_flash conf view lo hi" "ready conf (view (dev fs)) fs"
    and "in_page conf addr (length src)" "ticks fs < 2 ^ 32 - 1"
    and "op AND SPIFFS_OP_COM_MASK \<noteq> SPIFFS_OP_C_WRTHRU"
    and "op AND SPIFFS_OP_COM_MASK = SPIFFS_OP_C_DELE \<and> op AND SPIFFS_OP_TYPE_MASK \<noteq> SPIFFS_OP_T_OBJ_LU \<or>
      clears_bits (view (dev fs)) (unat addr) src"
  shows "\<exists>fs'. spiffs_phys_wr fs op fh addr src = Some (0, fs') \<and> only_flash fs fs' \<and>
    view (dev fs') = nor_program (view (dev fs)) (unat addr) src \<and> ready conf (view (dev fs')) fs' \<and>
    ticks fs' \<le> ticks fs + 1"
  by (rule spiffs_flash.phys_wr_ok [OF assms])

theorem cached_write_programs_flash_witness:
  "\<exists>fs'. spiffs_phys_wr (example_mount (\<lambda>i. 0xff)) SPIFFS_OP_C_UPDT 0 0x40300103 [1, 2] = Some (0, fs') \<and>
     map (flash_window id (dev fs')) [0x40300102, 0x40300103, 0x40300104, 0x40300105] = [0xff, 1, 2, 0xff]"
proof -
  have "in_page example_config 0x40300103 (length [1, 2 :: u8])"
    by (simp add: in_page_def layout_simps example_config_fields)
  moreover have "SPIFFS_OP_C_UPDT AND SPIFFS_OP_COM_MASK \<noteq> SPIFFS_OP_C_WRTHRU"
    by (simp add: SPIFFS_OP_C_UPDT_def SPIFFS_OP_COM_MASK_def SPIFFS_OP_C_WRTHRU_def)
  moreover have "clears_bits (flash_window id (dev (example_mount (\<lambda>i. 0xff)))) (unat (0x40300103 :: u32)) [1, 2]"
    by (simp add: clears_bits_def example_mount_ready flash_window_def less_Suc_eq)
  moreover have "ticks (example_mount (\<lambda>i. 0xff)) < 2 ^ 32 - 1" by (simp add: example_mount_ready)
  ultimately obtain fs' where "spiffs_phys_wr (example_mount (\<lambda>i. 0xff)) SPIFFS_OP_C_UPDT 0 0x40300103 [1, 2] = Some (0, fs')"
    "flash_window id (dev fs') =
      nor_program (flash_window id (dev (example_mount (\<lambda>i. 0xff)))) (unat (0x40300103 :: u32)) [1, 2]"
    using cached_write_programs_flash [OF example_flash.spiffs_flash_axioms example_mount_ready(1),
      where op = SPIFFS_OP_C_UPDT and fh = 0] by blast
  then show ?thesis
    by (intro exI [of _ fs']) (simp only: list.map, simp add: example_mount_ready nor_program_def flash_window_def)
qed

text \<open>C38 (safety). When every page of the cache belongs to the write cache of some file, reading a page
  with any operation code but the second lookup layer dereferences the null page that the allocation
  returned.\<close>

theorem read_with_full_write_cache_undefined:
  assumes "cache fs = Some c" "cache_table (psz (cfg fs)) c" "cpage_use_map c = 0xffffffff"
    and "\<forall>i < unat (cpage_count c). write_slot c i"
    and "op AND SPIFFS_OP_TYPE_MASK \<noteq> SPIFFS_OP_T_OBJ_LU2"
  shows "spiffs_phys_rd fs op fh addr len = None"
proof -
  let ?c = "c\<lparr>last_access := last_access c + 1\<rparr>"
  have f: "find (\<lambda>i. bit (cpage_use_map c) i \<and> cp_flags (cpages c ! i) AND SPIFFS_CACHE_FLAG_TYPE_WR = 0 \<and>
      cp_id (cpages c ! i) = pix) [0..<unat (cpage_count c)] = None" for pix
    using assms(4) by (auto simp: find_upt_None write_slot_def)
  have "spiffs_cache_page_get fs pix = Some (None, fs)" for pix
    by (simp add: spiffs_cache_page_get_def assms(1) f)
  moreover have "fst (fold (oldest_step ?c SPIFFS_CACHE_FLAG_TYPE_WR 0) [0..<unat (cpage_count c)] (None, 0)) = None"
    (is "?r = None")
  proof (rule ccontr)
    assume "?r \<noteq> None"
    then obtain i where "?r = Some i" by blast
    from oldest_sound [OF this] assms(4) show False by (auto simp: write_slot_def)
  qed
  then have "spiffs_cache_page_remove_oldest (fs\<lparr>cache := Some ?c\<rparr>) SPIFFS_CACHE_FLAG_TYPE_WR 0 =
      Some (SPIFFS_OK, fs\<lparr>cache := Some ?c\<rparr>)"
    by (simp add: spiffs_cache_page_remove_oldest_def)
  moreover have "spiffs_cache_page_allocate (fs\<lparr>cache := Some ?c\<rparr>) = Some (None, fs\<lparr>cache := Some ?c\<rparr>)"
    by (simp add: spiffs_cache_page_allocate_def assms(3))
  ultimately show ?thesis
    using assms(1,5) by (simp add: spiffs_phys_rd_def Let_def)
qed

text \<open>Four write cache pages, as four open files with buffered writes leave them.\<close>

definition full_cache :: spiffs_cache where
  "full_cache = \<lparr>cpage_count = 4, last_access = 9, cpage_use_map = 0xffffffff, cpage_use_mask = 15,
     cpages = map (\<lambda>i. (empty_cache_page example_config i)
       \<lparr>cp_flags := SPIFFS_CACHE_FLAG_TYPE_WR, cp_id := word_of_nat i + 1\<rparr>) [0..<4]\<rparr>"

theorem read_with_full_write_cache_undefined_witness:
  "spiffs_phys_rd ((example_mount (\<lambda>i. 0xff))\<lparr>cache := Some full_cache\<rparr>) SPIFFS_OP_C_READ 0 0x40300000 256 = None"
proof -
  have lt: "i < 4 \<Longrightarrow> i = 0 \<or> i = 1 \<or> i = 2 \<or> i = 3" for i :: nat by auto
  have "cache_table 256 full_cache"
    by (auto simp: cache_table_def full_cache_def empty_cache_page_def example_config_fields mask_eq_exp_minus_1
        dest!: lt)
  moreover have "cfg (example_mount (\<lambda>i. 0xff)) = example_config"
    using example_mount_ready(1) by (simp add: ready_def)
  moreover have "\<forall>i < unat (cpage_count full_cache). write_slot full_cache i"
    by (auto simp: write_slot_def full_cache_def SPIFFS_CACHE_FLAG_TYPE_WR_def dest!: lt)
  moreover have "cpage_use_map full_cache = 0xffffffff" by (simp add: full_cache_def)
  ultimately show ?thesis
    by (intro read_with_full_write_cache_undefined [of _ full_cache])
      (simp_all add: layout_simps SPIFFS_OP_C_READ_def SPIFFS_OP_TYPE_MASK_def SPIFFS_OP_T_OBJ_LU2_def)
qed

end
