(* ===== verification/SpiffsLookup.thy ===== *)
theory SpiffsLookup
  imports SpiffsCache
begin

text \<open>
  The object lookup of \<^verbatim>\<open>spiffs_nucleus.c\<close>: the visitor that walks the lookup pages of the blocks,
  the searches built on it, the scan at mount time, erasing a block and the quick garbage collection
  that a search for a free entry may start (\<^verbatim>\<open>spiffs_gc.c\<close>).

  A visitor function gets the state, an object id, block and entry, and a value of type \<open>'u\<close> for what
  its C original keeps behind \<^verbatim>\<open>user_p\<close>.  Entry indices and lookup page numbers are natural numbers,
  return codes are integers.
\<close>

section \<open>Return codes\<close>

definition SPIFFS_ERR_FULL :: int where "SPIFFS_ERR_FULL = - 10001"
definition SPIFFS_ERR_NOT_FOUND :: int where "SPIFFS_ERR_NOT_FOUND = - 10002"
definition SPIFFS_ERR_END_OF_OBJECT :: int where "SPIFFS_ERR_END_OF_OBJECT = - 10003"
definition SPIFFS_ERR_DELETED :: int where "SPIFFS_ERR_DELETED = - 10004"
definition SPIFFS_ERR_NOT_FINALIZED :: int where "SPIFFS_ERR_NOT_FINALIZED = - 10005"
definition SPIFFS_ERR_NOT_INDEX :: int where "SPIFFS_ERR_NOT_INDEX = - 10006"
definition SPIFFS_ERR_OUT_OF_FILE_DESCS :: int where "SPIFFS_ERR_OUT_OF_FILE_DESCS = - 10007"
definition SPIFFS_ERR_FILE_CLOSED :: int where "SPIFFS_ERR_FILE_CLOSED = - 10008"
definition SPIFFS_ERR_BAD_DESCRIPTOR :: int where "SPIFFS_ERR_BAD_DESCRIPTOR = - 10010"
definition SPIFFS_ERR_IS_INDEX :: int where "SPIFFS_ERR_IS_INDEX = - 10011"
definition SPIFFS_ERR_IS_FREE :: int where "SPIFFS_ERR_IS_FREE = - 10012"
definition SPIFFS_ERR_INDEX_SPAN_MISMATCH :: int where "SPIFFS_ERR_INDEX_SPAN_MISMATCH = - 10013"
definition SPIFFS_ERR_DATA_SPAN_MISMATCH :: int where "SPIFFS_ERR_DATA_SPAN_MISMATCH = - 10014"
definition SPIFFS_ERR_INDEX_REF_FREE :: int where "SPIFFS_ERR_INDEX_REF_FREE = - 10015"
definition SPIFFS_ERR_INDEX_REF_LU :: int where "SPIFFS_ERR_INDEX_REF_LU = - 10016"
definition SPIFFS_ERR_INDEX_REF_INVALID :: int where "SPIFFS_ERR_INDEX_REF_INVALID = - 10017"
definition SPIFFS_ERR_INDEX_FREE :: int where "SPIFFS_ERR_INDEX_FREE = - 10018"
definition SPIFFS_ERR_INDEX_LU :: int where "SPIFFS_ERR_INDEX_LU = - 10019"
definition SPIFFS_ERR_INDEX_INVALID :: int where "SPIFFS_ERR_INDEX_INVALID = - 10020"
definition SPIFFS_ERR_CONFLICTING_NAME :: int where "SPIFFS_ERR_CONFLICTING_NAME = - 10023"

definition SPIFFS_VIS_COUNTINUE :: int where "SPIFFS_VIS_COUNTINUE = SPIFFS_ERR_INTERNAL - 20"
definition SPIFFS_VIS_COUNTINUE_RELOAD :: int where "SPIFFS_VIS_COUNTINUE_RELOAD = SPIFFS_ERR_INTERNAL - 21"
definition SPIFFS_VIS_END :: int where "SPIFFS_VIS_END = SPIFFS_ERR_INTERNAL - 22"

definition SPIFFS_VIS_CHECK_ID :: u8 where "SPIFFS_VIS_CHECK_ID = 1"
definition SPIFFS_VIS_CHECK_PH :: u8 where "SPIFFS_VIS_CHECK_PH = 2"
definition SPIFFS_VIS_NO_WRAP :: u8 where "SPIFFS_VIS_NO_WRAP = 4"

text \<open>Page header flags; a cleared bit means the property holds.\<close>

definition SPIFFS_PH_FLAG_USED :: u8 where "SPIFFS_PH_FLAG_USED = 1"
definition SPIFFS_PH_FLAG_FINAL :: u8 where "SPIFFS_PH_FLAG_FINAL = 2"
definition SPIFFS_PH_FLAG_INDEX :: u8 where "SPIFFS_PH_FLAG_INDEX = 4"
definition SPIFFS_PH_FLAG_IXDELE :: u8 where "SPIFFS_PH_FLAG_IXDELE = 0x40"
definition SPIFFS_PH_FLAG_DELET :: u8 where "SPIFFS_PH_FLAG_DELET = 0x80"

record spiffs_page_header =
  ph_obj_id :: u16
  ph_span_ix :: u16
  ph_flags :: u8

definition get_page_header :: "u8 list \<Rightarrow> spiffs_page_header" where
  "get_page_header b = \<lparr>ph_obj_id = get16 b 0, ph_span_ix = get16 b 2, ph_flags = b ! 4\<rparr>"

definition page_header_bytes :: "spiffs_page_header \<Rightarrow> u8 list" where
  "page_header_bytes ph = bytes16 (ph_obj_id ph) @ bytes16 (ph_span_ix ph) @ [ph_flags ph]"

section \<open>Walking the lookup pages of a block\<close>

text \<open>How a step of the walk ends: go on, leave the loops over entries and pages, return from the
  function with a code, or leave the loops with \<^verbatim>\<open>res\<close> not \<^verbatim>\<open>SPIFFS_OK\<close>.\<close>

datatype lu_step = Next | Break | Halt int | Fail int

definition entries_per_page :: "'d spiffs_config \<Rightarrow> nat" where
  "entries_per_page config = unat (log_page_size config div sizeof_obj_id)"

definition max_entries :: "'d spiffs_config \<Rightarrow> nat" where
  "max_entries config = unat (SPIFFS_OBJ_LOOKUP_MAX_ENTRIES config)"

type_synonym ('s, 'd) lu_body =
  "nat \<Rightarrow> nat \<Rightarrow> u16 \<Rightarrow> 's \<Rightarrow> 'd spiffs \<Rightarrow> (lu_step \<times> 's \<times> 'd spiffs) option"

text \<open>The loop over the entries of one lookup page, which has been read to \<^verbatim>\<open>lu_work\<close>; the body gets
  page number, entry, object id and state.\<close>

partial_function (option) lu_entries ::
  "('s, 'd) lu_body \<Rightarrow> nat \<Rightarrow> nat \<Rightarrow> 's \<Rightarrow> 'd spiffs \<Rightarrow> (lu_step \<times> nat \<times> 's \<times> 'd spiffs) option" where
  "lu_entries body page cur s fs =
     (let entry_offset = page * entries_per_page (cfg fs)
      in if cur - entry_offset < entries_per_page (cfg fs) \<and> cur < max_entries (cfg fs)
         then do {
           (r, s, fs) \<leftarrow> body page cur (get16 (lu_work fs) (2 * (cur - entry_offset))) s fs;
           if r = Next then lu_entries body page (cur + 1) s fs else Some (r, cur, s, fs) }
         else Some (Next, cur, s, fs))"

text \<open>Reading a lookup page of the block at \<open>block_addr\<close>.\<close>

definition read_lu_page :: "u32 \<Rightarrow> nat \<Rightarrow> 'd spiffs \<Rightarrow> (int \<times> 'd spiffs) option" where
  "read_lu_page block_addr page fs = do {
     (res, bs, fs) \<leftarrow> spiffs_phys_rd fs (SPIFFS_OP_T_OBJ_LU OR SPIFFS_OP_C_READ) 0
       (block_addr + SPIFFS_PAGE_TO_PADDR (cfg fs) (word_of_nat page)) (log_page_size (cfg fs));
     Some (res, fs\<lparr>lu_work := bs\<rparr>) }"

partial_function (option) lu_pages ::
  "('s, 'd) lu_body \<Rightarrow> u32 \<Rightarrow> nat \<Rightarrow> nat \<Rightarrow> 's \<Rightarrow> 'd spiffs \<Rightarrow>
   (lu_step \<times> nat \<times> 's \<times> 'd spiffs) option" where
  "lu_pages body block_addr page cur s fs =
     (if page < unat (SPIFFS_OBJ_LOOKUP_PAGES (cfg fs))
      then do {
        (res, fs) \<leftarrow> read_lu_page block_addr page fs;
        if res \<noteq> SPIFFS_OK then Some (Fail res, cur, s, fs)
        else do {
          (r, cur, s, fs) \<leftarrow> lu_entries body page cur s fs;
          if r = Next then lu_pages body block_addr (page + 1) cur s fs else Some (r, cur, s, fs) } }
      else Some (Next, cur, s, fs))"

declare lu_entries.simps [code] lu_pages.simps [code]

section \<open>The visitor\<close>

type_synonym ('u, 'd) visitor =
  "'d spiffs \<Rightarrow> u16 \<Rightarrow> u16 \<Rightarrow> nat \<Rightarrow> 'u \<Rightarrow> (int \<times> 'u \<times> 'd spiffs) option"

text \<open>What the search carries along: the number of entries still to visit, the reported block and
  entry (unset at first) and the visitor's own data.\<close>

record 'u search =
  entry_count :: int
  at_block :: "u16 option"
  at_entry :: "nat option"
  user :: 'u

definition visit_entry ::
  "u8 \<Rightarrow> u16 \<Rightarrow> ('u, 'd) visitor option \<Rightarrow> u16 \<Rightarrow> u32 \<Rightarrow> ('u search, 'd) lu_body" where
  "visit_entry flags obj_id v cur_block cur_block_addr page cur oid s fs =
     (if flags AND SPIFFS_VIS_CHECK_ID = 0 \<or> oid = obj_id
      then let s = s\<lparr>at_block := Some cur_block, at_entry := Some cur\<rparr>
        in case v of
             None \<Rightarrow> Some (Halt SPIFFS_OK, s, fs)
           | Some f \<Rightarrow> do {
               (res, u, fs) \<leftarrow> f fs (if flags AND SPIFFS_VIS_CHECK_PH \<noteq> 0 then obj_id else oid) cur_block cur (user s);
               let s = s\<lparr>user := u\<rparr>;
               if res = SPIFFS_VIS_COUNTINUE then Some (Next, s\<lparr>entry_count := entry_count s - 1\<rparr>, fs)
               else if res = SPIFFS_VIS_COUNTINUE_RELOAD
               then do {
                 (res, fs) \<leftarrow> read_lu_page cur_block_addr page fs;
                 if res < SPIFFS_OK then Some (Halt res, s, fs)
                 else Some (Next, s\<lparr>entry_count := entry_count s - 1\<rparr>, fs) }
               else Some (Halt res, s, fs) }
      else Some (Next, s\<lparr>entry_count := entry_count s - 1\<rparr>, fs))"

partial_function (option) visit_blocks ::
  "u8 \<Rightarrow> u16 \<Rightarrow> ('u, 'd) visitor option \<Rightarrow> u16 \<Rightarrow> u32 \<Rightarrow> nat \<Rightarrow> 'u search \<Rightarrow> 'd spiffs \<Rightarrow>
   (int \<times> 'u search \<times> 'd spiffs) option" where
  "visit_blocks flags obj_id v cur_block cur_block_addr cur_entry s fs =
     (if entry_count s > 0
      then do {
        (r, cur, s, fs) \<leftarrow> lu_pages (visit_entry flags obj_id v cur_block cur_block_addr) cur_block_addr
          (cur_entry div entries_per_page (cfg fs)) cur_entry s fs;
        let res = (case r of Fail res \<Rightarrow> res | _ \<Rightarrow> SPIFFS_OK);
        case r of
          Halt res \<Rightarrow> Some (res, s, fs)
        | _ \<Rightarrow>
          (let wrap = (block_count fs \<le> ucast (cur_block + 1));
               cur_block_addr = (if wrap then 0 else cur_block_addr + log_block_size (cfg fs));
               cur_block = (if wrap then 0 else cur_block + 1)
           in if wrap \<and> flags AND SPIFFS_VIS_NO_WRAP \<noteq> 0 then Some (SPIFFS_VIS_END, s, fs)
              else if res = SPIFFS_OK then visit_blocks flags obj_id v cur_block cur_block_addr 0 s fs
              else if res < SPIFFS_OK then Some (res, s, fs) else Some (SPIFFS_VIS_END, s, fs)) }
      else Some (SPIFFS_VIS_END, s, fs))"

declare visit_blocks.simps [code]

text \<open>The search starts at the given entry, or at the next block when that is the last entry or beyond.\<close>

definition spiffs_obj_lu_find_entry_visitor ::
  "'d spiffs \<Rightarrow> u16 \<Rightarrow> nat \<Rightarrow> u8 \<Rightarrow> u16 \<Rightarrow> ('u, 'd) visitor option \<Rightarrow> 'u \<Rightarrow>
   (int \<times> 'u search \<times> 'd spiffs) option" where
  "spiffs_obj_lu_find_entry_visitor fs starting_block starting_lu_entry flags obj_id v u =
     (let entry_count = sint (block_count fs * SPIFFS_OBJ_LOOKUP_MAX_ENTRIES (cfg fs));
          s = \<lparr>entry_count = entry_count, at_block = None, at_entry = None, user = u\<rparr>
      in if starting_lu_entry + 1 \<ge> max_entries (cfg fs)
         then let cur_block = starting_block + 1
           in if block_count fs \<le> ucast cur_block
              then if flags AND SPIFFS_VIS_NO_WRAP \<noteq> 0 then Some (SPIFFS_VIS_END, s, fs)
                   else visit_blocks flags obj_id v 0 0 0 s fs
              else visit_blocks flags obj_id v cur_block (ucast cur_block * log_block_size (cfg fs)) 0 s fs
         else visit_blocks flags obj_id v starting_block (ucast starting_block * log_block_size (cfg fs))
                starting_lu_entry s fs)"

definition spiffs_obj_lu_find_id ::
  "'d spiffs \<Rightarrow> u16 \<Rightarrow> nat \<Rightarrow> u16 \<Rightarrow> (int \<times> u16 option \<times> nat option \<times> 'd spiffs) option" where
  "spiffs_obj_lu_find_id fs starting_block starting_lu_entry obj_id = do {
     (res, s, fs) \<leftarrow> spiffs_obj_lu_find_entry_visitor fs starting_block starting_lu_entry
       SPIFFS_VIS_CHECK_ID obj_id None ();
     Some (if res = SPIFFS_VIS_END then SPIFFS_ERR_NOT_FOUND else res, at_block s, at_entry s, fs) }"

section \<open>Searching by id and span index\<close>

text \<open>The call to \<^verbatim>\<open>_spiffs_rd\<close> in this visitor passes 0 as the operation code and the operation code as
  the file handle.\<close>

definition spiffs_obj_lu_find_id_and_span_v :: "u16 \<Rightarrow> u16 option \<Rightarrow> (unit, 'd) visitor" where
  "spiffs_obj_lu_find_id_and_span_v spix exclusion_pix fs obj_id bix ix_entry u = do {
     let pix = (ucast (SPIFFS_OBJ_LOOKUP_ENTRY_TO_PIX (cfg fs) (ucast bix) (word_of_nat ix_entry)) :: u16);
     (res, bs, fs) \<leftarrow> spiffs_phys_rd fs 0 (uint (SPIFFS_OP_T_OBJ_LU2 OR SPIFFS_OP_C_READ))
       (SPIFFS_PAGE_TO_PADDR (cfg fs) (ucast pix)) sizeof_page_header;
     if res < SPIFFS_OK then Some (res, u, fs)
     else let ph = get_page_header bs
       in if ph_obj_id ph = obj_id \<and> ph_span_ix ph = spix \<and>
             ph_flags ph AND (SPIFFS_PH_FLAG_FINAL OR SPIFFS_PH_FLAG_DELET OR SPIFFS_PH_FLAG_USED) =
               SPIFFS_PH_FLAG_DELET \<and>
             \<not> (obj_id AND SPIFFS_OBJ_ID_IX_FLAG \<noteq> 0 \<and> ph_flags ph AND SPIFFS_PH_FLAG_IXDELE = 0 \<and>
                ph_span_ix ph = 0) \<and>
             exclusion_pix \<noteq> Some pix
          then Some (SPIFFS_OK, u, fs) else Some (SPIFFS_VIS_COUNTINUE, u, fs) }"

text \<open>The common part of the two searches, which differ in the visitor flag.  The result carries the
  page index.\<close>

definition find_id_and_span_with ::
  "u8 \<Rightarrow> 'd spiffs \<Rightarrow> u16 \<Rightarrow> u16 \<Rightarrow> u16 \<Rightarrow> (int \<times> u16 \<times> 'd spiffs) option" where
  "find_id_and_span_with flag fs obj_id spix exclusion_pix = do {
     (res, s, fs) \<leftarrow> spiffs_obj_lu_find_entry_visitor fs (cursor_block_ix fs) (cursor_obj_lu_entry fs)
       flag obj_id (Some (spiffs_obj_lu_find_id_and_span_v spix
         (if exclusion_pix \<noteq> 0 then Some exclusion_pix else None))) ();
     let res = (if res = SPIFFS_VIS_END then SPIFFS_ERR_NOT_FOUND else res);
     if res < SPIFFS_OK then Some (res, 0, fs)
     else do {
       bix \<leftarrow> at_block s;
       entry \<leftarrow> at_entry s;
       let pix = ucast (SPIFFS_OBJ_LOOKUP_ENTRY_TO_PIX (cfg fs) (ucast bix) (word_of_nat entry));
       Some (res, pix, fs\<lparr>cursor_block_ix := bix, cursor_obj_lu_entry := entry\<rparr>) }}"

definition spiffs_obj_lu_find_id_and_span ::
  "'d spiffs \<Rightarrow> u16 \<Rightarrow> u16 \<Rightarrow> u16 \<Rightarrow> (int \<times> u16 \<times> 'd spiffs) option" where
  "spiffs_obj_lu_find_id_and_span = find_id_and_span_with SPIFFS_VIS_CHECK_ID"

definition spiffs_obj_lu_find_id_and_span_by_phdr ::
  "'d spiffs \<Rightarrow> u16 \<Rightarrow> u16 \<Rightarrow> u16 \<Rightarrow> (int \<times> u16 \<times> 'd spiffs) option" where
  "spiffs_obj_lu_find_id_and_span_by_phdr = find_id_and_span_with SPIFFS_VIS_CHECK_PH"

section \<open>Erasing a block\<close>

text \<open>\<^verbatim>\<open>while (size > 0)\<close> with a signed \<^verbatim>\<open>size\<close>; the result of the erase is ignored.\<close>

partial_function (option) erase_block_loop :: "u32 \<Rightarrow> u32 \<Rightarrow> 'd spiffs \<Rightarrow> 'd spiffs option" where
  "erase_block_loop addr sz fs =
     (if sint sz > 0
      then do {
        (_, d) \<leftarrow> hal_erase_f (cfg fs) addr (phys_erase_block (cfg fs)) (dev fs);
        erase_block_loop (addr + phys_erase_block (cfg fs)) (sz - phys_erase_block (cfg fs)) (fs\<lparr>dev := d\<rparr>) }
      else Some fs)"

declare erase_block_loop.simps [code]

definition spiffs_erase_block :: "'d spiffs \<Rightarrow> u16 \<Rightarrow> (int \<times> 'd spiffs) option" where
  "spiffs_erase_block fs bix = do {
     fs \<leftarrow> erase_block_loop (SPIFFS_BLOCK_TO_PADDR (cfg fs) (ucast bix)) (log_block_size (cfg fs)) fs;
     let fs = fs\<lparr>free_blocks := free_blocks fs + 1\<rparr>;
     (res, fs) \<leftarrow> spiffs_phys_wr fs (SPIFFS_OP_C_WRTHRU OR SPIFFS_OP_T_OBJ_LU2) 0
       (SPIFFS_ERASE_COUNT_PADDR (cfg fs) (ucast bix)) (bytes16 (max_erase_count fs));
     if res < SPIFFS_OK then Some (res, fs)
     else let n = max_erase_count fs + 1
       in Some (res, fs\<lparr>max_erase_count := (if n = SPIFFS_OBJ_ID_IX_FLAG then 0 else n)\<rparr>) }"

text \<open>\<^verbatim>\<open>spiffs_gc_erase_block\<close> also drops the cached pages of the block.\<close>

fun drop_block_pages :: "u16 \<Rightarrow> nat list \<Rightarrow> 'd spiffs \<Rightarrow> 'd spiffs option" where
  "drop_block_pages bix [] fs = Some fs"
| "drop_block_pages bix (i # is) fs = do {
     fs \<leftarrow> spiffs_cache_drop_page fs
       (ucast (SPIFFS_PAGE_FOR_BLOCK (cfg fs) (ucast bix) + word_of_nat i));
     drop_block_pages bix is fs }"

definition spiffs_gc_erase_block :: "'d spiffs \<Rightarrow> u16 \<Rightarrow> (int \<times> 'd spiffs) option" where
  "spiffs_gc_erase_block fs bix = do {
     (res, fs) \<leftarrow> spiffs_erase_block fs bix;
     if res < SPIFFS_OK then Some (res, fs)
     else do {
       fs \<leftarrow> drop_block_pages bix [0..<unat (SPIFFS_PAGES_PER_BLOCK (cfg fs))] fs;
       Some (res, fs) }}"

section \<open>Scan at mount time\<close>

definition spiffs_obj_lu_scan_v :: "(unit, 'd) visitor" where
  "spiffs_obj_lu_scan_v fs obj_id bix ix_entry u =
     Some (SPIFFS_VIS_COUNTINUE, u,
       if obj_id = SPIFFS_OBJ_ID_FREE
       then if ix_entry = 0 then fs\<lparr>free_blocks := free_blocks fs + 1\<rparr> else fs
       else if obj_id = SPIFFS_OBJ_ID_DELETED then fs\<lparr>stats_p_deleted := stats_p_deleted fs + 1\<rparr>
       else fs\<lparr>stats_p_allocated := stats_p_allocated fs + 1\<rparr>)"

text \<open>The loop over the erase counters: minimum and maximum of those that are set.\<close>

partial_function (option) scan_erase_counts ::
  "u16 \<Rightarrow> u16 \<Rightarrow> u16 \<Rightarrow> 'd spiffs \<Rightarrow> (int \<times> u16 \<times> u16 \<times> 'd spiffs) option" where
  "scan_erase_counts bix mn mx fs =
     (if ucast bix < block_count fs
      then do {
        (res, bs, fs) \<leftarrow> spiffs_phys_rd fs (SPIFFS_OP_T_OBJ_LU2 OR SPIFFS_OP_C_READ) 0
          (SPIFFS_ERASE_COUNT_PADDR (cfg fs) (ucast bix)) sizeof_obj_id;
        if res < SPIFFS_OK then Some (res, mn, mx, fs)
        else let n = get16 bs 0
          in if n \<noteq> SPIFFS_OBJ_ID_FREE then scan_erase_counts (bix + 1) (min mn n) (max mx n) fs
             else scan_erase_counts (bix + 1) mn mx fs }
      else Some (SPIFFS_OK, mn, mx, fs))"

declare scan_erase_counts.simps [code]

definition erase_count_final :: "u16 \<Rightarrow> u16 \<Rightarrow> u16" where
  "erase_count_final mn mx =
     (if mn = 0 \<and> mx = SPIFFS_OBJ_ID_FREE then 0
      else if uint mx - uint mn > uint SPIFFS_OBJ_ID_FREE div 2 then mn + 1
      else mx + 1)"

definition spiffs_obj_lu_scan :: "'d spiffs \<Rightarrow> (int \<times> 'd spiffs) option" where
  "spiffs_obj_lu_scan fs = do {
     (res, mn, mx, fs) \<leftarrow> scan_erase_counts 0 SPIFFS_OBJ_ID_FREE 0 fs;
     if res < SPIFFS_OK then Some (res, fs)
     else do {
       let fs = fs\<lparr>max_erase_count := erase_count_final mn mx, free_blocks := 0,
                   stats_p_allocated := 0, stats_p_deleted := 0\<rparr>;
       (res, s, fs) \<leftarrow> spiffs_obj_lu_find_entry_visitor fs 0 0 0 0 (Some spiffs_obj_lu_scan_v) ();
       Some (if res = SPIFFS_VIS_END then SPIFFS_OK else res, fs) }}"

section \<open>Quick garbage collection\<close>

text \<open>The entries of a block are counted while they are deleted; any other entry ends the walk.\<close>

definition gc_quick_entry :: "(u16, 'd) lu_body" where
  "gc_quick_entry page cur obj_id deleted fs =
     (if obj_id = SPIFFS_OBJ_ID_DELETED then Some (Next, deleted + 1, fs) else Some (Break, deleted, fs))"

partial_function (option) gc_quick_blocks :: "u32 \<Rightarrow> u16 \<Rightarrow> u32 \<Rightarrow> 'd spiffs \<Rightarrow> (int \<times> 'd spiffs) option" where
  "gc_quick_blocks blocks cur_block cur_block_addr fs =
     (if blocks \<noteq> 0
      then do {
        (r, _, deleted, fs) \<leftarrow> lu_pages gc_quick_entry cur_block_addr 0 0 0 fs;
        case r of
          Fail res \<Rightarrow> Some (res, fs)
        | _ \<Rightarrow>
          if ucast deleted = SPIFFS_PAGES_PER_BLOCK (cfg fs) - SPIFFS_OBJ_LOOKUP_PAGES (cfg fs)
          then spiffs_gc_erase_block (fs\<lparr>stats_p_deleted := stats_p_deleted fs - ucast deleted\<rparr>) cur_block
          else gc_quick_blocks (blocks - 1) (cur_block + 1) (cur_block_addr + log_block_size (cfg fs)) fs }
      else Some (SPIFFS_OK, fs))"

declare gc_quick_blocks.simps [code]

definition spiffs_gc_quick :: "'d spiffs \<Rightarrow> (int \<times> 'd spiffs) option" where
  "spiffs_gc_quick fs = gc_quick_blocks (block_count fs) 0 0 fs"

section \<open>Searching a free entry\<close>

definition spiffs_obj_lu_find_free ::
  "'d spiffs \<Rightarrow> u16 \<Rightarrow> nat \<Rightarrow> (int \<times> u16 option \<times> nat option \<times> 'd spiffs) option" where
  "spiffs_obj_lu_find_free fs starting_block starting_lu_entry = do {
     (res, fs) \<leftarrow> (if cleaning fs = 0 \<and> free_blocks fs < 2
        then do {
          (res, fs) \<leftarrow> spiffs_gc_quick fs;
          Some (if res < SPIFFS_OK then res
            else if free_blocks fs < 2 then SPIFFS_ERR_FULL else SPIFFS_OK, fs) }
        else Some (SPIFFS_OK, fs));
     if res < SPIFFS_OK then Some (res, None, None, fs)
     else do {
       (res, bix, entry, fs) \<leftarrow> spiffs_obj_lu_find_id fs starting_block starting_lu_entry SPIFFS_OBJ_ID_FREE;
       fs \<leftarrow> (if res = SPIFFS_OK
          then do {
            b \<leftarrow> bix;
            e \<leftarrow> entry;
            let fs = fs\<lparr>free_cursor_block_ix := b, free_cursor_obj_lu_entry := e\<rparr>;
            Some (if e = 0 then fs\<lparr>free_blocks := free_blocks fs - 1\<rparr> else fs) }
          else Some fs);
       Some (if res = SPIFFS_VIS_END then SPIFFS_ERR_FULL else res, bix, entry, fs) }}"

section \<open>The walk as a function of the flash contents\<close>

text \<open>The object id stored for entry \<open>e\<close> of block \<open>b\<close>.\<close>

definition lu_id :: "'d spiffs_config \<Rightarrow> (nat \<Rightarrow> u8) \<Rightarrow> nat \<Rightarrow> nat \<Rightarrow> u16" where
  "lu_id conf m b e = word16 (m (base conf + b * (ppb conf * psz conf) + 2 * e))
     (m (base conf + b * (ppb conf * psz conf) + 2 * e + 1))"

text \<open>Running a step function over entries until it stops.\<close>

fun walk :: "(nat \<Rightarrow> u16 \<Rightarrow> 's \<Rightarrow> 'p \<Rightarrow> lu_step \<times> 's \<times> 'p) \<Rightarrow> (nat \<Rightarrow> u16) \<Rightarrow> nat list \<Rightarrow> 's \<Rightarrow> 'p \<Rightarrow>
    lu_step \<times> 's \<times> 'p" where
  "walk f ids [] s p = (Next, s, p)"
| "walk f ids (e # es) s p =
     (case f e (ids e) s p of (r, s, p) \<Rightarrow> if r = Next then walk f ids es s p else (r, s, p))"

lemma walk_append:
  "walk f ids (xs @ ys) s p =
     (case walk f ids xs s p of (r, s, p) \<Rightarrow> if r = Next then walk f ids ys s p else (r, s, p))"
  by (induction xs arbitrary: s p) (auto split: prod.splits)

context spiffs_flash
begin

text \<open>A real state that is the state \<open>p\<close> but for cache, device and lookup buffer, with flash contents
  \<open>m\<close>.\<close>

definition matches :: "(nat \<Rightarrow> u8) \<Rightarrow> 'd spiffs \<Rightarrow> 'd spiffs \<Rightarrow> bool" where
  "matches m p fs \<longleftrightarrow> fs\<lparr>cache := cache p, dev := dev p, lu_work := lu_work p\<rparr> = p \<and>
     ready conf m fs \<and> view (dev fs) = m \<and> unat (block_count fs) = blks conf"

lemma matches_refl: "ready conf (view (dev fs)) fs \<Longrightarrow> unat (block_count fs) = blks conf \<Longrightarrow>
    matches (view (dev fs)) fs fs"
  by (simp add: matches_def)

lemma matches_fields:
  assumes "matches m p fs"
  shows "cfg fs = conf" "ready conf m fs" "view (dev fs) = m" "block_count fs = block_count p"
    "cfg p = conf" "cleaning fs = cleaning p" "free_blocks fs = free_blocks p"
    "unat (block_count fs) = blks conf"
proof -
  have e: "fs\<lparr>cache := cache p, dev := dev p, lu_work := lu_work p\<rparr> = p"
    and r: "ready conf m fs" "view (dev fs) = m" "unat (block_count fs) = blks conf"
    using assms by (auto simp: matches_def)
  show "cfg fs = conf" "ready conf m fs" "view (dev fs) = m" "unat (block_count fs) = blks conf" using r by (simp_all add: ready_def)
  show "block_count fs = block_count p" "cleaning fs = cleaning p" "free_blocks fs = free_blocks p"
    using arg_cong [OF e, of block_count] arg_cong [OF e, of cleaning] arg_cong [OF e, of free_blocks]
    by simp_all
  have "cfg p = cfg fs" using arg_cong [OF e, of cfg] by simp
  then show "cfg p = conf" using r by (simp add: ready_def)
qed

lemma matches_lu_work: "matches m p fs \<Longrightarrow> matches m p (fs\<lparr>lu_work := w\<rparr>)"
  by (auto simp: matches_def ready_def)

lemma ticks_lu_work [simp]: "ticks (fs\<lparr>lu_work := w\<rparr>) = ticks fs"
  by (simp add: ticks_def)

lemma phys_rd_matches:
  assumes "matches m p fs" "in_page conf addr (unat len)" "ticks fs < 2 ^ 32 - 1"
  shows "\<exists>fs'. spiffs_phys_rd fs op fh addr len = Some (0, nor_read m (unat addr) (unat len), fs') \<and>
    matches m p fs' \<and> ticks fs' = ticks fs + 1 \<and> lu_work fs' = lu_work fs"
proof -
  from phys_rd_ok [of fs addr len op fh] assms matches_fields [OF assms(1)] obtain fs' where
    r: "spiffs_phys_rd fs op fh addr len = Some (0, nor_read m (unat addr) (unat len), fs')"
    and o: "only_flash fs fs'" and m: "view (dev fs') = m" "ready conf m fs'" "ticks fs' = ticks fs + 1"
    by auto
  from o obtain c' d where e: "fs' = fs\<lparr>cache := Some c', dev := d\<rparr>" by (auto simp: only_flash_def)
  have "fs'\<lparr>cache := cache p, dev := dev p, lu_work := lu_work p\<rparr> = p"
    using assms(1) unfolding matches_def e by simp
  then show ?thesis using r m e matches_fields(8) [OF assms(1)] by (auto simp: matches_def)
qed

lemma loop_bounds:
  shows "entries_per_page conf = psz conf div 2" "max_entries conf = ents conf"
    "entries_per_page conf * 2 = psz conf" "0 < entries_per_page conf"
    "unat (SPIFFS_OBJ_LOOKUP_PAGES conf) = lups conf"
proof -
  show e: "entries_per_page conf = psz conf div 2" by (simp add: entries_per_page_def unat_div psz_def)
  show "max_entries conf = ents conf" unfolding max_entries_def by (rule unat_max_entries)
  show "entries_per_page conf * 2 = psz conf" unfolding e using geometry_facts(2) [OF g] by auto
  show "0 < entries_per_page conf" unfolding e using geometry_facts(1) [OF g] by linarith
  show "unat (SPIFFS_OBJ_LOOKUP_PAGES conf) = lups conf" by (rule unat_lookup_pages)
qed

text \<open>Contents of lookup page \<open>page\<close> of block \<open>b\<close>.\<close>

definition lu_page :: "(nat \<Rightarrow> u8) \<Rightarrow> nat \<Rightarrow> nat \<Rightarrow> u8 list" where
  "lu_page m b page = nor_read m (base conf + b * (ppb conf * psz conf) + page * psz conf) (psz conf)"

lemma get16_lu_page:
  assumes "page * entries_per_page conf \<le> e" "e < page * entries_per_page conf + entries_per_page conf"
  shows "get16 (lu_page m b page) (2 * (e - page * entries_per_page conf)) = lu_id conf m b e"
proof -
  let ?i = "2 * (e - page * entries_per_page conf)"
  have i: "?i + 1 < psz conf" using assms loop_bounds(3) by linarith
  have "page * psz conf + ?i = 2 * e"
    using assms(1) by (simp add: loop_bounds(3) [symmetric])
  then have "base conf + b * (ppb conf * psz conf) + page * psz conf + ?i = base conf + b * (ppb conf * psz conf) + 2 * e"
    by linarith
  then show ?thesis
    using i by (simp add: get16_def lu_page_def lu_id_def add.assoc)
qed

lemma read_lu_page_ok:
  assumes "matches m p fs" "b < blks conf" "page < lups conf" "unat addr = b * (ppb conf * psz conf)"
    and "ticks fs < 2 ^ 32 - 1"
  shows "\<exists>fs'. read_lu_page addr page fs = Some (0, fs') \<and> matches m p fs' \<and> ticks fs' = ticks fs + 1 \<and>
    lu_work fs' = lu_page m b page"
proof -
  have pg: "page < blks conf * ppb conf"
  proof -
    have "page < ppb conf" using assms(3) geometry_facts(10) [OF g] by simp
    also have "\<dots> \<le> blks conf * ppb conf" using assms(2) by simp
    finally show ?thesis .
  qed
  then have "page < 2 ^ 32" using geometry_facts(7) [OF g] by simp
  then have pa: "unat (SPIFFS_PAGE_TO_PADDR conf (word_of_nat page)) = base conf + page * psz conf"
    using pg by (subst unat_page_to_paddr) (simp_all add: unat_of_nat)
  have q1: "b * (ppb conf * psz conf) + ppb conf * psz conf \<le> blks conf * (ppb conf * psz conf)"
    by (rule mult_le_of_le [OF assms(2)])
  have q2: "page * psz conf + psz conf \<le> lups conf * psz conf" by (rule mult_le_of_le [OF assms(3)])
  have q3: "lups conf * psz conf \<le> ppb conf * psz conf"
    using geometry_facts(10) [OF g] by (intro mult_le_mono1 less_imp_le)
  note q = q1 q2 q3 geometry_facts(8) [OF g]
  have a: "unat (addr + SPIFFS_PAGE_TO_PADDR conf (word_of_nat page)) =
      base conf + b * (ppb conf * psz conf) + page * psz conf"
    by (subst unat_add_no_wrap) (unfold pa assms(4), use q in \<open>simp, linarith\<close>, linarith)
  have lt: "b * (ppb conf * psz conf) + page * psz conf < blks conf * (ppb conf * psz conf)"
    using q psz_pos by linarith
  have "(b * (ppb conf * psz conf) + page * psz conf) mod psz conf = 0"
    by (simp add: mult.assoc [symmetric])
  then have "in_page conf (addr + SPIFFS_PAGE_TO_PADDR conf (word_of_nat page)) (unat (log_page_size conf))"
    unfolding in_page_def a using lt geometry_facts(4) [OF g] psz_def [of conf] by auto
  from phys_rd_matches [OF assms(1) this assms(5), of "SPIFFS_OP_T_OBJ_LU OR SPIFFS_OP_C_READ" 0] obtain fs' where
    "spiffs_phys_rd fs (SPIFFS_OP_T_OBJ_LU OR SPIFFS_OP_C_READ) 0
      (addr + SPIFFS_PAGE_TO_PADDR conf (word_of_nat page)) (log_page_size conf) = Some (0, lu_page m b page, fs')"
    "matches m p fs'" "ticks fs' = ticks fs + 1"
    unfolding a lu_page_def psz_def by blast
  then show ?thesis
    using matches_lu_work by (auto simp: read_lu_page_def matches_fields [OF assms(1)])
qed

text \<open>A body that behaves like the step function \<open>f\<close> on block \<open>b\<close>, with at most \<open>k\<close> accesses to flash.\<close>

definition body_ok ::
  "(nat \<Rightarrow> u8) \<Rightarrow> nat \<Rightarrow> nat \<Rightarrow> (nat \<Rightarrow> u16 \<Rightarrow> 's \<Rightarrow> 'd spiffs \<Rightarrow> lu_step \<times> 's \<times> 'd spiffs) \<Rightarrow> ('s, 'd) lu_body \<Rightarrow> bool"
  where
  "body_ok m b k f body \<longleftrightarrow> (\<forall>page cur s p fs. matches m p fs \<and> page < lups conf \<and> cur < ents conf \<and>
     lu_work fs = lu_page m b page \<and> ticks fs + k < 2 ^ 32 - 1 \<longrightarrow>
     (case f cur (lu_id conf m b cur) s p of (r, s', p') \<Rightarrow>
        \<exists>fs'. body page cur (lu_id conf m b cur) s fs = Some (r, s', fs') \<and> matches m p' fs' \<and>
          lu_work fs' = lu_page m b page \<and> ticks fs' \<le> ticks fs + k))"

lemma entries_walk:
  assumes ok: "body_ok m b k f body" and "page < lups conf"
    and "matches m p fs" "lu_work fs = lu_page m b page" "page * entries_per_page conf \<le> cur \<or> ents conf \<le> cur"
    and "stop = min (ents conf) (page * entries_per_page conf + entries_per_page conf)"
    and "ticks fs + (stop - cur) * k < 2 ^ 32 - 1"
  shows "\<exists>r s' p' fs' cur'. walk f (lu_id conf m b) [cur..<stop] s p = (r, s', p') \<and>
    lu_entries body page cur s fs = Some (r, cur', s', fs') \<and> matches m p' fs' \<and>
    ticks fs' \<le> ticks fs + (stop - cur) * k \<and> (r = Next \<longrightarrow> cur' = max cur stop)"
  using assms(3-7)
proof (induction "stop - cur" arbitrary: cur s p fs)
  case 0
  let ?n = "entries_per_page conf"
  have le: "stop \<le> cur" using 0(1) by simp
  then have "\<not> (cur - page * ?n < ?n \<and> cur < ents conf)" using 0(5) by (auto simp: min_def split: if_splits)
  then have "lu_entries body page cur s fs = Some (Next, cur, s, fs)"
    by (subst lu_entries.simps) (simp only: Let_def matches_fields(1) [OF 0(2)] loop_bounds(2) if_False)
  then show ?case using le 0(2) by (simp add: max_def)
next
  case (Suc n)
  let ?n = "entries_per_page conf"
  have lt: "cur < stop" using Suc(2) by simp
  then have c: "cur < ents conf" "page * ?n \<le> cur" "cur < page * ?n + ?n" using Suc(5,6) by auto
  then have cond: "cur - page * ?n < ?n \<and> cur < ents conf" by linarith
  have k: "ticks fs + k < 2 ^ 32 - 1" "k + (stop - Suc cur) * k = (stop - cur) * k"
  proof -
    have "stop - cur = Suc (stop - Suc cur)" using lt by simp
    then show e: "k + (stop - Suc cur) * k = (stop - cur) * k" by simp
    then show "ticks fs + k < 2 ^ 32 - 1" using Suc(7) by linarith
  qed
  obtain r s1 p1 where f: "f cur (lu_id conf m b cur) s p = (r, s1, p1)" by (metis prod_cases3)
  from ok [unfolded body_ok_def, rule_format, of p fs page cur s] Suc(3,4) assms(2) c(1) k(1) f
  obtain fs1 where b1: "body page cur (lu_id conf m b cur) s fs = Some (r, s1, fs1)"
    and m1: "matches m p1 fs1" "lu_work fs1 = lu_page m b page" "ticks fs1 \<le> ticks fs + k"
    by auto
  have g: "get16 (lu_work fs) (2 * (cur - page * ?n)) = lu_id conf m b cur"
    unfolding Suc(4) by (rule get16_lu_page [OF c(2,3)])
  have step: "lu_entries body page cur s fs =
      (if r = Next then lu_entries body page (cur + 1) s1 fs1 else Some (r, cur, s1, fs1))"
    by (subst lu_entries.simps)
      (simp only: Let_def matches_fields(1) [OF Suc(3)] loop_bounds(2) cond if_True g b1 bind.bind_lunit prod.case simp_thms)
  have up: "[cur..<stop] = cur # [Suc cur..<stop]" using lt by (simp add: upt_conv_Cons)
  show ?case
  proof (cases "r = Next")
    case False
    then show ?thesis using step f m1 k by (simp add: up)
  next
    case True
    have "n = stop - Suc cur" "ticks fs1 + (stop - Suc cur) * k < 2 ^ 32 - 1"
      using Suc(2) Suc(7) m1(3) k(2) by linarith+
    from Suc.hyps(1) [OF this(1) m1(1,2) _ Suc(6) this(2), of s1] c(2) obtain r2 s2 p2 fs2 cur2 where
      "walk f (lu_id conf m b) [Suc cur..<stop] s1 p1 = (r2, s2, p2)"
      "lu_entries body page (Suc cur) s1 fs1 = Some (r2, cur2, s2, fs2)" "matches m p2 fs2"
      "ticks fs2 \<le> ticks fs1 + (stop - Suc cur) * k" "r2 = Next \<longrightarrow> cur2 = max (Suc cur) stop"
      by auto
    then show ?thesis using True step f m1(3) k(2) lt by (simp add: up)
  qed
qed

lemma ents_fit: "ents conf < lups conf * entries_per_page conf"
proof -
  have "ents conf * 2 + 2 \<le> lups conf * (entries_per_page conf * 2)"
    unfolding loop_bounds(3) by (rule geometry_facts(11) [OF g])
  then show ?thesis by simp
qed

lemma pages_walk:
  assumes ok: "body_ok m b k f body" and b: "b < blks conf" "unat addr = b * (ppb conf * psz conf)"
    and "matches m p fs" "page \<le> lups conf"
    and "page * entries_per_page conf \<le> cur \<or> ents conf \<le> cur"
    and "cur \<le> page * entries_per_page conf + entries_per_page conf"
    and "ticks fs + (lups conf - page) + (ents conf - cur) * k < 2 ^ 32 - 1"
  shows "\<exists>r s' p' fs' cur'. walk f (lu_id conf m b) [cur..<ents conf] s p = (r, s', p') \<and>
    lu_pages body addr page cur s fs = Some (r, cur', s', fs') \<and> matches m p' fs' \<and>
    ticks fs' \<le> ticks fs + (lups conf - page) + (ents conf - cur) * k"
  using assms(4-8)
proof (induction "lups conf - page" arbitrary: page cur s p fs)
  case 0
  then have pg: "page = lups conf" by simp
  then have "ents conf \<le> cur" using 0(4) ents_fit by auto
  moreover have "lu_pages body addr page cur s fs = Some (Next, cur, s, fs)"
    by (subst lu_pages.simps) (simp only: matches_fields(1) [OF 0(2)] loop_bounds(5) pg less_irrefl if_False)
  ultimately show ?case using 0(2) by simp
next
  case (Suc n)
  let ?n = "entries_per_page conf"
  define stop where "stop = min (ents conf) (page * ?n + ?n)"
  have pg: "page < lups conf" using Suc(2) by simp
  have "ticks fs < 2 ^ 32 - 1" using Suc(7) by linarith
  from read_lu_page_ok [OF Suc(3) b(1) pg b(2) this] obtain fs1 where
    rd: "read_lu_page addr page fs = Some (0, fs1)" and m1: "matches m p fs1" "ticks fs1 = ticks fs + 1"
      "lu_work fs1 = lu_page m b page" by blast
  have se: "stop \<le> ents conf" by (simp add: stop_def)
  then have sk1: "(stop - cur) * k \<le> (ents conf - cur) * k"
    by (intro mult_le_mono1 diff_le_mono)
  have "(stop - cur) + (ents conf - max cur stop) = ents conf - cur" using se by (simp add: max_def)
  then have sk2: "(stop - cur) * k + (ents conf - max cur stop) * k = (ents conf - cur) * k"
    by (metis add_mult_distrib)
  note sk = sk1 sk2
  have lp: "lups conf - page = Suc (lups conf - Suc page)" using pg by simp
  have "ticks fs1 + (stop - cur) * k < 2 ^ 32 - 1" using Suc(7) m1(2) sk(1) lp by linarith
  from entries_walk [OF ok pg m1(1,3) Suc(5) stop_def this, of s] obtain r s2 p2 fs2 cur2 where
    w: "walk f (lu_id conf m b) [cur..<stop] s p = (r, s2, p2)"
    and e: "lu_entries body page cur s fs1 = Some (r, cur2, s2, fs2)" and m2: "matches m p2 fs2"
    and t2: "ticks fs2 \<le> ticks fs1 + (stop - cur) * k" and c2: "r = Next \<longrightarrow> cur2 = max cur stop"
    by blast
  have step: "lu_pages body addr page cur s fs =
      (if r = Next then lu_pages body addr (page + 1) cur2 s2 fs2 else Some (r, cur2, s2, fs2))"
    by (subst lu_pages.simps)
      (simp add: matches_fields(1) [OF Suc(3)] loop_bounds(5) pg rd SPIFFS_OK_def e)
  have up: "[cur..<ents conf] = [cur..<stop] @ [max cur stop..<ents conf]"
  proof (cases "cur \<le> stop")
    case True
    then show ?thesis using se upt_add_eq_append [of cur stop "ents conf - stop"] by (simp add: max_def)
  next
    case False
    then show ?thesis using Suc(6) by (simp add: max_def stop_def min_def split: if_splits)
  qed
  show ?case
  proof (cases "r = Next")
    case False
    have "ticks fs2 \<le> ticks fs + (lups conf - page) + (ents conf - cur) * k"
      using m1(2) t2 sk(1) lp by linarith
    then show ?thesis using False step w m2 by (simp add: up walk_append)
  next
    case True
    have nx: "n = lups conf - (page + 1)" "page + 1 \<le> lups conf" using Suc(2) by simp_all
    have cu: "(page + 1) * ?n \<le> cur2 \<or> ents conf \<le> cur2" "cur2 \<le> (page + 1) * ?n + ?n"
      using c2 True Suc(5,6) by (auto simp: stop_def min_def max_def)
    have tk: "ticks fs2 + (lups conf - (page + 1)) + (ents conf - cur2) * k < 2 ^ 32 - 1"
      using Suc(7) m1(2) t2 sk(2) lp c2 [rule_format, OF True] by (simp only: add_Suc_right Suc_eq_plus1 [symmetric])
    from Suc.hyps(1) [OF nx(1) m2 nx(2) cu tk, of s2] obtain r3 s3 p3 fs3 cur3 where
      "walk f (lu_id conf m b) [cur2..<ents conf] s2 p2 = (r3, s3, p3)"
      "lu_pages body addr (page + 1) cur2 s2 fs2 = Some (r3, cur3, s3, fs3)" "matches m p3 fs3"
      and t3: "ticks fs3 \<le> ticks fs2 + (lups conf - (page + 1)) + (ents conf - cur2) * k" by blast
    moreover have "ticks fs3 \<le> ticks fs + (lups conf - page) + (ents conf - cur) * k"
      using t3 m1(2) t2 sk(2) lp c2 [rule_format, OF True] by (simp only: Suc_eq_plus1 [symmetric])
    ultimately show ?thesis using True step w c2 by (simp add: up walk_append)
  qed
qed

end
section \<open>The visitor as a function of the flash contents\<close>

type_synonym ('u, 'p) pure_visitor = "u16 \<Rightarrow> nat \<Rightarrow> nat \<Rightarrow> 'u \<Rightarrow> 'p \<Rightarrow> int \<times> 'u \<times> 'p"

definition visit_step ::
  "u8 \<Rightarrow> u16 \<Rightarrow> ('u, 'p) pure_visitor option \<Rightarrow> nat \<Rightarrow> nat \<Rightarrow> u16 \<Rightarrow> 'u search \<Rightarrow> 'p \<Rightarrow> lu_step \<times> 'u search \<times> 'p"
  where
  "visit_step flags obj_id vp b cur oid s p =
     (if flags AND SPIFFS_VIS_CHECK_ID = 0 \<or> oid = obj_id
      then let s = s\<lparr>at_block := Some (word_of_nat b), at_entry := Some cur\<rparr>
        in case vp of
             None \<Rightarrow> (Halt SPIFFS_OK, s, p)
           | Some f \<Rightarrow>
               (case f (if flags AND SPIFFS_VIS_CHECK_PH \<noteq> 0 then obj_id else oid) b cur (user s) p of
                  (res, u, p) \<Rightarrow>
                    let s = s\<lparr>user := u\<rparr>
                    in if res = SPIFFS_VIS_COUNTINUE then (Next, s\<lparr>entry_count := entry_count s - 1\<rparr>, p)
                       else (Halt res, s, p))
      else (Next, s\<lparr>entry_count := entry_count s - 1\<rparr>, p))"

lemma visit_step_result:
  "visit_step flags obj_id vp b cur oid s p = (r, s', p') \<Longrightarrow>
   (r = Next \<and> entry_count s' = entry_count s - 1) \<or> (\<exists>x. r = Halt x)"
  by (auto simp: visit_step_def Let_def split: if_splits option.splits prod.splits)

lemma walk_visit_result:
  "walk (visit_step flags obj_id vp b) ids es s p = (r, s', p') \<Longrightarrow>
   (r = Next \<and> entry_count s' = entry_count s - int (length es)) \<or> (\<exists>x. r = Halt x)"
proof (induction es arbitrary: s p)
  case (Cons e es)
  obtain r1 s1 p1 where "visit_step flags obj_id vp b e (ids e) s p = (r1, s1, p1)" by (metis prod_cases3)
  with Cons visit_step_result [OF this] show ?case by (fastforce split: if_splits)
qed simp

fun visit_walk ::
  "u8 \<Rightarrow> u16 \<Rightarrow> ('u, 'p) pure_visitor option \<Rightarrow> (nat \<Rightarrow> nat \<Rightarrow> u16) \<Rightarrow> nat \<Rightarrow> nat list \<Rightarrow> 'u search \<Rightarrow> 'p \<Rightarrow>
   int \<times> 'u search \<times> 'p" where
  "visit_walk flags obj_id vp ids n [] s p = (SPIFFS_VIS_END, s, p)"
| "visit_walk flags obj_id vp ids n (b # bs) s p =
     (if entry_count s > 0
      then case walk (visit_step flags obj_id vp b) (ids b) [0..<n] s p of
             (Halt x, s, p) \<Rightarrow> (x, s, p)
           | (_, s, p) \<Rightarrow> visit_walk flags obj_id vp ids n bs s p
      else (SPIFFS_VIS_END, s, p))"

text \<open>The id a search passes to its visitor for every entry.\<close>

definition sought_id :: "u8 \<Rightarrow> u16 \<Rightarrow> u16 option" where
  "sought_id flags obj_id = (if flags AND SPIFFS_VIS_CHECK_PH \<noteq> 0 then Some obj_id else None)"

context spiffs_flash
begin

text \<open>A visitor that behaves like the function \<open>vp\<close> when it gets the id of the entry, or the one it gets
  for every entry, with at most \<open>k\<close> accesses to flash.\<close>

definition visitor_ok ::
  "(nat \<Rightarrow> u8) \<Rightarrow> nat \<Rightarrow> u16 option \<Rightarrow> ('u, 'd spiffs) pure_visitor \<Rightarrow> ('u, 'd) visitor \<Rightarrow> bool" where
  "visitor_ok m k sought vp v \<longleftrightarrow> (\<forall>oid b e u p fs. matches m p fs \<and> b < blks conf \<and> e < ents conf \<and>
     (oid = lu_id conf m b e \<or> sought = Some oid) \<and> ticks fs + k < 2 ^ 32 - 1 \<longrightarrow>
     (case vp oid b e u p of (res, u', p') \<Rightarrow> res \<noteq> SPIFFS_VIS_COUNTINUE_RELOAD \<and>
        (\<exists>fs'. v fs oid (word_of_nat b) e u = Some (res, u', fs') \<and> matches m p' fs' \<and>
          lu_work fs' = lu_work fs \<and> ticks fs' \<le> ticks fs + k)))"

lemma visit_entry_ok:
  assumes "rel_option (visitor_ok m k (sought_id flags obj_id)) vp v" "b < blks conf"
  shows "body_ok m b k (visit_step flags obj_id vp b) (visit_entry flags obj_id v (word_of_nat b) addr)"
  unfolding body_ok_def
proof (intro allI impI, elim conjE)
  fix page cur s p fs
  assume m: "matches m p fs" and c: "page < lups conf" "cur < ents conf"
    and w: "lu_work fs = lu_page m b page" and t: "ticks fs + k < 2 ^ 32 - 1"
  let ?id = "lu_id conf m b cur"
  show "case visit_step flags obj_id vp b cur ?id s p of (r, s', p') \<Rightarrow>
      \<exists>fs'. visit_entry flags obj_id v (word_of_nat b) addr page cur ?id s fs = Some (r, s', fs') \<and>
        matches m p' fs' \<and> lu_work fs' = lu_page m b page \<and> ticks fs' \<le> ticks fs + k"
  proof (cases "flags AND SPIFFS_VIS_CHECK_ID = 0 \<or> ?id = obj_id")
    case False
    then show ?thesis using m w by (simp add: visit_step_def visit_entry_def)
  next
    case True
    show ?thesis
    proof (cases v)
      case None
      with assms(1) have "vp = None" by simp
      then show ?thesis using True None m w by (simp add: visit_step_def visit_entry_def)
    next
      case (Some f)
      with assms(1) obtain g where g: "vp = Some g" "visitor_ok m k (sought_id flags obj_id) g f"
        by (auto simp: option_rel_Some2)
      let ?oid = "if flags AND SPIFFS_VIS_CHECK_PH \<noteq> 0 then obj_id else ?id"
      obtain res u' p' where gr: "g ?oid b cur (user s) p = (res, u', p')" by (metis prod_cases3)
      have "?oid = ?id \<or> sought_id flags obj_id = Some ?oid" by (simp add: sought_id_def)
      with g(2) [unfolded visitor_ok_def, rule_format, of p fs b cur ?oid "user s"] m c(2) assms(2) t gr
      obtain fs' where "res \<noteq> SPIFFS_VIS_COUNTINUE_RELOAD" "f fs ?oid (word_of_nat b) cur (user s) = Some (res, u', fs')"
        "matches m p' fs'" "lu_work fs' = lu_work fs" "ticks fs' \<le> ticks fs + k" by auto
      then show ?thesis
        using True Some g(1) gr w by (simp add: visit_step_def visit_entry_def Let_def)
    qed
  qed
qed

lemma block_addr_next:
  assumes "Suc b < blks conf" "unat addr = b * (ppb conf * psz conf)"
  shows "unat (addr + log_block_size conf) = Suc b * (ppb conf * psz conf)"
proof -
  have "Suc b * (ppb conf * psz conf) \<le> blks conf * (ppb conf * psz conf)"
    using assms(1) by (intro mult_le_mono1) simp
  then show ?thesis
    using geometry_facts(8) [OF g] assms(2)
    by (subst unat_add_no_wrap) (simp_all add: geometry_facts(3) [OF g])
qed

lemma blks_bound: "blks conf \<le> 65535"
proof -
  have "blks conf * 1 \<le> blks conf * ppb conf" using geometry_facts(5) [OF g] by (intro mult_le_mono2) simp
  then show ?thesis using geometry_facts(7) [OF g] by linarith
qed

text \<open>One block of the visit: the walk over its entries, then the next block, with wrap-around.\<close>

lemma visit_block_step:
  assumes v: "rel_option (visitor_ok m k (sought_id flags obj_id)) vp v" and b: "b < blks conf" "unat addr = b * (ppb conf * psz conf)"
    and m: "matches m p fs" and c: "entry_count s > 0" and e: "e \<le> ents conf"
    and t: "ticks fs + lups conf + (ents conf - e) * k < 2 ^ 32 - 1"
    and nw: "flags AND SPIFFS_VIS_NO_WRAP = 0"
  shows "\<exists>r s' p' fs'. walk (visit_step flags obj_id vp b) (lu_id conf m b) [e..<ents conf] s p = (r, s', p') \<and>
    matches m p' fs' \<and> ticks fs' \<le> ticks fs + lups conf + (ents conf - e) * k \<and>
    visit_blocks flags obj_id v (word_of_nat b) addr e s fs =
      (case r of Halt x \<Rightarrow> Some (x, s', fs')
       | _ \<Rightarrow> visit_blocks flags obj_id v (word_of_nat (Suc b mod blks conf))
               (if Suc b = blks conf then 0 else addr + log_block_size conf) 0 s' fs')"
proof -
  let ?n = "entries_per_page conf"
  have pg: "e div ?n \<le> lups conf" "e div ?n * ?n \<le> e" "e \<le> e div ?n * ?n + ?n"
  proof -
    show "e div ?n * ?n \<le> e" by simp
    show "e \<le> e div ?n * ?n + ?n" using loop_bounds(4) by (metis div_mult_mod_eq mod_less_divisor less_imp_le nat_add_left_cancel_le)
    have "e div ?n < lups conf" using e ents_fit loop_bounds(4) by (intro div_less_iff_less_mult [THEN iffD2]) simp_all
    then show "e div ?n \<le> lups conf" by simp
  qed
  have t': "ticks fs + (lups conf - e div ?n) + (ents conf - e) * k < 2 ^ 32 - 1" using t by linarith
  from pages_walk [OF visit_entry_ok [OF v b(1), of addr] b m pg(1) disjI1 [OF pg(2)] pg(3) t', of s]
  obtain r s1 p1 fs1 cur where w: "walk (visit_step flags obj_id vp b) (lu_id conf m b) [e..<ents conf] s p = (r, s1, p1)"
    and l: "lu_pages (visit_entry flags obj_id v (word_of_nat b) addr) addr (e div ?n) e s fs = Some (r, cur, s1, fs1)"
    and m1: "matches m p1 fs1" and t1: "ticks fs1 \<le> ticks fs + (lups conf - e div ?n) + (ents conf - e) * k" by blast
  have r: "r = Next \<or> (\<exists>x. r = Halt x)" using walk_visit_result [OF w] by blast
  have nb1: "unat (block_count fs1) = blks conf" by (rule matches_fields(8) [OF m1])
  have sb: "Suc b < 65536" using b(1) blks_bound by simp
  then have u: "unat (ucast (word_of_nat b + 1 :: u16) :: u32) = Suc b"
    by (simp add: unsigned_ucast_eq unat_word_ariths unat_of_nat take_bit_nat_eq_self)
  have wrap: "block_count fs1 \<le> ucast (word_of_nat b + 1 :: u16) \<longleftrightarrow> Suc b = blks conf"
    using b(1) by (simp add: word_le_nat_alt u nb1) arith
  have step: "visit_blocks flags obj_id v (word_of_nat b) addr e s fs =
      (case r of Halt x \<Rightarrow> Some (x, s1, fs1)
       | _ \<Rightarrow> visit_blocks flags obj_id v (word_of_nat (Suc b mod blks conf))
               (if Suc b = blks conf then 0 else addr + log_block_size conf) 0 s1 fs1)"
    using r c nw b(1)
    by (subst visit_blocks.simps)
      (auto simp: matches_fields(1) [OF m] matches_fields(1) [OF m1] l wrap
        wrap [unfolded add.commute [of _ 1]] SPIFFS_OK_def Let_def add.commute)
  have "ticks fs1 \<le> ticks fs + lups conf + (ents conf - e) * k" using t1 by linarith
  with w m1 step show ?thesis by blast
qed

text \<open>The blocks after \<open>b\<close>, in the order of the visit.\<close>

definition blocks_from :: "nat \<Rightarrow> nat \<Rightarrow> nat list" where
  "blocks_from b n = map (\<lambda>i. (b + i) mod blks conf) [0..<n]"

lemma blocks_from_Suc:
  "b < blks conf \<Longrightarrow> blocks_from b (Suc n) = b # blocks_from (Suc b mod blks conf) n"
  by (simp add: blocks_from_def map_upt_Suc mod_add_left_eq del: upt_Suc)

lemma set_blocks_from:
  assumes "b < blks conf"
  shows "set (blocks_from b (blks conf)) = {0..<blks conf}"
proof -
  have "c \<in> set (blocks_from b (blks conf))" if "c < blks conf" for c
  proof -
    let ?i = "(c + (blks conf - b)) mod blks conf"
    have "(b + ?i) mod blks conf = (b + (c + (blks conf - b))) mod blks conf" by (simp add: mod_add_right_eq)
    also have "b + (c + (blks conf - b)) = c + blks conf" using assms by simp
    finally have "(b + ?i) mod blks conf = c" using that by simp
    moreover have "?i < blks conf" using that by simp
    ultimately show ?thesis unfolding blocks_from_def by force
  qed
  then show ?thesis using assms by (auto simp: blocks_from_def)
qed

definition block_addr :: "nat \<Rightarrow> u32" where
  "block_addr b = word_of_nat (b * (ppb conf * psz conf))"

lemma unat_block_addr: "b < blks conf \<Longrightarrow> unat (block_addr b) = b * (ppb conf * psz conf)"
proof -
  assume "b < blks conf"
  then have "b * (ppb conf * psz conf) \<le> blks conf * (ppb conf * psz conf)" by (intro mult_le_mono1) simp
  then have "b * (ppb conf * psz conf) < 2 ^ 32" using geometry_facts(8) [OF g] by linarith
  then show ?thesis unfolding block_addr_def by (rule unat_word_of_nat_u32)
qed

lemma next_block_addr:
  assumes "b < blks conf"
  shows "(if Suc b = blks conf then 0 else block_addr b + log_block_size conf) = block_addr (Suc b mod blks conf)"
proof (cases "Suc b = blks conf")
  case False
  then have "Suc b < blks conf" using assms by simp
  from block_addr_next [OF this unat_block_addr [OF assms]] unat_block_addr [OF this]
  have "block_addr b + log_block_size conf = block_addr (Suc b)" by (metis word_unat_eq_iff)
  then show ?thesis using False \<open>Suc b < blks conf\<close> by simp
qed (simp add: block_addr_def)

text \<open>The whole visit from the beginning of a block on.\<close>

lemma visit_rounds:
  assumes v: "rel_option (visitor_ok m k (sought_id flags obj_id)) vp v" and nw: "flags AND SPIFFS_VIS_NO_WRAP = 0"
    and "b < blks conf" "matches m p fs" "entry_count s \<le> int (n * ents conf)"
    and "ticks fs + n * (lups conf + ents conf * k) < 2 ^ 32 - 1"
  shows "\<exists>x s' p' fs'. visit_walk flags obj_id vp (lu_id conf m) (ents conf) (blocks_from b n) s p = (x, s', p') \<and>
    visit_blocks flags obj_id v (word_of_nat b) (block_addr b) 0 s fs = Some (x, s', fs') \<and> matches m p' fs' \<and>
    ticks fs' \<le> ticks fs + n * (lups conf + ents conf * k)"
  using assms(3-6)
proof (induction n arbitrary: b s p fs)
  case 0
  then have "visit_blocks flags obj_id v (word_of_nat b) (block_addr b) 0 s fs = Some (SPIFFS_VIS_END, s, fs)"
    by (subst visit_blocks.simps) simp
  then show ?case using 0(2) by (simp add: blocks_from_def)
next
  case (Suc n)
  show ?case
  proof (cases "entry_count s > 0")
    case False
    then have "visit_blocks flags obj_id v (word_of_nat b) (block_addr b) 0 s fs = Some (SPIFFS_VIS_END, s, fs)"
      by (subst visit_blocks.simps) simp
    then show ?thesis using False Suc(3) by (simp add: blocks_from_Suc [OF Suc(2)])
  next
    case True
    have "ticks fs + lups conf + (ents conf - 0) * k < 2 ^ 32 - 1" using Suc(5) by simp
    from visit_block_step [OF v Suc(2) unat_block_addr [OF Suc(2)] Suc(3) True _ this nw]
    obtain r s1 p1 fs1 where w: "walk (visit_step flags obj_id vp b) (lu_id conf m b) [0..<ents conf] s p = (r, s1, p1)"
      and m1: "matches m p1 fs1" and t1: "ticks fs1 \<le> ticks fs + lups conf + ents conf * k"
      and st: "visit_blocks flags obj_id v (word_of_nat b) (block_addr b) 0 s fs =
        (case r of Halt x \<Rightarrow> Some (x, s1, fs1)
         | _ \<Rightarrow> visit_blocks flags obj_id v (word_of_nat (Suc b mod blks conf)) (block_addr (Suc b mod blks conf)) 0 s1 fs1)"
      unfolding next_block_addr [OF Suc(2)] by auto
    from walk_visit_result [OF w] show ?thesis
    proof (elim disjE exE conjE)
      fix x assume "r = Halt x"
      then show ?thesis using True w m1 t1 st by (simp add: blocks_from_Suc [OF Suc(2)])
    next
      assume r: "r = Next" and c: "entry_count s1 = entry_count s - int (length [0..<ents conf])"
      have "Suc b mod blks conf < blks conf" using Suc(2) by simp
      moreover have "entry_count s1 \<le> int (n * ents conf)" using c Suc(4) by simp
      moreover have "ticks fs1 + n * (lups conf + ents conf * k) < 2 ^ 32 - 1" using t1 Suc(5) by simp
      ultimately obtain x s2 p2 fs2 where
        "visit_walk flags obj_id vp (lu_id conf m) (ents conf) (blocks_from (Suc b mod blks conf) n) s1 p1 = (x, s2, p2)"
        "visit_blocks flags obj_id v (word_of_nat (Suc b mod blks conf)) (block_addr (Suc b mod blks conf)) 0 s1 fs1 =
          Some (x, s2, fs2)" "matches m p2 fs2" "ticks fs2 \<le> ticks fs1 + n * (lups conf + ents conf * k)"
        using Suc.IH [OF _ m1] by blast
      then show ?thesis using True r w t1 st by (simp add: blocks_from_Suc [OF Suc(2)])
    qed
  qed
qed

end
section \<open>Searches from a cursor\<close>

text \<open>Where a search that starts at \<open>(b, e)\<close> really starts.\<close>

definition search_start :: "'d spiffs_config \<Rightarrow> nat \<Rightarrow> nat \<Rightarrow> nat \<times> nat" where
  "search_start conf b e = (if ents conf \<le> e + 1 then (Suc b mod blks conf, 0) else (b, e))"

text \<open>Page reads of a walk over all blocks whose visitor needs \<open>k\<close> of them for an entry.\<close>

definition walk_cost :: "'d spiffs_config \<Rightarrow> nat \<Rightarrow> nat" where
  "walk_cost conf k = (blks conf + 1) * (lups conf + ents conf * k)"

context spiffs_flash
begin

definition lookup_visit ::
  "u8 \<Rightarrow> u16 \<Rightarrow> ('u, 'p) pure_visitor option \<Rightarrow> (nat \<Rightarrow> u8) \<Rightarrow> nat \<times> nat \<Rightarrow> 'u search \<Rightarrow> 'p \<Rightarrow> int \<times> 'u search \<times> 'p"
  where
  "lookup_visit flags obj_id vp m be s p =
     (case walk (visit_step flags obj_id vp (fst be)) (lu_id conf m (fst be)) [snd be..<ents conf] s p of
        (Halt x, s, p) \<Rightarrow> (x, s, p)
      | (_, s, p) \<Rightarrow> visit_walk flags obj_id vp (lu_id conf m) (ents conf)
          (blocks_from (Suc (fst be) mod blks conf) (blks conf)) s p)"

abbreviation search_cost :: "nat \<Rightarrow> nat" where
  "search_cost \<equiv> walk_cost conf"

definition init_search :: "'u \<Rightarrow> 'u search" where
  "init_search u = \<lparr>entry_count = int (blks conf * ents conf), at_block = None, at_entry = None, user = u\<rparr>"

lemma ents_pos: "0 < ents conf"
  using geometry_facts(10) [OF g] by (simp add: ents_def)

lemma initial_entry_count:
  assumes "matches m p fs"
  shows "sint (block_count fs * SPIFFS_OBJ_LOOKUP_MAX_ENTRIES (cfg fs)) = int (blks conf * ents conf)"
proof -
  have "blks conf * ents conf \<le> blks conf * ppb conf" by (intro mult_le_mono2) (simp add: ents_def)
  then have l: "blks conf * ents conf \<le> 65535" using geometry_facts(7) [OF g] by (rule le_trans)
  have "unat (block_count fs * SPIFFS_OBJ_LOOKUP_MAX_ENTRIES conf) = blks conf * ents conf"
    using l by (subst unat_mult_no_wrap) (simp_all add: matches_fields(8) [OF assms] unat_max_entries)
  then have "block_count fs * SPIFFS_OBJ_LOOKUP_MAX_ENTRIES conf = word_of_nat (blks conf * ents conf)"
    using l unfolding word_unat_eq_iff by (subst unat_word_of_nat_u32) (simp_all del: of_nat_mult)
  then have "block_count fs * SPIFFS_OBJ_LOOKUP_MAX_ENTRIES conf = word_of_int (int (blks conf * ents conf))"
    by (simp del: of_nat_mult)
  moreover have "s32_range (int (blks conf * ents conf))" using l by (simp add: s32_range_def del: of_nat_mult)
  ultimately show ?thesis unfolding matches_fields(1) [OF assms] using sint_word_of_int_s32 by metis
qed

theorem find_entry_visitor_ok:
  fixes u :: 'u
  assumes v: "rel_option (visitor_ok m k (sought_id flags obj_id)) vp v" and nw: "flags AND SPIFFS_VIS_NO_WRAP = 0"
    and b: "b < blks conf" and m: "matches m p fs" and t: "ticks fs + search_cost k < 2 ^ 32 - 1"
  shows "\<exists>x s' p' fs'. lookup_visit flags obj_id vp m (search_start conf b e) (init_search u) p = (x, s', p') \<and>
    spiffs_obj_lu_find_entry_visitor fs (word_of_nat b) e flags obj_id v u = Some (x, s', fs') \<and>
    matches m p' fs' \<and> ticks fs' \<le> ticks fs + search_cost k"
proof -
  obtain b1 e1 where s: "search_start conf b e = (b1, e1)" by fastforce
  have b1: "b1 < blks conf" "e1 \<le> ents conf"
    using s b by (auto simp: search_start_def split: if_splits)
  have sb: "Suc b < 65536" using b blks_bound by simp
  then have u1: "unat (ucast (word_of_nat b + 1 :: u16) :: u32) = Suc b"
    by (simp add: unsigned_ucast_eq unat_word_ariths unat_of_nat take_bit_nat_eq_self)
  have wrap: "block_count fs \<le> ucast (word_of_nat b + 1 :: u16) \<longleftrightarrow> Suc b = blks conf"
    using b by (simp add: word_le_nat_alt u1 matches_fields(8) [OF m]) arith
  have addr: "ucast (word_of_nat c :: u16) * log_block_size conf = block_addr c" if "c < blks conf" for c
  proof -
    have "unat (ucast (word_of_nat c :: u16) :: u32) = c"
      using that blks_bound by (simp add: unsigned_ucast_eq unat_of_nat take_bit_nat_eq_self)
    moreover have "c * (ppb conf * psz conf) < 2 ^ 32"
      using mult_le_of_le [OF that, of "ppb conf * psz conf"] geometry_facts(8) [OF g] by linarith
    ultimately show ?thesis
      unfolding word_unat_eq_iff unat_block_addr [OF that]
      by (subst unat_mult_no_wrap) (simp_all add: geometry_facts(3) [OF g])
  qed
  note ic = initial_entry_count [OF m, unfolded matches_fields(1) [OF m]]
  have start: "spiffs_obj_lu_find_entry_visitor fs (word_of_nat b) e flags obj_id v u =
      visit_blocks flags obj_id v (word_of_nat b1) (block_addr b1) e1 (init_search u) fs"
  proof (cases "ents conf \<le> e + 1")
    case False
    then have "b1 = b" "e1 = e" using s by (simp_all add: search_start_def)
    then show ?thesis
      using False nw addr [OF b]
      by (simp add: spiffs_obj_lu_find_entry_visitor_def init_search_def ic
          matches_fields(1) [OF m] loop_bounds(2) Let_def del: of_nat_mult)
  next
    case True
    then have be: "b1 = Suc b mod blks conf" "e1 = 0" using s by (simp_all add: search_start_def)
    show ?thesis
    proof (cases "Suc b = blks conf")
      case T: True
      then show ?thesis
        using True nw be wrap
        by (simp add: spiffs_obj_lu_find_entry_visitor_def init_search_def ic
            matches_fields(1) [OF m] loop_bounds(2) Let_def block_addr_def del: of_nat_mult)
    next
      case F: False
      then have "Suc b < blks conf" using b by simp
      moreover have "(word_of_nat b + 1 :: u16) = word_of_nat (Suc b)" by simp
      ultimately show ?thesis
        using True F nw be wrap addr [of "Suc b"]
        by (simp only: spiffs_obj_lu_find_entry_visitor_def init_search_def ic
            matches_fields(1) [OF m] loop_bounds(2) Let_def if_True if_False simp_thms mod_less)
    qed
  qed
  let ?k = "lups conf + ents conf * k"
  have sc: "search_cost k = ?k + blks conf * ?k" by (simp add: walk_cost_def)
  have ek: "(ents conf - e1) * k \<le> ents conf * k" by (intro mult_le_mono1) simp
  have pos: "entry_count (init_search u) > 0"
    using ents_pos geometry_facts(6) [OF g] by (simp add: init_search_def)
  have "ticks fs + lups conf + (ents conf - e1) * k < 2 ^ 32 - 1" using t sc ek by linarith
  from visit_block_step [OF v b1(1) unat_block_addr [OF b1(1)] m pos b1(2) this nw]
  obtain r s1 p1 fs1 where w: "walk (visit_step flags obj_id vp b1) (lu_id conf m b1) [e1..<ents conf] (init_search u) p =
      (r, s1, p1)" and m1: "matches m p1 fs1"
    and t1: "ticks fs1 \<le> ticks fs + lups conf + (ents conf - e1) * k"
    and st: "visit_blocks flags obj_id v (word_of_nat b1) (block_addr b1) e1 (init_search u) fs =
      (case r of Halt x \<Rightarrow> Some (x, s1, fs1)
       | _ \<Rightarrow> visit_blocks flags obj_id v (word_of_nat (Suc b1 mod blks conf)) (block_addr (Suc b1 mod blks conf)) 0 s1 fs1)"
    unfolding next_block_addr [OF b1(1)] by blast
  from walk_visit_result [OF w] show ?thesis
  proof (elim disjE exE conjE)
    fix x assume "r = Halt x"
    moreover have "ticks fs1 \<le> ticks fs + search_cost k" using t1 sc ek by linarith
    ultimately show ?thesis using w m1 st by (simp add: start s lookup_visit_def)
  next
    assume r: "r = Next" and c: "entry_count s1 = entry_count (init_search u) - int (length [e1..<ents conf])"
    have nb: "Suc b1 mod blks conf < blks conf" using b1 by simp
    have cc: "entry_count s1 \<le> int (blks conf * ents conf)" using c by (simp add: init_search_def)
    have tt: "ticks fs1 + blks conf * ?k < 2 ^ 32 - 1" using t1 t sc ek by linarith
    from visit_rounds [OF v nw nb m1 cc tt] obtain x s2 p2 fs2 where
      "visit_walk flags obj_id vp (lu_id conf m) (ents conf) (blocks_from (Suc b1 mod blks conf) (blks conf)) s1 p1 = (x, s2, p2)"
      "visit_blocks flags obj_id v (word_of_nat (Suc b1 mod blks conf)) (block_addr (Suc b1 mod blks conf)) 0 s1 fs1 = Some (x, s2, fs2)"
      "matches m p2 fs2" "ticks fs2 \<le> ticks fs1 + blks conf * ?k" by blast
    moreover have "ticks fs1 + blks conf * ?k \<le> ticks fs + search_cost k" using t1 sc ek by linarith
    ultimately show ?thesis using r w st by (simp add: start s lookup_visit_def)
  qed
qed

text \<open>Without a visitor the search finds the first entry with the id.\<close>

lemma visit_step_find:
  "visit_step SPIFFS_VIS_CHECK_ID obj_id None b cur oid s p =
     (if oid = obj_id then (Halt SPIFFS_OK, s\<lparr>at_block := Some (word_of_nat b), at_entry := Some cur\<rparr>, p)
      else (Next, s\<lparr>entry_count := entry_count s - 1\<rparr>, p))"
  by (simp add: visit_step_def SPIFFS_VIS_CHECK_ID_def)

lemma find_walk:
  "walk (visit_step SPIFFS_VIS_CHECK_ID obj_id None b) ids es s p = (r, s', p') \<Longrightarrow>
   p' = p \<and> (r = Next \<and> (\<forall>e \<in> set es. ids e \<noteq> obj_id) \<and> entry_count s' = entry_count s - int (length es) \<or>
     r = Halt SPIFFS_OK \<and> at_block s' = Some (word_of_nat b) \<and>
       (\<exists>e \<in> set es. at_entry s' = Some e \<and> ids e = obj_id))"
proof (induction es arbitrary: s p)
  case (Cons e es)
  show ?case
  proof (cases "ids e = obj_id")
    case True
    then show ?thesis using Cons.prems by (auto simp: visit_step_find)
  next
    case False
    then have "walk (visit_step SPIFFS_VIS_CHECK_ID obj_id None b) ids es (s\<lparr>entry_count := entry_count s - 1\<rparr>) p =
        (r, s', p')"
      using Cons.prems by (simp add: visit_step_find [of obj_id b e "ids e" s p])
    from Cons.IH [OF this] False show ?thesis by auto
  qed
qed simp

lemma find_visit_walk:
  "visit_walk SPIFFS_VIS_CHECK_ID obj_id None ids n bs s p = (x, s', p') \<Longrightarrow>
   p' = p \<and> (x = SPIFFS_VIS_END \<and>
       (\<forall>i < length bs. int (i * n) < entry_count s \<longrightarrow> (\<forall>e < n. ids (bs ! i) e \<noteq> obj_id)) \<or>
     x = SPIFFS_OK \<and> (\<exists>b \<in> set bs. \<exists>e < n. at_block s' = Some (word_of_nat b) \<and> at_entry s' = Some e \<and>
       ids b e = obj_id))"
proof (induction bs arbitrary: s p)
  case (Cons b bs)
  show ?case
  proof (cases "entry_count s > 0")
    case False
    then have "\<not> int (i * n) < entry_count s" for i by (simp add: not_less order.trans)
    then show ?thesis using Cons.prems False by auto
  next
    case True
    obtain r s1 p1 where w: "walk (visit_step SPIFFS_VIS_CHECK_ID obj_id None b) (ids b) [0..<n] s p = (r, s1, p1)"
      by (metis prod_cases3)
    from find_walk [OF w] show ?thesis
    proof (elim conjE disjE)
      assume r: "p1 = p" "r = Next" and none: "\<forall>e \<in> set [0..<n]. ids b e \<noteq> obj_id"
        and c: "entry_count s1 = entry_count s - int (length [0..<n])"
      have ih: "visit_walk SPIFFS_VIS_CHECK_ID obj_id None ids n bs s1 p = (x, s', p')"
        using Cons.prems True w r by simp
      have "\<forall>i < length (b # bs). int (i * n) < entry_count s \<longrightarrow> (\<forall>e < n. ids ((b # bs) ! i) e \<noteq> obj_id)"
        if "\<forall>i < length bs. int (i * n) < entry_count s1 \<longrightarrow> (\<forall>e < n. ids (bs ! i) e \<noteq> obj_id)"
      proof (intro allI impI)
        fix i e assume "i < length (b # bs)" "int (i * n) < entry_count s" "e < n"
        then show "ids ((b # bs) ! i) e \<noteq> obj_id"
          using that none c by (cases i) (auto simp: distrib_right)
      qed
      then show ?thesis using Cons.IH [OF ih] by auto
    next
      assume "p1 = p" "r = Halt SPIFFS_OK" "at_block s1 = Some (word_of_nat b)"
        "\<exists>e \<in> set [0..<n]. at_entry s1 = Some e \<and> ids b e = obj_id"
      then show ?thesis using Cons.prems True w by auto
    qed
  qed
qed simp

theorem find_id_ok:
  assumes b: "b < blks conf" and m: "matches m p fs" and t: "ticks fs + search_cost 0 < 2 ^ 32 - 1"
  shows "\<exists>res bo eo fs'. spiffs_obj_lu_find_id fs (word_of_nat b) e obj_id = Some (res, bo, eo, fs') \<and>
    matches m p fs' \<and> ticks fs' \<le> ticks fs + search_cost 0 \<and>
    (res = SPIFFS_OK \<and> (\<exists>b' < blks conf. \<exists>e' < ents conf. bo = Some (word_of_nat b') \<and> eo = Some e' \<and>
        lu_id conf m b' e' = obj_id) \<or>
     res = SPIFFS_ERR_NOT_FOUND \<and> (\<forall>b' < blks conf. \<forall>e' < ents conf. lu_id conf m b' e' \<noteq> obj_id))"
proof -
  have nw: "SPIFFS_VIS_CHECK_ID AND SPIFFS_VIS_NO_WRAP = 0"
    by (simp add: SPIFFS_VIS_CHECK_ID_def SPIFFS_VIS_NO_WRAP_def)
  have v: "rel_option (visitor_ok m 0 (sought_id SPIFFS_VIS_CHECK_ID obj_id)) (None :: (unit, 'd spiffs) pure_visitor option) None" by simp
  obtain b1 e1 where s: "search_start conf b e = (b1, e1)" by fastforce
  have b1: "b1 < blks conf" "e1 < ents conf"
    using s b ents_pos by (auto simp: search_start_def split: if_splits)
  from find_entry_visitor_ok [OF v nw b m t, of e "()"] obtain x s' p' fs' where
    l: "lookup_visit SPIFFS_VIS_CHECK_ID obj_id None m (b1, e1) (init_search ()) p = (x, s', p')"
    and f: "spiffs_obj_lu_find_entry_visitor fs (word_of_nat b) e SPIFFS_VIS_CHECK_ID obj_id None () = Some (x, s', fs')"
    and m': "matches m p' fs'" "ticks fs' \<le> ticks fs + search_cost 0" unfolding s by blast
  have find: "spiffs_obj_lu_find_id fs (word_of_nat b) e obj_id =
      Some (if x = SPIFFS_VIS_END then SPIFFS_ERR_NOT_FOUND else x, at_block s', at_entry s', fs')"
    by (simp add: spiffs_obj_lu_find_id_def f)
  have ne: "SPIFFS_OK \<noteq> SPIFFS_VIS_END" by (simp add: SPIFFS_OK_def SPIFFS_VIS_END_def SPIFFS_ERR_INTERNAL_def)
  obtain r s1 p1 where w: "walk (visit_step SPIFFS_VIS_CHECK_ID obj_id None b1) (lu_id conf m b1) [e1..<ents conf]
      (init_search ()) p = (r, s1, p1)" by (metis prod_cases3)
  from find_walk [OF w] show ?thesis
  proof (elim conjE disjE)
    assume "p1 = p" "r = Halt SPIFFS_OK" "at_block s1 = Some (word_of_nat b1)"
      "\<exists>e \<in> set [e1..<ents conf]. at_entry s1 = Some e \<and> lu_id conf m b1 e = obj_id"
    moreover from this have "x = SPIFFS_OK" "s' = s1" "p' = p" using l w by (simp_all add: lookup_visit_def)
    ultimately show ?thesis using find m' b1 ne by auto
  next
    assume r: "p1 = p" "r = Next" and none: "\<forall>e \<in> set [e1..<ents conf]. lu_id conf m b1 e \<noteq> obj_id"
      and c: "entry_count s1 = entry_count (init_search ()) - int (length [e1..<ents conf])"
    let ?bs = "blocks_from (Suc b1 mod blks conf) (blks conf)"
    have nb: "Suc b1 mod blks conf < blks conf" using b1 by simp
    have "visit_walk SPIFFS_VIS_CHECK_ID obj_id None (lu_id conf m) (ents conf) ?bs s1 p = (x, s', p')"
      using l w r by (simp add: lookup_visit_def)
    from find_visit_walk [OF this] show ?thesis
    proof (elim conjE disjE)
      assume x: "p' = p" "x = SPIFFS_VIS_END"
        and nf: "\<forall>i<length ?bs. int (i * ents conf) < entry_count s1 \<longrightarrow>
          (\<forall>e<ents conf. lu_id conf m (?bs ! i) e \<noteq> obj_id)"
      have "lu_id conf m b' e' \<noteq> obj_id" if "b' < blks conf" "e' < ents conf" for b' e'
      proof (cases "b' = b1 \<and> e1 \<le> e'")
        case True
        then show ?thesis using none that by simp
      next
        case False
        have "b' \<in> set ?bs" using set_blocks_from [OF nb] that(1) by simp
        then obtain i where i: "i < blks conf" "?bs ! i = b'" by (auto simp: in_set_conv_nth blocks_from_def)
        have "int (i * ents conf) < entry_count s1"
        proof (cases "Suc i < blks conf")
          case True
          have "i * ents conf + ents conf \<le> (blks conf - 1) * ents conf"
            using True by (intro mult_le_of_le) simp
          moreover have "(blks conf - 1) * ents conf + ents conf = blks conf * ents conf"
            using True by (simp add: algebra_simps)
          ultimately show ?thesis using c b1(2) by (simp add: init_search_def del: of_nat_mult)
        next
          case False
          then have "Suc i = blks conf" using i(1) by simp
          then have "Suc (b1 + i) = b1 + blks conf" by simp
          then have "Suc (b1 + i) mod blks conf = b1" using b1(1) by (metis mod_add_self2 mod_less)
          then have "b' = b1" using i by (simp add: blocks_from_def mod_add_left_eq)
          then have "0 < e1" using \<open>\<not> (b' = b1 \<and> e1 \<le> e')\<close> by simp
          moreover have "i * ents conf + ents conf = blks conf * ents conf"
            using \<open>Suc i = blks conf\<close> by (metis add.commute mult_Suc)
          ultimately show ?thesis using c b1(2) by (simp add: init_search_def del: of_nat_mult)
        qed
        then show ?thesis using nf i that(2) by (auto simp: blocks_from_def)
      qed
      then show ?thesis using find m' x by auto
    next
      assume x: "p' = p" "x = SPIFFS_OK" and f: "\<exists>b\<in>set ?bs. \<exists>e<ents conf. at_block s' = Some (word_of_nat b) \<and>
          at_entry s' = Some e \<and> lu_id conf m b e = obj_id"
      then show ?thesis using find m' ne set_blocks_from [OF nb] by auto
    qed
  qed
qed

end
section \<open>Properties\<close>

text \<open>C19 (termination). On a mounted file system the search for an object id always returns, whatever
  entry it starts at and however the lookup pages are filled: with \<^verbatim>\<open>SPIFFS_OK\<close> and an entry that holds
  the id when some entry of some block does, and with \<^verbatim>\<open>SPIFFS_ERR_NOT_FOUND\<close> only when none does.  It
  leaves the flash unchanged and needs at most one page read per lookup page and block visited.\<close>

theorem find_id_sound_complete:
  assumes "spiffs_flash conf view lo hi" "ready conf (view (dev fs)) fs"
    and "unat (block_count fs) = blks conf" "unat b < blks conf"
    and "ticks fs + walk_cost conf 0 < 2 ^ 32 - 1"
  shows "\<exists>res bo eo fs'. spiffs_obj_lu_find_id fs b e obj_id = Some (res, bo, eo, fs') \<and>
    view (dev fs') = view (dev fs) \<and> ready conf (view (dev fs')) fs' \<and> ticks fs' \<le> ticks fs + walk_cost conf 0 \<and>
    (res = SPIFFS_OK \<and> (\<exists>b' < blks conf. \<exists>e' < ents conf. bo = Some (word_of_nat b') \<and> eo = Some e' \<and>
        lu_id conf (view (dev fs)) b' e' = obj_id) \<or>
     res = SPIFFS_ERR_NOT_FOUND \<and> (\<forall>b' < blks conf. \<forall>e' < ents conf. lu_id conf (view (dev fs)) b' e' \<noteq> obj_id))"
proof -
  note fs = spiffs_flash.matches_refl [OF assms(1-3)]
  have "word_of_nat (unat b) = b" by simp
  with spiffs_flash.find_id_ok [OF assms(1,4) fs assms(5), of e obj_id] show ?thesis
    by (auto simp: spiffs_flash.matches_def [OF assms(1)])
qed

theorem find_id_sound_complete_witness:
  "\<exists>bo eo fs'. spiffs_obj_lu_find_id (example_mount (\<lambda>i. 0xff)) 5 17 SPIFFS_OBJ_ID_FREE = Some (SPIFFS_OK, bo, eo, fs')"
proof -
  let ?fs = "example_mount (\<lambda>i. 0xff)"
  let ?m = "flash_window id (dev ?fs)"
  have s: "blks example_config = 128" "ents example_config = 31"
    by (simp_all add: example_config_sizes)
  have "unat (block_count ?fs) = blks example_config"
    by (simp add: s example_mount_def SPIFFS_mount_state_fields example_config_fields)
  moreover have "lu_id example_config ?m 0 0 = SPIFFS_OBJ_ID_FREE"
    by (simp add: lu_id_def SPIFFS_OBJ_ID_FREE_def layout_simps example_mount_ready flash_window_def word16_def)
  moreover have "ticks ?fs + walk_cost example_config 0 < 2 ^ 32 - 1"
    by (simp add: example_mount_ready walk_cost_def layout_simps)
  moreover have "unat (5 :: u16) < blks example_config" using s by simp
  ultimately obtain res bo eo fs' where
    "spiffs_obj_lu_find_id ?fs 5 17 SPIFFS_OBJ_ID_FREE = Some (res, bo, eo, fs')"
    "res = SPIFFS_OK \<or> (\<forall>b' < blks example_config. \<forall>e' < ents example_config.
       lu_id example_config ?m b' e' \<noteq> SPIFFS_OBJ_ID_FREE)"
    using find_id_sound_complete [OF example_flash.spiffs_flash_axioms example_mount_ready(1),
        where b = 5 and e = 17 and obj_id = SPIFFS_OBJ_ID_FREE] by blast
  then show ?thesis using s \<open>lu_id example_config ?m 0 0 = SPIFFS_OBJ_ID_FREE\<close> by fastforce
qed

end
