(* ===== verification/SpiffsPage.thy ===== *)
theory SpiffsPage imports SpiffsLookup Libc begin

text \<open>
  Pages and object index headers of \<^verbatim>\<open>spiffs_nucleus.c\<close>: validating, allocating, copying, moving and
  deleting pages, updating the object index header, opening an object, the search by name, the search
  for a free object id, and the table of file descriptors.

  A pointer to a descriptor is its index in \<^verbatim>\<open>fd_space\<close>.  Where a function of the C code gets either
  the work buffer or a null pointer as page data, the model takes a flag: true for the work buffer.  A
  page index that is only set on success is 0 in the result of a failed call.
\<close>

section \<open>File descriptors\<close>

definition fd_update :: "nat \<Rightarrow> (spiffs_fd \<Rightarrow> spiffs_fd) \<Rightarrow> 'd spiffs \<Rightarrow> 'd spiffs" where
  "fd_update f g fs = fs\<lparr>fd_space := (fd_space fs)[f := g (fd_space fs ! f)]\<rparr>"

definition fd_count :: "'d spiffs \<Rightarrow> nat" where "fd_count fs = length (fd_space fs)"

text \<open>The conversion of a number to the signed 16-bit \<^verbatim>\<open>spiffs_file\<close>.\<close>

definition to_s16 :: "nat \<Rightarrow> int" where "to_s16 n = sint (word_of_nat n :: u16)"

definition spiffs_fd_find_new :: "'d spiffs \<Rightarrow> int \<times> nat \<times> 'd spiffs" where
  "spiffs_fd_find_new fs =
     (case find (\<lambda>i. file_nbr (fd_space fs ! i) = 0) [0..<fd_count fs] of
        Some i \<Rightarrow> (SPIFFS_OK, i, fd_update i (\<lambda>fd. fd\<lparr>file_nbr := to_s16 (i + 1)\<rparr>) fs)
      | None \<Rightarrow> (SPIFFS_ERR_OUT_OF_FILE_DESCS, 0, fs))"

definition spiffs_fd_return :: "'d spiffs \<Rightarrow> int \<Rightarrow> int \<times> 'd spiffs" where
  "spiffs_fd_return fs f =
     (if f \<le> 0 \<or> f > to_s16 (fd_count fs) then (SPIFFS_ERR_BAD_DESCRIPTOR, fs)
      else if file_nbr (fd_space fs ! nat (f - 1)) = 0 then (SPIFFS_ERR_FILE_CLOSED, fs)
      else (SPIFFS_OK, fd_update (nat (f - 1)) (\<lambda>fd. fd\<lparr>file_nbr := 0\<rparr>) fs))"

definition spiffs_fd_get :: "'d spiffs \<Rightarrow> int \<Rightarrow> int \<times> nat" where
  "spiffs_fd_get fs f =
     (if f \<le> 0 \<or> f > to_s16 (fd_count fs) then (SPIFFS_ERR_BAD_DESCRIPTOR, 0)
      else if file_nbr (fd_space fs ! nat (f - 1)) = 0 then (SPIFFS_ERR_FILE_CLOSED, nat (f - 1))
      else (SPIFFS_OK, nat (f - 1)))"

section \<open>Validating pages\<close>

definition SPIFFS_VALIDATE_OBJIX :: "spiffs_page_header \<Rightarrow> u16 \<Rightarrow> u16 \<Rightarrow> int" where
  "SPIFFS_VALIDATE_OBJIX ph objid spix =
     (if ph_flags ph AND SPIFFS_PH_FLAG_USED \<noteq> 0 then SPIFFS_ERR_IS_FREE
      else if ph_flags ph AND SPIFFS_PH_FLAG_DELET = 0 then SPIFFS_ERR_DELETED
      else if ph_flags ph AND SPIFFS_PH_FLAG_FINAL \<noteq> 0 then SPIFFS_ERR_NOT_FINALIZED
      else if ph_flags ph AND SPIFFS_PH_FLAG_INDEX \<noteq> 0 then SPIFFS_ERR_NOT_INDEX
      else if objid AND SPIFFS_OBJ_ID_IX_FLAG = 0 then SPIFFS_ERR_NOT_INDEX
      else if ph_span_ix ph \<noteq> spix then SPIFFS_ERR_INDEX_SPAN_MISMATCH
      else SPIFFS_OK)"

definition SPIFFS_VALIDATE_DATA :: "spiffs_page_header \<Rightarrow> u16 \<Rightarrow> u16 \<Rightarrow> int" where
  "SPIFFS_VALIDATE_DATA ph objid spix =
     (if ph_flags ph AND SPIFFS_PH_FLAG_USED \<noteq> 0 then SPIFFS_ERR_IS_FREE
      else if ph_flags ph AND SPIFFS_PH_FLAG_DELET = 0 then SPIFFS_ERR_DELETED
      else if ph_flags ph AND SPIFFS_PH_FLAG_FINAL \<noteq> 0 then SPIFFS_ERR_NOT_FINALIZED
      else if ph_flags ph AND SPIFFS_PH_FLAG_INDEX = 0 then SPIFFS_ERR_IS_INDEX
      else if objid AND SPIFFS_OBJ_ID_IX_FLAG \<noteq> 0 then SPIFFS_ERR_IS_INDEX
      else if ph_span_ix ph \<noteq> spix then SPIFFS_ERR_DATA_SPAN_MISMATCH
      else SPIFFS_OK)"

definition spiffs_page_data_check :: "'d spiffs \<Rightarrow> spiffs_fd \<Rightarrow> u16 \<Rightarrow> u16 \<Rightarrow> (int \<times> 'd spiffs) option" where
  "spiffs_page_data_check fs fd pix spix =
     (if pix = - 1 then Some (SPIFFS_ERR_INDEX_REF_FREE, fs)
      else if ucast pix mod SPIFFS_PAGES_PER_BLOCK (cfg fs) < SPIFFS_OBJ_LOOKUP_PAGES (cfg fs)
      then Some (SPIFFS_ERR_INDEX_REF_LU, fs)
      else if ucast pix > SPIFFS_MAX_PAGES (cfg fs) then Some (SPIFFS_ERR_INDEX_REF_INVALID, fs)
      else do {
        (res, bs, fs) \<leftarrow> spiffs_phys_rd fs (SPIFFS_OP_T_OBJ_DA OR SPIFFS_OP_C_READ) (file_nbr fd)
          (SPIFFS_PAGE_TO_PADDR (cfg fs) (ucast pix)) sizeof_page_header;
        if res < SPIFFS_OK then Some (res, fs)
        else let v = SPIFFS_VALIDATE_DATA (get_page_header bs) (fd_obj_id fd AND NOT SPIFFS_OBJ_ID_IX_FLAG) spix
          in Some (if v \<noteq> SPIFFS_OK then v else res, fs) })"

definition spiffs_page_index_check :: "'d spiffs \<Rightarrow> spiffs_fd \<Rightarrow> u16 \<Rightarrow> u16 \<Rightarrow> (int \<times> 'd spiffs) option" where
  "spiffs_page_index_check fs fd pix spix =
     (if pix = - 1 then Some (SPIFFS_ERR_INDEX_FREE, fs)
      else if ucast pix mod SPIFFS_PAGES_PER_BLOCK (cfg fs) < SPIFFS_OBJ_LOOKUP_PAGES (cfg fs)
      then Some (SPIFFS_ERR_INDEX_LU, fs)
      else if ucast pix > SPIFFS_MAX_PAGES (cfg fs) then Some (SPIFFS_ERR_INDEX_INVALID, fs)
      else do {
        (res, bs, fs) \<leftarrow> spiffs_phys_rd fs (SPIFFS_OP_T_OBJ_IX OR SPIFFS_OP_C_READ) (file_nbr fd)
          (SPIFFS_PAGE_TO_PADDR (cfg fs) (ucast pix)) sizeof_page_header;
        if res < SPIFFS_OK then Some (res, fs)
        else let v = SPIFFS_VALIDATE_OBJIX (get_page_header bs) (fd_obj_id fd) spix
          in Some (if v \<noteq> SPIFFS_OK then v else res, fs) })"

section \<open>Copying, allocating, deleting and moving pages\<close>

definition SPIFFS_COPY_BUFFER_STACK :: u32 where "SPIFFS_COPY_BUFFER_STACK = 64"

partial_function (option) spiffs_phys_cpy ::
  "'d spiffs \<Rightarrow> int \<Rightarrow> u32 \<Rightarrow> u32 \<Rightarrow> u32 \<Rightarrow> (int \<times> 'd spiffs) option" where
  "spiffs_phys_cpy fs fh dst src len =
     (if len > 0
      then do {
        let chunk_size = min SPIFFS_COPY_BUFFER_STACK len;
        (res, b, fs) \<leftarrow> spiffs_phys_rd fs (SPIFFS_OP_T_OBJ_DA OR SPIFFS_OP_C_MOVS) fh src chunk_size;
        if res < SPIFFS_OK then Some (res, fs) else do {
        (res, fs) \<leftarrow> spiffs_phys_wr fs (SPIFFS_OP_T_OBJ_DA OR SPIFFS_OP_C_MOVD) fh dst b;
        if res < SPIFFS_OK then Some (res, fs) else
        spiffs_phys_cpy fs fh (dst + chunk_size) (src + chunk_size) (len - chunk_size) }}
      else Some (SPIFFS_OK, fs))"

declare spiffs_phys_cpy.simps [code]

text \<open>Address of the lookup entry of a page, and of an entry of a block.\<close>

definition lu_entry_of_page :: "'d spiffs_config \<Rightarrow> u16 \<Rightarrow> u32" where
  "lu_entry_of_page config pix =
     SPIFFS_BLOCK_TO_PADDR config (SPIFFS_BLOCK_FOR_PAGE config (ucast pix)) +
     SPIFFS_OBJ_LOOKUP_ENTRY_FOR_PAGE config (ucast pix) * sizeof_page_ix"

definition lu_entry_of_block :: "'d spiffs_config \<Rightarrow> u16 \<Rightarrow> nat \<Rightarrow> u32" where
  "lu_entry_of_block config bix entry =
     SPIFFS_BLOCK_TO_PADDR config (ucast bix) + word_of_nat entry * sizeof_obj_id"

text \<open>The page header is passed by pointer: the result has it with the flags that were written.\<close>

definition spiffs_page_allocate_data ::
  "'d spiffs \<Rightarrow> u16 \<Rightarrow> spiffs_page_header \<Rightarrow> u8 list option \<Rightarrow> u32 \<Rightarrow> bool \<Rightarrow>
   (int \<times> spiffs_page_header \<times> u16 \<times> 'd spiffs) option" where
  "spiffs_page_allocate_data fs obj_id ph data page_offs finalize = do {
     (res, bix, entry, fs) \<leftarrow> spiffs_obj_lu_find_free fs (free_cursor_block_ix fs) (free_cursor_obj_lu_entry fs);
     if res < SPIFFS_OK then Some (res, ph, 0, fs) else do {
     bix \<leftarrow> bix;
     entry \<leftarrow> entry;
     (res, fs) \<leftarrow> spiffs_phys_wr fs (SPIFFS_OP_T_OBJ_LU OR SPIFFS_OP_C_UPDT) 0
       (lu_entry_of_block (cfg fs) bix entry) (bytes16 obj_id);
     if res < SPIFFS_OK then Some (res, ph, 0, fs) else do {
     let fs = fs\<lparr>stats_p_allocated := stats_p_allocated fs + 1\<rparr>;
     let ph = ph\<lparr>ph_flags := ph_flags ph AND NOT SPIFFS_PH_FLAG_USED\<rparr>;
     let addr = SPIFFS_OBJ_LOOKUP_ENTRY_TO_PADDR (cfg fs) (ucast bix) (word_of_nat entry);
     let pix = ucast (SPIFFS_OBJ_LOOKUP_ENTRY_TO_PIX (cfg fs) (ucast bix) (word_of_nat entry));
     (res, fs) \<leftarrow> spiffs_phys_wr fs (SPIFFS_OP_T_OBJ_DA OR SPIFFS_OP_C_UPDT) 0 addr (page_header_bytes ph);
     if res < SPIFFS_OK then Some (res, ph, 0, fs) else do {
     (res, fs) \<leftarrow> (case data of
        None \<Rightarrow> Some (res, fs)
      | Some bs \<Rightarrow> spiffs_phys_wr fs (SPIFFS_OP_T_OBJ_DA OR SPIFFS_OP_C_UPDT) 0
          (addr + sizeof_page_header + page_offs) bs);
     if res < SPIFFS_OK then Some (res, ph, 0, fs) else
     if finalize \<and> ph_flags ph AND SPIFFS_PH_FLAG_FINAL \<noteq> 0 then do {
       let ph = ph\<lparr>ph_flags := ph_flags ph AND NOT SPIFFS_PH_FLAG_FINAL\<rparr>;
       (res, fs) \<leftarrow> spiffs_phys_wr fs (SPIFFS_OP_T_OBJ_DA OR SPIFFS_OP_C_UPDT) 0 (addr + offsetof_flags)
         [ph_flags ph];
       Some (if res < SPIFFS_OK then (res, ph, 0, fs) else (res, ph, pix, fs)) }
     else Some (res, ph, pix, fs) }}}}"

definition spiffs_page_delete :: "'d spiffs \<Rightarrow> u16 \<Rightarrow> (int \<times> 'd spiffs) option" where
  "spiffs_page_delete fs pix = do {
     let flags = 0xff AND NOT (SPIFFS_PH_FLAG_DELET OR SPIFFS_PH_FLAG_USED);
     (res, fs) \<leftarrow> spiffs_phys_wr fs (SPIFFS_OP_T_OBJ_LU OR SPIFFS_OP_C_DELE) 0
       (lu_entry_of_page (cfg fs) pix) (bytes16 SPIFFS_OBJ_ID_DELETED);
     if res < SPIFFS_OK then Some (res, fs) else do {
     let fs = fs\<lparr>stats_p_deleted := stats_p_deleted fs + 1, stats_p_allocated := stats_p_allocated fs - 1\<rparr>;
     spiffs_phys_wr fs (SPIFFS_OP_T_OBJ_DA OR SPIFFS_OP_C_DELE) 0
       (SPIFFS_PAGE_TO_PADDR (cfg fs) (ucast pix) + offsetof_flags) [flags] }}"

text \<open>The flags of the page header at the start of the work buffer.\<close>

definition work_flags :: "(u8 \<Rightarrow> u8) \<Rightarrow> 'd spiffs \<Rightarrow> 'd spiffs" where
  "work_flags f fs = fs\<lparr>work := (work fs)[unat offsetof_flags := f (work fs ! unat offsetof_flags)]\<rparr>"

text \<open>With \<open>page_data\<close> the page is written from the work buffer, otherwise it is copied on flash; the
  argument \<^verbatim>\<open>page_hdr\<close> of the C function is never used then.\<close>

definition spiffs_page_move ::
  "'d spiffs \<Rightarrow> int \<Rightarrow> bool \<Rightarrow> u16 \<Rightarrow> u16 \<Rightarrow> (int \<times> u16 \<times> 'd spiffs) option" where
  "spiffs_page_move fs fh page_data obj_id src_pix = do {
     (res, bix, entry, fs) \<leftarrow> spiffs_obj_lu_find_free fs (free_cursor_block_ix fs) (free_cursor_obj_lu_entry fs);
     if res < SPIFFS_OK then Some (res, 0, fs) else do {
     bix \<leftarrow> bix;
     entry \<leftarrow> entry;
     let free_pix = ucast (SPIFFS_OBJ_LOOKUP_ENTRY_TO_PIX (cfg fs) (ucast bix) (word_of_nat entry));
     let was_final = (page_data \<and> work fs ! unat offsetof_flags AND SPIFFS_PH_FLAG_FINAL = 0);
     (res, fs) \<leftarrow>
       (if page_data
        then let fs = work_flags (\<lambda>f. (f OR SPIFFS_PH_FLAG_FINAL) AND NOT SPIFFS_PH_FLAG_USED) fs
          in spiffs_phys_wr fs (SPIFFS_OP_T_OBJ_DA OR SPIFFS_OP_C_UPDT) 0
               (SPIFFS_PAGE_TO_PADDR (cfg fs) (ucast free_pix)) (work fs)
        else spiffs_phys_cpy fs fh (SPIFFS_PAGE_TO_PADDR (cfg fs) (ucast free_pix))
               (SPIFFS_PAGE_TO_PADDR (cfg fs) (ucast src_pix)) (log_page_size (cfg fs)));
     if res < SPIFFS_OK then Some (res, free_pix, fs) else do {
     (res, fs) \<leftarrow> spiffs_phys_wr fs (SPIFFS_OP_T_OBJ_LU OR SPIFFS_OP_C_UPDT) 0
       (lu_entry_of_page (cfg fs) free_pix) (bytes16 obj_id);
     if res < SPIFFS_OK then Some (res, free_pix, fs) else do {
     let fs = fs\<lparr>stats_p_allocated := stats_p_allocated fs + 1\<rparr>;
     (res, fs) \<leftarrow>
       (if was_final
        then let fs = work_flags (\<lambda>f. f AND NOT (SPIFFS_PH_FLAG_FINAL OR SPIFFS_PH_FLAG_USED)) fs
          in spiffs_phys_wr fs (SPIFFS_OP_T_OBJ_DA OR SPIFFS_OP_C_UPDT) fh
               (SPIFFS_PAGE_TO_PADDR (cfg fs) (ucast free_pix) + offsetof_flags) [work fs ! unat offsetof_flags]
        else Some (res, fs));
     if res < SPIFFS_OK then Some (res, free_pix, fs) else do {
     (res, fs) \<leftarrow> spiffs_page_delete fs src_pix;
     Some (res, free_pix, fs) }}}}}"

section \<open>Object index headers\<close>

text \<open>Fields of a \<^verbatim>\<open>spiffs_page_object_ix_header\<close> in a buffer.\<close>

definition oix_size :: "u8 list \<Rightarrow> u32" where "oix_size b = get32 b 6"
definition oix_type :: "u8 list \<Rightarrow> u8" where "oix_type b = b ! 10"
definition oix_name :: "u8 list \<Rightarrow> u8 list" where "oix_name b = slice 11 SPIFFS_OBJ_NAME_LEN b"
definition set_oix_size :: "u32 \<Rightarrow> 'd spiffs \<Rightarrow> 'd spiffs" where
  "set_oix_size sz fs = fs\<lparr>work := blit 6 (bytes32 sz) (work fs)\<rparr>"

datatype spiffs_event = SPIFFS_EV_IX_UPD | SPIFFS_EV_IX_NEW | SPIFFS_EV_IX_DEL

text \<open>The reaction of one descriptor to an event of an object index page.\<close>

definition object_event_fd :: "spiffs_event \<Rightarrow> u16 \<Rightarrow> u16 \<Rightarrow> u16 \<Rightarrow> u32 \<Rightarrow> spiffs_fd \<Rightarrow> spiffs_fd" where
  "object_event_fd ev obj_id spix new_pix new_size cur_fd =
     (if file_nbr cur_fd = 0 \<or> fd_obj_id cur_fd AND NOT SPIFFS_OBJ_ID_IX_FLAG \<noteq> obj_id then cur_fd
      else let cur_fd =
             (if spix = 0
              then if ev = SPIFFS_EV_IX_NEW \<or> ev = SPIFFS_EV_IX_UPD
                then let cur_fd = cur_fd\<lparr>objix_hdr_pix := new_pix\<rparr>
                  in if new_size \<noteq> 0 then cur_fd\<lparr>fd_size := new_size\<rparr> else cur_fd
                else cur_fd\<lparr>file_nbr := 0, fd_obj_id := SPIFFS_OBJ_ID_DELETED\<rparr>
              else cur_fd)
        in if cursor_objix_spix cur_fd = spix
           then if ev = SPIFFS_EV_IX_NEW \<or> ev = SPIFFS_EV_IX_UPD
             then cur_fd\<lparr>cursor_objix_pix := new_pix\<rparr> else cur_fd\<lparr>cursor_objix_pix := 0\<rparr>
           else cur_fd)"

definition spiffs_cb_object_event ::
  "'d spiffs \<Rightarrow> spiffs_event \<Rightarrow> u16 \<Rightarrow> u16 \<Rightarrow> u16 \<Rightarrow> u32 \<Rightarrow> 'd spiffs" where
  "spiffs_cb_object_event fs ev obj_id spix new_pix new_size =
     fs\<lparr>fd_space := map (object_event_fd ev (obj_id AND NOT SPIFFS_OBJ_ID_IX_FLAG) spix new_pix new_size)
        (fd_space fs)\<rparr>"

text \<open>The descriptor may be null, which is only allowed when the header page is in the work buffer
  (\<open>hdr_data\<close>); the name may be null, a size of 0 leaves the size.\<close>

definition spiffs_object_update_index_hdr ::
  "'d spiffs \<Rightarrow> nat option \<Rightarrow> u16 \<Rightarrow> u16 \<Rightarrow> bool \<Rightarrow> u8 list option \<Rightarrow> u32 \<Rightarrow> (int \<times> u16 \<times> 'd spiffs) option" where
  "spiffs_object_update_index_hdr fs fd obj_id hdr_pix hdr_data name sz = do {
     let obj_id = obj_id OR SPIFFS_OBJ_ID_IX_FLAG;
     (res, fs) \<leftarrow>
       (if hdr_data then Some (SPIFFS_OK, fs)
        else do {
          f \<leftarrow> fd;
          (res, bs, fs) \<leftarrow> spiffs_phys_rd fs (SPIFFS_OP_T_OBJ_IX OR SPIFFS_OP_C_READ) (file_nbr (fd_space fs ! f))
            (SPIFFS_PAGE_TO_PADDR (cfg fs) (ucast hdr_pix)) (log_page_size (cfg fs));
          Some (res, fs\<lparr>work := bs\<rparr>) });
     if res < SPIFFS_OK then Some (res, 0, fs) else do {
     let v = SPIFFS_VALIDATE_OBJIX (get_page_header (work fs)) obj_id 0;
     if v \<noteq> SPIFFS_OK then Some (v, 0, fs) else do {
     fs \<leftarrow> (case name of
        None \<Rightarrow> Some fs
      | Some nm \<Rightarrow> do {
          bs \<leftarrow> strncpy nm SPIFFS_OBJ_NAME_LEN;
          Some (fs\<lparr>work := blit 11 bs (work fs)\<rparr>) });
     let fs = (if sz \<noteq> 0 then set_oix_size sz fs else fs);
     (res, new_pix, fs) \<leftarrow> spiffs_page_move fs (case fd of None \<Rightarrow> 0 | Some f \<Rightarrow> file_nbr (fd_space fs ! f))
       True obj_id hdr_pix;
     if res = SPIFFS_OK
     then let fs = spiffs_cb_object_event fs SPIFFS_EV_IX_UPD obj_id (ph_span_ix (get_page_header (work fs)))
               new_pix (oix_size (work fs));
              fs = (case fd of None \<Rightarrow> fs | Some f \<Rightarrow> fd_update f (\<lambda>fd. fd\<lparr>objix_hdr_pix := new_pix\<rparr>) fs)
       in Some (res, new_pix, fs)
     else Some (res, 0, fs) }}}"

section \<open>Opening an object\<close>

definition spiffs_object_open_by_page :: "'d spiffs \<Rightarrow> u16 \<Rightarrow> nat \<Rightarrow> u16 \<Rightarrow> (int \<times> 'd spiffs) option" where
  "spiffs_object_open_by_page fs pix f flags = do {
     (res, hdr, fs) \<leftarrow> spiffs_phys_rd fs (SPIFFS_OP_T_OBJ_IX OR SPIFFS_OP_C_READ) (file_nbr (fd_space fs ! f))
       (SPIFFS_PAGE_TO_PADDR (cfg fs) (ucast pix)) sizeof_page_object_ix_header;
     if res < SPIFFS_OK then Some (res, fs) else do {
     (res, bs, fs) \<leftarrow> spiffs_phys_rd fs (SPIFFS_OP_T_OBJ_LU OR SPIFFS_OP_C_READ) 0
       (lu_entry_of_page (cfg fs) pix) sizeof_obj_id;
     let fs = fd_update f (\<lambda>fd. fd\<lparr>objix_hdr_pix := pix, fd_size := oix_size hdr, fd_offset := 0,
                cursor_objix_pix := pix, cursor_objix_spix := 0, fd_obj_id := get16 bs 0, fd_flags := flags\<rparr>) fs;
     let v = SPIFFS_VALIDATE_OBJIX (get_page_header hdr) (get16 bs 0) 0;
     Some (if v \<noteq> SPIFFS_OK then v else res, fs) }}"

definition spiffs_object_open_by_id :: "'d spiffs \<Rightarrow> u16 \<Rightarrow> nat \<Rightarrow> u16 \<Rightarrow> (int \<times> 'd spiffs) option" where
  "spiffs_object_open_by_id fs obj_id f flags = do {
     (res, pix, fs) \<leftarrow> spiffs_obj_lu_find_id_and_span fs (obj_id OR SPIFFS_OBJ_ID_IX_FLAG) 0 0;
     if res < SPIFFS_OK then Some (res, fs) else spiffs_object_open_by_page fs pix f flags }"

section \<open>Searching by name\<close>

text \<open>\<^verbatim>\<open>strcmp(a, b) == 0\<close>; undefined when the comparison runs past the end of a buffer.\<close>

fun strcmp_eq :: "u8 list \<Rightarrow> u8 list \<Rightarrow> bool option" where
  "strcmp_eq (a # s) (b # t) = (if a \<noteq> b then Some False else if a = 0 then Some True else strcmp_eq s t)"
| "strcmp_eq _ _ = None"

text \<open>A final index header that is neither deleted nor being deleted.\<close>

definition live_index_header :: "spiffs_page_header \<Rightarrow> bool" where
  "live_index_header ph \<longleftrightarrow> ph_span_ix ph = 0 \<and>
     ph_flags ph AND (SPIFFS_PH_FLAG_DELET OR SPIFFS_PH_FLAG_FINAL OR SPIFFS_PH_FLAG_IXDELE) =
       SPIFFS_PH_FLAG_DELET OR SPIFFS_PH_FLAG_IXDELE"

definition spiffs_object_find_object_index_header_by_name_v :: "u8 list \<Rightarrow> (unit, 'd) visitor" where
  "spiffs_object_find_object_index_header_by_name_v name fs obj_id bix ix_entry u =
     (let pix = (ucast (SPIFFS_OBJ_LOOKUP_ENTRY_TO_PIX (cfg fs) (ucast bix) (word_of_nat ix_entry)) :: u16)
      in if obj_id = SPIFFS_OBJ_ID_FREE \<or> obj_id = SPIFFS_OBJ_ID_DELETED \<or> obj_id AND SPIFFS_OBJ_ID_IX_FLAG = 0
         then Some (SPIFFS_VIS_COUNTINUE, u, fs)
         else do {
           (res, hdr, fs) \<leftarrow> spiffs_phys_rd fs (SPIFFS_OP_T_OBJ_LU2 OR SPIFFS_OP_C_READ) 0
             (SPIFFS_PAGE_TO_PADDR (cfg fs) (ucast pix)) sizeof_page_object_ix_header;
           if res < SPIFFS_OK then Some (res, u, fs)
           else if live_index_header (get_page_header hdr)
           then do {
             eq \<leftarrow> strcmp_eq name (oix_name hdr);
             Some (if eq then SPIFFS_OK else SPIFFS_VIS_COUNTINUE, u, fs) }
           else Some (SPIFFS_VIS_COUNTINUE, u, fs) })"

definition spiffs_object_find_object_index_header_by_name ::
  "'d spiffs \<Rightarrow> u8 list \<Rightarrow> (int \<times> u16 \<times> 'd spiffs) option" where
  "spiffs_object_find_object_index_header_by_name fs name = do {
     (res, s, fs) \<leftarrow> spiffs_obj_lu_find_entry_visitor fs (cursor_block_ix fs) (cursor_obj_lu_entry fs) 0 0
       (Some (spiffs_object_find_object_index_header_by_name_v name)) ();
     let res = (if res = SPIFFS_VIS_END then SPIFFS_ERR_NOT_FOUND else res);
     if res < SPIFFS_OK then Some (res, 0, fs) else do {
     bix \<leftarrow> at_block s;
     entry \<leftarrow> at_entry s;
     Some (res, ucast (SPIFFS_OBJ_LOOKUP_ENTRY_TO_PIX (cfg fs) (ucast bix) (word_of_nat entry)),
       fs\<lparr>cursor_block_ix := bix, cursor_obj_lu_entry := entry\<rparr>) }}"

section \<open>Searching a free object id\<close>

record spiffs_free_obj_id_state =
  min_obj_id :: u16
  max_obj_id :: u16
  compaction :: u32
  conflicting_name :: "u8 list option"

definition spiffs_obj_lu_find_free_obj_id_bitmap_v :: "u16 \<Rightarrow> u8 list option \<Rightarrow> (unit, 'd) visitor" where
  "spiffs_obj_lu_find_free_obj_id_bitmap_v min_id conflicting fs oid bix ix_entry u =
     (if oid \<noteq> SPIFFS_OBJ_ID_FREE \<and> oid \<noteq> SPIFFS_OBJ_ID_DELETED
      then do {
        (res, fs) \<leftarrow>
          (case conflicting of
             Some name \<Rightarrow>
               if oid AND SPIFFS_OBJ_ID_IX_FLAG \<noteq> 0
               then do {
                 let pix = (ucast (SPIFFS_OBJ_LOOKUP_ENTRY_TO_PIX (cfg fs) (ucast bix) (word_of_nat ix_entry)) :: u16);
                 (res, hdr, fs) \<leftarrow> spiffs_phys_rd fs (SPIFFS_OP_T_OBJ_LU2 OR SPIFFS_OP_C_READ) 0
                   (SPIFFS_PAGE_TO_PADDR (cfg fs) (ucast pix)) sizeof_page_object_ix_header;
                 if res < SPIFFS_OK then Some (res, fs)
                 else if live_index_header (get_page_header hdr)
                 then do {
                   eq \<leftarrow> strcmp_eq name (oix_name hdr);
                   Some (if eq then SPIFFS_ERR_CONFLICTING_NAME else SPIFFS_OK, fs) }
                 else Some (SPIFFS_OK, fs) }
               else Some (SPIFFS_OK, fs)
           | None \<Rightarrow> Some (SPIFFS_OK, fs));
        if res < SPIFFS_OK then Some (res, u, fs)
        else let d = uint (oid AND NOT SPIFFS_OBJ_ID_IX_FLAG) - uint min_id;
                 bit_ix = nat (d mod 8);
                 byte_ix = d div 8
          in Some (SPIFFS_VIS_COUNTINUE, u,
               if 0 \<le> byte_ix \<and> byte_ix < uint (log_page_size (cfg fs))
               then fs\<lparr>work := (work fs)[nat byte_ix := work fs ! nat byte_ix OR push_bit bit_ix 1]\<rparr>
               else fs) }
      else Some (SPIFFS_VIS_COUNTINUE, u, fs))"

definition spiffs_obj_lu_find_free_obj_id_compact_v ::
  "spiffs_free_obj_id_state \<Rightarrow> (unit, 'd) visitor" where
  "spiffs_obj_lu_find_free_obj_id_compact_v state fs oid bix ix_entry u =
     (if oid \<noteq> SPIFFS_OBJ_ID_FREE \<and> oid \<noteq> SPIFFS_OBJ_ID_DELETED \<and> oid AND SPIFFS_OBJ_ID_IX_FLAG \<noteq> 0
      then do {
        (res, hdr, fs) \<leftarrow> spiffs_phys_rd fs (SPIFFS_OP_T_OBJ_LU2 OR SPIFFS_OP_C_READ) 0
          (SPIFFS_OBJ_LOOKUP_ENTRY_TO_PADDR (cfg fs) (ucast bix) (word_of_nat ix_entry)) sizeof_page_object_ix_header;
        let ph = get_page_header hdr;
        if res = SPIFFS_OK \<and> ph_span_ix ph = 0 \<and>
           ph_flags ph AND (SPIFFS_PH_FLAG_INDEX OR SPIFFS_PH_FLAG_FINAL OR SPIFFS_PH_FLAG_DELET) =
             SPIFFS_PH_FLAG_DELET
        then do {
          conflict \<leftarrow> (case conflicting_name state of
             None \<Rightarrow> Some False
           | Some name \<Rightarrow> strcmp_eq name (oix_name hdr));
          if conflict then Some (SPIFFS_ERR_CONFLICTING_NAME, u, fs)
          else let oid = oid AND NOT SPIFFS_OBJ_ID_IX_FLAG
            in if min_obj_id state \<le> oid \<and> oid \<le> max_obj_id state
               then let ix = unat (ucast (oid - min_obj_id state) div compaction state)
                 in if compaction state = 0 \<or> length (work fs) \<le> ix then None
                    else Some (SPIFFS_VIS_COUNTINUE, u, fs\<lparr>work := (work fs)[ix := work fs ! ix + 1]\<rparr>)
               else Some (SPIFFS_VIS_COUNTINUE, u, fs) }
        else Some (SPIFFS_VIS_COUNTINUE, u, fs) }
      else Some (SPIFFS_VIS_COUNTINUE, u, fs))"

definition fits_bitmap :: "'d spiffs_config \<Rightarrow> spiffs_free_obj_id_state \<Rightarrow> bool" where
  "fits_bitmap config st \<longleftrightarrow> uint (max_obj_id st) - uint (min_obj_id st) \<le>
     uint (ucast (log_page_size config) :: u16) * 8"

text \<open>The least occupied group of the compacted table: its index and count.\<close>

definition least_group :: "u8 list \<Rightarrow> nat \<Rightarrow> nat \<times> u8" where
  "least_group map_mem n = fold (\<lambda>i (min_i, min_count).
     if map_mem ! i < min_count then (i, map_mem ! i) else (min_i, min_count)) [0..<n] (0, 0xff)"

partial_function (option) free_obj_id_loop ::
  "spiffs_free_obj_id_state \<Rightarrow> u8 list option \<Rightarrow> 'd spiffs \<Rightarrow> (int \<times> u16 \<times> 'd spiffs) option" where
  "free_obj_id_loop st conflicting fs =
     (if fits_bitmap (cfg fs) st
      then do {
        let fs = fs\<lparr>work := replicate (unat (log_page_size (cfg fs))) 0\<rparr>;
        (res, s, fs) \<leftarrow> spiffs_obj_lu_find_entry_visitor fs 0 0 0 0
          (Some (spiffs_obj_lu_find_free_obj_id_bitmap_v (min_obj_id st) conflicting)) ();
        let res = (if res = SPIFFS_VIS_END then SPIFFS_OK else res);
        if res < SPIFFS_OK then Some (res, 0, fs)
        else case find (\<lambda>k. \<not> bit (work fs ! (k div 8)) (k mod 8)) [0..<8 * unat (log_page_size (cfg fs))] of
               Some k \<Rightarrow> Some (SPIFFS_OK, ucast (word_of_nat k + ucast (min_obj_id st) :: u32), fs)
             | None \<Rightarrow> Some (SPIFFS_ERR_FULL, 0, fs) }
      else do {
        let (min_i, min_count) = least_group (work fs) (unat (log_page_size (cfg fs)));
        let first = ucast (word_of_nat min_i * compaction st + ucast (min_obj_id st));
        let st' = (if compaction st \<noteq> 0
                   then st\<lparr>min_obj_id := first, max_obj_id := ucast (ucast first + compaction st)\<rparr> else st);
        if compaction st \<noteq> 0 \<and> ucast min_count = compaction st then Some (SPIFFS_ERR_FULL, 0, fs)
        else if compaction st \<noteq> 0 \<and> min_count = 0 then Some (SPIFFS_OK, first, fs)
        else if compaction st \<noteq> 0 \<and> fits_bitmap (cfg fs) st' then free_obj_id_loop st' conflicting fs
        else do {
          let st' = st'\<lparr>compaction := word_of_int (uint (max_obj_id st') - uint (min_obj_id st')) div
                          log_page_size (cfg fs)\<rparr>;
          let fs = fs\<lparr>work := replicate (unat (log_page_size (cfg fs))) 0\<rparr>;
          (res, s, fs) \<leftarrow> spiffs_obj_lu_find_entry_visitor fs 0 0 0 0
            (Some (spiffs_obj_lu_find_free_obj_id_compact_v st')) ();
          let res = (if res = SPIFFS_VIS_END then SPIFFS_OK else res);
          if res \<noteq> SPIFFS_OK then Some (res, 0, fs)
          else free_obj_id_loop (st'\<lparr>conflicting_name := None\<rparr>) conflicting fs }})"

declare free_obj_id_loop.simps [code]

definition spiffs_obj_lu_find_free_obj_id ::
  "'d spiffs \<Rightarrow> u8 list option \<Rightarrow> (int \<times> u16 \<times> 'd spiffs) option" where
  "spiffs_obj_lu_find_free_obj_id fs conflicting =
     (let max_objects = phys_size (cfg fs) div log_page_size (cfg fs) div 2;
          mx = ucast (max_objects + 1) :: u16;
          mx = (if mx AND SPIFFS_OBJ_ID_IX_FLAG \<noteq> 0 then - 1 AND NOT SPIFFS_OBJ_ID_IX_FLAG else mx)
      in free_obj_id_loop \<lparr>min_obj_id = 1, max_obj_id = mx, compaction = 0, conflicting_name = conflicting\<rparr>
           conflicting fs)"

end
