(* ===== verification/SpiffsGc.thy ===== *)
theory SpiffsGc imports SpiffsPage begin

text \<open>
  The garbage collector of \<^verbatim>\<open>spiffs_gc.c\<close>: choosing a block, moving its live pages away, erasing it,
  and the check before every operation that needs free pages.
\<close>

section \<open>Page statistics\<close>

text \<open>Counts of deleted and of used entries of a block.\<close>

definition count_entry :: "(u32 \<times> u32, 'd) lu_body" where
  "count_entry page cur obj_id st fs =
     Some (Next,
       (if obj_id = SPIFFS_OBJ_ID_FREE then st
        else if obj_id = SPIFFS_OBJ_ID_DELETED then (fst st + 1, snd st)
        else (fst st, snd st + 1)), fs)"

definition spiffs_gc_erase_page_stats :: "'d spiffs \<Rightarrow> u16 \<Rightarrow> (int \<times> 'd spiffs) option" where
  "spiffs_gc_erase_page_stats fs bix = do {
     (r, _, (dele, allo), fs) \<leftarrow> lu_pages count_entry (ucast bix * log_block_size (cfg fs)) 0 0 (0, 0) fs;
     Some (case r of Fail res \<Rightarrow> res | _ \<Rightarrow> SPIFFS_OK,
       fs\<lparr>stats_p_allocated := stats_p_allocated fs - allo, stats_p_deleted := stats_p_deleted fs - dele\<rparr>) }"

section \<open>Choosing a block\<close>

definition SPIFFS_GC_HEUR_W_DELET :: int where "SPIFFS_GC_HEUR_W_DELET = 5"
definition SPIFFS_GC_HEUR_W_USED :: int where "SPIFFS_GC_HEUR_W_USED = - 1"
definition SPIFFS_GC_HEUR_W_ERASE_AGE :: int where "SPIFFS_GC_HEUR_W_ERASE_AGE = 50"

text \<open>A free entry ends the walk, as all later entries of the block are free; \<^verbatim>\<open>(deleted, used)\<close> are
  16-bit counters.\<close>

definition candidate_entry :: "(u16 \<times> u16, 'd) lu_body" where
  "candidate_entry page cur obj_id st fs =
     (if obj_id = SPIFFS_OBJ_ID_FREE then Some (Break, st, fs)
      else Some (Next, (if obj_id = SPIFFS_OBJ_ID_DELETED then (fst st + 1, snd st) else (fst st, snd st + 1)), fs))"

text \<open>The table in the work buffer: \<open>mx\<close> block indices, then \<open>mx\<close> scores.\<close>

definition max_candidates :: "'d spiffs \<Rightarrow> nat" where
  "max_candidates fs = unat (min (block_count fs) ((log_page_size (cfg fs) - 8) div 6))"

definition cand_block :: "u8 list \<Rightarrow> nat \<Rightarrow> u16" where "cand_block w i = get16 w (2 * i)"
definition cand_score :: "nat \<Rightarrow> u8 list \<Rightarrow> nat \<Rightarrow> int" where "cand_score mx w i = sint (get32 w (2 * mx + 4 * i))"
definition put_candidate :: "nat \<Rightarrow> nat \<Rightarrow> u16 \<Rightarrow> int \<Rightarrow> u8 list \<Rightarrow> u8 list" where
  "put_candidate mx i b score w =
     blit (2 * mx + 4 * i) (bytes32 (word_of_int score)) (blit (2 * i) (bytes16 b) w)"

definition insert_candidate :: "nat \<Rightarrow> u16 \<Rightarrow> int \<Rightarrow> u8 list \<Rightarrow> u8 list" where
  "insert_candidate mx b score w =
     (case find (\<lambda>i. cand_block w i = - 1 \<or> cand_score mx w i < score) [0..<mx] of
        None \<Rightarrow> w
      | Some i \<Rightarrow>
          if cand_block w i = - 1 then put_candidate mx i b score w
          else put_candidate mx i b score
            (fold (\<lambda>r w. put_candidate mx (r + 1) (cand_block w r) (cand_score mx w r) w) (rev [i..<mx - 1]) w))"

definition erase_age :: "u16 \<Rightarrow> u16 \<Rightarrow> u16" where
  "erase_age mx erase_count =
     (if mx > erase_count then mx - erase_count else SPIFFS_OBJ_ID_FREE - (erase_count - mx))"

definition candidate_score :: "bool \<Rightarrow> u16 \<Rightarrow> u16 \<Rightarrow> u16 \<Rightarrow> int" where
  "candidate_score fs_crammed deleted used age =
     uint deleted * SPIFFS_GC_HEUR_W_DELET + uint used * SPIFFS_GC_HEUR_W_USED +
     uint age * (if fs_crammed then 0 else SPIFFS_GC_HEUR_W_ERASE_AGE)"

partial_function (option) find_candidate_blocks ::
  "bool \<Rightarrow> u32 \<Rightarrow> u16 \<Rightarrow> u32 \<Rightarrow> int \<Rightarrow> 'd spiffs \<Rightarrow> (int \<times> int \<times> 'd spiffs) option" where
  "find_candidate_blocks fs_crammed blocks cur_block cur_block_addr count fs =
     (if blocks \<noteq> 0
      then do {
        (r, _, (deleted, used), fs) \<leftarrow> lu_pages candidate_entry cur_block_addr 0 0 (0, 0) fs;
        let res = (case r of Fail res \<Rightarrow> if res = 1 then SPIFFS_OK else res | _ \<Rightarrow> SPIFFS_OK);
        if res \<noteq> SPIFFS_OK then Some (res, count, fs)
        else if deleted > 0
        then do {
          (res, bs, fs) \<leftarrow> spiffs_phys_rd fs (SPIFFS_OP_C_READ OR SPIFFS_OP_T_OBJ_LU2) 0
            (SPIFFS_ERASE_COUNT_PADDR (cfg fs) (ucast cur_block)) sizeof_obj_id;
          if res < SPIFFS_OK then Some (res, count, fs) else do {
          let age = erase_age (max_erase_count fs) (get16 bs 0);
          let fs = fs\<lparr>work := insert_candidate (max_candidates fs) cur_block
                     (candidate_score fs_crammed deleted used age) (work fs)\<rparr>;
          if res \<noteq> SPIFFS_OK then Some (res, count + 1, fs)
          else find_candidate_blocks fs_crammed (blocks - 1) (cur_block + 1)
                 (cur_block_addr + log_block_size (cfg fs)) (count + 1) fs }}
        else find_candidate_blocks fs_crammed (blocks - 1) (cur_block + 1)
               (cur_block_addr + log_block_size (cfg fs)) count fs }
      else Some (SPIFFS_OK, count, fs))"

declare find_candidate_blocks.simps [code]

text \<open>The result is the return code and the number of candidates; the sorted table is in the work
  buffer.\<close>

definition spiffs_gc_find_candidate :: "'d spiffs \<Rightarrow> bool \<Rightarrow> (int \<times> int \<times> 'd spiffs) option" where
  "spiffs_gc_find_candidate fs fs_crammed =
     find_candidate_blocks fs_crammed (block_count fs) 0 0 0
       (fs\<lparr>work := replicate (unat (log_page_size (cfg fs))) 0xff\<rparr>)"

section \<open>Emptying a block\<close>

datatype spiffs_gc_clean_state = FIND_OBJ_DATA | MOVE_OBJ_DATA | MOVE_OBJ_IX | FINISHED

record spiffs_gc =
  gc_state :: spiffs_gc_clean_state
  cur_obj_id :: u16
  gc_objix_spix :: u16
  gc_objix_pix :: u16
  stored_scan_entry_index :: nat
  obj_id_found :: bool

text \<open>Entries of an object index in the work buffer: behind the header of the page with span index 0,
  behind the shorter header of the others.  An access beyond the buffer is undefined.\<close>

definition ix_slot :: "'d spiffs_config \<Rightarrow> u16 \<Rightarrow> u16 \<Rightarrow> nat" where
  "ix_slot config objix_spix data_spix =
     (if objix_spix = 0 then unat sizeof_page_object_ix_header + 2 * unat data_spix
      else unat sizeof_page_object_ix + 2 * unat (SPIFFS_OBJ_IX_ENTRY config (ucast data_spix)))"

definition get_ix :: "'d spiffs \<Rightarrow> u16 \<Rightarrow> u16 \<Rightarrow> u16 option" where
  "get_ix fs objix_spix data_spix =
     (let i = ix_slot (cfg fs) objix_spix data_spix
      in if i + 2 \<le> length (work fs) then Some (get16 (work fs) i) else None)"

definition set_ix :: "u16 \<Rightarrow> u16 \<Rightarrow> u16 \<Rightarrow> 'd spiffs \<Rightarrow> 'd spiffs option" where
  "set_ix objix_spix data_spix pix fs =
     (let i = ix_slot (cfg fs) objix_spix data_spix
      in if i + 2 \<le> length (work fs) then Some (fs\<lparr>work := blit i (bytes16 pix) (work fs)\<rparr>) else None)"

text \<open>One entry of the block in each state.  A page that was moved or deleted makes the walk go on with
  the lookup page reloaded; a code that is neither success nor an error leaves the loops.\<close>

definition gc_move_data :: "u16 \<Rightarrow> nat \<Rightarrow> u16 \<Rightarrow> u16 \<Rightarrow> spiffs_gc \<Rightarrow> 'd spiffs \<Rightarrow> (lu_step \<times> spiffs_gc \<times> 'd spiffs) option" where
  "gc_move_data bix page cur_pix obj_id gc fs = do {
     (res, bs, fs) \<leftarrow> spiffs_phys_rd fs (SPIFFS_OP_T_OBJ_LU2 OR SPIFFS_OP_C_READ) 0
       (SPIFFS_PAGE_TO_PADDR (cfg fs) (ucast cur_pix)) sizeof_page_header;
     if res < SPIFFS_OK then Some (Halt res, gc, fs) else do {
     let p_hdr = get_page_header bs;
     if SPIFFS_OBJ_IX_ENTRY_SPAN_IX (cfg fs) (ucast (ph_span_ix p_hdr)) \<noteq> ucast (gc_objix_spix gc)
     then Some (if res = SPIFFS_OK then Next else Fail res, gc, fs)
     else if ph_flags p_hdr AND SPIFFS_PH_FLAG_DELET \<noteq> 0
     then do {
       (res, new_data_pix, fs) \<leftarrow> spiffs_page_move fs 0 False obj_id cur_pix;
       if res < SPIFFS_OK then Some (Halt res, gc, fs) else do {
       (res, fs) \<leftarrow> read_lu_page (ucast bix * log_block_size (cfg fs)) page fs;
       if res < SPIFFS_OK then Some (Halt res, gc, fs) else do {
       fs \<leftarrow> set_ix (gc_objix_spix gc) (ph_span_ix p_hdr) new_data_pix fs;
       Some (if res = SPIFFS_OK then Next else Fail res, gc, fs) }}}
     else do {
       (res, fs) \<leftarrow> spiffs_page_delete fs cur_pix;
       if res < SPIFFS_OK then Some (Halt res, gc, fs) else do {
       fs \<leftarrow> set_ix (gc_objix_spix gc) (ph_span_ix p_hdr) SPIFFS_OBJ_ID_FREE fs;
       Some (if res = SPIFFS_OK then Next else Fail res, gc, fs) }}}}"

definition gc_move_ix :: "u16 \<Rightarrow> nat \<Rightarrow> u16 \<Rightarrow> u16 \<Rightarrow> spiffs_gc \<Rightarrow> 'd spiffs \<Rightarrow> (lu_step \<times> spiffs_gc \<times> 'd spiffs) option" where
  "gc_move_ix bix page cur_pix obj_id gc fs = do {
     (res, bs, fs) \<leftarrow> spiffs_phys_rd fs (SPIFFS_OP_T_OBJ_LU2 OR SPIFFS_OP_C_READ) 0
       (SPIFFS_PAGE_TO_PADDR (cfg fs) (ucast cur_pix)) sizeof_page_header;
     if res < SPIFFS_OK then Some (Halt res, gc, fs) else do {
     let p_hdr = get_page_header bs;
     if ph_flags p_hdr AND SPIFFS_PH_FLAG_DELET \<noteq> 0
     then do {
       (res, new_pix, fs) \<leftarrow> spiffs_page_move fs 0 False obj_id cur_pix;
       if res < SPIFFS_OK then Some (Halt res, gc, fs) else do {
       let fs = spiffs_cb_object_event fs SPIFFS_EV_IX_UPD obj_id (ph_span_ix p_hdr) new_pix 0;
       (res, fs) \<leftarrow> read_lu_page (ucast bix * log_block_size (cfg fs)) page fs;
       Some (if res < SPIFFS_OK then Halt res else if res = SPIFFS_OK then Next else Fail res, gc, fs) }}
     else do {
       (res, fs) \<leftarrow> spiffs_page_delete fs cur_pix;
       let fs = (if res = SPIFFS_OK
                 then spiffs_cb_object_event fs SPIFFS_EV_IX_DEL obj_id (ph_span_ix p_hdr) cur_pix 0 else fs);
       Some (if res < SPIFFS_OK then Halt res else if res = SPIFFS_OK then Next else Fail res, gc, fs) }}}"

definition gc_clean_entry :: "u16 \<Rightarrow> (spiffs_gc, 'd) lu_body" where
  "gc_clean_entry bix page cur obj_id gc fs =
     (let cur_pix = ucast (SPIFFS_OBJ_LOOKUP_ENTRY_TO_PIX (cfg fs) (ucast bix) (word_of_nat cur))
      in case gc_state gc of
           FIND_OBJ_DATA \<Rightarrow>
             if obj_id \<noteq> SPIFFS_OBJ_ID_DELETED \<and> obj_id \<noteq> SPIFFS_OBJ_ID_FREE \<and> obj_id AND SPIFFS_OBJ_ID_IX_FLAG = 0
             then Some (Break, gc\<lparr>obj_id_found := True, cur_obj_id := obj_id\<rparr>, fs)
             else Some (Next, gc, fs)
         | MOVE_OBJ_DATA \<Rightarrow>
             if obj_id = cur_obj_id gc then gc_move_data bix page cur_pix obj_id gc fs else Some (Next, gc, fs)
         | MOVE_OBJ_IX \<Rightarrow>
             if obj_id \<noteq> SPIFFS_OBJ_ID_DELETED \<and> obj_id \<noteq> SPIFFS_OBJ_ID_FREE \<and> obj_id AND SPIFFS_OBJ_ID_IX_FLAG \<noteq> 0
             then gc_move_ix bix page cur_pix obj_id gc fs else Some (Next, gc, fs)
         | FINISHED \<Rightarrow> Some (Break, gc, fs))"

text \<open>The switch between states; the results are the code, the entry to go on with and the collector's
  state.  \<open>last_entry\<close> is the entry visited last.\<close>

definition gc_clean_switch ::
  "u16 \<Rightarrow> nat \<Rightarrow> nat \<Rightarrow> spiffs_gc \<Rightarrow> 'd spiffs \<Rightarrow> (int \<times> nat \<times> spiffs_gc \<times> 'd spiffs) option" where
  "gc_clean_switch bix last_entry cur_entry gc fs =
     (case gc_state gc of
        FIND_OBJ_DATA \<Rightarrow>
          if obj_id_found gc
          then do {
            let cur_pix = (ucast (SPIFFS_OBJ_LOOKUP_ENTRY_TO_PIX (cfg fs) (ucast bix) (word_of_nat last_entry)) :: u16);
            let gc = gc\<lparr>stored_scan_entry_index := cur_entry, gc_state := MOVE_OBJ_DATA\<rparr>;
            (res, bs, fs) \<leftarrow> spiffs_phys_rd fs (SPIFFS_OP_T_OBJ_LU2 OR SPIFFS_OP_C_READ) 0
              (SPIFFS_PAGE_TO_PADDR (cfg fs) (ucast cur_pix)) sizeof_page_header;
            if res < SPIFFS_OK then Some (res, 0, gc, fs) else do {
            let gc = gc\<lparr>gc_objix_spix :=
                       ucast (SPIFFS_OBJ_IX_ENTRY_SPAN_IX (cfg fs) (ucast (ph_span_ix (get_page_header bs))))\<rparr>;
            (res, objix_pix, fs) \<leftarrow> spiffs_obj_lu_find_id_and_span fs (cur_obj_id gc OR SPIFFS_OBJ_ID_IX_FLAG)
              (gc_objix_spix gc) 0;
            if res < SPIFFS_OK then Some (res, 0, gc, fs) else do {
            (res, bs, fs) \<leftarrow> spiffs_phys_rd fs (SPIFFS_OP_T_OBJ_LU2 OR SPIFFS_OP_C_READ) 0
              (SPIFFS_PAGE_TO_PADDR (cfg fs) (ucast objix_pix)) (log_page_size (cfg fs));
            let fs = fs\<lparr>work := bs\<rparr>;
            if res < SPIFFS_OK then Some (res, 0, gc, fs) else do {
            let v = SPIFFS_VALIDATE_OBJIX (get_page_header (work fs)) (cur_obj_id gc OR SPIFFS_OBJ_ID_IX_FLAG)
                      (gc_objix_spix gc);
            Some (if v \<noteq> SPIFFS_OK then v else res, 0, gc\<lparr>gc_objix_pix := objix_pix\<rparr>, fs) }}}}
          else Some (SPIFFS_OK, 0, gc\<lparr>gc_state := MOVE_OBJ_IX\<rparr>, fs)
      | MOVE_OBJ_DATA \<Rightarrow> do {
          let gc = gc\<lparr>gc_state := FIND_OBJ_DATA\<rparr>;
          if gc_objix_spix gc = 0
          then do {
            (res, new_objix_pix, fs) \<leftarrow> spiffs_object_update_index_hdr fs None
              (cur_obj_id gc OR SPIFFS_OBJ_ID_IX_FLAG) (gc_objix_pix gc) True None 0;
            Some (res, stored_scan_entry_index gc, gc, fs) }
          else do {
            (res, new_objix_pix, fs) \<leftarrow> spiffs_page_move fs 0 True (cur_obj_id gc OR SPIFFS_OBJ_ID_IX_FLAG)
              (gc_objix_pix gc);
            if res < SPIFFS_OK then Some (res, stored_scan_entry_index gc, gc, fs)
            else Some (res, stored_scan_entry_index gc, gc, spiffs_cb_object_event fs SPIFFS_EV_IX_UPD
                   (cur_obj_id gc) (ph_span_ix (get_page_header (work fs))) new_objix_pix 0) }}
      | MOVE_OBJ_IX \<Rightarrow> Some (SPIFFS_OK, cur_entry, gc\<lparr>gc_state := FINISHED\<rparr>, fs)
      | FINISHED \<Rightarrow> Some (SPIFFS_OK, 0, gc, fs))"

partial_function (option) gc_clean_loop ::
  "u16 \<Rightarrow> nat \<Rightarrow> spiffs_gc \<Rightarrow> 'd spiffs \<Rightarrow> (int \<times> 'd spiffs) option" where
  "gc_clean_loop bix cur_entry gc fs =
     (if gc_state gc \<noteq> FINISHED
      then do {
        (r, cur, gc, fs) \<leftarrow> lu_pages (gc_clean_entry bix) (ucast bix * log_block_size (cfg fs))
          (cur_entry div entries_per_page (cfg fs)) cur_entry (gc\<lparr>obj_id_found := False\<rparr>) fs;
        case r of
          Halt res \<Rightarrow> Some (res, fs)
        | Fail res \<Rightarrow> Some (res, fs)
        | _ \<Rightarrow> do {
            (res, cur_entry, gc, fs) \<leftarrow> gc_clean_switch bix cur (if r = Break then cur + 1 else cur) gc fs;
            if res = SPIFFS_OK then gc_clean_loop bix cur_entry gc fs else Some (res, fs) }}
      else Some (SPIFFS_OK, fs))"

declare gc_clean_loop.simps [code]

definition spiffs_gc_clean :: "'d spiffs \<Rightarrow> u16 \<Rightarrow> (int \<times> 'd spiffs) option" where
  "spiffs_gc_clean fs bix =
     (let fs = (if free_cursor_block_ix fs = bix
                then fs\<lparr>free_cursor_block_ix := ucast ((ucast bix + 1) mod block_count fs),
                        free_cursor_obj_lu_entry := 0\<rparr> else fs)
      in gc_clean_loop bix 0 \<lparr>gc_state = FIND_OBJ_DATA, cur_obj_id = 0, gc_objix_spix = 0, gc_objix_pix = 0,
           stored_scan_entry_index = 0, obj_id_found = False\<rparr> fs)"

section \<open>The check for free pages\<close>

definition SPIFFS_GC_MAX_RUNS :: nat where "SPIFFS_GC_MAX_RUNS = 5"

definition gc_free_pages :: "'d spiffs \<Rightarrow> int" where
  "gc_free_pages fs =
     sint ((SPIFFS_PAGES_PER_BLOCK (cfg fs) - SPIFFS_OBJ_LOOKUP_PAGES (cfg fs)) * (block_count fs - 2)
       - stats_p_allocated fs - stats_p_deleted fs)"

definition gc_check_final :: "u32 \<Rightarrow> int \<Rightarrow> 'd spiffs \<Rightarrow> (int \<times> 'd spiffs) option" where
  "gc_check_final len res fs =
     Some (if sint len > gc_free_pages fs * sint (SPIFFS_DATA_PAGE_SIZE (cfg fs)) then SPIFFS_ERR_FULL else res, fs)"

text \<open>At most the given number of further runs.\<close>

fun gc_check_runs :: "nat \<Rightarrow> u32 \<Rightarrow> u32 \<Rightarrow> int \<Rightarrow> 'd spiffs \<Rightarrow> (int \<times> 'd spiffs) option" where
  "gc_check_runs 0 len needed_pages prev_free_pages fs = gc_check_final len SPIFFS_OK fs"
| "gc_check_runs (Suc runs) len needed_pages prev_free_pages fs = do {
     (res, count, fs) \<leftarrow> spiffs_gc_find_candidate fs (prev_free_pages \<le> 0);
     if res < SPIFFS_OK then Some (res, fs)
     else if count = 0
     then Some (if sint needed_pages < prev_free_pages then SPIFFS_OK else SPIFFS_ERR_FULL, fs)
     else do {
     let cand = cand_block (work fs) 0;
     (res, fs) \<leftarrow> spiffs_gc_clean (fs\<lparr>cleaning := 1\<rparr>) cand;
     let fs = fs\<lparr>cleaning := 0\<rparr>;
     if res < SPIFFS_OK then Some (res, fs) else do {
     (res, fs) \<leftarrow> spiffs_gc_erase_page_stats fs cand;
     if res < SPIFFS_OK then Some (res, fs) else do {
     (res, fs) \<leftarrow> spiffs_gc_erase_block fs cand;
     if res < SPIFFS_OK then Some (res, fs) else do {
     let free_pages = gc_free_pages fs;
     if prev_free_pages \<le> 0 \<and> prev_free_pages = free_pages then gc_check_final len res fs
     else if runs \<noteq> 0 \<and> (free_blocks fs \<le> 2 \<or>
               sint len > free_pages * sint (SPIFFS_DATA_PAGE_SIZE (cfg fs)))
     then gc_check_runs runs len needed_pages free_pages fs
     else gc_check_final len res fs }}}}}"

definition spiffs_gc_check :: "'d spiffs \<Rightarrow> u32 \<Rightarrow> (int \<times> 'd spiffs) option" where
  "spiffs_gc_check fs len =
     (let free_pages = gc_free_pages fs;
          needed_pages = (len + SPIFFS_DATA_PAGE_SIZE (cfg fs) - 1) div SPIFFS_DATA_PAGE_SIZE (cfg fs)
      in if free_blocks fs > 3 \<and> sint len < free_pages * sint (SPIFFS_DATA_PAGE_SIZE (cfg fs))
         then Some (SPIFFS_OK, fs)
         else if sint needed_pages > sint (word_of_int free_pages + stats_p_deleted fs :: u32)
         then Some (SPIFFS_ERR_FULL, fs)
         else gc_check_runs SPIFFS_GC_MAX_RUNS len needed_pages free_pages fs)"

end
