(* ===== verification/SpiffsObject.thy ===== *)
theory SpiffsObject imports SpiffsGc begin

text \<open>
  Objects (files) of \<^verbatim>\<open>spiffs_nucleus.c\<close>: creating, appending, modifying, truncating and reading.
  The object is given by the index of its descriptor.  A loop step ends as a step of the lookup walk
  does: \<open>Next\<close> goes on, \<open>Break\<close> leaves the loop with success, \<open>Fail\<close> leaves it with a code and
  \<open>Halt\<close> returns from the function.
\<close>

section \<open>Creating\<close>

definition SPIFFS_UNDEFINED_LEN :: u32 where "SPIFFS_UNDEFINED_LEN = - 1"

text \<open>The header page of an empty object.  \<^verbatim>\<open>_align\<close> and the byte behind the name are whatever the
  stack held.\<close>

definition empty_index_header :: "u8 \<times> u8 \<Rightarrow> u16 \<Rightarrow> u8 \<Rightarrow> u8 list \<Rightarrow> u8 list" where
  "empty_index_header stack obj_id ty name =
     page_header_bytes \<lparr>ph_obj_id = obj_id, ph_span_ix = 0,
       ph_flags = 0xff AND NOT (SPIFFS_PH_FLAG_FINAL OR SPIFFS_PH_FLAG_INDEX OR SPIFFS_PH_FLAG_USED)\<rparr> @
     [fst stack] @ bytes32 SPIFFS_UNDEFINED_LEN @ [ty] @ name @ [snd stack]"

definition spiffs_object_create ::
  "u8 \<times> u8 \<Rightarrow> 'd spiffs \<Rightarrow> u16 \<Rightarrow> u8 list \<Rightarrow> u8 \<Rightarrow> (int \<times> u16 \<times> 'd spiffs) option" where
  "spiffs_object_create stack fs obj_id name ty = do {
     (res, fs) \<leftarrow> spiffs_gc_check fs (SPIFFS_DATA_PAGE_SIZE (cfg fs));
     if res < SPIFFS_OK then Some (res, 0, fs) else do {
     let obj_id = obj_id OR SPIFFS_OBJ_ID_IX_FLAG;
     (res, bix, entry, fs) \<leftarrow> spiffs_obj_lu_find_free fs (free_cursor_block_ix fs) (free_cursor_obj_lu_entry fs);
     if res < SPIFFS_OK then Some (res, 0, fs) else do {
     bix \<leftarrow> bix;
     entry \<leftarrow> entry;
     (res, fs) \<leftarrow> spiffs_phys_wr fs (SPIFFS_OP_T_OBJ_LU OR SPIFFS_OP_C_UPDT) 0
       (lu_entry_of_block (cfg fs) bix entry) (bytes16 obj_id);
     if res < SPIFFS_OK then Some (res, 0, fs) else do {
     let fs = fs\<lparr>stats_p_allocated := stats_p_allocated fs + 1\<rparr>;
     nm \<leftarrow> strncpy name SPIFFS_OBJ_NAME_LEN;
     (res, fs) \<leftarrow> spiffs_phys_wr fs (SPIFFS_OP_T_OBJ_DA OR SPIFFS_OP_C_UPDT) 0
       (SPIFFS_OBJ_LOOKUP_ENTRY_TO_PADDR (cfg fs) (ucast bix) (word_of_nat entry))
       (empty_index_header stack obj_id ty nm);
     if res < SPIFFS_OK then Some (res, 0, fs) else do {
     let pix = ucast (SPIFFS_OBJ_LOOKUP_ENTRY_TO_PIX (cfg fs) (ucast bix) (word_of_nat entry));
     Some (res, pix, spiffs_cb_object_event fs SPIFFS_EV_IX_NEW obj_id 0 pix SPIFFS_UNDEFINED_LEN) }}}}}"

section \<open>Appending\<close>

text \<open>The local variables of the write loops.\<close>

record ix_walk =
  written :: u32
  cur_objix_spix :: u16
  prev_objix_spix :: u16
  cur_objix_pix :: u16
  data_spix :: u16
  page_offs :: u32
  wk_data_pix :: "u16 option"

definition start_walk :: "'d spiffs_config \<Rightarrow> spiffs_fd \<Rightarrow> u32 \<Rightarrow> ix_walk" where
  "start_walk config fd offset =
     \<lparr>written = 0, cur_objix_spix = 0, prev_objix_spix = - 1, cur_objix_pix = objix_hdr_pix fd,
      data_spix = ucast (offset div SPIFFS_DATA_PAGE_SIZE config), page_offs = offset mod SPIFFS_DATA_PAGE_SIZE config,
      wk_data_pix = None\<rparr>"

text \<open>\<open>n\<close> bytes of a buffer; undefined past its end.\<close>

definition get_bytes :: "u32 \<Rightarrow> u32 \<Rightarrow> u8 list \<Rightarrow> u8 list option" where
  "get_bytes off n b = (if unat off + unat n \<le> length b then Some (slice (unat off) (unat n) b) else None)"

text \<open>Writing the index page in the work buffer to its place, and reading one into the work buffer with
  the check of its header.\<close>

definition write_index_page :: "'d spiffs \<Rightarrow> nat \<Rightarrow> u16 \<Rightarrow> (int \<times> 'd spiffs) option" where
  "write_index_page fs f pix = spiffs_phys_wr fs (SPIFFS_OP_T_OBJ_IX OR SPIFFS_OP_C_UPDT)
     (file_nbr (fd_space fs ! f)) (SPIFFS_PAGE_TO_PADDR (cfg fs) (ucast pix)) (work fs)"

definition load_index_page :: "'d spiffs \<Rightarrow> nat \<Rightarrow> u16 \<Rightarrow> u16 \<Rightarrow> (int \<times> 'd spiffs) option" where
  "load_index_page fs f pix spix = do {
     (res, bs, fs) \<leftarrow> spiffs_phys_rd fs (SPIFFS_OP_T_OBJ_IX OR SPIFFS_OP_C_READ) (file_nbr (fd_space fs ! f))
       (SPIFFS_PAGE_TO_PADDR (cfg fs) (ucast pix)) (log_page_size (cfg fs));
     let fs = fs\<lparr>work := bs\<rparr>;
     if res < SPIFFS_OK then Some (res, fs)
     else let v = SPIFFS_VALIDATE_OBJIX (get_page_header bs) (fd_obj_id (fd_space fs ! f)) spix
       in Some (if v \<noteq> SPIFFS_OK then v else res, fs) }"

text \<open>The page of the index page with the given span index: the cursor's, or searched.\<close>

definition find_index_page :: "'d spiffs \<Rightarrow> nat \<Rightarrow> u16 \<Rightarrow> (int \<times> u16 \<times> 'd spiffs) option" where
  "find_index_page fs f spix =
     (let fd = fd_space fs ! f
      in if cursor_objix_spix fd = spix then Some (SPIFFS_OK, cursor_objix_pix fd, fs)
         else spiffs_obj_lu_find_id_and_span fs (fd_obj_id fd OR SPIFFS_OBJ_ID_IX_FLAG) spix 0)"

definition append_store_index :: "nat \<Rightarrow> u32 \<Rightarrow> ix_walk \<Rightarrow> 'd spiffs \<Rightarrow> (int \<times> 'd spiffs) option" where
  "append_store_index f offset L fs =
     (if prev_objix_spix L = 0
      then let fs = set_oix_size (offset + written L) fs
        in if offset = 0
           then do {
             (res, fs) \<leftarrow> spiffs_page_index_check fs (fd_space fs ! f) (cur_objix_pix L) 0;
             if res < SPIFFS_OK then Some (res, fs) else write_index_page fs f (cur_objix_pix L) }
           else do {
             (res, _, fs) \<leftarrow> spiffs_object_update_index_hdr fs (Some f) (fd_obj_id (fd_space fs ! f))
               (objix_hdr_pix (fd_space fs ! f)) True None (offset + written L);
             Some (res, fs) }
      else do {
        (res, fs) \<leftarrow> spiffs_page_index_check fs (fd_space fs ! f) (cur_objix_pix L) (prev_objix_spix L);
        if res < SPIFFS_OK then Some (res, fs) else do {
        (res, fs) \<leftarrow> write_index_page fs f (cur_objix_pix L);
        if res < SPIFFS_OK then Some (res, fs) else do {
        let fs = spiffs_cb_object_event fs SPIFFS_EV_IX_UPD (fd_obj_id (fd_space fs ! f))
                   (ph_span_ix (get_page_header (work fs))) (cur_objix_pix L) 0;
        (res, _, fs) \<leftarrow> spiffs_object_update_index_hdr fs (Some f) (fd_obj_id (fd_space fs ! f))
          (objix_hdr_pix (fd_space fs ! f)) False None (offset + written L);
        Some (res, fs) }}})"

definition append_load_index :: "nat \<Rightarrow> u32 \<Rightarrow> ix_walk \<Rightarrow> 'd spiffs \<Rightarrow> (int \<times> ix_walk \<times> 'd spiffs) option" where
  "append_load_index f offset L fs =
     (if cur_objix_spix L = 0
      then do {
        (res, fs) \<leftarrow> load_index_page fs f (cur_objix_pix L) 0;
        Some (res, L, fs) }
      else do {
        let fd = fd_space fs ! f;
        let len_objix_spix = ucast (SPIFFS_OBJ_IX_ENTRY_SPAN_IX (cfg fs)
              ((fd_size fd - 1) div SPIFFS_DATA_PAGE_SIZE (cfg fs)));
        (res, L, fs) \<leftarrow>
          (if written L > 0 \<or> cur_objix_spix L > len_objix_spix
           then do {
             (res, p_hdr, pix, fs) \<leftarrow> spiffs_page_allocate_data fs (fd_obj_id fd OR SPIFFS_OBJ_ID_IX_FLAG)
               \<lparr>ph_obj_id = fd_obj_id fd OR SPIFFS_OBJ_ID_IX_FLAG, ph_span_ix = cur_objix_spix L,
                ph_flags = 0xff AND NOT (SPIFFS_PH_FLAG_FINAL OR SPIFFS_PH_FLAG_INDEX)\<rparr> None 0 True;
             if res < SPIFFS_OK then Some (res, L, fs)
             else let fs = spiffs_cb_object_event fs SPIFFS_EV_IX_NEW (fd_obj_id (fd_space fs ! f))
                        (cur_objix_spix L) pix 0
               in Some (res, L\<lparr>cur_objix_pix := pix\<rparr>,
                    fs\<lparr>work := blit 0 (page_header_bytes p_hdr) (replicate (unat (log_page_size (cfg fs))) 0xff)\<rparr>) }
           else do {
             (res, pix, fs) \<leftarrow> find_index_page fs f (cur_objix_spix L);
             if res < SPIFFS_OK then Some (res, L, fs) else do {
             (res, fs) \<leftarrow> load_index_page fs f pix (cur_objix_spix L);
             Some (res, if res < SPIFFS_OK then L else L\<lparr>cur_objix_pix := pix\<rparr>, fs) }});
        if res < SPIFFS_OK then Some (res, L, fs)
        else Some (res, L, fd_update f (\<lambda>fd. fd\<lparr>cursor_objix_pix := cur_objix_pix L,
               cursor_objix_spix := cur_objix_spix L, fd_offset := offset + written L,
               fd_size := offset + written L\<rparr>) fs) })"

text \<open>Storing the previous index page and loading or creating the current one.\<close>

definition append_switch_index :: "nat \<Rightarrow> u32 \<Rightarrow> ix_walk \<Rightarrow> 'd spiffs \<Rightarrow> (int \<times> ix_walk \<times> 'd spiffs) option" where
  "append_switch_index f offset L fs =
     (if cur_objix_spix L \<noteq> prev_objix_spix L
      then do {
        (res, fs) \<leftarrow>
          (if written L > 0
           then do {
             (res, fs) \<leftarrow> append_store_index f offset L fs;
             Some (res, if res < SPIFFS_OK then fs
               else fd_update f (\<lambda>fd. fd\<lparr>fd_size := offset + written L, fd_offset := offset + written L\<rparr>) fs) }
           else Some (SPIFFS_OK, fs));
        if res < SPIFFS_OK then Some (res, L, fs) else do {
        (res, L, fs) \<leftarrow> append_load_index f offset L fs;
        Some (res, L\<lparr>prev_objix_spix := cur_objix_spix L\<rparr>, fs) }}
      else Some (SPIFFS_OK, L, fs))"

definition append_data :: "nat \<Rightarrow> u32 \<Rightarrow> u8 list \<Rightarrow> u32 \<Rightarrow> ix_walk \<Rightarrow> 'd spiffs \<Rightarrow>
    (lu_step \<times> ix_walk \<times> 'd spiffs) option" where
  "append_data f offset data len L fs = do {
     let fd = fd_space fs ! f;
     let to_write = min (len - written L) (SPIFFS_DATA_PAGE_SIZE (cfg fs) - page_offs L);
     bs \<leftarrow> get_bytes (written L) to_write data;
     (halt, res, data_page, fs) \<leftarrow>
       (if page_offs L = 0
        then do {
          (res, _, data_page, fs) \<leftarrow> spiffs_page_allocate_data fs (fd_obj_id fd AND NOT SPIFFS_OBJ_ID_IX_FLAG)
            \<lparr>ph_obj_id = fd_obj_id fd AND NOT SPIFFS_OBJ_ID_IX_FLAG, ph_span_ix = data_spix L,
             ph_flags = 0xff AND NOT SPIFFS_PH_FLAG_FINAL\<rparr> (Some bs) (page_offs L) True;
          Some (False, res, data_page, fs) }
        else do {
          data_page \<leftarrow> get_ix fs (cur_objix_spix L) (data_spix L);
          (res, fs) \<leftarrow> spiffs_page_data_check fs fd data_page (data_spix L);
          if res < SPIFFS_OK then Some (True, res, data_page, fs) else do {
          (res, fs) \<leftarrow> spiffs_phys_wr fs (SPIFFS_OP_T_OBJ_DA OR SPIFFS_OP_C_UPDT) (file_nbr fd)
            (SPIFFS_PAGE_TO_PADDR (cfg fs) (ucast data_page) + sizeof_page_header + page_offs L) bs;
          Some (False, res, data_page, fs) }});
     if halt then Some (Halt res, L, fs)
     else if res \<noteq> SPIFFS_OK then Some (Fail res, L, fs)
     else do {
       fs \<leftarrow> set_ix (cur_objix_spix L) (data_spix L) data_page fs;
       let fs = (if cur_objix_spix L = 0 then set_oix_size (offset + written L) fs else fs);
       Some (Next, L\<lparr>page_offs := 0, data_spix := data_spix L + 1, written := written L + to_write\<rparr>, fs) }}"

definition append_step :: "nat \<Rightarrow> u32 \<Rightarrow> u8 list \<Rightarrow> u32 \<Rightarrow> ix_walk \<Rightarrow> 'd spiffs \<Rightarrow>
    (lu_step \<times> ix_walk \<times> 'd spiffs) option" where
  "append_step f offset data len L fs = do {
     let L = L\<lparr>cur_objix_spix := ucast (SPIFFS_OBJ_IX_ENTRY_SPAN_IX (cfg fs) (ucast (data_spix L)))\<rparr>;
     (res, L, fs) \<leftarrow> append_switch_index f offset L fs;
     if res < SPIFFS_OK then Some (Halt res, L, fs) else append_data f offset data len L fs }"

partial_function (option) append_loop :: "nat \<Rightarrow> u32 \<Rightarrow> u8 list \<Rightarrow> u32 \<Rightarrow> ix_walk \<Rightarrow> 'd spiffs \<Rightarrow>
    (lu_step \<times> ix_walk \<times> 'd spiffs) option" where
  "append_loop f offset data len L fs =
     (if written L < len
      then do {
        (r, L, fs) \<leftarrow> append_step f offset data len L fs;
        if r = Next then append_loop f offset data len L fs else Some (r, L, fs) }
      else Some (Next, L, fs))"

declare append_loop.simps [code]

text \<open>Storing the last index page and the size.\<close>

definition append_finish :: "nat \<Rightarrow> u32 \<Rightarrow> ix_walk \<Rightarrow> 'd spiffs \<Rightarrow> (int \<times> 'd spiffs) option" where
  "append_finish f offset L fs = do {
     let fs = fd_update f (\<lambda>fd. fd\<lparr>fd_size := offset + written L, fd_offset := offset + written L,
                cursor_objix_pix := cur_objix_pix L, cursor_objix_spix := cur_objix_spix L\<rparr>) fs;
     let fd = fd_space fs ! f;
     if cur_objix_spix L \<noteq> 0
     then do {
       (res2, fs) \<leftarrow> spiffs_page_index_check fs fd (cur_objix_pix L) (cur_objix_spix L);
       if res2 < SPIFFS_OK then Some (res2, fs) else do {
       (res2, fs) \<leftarrow> write_index_page fs f (cur_objix_pix L);
       if res2 < SPIFFS_OK then Some (res2, fs) else do {
       let fs = spiffs_cb_object_event fs SPIFFS_EV_IX_UPD (fd_obj_id fd)
                  (ph_span_ix (get_page_header (work fs))) (cur_objix_pix L) 0;
       (res2, _, fs) \<leftarrow> spiffs_object_update_index_hdr fs (Some f) (fd_obj_id (fd_space fs ! f))
         (objix_hdr_pix (fd_space fs ! f)) False None (offset + written L);
       Some (res2, fs) }}}
     else if offset = 0
     then do {
       let fs = set_oix_size (offset + written L) fs;
       (res2, fs) \<leftarrow> spiffs_page_index_check fs fd (cur_objix_pix L) (cur_objix_spix L);
       if res2 < SPIFFS_OK then Some (res2, fs) else do {
       (res2, fs) \<leftarrow> write_index_page fs f (cur_objix_pix L);
       if res2 < SPIFFS_OK then Some (res2, fs)
       else Some (SPIFFS_OK, spiffs_cb_object_event fs SPIFFS_EV_IX_UPD (fd_obj_id fd)
              (ph_span_ix (get_page_header (work fs))) (cur_objix_pix L) (oix_size (work fs))) }}
     else do {
       (res2, _, fs) \<leftarrow> spiffs_object_update_index_hdr fs (Some f) (fd_obj_id fd) (objix_hdr_pix fd)
         True None (offset + written L);
       Some (res2, fs) }}"

definition spiffs_object_append :: "'d spiffs \<Rightarrow> nat \<Rightarrow> u32 \<Rightarrow> u8 list \<Rightarrow> u32 \<Rightarrow> (int \<times> 'd spiffs) option" where
  "spiffs_object_append fs f offset data len = do {
     let offset = (if offset > fd_size (fd_space fs ! f) then fd_size (fd_space fs ! f) else offset);
     (res, fs) \<leftarrow> spiffs_gc_check fs (len + SPIFFS_DATA_PAGE_SIZE (cfg fs));
     if res < SPIFFS_OK then Some (res, fs) else do {
     (r, L, fs) \<leftarrow> (if res = SPIFFS_OK
        then append_loop f offset data len (start_walk (cfg fs) (fd_space fs ! f) offset) fs
        else Some (Fail res, start_walk (cfg fs) (fd_space fs ! f) offset, fs));
     case r of
       Halt res \<Rightarrow> Some (res, fs)
     | _ \<Rightarrow> do {
         (res2, fs) \<leftarrow> append_finish f offset L fs;
         Some (if res2 < SPIFFS_OK then res2 else case r of Fail res \<Rightarrow> res | _ \<Rightarrow> SPIFFS_OK, fs) }}}"

section \<open>Modifying\<close>

definition modify_store_index :: "nat \<Rightarrow> ix_walk \<Rightarrow> 'd spiffs \<Rightarrow> (int \<times> 'd spiffs) option" where
  "modify_store_index f L fs =
     (if prev_objix_spix L = 0
      then do {
        (res, _, fs) \<leftarrow> spiffs_object_update_index_hdr fs (Some f) (fd_obj_id (fd_space fs ! f))
          (objix_hdr_pix (fd_space fs ! f)) True None 0;
        Some (res, fs) }
      else do {
        (res, fs) \<leftarrow> spiffs_page_index_check fs (fd_space fs ! f) (cur_objix_pix L) (prev_objix_spix L);
        if res < SPIFFS_OK then Some (res, fs) else do {
        (res, new_objix_pix, fs) \<leftarrow> spiffs_page_move fs (file_nbr (fd_space fs ! f)) True
          (fd_obj_id (fd_space fs ! f)) (cur_objix_pix L);
        if res < SPIFFS_OK then Some (res, fs)
        else Some (res, spiffs_cb_object_event fs SPIFFS_EV_IX_UPD (fd_obj_id (fd_space fs ! f))
               (ph_span_ix (get_page_header (work fs))) new_objix_pix 0) }})"

definition modify_switch_index :: "nat \<Rightarrow> u32 \<Rightarrow> ix_walk \<Rightarrow> 'd spiffs \<Rightarrow> (int \<times> ix_walk \<times> 'd spiffs) option" where
  "modify_switch_index f offset L fs =
     (if cur_objix_spix L \<noteq> prev_objix_spix L
      then do {
        (res, fs) \<leftarrow> (if written L > 0 then modify_store_index f L fs else Some (SPIFFS_OK, fs));
        if res < SPIFFS_OK then Some (res, L, fs) else do {
        (res, pix, fs) \<leftarrow> (if cur_objix_spix L = 0 then Some (SPIFFS_OK, cur_objix_pix L, fs)
                         else find_index_page fs f (cur_objix_spix L));
        if res < SPIFFS_OK then Some (res, L, fs) else do {
        (res, fs) \<leftarrow> load_index_page fs f pix (cur_objix_spix L);
        if res < SPIFFS_OK then Some (res, L, fs) else do {
        let L = L\<lparr>cur_objix_pix := pix, prev_objix_spix := cur_objix_spix L\<rparr>;
        Some (res, L, fd_update f (\<lambda>fd. fd\<lparr>cursor_objix_pix := cur_objix_pix L,
          cursor_objix_spix := cur_objix_spix L, fd_offset := offset + written L\<rparr>) fs) }}}}
      else Some (SPIFFS_OK, L, fs))"

text \<open>Replacing part of a data page: a new page gets the unmodified bytes before and after, and the new
  ones.  The first component tells that the function returns.\<close>

definition modify_partial_page :: "nat \<Rightarrow> ix_walk \<Rightarrow> u16 \<Rightarrow> spiffs_page_header \<Rightarrow> u8 list \<Rightarrow> u32 \<Rightarrow> 'd spiffs \<Rightarrow>
    (bool \<times> int \<times> u16 \<times> 'd spiffs) option" where
  "modify_partial_page f L orig_data_pix p_hdr bs to_write fs = do {
     let fd = fd_space fs ! f;
     let src = SPIFFS_PAGE_TO_PADDR (cfg fs) (ucast orig_data_pix);
     (res, fs) \<leftarrow> spiffs_page_data_check fs fd orig_data_pix (data_spix L);
     if res < SPIFFS_OK then Some (True, res, 0, fs) else do {
     (res, p_hdr, data_pix, fs) \<leftarrow> spiffs_page_allocate_data fs (fd_obj_id fd AND NOT SPIFFS_OBJ_ID_IX_FLAG)
       p_hdr None 0 False;
     let dst = SPIFFS_PAGE_TO_PADDR (cfg fs) (ucast data_pix);
     if res \<noteq> SPIFFS_OK then Some (False, res, 0, fs) else do {
     (res, fs) \<leftarrow> (if page_offs L > 0
        then spiffs_phys_cpy fs (file_nbr fd) (dst + sizeof_page_header) (src + sizeof_page_header) (page_offs L)
        else Some (res, fs));
     if res \<noteq> SPIFFS_OK then Some (False, res, 0, fs) else do {
     let after = page_offs L + to_write;
     (res, fs) \<leftarrow> (if after < SPIFFS_DATA_PAGE_SIZE (cfg fs)
        then spiffs_phys_cpy fs (file_nbr fd) (dst + sizeof_page_header + after) (src + sizeof_page_header + after)
               (SPIFFS_DATA_PAGE_SIZE (cfg fs) - after)
        else Some (res, fs));
     if res \<noteq> SPIFFS_OK then Some (False, res, 0, fs) else do {
     (res, fs) \<leftarrow> spiffs_phys_wr fs (SPIFFS_OP_T_OBJ_DA OR SPIFFS_OP_C_UPDT) (file_nbr fd)
       (dst + sizeof_page_header + page_offs L) bs;
     if res \<noteq> SPIFFS_OK then Some (False, res, 0, fs) else do {
     (res, fs) \<leftarrow> spiffs_phys_wr fs (SPIFFS_OP_T_OBJ_DA OR SPIFFS_OP_C_UPDT) (file_nbr fd)
       (dst + offsetof_flags) [ph_flags p_hdr AND NOT SPIFFS_PH_FLAG_FINAL];
     Some (False, res, data_pix, fs) }}}}}}"

text \<open>The result of allocating a full page is not looked at before the original page is deleted; the
  variable \<^verbatim>\<open>data_pix\<close> (\<open>wk_data_pix\<close>) then still has the page of an earlier turn, or is not set.\<close>

definition modify_data :: "nat \<Rightarrow> u8 list \<Rightarrow> u32 \<Rightarrow> ix_walk \<Rightarrow> 'd spiffs \<Rightarrow>
    (lu_step \<times> ix_walk \<times> 'd spiffs) option" where
  "modify_data f data len L fs = do {
     let fd = fd_space fs ! f;
     let to_write = min (len - written L) (SPIFFS_DATA_PAGE_SIZE (cfg fs) - page_offs L);
     bs \<leftarrow> get_bytes (written L) to_write data;
     orig_data_pix \<leftarrow> get_ix fs (cur_objix_spix L) (data_spix L);
     let p_hdr = \<lparr>ph_obj_id = fd_obj_id fd AND NOT SPIFFS_OBJ_ID_IX_FLAG, ph_span_ix = data_spix L, ph_flags = 0xff\<rparr>;
     (halt, res, data_pix, fs) \<leftarrow>
       (if page_offs L = 0 \<and> to_write = SPIFFS_DATA_PAGE_SIZE (cfg fs)
        then do {
          (res, _, data_pix, fs) \<leftarrow> spiffs_page_allocate_data fs (fd_obj_id fd AND NOT SPIFFS_OBJ_ID_IX_FLAG)
            p_hdr (Some bs) (page_offs L) True;
          Some (False, res, data_pix, fs) }
        else modify_partial_page f L orig_data_pix p_hdr bs to_write fs);
     let full_page = (page_offs L = 0 \<and> to_write = SPIFFS_DATA_PAGE_SIZE (cfg fs));
     let L = (if res < SPIFFS_OK then L else L\<lparr>wk_data_pix := Some data_pix\<rparr>);
     if halt then Some (Halt res, L, fs)
     else if res \<noteq> SPIFFS_OK \<and> \<not> full_page then Some (Fail res, L, fs)
     else do {
       (res, fs) \<leftarrow> spiffs_page_delete fs orig_data_pix;
       if res \<noteq> SPIFFS_OK then Some (Fail res, L, fs) else do {
       data_pix \<leftarrow> wk_data_pix L;
       fs \<leftarrow> set_ix (cur_objix_spix L) (data_spix L) data_pix fs;
       Some (Next, L\<lparr>page_offs := 0, data_spix := data_spix L + 1, written := written L + to_write\<rparr>, fs) }}}"

definition modify_step :: "nat \<Rightarrow> u32 \<Rightarrow> u8 list \<Rightarrow> u32 \<Rightarrow> ix_walk \<Rightarrow> 'd spiffs \<Rightarrow>
    (lu_step \<times> ix_walk \<times> 'd spiffs) option" where
  "modify_step f offset data len L fs = do {
     let L = L\<lparr>cur_objix_spix := ucast (SPIFFS_OBJ_IX_ENTRY_SPAN_IX (cfg fs) (ucast (data_spix L)))\<rparr>;
     (res, L, fs) \<leftarrow> modify_switch_index f offset L fs;
     if res < SPIFFS_OK then Some (Halt res, L, fs) else modify_data f data len L fs }"

partial_function (option) modify_loop :: "nat \<Rightarrow> u32 \<Rightarrow> u8 list \<Rightarrow> u32 \<Rightarrow> ix_walk \<Rightarrow> 'd spiffs \<Rightarrow>
    (lu_step \<times> ix_walk \<times> 'd spiffs) option" where
  "modify_loop f offset data len L fs =
     (if written L < len
      then do {
        (r, L, fs) \<leftarrow> modify_step f offset data len L fs;
        if r = Next then modify_loop f offset data len L fs else Some (r, L, fs) }
      else Some (Next, L, fs))"

declare modify_loop.simps [code]

definition modify_finish :: "nat \<Rightarrow> u32 \<Rightarrow> ix_walk \<Rightarrow> 'd spiffs \<Rightarrow> (int \<times> 'd spiffs) option" where
  "modify_finish f offset L fs = do {
     let fs = fd_update f (\<lambda>fd. fd\<lparr>fd_offset := offset + written L, cursor_objix_pix := cur_objix_pix L,
                cursor_objix_spix := cur_objix_spix L\<rparr>) fs;
     let fd = fd_space fs ! f;
     if cur_objix_spix L \<noteq> 0
     then do {
       (res2, fs) \<leftarrow> spiffs_page_index_check fs fd (cur_objix_pix L) (cur_objix_spix L);
       if res2 < SPIFFS_OK then Some (res2, fs) else do {
       (res2, new_objix_pix, fs) \<leftarrow> spiffs_page_move fs (file_nbr fd) True (fd_obj_id fd) (cur_objix_pix L);
       let fs = fd_update f (\<lambda>fd. fd\<lparr>cursor_objix_pix := new_objix_pix, cursor_objix_spix := cur_objix_spix L\<rparr>) fs;
       if res2 < SPIFFS_OK then Some (res2, fs)
       else Some (SPIFFS_OK, spiffs_cb_object_event fs SPIFFS_EV_IX_UPD (fd_obj_id (fd_space fs ! f))
              (ph_span_ix (get_page_header (work fs))) new_objix_pix 0) }}
     else do {
       (res2, _, fs) \<leftarrow> spiffs_object_update_index_hdr fs (Some f) (fd_obj_id fd) (objix_hdr_pix fd) True None 0;
       Some (if res2 < SPIFFS_OK then res2 else SPIFFS_OK, fs) }}"

definition spiffs_object_modify :: "'d spiffs \<Rightarrow> nat \<Rightarrow> u32 \<Rightarrow> u8 list \<Rightarrow> u32 \<Rightarrow> (int \<times> 'd spiffs) option" where
  "spiffs_object_modify fs f offset data len = do {
     (res, fs) \<leftarrow> spiffs_gc_check fs (len + SPIFFS_DATA_PAGE_SIZE (cfg fs));
     if res < SPIFFS_OK then Some (res, fs) else do {
     let L = start_walk (cfg fs) (fd_space fs ! f) offset;
     (r, L, fs) \<leftarrow> (if res = SPIFFS_OK then modify_loop f offset data len L fs else Some (Fail res, L, fs));
     case r of
       Halt res \<Rightarrow> Some (res, fs)
     | _ \<Rightarrow> do {
         (res2, fs) \<leftarrow> modify_finish f offset L fs;
         Some (if res2 < SPIFFS_OK then res2 else case r of Fail res \<Rightarrow> res | _ \<Rightarrow> SPIFFS_OK, fs) }}}"

section \<open>Truncating\<close>

record truncate_walk =
  tr_objix_pix :: u16
  tr_data_spix :: u16
  tr_cur_size :: u32
  tr_objix_spix :: u16
  tr_prev_spix :: u16

definition truncate_start :: "'d spiffs_config \<Rightarrow> spiffs_fd \<Rightarrow> truncate_walk" where
  "truncate_start config fd =
     \<lparr>tr_objix_pix = objix_hdr_pix fd,
      tr_data_spix = ucast ((if fd_size fd > 0 then fd_size fd - 1 else 0) div SPIFFS_DATA_PAGE_SIZE config),
      tr_cur_size = (if fd_size fd = SPIFFS_UNDEFINED_LEN then 0 else fd_size fd),
      tr_objix_spix = 0, tr_prev_spix = - 1\<rparr>"

text \<open>Removing the previous index page, which is empty now, and loading the current one.\<close>

definition truncate_switch_index :: "nat \<Rightarrow> truncate_walk \<Rightarrow> 'd spiffs \<Rightarrow> (int \<times> truncate_walk \<times> 'd spiffs) option" where
  "truncate_switch_index f L fs =
     (if tr_prev_spix L \<noteq> tr_objix_spix L
      then do {
        (res, fs) \<leftarrow>
          (if tr_prev_spix L \<noteq> - 1
           then do {
             (res, fs) \<leftarrow> spiffs_page_index_check fs (fd_space fs ! f) (tr_objix_pix L) (tr_prev_spix L);
             if res < SPIFFS_OK then Some (res, fs) else do {
             (res, fs) \<leftarrow> spiffs_page_delete fs (tr_objix_pix L);
             if res < SPIFFS_OK then Some (res, fs) else do {
             let fs = spiffs_cb_object_event fs SPIFFS_EV_IX_DEL (fd_obj_id (fd_space fs ! f))
                        (ph_span_ix (get_page_header (work fs))) (tr_objix_pix L) 0;
             if tr_prev_spix L > 0
             then do {
               (res, _, fs) \<leftarrow> spiffs_object_update_index_hdr fs (Some f) (fd_obj_id (fd_space fs ! f))
                 (objix_hdr_pix (fd_space fs ! f)) False None (tr_cur_size L);
               Some (res, if res < SPIFFS_OK then fs
                 else fd_update f (\<lambda>fd. fd\<lparr>fd_size := tr_cur_size L\<rparr>) fs) }
             else Some (res, fs) }}}
           else Some (SPIFFS_OK, fs));
        if res < SPIFFS_OK then Some (res, L, fs) else do {
        (res, pix, fs) \<leftarrow>
          (if tr_objix_spix L = 0 then Some (SPIFFS_OK, objix_hdr_pix (fd_space fs ! f), fs)
           else spiffs_obj_lu_find_id_and_span fs (fd_obj_id (fd_space fs ! f) OR SPIFFS_OBJ_ID_IX_FLAG)
                  (tr_objix_spix L) 0);
        if res < SPIFFS_OK then Some (res, L, fs) else do {
        let L = L\<lparr>tr_objix_pix := pix\<rparr>;
        (res, fs) \<leftarrow> load_index_page fs f pix (tr_objix_spix L);
        if res < SPIFFS_OK then Some (res, L, fs)
        else Some (SPIFFS_OK, L\<lparr>tr_prev_spix := tr_objix_spix L\<rparr>,
               fd_update f (\<lambda>fd. fd\<lparr>cursor_objix_pix := pix, cursor_objix_spix := tr_objix_spix L,
                 fd_offset := tr_cur_size L\<rparr>) fs) }}}
      else Some (SPIFFS_OK, L, fs))"

definition removes_whole_page :: "'d spiffs_config \<Rightarrow> u32 \<Rightarrow> u32 \<Rightarrow> bool" where
  "removes_whole_page config cur_size new_size \<longleftrightarrow> cur_size - SPIFFS_DATA_PAGE_SIZE config \<ge> new_size"

definition truncate_page :: "nat \<Rightarrow> truncate_walk \<Rightarrow> u16 \<Rightarrow> 'd spiffs \<Rightarrow> (lu_step \<times> truncate_walk \<times> 'd spiffs) option" where
  "truncate_page f L data_pix fs = do {
     (res, fs) \<leftarrow> spiffs_page_data_check fs (fd_space fs ! f) data_pix (tr_data_spix L);
     if res \<noteq> SPIFFS_ERR_DELETED \<and> res \<noteq> SPIFFS_OK \<and> res \<noteq> SPIFFS_ERR_INDEX_REF_FREE
     then Some (Fail res, L, fs) else do {
     (res, fs) \<leftarrow> (if res = SPIFFS_OK then spiffs_page_delete fs data_pix else Some (SPIFFS_OK, fs));
     if res \<noteq> SPIFFS_OK then Some (Fail res, L, fs) else do {
     let dps = SPIFFS_DATA_PAGE_SIZE (cfg fs);
     let cur_size = (if tr_cur_size L mod dps = 0 then tr_cur_size L - dps
                     else tr_cur_size L - tr_cur_size L mod dps);
     Some (Next, L\<lparr>tr_cur_size := cur_size, tr_data_spix := tr_data_spix L - 1\<rparr>,
       fd_update f (\<lambda>fd. fd\<lparr>fd_size := cur_size, fd_offset := cur_size\<rparr>) fs) }}}"

definition truncate_partial_page :: "nat \<Rightarrow> u32 \<Rightarrow> truncate_walk \<Rightarrow> u16 \<Rightarrow> 'd spiffs \<Rightarrow>
    (lu_step \<times> truncate_walk \<times> 'd spiffs) option" where
  "truncate_partial_page f new_size L data_pix fs = do {
     let fd = fd_space fs ! f;
     let dps = SPIFFS_DATA_PAGE_SIZE (cfg fs);
     let bytes_to_remove = dps - new_size mod dps;
     (res, fs) \<leftarrow> spiffs_page_data_check fs fd data_pix (tr_data_spix L);
     if res \<noteq> SPIFFS_OK then Some (Fail res, L, fs) else do {
     (res, p_hdr, new_data_pix, fs) \<leftarrow> spiffs_page_allocate_data fs (fd_obj_id fd AND NOT SPIFFS_OBJ_ID_IX_FLAG)
       \<lparr>ph_obj_id = fd_obj_id fd AND NOT SPIFFS_OBJ_ID_IX_FLAG, ph_span_ix = tr_data_spix L, ph_flags = 0xff\<rparr>
       None 0 False;
     if res \<noteq> SPIFFS_OK then Some (Fail res, L, fs) else do {
     (res, fs) \<leftarrow> spiffs_phys_cpy fs 0 (SPIFFS_PAGE_TO_PADDR (cfg fs) (ucast new_data_pix) + sizeof_page_header)
       (SPIFFS_PAGE_TO_PADDR (cfg fs) (ucast data_pix) + sizeof_page_header) (dps - bytes_to_remove);
     if res \<noteq> SPIFFS_OK then Some (Fail res, L, fs) else do {
     (res, fs) \<leftarrow> spiffs_page_delete fs data_pix;
     if res \<noteq> SPIFFS_OK then Some (Fail res, L, fs) else do {
     (res, fs) \<leftarrow> spiffs_phys_wr fs (SPIFFS_OP_T_OBJ_DA OR SPIFFS_OP_C_UPDT) (file_nbr (fd_space fs ! f))
       (SPIFFS_PAGE_TO_PADDR (cfg fs) (ucast new_data_pix) + offsetof_flags)
       [ph_flags p_hdr AND NOT SPIFFS_PH_FLAG_FINAL];
     if res \<noteq> SPIFFS_OK then Some (Fail res, L, fs) else do {
     fs \<leftarrow> set_ix (tr_objix_spix L) (tr_data_spix L) new_data_pix fs;
     Some (Break, L\<lparr>tr_cur_size := new_size\<rparr>,
       fd_update f (\<lambda>fd. fd\<lparr>fd_size := new_size, fd_offset := new_size\<rparr>) fs) }}}}}}"

definition truncate_step :: "nat \<Rightarrow> u32 \<Rightarrow> truncate_walk \<Rightarrow> 'd spiffs \<Rightarrow> (lu_step \<times> truncate_walk \<times> 'd spiffs) option" where
  "truncate_step f new_size L fs = do {
     let L = L\<lparr>tr_objix_spix := ucast (SPIFFS_OBJ_IX_ENTRY_SPAN_IX (cfg fs) (ucast (tr_data_spix L)))\<rparr>;
     (res, L, fs) \<leftarrow> truncate_switch_index f L fs;
     if res < SPIFFS_OK then Some (Halt res, L, fs) else do {
     data_pix \<leftarrow> get_ix fs (tr_objix_spix L) (tr_data_spix L);
     fs \<leftarrow> set_ix (tr_objix_spix L) (tr_data_spix L) SPIFFS_OBJ_ID_FREE fs;
     if removes_whole_page (cfg fs) (tr_cur_size L) new_size then truncate_page f L data_pix fs
     else truncate_partial_page f new_size L data_pix fs }}"

partial_function (option) truncate_loop :: "nat \<Rightarrow> u32 \<Rightarrow> truncate_walk \<Rightarrow> 'd spiffs \<Rightarrow>
    (lu_step \<times> truncate_walk \<times> 'd spiffs) option" where
  "truncate_loop f new_size L fs =
     (if tr_cur_size L > new_size
      then do {
        (r, L, fs) \<leftarrow> truncate_step f new_size L fs;
        if r = Next then truncate_loop f new_size L fs else Some (r, L, fs) }
      else Some (Next, L, fs))"

declare truncate_loop.simps [code]

definition truncate_finish :: "nat \<Rightarrow> bool \<Rightarrow> truncate_walk \<Rightarrow> 'd spiffs \<Rightarrow> (int \<times> 'd spiffs) option" where
  "truncate_finish f remove_object L fs = do {
     let fd = fd_space fs ! f;
     if tr_objix_spix L = 0
     then if tr_cur_size L = 0
       then if remove_object
         then do {
           (res, fs) \<leftarrow> spiffs_page_index_check fs fd (tr_objix_pix L) 0;
           if res < SPIFFS_OK then Some (res, fs) else do {
           (res, fs) \<leftarrow> spiffs_page_delete fs (tr_objix_pix L);
           if res < SPIFFS_OK then Some (res, fs)
           else Some (res, spiffs_cb_object_event fs SPIFFS_EV_IX_DEL (fd_obj_id fd) 0 (tr_objix_pix L) 0) }}
         else do {
           let h = unat sizeof_page_object_ix_header;
           let fs = fs\<lparr>work := take h (work fs) @ replicate (unat (log_page_size (cfg fs)) - h) 0xff\<rparr>;
           (res, _, fs) \<leftarrow> spiffs_object_update_index_hdr fs (Some f) (fd_obj_id fd) (tr_objix_pix L)
             True None SPIFFS_UNDEFINED_LEN;
           Some (res, fs) }
       else do {
         (res, _, fs) \<leftarrow> spiffs_object_update_index_hdr fs (Some f) (fd_obj_id fd) (tr_objix_pix L)
           True None (tr_cur_size L);
         Some (res, fs) }
     else do {
       (res, fs) \<leftarrow> spiffs_page_index_check fs fd (tr_objix_pix L) (tr_objix_spix L);
       if res < SPIFFS_OK then Some (res, fs) else do {
       (res, new_objix_pix, fs) \<leftarrow> spiffs_page_move fs (file_nbr fd) True (fd_obj_id fd) (tr_objix_pix L);
       if res < SPIFFS_OK then Some (res, fs) else do {
       let fs = spiffs_cb_object_event fs SPIFFS_EV_IX_UPD (fd_obj_id fd)
                  (ph_span_ix (get_page_header (work fs))) new_objix_pix 0;
       let fs = fd_update f (\<lambda>fd. fd\<lparr>cursor_objix_pix := new_objix_pix, cursor_objix_spix := tr_objix_spix L,
                  fd_offset := tr_cur_size L\<rparr>) fs;
       (res, _, fs) \<leftarrow> spiffs_object_update_index_hdr fs (Some f) (fd_obj_id (fd_space fs ! f))
         (objix_hdr_pix (fd_space fs ! f)) False None (tr_cur_size L);
       Some (res, fs) }}}}"

definition spiffs_object_truncate :: "'d spiffs \<Rightarrow> nat \<Rightarrow> u32 \<Rightarrow> bool \<Rightarrow> (int \<times> 'd spiffs) option" where
  "spiffs_object_truncate fs f new_size remove_object = do {
     (res, fs) \<leftarrow> spiffs_gc_check fs (if remove_object then 0 else SPIFFS_DATA_PAGE_SIZE (cfg fs));
     if res < SPIFFS_OK then Some (res, fs) else do {
     let L = truncate_start (cfg fs) (fd_space fs ! f);
     (res, fs) \<leftarrow> (if remove_object \<and> new_size = 0
        then spiffs_phys_wr fs (SPIFFS_OP_T_OBJ_IX OR SPIFFS_OP_C_UPDT) (file_nbr (fd_space fs ! f))
          (SPIFFS_PAGE_TO_PADDR (cfg fs) (ucast (objix_hdr_pix (fd_space fs ! f))) + offsetof_flags)
          [NOT (SPIFFS_PH_FLAG_USED OR SPIFFS_PH_FLAG_INDEX OR SPIFFS_PH_FLAG_FINAL OR SPIFFS_PH_FLAG_IXDELE)]
        else Some (res, fs));
     if res < SPIFFS_OK then Some (res, fs) else do {
     (r, L, fs) \<leftarrow> truncate_loop f new_size L fs;
     case r of
       Halt res \<Rightarrow> Some (res, fs)
     | _ \<Rightarrow> do {
         (res, fs) \<leftarrow> truncate_finish f remove_object L fs;
         Some (res, if res < SPIFFS_OK then fs
           else fd_update f (\<lambda>fd. fd\<lparr>fd_size := tr_cur_size L\<rparr>) fs) }}}}"

section \<open>Reading\<close>

record read_walk =
  rd_offset :: u32
  rd_data_spix :: u16
  rd_prev_spix :: u16
  rd_bytes :: "u8 list"

text \<open>One turn of the loop; \<open>Break\<close> never happens.\<close>

definition read_switch_index :: "nat \<Rightarrow> u16 \<Rightarrow> read_walk \<Rightarrow> 'd spiffs \<Rightarrow> (int \<times> 'd spiffs) option" where
  "read_switch_index f cur_spix L fs =
     (if rd_prev_spix L \<noteq> cur_spix
      then do {
        (res, objix_pix, fs) \<leftarrow>
          (if cur_spix = 0 then Some (SPIFFS_OK, objix_hdr_pix (fd_space fs ! f), fs)
           else spiffs_obj_lu_find_id_and_span fs (fd_obj_id (fd_space fs ! f) OR SPIFFS_OBJ_ID_IX_FLAG) cur_spix 0);
        if res < SPIFFS_OK then Some (res, fs) else do {
        (res, fs) \<leftarrow> load_index_page fs f objix_pix cur_spix;
        if res < SPIFFS_OK then Some (res, fs)
        else Some (res, fd_update f (\<lambda>fd. fd\<lparr>fd_offset := rd_offset L, cursor_objix_pix := objix_pix,
               cursor_objix_spix := cur_spix\<rparr>) fs) }}
      else Some (SPIFFS_OK, fs))"

definition read_step :: "nat \<Rightarrow> u32 \<Rightarrow> read_walk \<Rightarrow> 'd spiffs \<Rightarrow> (lu_step \<times> read_walk \<times> 'd spiffs) option" where
  "read_step f fin L fs = do {
     let cur_spix = (ucast (SPIFFS_OBJ_IX_ENTRY_SPAN_IX (cfg fs) (ucast (rd_data_spix L))) :: u16);
     (res, fs) \<leftarrow> read_switch_index f cur_spix L fs;
     if res < SPIFFS_OK then Some (Halt res, L, fs) else do {
     let L = L\<lparr>rd_prev_spix := cur_spix\<rparr>;
     data_pix \<leftarrow> get_ix fs cur_spix (rd_data_spix L);
     let in_page = rd_offset L mod SPIFFS_DATA_PAGE_SIZE (cfg fs);
     let len_to_read = min (min (fin - rd_offset L) (SPIFFS_DATA_PAGE_SIZE (cfg fs) - in_page))
           (fd_size (fd_space fs ! f));
     if len_to_read = 0 then Some (Fail SPIFFS_ERR_END_OF_OBJECT, L, fs) else do {
     (res, fs) \<leftarrow> spiffs_page_data_check fs (fd_space fs ! f) data_pix (rd_data_spix L);
     if res < SPIFFS_OK then Some (Halt res, L, fs) else do {
     (res, bs, fs) \<leftarrow> spiffs_phys_rd fs (SPIFFS_OP_T_OBJ_DA OR SPIFFS_OP_C_READ) (file_nbr (fd_space fs ! f))
       (SPIFFS_PAGE_TO_PADDR (cfg fs) (ucast data_pix) + sizeof_page_header + in_page) len_to_read;
     if res < SPIFFS_OK then Some (Halt res, L, fs)
     else Some (Next, L\<lparr>rd_bytes := rd_bytes L @ bs, rd_offset := rd_offset L + len_to_read,
            rd_data_spix := rd_data_spix L + 1\<rparr>,
            fd_update f (\<lambda>fd. fd\<lparr>fd_offset := rd_offset L + len_to_read\<rparr>) fs) }}}}"

partial_function (option) read_loop :: "nat \<Rightarrow> u32 \<Rightarrow> read_walk \<Rightarrow> 'd spiffs \<Rightarrow>
    (int \<times> read_walk \<times> 'd spiffs) option" where
  "read_loop f fin L fs =
     (if rd_offset L < fin
      then do {
        (r, L, fs) \<leftarrow> read_step f fin L fs;
        case r of Next \<Rightarrow> read_loop f fin L fs | Halt res \<Rightarrow> Some (res, L, fs) | Fail res \<Rightarrow> Some (res, L, fs)
        | Break \<Rightarrow> Some (SPIFFS_OK, L, fs) }
      else Some (SPIFFS_OK, L, fs))"

declare read_loop.simps [code]

definition spiffs_object_read :: "'d spiffs \<Rightarrow> nat \<Rightarrow> u32 \<Rightarrow> u32 \<Rightarrow> (int \<times> u8 list \<times> 'd spiffs) option" where
  "spiffs_object_read fs f offset len = do {
     (res, L, fs) \<leftarrow> read_loop f (offset + len)
       \<lparr>rd_offset = offset, rd_data_spix = ucast (offset div SPIFFS_DATA_PAGE_SIZE (cfg fs)),
        rd_prev_spix = - 1, rd_bytes = []\<rparr> fs;
     Some (res, rd_bytes L, fs) }"

end
