(* ===== verification/SpiffsApi.thy ===== *)
theory SpiffsApi imports SpiffsObject begin

text \<open>
  The file system interface of \<^verbatim>\<open>spiffs_hydrogen.c\<close>.  A call returns its C result and the new state, in
  which \<^verbatim>\<open>err_code\<close> has the reason of a failure; \<open>None\<close> is undefined behaviour.  A buffer argument is
  the memory from the pointer to the end of the object it points into.
\<close>

section \<open>Error codes and flags\<close>

definition SPIFFS_ERR_NOT_MOUNTED :: int where "SPIFFS_ERR_NOT_MOUNTED = - 10000"
definition SPIFFS_ERR_NOT_WRITABLE :: int where "SPIFFS_ERR_NOT_WRITABLE = - 10021"
definition SPIFFS_ERR_NOT_READABLE :: int where "SPIFFS_ERR_NOT_READABLE = - 10022"
definition SPIFFS_ERR_NOT_CONFIGURED :: int where "SPIFFS_ERR_NOT_CONFIGURED = - 10024"
definition SPIFFS_ERR_MOUNTED :: int where "SPIFFS_ERR_MOUNTED = - 10026"
definition SPIFFS_ERR_ERASE_FAIL :: int where "SPIFFS_ERR_ERASE_FAIL = - 10027"

definition SPIFFS_APPEND :: u16 where "SPIFFS_APPEND = 1"
definition SPIFFS_TRUNC :: u16 where "SPIFFS_TRUNC = 2"
definition SPIFFS_CREAT :: u16 where "SPIFFS_CREAT = 4"
definition SPIFFS_RDONLY :: u16 where "SPIFFS_RDONLY = 8"
definition SPIFFS_WRONLY :: u16 where "SPIFFS_WRONLY = 16"
definition SPIFFS_RDWR :: u16 where "SPIFFS_RDWR = SPIFFS_RDONLY OR SPIFFS_WRONLY"
definition SPIFFS_DIRECT :: u16 where "SPIFFS_DIRECT = 32"
definition SPIFFS_SEEK_SET :: int where "SPIFFS_SEEK_SET = 0"
definition SPIFFS_SEEK_CUR :: int where "SPIFFS_SEEK_CUR = 1"
definition SPIFFS_SEEK_END :: int where "SPIFFS_SEEK_END = 2"
definition SPIFFS_TYPE_FILE :: u8 where "SPIFFS_TYPE_FILE = 1"

definition api_error :: "int \<Rightarrow> 'd spiffs \<Rightarrow> int \<times> 'd spiffs" where
  "api_error res fs = (- 1, fs\<lparr>err_code := res\<rparr>)"

text \<open>The checks \<^verbatim>\<open>SPIFFS_API_CHECK_CFG\<close> and \<^verbatim>\<open>SPIFFS_API_CHECK_MOUNT\<close> at the start of a call; \<open>err\<close>
  makes the call's result from a failure.\<close>

definition SPIFFS_CHECK_MOUNT :: "'d spiffs \<Rightarrow> bool" where "SPIFFS_CHECK_MOUNT fs \<longleftrightarrow> mounted fs \<noteq> 0"
definition SPIFFS_CHECK_CFG :: "'d spiffs \<Rightarrow> bool" where
  "SPIFFS_CHECK_CFG fs \<longleftrightarrow> config_magic fs = SPIFFS_CONFIG_MAGIC"

definition api_checks :: "'d spiffs \<Rightarrow> (int \<times> 'd spiffs \<Rightarrow> 'r) \<Rightarrow> 'r option \<Rightarrow> 'r option" where
  "api_checks fs err k =
     (if \<not> SPIFFS_CHECK_CFG fs then Some (err (api_error SPIFFS_ERR_NOT_CONFIGURED fs))
      else if \<not> SPIFFS_CHECK_MOUNT fs then Some (err (api_error SPIFFS_ERR_NOT_MOUNTED fs))
      else k)"

text \<open>\<^verbatim>\<open>SPIFFS_API_CHECK_RES\<close> for a result that is returned as it is when there is no error.\<close>

definition api_result :: "int \<times> 'd spiffs \<Rightarrow> int \<times> 'd spiffs" where
  "api_result r = (if fst r < SPIFFS_OK then api_error (fst r) (snd r) else r)"

section \<open>Mounting and formatting\<close>

definition SPIFFS_mounted :: "'d spiffs \<Rightarrow> bool" where "SPIFFS_mounted fs = SPIFFS_CHECK_MOUNT fs"

definition SPIFFS_mount ::
  "'d spiffs_config \<Rightarrow> u8 list \<Rightarrow> u32 \<Rightarrow> u32 \<Rightarrow> u32 \<Rightarrow> u32 \<Rightarrow> spiffs_cache \<Rightarrow> 'd \<Rightarrow> (int \<times> 'd spiffs) option" where
  "SPIFFS_mount config work_mem fd_addr fd_space_size cache_addr cache_sz junk d = do {
     (res, fs) \<leftarrow> spiffs_obj_lu_scan
       (SPIFFS_mount_state config work_mem fd_addr fd_space_size cache_addr cache_sz junk d);
     Some (if res < SPIFFS_OK then api_error res fs else (0, fs\<lparr>mounted := 1\<rparr>)) }"

partial_function (option) format_blocks :: "u16 \<Rightarrow> 'd spiffs \<Rightarrow> (int \<times> 'd spiffs) option" where
  "format_blocks bix fs =
     (if ucast bix < block_count fs
      then do {
        (res, fs) \<leftarrow> spiffs_erase_block (fs\<lparr>max_erase_count := 0\<rparr>) bix;
        if res \<noteq> SPIFFS_OK then Some (api_error SPIFFS_ERR_ERASE_FAIL fs)
        else format_blocks (bix + 1) fs }
      else Some (0, fs))"

declare format_blocks.simps [code]

definition SPIFFS_format :: "'d spiffs \<Rightarrow> (int \<times> 'd spiffs) option" where
  "SPIFFS_format fs =
     (if \<not> SPIFFS_CHECK_CFG fs then Some (api_error SPIFFS_ERR_NOT_CONFIGURED fs)
      else if SPIFFS_CHECK_MOUNT fs then Some (api_error SPIFFS_ERR_MOUNTED fs)
      else format_blocks 0 fs)"

definition SPIFFS_errno :: "'d spiffs \<Rightarrow> int" where "SPIFFS_errno fs = err_code fs"
definition SPIFFS_clearerr :: "'d spiffs \<Rightarrow> 'd spiffs" where "SPIFFS_clearerr fs = fs\<lparr>err_code := SPIFFS_OK\<rparr>"

section \<open>Writing\<close>

text \<open>Modifies within the file, appends the rest.\<close>

definition spiffs_hydro_write :: "'d spiffs \<Rightarrow> nat \<Rightarrow> u8 list \<Rightarrow> u32 \<Rightarrow> int \<Rightarrow> (int \<times> 'd spiffs) option" where
  "spiffs_hydro_write fs f buf offset len = do {
     let sz = fd_size (fd_space fs ! f);
     (res, m_len, fs) \<leftarrow>
       (if sz \<noteq> SPIFFS_UNDEFINED_LEN \<and> offset < sz
        then do {
          let m_len = min (sint (sz - offset)) len;
          (res, fs) \<leftarrow> spiffs_object_modify fs f offset buf (word_of_int m_len);
          Some (res, m_len, fs) }
        else Some (SPIFFS_OK, 0, fs));
     if res < SPIFFS_OK then Some (res, fs)
     else if len - m_len > 0
     then do {
       (res, fs) \<leftarrow> spiffs_object_append fs f (offset + word_of_int m_len) (drop (nat m_len) buf)
         (word_of_int (len - m_len));
       Some (if res < SPIFFS_OK then res else len, fs) }
     else Some (len, fs) }"

text \<open>Writing back the write cache page of a descriptor and releasing it.\<close>

definition dump_cache_page :: "'d spiffs \<Rightarrow> nat \<Rightarrow> nat \<Rightarrow> (int \<times> 'd spiffs) option" where
  "dump_cache_page fs f i = do {
     c \<leftarrow> cache fs;
     let cp = cpages c ! i;
     (res, fs) \<leftarrow> spiffs_hydro_write fs f (cp_mem (cpages c ! unat (cp_ix cp))) (cp_offset cp) (uint (cp_size cp));
     fs \<leftarrow> spiffs_cache_fd_release fs (fd_cache_page (fd_space fs ! f));
     Some (res, fs) }"

text \<open>See if the object id is associated with a cache page already.\<close>

definition attach_cache_page :: "'d spiffs \<Rightarrow> nat \<Rightarrow> 'd spiffs option" where
  "attach_cache_page fs f =
     (if fd_cache_page (fd_space fs ! f) = None
      then do {
        cp \<leftarrow> spiffs_cache_page_get_by_fd fs (fd_space fs ! f);
        Some (fd_update f (\<lambda>fd. fd\<lparr>fd_cache_page := cp\<rparr>) fs) }
      else Some fs)"

definition spiffs_fflush_cache :: "'d spiffs \<Rightarrow> int \<Rightarrow> (int \<times> 'd spiffs) option" where
  "spiffs_fflush_cache fs fh =
     (case spiffs_fd_get fs fh of (res, f) \<Rightarrow>
        if res < SPIFFS_OK then Some (api_error res fs)
        else if fd_flags (fd_space fs ! f) AND SPIFFS_DIRECT = 0
        then do {
          fs \<leftarrow> attach_cache_page fs f;
          case fd_cache_page (fd_space fs ! f) of
            None \<Rightarrow> Some (SPIFFS_OK, fs)
          | Some i \<Rightarrow> do {
              c \<leftarrow> cache fs;
              let cp = cpages c ! i;
              (res, fs) \<leftarrow> spiffs_hydro_write fs f (cp_mem (cpages c ! unat (cp_ix cp))) (cp_offset cp)
                (uint (cp_size cp));
              let fs = (if res < SPIFFS_OK then fs\<lparr>err_code := res\<rparr> else fs);
              fs \<leftarrow> spiffs_cache_fd_release fs (fd_cache_page (fd_space fs ! f));
              Some (res, fs) }}
        else Some (SPIFFS_OK, fs))"

definition SPIFFS_fflush :: "'d spiffs \<Rightarrow> int \<Rightarrow> (int \<times> 'd spiffs) option" where
  "SPIFFS_fflush fs fh = api_checks fs id (do {
     r \<leftarrow> spiffs_fflush_cache fs fh;
     Some (api_result r) })"

text \<open>Where a write goes: the file position, or the end of file and cached write when appending.\<close>

definition write_offset :: "'d spiffs \<Rightarrow> nat \<Rightarrow> u32 option" where
  "write_offset fs f =
     (let fd = fd_space fs ! f
      in if fd_flags fd AND SPIFFS_APPEND \<noteq> 0
         then let offset = (if fd_size fd = SPIFFS_UNDEFINED_LEN then 0 else fd_size fd)
           in case fd_cache_page fd of
                None \<Rightarrow> Some offset
              | Some i \<Rightarrow> do {
                  c \<leftarrow> cache fs;
                  Some (max offset (cp_offset (cpages c ! i) + ucast (cp_size (cpages c ! i)))) }
         else Some (fdoffset fd))"

definition direct_write :: "'d spiffs \<Rightarrow> nat \<Rightarrow> u8 list \<Rightarrow> u32 \<Rightarrow> int \<Rightarrow> (int \<times> 'd spiffs) option" where
  "direct_write fs f buf offset len = do {
     (res, fs) \<leftarrow> spiffs_hydro_write fs f buf offset len;
     Some (if res < SPIFFS_OK then api_error res fs
       else (res, fd_update f (\<lambda>fd. fd\<lparr>fdoffset := fdoffset fd + word_of_int len\<rparr>) fs)) }"

text \<open>The write does not touch or continue the cached range, or runs beyond the cache page.\<close>

definition boundary_violation :: "'d spiffs_config \<Rightarrow> cache_page \<Rightarrow> u32 \<Rightarrow> int \<Rightarrow> bool" where
  "boundary_violation config cp offset len \<longleftrightarrow>
     offset < cp_offset cp \<or> offset > cp_offset cp + ucast (cp_size cp) \<or>
     offset + word_of_int len > cp_offset cp + log_page_size config"

text \<open>Storing bytes in the cache page of the descriptor.\<close>

definition store_in_cache_page :: "'d spiffs \<Rightarrow> nat \<Rightarrow> nat \<Rightarrow> u8 list \<Rightarrow> u32 \<Rightarrow> int \<Rightarrow> (int \<times> 'd spiffs) option" where
  "store_in_cache_page fs f i buf offset len = do {
     c \<leftarrow> cache fs;
     let cp = cpages c ! i;
     let off = offset - cp_offset cp;
     if len < 0 \<or> length buf < nat len \<or> length (cp_mem (cpages c ! unat (cp_ix cp))) < unat off + nat len then None
     else do {
       let c = cp_update (unat (cp_ix cp)) (\<lambda>p. p\<lparr>cp_mem := blit (unat off) (take (nat len) buf) (cp_mem p)\<rparr>) c;
       let c = cp_update i (\<lambda>p. p\<lparr>cp_size := ucast (max (ucast (cp_size p)) (off + word_of_int len) :: u32)\<rparr>) c;
       Some (len, fd_update f (\<lambda>fd. fd\<lparr>fdoffset := fdoffset fd + word_of_int len\<rparr>) (fs\<lparr>cache := Some c\<rparr>)) }}"

definition small_write :: "'d spiffs \<Rightarrow> nat \<Rightarrow> u8 list \<Rightarrow> u32 \<Rightarrow> int \<Rightarrow> (int \<times> 'd spiffs) option" where
  "small_write fs f buf offset len = do {
     c \<leftarrow> cache fs;
     (res, alloc_cpage, fs) \<leftarrow>
       (case fd_cache_page (fd_space fs ! f) of
          Some i \<Rightarrow>
            if boundary_violation (cfg fs) (cpages c ! i) offset len
            then do { (res, fs) \<leftarrow> dump_cache_page fs f i; Some (res, True, fs) }
            else Some (SPIFFS_OK, False, fs)
        | None \<Rightarrow> Some (SPIFFS_OK, True, fs));
     if res < SPIFFS_OK then Some (api_error res fs) else do {
     fs \<leftarrow>
       (if alloc_cpage
        then do {
          (cp, fs) \<leftarrow> spiffs_cache_page_allocate_by_fd fs f;
          let fs = fd_update f (\<lambda>fd. fd\<lparr>fd_cache_page := cp\<rparr>) fs;
          case cp of
            None \<Rightarrow> Some fs
          | Some i \<Rightarrow> do {
              c \<leftarrow> cache fs;
              Some (fs\<lparr>cache := Some (cp_update i (\<lambda>p. p\<lparr>cp_offset := offset, cp_size := 0\<rparr>) c)\<rparr>) }}
        else Some fs);
     case fd_cache_page (fd_space fs ! f) of
       Some i \<Rightarrow> store_in_cache_page fs f i buf offset len
     | None \<Rightarrow> direct_write fs f buf offset len }}"

definition SPIFFS_write :: "'d spiffs \<Rightarrow> int \<Rightarrow> u8 list \<Rightarrow> int \<Rightarrow> (int \<times> 'd spiffs) option" where
  "SPIFFS_write fs fh buf len = api_checks fs id
     (case spiffs_fd_get fs fh of (res, f) \<Rightarrow>
        if res < SPIFFS_OK then Some (api_error res fs)
        else if fd_flags (fd_space fs ! f) AND SPIFFS_WRONLY = 0 then Some (api_error SPIFFS_ERR_NOT_WRITABLE fs)
        else do {
          fs \<leftarrow> attach_cache_page fs f;
          offset \<leftarrow> write_offset fs f;
          if fd_flags (fd_space fs ! f) AND SPIFFS_DIRECT = 0
          then if len < sint (log_page_size (cfg fs)) then small_write fs f buf offset len
            else case fd_cache_page (fd_space fs ! f) of
                None \<Rightarrow> direct_write fs f buf offset len
              | Some i \<Rightarrow> do {
                  (res, fs) \<leftarrow> dump_cache_page fs f i;
                  if res < SPIFFS_OK then Some (api_error res fs) else do {
                  (res, fs) \<leftarrow> spiffs_hydro_write fs f buf offset len;
                  if res < SPIFFS_OK then Some (api_error res fs) else direct_write fs f buf offset len }}
          else direct_write fs f buf offset len })"

section \<open>Opening and closing\<close>

definition SPIFFS_creat :: "u8 \<times> u8 \<Rightarrow> 'd spiffs \<Rightarrow> u8 list \<Rightarrow> (int \<times> 'd spiffs) option" where
  "SPIFFS_creat stack fs path = api_checks fs id (do {
     (res, obj_id, fs) \<leftarrow> spiffs_obj_lu_find_free_obj_id fs (Some path);
     if res < SPIFFS_OK then Some (api_error res fs) else do {
     (res, _, fs) \<leftarrow> spiffs_object_create stack fs obj_id path SPIFFS_TYPE_FILE;
     Some (if res < SPIFFS_OK then api_error res fs else (0, fs)) }})"

text \<open>Giving a descriptor back on an error.\<close>

definition fail_open :: "nat \<Rightarrow> int \<Rightarrow> 'd spiffs \<Rightarrow> (int \<times> 'd spiffs) option" where
  "fail_open f res fs = Some (api_error res (snd (spiffs_fd_return fs (file_nbr (fd_space fs ! f)))))"

text \<open>The end of both open functions: load the header, truncate if asked to.\<close>

definition open_page :: "'d spiffs \<Rightarrow> nat \<Rightarrow> u16 \<Rightarrow> u16 \<Rightarrow> (int \<times> 'd spiffs) option" where
  "open_page fs f pix flags = do {
     (res, fs) \<leftarrow> spiffs_object_open_by_page fs pix f flags;
     if res < SPIFFS_OK then fail_open f res fs else do {
     (res, fs) \<leftarrow> (if flags AND SPIFFS_TRUNC \<noteq> 0 then spiffs_object_truncate fs f 0 False else Some (SPIFFS_OK, fs));
     if res < SPIFFS_OK then fail_open f res fs
     else Some (file_nbr (fd_space fs ! f), fd_update f (\<lambda>fd. fd\<lparr>fdoffset := 0\<rparr>) fs) }}"

definition SPIFFS_open :: "u8 \<times> u8 \<Rightarrow> 'd spiffs \<Rightarrow> u8 list \<Rightarrow> u16 \<Rightarrow> (int \<times> 'd spiffs) option" where
  "SPIFFS_open stack fs path flags = api_checks fs id
     (case spiffs_fd_find_new fs of (res, f, fs) \<Rightarrow>
        if res < SPIFFS_OK then Some (api_error res fs) else do {
        (res, pix, fs) \<leftarrow> spiffs_object_find_object_index_header_by_name fs path;
        if flags AND SPIFFS_CREAT \<noteq> 0 \<and> res = SPIFFS_ERR_NOT_FOUND
        then do {
          (res, obj_id, fs) \<leftarrow> spiffs_obj_lu_find_free_obj_id fs None;
          if res < SPIFFS_OK then fail_open f res fs else do {
          (res, pix, fs) \<leftarrow> spiffs_object_create stack fs obj_id path SPIFFS_TYPE_FILE;
          if res < SPIFFS_OK then fail_open f res fs
          else open_page fs f pix (flags AND NOT SPIFFS_TRUNC) }}
        else if res < SPIFFS_OK then fail_open f res fs
        else open_page fs f pix flags })"

definition SPIFFS_close :: "'d spiffs \<Rightarrow> int \<Rightarrow> 'd spiffs option" where
  "SPIFFS_close fs fh = api_checks fs snd (do {
     (_, fs) \<leftarrow> spiffs_fflush_cache fs fh;
     Some (snd (spiffs_fd_return fs fh)) })"

text \<open>Unmounting flushes and returns every open descriptor.\<close>

fun unmount_fds :: "nat list \<Rightarrow> 'd spiffs \<Rightarrow> 'd spiffs option" where
  "unmount_fds [] fs = Some fs"
| "unmount_fds (i # is) fs =
     (if file_nbr (fd_space fs ! i) \<noteq> 0
      then do {
        (_, fs) \<leftarrow> spiffs_fflush_cache fs (file_nbr (fd_space fs ! i));
        unmount_fds is (snd (spiffs_fd_return fs (file_nbr (fd_space fs ! i)))) }
      else unmount_fds is fs)"

definition SPIFFS_unmount :: "'d spiffs \<Rightarrow> 'd spiffs option" where
  "SPIFFS_unmount fs =
     (if \<not> SPIFFS_CHECK_CFG fs \<or> \<not> SPIFFS_CHECK_MOUNT fs then Some fs
      else do {
        fs \<leftarrow> unmount_fds [0..<fd_count fs] fs;
        Some (fs\<lparr>mounted := 0\<rparr>) })"

section \<open>Reading and seeking\<close>

definition SPIFFS_read :: "'d spiffs \<Rightarrow> int \<Rightarrow> int \<Rightarrow> (int \<times> u8 list \<times> 'd spiffs) option" where
  "SPIFFS_read fs fh len = api_checks fs (\<lambda>(res, fs). (res, [], fs))
     (let err = (\<lambda>res fs. case api_error res fs of (r, fs) \<Rightarrow> Some (r, [], fs))
      in case spiffs_fd_get fs fh of (res, f) \<Rightarrow>
        if res < SPIFFS_OK then err res fs
        else if fd_flags (fd_space fs ! f) AND SPIFFS_RDONLY = 0 then err SPIFFS_ERR_NOT_READABLE fs
        else do {
          (_, fs) \<leftarrow> spiffs_fflush_cache fs fh;
          let fd = fd_space fs ! f;
          if fdoffset fd + word_of_int len \<ge> fd_size fd
          then do {
            let avail = sint (fd_size fd - fdoffset fd);
            if avail \<le> 0 then err SPIFFS_ERR_END_OF_OBJECT fs else do {
            (res, bs, fs) \<leftarrow> spiffs_object_read fs f (fdoffset fd) (word_of_int avail);
            if res < SPIFFS_OK \<and> res \<noteq> SPIFFS_ERR_END_OF_OBJECT
            then (case api_error res fs of (r, fs) \<Rightarrow> Some (r, bs, fs))
            else Some (avail, bs, fd_update f (\<lambda>fd. fd\<lparr>fdoffset := fdoffset fd + word_of_int avail\<rparr>) fs) }}
          else do {
            (res, bs, fs) \<leftarrow> spiffs_object_read fs f (fdoffset fd) (word_of_int len);
            if res < SPIFFS_OK then (case api_error res fs of (r, fs) \<Rightarrow> Some (r, bs, fs))
            else Some (len, bs, fd_update f (\<lambda>fd. fd\<lparr>fdoffset := fdoffset fd + word_of_int len\<rparr>) fs) }})"

definition SPIFFS_lseek :: "'d spiffs \<Rightarrow> int \<Rightarrow> int \<Rightarrow> int \<Rightarrow> (int \<times> 'd spiffs) option" where
  "SPIFFS_lseek fs fh offs whence = api_checks fs id
     (case spiffs_fd_get fs fh of (res, f) \<Rightarrow>
        if res < SPIFFS_OK then Some (api_error res fs) else do {
        (_, fs) \<leftarrow> spiffs_fflush_cache fs fh;
        let fd = fd_space fs ! f;
        let offs = (if whence = SPIFFS_SEEK_CUR then fdoffset fd + word_of_int offs
                    else if whence = SPIFFS_SEEK_END
                    then (if fd_size fd = SPIFFS_UNDEFINED_LEN then 0 else fd_size fd) + word_of_int offs
                    else word_of_int offs);
        if sint offs > sint (fd_size fd) then Some (api_error SPIFFS_ERR_END_OF_OBJECT fs) else do {
        let data_spix = (ucast (offs div SPIFFS_DATA_PAGE_SIZE (cfg fs)) :: u16);
        let objix_spix = (ucast (SPIFFS_OBJ_IX_ENTRY_SPAN_IX (cfg fs) (ucast data_spix)) :: u16);
        (res, fs) \<leftarrow>
          (if cursor_objix_spix fd \<noteq> objix_spix
           then do {
             (res, pix, fs) \<leftarrow> spiffs_obj_lu_find_id_and_span fs (fd_obj_id fd OR SPIFFS_OBJ_ID_IX_FLAG) objix_spix 0;
             Some (res, if res < SPIFFS_OK then fs
               else fd_update f (\<lambda>fd. fd\<lparr>cursor_objix_spix := objix_spix, cursor_objix_pix := pix\<rparr>) fs) }
           else Some (SPIFFS_OK, fs));
        Some (if res < SPIFFS_OK then api_error res fs
          else (0, fd_update f (\<lambda>fd. fd\<lparr>fdoffset := offs\<rparr>) fs)) }})"

definition SPIFFS_eof :: "'d spiffs \<Rightarrow> int \<Rightarrow> (int \<times> 'd spiffs) option" where
  "SPIFFS_eof fs fh = api_checks fs id
     (case spiffs_fd_get fs fh of (res, f) \<Rightarrow>
        if res < SPIFFS_OK then Some (api_error res fs) else do {
        (_, fs) \<leftarrow> spiffs_fflush_cache fs fh;
        Some (if fdoffset (fd_space fs ! f) = fd_size (fd_space fs ! f) then 1 else 0, fs) })"

definition SPIFFS_tell :: "'d spiffs \<Rightarrow> int \<Rightarrow> (int \<times> 'd spiffs) option" where
  "SPIFFS_tell fs fh = api_checks fs id
     (case spiffs_fd_get fs fh of (res, f) \<Rightarrow>
        if res < SPIFFS_OK then Some (api_error res fs) else do {
        (_, fs) \<leftarrow> spiffs_fflush_cache fs fh;
        Some (sint (fdoffset (fd_space fs ! f)), fs) })"

section \<open>Removing and renaming\<close>

text \<open>After a failure with a descriptor taken, it is returned; unlike in \<open>open\<close>, any result but
  \<^verbatim>\<open>SPIFFS_OK\<close> returns it, and only a negative one is reported.\<close>

definition return_unless_ok :: "nat \<Rightarrow> int \<Rightarrow> 'd spiffs \<Rightarrow> 'd spiffs" where
  "return_unless_ok f res fs =
     (if res \<noteq> SPIFFS_OK then snd (spiffs_fd_return fs (file_nbr (fd_space fs ! f))) else fs)"

definition SPIFFS_remove :: "'d spiffs \<Rightarrow> u8 list \<Rightarrow> (int \<times> 'd spiffs) option" where
  "SPIFFS_remove fs path = api_checks fs id
     (case spiffs_fd_find_new fs of (res, f, fs) \<Rightarrow>
        if res < SPIFFS_OK then Some (api_error res fs) else do {
        (res, pix, fs) \<leftarrow> spiffs_object_find_object_index_header_by_name fs path;
        let fs = return_unless_ok f res fs;
        if res < SPIFFS_OK then Some (api_error res fs) else do {
        (res, fs) \<leftarrow> spiffs_object_open_by_page fs pix f 0;
        let fs = return_unless_ok f res fs;
        if res < SPIFFS_OK then Some (api_error res fs) else do {
        (res, fs) \<leftarrow> spiffs_object_truncate fs f 0 True;
        let fs = return_unless_ok f res fs;
        if res < SPIFFS_OK then Some (api_error res fs) else Some (0, fs) }}})"

definition SPIFFS_fremove :: "'d spiffs \<Rightarrow> int \<Rightarrow> (int \<times> 'd spiffs) option" where
  "SPIFFS_fremove fs fh = api_checks fs id
     (case spiffs_fd_get fs fh of (res, f) \<Rightarrow>
        if res < SPIFFS_OK then Some (api_error res fs)
        else if fd_flags (fd_space fs ! f) AND SPIFFS_WRONLY = 0 then Some (api_error SPIFFS_ERR_NOT_WRITABLE fs)
        else do {
          fs \<leftarrow> spiffs_cache_fd_release fs (fd_cache_page (fd_space fs ! f));
          (res, fs) \<leftarrow> spiffs_object_truncate fs f 0 True;
          Some (if res < SPIFFS_OK then api_error res fs else (0, fs)) })"

definition SPIFFS_rename :: "'d spiffs \<Rightarrow> u8 list \<Rightarrow> u8 list \<Rightarrow> (int \<times> 'd spiffs) option" where
  "SPIFFS_rename fs old new = api_checks fs id (do {
     (res, pix_old, fs) \<leftarrow> spiffs_object_find_object_index_header_by_name fs old;
     if res < SPIFFS_OK then Some (api_error res fs) else do {
     (res, _, fs) \<leftarrow> spiffs_object_find_object_index_header_by_name fs new;
     let res = (if res = SPIFFS_ERR_NOT_FOUND then SPIFFS_OK
                else if res = SPIFFS_OK then SPIFFS_ERR_CONFLICTING_NAME else res);
     if res < SPIFFS_OK then Some (api_error res fs) else
     (case spiffs_fd_find_new fs of (res, f, fs) \<Rightarrow>
        if res < SPIFFS_OK then Some (api_error res fs) else do {
        (res, fs) \<leftarrow> spiffs_object_open_by_page fs pix_old f 0;
        let fs = return_unless_ok f res fs;
        if res < SPIFFS_OK then Some (api_error res fs) else do {
        (res, _, fs) \<leftarrow> spiffs_object_update_index_hdr fs (Some f) (fd_obj_id (fd_space fs ! f))
          (objix_hdr_pix (fd_space fs ! f)) False (Some new) 0;
        let fs = return_unless_ok f res fs;
        Some (api_result (res, fs)) }}) }})"

section \<open>File status\<close>

record spiffs_stat =
  st_obj_id :: u16
  st_size :: u32
  st_type :: u8
  st_name :: "u8 list"

definition visible_size :: "u32 \<Rightarrow> u32" where
  "visible_size sz = (if sz = SPIFFS_UNDEFINED_LEN then 0 else sz)"

text \<open>The structure is only filled on success.\<close>

definition spiffs_stat_pix :: "'d spiffs \<Rightarrow> u16 \<Rightarrow> int \<Rightarrow> (int \<times> spiffs_stat option \<times> 'd spiffs) option" where
  "spiffs_stat_pix fs pix fh = do {
     (res, hdr, fs) \<leftarrow> spiffs_phys_rd fs (SPIFFS_OP_T_OBJ_IX OR SPIFFS_OP_C_READ) fh
       (SPIFFS_PAGE_TO_PADDR (cfg fs) (ucast pix)) sizeof_page_object_ix_header;
     if res < SPIFFS_OK then Some (- 1, None, fs\<lparr>err_code := res\<rparr>) else do {
     (res, bs, fs) \<leftarrow> spiffs_phys_rd fs (SPIFFS_OP_T_OBJ_LU OR SPIFFS_OP_C_READ) fh
       (lu_entry_of_page (cfg fs) pix) sizeof_obj_id;
     if res < SPIFFS_OK then Some (- 1, None, fs\<lparr>err_code := res\<rparr>) else do {
     nm \<leftarrow> strncpy (oix_name hdr) SPIFFS_OBJ_NAME_LEN;
     Some (res, Some \<lparr>st_obj_id = get16 bs 0, st_size = visible_size (oix_size hdr), st_type = oix_type hdr,
       st_name = nm\<rparr>, fs) }}}"

definition SPIFFS_stat :: "'d spiffs \<Rightarrow> u8 list \<Rightarrow> (int \<times> spiffs_stat option \<times> 'd spiffs) option" where
  "SPIFFS_stat fs path = api_checks fs (\<lambda>(r, fs). (r, None, fs)) (do {
     (res, pix, fs) \<leftarrow> spiffs_object_find_object_index_header_by_name fs path;
     if res < SPIFFS_OK then Some (- 1, None, fs\<lparr>err_code := res\<rparr>) else spiffs_stat_pix fs pix 0 })"

definition SPIFFS_fstat :: "'d spiffs \<Rightarrow> int \<Rightarrow> (int \<times> spiffs_stat option \<times> 'd spiffs) option" where
  "SPIFFS_fstat fs fh = api_checks fs (\<lambda>(r, fs). (r, None, fs))
     (case spiffs_fd_get fs fh of (res, f) \<Rightarrow>
        if res < SPIFFS_OK then Some (- 1, None, fs\<lparr>err_code := res\<rparr>) else do {
        (_, fs) \<leftarrow> spiffs_fflush_cache fs fh;
        spiffs_stat_pix fs (objix_hdr_pix (fd_space fs ! f)) fh })"

text \<open>Total and used bytes.\<close>

definition SPIFFS_info :: "'d spiffs \<Rightarrow> (int \<times> u32 \<times> u32 \<times> 'd spiffs) option" where
  "SPIFFS_info fs = api_checks fs (\<lambda>(r, fs). (r, 0, 0, fs))
     (let config = cfg fs;
          total_data_pages = (block_count fs - 2) *
            (SPIFFS_PAGES_PER_BLOCK config - SPIFFS_OBJ_LOOKUP_PAGES config) + 1
      in Some (SPIFFS_OK, total_data_pages * SPIFFS_DATA_PAGE_SIZE config,
           stats_p_allocated fs * SPIFFS_DATA_PAGE_SIZE config, fs))"

section \<open>Directories\<close>

record spiffs_DIR =
  dir_block :: u16
  dir_entry :: nat

record spiffs_dirent =
  de_obj_id :: u16
  de_name :: "u8 list"
  de_type :: u8
  de_size :: u32
  de_pix :: u16

definition SPIFFS_opendir :: "'d spiffs \<Rightarrow> spiffs_DIR option \<times> 'd spiffs" where
  "SPIFFS_opendir fs =
     (if \<not> SPIFFS_CHECK_CFG fs then (None, fs\<lparr>err_code := SPIFFS_ERR_NOT_CONFIGURED\<rparr>)
      else if \<not> SPIFFS_CHECK_MOUNT fs then (None, fs\<lparr>err_code := SPIFFS_ERR_NOT_MOUNTED\<rparr>)
      else (Some \<lparr>dir_block = 0, dir_entry = 0\<rparr>, fs))"

text \<open>\<^verbatim>\<open>strcpy\<close> of the name is undefined when it has no terminator.\<close>

definition spiffs_read_dir_v :: "(spiffs_dirent option, 'd) visitor" where
  "spiffs_read_dir_v fs obj_id bix ix_entry e =
     (if obj_id = SPIFFS_OBJ_ID_FREE \<or> obj_id = SPIFFS_OBJ_ID_DELETED \<or> obj_id AND SPIFFS_OBJ_ID_IX_FLAG = 0
      then Some (SPIFFS_VIS_COUNTINUE, e, fs)
      else do {
        let pix = (ucast (SPIFFS_OBJ_LOOKUP_ENTRY_TO_PIX (cfg fs) (ucast bix) (word_of_nat ix_entry)) :: u16);
        (res, hdr, fs) \<leftarrow> spiffs_phys_rd fs (SPIFFS_OP_T_OBJ_LU2 OR SPIFFS_OP_C_READ) 0
          (SPIFFS_PAGE_TO_PADDR (cfg fs) (ucast pix)) sizeof_page_object_ix_header;
        if res \<noteq> SPIFFS_OK then Some (res, e, fs)
        else if live_index_header (get_page_header hdr)
        then do {
          n \<leftarrow> strlen (oix_name hdr);
          Some (SPIFFS_OK, Some \<lparr>de_obj_id = obj_id, de_name = take (n + 1) (oix_name hdr), de_type = oix_type hdr,
            de_size = visible_size (oix_size hdr), de_pix = pix\<rparr>, fs) }
        else Some (SPIFFS_VIS_COUNTINUE, e, fs) })"

definition SPIFFS_readdir :: "'d spiffs \<Rightarrow> spiffs_DIR \<Rightarrow> (spiffs_dirent option \<times> spiffs_DIR \<times> 'd spiffs) option" where
  "SPIFFS_readdir fs d =
     (if \<not> SPIFFS_CHECK_MOUNT fs then Some (None, d, fs\<lparr>err_code := SPIFFS_ERR_NOT_MOUNTED\<rparr>)
      else do {
        (res, s, fs) \<leftarrow> spiffs_obj_lu_find_entry_visitor fs (dir_block d) (dir_entry d) SPIFFS_VIS_NO_WRAP 0
          (Some spiffs_read_dir_v) None;
        if res = SPIFFS_OK
        then do {
          bix \<leftarrow> at_block s;
          entry \<leftarrow> at_entry s;
          Some (user s, \<lparr>dir_block = bix, dir_entry = entry + 1\<rparr>, fs) }
        else Some (None, d, fs\<lparr>err_code := res\<rparr>) })"

definition SPIFFS_closedir :: "'d spiffs \<Rightarrow> int \<times> 'd spiffs" where
  "SPIFFS_closedir fs =
     (if \<not> SPIFFS_CHECK_CFG fs then api_error SPIFFS_ERR_NOT_CONFIGURED fs
      else if \<not> SPIFFS_CHECK_MOUNT fs then api_error SPIFFS_ERR_NOT_MOUNTED fs
      else (0, fs))"

definition SPIFFS_open_by_dirent :: "'d spiffs \<Rightarrow> spiffs_dirent \<Rightarrow> u16 \<Rightarrow> (int \<times> 'd spiffs) option" where
  "SPIFFS_open_by_dirent fs e flags = api_checks fs id
     (case spiffs_fd_find_new fs of (res, f, fs) \<Rightarrow>
        if res < SPIFFS_OK then Some (api_error res fs) else open_page fs f (de_pix e) flags)"

end
