(* ===== verification/SpiffsPageFacts.thy ===== *)
theory SpiffsPageFacts
  imports SpiffsPage
begin

text \<open>
  What the page operations of \<open>SpiffsPage\<close> do to the medium, over two abstractions of it:
  the object id a lookup entry holds (\<open>lu_id\<close>) and the bytes of the page that belongs to the
  entry (\<open>content\<close>).
\<close>

section \<open>Frames\<close>

lemma unat_ucast_16: "unat (ucast (x :: u16) :: u32) = unat x"
  using unat_u16_less [of x] by (simp add: unsigned_ucast_eq take_bit_nat_eq_self)

lemma word16_and: "word16 (x AND ucast w) (y AND ucast (drop_bit 8 w)) = word16 x y AND w"
proof (rule bit_word_eqI)
  fix n assume "n < LENGTH(16)"
  then show "bit (word16 (x AND ucast w) (y AND ucast (drop_bit 8 w))) n = bit (word16 x y AND w) n"
    using bit_imp_le_length [of x n] by (cases "n < 8") (auto simp: word16_def bit_simps)
qed

text \<open>The page of an entry, the address of a page and of an entry, and the bytes of an entry's page.\<close>

definition page_of_entry :: "'d spiffs_config \<Rightarrow> nat \<Rightarrow> nat \<Rightarrow> nat" where
  "page_of_entry conf b e = b * ppb conf + (lups conf + e)"

definition addr_of_page :: "'d spiffs_config \<Rightarrow> nat \<Rightarrow> nat" where
  "addr_of_page conf q = base conf + q * psz conf"

definition addr_of_entry :: "'d spiffs_config \<Rightarrow> nat \<Rightarrow> nat \<Rightarrow> nat" where
  "addr_of_entry conf b e = base conf + b * (ppb conf * psz conf) + 2 * e"

definition page_bytes :: "'d spiffs_config \<Rightarrow> (nat \<Rightarrow> u8) \<Rightarrow> nat \<Rightarrow> nat \<Rightarrow> u8 list" where
  "page_bytes conf m b e = nor_read m (addr_of_page conf (page_of_entry conf b e)) (psz conf)"

context spiffs_flash
begin

lemma matches_iff:
  "matches m p fs \<longleftrightarrow> (\<exists>c d w. fs = p\<lparr>cache := c, dev := d, lu_work := w\<rparr>) \<and>
     ready conf m fs \<and> view (dev fs) = m \<and> unat (block_count fs) = blks conf"
proof -
  have "fs\<lparr>cache := cache p, dev := dev p, lu_work := lu_work p\<rparr> = p \<longleftrightarrow>
      (\<exists>c d w. fs = p\<lparr>cache := c, dev := d, lu_work := w\<rparr>)"
  proof
    assume "fs\<lparr>cache := cache p, dev := dev p, lu_work := lu_work p\<rparr> = p"
    from this [symmetric] show "\<exists>c d w. fs = p\<lparr>cache := c, dev := d, lu_work := w\<rparr>"
      by (intro exI [of _ "cache fs"] exI [of _ "dev fs"] exI [of _ "lu_work fs"]) (cases fs, cases p, simp)
  qed auto
  then show ?thesis by (simp add: matches_def)
qed

text \<open>Every other field of a state is the frame's.\<close>

lemma matches_frame:
  assumes "matches m p fs"
  shows "free_cursor_block_ix fs = free_cursor_block_ix p" "free_cursor_obj_lu_entry fs = free_cursor_obj_lu_entry p"
    "cursor_block_ix fs = cursor_block_ix p" "cursor_obj_lu_entry fs = cursor_obj_lu_entry p"
    "work fs = work p" "fd_space fs = fd_space p" "stats_p_allocated fs = stats_p_allocated p"
    "stats_p_deleted fs = stats_p_deleted p" "max_erase_count fs = max_erase_count p" "err_code fs = err_code p"
  using assms by (auto simp: matches_iff)

lemma matches_upd:
  assumes "matches m p fs"
    and c: "\<And>s c d w. f (s\<lparr>cache := c, dev := d, lu_work := w\<rparr>) = (f s)\<lparr>cache := c, dev := d, lu_work := w\<rparr>"
    and f: "\<And>s. cfg (f s) = cfg s" "\<And>s. cache (f s) = cache s" "\<And>s. dev (f s) = dev s"
      "\<And>s. block_count (f s) = block_count s"
  shows "matches m (f p) (f fs)"
proof -
  from assms(1) obtain c d w where e: "fs = p\<lparr>cache := c, dev := d, lu_work := w\<rparr>" by (auto simp: matches_iff)
  have "ready conf m (f fs) \<and> view (dev (f fs)) = m \<and> unat (block_count (f fs)) = blks conf"
    using assms(1) unfolding matches_iff ready_def by (simp add: f)
  moreover have "f fs = (f p)\<lparr>cache := c, dev := d, lu_work := w\<rparr>" unfolding e by (rule c)
  ultimately show ?thesis unfolding matches_iff by blast
qed

lemma matches_updates:
  assumes "matches m p fs"
  shows "matches m (p\<lparr>stats_p_allocated := x\<rparr>) (fs\<lparr>stats_p_allocated := x\<rparr>)"
    "matches m (p\<lparr>stats_p_deleted := x\<rparr>) (fs\<lparr>stats_p_deleted := x\<rparr>)"
    "matches m (p\<lparr>free_blocks := x\<rparr>) (fs\<lparr>free_blocks := x\<rparr>)"
    "matches m (p\<lparr>free_cursor_block_ix := b\<rparr>) (fs\<lparr>free_cursor_block_ix := b\<rparr>)"
    "matches m (p\<lparr>free_cursor_obj_lu_entry := e\<rparr>) (fs\<lparr>free_cursor_obj_lu_entry := e\<rparr>)"
    "matches m (p\<lparr>cursor_block_ix := b\<rparr>) (fs\<lparr>cursor_block_ix := b\<rparr>)"
    "matches m (p\<lparr>cursor_obj_lu_entry := e\<rparr>) (fs\<lparr>cursor_obj_lu_entry := e\<rparr>)"
    "matches m (p\<lparr>work := w\<rparr>) (fs\<lparr>work := w\<rparr>)"
    "matches m (p\<lparr>fd_space := fds\<rparr>) (fs\<lparr>fd_space := fds\<rparr>)"
    "matches m (p\<lparr>err_code := r\<rparr>) (fs\<lparr>err_code := r\<rparr>)"
    "matches m (p\<lparr>max_erase_count := b\<rparr>) (fs\<lparr>max_erase_count := b\<rparr>)"
  by (rule matches_upd [OF assms]; simp)+

lemma ticks_updates [simp]:
  "ticks (fs\<lparr>stats_p_allocated := x\<rparr>) = ticks fs" "ticks (fs\<lparr>stats_p_deleted := x\<rparr>) = ticks fs"
  "ticks (fs\<lparr>free_blocks := x\<rparr>) = ticks fs" "ticks (fs\<lparr>free_cursor_block_ix := b\<rparr>) = ticks fs"
  "ticks (fs\<lparr>free_cursor_obj_lu_entry := e\<rparr>) = ticks fs" "ticks (fs\<lparr>cursor_block_ix := b\<rparr>) = ticks fs"
  "ticks (fs\<lparr>cursor_obj_lu_entry := e\<rparr>) = ticks fs" "ticks (fs\<lparr>work := w\<rparr>) = ticks fs"
  "ticks (fs\<lparr>fd_space := fds\<rparr>) = ticks fs" "ticks (fs\<lparr>err_code := r\<rparr>) = ticks fs"
  "ticks (fs\<lparr>max_erase_count := b\<rparr>) = ticks fs"
  by (simp_all add: ticks_def)

lemma phys_wr_matches:
  assumes "matches m p fs" "in_page conf addr (length src)" "ticks fs < 2 ^ 32 - 1"
    and "op AND SPIFFS_OP_COM_MASK \<noteq> SPIFFS_OP_C_WRTHRU"
    and "op AND SPIFFS_OP_COM_MASK = SPIFFS_OP_C_DELE \<and> op AND SPIFFS_OP_TYPE_MASK \<noteq> SPIFFS_OP_T_OBJ_LU \<or>
      clears_bits m (unat addr) src"
  shows "\<exists>fs'. spiffs_phys_wr fs op fh addr src = Some (0, fs') \<and>
    matches (nor_program m (unat addr) src) p fs' \<and> ticks fs' \<le> ticks fs + 1"
proof -
  from phys_wr_ok [of fs addr src op fh] assms matches_fields [OF assms(1)] obtain fs' where
    r: "spiffs_phys_wr fs op fh addr src = Some (0, fs')" and o: "only_flash fs fs'"
    and m: "view (dev fs') = nor_program m (unat addr) src" "ready conf (nor_program m (unat addr) src) fs'"
      "ticks fs' \<le> ticks fs + 1"
    by auto
  from o obtain c' d where e: "fs' = fs\<lparr>cache := Some c', dev := d\<rparr>" by (auto simp: only_flash_def)
  have "unat (block_count fs') = blks conf" using matches_fields(8) [OF assms(1)] by (simp add: e)
  moreover have "\<exists>c d w. fs' = p\<lparr>cache := c, dev := d, lu_work := w\<rparr>"
  proof -
    from assms(1) obtain c0 d0 w0 where "fs = p\<lparr>cache := c0, dev := d0, lu_work := w0\<rparr>"
      by (auto simp: matches_iff)
    then have "fs' = p\<lparr>cache := Some c', dev := d, lu_work := w0\<rparr>" by (simp add: e)
    then show ?thesis by blast
  qed
  ultimately show ?thesis using r m by (auto simp: matches_iff)
qed

section \<open>Entries and their pages on flash\<close>

abbreviation entry_page :: "nat \<Rightarrow> nat \<Rightarrow> nat" where "entry_page \<equiv> page_of_entry conf"
abbreviation page_addr :: "nat \<Rightarrow> nat" where "page_addr \<equiv> addr_of_page conf"
abbreviation lu_addr :: "nat \<Rightarrow> nat \<Rightarrow> nat" where "lu_addr \<equiv> addr_of_entry conf"
abbreviation content :: "(nat \<Rightarrow> u8) \<Rightarrow> nat \<Rightarrow> nat \<Rightarrow> u8 list" where "content \<equiv> page_bytes conf"

lemma entry_page_less: "b < blks conf \<Longrightarrow> e < ents conf \<Longrightarrow> entry_page b e < blks conf * ppb conf"
  unfolding page_of_entry_def by (rule entry_page_bound)

lemma entry_page_inject:
  assumes "e < ents conf" "e' < ents conf"
  shows "entry_page b e = entry_page b' e' \<longleftrightarrow> b = b' \<and> e = e'"
proof
  have l: "lups conf + e < ppb conf" "lups conf + e' < ppb conf"
    using assms geometry_facts(10) [OF g] by (simp_all add: ents_def)
  assume eq: "entry_page b e = entry_page b' e'"
  have "entry_page b e div ppb conf = b" "entry_page b' e' div ppb conf = b'"
    using l by (simp_all add: page_of_entry_def)
  then have "b = b'" using eq by metis
  then show "b = b' \<and> e = e'" using eq by (simp add: page_of_entry_def)
qed simp

lemma page_top: "q < blks conf * ppb conf \<Longrightarrow> page_addr q + psz conf \<le> base conf + unat (phys_size conf)"
proof -
  assume "q < blks conf * ppb conf"
  then have "q * psz conf + psz conf \<le> blks conf * ppb conf * psz conf" by (rule mult_le_of_le)
  then show ?thesis by (simp add: addr_of_page_def phys_size_pages)
qed

lemma phys_top: "base conf + unat (phys_size conf) < 2 ^ 32"
  using g by (simp add: geometry_def)

lemma in_page_at:
  assumes "q < blks conf * ppb conf" "unat addr = page_addr q + off" "off + n \<le> psz conf" "off < psz conf"
  shows "in_page conf addr n"
proof -
  have "(unat addr - base conf) mod psz conf = off"
    using assms(2,4) by (simp add: addr_of_page_def)
  then show ?thesis
    using page_top [OF assms(1)] assms by (simp add: in_page_def addr_of_page_def)
qed

lemma unat_in_page:
  fixes a w :: u32
  assumes "q < blks conf * ppb conf" "unat a = page_addr q" "unat w \<le> psz conf"
  shows "unat (a + w) = page_addr q + unat w"
  using page_top [OF assms(1)] phys_top assms(2,3) by (subst unat_add_no_wrap) simp_all

lemma pix_addr:
  assumes "unat (pix :: u16) < blks conf * ppb conf"
  shows "unat (SPIFFS_PAGE_TO_PADDR conf (ucast pix)) = page_addr (unat pix)"
  using assms unat_page_to_paddr [of "ucast pix"] by (simp add: addr_of_page_def unat_ucast_16)

lemma unat_u16_of_nat: "n < 65536 \<Longrightarrow> unat (word_of_nat n :: u16) = n"
  by (simp add: unat_of_nat)

lemma ucast_u16_of_nat: "n < 65536 \<Longrightarrow> (ucast (word_of_nat n :: u16) :: u32) = word_of_nat n"
  by (simp add: word_unat_eq_iff unsigned_ucast_eq unat_of_nat take_bit_nat_eq_self)

lemma entry_words:
  assumes "b < blks conf" "e < ents conf"
  shows "unat (ucast (word_of_nat b :: u16) :: u32) = b" "unat (word_of_nat e :: u32) = e"
    "b < 65536" "e < 65536" "entry_page b e < 65536"
proof -
  show b: "b < 65536" using assms(1) blks_bound by simp
  have "ents conf \<le> ppb conf" by (simp add: ents_def)
  then show e: "e < 65536" using assms(2) ppb_bound by simp
  show "unat (ucast (word_of_nat b :: u16) :: u32) = b"
    using b by (simp add: unsigned_ucast_eq unat_of_nat take_bit_nat_eq_self)
  show "unat (word_of_nat e :: u32) = e" using e by (simp add: unat_word_of_nat_u32)
  show "entry_page b e < 65536" using entry_page_less [OF assms] geometry_facts(7) [OF g] by simp
qed

lemma entry_pix:
  assumes "b < blks conf" "e < ents conf"
  shows "unat (ucast (SPIFFS_OBJ_LOOKUP_ENTRY_TO_PIX conf (ucast (word_of_nat b :: u16)) (word_of_nat e)) :: u16) =
      entry_page b e"
    "unat (SPIFFS_OBJ_LOOKUP_ENTRY_TO_PADDR conf (ucast (word_of_nat b :: u16)) (word_of_nat e)) =
      page_addr (entry_page b e)"
proof -
  note w = entry_words [OF assms]
  have "unat (SPIFFS_OBJ_LOOKUP_ENTRY_TO_PIX conf (ucast (word_of_nat b :: u16)) (word_of_nat e)) = entry_page b e"
    using assms by (subst unat_entry_to_pix) (simp_all add: w page_of_entry_def)
  then show "unat (ucast (SPIFFS_OBJ_LOOKUP_ENTRY_TO_PIX conf (ucast (word_of_nat b :: u16)) (word_of_nat e)) :: u16) =
      entry_page b e"
    using w(5) by (simp add: unsigned_ucast_eq take_bit_nat_eq_self)
  show "unat (SPIFFS_OBJ_LOOKUP_ENTRY_TO_PADDR conf (ucast (word_of_nat b :: u16)) (word_of_nat e)) =
      page_addr (entry_page b e)"
    using assms by (subst unat_entry_to_paddr) (simp_all add: w page_of_entry_def addr_of_page_def)
qed

text \<open>The entry of \<open>(b, e)\<close> is inside lookup page \<open>2 * e div psz\<close> of the block.\<close>

lemma lu_addr_page:
  assumes "b < blks conf" "e < ents conf"
  defines "l \<equiv> 2 * e div psz conf" and "off \<equiv> 2 * e mod psz conf"
  shows "l < lups conf" "lu_addr b e = page_addr (b * ppb conf + l) + off" "off + 2 \<le> psz conf"
    "b * ppb conf + l < blks conf * ppb conf"
proof -
  have "2 * e < lups conf * psz conf" using geometry_facts(11) [OF g] assms(2) by linarith
  then show l: "l < lups conf" unfolding l_def using psz_pos by (simp add: div_less_iff_less_mult)
  have "2 * e = l * psz conf + off" by (simp add: l_def off_def)
  then show "lu_addr b e = page_addr (b * ppb conf + l) + off"
    by (simp add: addr_of_entry_def addr_of_page_def add_mult_distrib mult.assoc)
  have ev: "even (psz conf)" using geometry_facts(2) [OF g] by auto
  then have "even off" unfolding off_def by (simp add: dvd_mod)
  moreover have "off < psz conf" unfolding off_def using psz_pos by simp
  ultimately show "off + 2 \<le> psz conf" using ev by presburger
  have "l < ppb conf" using l geometry_facts(10) [OF g] by simp
  then show "b * ppb conf + l < blks conf * ppb conf"
    using mult_le_of_le [OF assms(1), of "ppb conf"] by simp
qed

lemma lu_id_read: "lu_id conf m b e = word16 (m (lu_addr b e)) (m (lu_addr b e + 1))"
  by (simp add: lu_id_def addr_of_entry_def)

lemma lu_addr_inject:
  assumes "b < blks conf" "e < ents conf" "b' < blks conf" "e' < ents conf" "(b, e) \<noteq> (b', e')"
  shows "lu_addr b e + 2 \<le> lu_addr b' e' \<or> lu_addr b' e' + 2 \<le> lu_addr b e"
proof (cases "b = b'")
  case True
  then show ?thesis using assms(5) by (auto simp: addr_of_entry_def)
next
  case False
  have e: "2 * e + 2 \<le> ppb conf * psz conf" "2 * e' + 2 \<le> ppb conf * psz conf"
  proof -
    have "lups conf * psz conf \<le> ppb conf * psz conf"
      using geometry_facts(10) [OF g] by simp
    then show "2 * e + 2 \<le> ppb conf * psz conf" "2 * e' + 2 \<le> ppb conf * psz conf"
      using geometry_facts(11) [OF g] assms(2,4) by linarith+
  qed
  from False consider "b < b'" | "b' < b" by linarith
  then show ?thesis
  proof cases
    case 1
    from mult_le_of_le [OF this, of "ppb conf * psz conf"] e show ?thesis by (simp add: addr_of_entry_def)
  next
    case 2
    from mult_le_of_le [OF this, of "ppb conf * psz conf"] e show ?thesis by (simp add: addr_of_entry_def)
  qed
qed

text \<open>Lookup entries and pages do not overlap.\<close>

lemma lu_addr_apart:
  assumes "b < blks conf" "e < ents conf" "e' < ents conf"
  shows "lu_addr b e + 2 \<le> page_addr (entry_page b' e') \<or> page_addr (entry_page b' e') + psz conf \<le> lu_addr b e"
proof -
  note l = lu_addr_page [OF assms(1,2)]
  have "b * ppb conf + 2 * e div psz conf \<noteq> entry_page b' e'"
  proof
    assume eq: "b * ppb conf + 2 * e div psz conf = entry_page b' e'"
    have lt: "2 * e div psz conf < ppb conf" "lups conf + e' < ppb conf"
      using l(1) assms(3) geometry_facts(10) [OF g] by (simp_all add: ents_def)
    have "(b * ppb conf + 2 * e div psz conf) mod ppb conf = 2 * e div psz conf"
      "entry_page b' e' mod ppb conf = lups conf + e'"
      using lt by (simp_all add: page_of_entry_def)
    then show False using eq l(1) by simp
  qed
  from pages_disjoint [OF this [symmetric] l(3), of "base conf"] show ?thesis
    unfolding l(2) addr_of_page_def by linarith
qed

lemma length_content [simp]: "length (content m b e) = psz conf"
  by (simp add: page_bytes_def)

text \<open>Programming an entry changes that entry only.\<close>

lemma program_entry:
  assumes "b < blks conf" "e < ents conf"
  shows "e' < ents conf \<Longrightarrow> content (nor_program m (lu_addr b e) (bytes16 w)) b' e' = content m b' e'"
    and "b' < blks conf \<Longrightarrow> e' < ents conf \<Longrightarrow>
      lu_id conf (nor_program m (lu_addr b e) (bytes16 w)) b' e' =
        (if (b', e') = (b, e) then lu_id conf m b e AND w else lu_id conf m b' e')"
proof -
  show "content (nor_program m (lu_addr b e) (bytes16 w)) b' e' = content m b' e'" if "e' < ents conf"
    unfolding page_bytes_def using lu_addr_apart [OF assms that, of b']
    by (intro nor_read_program_disjoint) auto
  assume b': "b' < blks conf" "e' < ents conf"
  show "lu_id conf (nor_program m (lu_addr b e) (bytes16 w)) b' e' =
        (if (b', e') = (b, e) then lu_id conf m b e AND w else lu_id conf m b' e')"
  proof (cases "(b', e') = (b, e)")
    case True
    then show ?thesis by (simp add: lu_id_read nor_program_def bytes16_def word16_and)
  next
    case False
    then have "lu_addr b' e' + 2 \<le> lu_addr b e \<or> lu_addr b e + 2 \<le> lu_addr b' e'"
      using lu_addr_inject [OF b' assms] by auto
    then show ?thesis using False by (auto simp: lu_id_read nor_program_def)
  qed
qed

text \<open>Programming bytes of a page changes that page only.\<close>

lemma program_page:
  fixes m :: "nat \<Rightarrow> u8"
  assumes "b < blks conf" "e < ents conf" "off + length bs \<le> psz conf"
  defines "m' \<equiv> nor_program m (page_addr (entry_page b e) + off) bs"
  shows "b' < blks conf \<Longrightarrow> e' < ents conf \<Longrightarrow> lu_id conf m' b' e' = lu_id conf m b' e'"
    and "e' < ents conf \<Longrightarrow> (b', e') \<noteq> (b, e) \<Longrightarrow> content m' b' e' = content m b' e'"
    and "clears_bits m (page_addr (entry_page b e) + off) bs \<Longrightarrow> content m' b e = blit off bs (content m b e)"
proof -
  show "lu_id conf m' b' e' = lu_id conf m b' e'" if "b' < blks conf" "e' < ents conf"
    using lu_addr_apart [OF that assms(2), of b] assms(3) by (auto simp: lu_id_read m'_def nor_program_def)
  show "content m' b' e' = content m b' e'" if "e' < ents conf" "(b', e') \<noteq> (b, e)"
  proof -
    have "entry_page b' e' \<noteq> entry_page b e" using entry_page_inject [OF that(1) assms(2)] that(2) by auto
    from pages_disjoint [OF this assms(3), of "base conf"] show ?thesis
      unfolding page_bytes_def m'_def addr_of_page_def by (intro nor_read_program_disjoint) auto
  qed
  show "content m' b e = blit off bs (content m b e)"
    if "clears_bits m (page_addr (entry_page b e) + off) bs"
    unfolding page_bytes_def m'_def by (rule nor_read_program_blit [OF assms(3) that])
qed

end

section \<open>Changes of one entry\<close>

text \<open>From \<open>m\<close> to \<open>m'\<close> the entry \<open>(b, e)\<close> gets the id \<open>oid\<close> and its page the bytes \<open>bs\<close>; all other
  entries and pages stay.\<close>

definition entry_becomes ::
  "'d spiffs_config \<Rightarrow> (nat \<Rightarrow> u8) \<Rightarrow> (nat \<Rightarrow> u8) \<Rightarrow> nat \<Rightarrow> nat \<Rightarrow> u16 \<Rightarrow> u8 list \<Rightarrow> bool" where
  "entry_becomes conf m m' b e oid bs \<longleftrightarrow> (\<forall>b' < blks conf. \<forall>e' < ents conf.
     lu_id conf m' b' e' = (if (b', e') = (b, e) then oid else lu_id conf m b' e') \<and>
     page_bytes conf m' b' e' = (if (b', e') = (b, e) then bs else page_bytes conf m b' e'))"

text \<open>Pages whose entry is free are erased.\<close>

definition free_pages_blank :: "'d spiffs_config \<Rightarrow> (nat \<Rightarrow> u8) \<Rightarrow> bool" where
  "free_pages_blank conf m \<longleftrightarrow> (\<forall>b < blks conf. \<forall>e < ents conf.
     lu_id conf m b e = SPIFFS_OBJ_ID_FREE \<longrightarrow> page_bytes conf m b e = replicate (psz conf) 0xff)"

lemma entry_becomes_blank:
  assumes "entry_becomes conf m m' b e oid bs" "oid \<noteq> SPIFFS_OBJ_ID_FREE" "free_pages_blank conf m"
  shows "free_pages_blank conf m'"
  using assms unfolding entry_becomes_def free_pages_blank_def by (metis (no_types, lifting))

lemma entry_becomes_trans:
  assumes "entry_becomes conf m m1 b e oid bs" "entry_becomes conf m1 m2 b e oid' bs'"
  shows "entry_becomes conf m m2 b e oid' bs'"
  using assms unfolding entry_becomes_def by (metis (no_types, lifting))

lemma entry_becomes_at:
  assumes "entry_becomes conf m m' b e oid bs" "b < blks conf" "e < ents conf"
  shows "lu_id conf m' b e = oid" "page_bytes conf m' b e = bs"
  using assms by (auto simp: entry_becomes_def)

text \<open>A state after a search reserved the free entry \<open>(b, e)\<close>.\<close>

definition took_entry :: "nat \<Rightarrow> nat \<Rightarrow> 'd spiffs \<Rightarrow> 'd spiffs" where
  "took_entry b e p =
     (let p = p\<lparr>free_cursor_block_ix := word_of_nat b, free_cursor_obj_lu_entry := e\<rparr>
      in if e = 0 then p\<lparr>free_blocks := free_blocks p - 1\<rparr> else p)"

text \<open>Deleting a page: its entry becomes 0, and used and deleted flags are cleared in its header.\<close>

definition deleted_page :: "u8 list \<Rightarrow> u8 list" where
  "deleted_page bs = bs[4 := bs ! 4 AND 0x7e]"

context spiffs_flash
begin

lemma becomes_entry:
  assumes "b < blks conf" "e < ents conf" "lu_id conf m b e AND w = w'"
  shows "entry_becomes conf m (nor_program m (lu_addr b e) (bytes16 w)) b e w' (content m b e)"
  using program_entry [OF assms(1,2)] assms(3) by (auto simp: entry_becomes_def)

lemma becomes_page:
  assumes "b < blks conf" "e < ents conf" "off + length bs \<le> psz conf"
    "clears_bits m (page_addr (entry_page b e) + off) bs"
  shows "entry_becomes conf m (nor_program m (page_addr (entry_page b e) + off) bs) b e (lu_id conf m b e)
    (blit off bs (content m b e))"
  using program_page [OF assms(1-3)] assms(4) by (auto simp: entry_becomes_def)

lemma clears_bits_content:
  assumes "off + length bs \<le> psz conf" "\<And>i. i < length bs \<Longrightarrow> content m b e ! (off + i) AND bs ! i = bs ! i"
  shows "clears_bits m (page_addr (entry_page b e) + off) bs"
  using assms by (auto simp: clears_bits_def page_bytes_def nor_read_def add.assoc)

lemma find_free_ok:
  assumes m: "matches m p fs" and b: "unat (free_cursor_block_ix p) < blks conf"
    and f: "cleaning p \<noteq> 0 \<or> 2 \<le> free_blocks p" and t: "ticks fs + search_cost 0 < 2 ^ 32 - 1"
  shows "\<exists>res bo eo fs'. spiffs_obj_lu_find_free fs (free_cursor_block_ix fs) (free_cursor_obj_lu_entry fs) =
      Some (res, bo, eo, fs') \<and> ticks fs' \<le> ticks fs + search_cost 0 \<and>
    (res = SPIFFS_OK \<and> (\<exists>b < blks conf. \<exists>e < ents conf. bo = Some (word_of_nat b) \<and> eo = Some e \<and>
        lu_id conf m b e = SPIFFS_OBJ_ID_FREE \<and> matches m (took_entry b e p) fs') \<or>
     res = SPIFFS_ERR_NOT_FOUND \<and> matches m p fs' \<and>
       (\<forall>b < blks conf. \<forall>e < ents conf. lu_id conf m b e \<noteq> SPIFFS_OBJ_ID_FREE))"
proof -
  have nc: "\<not> (cleaning fs = 0 \<and> free_blocks fs < 2)" using f matches_fields(6,7) [OF m] by auto
  have codes: "SPIFFS_ERR_NOT_FOUND \<noteq> SPIFFS_OK" "SPIFFS_ERR_NOT_FOUND \<noteq> SPIFFS_VIS_END"
    "SPIFFS_OK \<noteq> SPIFFS_VIS_END"
    by (simp_all add: SPIFFS_ERR_NOT_FOUND_def SPIFFS_OK_def SPIFFS_VIS_END_def SPIFFS_ERR_INTERNAL_def)
  have cur: "word_of_nat (unat (free_cursor_block_ix p)) = free_cursor_block_ix fs"
    using matches_frame(1) [OF m] by simp
  from find_id_ok [OF b m t, of "free_cursor_obj_lu_entry fs" SPIFFS_OBJ_ID_FREE, unfolded cur]
  obtain res bo eo fs1 where
    r: "spiffs_obj_lu_find_id fs (free_cursor_block_ix fs) (free_cursor_obj_lu_entry fs) SPIFFS_OBJ_ID_FREE =
      Some (res, bo, eo, fs1)" and m1: "matches m p fs1" and t1: "ticks fs1 \<le> ticks fs + search_cost 0"
    and c: "res = SPIFFS_OK \<and> (\<exists>b' < blks conf. \<exists>e' < ents conf. bo = Some (word_of_nat b') \<and> eo = Some e' \<and>
        lu_id conf m b' e' = SPIFFS_OBJ_ID_FREE) \<or>
     res = SPIFFS_ERR_NOT_FOUND \<and> (\<forall>b' < blks conf. \<forall>e' < ents conf. lu_id conf m b' e' \<noteq> SPIFFS_OBJ_ID_FREE)"
    by blast
  from c show ?thesis
  proof (elim disjE conjE exE)
    fix b e assume ok: "res = SPIFFS_OK" and be: "b < blks conf" "e < ents conf" "bo = Some (word_of_nat b)" "eo = Some e"
      and free: "lu_id conf m b e = SPIFFS_OBJ_ID_FREE"
    define fs2 where "fs2 = took_entry b e fs1"
    have m2: "matches m (took_entry b e p) fs2"
      unfolding fs2_def took_entry_def Let_def using matches_fields(7) [OF m1]
      by (auto intro!: matches_updates m1)
    have t2: "ticks fs2 = ticks fs1" by (simp add: fs2_def took_entry_def Let_def)
    have "spiffs_obj_lu_find_free fs (free_cursor_block_ix fs) (free_cursor_obj_lu_entry fs) =
        Some (SPIFFS_OK, bo, eo, fs2)"
      unfolding spiffs_obj_lu_find_free_def if_not_P [OF nc] r fs2_def
      using ok be codes by (simp add: SPIFFS_OK_def took_entry_def Let_def r)
    then show ?thesis using be free m2 t1 t2 by auto
  next
    assume nf: "res = SPIFFS_ERR_NOT_FOUND"
      and all: "\<forall>b' < blks conf. \<forall>e' < ents conf. lu_id conf m b' e' \<noteq> SPIFFS_OBJ_ID_FREE"
    have "spiffs_obj_lu_find_free fs (free_cursor_block_ix fs) (free_cursor_obj_lu_entry fs) =
        Some (SPIFFS_ERR_NOT_FOUND, bo, eo, fs1)"
      unfolding spiffs_obj_lu_find_free_def if_not_P [OF nc] r
      using nf codes by (simp add: SPIFFS_OK_def r)
    then show ?thesis using nf all m1 t1 by auto
  qed
qed

lemma entry_addrs:
  assumes "b < blks conf" "e < ents conf"
  shows "unat (lu_entry_of_page conf (word_of_nat (entry_page b e))) = lu_addr b e"
    "unat (lu_entry_of_block conf (word_of_nat b) e) = lu_addr b e"
    "unat (SPIFFS_PAGE_TO_PADDR conf (ucast (word_of_nat (entry_page b e) :: u16))) = page_addr (entry_page b e)"
    "(ucast (SPIFFS_OBJ_LOOKUP_ENTRY_TO_PIX conf (ucast (word_of_nat b :: u16)) (word_of_nat e)) :: u16) =
      word_of_nat (entry_page b e)"
    "in_page conf (lu_entry_of_page conf (word_of_nat (entry_page b e))) 2"
    "in_page conf (lu_entry_of_block conf (word_of_nat b) e) 2"
proof -
  note w = entry_words [OF assms]
  note l = lu_addr_page [OF assms]
  have le: "lups conf + e < ppb conf" using assms(2) geometry_facts(10) [OF g] by (simp add: ents_def)
  have up: "unat (ucast (word_of_nat (entry_page b e) :: u16) :: u32) = entry_page b e"
    using w(5) by (simp add: unat_ucast_16 unat_of_nat)
  have top: "lu_addr b e + 2 < 2 ^ 32"
    using page_top [OF l(4)] phys_top l(2,3) by linarith
  have ba: "unat (SPIFFS_BLOCK_TO_PADDR conf c) = base conf + b * (ppb conf * psz conf)" if "unat c = b" for c
    using assms(1) that by (simp add: layout_simps)
  have add: "unat (x + y) = lu_addr b e" if "unat x = base conf + b * (ppb conf * psz conf)" "unat y = 2 * e"
    for x y :: u32
    using that top by (subst unat_add_no_wrap) (simp_all add: addr_of_entry_def)
  have e2: "unat (x * (2 :: u32)) = 2 * e" if "unat x = e" for x
    using that w(4) by (subst unat_mult_no_wrap) simp_all
  have nl: "\<not> SPIFFS_IS_LOOKUP_PAGE conf (ucast (word_of_nat (entry_page b e) :: u16))"
    unfolding is_lookup_page_iff up using le by (simp add: page_of_entry_def)
  have "unat (SPIFFS_BLOCK_FOR_PAGE conf (ucast (word_of_nat (entry_page b e) :: u16))) = b"
    unfolding unat_block_for_page up using le by (simp add: page_of_entry_def)
  moreover have "unat (SPIFFS_OBJ_LOOKUP_ENTRY_FOR_PAGE conf (ucast (word_of_nat (entry_page b e) :: u16))) = e"
    unfolding unat_entry_for_page [OF nl] up using le by (simp add: page_of_entry_def)
  ultimately show a1: "unat (lu_entry_of_page conf (word_of_nat (entry_page b e))) = lu_addr b e"
    unfolding lu_entry_of_page_def sizeof_simps by (intro add ba e2)
  show a2: "unat (lu_entry_of_block conf (word_of_nat b) e) = lu_addr b e"
    unfolding lu_entry_of_block_def sizeof_simps by (intro add ba e2 w)
  show "unat (SPIFFS_PAGE_TO_PADDR conf (ucast (word_of_nat (entry_page b e) :: u16))) = page_addr (entry_page b e)"
    using entry_page_less [OF assms] by (simp add: unat_page_to_paddr up addr_of_page_def)
  show "(ucast (SPIFFS_OBJ_LOOKUP_ENTRY_TO_PIX conf (ucast (word_of_nat b :: u16)) (word_of_nat e)) :: u16) =
      word_of_nat (entry_page b e)"
    using entry_pix(1) [OF assms] w(5) by (simp add: word_unat_eq_iff unat_of_nat)
  have off: "2 * e mod psz conf < psz conf" using psz_pos by simp
  show "in_page conf (lu_entry_of_page conf (word_of_nat (entry_page b e))) 2"
    "in_page conf (lu_entry_of_block conf (word_of_nat b) e) 2"
    by (rule in_page_at [OF l(4) _ l(3) off], simp only: a1 a2 l(2))+
qed


lemma write_entry:
  assumes m: "matches m p fs" and be: "b < blks conf" "e < ents conf" and t: "ticks fs < 2 ^ 32 - 1"
    and w: "lu_id conf m b e AND w = w" and a: "addr = lu_entry_of_page conf (word_of_nat (entry_page b e)) \<or>
      addr = lu_entry_of_block conf (word_of_nat b) e"
    and op: "op AND SPIFFS_OP_COM_MASK \<noteq> SPIFFS_OP_C_WRTHRU"
  shows "\<exists>m' fs'. spiffs_phys_wr fs op fh addr (bytes16 w) = Some (0, fs') \<and> matches m' p fs' \<and>
    entry_becomes conf m m' b e w (content m b e) \<and> ticks fs' \<le> ticks fs + 1"
proof -
  have ad: "unat addr = lu_addr b e" "in_page conf addr (length (bytes16 w))"
    using a entry_addrs [OF be] by auto
  have c: "clears_bits m (unat addr) (bytes16 w)"
  proof -
    have "word16 (m (lu_addr b e) AND ucast w) (m (lu_addr b e + 1) AND ucast (drop_bit 8 w)) =
        word16 (ucast w) (ucast (drop_bit 8 w))"
      using w by (simp add: word16_and lu_id_read)
    from arg_cong [OF this, of bytes16]
    have "m (lu_addr b e) AND ucast w = ucast w" "m (lu_addr b e + 1) AND ucast (drop_bit 8 w) = ucast (drop_bit 8 w)"
      unfolding bytes16_word16 by simp_all
    then show ?thesis by (auto simp: clears_bits_def ad bytes16_def less_Suc_eq)
  qed
  from phys_wr_matches [OF m ad(2) t op, of fh] c obtain fs' where
    "spiffs_phys_wr fs op fh addr (bytes16 w) = Some (0, fs')"
    "matches (nor_program m (unat addr) (bytes16 w)) p fs'" "ticks fs' \<le> ticks fs + 1" by blast
  then show ?thesis using becomes_entry [OF be w] unfolding ad by blast
qed

lemma write_page:
  assumes m: "matches m p fs" and be: "b < blks conf" "e < ents conf" and t: "ticks fs < 2 ^ 32 - 1"
    and a: "unat addr = page_addr (entry_page b e) + off" "off < psz conf" "off + length bs \<le> psz conf"
    and c: "\<And>i. i < length bs \<Longrightarrow> content m b e ! (off + i) AND bs ! i = bs ! i"
    and op: "op AND SPIFFS_OP_COM_MASK \<noteq> SPIFFS_OP_C_WRTHRU"
  shows "\<exists>m' fs'. spiffs_phys_wr fs op fh addr bs = Some (0, fs') \<and> matches m' p fs' \<and>
    entry_becomes conf m m' b e (lu_id conf m b e) (blit off bs (content m b e)) \<and> ticks fs' \<le> ticks fs + 1"
proof -
  have ip: "in_page conf addr (length bs)"
    by (rule in_page_at [OF entry_page_less [OF be] a(1) a(3) a(2)])
  have cb: "clears_bits m (page_addr (entry_page b e) + off) bs" by (rule clears_bits_content [OF a(3) c])
  from phys_wr_matches [OF m ip t op, of fh] cb a(1) obtain fs' where
    "spiffs_phys_wr fs op fh addr bs = Some (0, fs')"
    "matches (nor_program m (unat addr) bs) p fs'" "ticks fs' \<le> ticks fs + 1" by auto
  then show ?thesis using becomes_page [OF be a(3) cb] unfolding a(1) by blast
qed

lemma unat_page_off:
  fixes addr w :: u32
  assumes "b < blks conf" "e < ents conf" "unat addr = page_addr (entry_page b e)" "unat w \<le> psz conf"
  shows "unat (addr + w) = page_addr (entry_page b e) + unat w"
  by (rule unat_in_page [OF entry_page_less [OF assms(1,2)] assms(3,4)])

end

lemma nor_program_and: "nor_program m a [x] = nor_program m a [m a AND x]"
  by (rule ext) (auto simp: nor_program_def le_less_Suc_eq)

lemma blit_single: "n < length xs \<Longrightarrow> blit n [x] xs = xs[n := x]"
  by (simp add: blit_def upd_conv_take_nth_drop)

lemma op_codes:
  "(SPIFFS_OP_T_OBJ_LU OR SPIFFS_OP_C_DELE) AND SPIFFS_OP_COM_MASK \<noteq> SPIFFS_OP_C_WRTHRU"
  "(SPIFFS_OP_T_OBJ_LU OR SPIFFS_OP_C_UPDT) AND SPIFFS_OP_COM_MASK \<noteq> SPIFFS_OP_C_WRTHRU"
  "(SPIFFS_OP_T_OBJ_DA OR SPIFFS_OP_C_UPDT) AND SPIFFS_OP_COM_MASK \<noteq> SPIFFS_OP_C_WRTHRU"
  "(SPIFFS_OP_T_OBJ_DA OR SPIFFS_OP_C_MOVD) AND SPIFFS_OP_COM_MASK \<noteq> SPIFFS_OP_C_WRTHRU"
  "(SPIFFS_OP_T_OBJ_DA OR SPIFFS_OP_C_DELE) AND SPIFFS_OP_COM_MASK \<noteq> SPIFFS_OP_C_WRTHRU"
  "(SPIFFS_OP_T_OBJ_DA OR SPIFFS_OP_C_DELE) AND SPIFFS_OP_COM_MASK = SPIFFS_OP_C_DELE"
  "(SPIFFS_OP_T_OBJ_DA OR SPIFFS_OP_C_DELE) AND SPIFFS_OP_TYPE_MASK \<noteq> SPIFFS_OP_T_OBJ_LU"
  by (simp_all add: SPIFFS_OP_T_OBJ_LU_def SPIFFS_OP_T_OBJ_DA_def SPIFFS_OP_C_DELE_def SPIFFS_OP_C_UPDT_def
      SPIFFS_OP_C_MOVD_def SPIFFS_OP_C_WRTHRU_def SPIFFS_OP_COM_MASK_def SPIFFS_OP_TYPE_MASK_def)

text \<open>The counters after a deletion and an allocation.\<close>

definition count_deleted :: "'d spiffs \<Rightarrow> 'd spiffs" where
  "count_deleted p = p\<lparr>stats_p_deleted := stats_p_deleted p + 1, stats_p_allocated := stats_p_allocated p - 1\<rparr>"

definition count_allocated :: "'d spiffs \<Rightarrow> 'd spiffs" where
  "count_allocated p = p\<lparr>stats_p_allocated := stats_p_allocated p + 1\<rparr>"

context spiffs_flash
begin

lemma page_delete_ok:
  assumes m: "matches m p fs" and be: "b < blks conf" "e < ents conf" and t: "ticks fs + 1 < 2 ^ 32 - 1"
  shows "\<exists>m' fs'. spiffs_page_delete fs (word_of_nat (entry_page b e)) = Some (0, fs') \<and>
    matches m' (count_deleted p) fs' \<and>
    entry_becomes conf m m' b e SPIFFS_OBJ_ID_DELETED (deleted_page (content m b e)) \<and> ticks fs' \<le> ticks fs + 2"
proof -
  let ?pix = "word_of_nat (entry_page b e) :: u16"
  have "ticks fs < 2 ^ 32 - 1" using t by simp
  from write_entry [OF m be this _ _ op_codes(1), of SPIFFS_OBJ_ID_DELETED "lu_entry_of_page conf ?pix" 0]
  obtain m1 fs1 where
    r1: "spiffs_phys_wr fs (SPIFFS_OP_T_OBJ_LU OR SPIFFS_OP_C_DELE) 0 (lu_entry_of_page conf ?pix)
      (bytes16 SPIFFS_OBJ_ID_DELETED) = Some (0, fs1)" and m1: "matches m1 p fs1"
    and e1: "entry_becomes conf m m1 b e SPIFFS_OBJ_ID_DELETED (content m b e)" and t1: "ticks fs1 \<le> ticks fs + 1"
    by (auto simp: SPIFFS_OBJ_ID_DELETED_def)
  define fs2 where "fs2 = count_deleted fs1"
  have m2: "matches m1 (count_deleted p) fs2"
    unfolding fs2_def count_deleted_def using matches_frame(7,8) [OF m1] by (auto intro!: matches_updates m1)
  have t2: "ticks fs2 < 2 ^ 32 - 1" using t t1 by (simp add: fs2_def count_deleted_def)
  let ?addr = "SPIFFS_PAGE_TO_PADDR conf (ucast ?pix) + offsetof_flags"
  have four: "4 + 1 \<le> psz conf" "4 < psz conf" using geometry_facts(1) [OF g] by simp_all
  have a: "unat ?addr = page_addr (entry_page b e) + 4"
    using four by (subst unat_page_off [OF be entry_addrs(3) [OF be]]) (simp_all add: offsetof_flags_def)
  let ?x = "0x7e :: u8"
  let ?y = "m1 (page_addr (entry_page b e) + 4) AND ?x"
  have ip: "in_page conf ?addr (length [?x])"
    by (rule in_page_at [OF entry_page_less [OF be] a]) (use four in simp_all)
  from phys_wr_matches [OF m2 ip t2 op_codes(5), of 0] op_codes(6,7) obtain fs3 where
    r3: "spiffs_phys_wr fs2 (SPIFFS_OP_T_OBJ_DA OR SPIFFS_OP_C_DELE) 0 ?addr [?x] = Some (0, fs3)"
    and m3: "matches (nor_program m1 (unat ?addr) [?x]) (count_deleted p) fs3" and t3: "ticks fs3 \<le> ticks fs2 + 1"
    by blast
  have "clears_bits m1 (page_addr (entry_page b e) + 4) [?y]" by (simp add: clears_bits_def and.assoc [symmetric])
  from becomes_page [OF be _ this] four(1)
  have "entry_becomes conf m1 (nor_program m1 (unat ?addr) [?x]) b e (lu_id conf m1 b e) (blit 4 [?y] (content m1 b e))"
    unfolding a nor_program_and [of m1 "page_addr (entry_page b e) + 4" ?x] by simp
  moreover have "lu_id conf m1 b e = SPIFFS_OBJ_ID_DELETED" "content m1 b e = content m b e"
    using entry_becomes_at [OF e1 be] by simp_all
  moreover have "m1 (page_addr (entry_page b e) + 4) = content m1 b e ! 4"
    using four by (simp add: page_bytes_def nor_read_def)
  ultimately have "entry_becomes conf m1 (nor_program m1 (unat ?addr) [?x]) b e SPIFFS_OBJ_ID_DELETED
      (deleted_page (content m b e))"
    using four by (simp add: deleted_page_def blit_single)
  with e1 have "entry_becomes conf m (nor_program m1 (unat ?addr) [?x]) b e SPIFFS_OBJ_ID_DELETED
      (deleted_page (content m b e))"
    by (rule entry_becomes_trans)
  moreover have "spiffs_page_delete fs ?pix = Some (0, fs3)"
    unfolding spiffs_page_delete_def matches_fields(1) [OF m]
    using r1 r3 matches_fields(1) [OF m1]
    by (simp add: SPIFFS_OK_def fs2_def count_deleted_def SPIFFS_PH_FLAG_DELET_def SPIFFS_PH_FLAG_USED_def)
  moreover have "ticks fs3 \<le> ticks fs + 2" using t3 t1 by (simp add: fs2_def count_deleted_def)
  ultimately show ?thesis using m3 by blast
qed

end

text \<open>A page as it is allocated: the header with cleared flags, and data in the erased rest.\<close>

definition allocated_header :: "bool \<Rightarrow> spiffs_page_header \<Rightarrow> spiffs_page_header" where
  "allocated_header finalize ph = ph\<lparr>ph_flags := (ph_flags ph AND NOT SPIFFS_PH_FLAG_USED) AND
     (if finalize then NOT SPIFFS_PH_FLAG_FINAL else - 1)\<rparr>"

definition page_image :: "nat \<Rightarrow> spiffs_page_header \<Rightarrow> nat \<Rightarrow> u8 list \<Rightarrow> u8 list" where
  "page_image n ph offs bs = page_header_bytes ph @ blit offs bs (replicate (n - 5) 0xff)"

lemma length_page_header_bytes [simp]: "length (page_header_bytes ph) = 5"
  by (simp add: page_header_bytes_def)

lemma length_page_image [simp]: "5 + offs + length bs \<le> n \<Longrightarrow> length (page_image n ph offs bs) = n"
  by (simp add: page_image_def)

lemma blit_nil [simp]: "blit off [] xs = xs"
  by (simp add: blit_def)

lemma blit_0: "length bs \<le> length xs \<Longrightarrow> blit 0 bs xs = bs @ drop (length bs) xs"
  by (simp add: blit_def)

lemma page_image_write:
  assumes "5 + offs + length bs \<le> n"
  shows "blit 0 (page_header_bytes ph) (replicate n 0xff) = page_image n ph 0 []"
    "blit (5 + offs) bs (page_image n ph 0 []) = page_image n ph offs bs"
    "(page_image n ph offs bs)[4 := x] = page_image n (ph\<lparr>ph_flags := x\<rparr>) offs bs"
    "page_image n ph offs bs ! 4 = ph_flags ph"
proof -
  show "blit 0 (page_header_bytes ph) (replicate n 0xff) = page_image n ph 0 []"
    using assms by (simp add: page_image_def blit_0)
  show "blit (5 + offs) bs (page_image n ph 0 []) = page_image n ph offs bs"
    using assms by (simp add: page_image_def blit_def)
  show "(page_image n ph offs bs)[4 := x] = page_image n (ph\<lparr>ph_flags := x\<rparr>) offs bs"
    "page_image n ph offs bs ! 4 = ph_flags ph"
    by (simp_all add: page_image_def page_header_bytes_def bytes16_def)
qed

lemma free_and [simp]: "SPIFFS_OBJ_ID_FREE AND oid = oid"
proof -
  have e: "SPIFFS_OBJ_ID_FREE = mask 16" by (simp add: SPIFFS_OBJ_ID_FREE_def mask_eq_exp_minus_1)
  show ?thesis unfolding e by (rule bit_word_eqI) (auto simp: bit_simps)
qed

lemma clear_flag_again: "(x :: u8) AND f = 0 \<Longrightarrow> x AND NOT f = x"
  by (simp add: and_not_eq_diff)

context spiffs_flash
begin

lemma page_allocate_data_ok:
  assumes m: "matches m p fs" and blank: "free_pages_blank conf m"
    and b: "unat (free_cursor_block_ix p) < blks conf" and f: "cleaning p \<noteq> 0 \<or> 2 \<le> free_blocks p"
    and sz: "5 + unat offs < psz conf" "5 + unat offs + length (case data of None \<Rightarrow> [] | Some bs \<Rightarrow> bs) \<le> psz conf"
    and t: "ticks fs + search_cost 0 + 4 < 2 ^ 32 - 1"
  shows "(\<exists>b e m' fs'. b < blks conf \<and> e < ents conf \<and> lu_id conf m b e = SPIFFS_OBJ_ID_FREE \<and>
      spiffs_page_allocate_data fs oid ph data offs finalize =
        Some (0, allocated_header finalize ph, word_of_nat (entry_page b e), fs') \<and>
      matches m' (count_allocated (took_entry b e p)) fs' \<and>
      entry_becomes conf m m' b e oid (page_image (psz conf) (allocated_header finalize ph) (unat offs)
        (case data of None \<Rightarrow> [] | Some bs \<Rightarrow> bs)) \<and>
      ticks fs' \<le> ticks fs + search_cost 0 + 4) \<or>
    (\<exists>fs'. spiffs_page_allocate_data fs oid ph data offs finalize = Some (SPIFFS_ERR_NOT_FOUND, ph, 0, fs') \<and>
      matches m p fs' \<and> (\<forall>b < blks conf. \<forall>e < ents conf. lu_id conf m b e \<noteq> SPIFFS_OBJ_ID_FREE) \<and>
      ticks fs' \<le> ticks fs + search_cost 0)"
proof -
  let ?bs = "case data of None \<Rightarrow> [] | Some bs \<Rightarrow> bs"
  let ?off = "5 + unat offs"
  have neg: "SPIFFS_ERR_NOT_FOUND < SPIFFS_OK" "\<not> (0 :: int) < SPIFFS_OK" "SPIFFS_OK = 0"
    by (simp_all add: SPIFFS_ERR_NOT_FOUND_def SPIFFS_OK_def)
  have t0: "ticks fs + search_cost 0 < 2 ^ 32 - 1" using t by simp
  from find_free_ok [OF m b f t0] show ?thesis
  proof (elim exE conjE disjE)
    fix res bo eo fs'
    assume r: "spiffs_obj_lu_find_free fs (free_cursor_block_ix fs) (free_cursor_obj_lu_entry fs) = Some (res, bo, eo, fs')"
      and "res = SPIFFS_ERR_NOT_FOUND" "matches m p fs'" "ticks fs' \<le> ticks fs + search_cost 0"
        "\<forall>b < blks conf. \<forall>e < ents conf. lu_id conf m b e \<noteq> SPIFFS_OBJ_ID_FREE"
    moreover from this have "spiffs_page_allocate_data fs oid ph data offs finalize = Some (SPIFFS_ERR_NOT_FOUND, ph, 0, fs')"
      unfolding spiffs_page_allocate_data_def using neg by simp
    ultimately show ?thesis by blast
  next
    fix res bo eo fs1 b e
    assume r: "spiffs_obj_lu_find_free fs (free_cursor_block_ix fs) (free_cursor_obj_lu_entry fs) = Some (res, bo, eo, fs1)"
      and t1: "ticks fs1 \<le> ticks fs + search_cost 0" and res: "res = SPIFFS_OK"
      and be: "b < blks conf" "e < ents conf" and bo: "bo = Some (word_of_nat b)" "eo = Some e"
      and free: "lu_id conf m b e = SPIFFS_OBJ_ID_FREE" and m1: "matches m (took_entry b e p) fs1"
    let ?q = "count_allocated (took_entry b e p)"
    let ?pix = "word_of_nat (entry_page b e) :: u16"
    let ?addr = "SPIFFS_OBJ_LOOKUP_ENTRY_TO_PADDR conf (ucast (word_of_nat b :: u16)) (word_of_nat e)"
    have ff: "SPIFFS_OBJ_ID_FREE AND oid = oid" by (rule free_and)
    have "ticks fs1 < 2 ^ 32 - 1" using t t1 by linarith
    from write_entry [OF m1 be this _ _ op_codes(2), of oid "lu_entry_of_block conf (word_of_nat b) e" 0] free ff
    obtain m2 fs2 where
      r2: "spiffs_phys_wr fs1 (SPIFFS_OP_T_OBJ_LU OR SPIFFS_OP_C_UPDT) 0 (lu_entry_of_block conf (word_of_nat b) e)
        (bytes16 oid) = Some (0, fs2)" and m2: "matches m2 (took_entry b e p) fs2"
      and e2: "entry_becomes conf m m2 b e oid (content m b e)" and t2: "ticks fs2 \<le> ticks fs1 + 1"
      by auto
    have c2: "lu_id conf m2 b e = oid" "content m2 b e = replicate (psz conf) 0xff"
      using entry_becomes_at [OF e2 be] blank free be by (simp_all add: free_pages_blank_def)
    define fs3 where "fs3 = count_allocated fs2"
    have m3: "matches m2 ?q fs3" unfolding fs3_def count_allocated_def using matches_frame(7) [OF m2]
      by (auto intro!: matches_updates m2)
    have t3: "ticks fs3 = ticks fs2" by (simp add: fs3_def count_allocated_def)
    define ph1 where "ph1 = ph\<lparr>ph_flags := ph_flags ph AND NOT SPIFFS_PH_FLAG_USED\<rparr>"
    have fs3: "fs2\<lparr>stats_p_allocated := stats_p_allocated fs2 + 1\<rparr> = fs3"
      by (simp add: fs3_def count_allocated_def)
    have tk: "ticks fs3 < 2 ^ 32 - 1" using t t1 t2 t3 by linarith
    have a: "unat ?addr = page_addr (entry_page b e)" by (rule entry_pix(2) [OF be])
    have five: "5 \<le> psz conf" "(0 :: nat) < psz conf" "4 < psz conf" using geometry_facts(1) [OF g] by simp_all
    from write_page [OF m3 be tk, of ?addr 0 "page_header_bytes ph1" "SPIFFS_OP_T_OBJ_DA OR SPIFFS_OP_C_UPDT" 0]
      op_codes(3) five a obtain m4 fs4 where
      r4: "spiffs_phys_wr fs3 (SPIFFS_OP_T_OBJ_DA OR SPIFFS_OP_C_UPDT) 0 ?addr (page_header_bytes ph1) = Some (0, fs4)"
      and m4: "matches m4 ?q fs4" and t4: "ticks fs4 \<le> ticks fs3 + 1"
      and e4: "entry_becomes conf m2 m4 b e oid (blit 0 (page_header_bytes ph1) (content m2 b e))"
      by (auto simp: c2)
    have c4: "lu_id conf m4 b e = oid" "content m4 b e = page_image (psz conf) ph1 0 []"
      using entry_becomes_at [OF e4 be] page_image_write(1) [OF sz(2)] by (simp_all add: c2)
    have tk4: "ticks fs4 < 2 ^ 32 - 1" using t t1 t2 t3 t4 by linarith
    have a5: "unat (?addr + sizeof_page_header + offs) = page_addr (entry_page b e) + ?off"
    proof -
      have "unat (5 + offs :: u32) = ?off" using sz(1) page_top [OF entry_page_less [OF be]] phys_top
        by (subst unat_add_no_wrap) simp_all
      then show ?thesis using sz(1) unat_page_off [OF be a, of "5 + offs"]
        by (simp add: sizeof_simps add.assoc)
    qed
    have "\<exists>m5 fs5. (case data of None \<Rightarrow> Some (0, fs4) | Some bs \<Rightarrow>
        spiffs_phys_wr fs4 (SPIFFS_OP_T_OBJ_DA OR SPIFFS_OP_C_UPDT) 0 (?addr + sizeof_page_header + offs) bs) = Some (0, fs5) \<and>
      matches m5 ?q fs5 \<and> ticks fs5 \<le> ticks fs4 + 1 \<and>
      entry_becomes conf m4 m5 b e oid (page_image (psz conf) ph1 (unat offs) ?bs)"
    proof (cases data)
      case None
      have "page_image (psz conf) ph1 (unat offs) [] = content m4 b e"
        using page_image_write(2) [of "unat offs" "[]" "psz conf" ph1] sz(1) c4 by simp
      then have "entry_becomes conf m4 m4 b e oid (page_image (psz conf) ph1 (unat offs) [])"
        using c4 by (simp add: entry_becomes_def)
      then show ?thesis using None m4 by auto
    next
      case (Some bs)
      have "content m4 b e ! (?off + i) AND bs ! i = bs ! i" if "i < length bs" for i
        using that sz(2) Some by (simp add: c4 page_image_def nth_append)
      from write_page [OF m4 be tk4 a5 sz(1) _ this op_codes(3), of 0] sz(2) Some show ?thesis
        unfolding c4 Some option.case by (simp only: page_image_write(2) option.case) blast
    qed
    then obtain m5 fs5 where
      r5: "(case data of None \<Rightarrow> Some (0, fs4) | Some bs \<Rightarrow>
        spiffs_phys_wr fs4 (SPIFFS_OP_T_OBJ_DA OR SPIFFS_OP_C_UPDT) 0 (?addr + sizeof_page_header + offs) bs) = Some (0, fs5)"
      and m5: "matches m5 ?q fs5" and t5: "ticks fs5 \<le> ticks fs4 + 1"
      and e5: "entry_becomes conf m4 m5 b e oid (page_image (psz conf) ph1 (unat offs) ?bs)" by blast
    have c5: "lu_id conf m5 b e = oid" "content m5 b e = page_image (psz conf) ph1 (unat offs) ?bs"
      using entry_becomes_at [OF e5 be] by simp_all
    have e25: "entry_becomes conf m m5 b e oid (page_image (psz conf) ph1 (unat offs) ?bs)"
      using entry_becomes_trans [OF entry_becomes_trans [OF e2 e4] e5] .
    have head: "spiffs_page_allocate_data fs oid ph data offs finalize =
      (if finalize \<and> ph_flags ph1 AND SPIFFS_PH_FLAG_FINAL \<noteq> 0 then do {
         let ph = ph1\<lparr>ph_flags := ph_flags ph1 AND NOT SPIFFS_PH_FLAG_FINAL\<rparr>;
         (res, fs) \<leftarrow> spiffs_phys_wr fs5 (SPIFFS_OP_T_OBJ_DA OR SPIFFS_OP_C_UPDT) 0 (?addr + offsetof_flags) [ph_flags ph];
         Some (if res < SPIFFS_OK then (res, ph, 0, fs) else (res, ph, ?pix, fs)) }
       else Some (0, ph1, ?pix, fs5))"
      unfolding spiffs_page_allocate_data_def r res bo bind.bind_lunit prod.case Let_def matches_fields(1) [OF m1]
        matches_fields(1) [OF m2] r2
      using r4 [unfolded ph1_def] r5 matches_fields(1) [OF m3] fs3 unfolding ph1_def
      by (cases data) (simp_all add: neg entry_addrs(4) [OF be] cong: if_cong)
    show ?thesis
    proof (cases "finalize \<and> ph_flags ph1 AND SPIFFS_PH_FLAG_FINAL \<noteq> 0")
      case False
      then have "allocated_header finalize ph = ph1"
        by (auto simp: allocated_header_def ph1_def clear_flag_again)
      then show ?thesis using head False be free m5 e25 t1 t2 t3 t4 t5
        by (intro disjI1 exI [of _ b] exI [of _ e] exI [of _ m5] exI [of _ fs5]) auto
    next
      case True
      let ?f = "ph_flags ph1 AND NOT SPIFFS_PH_FLAG_FINAL"
      have ah: "allocated_header finalize ph = ph1\<lparr>ph_flags := ?f\<rparr>"
        using True by (simp add: allocated_header_def ph1_def)
      have a6: "unat (?addr + offsetof_flags) = page_addr (entry_page b e) + 4"
        using unat_page_off [OF be a, of 4] five by (simp add: offsetof_flags_def)
      have tk5: "ticks fs5 < 2 ^ 32 - 1" using t t1 t2 t3 t4 t5 by linarith
      have "content m5 b e ! 4 = ph_flags ph1" using page_image_write(4) [OF sz(2)] by (simp add: c5)
      then have cl: "content m5 b e ! (4 + i) AND [?f] ! i = [?f] ! i" if "i < length [?f]" for i
        using that by (simp add: and.assoc [symmetric])
      have len: "4 + length [?f] \<le> psz conf" using five by simp
      from write_page [OF m5 be tk5 a6 five(3) len cl op_codes(3), of 0] obtain m6 fs6 where
        r6: "spiffs_phys_wr fs5 (SPIFFS_OP_T_OBJ_DA OR SPIFFS_OP_C_UPDT) 0 (?addr + offsetof_flags) [?f] = Some (0, fs6)"
        and m6: "matches m6 ?q fs6" and t6: "ticks fs6 \<le> ticks fs5 + 1"
        and e6: "entry_becomes conf m5 m6 b e oid (blit 4 [?f] (content m5 b e))" unfolding c5(1) by blast
      have "blit 4 [?f] (content m5 b e) = page_image (psz conf) (allocated_header finalize ph) (unat offs) ?bs"
        using five(3) page_image_write(3) [OF sz(2)] length_page_image [OF sz(2)]
        by (simp add: blit_single c5 ah del: length_page_image)
      then have "entry_becomes conf m m6 b e oid (page_image (psz conf) (allocated_header finalize ph) (unat offs) ?bs)"
        using entry_becomes_trans [OF e25 e6] by simp
      moreover have "spiffs_page_allocate_data fs oid ph data offs finalize =
          Some (0, allocated_header finalize ph, ?pix, fs6)"
        unfolding head if_P [OF True] Let_def using r6 by (simp add: neg ah)
      moreover have "ticks fs6 \<le> ticks fs + search_cost 0 + 4"
        using t1 t2 t3 t4 t5 t6 by linarith
      ultimately show ?thesis using be free m6 by blast
    qed
  qed
qed

end

section \<open>Copying and moving pages\<close>

lemma nor_read_slice: "k + n \<le> z \<Longrightarrow> nor_read m (a + k) n = slice k n (nor_read m a z)"
  by (rule nth_equalityI) (auto simp: nor_read_def slice_def add.assoc)

lemma blit_slice_prefix:
  assumes "k + n \<le> length s"
  shows "blit k (slice k n s) (take k s @ replicate (length s - k) x) =
    take (k + n) s @ replicate (length s - (k + n)) x"
proof -
  have "drop (k + n) (take k s @ replicate (length s - k) x) = replicate (length s - (k + n)) x"
    using assms by simp
  moreover have "take k (take k s @ replicate (length s - k) x) = take k s" using assms by simp
  moreover have "length (slice k n s) = n" using assms by simp
  moreover have "take k s @ slice k n s = take (k + n) s" by (simp add: slice_def take_add)
  ultimately show ?thesis by (simp add: blit_def del: append_assoc flip: append_assoc)
qed

context spiffs_flash
begin

lemma phys_cpy_loop:
  assumes be: "b < blks conf" "e < ents conf" and se: "bs < blks conf" "es < ents conf" and ne: "(bs, es) \<noteq> (b, e)"
    and a: "unat dst = page_addr (entry_page b e)" "unat src = page_addr (entry_page bs es)"
    and m: "matches m p fs" and k: "k \<le> psz conf" "unat len = psz conf - k"
    and pre: "content m b e = take k (content m bs es) @ replicate (psz conf - k) 0xff"
    and t: "ticks fs + 2 * (psz conf - k) < 2 ^ 32 - 1"
  shows "\<exists>m' fs'. spiffs_phys_cpy fs fh (dst + word_of_nat k) (src + word_of_nat k) len = Some (0, fs') \<and>
    matches m' p fs' \<and> entry_becomes conf m m' b e (lu_id conf m b e) (content m bs es) \<and>
    ticks fs' \<le> ticks fs + 2 * (psz conf - k)"
  using m k pre t
proof (induction "psz conf - k" arbitrary: k fs m len rule: less_induct)
  case less
  note m = less.prems(1) and k = less.prems(2,3) and pre = less.prems(4) and t = less.prems(5)
  show ?case
  proof (cases "k = psz conf")
    case True
    then have "len = 0" using k(2) by (simp add: unat_eq_0)
    then have "spiffs_phys_cpy fs fh (dst + word_of_nat k) (src + word_of_nat k) len = Some (0, fs)"
      by (subst spiffs_phys_cpy.simps) (simp add: SPIFFS_OK_def)
    moreover have "content m bs es = content m b e" using pre True by simp
    ultimately show ?thesis using m by (auto simp: entry_becomes_def)
  next
    case False
    then have kl: "k < psz conf" using k(1) by simp
    have len0: "len > 0" using kl k(2) by (simp add: word_gt_0 unat_eq_0 [symmetric] del: unat_eq_0)
    define n where "n = min 64 (psz conf - k)"
    have n: "0 < n" "k + n \<le> psz conf" using kl by (auto simp: n_def)
    have top: "psz conf < 2 ^ 32" using unat_u32_less [of "log_page_size conf"] by (simp add: psz_def)
    have uk: "unat (word_of_nat k :: u32) = k" using kl top by (intro unat_word_of_nat_u32) linarith
    have un: "unat (min SPIFFS_COPY_BUFFER_STACK len) = n"
      using k(2) by (auto simp: n_def min_def SPIFFS_COPY_BUFFER_STACK_def word_le_nat_alt)
    have ad: "unat (dst + word_of_nat k) = page_addr (entry_page b e) + k"
      "unat (src + word_of_nat k) = page_addr (entry_page bs es) + k"
      using unat_page_off [OF be a(1), of "word_of_nat k"] unat_page_off [OF se a(2), of "word_of_nat k"] uk kl by simp_all
    have ip: "in_page conf (src + word_of_nat k) (unat (min SPIFFS_COPY_BUFFER_STACK len))"
      unfolding un by (rule in_page_at [OF entry_page_less [OF se] ad(2) n(2) kl])
    have t1: "ticks fs < 2 ^ 32 - 1" using t kl by linarith
    from phys_rd_matches [OF m ip t1, of "SPIFFS_OP_T_OBJ_DA OR SPIFFS_OP_C_MOVS" fh] obtain fs1 where
      r1: "spiffs_phys_rd fs (SPIFFS_OP_T_OBJ_DA OR SPIFFS_OP_C_MOVS) fh (src + word_of_nat k)
        (min SPIFFS_COPY_BUFFER_STACK len) = Some (0, nor_read m (unat (src + word_of_nat k)) n, fs1)"
      and m1: "matches m p fs1" and t1: "ticks fs1 = ticks fs + 1" unfolding un by blast
    have rd: "nor_read m (unat (src + word_of_nat k)) n = slice k n (content m bs es)"
      unfolding ad page_bytes_def using n(2) by (rule nor_read_slice)
    have ls: "length (slice k n (content m bs es)) = n" using n(2) by simp
    have t2: "ticks fs1 < 2 ^ 32 - 1" using t t1 kl by linarith
    have wl: "k + length (slice k n (content m bs es)) \<le> psz conf" using n(2) ls by simp
    have cl: "content m b e ! (k + i) AND slice k n (content m bs es) ! i = slice k n (content m bs es) ! i"
      if "i < length (slice k n (content m bs es))" for i
      using that ls n(2) k(1) by (simp add: pre nth_append)
    from write_page [OF m1 be t2 ad(1) kl wl cl op_codes(4), of fh] obtain m2 fs2 where
      r2: "spiffs_phys_wr fs1 (SPIFFS_OP_T_OBJ_DA OR SPIFFS_OP_C_MOVD) fh (dst + word_of_nat k)
        (slice k n (content m bs es)) = Some (0, fs2)" and m2: "matches m2 p fs2" and t3: "ticks fs2 \<le> ticks fs1 + 1"
      and e2: "entry_becomes conf m m2 b e (lu_id conf m b e) (blit k (slice k n (content m bs es)) (content m b e))"
      by blast
    have c2: "content m2 bs es = content m bs es" "lu_id conf m2 b e = lu_id conf m b e"
      using e2 se be ne by (auto simp: entry_becomes_def)
    have c3: "content m2 b e = take (k + n) (content m2 bs es) @ replicate (psz conf - (k + n)) 0xff"
      using entry_becomes_at(2) [OF e2 be] blit_slice_prefix [of k n "content m bs es" "0xff"] n(2) by (simp add: pre c2)
    have ul: "unat (len - min SPIFFS_COPY_BUFFER_STACK len) = psz conf - (k + n)"
      using k(2) un n(2) by (subst unat_sub_no_wrap) simp_all
    have nw: "(word_of_nat n :: u32) = min SPIFFS_COPY_BUFFER_STACK len" using un by (simp flip: un)
    have step: "spiffs_phys_cpy fs fh (dst + word_of_nat k) (src + word_of_nat k) len =
        spiffs_phys_cpy fs2 fh (dst + word_of_nat (k + n)) (src + word_of_nat (k + n)) (len - min SPIFFS_COPY_BUFFER_STACK len)"
      using r1 r2 len0 unfolding rd
      by (subst spiffs_phys_cpy.simps) (simp add: SPIFFS_OK_def nw add.assoc Let_def)
    have "psz conf - (k + n) < psz conf - k" using n kl by linarith
    moreover have "ticks fs2 + 2 * (psz conf - (k + n)) < 2 ^ 32 - 1" using t t1 t3 n by linarith
    ultimately obtain m' fs' where
      "spiffs_phys_cpy fs2 fh (dst + word_of_nat (k + n)) (src + word_of_nat (k + n))
        (len - min SPIFFS_COPY_BUFFER_STACK len) = Some (0, fs')" "matches m' p fs'"
      and e3: "entry_becomes conf m2 m' b e (lu_id conf m2 b e) (content m2 bs es)"
      and t4: "ticks fs' \<le> ticks fs2 + 2 * (psz conf - (k + n))"
      using less.hyps [OF _ m2 n(2) ul c3] by blast
    moreover have "ticks fs' \<le> ticks fs + 2 * (psz conf - k)" using t4 t1 t3 n by linarith
    moreover have "entry_becomes conf m m' b e (lu_id conf m b e) (content m bs es)"
      using entry_becomes_trans [OF e2 e3] c2 by simp
    ultimately show ?thesis unfolding step by blast
  qed
qed

lemma phys_cpy_ok:
  assumes be: "b < blks conf" "e < ents conf" and se: "bs < blks conf" "es < ents conf" and ne: "(bs, es) \<noteq> (b, e)"
    and a: "unat dst = page_addr (entry_page b e)" "unat src = page_addr (entry_page bs es)"
    and m: "matches m p fs" and pre: "content m b e = replicate (psz conf) 0xff"
    and t: "ticks fs + 2 * psz conf < 2 ^ 32 - 1"
  shows "\<exists>m' fs'. spiffs_phys_cpy fs fh dst src (log_page_size conf) = Some (0, fs') \<and>
    matches m' p fs' \<and> entry_becomes conf m m' b e (lu_id conf m b e) (content m bs es) \<and>
    ticks fs' \<le> ticks fs + 2 * psz conf"
proof -
  have "unat (log_page_size conf) = psz conf - 0" by (simp add: psz_def)
  from phys_cpy_loop [OF be se ne a m le0 this, of fh] pre t show ?thesis by simp
qed

end

text \<open>What a moved page holds: the work buffer with the used flag cleared, or the source page.\<close>

definition clear_used :: "u8 list \<Rightarrow> u8 list" where
  "clear_used bs = bs[4 := bs ! 4 AND NOT SPIFFS_PH_FLAG_USED]"

definition moved_work :: "bool \<Rightarrow> 'd spiffs \<Rightarrow> 'd spiffs" where
  "moved_work page_data p = (if page_data then p\<lparr>work := clear_used (work p)\<rparr> else p)"

lemma final_flags:
  "((f OR SPIFFS_PH_FLAG_FINAL) AND NOT SPIFFS_PH_FLAG_USED) AND NOT (SPIFFS_PH_FLAG_FINAL OR SPIFFS_PH_FLAG_USED) =
     f AND NOT SPIFFS_PH_FLAG_USED" if "(f :: u8) AND SPIFFS_PH_FLAG_FINAL = 0"
proof -
  have b: "\<not> bit f 1" using that and_exp_eq_0_iff_not_bit [of f 1] by (simp add: SPIFFS_PH_FLAG_FINAL_def)
  show ?thesis
    by (rule bit_word_eqI) (use b in \<open>auto simp: SPIFFS_PH_FLAG_FINAL_def SPIFFS_PH_FLAG_USED_def bit_simps
      numeral_eq_Suc less_Suc_eq\<close>)
qed

lemma final_flags':
  "(f OR SPIFFS_PH_FLAG_FINAL) AND NOT SPIFFS_PH_FLAG_USED = f AND NOT SPIFFS_PH_FLAG_USED"
  if "(f :: u8) AND SPIFFS_PH_FLAG_FINAL \<noteq> 0"
proof -
  have b: "bit f 1" using that and_exp_eq_0_iff_not_bit [of f 1] by (simp add: SPIFFS_PH_FLAG_FINAL_def)
  show ?thesis
    by (rule bit_word_eqI) (use b in \<open>auto simp: SPIFFS_PH_FLAG_FINAL_def SPIFFS_PH_FLAG_USED_def bit_simps
      numeral_eq_Suc less_Suc_eq\<close>)
qed

context spiffs_flash
begin

lemma cfg_work_flags: "cfg (work_flags f fs) = cfg fs"
  by (simp add: work_flags_def)

lemma work_after_count: "(count_allocated p)\<lparr>work := w\<rparr> = count_allocated (p\<lparr>work := w\<rparr>)"
  by (cases p) (simp add: count_allocated_def)

lemma page_move_ok:
  assumes m: "matches m p fs" and blank: "free_pages_blank conf m"
    and c: "unat (free_cursor_block_ix p) < blks conf" and f: "cleaning p \<noteq> 0 \<or> 2 \<le> free_blocks p"
    and se: "bs < blks conf" "es < ents conf" "lu_id conf m bs es \<noteq> SPIFFS_OBJ_ID_FREE"
    and wk: "page_data \<longrightarrow> length (work p) = psz conf"
    and t: "ticks fs + search_cost 0 + 2 * psz conf + 4 < 2 ^ 32 - 1"
  defines "newpage \<equiv> (if page_data then clear_used (work p) else page_bytes conf m bs es)"
  shows "(\<exists>b e m1 m' fs'. b < blks conf \<and> e < ents conf \<and> lu_id conf m b e = SPIFFS_OBJ_ID_FREE \<and>
      spiffs_page_move fs fh page_data oid (word_of_nat (entry_page bs es)) =
        Some (0, word_of_nat (entry_page b e), fs') \<and>
      matches m' (count_deleted (count_allocated (moved_work page_data (took_entry b e p)))) fs' \<and>
      entry_becomes conf m m1 b e oid newpage \<and>
      entry_becomes conf m1 m' bs es SPIFFS_OBJ_ID_DELETED (deleted_page (page_bytes conf m bs es)) \<and>
      ticks fs' \<le> ticks fs + search_cost 0 + 2 * psz conf + 4) \<or>
    (\<exists>fs'. spiffs_page_move fs fh page_data oid (word_of_nat (entry_page bs es)) = Some (SPIFFS_ERR_NOT_FOUND, 0, fs') \<and>
      matches m p fs' \<and> (\<forall>b < blks conf. \<forall>e < ents conf. lu_id conf m b e \<noteq> SPIFFS_OBJ_ID_FREE))"
proof -
  let ?src = "word_of_nat (entry_page bs es) :: u16"
  have neg: "SPIFFS_ERR_NOT_FOUND < SPIFFS_OK" "\<not> (0 :: int) < SPIFFS_OK" "SPIFFS_OK = 0"
    by (simp_all add: SPIFFS_ERR_NOT_FOUND_def SPIFFS_OK_def)
  have t0: "ticks fs + search_cost 0 < 2 ^ 32 - 1" using t by simp
  from find_free_ok [OF m c f t0] show ?thesis
  proof (elim exE conjE disjE)
    fix res bo eo fs'
    assume r: "spiffs_obj_lu_find_free fs (free_cursor_block_ix fs) (free_cursor_obj_lu_entry fs) = Some (res, bo, eo, fs')"
      and "res = SPIFFS_ERR_NOT_FOUND" "matches m p fs'"
        "\<forall>b < blks conf. \<forall>e < ents conf. lu_id conf m b e \<noteq> SPIFFS_OBJ_ID_FREE"
    moreover from this have "spiffs_page_move fs fh page_data oid ?src = Some (SPIFFS_ERR_NOT_FOUND, 0, fs')"
      unfolding spiffs_page_move_def using neg by simp
    ultimately show ?thesis by blast
  next
    fix res bo eo fs1 b e
    assume r: "spiffs_obj_lu_find_free fs (free_cursor_block_ix fs) (free_cursor_obj_lu_entry fs) = Some (res, bo, eo, fs1)"
      and t1: "ticks fs1 \<le> ticks fs + search_cost 0" and res: "res = SPIFFS_OK"
      and be: "b < blks conf" "e < ents conf" and bo: "bo = Some (word_of_nat b)" "eo = Some e"
      and free: "lu_id conf m b e = SPIFFS_OBJ_ID_FREE" and m1: "matches m (took_entry b e p) fs1"
    let ?pix = "word_of_nat (entry_page b e) :: u16"
    have ne: "(bs, es) \<noteq> (b, e)" using free se(3) by auto
    have cb: "content m b e = replicate (psz conf) 0xff" using blank free be by (simp add: free_pages_blank_def)
    have wp: "work (took_entry b e p) = work p" by (simp add: took_entry_def Let_def)
    have w1: "work fs1 = work p" using matches_frame(5) [OF m1] wp by simp
    have z: "psz conf > 4" "0 < psz conf" using geometry_facts(1) [OF g] by simp_all
    define fin where "fin \<longleftrightarrow> page_data \<and> work p ! 4 AND SPIFFS_PH_FLAG_FINAL = 0"
    define w' where "w' = (work p)[4 := (work p ! 4 OR SPIFFS_PH_FLAG_FINAL) AND NOT SPIFFS_PH_FLAG_USED]"
    define q where "q = (if page_data then (took_entry b e p)\<lparr>work := w'\<rparr> else took_entry b e p)"
    define fw where "fw = (if page_data then fs1\<lparr>work := w'\<rparr> else fs1)"
    define img where "img = (if page_data then w' else content m bs es)"
    have lw: "page_data \<Longrightarrow> length w' = psz conf" using wk by (simp add: w'_def)
    have mw: "matches m q fw" unfolding q_def fw_def using m1 matches_updates(8) [OF m1] by simp
    have fwk: "page_data \<Longrightarrow> work_flags (\<lambda>f. (f OR SPIFFS_PH_FLAG_FINAL) AND NOT SPIFFS_PH_FLAG_USED) fs1 = fw"
      by (simp add: fw_def work_flags_def w1 w'_def offsetof_flags_def)
    have tw: "ticks fw = ticks fs1" by (simp add: fw_def)
    have tk: "ticks fw + 2 * psz conf < 2 ^ 32 - 1" using t t1 tw by linarith
    have a: "unat (SPIFFS_PAGE_TO_PADDR conf (ucast ?pix)) = page_addr (entry_page b e)"
      "unat (SPIFFS_PAGE_TO_PADDR conf (ucast ?src)) = page_addr (entry_page bs es)"
      by (rule entry_addrs(3) [OF be] entry_addrs(3) [OF se(1,2)])+
    have "\<exists>m2 fs2. (if page_data
        then spiffs_phys_wr fw (SPIFFS_OP_T_OBJ_DA OR SPIFFS_OP_C_UPDT) 0 (SPIFFS_PAGE_TO_PADDR conf (ucast ?pix)) (work fw)
        else spiffs_phys_cpy fw fh (SPIFFS_PAGE_TO_PADDR conf (ucast ?pix)) (SPIFFS_PAGE_TO_PADDR conf (ucast ?src))
          (log_page_size conf)) = Some (0, fs2) \<and> matches m2 q fs2 \<and>
      entry_becomes conf m m2 b e (lu_id conf m b e) img \<and> ticks fs2 \<le> ticks fw + 2 * psz conf"
    proof (cases page_data)
      case True
      have wfw: "work fw = w'" using True by (simp add: fw_def)
      have cl: "content m b e ! (0 + i) AND w' ! i = w' ! i" if "i < length w'" for i
        using that lw [OF True] by (simp add: cb)
      have le: "0 + length w' \<le> psz conf" using lw [OF True] by simp
      have t3: "ticks fw < 2 ^ 32 - 1" using tk by linarith
      have "unat (SPIFFS_PAGE_TO_PADDR conf (ucast ?pix)) = page_addr (entry_page b e) + 0" using a by simp
      from write_page [OF mw be t3 this z(2) le cl op_codes(3), of 0] obtain m2 fs2 where
        "spiffs_phys_wr fw (SPIFFS_OP_T_OBJ_DA OR SPIFFS_OP_C_UPDT) 0 (SPIFFS_PAGE_TO_PADDR conf (ucast ?pix)) w' = Some (0, fs2)"
        "matches m2 q fs2" "entry_becomes conf m m2 b e (lu_id conf m b e) (blit 0 w' (content m b e))"
        "ticks fs2 \<le> ticks fw + 1" by blast
      moreover have "blit 0 w' (content m b e) = img" using True lw by (simp add: img_def blit_0)
      ultimately show ?thesis using True z wfw by auto
    next
      case False
      then show ?thesis using phys_cpy_ok [OF be se(1,2) ne a mw cb tk, of fh] by (simp add: img_def)
    qed
    then obtain m2 fs2 where r2: "(if page_data
        then spiffs_phys_wr fw (SPIFFS_OP_T_OBJ_DA OR SPIFFS_OP_C_UPDT) 0 (SPIFFS_PAGE_TO_PADDR conf (ucast ?pix)) (work fw)
        else spiffs_phys_cpy fw fh (SPIFFS_PAGE_TO_PADDR conf (ucast ?pix)) (SPIFFS_PAGE_TO_PADDR conf (ucast ?src))
          (log_page_size conf)) = Some (0, fs2)" and m2: "matches m2 q fs2"
      and e2: "entry_becomes conf m m2 b e SPIFFS_OBJ_ID_FREE img" and t2: "ticks fs2 \<le> ticks fw + 2 * psz conf"
      unfolding free by blast
    have c2: "lu_id conf m2 b e = SPIFFS_OBJ_ID_FREE" "content m2 b e = img"
      using entry_becomes_at [OF e2 be] by simp_all
    have tk2: "ticks fs2 < 2 ^ 32 - 1" using t t1 t2 tw by linarith
    from write_entry [OF m2 be tk2 _ _ op_codes(2), of oid "lu_entry_of_page conf ?pix" 0] c2(1)
    obtain m3 fs3 where
      r3: "spiffs_phys_wr fs2 (SPIFFS_OP_T_OBJ_LU OR SPIFFS_OP_C_UPDT) 0 (lu_entry_of_page conf ?pix)
        (bytes16 oid) = Some (0, fs3)" and m3: "matches m3 q fs3"
      and e3: "entry_becomes conf m2 m3 b e oid img" and t3: "ticks fs3 \<le> ticks fs2 + 1"
      by (auto simp: c2)
    define fs4 where "fs4 = count_allocated fs3"
    have m4: "matches m3 (count_allocated q) fs4" unfolding fs4_def count_allocated_def
      using matches_frame(7) [OF m3] by (auto intro!: matches_updates m3)
    have t4: "ticks fs4 = ticks fs3" by (simp add: fs4_def count_allocated_def)
    let ?q = "count_allocated (moved_work page_data (took_entry b e p))"
    have e23: "entry_becomes conf m m3 b e oid img" by (rule entry_becomes_trans [OF e2 e3])
    have w4: "page_data \<Longrightarrow> work fs4 = w'" using matches_frame(5) [OF m4] by (simp add: count_allocated_def q_def)
    have fl: "page_data \<Longrightarrow> 4 < length (work p)" using wk z by simp
    have "\<exists>m5 fs5. (if fin
        then let fs = work_flags (\<lambda>f. f AND NOT (SPIFFS_PH_FLAG_FINAL OR SPIFFS_PH_FLAG_USED)) fs4
          in spiffs_phys_wr fs (SPIFFS_OP_T_OBJ_DA OR SPIFFS_OP_C_UPDT) fh
               (SPIFFS_PAGE_TO_PADDR conf (ucast ?pix) + offsetof_flags) [work fs ! unat offsetof_flags]
        else Some (0, fs4)) = Some (0, fs5) \<and> matches m5 ?q fs5 \<and> entry_becomes conf m m5 b e oid newpage \<and>
      ticks fs5 \<le> ticks fs4 + 1"
    proof (cases fin)
      case False
      have "moved_work page_data (took_entry b e p) = q" "img = newpage"
        using False by (auto simp: moved_work_def q_def fin_def img_def newpage_def clear_used_def w'_def wp final_flags')
      then show ?thesis using False m4 e23 by auto
    next
      case True
      then have pd: "page_data" and nf: "work p ! 4 AND SPIFFS_PH_FLAG_FINAL = 0" by (simp_all add: fin_def)
      let ?x = "work p ! 4 AND NOT SPIFFS_PH_FLAG_USED"
      define fs5 where "fs5 = work_flags (\<lambda>f. f AND NOT (SPIFFS_PH_FLAG_FINAL OR SPIFFS_PH_FLAG_USED)) fs4"
      have f5: "fs5 = fs4\<lparr>work := clear_used (work p)\<rparr>"
        using fl [OF pd] final_flags [OF nf]
        by (simp add: fs5_def work_flags_def w4 [OF pd] w'_def clear_used_def offsetof_flags_def)
      have m5: "matches m3 ?q fs5" using matches_updates(8) [OF m4, of "clear_used (work p)"] pd
        by (simp add: f5 q_def moved_work_def work_after_count wp)
      have x5: "work fs5 ! unat offsetof_flags = ?x" using fl [OF pd] by (simp add: f5 clear_used_def offsetof_flags_def)
      have a6: "unat (SPIFFS_PAGE_TO_PADDR conf (ucast ?pix) + offsetof_flags) = page_addr (entry_page b e) + 4"
        using unat_page_off [OF be a(1), of 4] z by (simp add: offsetof_flags_def)
      have tk5: "ticks fs5 < 2 ^ 32 - 1" using t t1 t2 t3 t4 tw by (simp add: f5)
      have "content m3 b e ! 4 = (work p ! 4 OR SPIFFS_PH_FLAG_FINAL) AND NOT SPIFFS_PH_FLAG_USED"
        using entry_becomes_at(2) [OF e23 be] pd fl by (simp add: img_def w'_def)
      moreover have "((work p ! 4 OR SPIFFS_PH_FLAG_FINAL) AND NOT SPIFFS_PH_FLAG_USED) AND ?x = ?x"
        by (rule bit_word_eqI) (auto simp: bit_simps)
      ultimately have cl: "content m3 b e ! (4 + i) AND [?x] ! i = [?x] ! i" if "i < length [?x]" for i
        using that by simp
      have len: "4 + length [?x] \<le> psz conf" using z by simp
      from write_page [OF m5 be tk5 a6 z(1) len cl op_codes(3), of fh] obtain m6 fs6 where
        r6: "spiffs_phys_wr fs5 (SPIFFS_OP_T_OBJ_DA OR SPIFFS_OP_C_UPDT) fh
          (SPIFFS_PAGE_TO_PADDR conf (ucast ?pix) + offsetof_flags) [?x] = Some (0, fs6)"
        and m6: "matches m6 ?q fs6" and t6: "ticks fs6 \<le> ticks fs5 + 1"
        and e6: "entry_becomes conf m3 m6 b e (lu_id conf m3 b e) (blit 4 [?x] (content m3 b e))" by blast
      have "blit 4 [?x] (content m3 b e) = newpage"
        using entry_becomes_at(2) [OF e23 be] pd fl
        by (simp add: blit_single img_def w'_def newpage_def clear_used_def)
      then have e36: "entry_becomes conf m m6 b e oid newpage"
        using entry_becomes_trans [OF e23 e6] entry_becomes_at(1) [OF e23 be] by simp
      have "ticks fs6 \<le> ticks fs4 + 1" using t6 by (simp add: f5)
      then show ?thesis using r6 m6 x5 e36
        unfolding if_P [OF True] Let_def fs5_def [symmetric] by (intro exI [of _ m6] exI [of _ fs6]) simp
    qed
    then obtain m5 fs5 where r5: "(if fin
        then let fs = work_flags (\<lambda>f. f AND NOT (SPIFFS_PH_FLAG_FINAL OR SPIFFS_PH_FLAG_USED)) fs4
          in spiffs_phys_wr fs (SPIFFS_OP_T_OBJ_DA OR SPIFFS_OP_C_UPDT) fh
               (SPIFFS_PAGE_TO_PADDR conf (ucast ?pix) + offsetof_flags) [work fs ! unat offsetof_flags]
        else Some (0, fs4)) = Some (0, fs5)" and m5: "matches m5 ?q fs5"
      and e5: "entry_becomes conf m m5 b e oid newpage" and t5: "ticks fs5 \<le> ticks fs4 + 1" by blast
    have tk5: "ticks fs5 + 1 < 2 ^ 32 - 1" using t t1 t2 t3 t4 t5 tw by linarith
    from page_delete_ok [OF m5 se(1,2) tk5] obtain m6 fs6 where
      r6: "spiffs_page_delete fs5 ?src = Some (0, fs6)" and m6: "matches m6 (count_deleted ?q) fs6"
      and e6: "entry_becomes conf m5 m6 bs es SPIFFS_OBJ_ID_DELETED (deleted_page (content m5 bs es))"
      and t6: "ticks fs6 \<le> ticks fs5 + 2" by blast
    have "content m5 bs es = content m bs es" using e5 se ne by (auto simp: entry_becomes_def)
    moreover have "spiffs_page_move fs fh page_data oid ?src = Some (0, ?pix, fs6)"
    proof -
      have cf: "cfg fs1 = conf" "cfg fs2 = conf" "cfg fw = conf" "cfg fs3 = conf"
        using matches_fields(1) [OF m1] matches_fields(1) [OF m2] matches_fields(1) [OF mw] matches_fields(1) [OF m3]
        by simp_all
      have f4: "fs3\<lparr>stats_p_allocated := stats_p_allocated fs3 + 1\<rparr> = fs4" by (simp add: fs4_def count_allocated_def)
      have fn: "page_data \<and> work fs1 ! unat offsetof_flags AND SPIFFS_PH_FLAG_FINAL = 0 \<longleftrightarrow> fin"
        by (auto simp: fin_def w1 offsetof_flags_def)
      have rr: "(if page_data
        then let fs = work_flags (\<lambda>f. (f OR SPIFFS_PH_FLAG_FINAL) AND NOT SPIFFS_PH_FLAG_USED) fs1
          in spiffs_phys_wr fs (SPIFFS_OP_T_OBJ_DA OR SPIFFS_OP_C_UPDT) 0
               (SPIFFS_PAGE_TO_PADDR (cfg fs) (ucast ?pix)) (work fs)
        else spiffs_phys_cpy fs1 fh (SPIFFS_PAGE_TO_PADDR conf (ucast ?pix))
               (SPIFFS_PAGE_TO_PADDR conf (ucast ?src)) (log_page_size conf)) = Some (0, fs2)"
        using r2 fwk cf(3) by (auto simp: Let_def fw_def split: if_splits)
      have cf4: "cfg fs4 = conf" using matches_fields(1) [OF m4] by simp
      have r5': "(if fin
        then let fs = work_flags (\<lambda>f. f AND NOT (SPIFFS_PH_FLAG_FINAL OR SPIFFS_PH_FLAG_USED)) fs4
          in spiffs_phys_wr fs (SPIFFS_OP_T_OBJ_DA OR SPIFFS_OP_C_UPDT) fh
               (SPIFFS_PAGE_TO_PADDR (cfg fs) (ucast ?pix) + offsetof_flags) [work fs ! unat offsetof_flags]
        else Some (0, fs4)) = Some (0, fs5)"
        using r5 by (simp only: Let_def cfg_work_flags cf4)
      show ?thesis
        using rr r5' r3 r6 fn
        by (cases page_data; cases fin)
          (simp_all add: spiffs_page_move_def r res bo neg entry_addrs(4) [OF be] cf f4 cong: if_cong)
    qed
    moreover have "ticks fs6 \<le> ticks fs + search_cost 0 + 2 * psz conf + 4"
      using t1 t2 t3 t4 t5 t6 tw by linarith
    ultimately show ?thesis using be free m6 e5 e6 by auto
  qed
qed

end

section \<open>The invariant of a mounted file system\<close>

text \<open>The cache agrees with the flash, the number of blocks is the geometry's, the pages of free entries
  are erased, and the search for a free entry starts inside the file system.\<close>

definition fs_inv :: "'d spiffs_config \<Rightarrow> ('d \<Rightarrow> nat \<Rightarrow> u8) \<Rightarrow> 'd spiffs \<Rightarrow> bool" where
  "fs_inv conf view fs \<longleftrightarrow> ready conf (view (dev fs)) fs \<and> unat (block_count fs) = blks conf \<and>
     free_pages_blank conf (view (dev fs)) \<and> unat (free_cursor_block_ix fs) < blks conf"

text \<open>No quick garbage collection is due.\<close>

definition enough_free_blocks :: "'d spiffs \<Rightarrow> bool" where
  "enough_free_blocks fs \<longleftrightarrow> cleaning fs \<noteq> 0 \<or> 2 \<le> free_blocks fs"

text \<open>The state is \<open>p\<close> but for cache, device and lookup buffer.\<close>

definition same_but_flash :: "'d spiffs \<Rightarrow> 'd spiffs \<Rightarrow> bool" where
  "same_but_flash p fs \<longleftrightarrow> (\<exists>c d w. fs = p\<lparr>cache := c, dev := d, lu_work := w\<rparr>)"

definition no_free_entry :: "'d spiffs_config \<Rightarrow> (nat \<Rightarrow> u8) \<Rightarrow> bool" where
  "no_free_entry conf m \<longleftrightarrow> (\<forall>b < blks conf. \<forall>e < ents conf. lu_id conf m b e \<noteq> SPIFFS_OBJ_ID_FREE)"

context spiffs_flash
begin

lemma inv_matches: "fs_inv conf view fs \<Longrightarrow> matches (view (dev fs)) fs fs"
  by (rule matches_refl) (simp_all add: fs_inv_def)

lemma matches_same: "matches m p fs \<Longrightarrow> same_but_flash p fs \<and> view (dev fs) = m"
  by (simp add: matches_iff same_but_flash_def)

lemma matches_inv:
  assumes "matches m p fs" "free_pages_blank conf m" "unat (free_cursor_block_ix p) < blks conf"
  shows "fs_inv conf view fs"
  using assms matches_fields(2,3,8) [OF assms(1)] matches_frame(1) [OF assms(1)] by (simp add: fs_inv_def)

lemma cursor_took [simp]:
  assumes "b < blks conf"
  shows "unat (free_cursor_block_ix (took_entry b e p)) < blks conf"
proof -
  have "b < 65536" using assms blks_bound by simp
  then show ?thesis using assms by (simp add: took_entry_def Let_def unat_of_nat)
qed

end

lemma cursor_frames [simp]:
  "free_cursor_block_ix (count_allocated p) = free_cursor_block_ix p"
  "free_cursor_block_ix (count_deleted p) = free_cursor_block_ix p"
  "free_cursor_block_ix (moved_work pd p) = free_cursor_block_ix p"
  by (simp_all add: count_allocated_def count_deleted_def moved_work_def)

text \<open>The invariant is kept.\<close>

context spiffs_flash
begin

lemma page_allocate_inv:
  assumes "fs_inv conf view fs" "enough_free_blocks fs"
    and "5 + unat offs < psz conf" "5 + unat offs + length (case data of None \<Rightarrow> [] | Some bs \<Rightarrow> bs) \<le> psz conf"
    and "oid \<noteq> SPIFFS_OBJ_ID_FREE" "ticks fs + walk_cost conf 0 + 4 < 2 ^ 32 - 1"
  shows "\<exists>r ph' pix fs'. spiffs_page_allocate_data fs oid ph data offs finalize = Some (r, ph', pix, fs') \<and>
      fs_inv conf view fs' \<and> r \<in> {SPIFFS_OK, SPIFFS_ERR_NOT_FOUND}"
proof -
  have b: "free_pages_blank conf (view (dev fs))" "unat (free_cursor_block_ix fs) < blks conf"
    using assms(1) by (simp_all add: fs_inv_def)
  from page_allocate_data_ok [OF inv_matches [OF assms(1)] b assms(2) [unfolded enough_free_blocks_def]
      assms(3,4,6), of oid ph finalize]
  show ?thesis
  proof (elim disjE exE conjE, goal_cases)
    case (1 b' e m' fs')
    from matches_inv [OF 1(5) entry_becomes_blank [OF 1(6) assms(5) b(1)]] 1(1,4) show ?thesis
      by (auto simp: SPIFFS_OK_def)
  next
    case (2 fs')
    from matches_inv [OF 2(2) b] 2(1) show ?thesis by auto
  qed
qed

lemma page_move_inv:
  assumes "fs_inv conf view fs" "enough_free_blocks fs"
    and "bs < blks conf" "es < ents conf" "lu_id conf (view (dev fs)) bs es \<noteq> SPIFFS_OBJ_ID_FREE"
    and "page_data \<longrightarrow> length (work fs) = psz conf" "oid \<noteq> SPIFFS_OBJ_ID_FREE"
    and "ticks fs + walk_cost conf 0 + 2 * psz conf + 4 < 2 ^ 32 - 1"
  shows "\<exists>r pix fs'. spiffs_page_move fs fh page_data oid (word_of_nat (entry_page bs es)) = Some (r, pix, fs') \<and>
      fs_inv conf view fs' \<and> r \<in> {SPIFFS_OK, SPIFFS_ERR_NOT_FOUND}"
proof -
  have b: "free_pages_blank conf (view (dev fs))" "unat (free_cursor_block_ix fs) < blks conf"
    using assms(1) by (simp_all add: fs_inv_def)
  have d: "SPIFFS_OBJ_ID_DELETED \<noteq> SPIFFS_OBJ_ID_FREE" by (simp add: SPIFFS_OBJ_ID_DELETED_def SPIFFS_OBJ_ID_FREE_def)
  from page_move_ok [OF inv_matches [OF assms(1)] b assms(2) [unfolded enough_free_blocks_def]
      assms(3-6,8), of fh oid]
  show ?thesis
  proof (elim disjE exE conjE, goal_cases)
    case (1 b' e m1 m' fs')
    from matches_inv [OF 1(5) entry_becomes_blank [OF 1(7) d entry_becomes_blank [OF 1(6) assms(7) b(1)]]] 1(1,4)
    show ?thesis by (auto simp: SPIFFS_OK_def)
  next
    case (2 fs')
    from matches_inv [OF 2(2) b] 2(1) show ?thesis by auto
  qed
qed

lemma page_delete_inv:
  assumes "fs_inv conf view fs" "b < blks conf" "e < ents conf" "ticks fs + 1 < 2 ^ 32 - 1"
  shows "\<exists>fs'. spiffs_page_delete fs (word_of_nat (entry_page b e)) = Some (SPIFFS_OK, fs') \<and> fs_inv conf view fs'"
proof -
  have b: "free_pages_blank conf (view (dev fs))" "unat (free_cursor_block_ix fs) < blks conf"
    using assms(1) by (simp_all add: fs_inv_def)
  have d: "SPIFFS_OBJ_ID_DELETED \<noteq> SPIFFS_OBJ_ID_FREE" by (simp add: SPIFFS_OBJ_ID_DELETED_def SPIFFS_OBJ_ID_FREE_def)
  from page_delete_ok [OF inv_matches [OF assms(1)] assms(2-4)] obtain m' fs' where
    "spiffs_page_delete fs (word_of_nat (entry_page b e)) = Some (0, fs')" "matches m' (count_deleted fs) fs'"
    "entry_becomes conf (view (dev fs)) m' b e SPIFFS_OBJ_ID_DELETED (deleted_page (content (view (dev fs)) b e))"
    by blast
  then show ?thesis using matches_inv [of m' "count_deleted fs" fs'] entry_becomes_blank [OF _ d b(1)] b(2)
    by (auto simp: SPIFFS_OK_def)
qed

end

section \<open>Properties\<close>

text \<open>C5 (refinement). On a file system with its invariant that is being cleaned or has at least two free blocks,
  moving a page takes a free entry, gives it the
  object id and, as its page, the work buffer with the used flag cleared (or an exact copy of the source
  page), and marks the source entry and page deleted; no other entry or page changes, and the
  statistics and the cursor are those of one allocation and one deletion.  When no entry is free, the
  flash and the state stay as they are and the call fails.  (With fewer free blocks, and no cleaning under way, the
  search for a free entry first tries a quick garbage collection, which may erase a block, or refuses with
  \<^verbatim>\<open>SPIFFS_ERR_FULL\<close> although entries are free: this is not covered.  Nor is a counter of cache accesses that is
  about to wrap.)\<close>

theorem page_move_moves:
  assumes "spiffs_flash conf view lo hi" "fs_inv conf view fs" "enough_free_blocks fs"
    and "bs < blks conf" "es < ents conf" "lu_id conf (view (dev fs)) bs es \<noteq> SPIFFS_OBJ_ID_FREE"
    and "page_data \<longrightarrow> length (work fs) = psz conf"
    and "ticks fs + walk_cost conf 0 + 2 * psz conf + 4 < 2 ^ 32 - 1"
  shows "(\<exists>b e m1 fs'. b < blks conf \<and> e < ents conf \<and> lu_id conf (view (dev fs)) b e = SPIFFS_OBJ_ID_FREE \<and>
      spiffs_page_move fs fh page_data oid (word_of_nat (page_of_entry conf bs es)) =
        Some (SPIFFS_OK, word_of_nat (page_of_entry conf b e), fs') \<and>
      same_but_flash (count_deleted (count_allocated (moved_work page_data (took_entry b e fs)))) fs' \<and>
      entry_becomes conf (view (dev fs)) m1 b e oid
        (if page_data then clear_used (work fs) else page_bytes conf (view (dev fs)) bs es) \<and>
      entry_becomes conf m1 (view (dev fs')) bs es SPIFFS_OBJ_ID_DELETED
        (deleted_page (page_bytes conf (view (dev fs)) bs es))) \<or>
    (\<exists>fs'. spiffs_page_move fs fh page_data oid (word_of_nat (page_of_entry conf bs es)) =
        Some (SPIFFS_ERR_NOT_FOUND, 0, fs') \<and>
      same_but_flash fs fs' \<and> view (dev fs') = view (dev fs) \<and> no_free_entry conf (view (dev fs)))"
proof -
  note [simp] = no_free_entry_def
  have "free_pages_blank conf (view (dev fs))" "unat (free_cursor_block_ix fs) < blks conf"
    using assms(2) by (simp_all add: fs_inv_def)
  from spiffs_flash.page_move_ok [OF assms(1) spiffs_flash.inv_matches [OF assms(1,2)] this
      assms(3) [unfolded enough_free_blocks_def] assms(4-8), of fh oid]
  show ?thesis
  proof (elim disjE exE conjE, goal_cases)
    case (1 b e m1 m' fs')
    with spiffs_flash.matches_same [OF assms(1) 1(5)] show ?thesis
      by (intro disjI1 exI [of _ b] exI [of _ e] exI [of _ m1] exI [of _ fs']) (simp add: SPIFFS_OK_def)
  next
    case (2 fs')
    with spiffs_flash.matches_same [OF assms(1) 2(2)] show ?thesis by auto
  qed
qed

text \<open>C15 (functional). While the file system is being cleaned or has at least two free blocks (with fewer the
  search first tries a quick garbage collection or refuses with \<^verbatim>\<open>SPIFFS_ERR_FULL\<close> although entries are free; and as
  long as the counter of cache accesses does not wrap), allocating a page takes a free entry, gives it the object id, and programs the
  erased page with the header (used flag cleared, and the final flag too when asked to) and the data at
  its offset; every other entry and page keeps its contents.  When no entry is free the call fails and
  changes neither flash nor state.\<close>

theorem page_allocate_data_allocates:
  assumes "spiffs_flash conf view lo hi" "fs_inv conf view fs" "enough_free_blocks fs"
    and "5 + unat offs < psz conf" "5 + unat offs + length (case data of None \<Rightarrow> [] | Some bs \<Rightarrow> bs) \<le> psz conf"
    and "ticks fs + walk_cost conf 0 + 4 < 2 ^ 32 - 1"
  shows "(\<exists>b e fs'. b < blks conf \<and> e < ents conf \<and> lu_id conf (view (dev fs)) b e = SPIFFS_OBJ_ID_FREE \<and>
      spiffs_page_allocate_data fs oid ph data offs finalize =
        Some (SPIFFS_OK, allocated_header finalize ph, word_of_nat (page_of_entry conf b e), fs') \<and>
      same_but_flash (count_allocated (took_entry b e fs)) fs' \<and>
      entry_becomes conf (view (dev fs)) (view (dev fs')) b e oid
        (page_image (psz conf) (allocated_header finalize ph) (unat offs) (case data of None \<Rightarrow> [] | Some bs \<Rightarrow> bs))) \<or>
    (\<exists>fs'. spiffs_page_allocate_data fs oid ph data offs finalize = Some (SPIFFS_ERR_NOT_FOUND, ph, 0, fs') \<and>
      same_but_flash fs fs' \<and> view (dev fs') = view (dev fs) \<and> no_free_entry conf (view (dev fs)))"
proof -
  note [simp] = no_free_entry_def
  have "free_pages_blank conf (view (dev fs))" "unat (free_cursor_block_ix fs) < blks conf"
    using assms(2) by (simp_all add: fs_inv_def)
  from spiffs_flash.page_allocate_data_ok [OF assms(1) spiffs_flash.inv_matches [OF assms(1,2)] this
      assms(3) [unfolded enough_free_blocks_def] assms(4-6), of oid ph finalize]
  show ?thesis
  proof (elim disjE exE conjE, goal_cases)
    case (1 b e m' fs')
    with spiffs_flash.matches_same [OF assms(1) 1(5)] show ?thesis
      by (intro disjI1 exI [of _ b] exI [of _ e] exI [of _ fs']) (simp add: SPIFFS_OK_def)
  next
    case (2 fs')
    with spiffs_flash.matches_same [OF assms(1) 2(2)] show ?thesis by auto
  qed
qed

text \<open>C16 (functional). Deleting a page sets its entry to the deleted id and clears used and deleted flag
  in its header; every other byte of the page, every other entry and every other page stay, and the
  statistics count one page less allocated and one more deleted.\<close>

theorem page_delete_deletes:
  assumes "spiffs_flash conf view lo hi" "fs_inv conf view fs" "b < blks conf" "e < ents conf"
    and "ticks fs + 1 < 2 ^ 32 - 1"
  shows "\<exists>fs'. spiffs_page_delete fs (word_of_nat (page_of_entry conf b e)) = Some (SPIFFS_OK, fs') \<and>
    same_but_flash (count_deleted fs) fs' \<and>
    entry_becomes conf (view (dev fs)) (view (dev fs')) b e SPIFFS_OBJ_ID_DELETED
      (deleted_page (page_bytes conf (view (dev fs)) b e))"
proof -
  from spiffs_flash.page_delete_ok [OF assms(1) spiffs_flash.inv_matches [OF assms(1,2)] assms(3-5)]
  obtain m' fs' where r: "spiffs_page_delete fs (word_of_nat (page_of_entry conf b e)) = Some (0, fs')"
    "entry_becomes conf (view (dev fs)) m' b e SPIFFS_OBJ_ID_DELETED (deleted_page (page_bytes conf (view (dev fs)) b e))"
    and m: "spiffs_flash.matches conf view m' (count_deleted fs) fs'" by blast
  from spiffs_flash.matches_same [OF assms(1) m] r show ?thesis by (auto simp: SPIFFS_OK_def)
qed

text \<open>C13 (invariant). While the file system is being cleaned or has at least two free blocks, its invariant
  (coherent cache, erased free pages, cursor in range) is kept by allocating a page, by moving one in use and by
  deleting one; each of them returns, and then the only failure, of the first two, is that no entry is free.  (With
  fewer free blocks, and no cleaning under way, the search for a free entry may erase a block or refuse with
  \<^verbatim>\<open>SPIFFS_ERR_FULL\<close> although entries are free: this is not covered.  Nor is a counter of cache accesses that is about
  to wrap.)\<close>

theorem page_operations_keep_invariant:
  assumes "spiffs_flash conf view lo hi" "fs_inv conf view fs" "enough_free_blocks fs"
    and "5 + unat offs < psz conf" "5 + unat offs + length (case data of None \<Rightarrow> [] | Some bs \<Rightarrow> bs) \<le> psz conf"
    and "bs < blks conf" "es < ents conf" "lu_id conf (view (dev fs)) bs es \<noteq> SPIFFS_OBJ_ID_FREE"
    and "page_data \<longrightarrow> length (work fs) = psz conf" "oid \<noteq> SPIFFS_OBJ_ID_FREE"
    and "ticks fs + walk_cost conf 0 + 2 * psz conf + 4 < 2 ^ 32 - 1"
  shows "(\<exists>r ph' pix fs'. spiffs_page_allocate_data fs oid ph data offs finalize = Some (r, ph', pix, fs') \<and>
      fs_inv conf view fs' \<and> r \<in> {SPIFFS_OK, SPIFFS_ERR_NOT_FOUND}) \<and>
    (\<exists>r pix fs'. spiffs_page_move fs fh page_data oid (word_of_nat (page_of_entry conf bs es)) = Some (r, pix, fs') \<and>
      fs_inv conf view fs' \<and> r \<in> {SPIFFS_OK, SPIFFS_ERR_NOT_FOUND}) \<and>
    (\<exists>fs'. spiffs_page_delete fs (word_of_nat (page_of_entry conf bs es)) = Some (SPIFFS_OK, fs') \<and>
      fs_inv conf view fs')"
proof -
  have "ticks fs + walk_cost conf 0 + 4 < 2 ^ 32 - 1" "ticks fs + 1 < 2 ^ 32 - 1" using assms(11) by linarith+
  then show ?thesis
    using spiffs_flash.page_allocate_inv [OF assms(1-5) assms(10)]
      spiffs_flash.page_move_inv [OF assms(1-3) assms(6-11)] spiffs_flash.page_delete_inv [OF assms(1,2) assms(6,7)]
    by blast
qed

section \<open>An example\<close>

text \<open>A mounted chip whose first entry holds the object id 1; everything else is erased.\<close>

definition one_entry_chip :: "nat \<Rightarrow> u8" where
  "one_entry_chip i = (if i = 0x100000 then 1 else if i = 0x100001 then 0 else 0xff)"

definition one_entry_fs :: "(nat \<Rightarrow> u8) flash_hw spiffs" where
  "one_entry_fs = (example_mount one_entry_chip)\<lparr>free_blocks := 128\<rparr>"

lemma mount_free_cursor: "free_cursor_block_ix (SPIFFS_mount_state config w fa fsz ca csz junk d) = 0"
proof -
  have f: "free_cursor_block_ix (spiffs_cache_init fs) = free_cursor_block_ix fs" for fs :: "'d spiffs"
    using cache_init_keeps [of fs] by auto
  show ?thesis by (simp add: SPIFFS_mount_state_def Let_def f)
qed

lemma one_entry_view:
  "flash_window id (dev one_entry_fs) i =
     (if i < 0x40200000 then 0 else if i = 0x40300000 then 1 else if i = 0x40300001 then 0 else 0xff)"
  by (auto simp: one_entry_fs_def example_mount_ready flash_window_def one_entry_chip_def)

lemma one_entry_ids:
  "lu_id example_config (flash_window id (dev one_entry_fs)) b e = (if b = 0 \<and> e = 0 then 1 else 0xffff)"
  by (auto simp: lu_id_def one_entry_view layout_simps word16_def)

lemma one_entry_pages: "page_bytes example_config (flash_window id (dev one_entry_fs)) b e = replicate 256 0xff"
  by (rule nth_equalityI)
    (auto simp: page_bytes_def nor_read_def one_entry_view addr_of_page_def page_of_entry_def layout_simps)

lemma one_entry_inv:
  "fs_inv example_config (flash_window id) one_entry_fs" "enough_free_blocks one_entry_fs" "ticks one_entry_fs = 0"
proof -
  have "ready example_config (flash_window id (dev one_entry_fs)) one_entry_fs"
    using example_mount_ready(1) [of _ one_entry_chip] by (simp add: one_entry_fs_def ready_def)
  moreover have "unat (block_count one_entry_fs) = blks example_config"
    by (simp add: one_entry_fs_def example_mount_def SPIFFS_mount_state_fields example_config_fields layout_simps)
  moreover have "free_pages_blank example_config (flash_window id (dev one_entry_fs))"
    by (simp add: free_pages_blank_def one_entry_pages layout_simps)
  moreover have "unat (free_cursor_block_ix one_entry_fs) < blks example_config"
    by (simp add: one_entry_fs_def example_mount_def mount_free_cursor layout_simps)
  ultimately show "fs_inv example_config (flash_window id) one_entry_fs" by (simp add: fs_inv_def)
  show "enough_free_blocks one_entry_fs" by (simp add: enough_free_blocks_def one_entry_fs_def)
  show "ticks one_entry_fs = 0" using example_mount_ready(2) [of one_entry_chip] by (simp add: one_entry_fs_def ticks_def)
qed

lemma one_entry_cost: "walk_cost example_config 0 = 129"
  by (simp add: walk_cost_def layout_simps)

lemma one_entry_free: "\<not> no_free_entry example_config (flash_window id (dev one_entry_fs))"
  unfolding no_free_entry_def
  by (auto simp: one_entry_ids layout_simps SPIFFS_OBJ_ID_FREE_def intro!: exI [of _ 1])

theorem page_move_moves_witness:
  "\<exists>b e fs'. spiffs_page_move one_entry_fs 0 False 7 1 = Some (SPIFFS_OK, word_of_nat (page_of_entry example_config b e), fs') \<and>
     (b, e) \<noteq> (0, 0) \<and> lu_id example_config (flash_window id (dev fs')) b e = 7 \<and>
     lu_id example_config (flash_window id (dev fs')) 0 0 = 0"
proof -
  let ?m = "flash_window id (dev one_entry_fs)"
  have p: "page_of_entry example_config 0 0 = 1" by (simp add: page_of_entry_def layout_simps)
  have s: "lu_id example_config ?m 0 0 \<noteq> SPIFFS_OBJ_ID_FREE" by (simp add: one_entry_ids SPIFFS_OBJ_ID_FREE_def)
  have z: "0 < blks example_config" "0 < ents example_config" by (simp_all add: layout_simps)
  have t: "ticks one_entry_fs + walk_cost example_config 0 + 2 * psz example_config + 4 < 2 ^ 32 - 1"
    by (simp add: one_entry_inv one_entry_cost layout_simps)
  have "False \<longrightarrow> length (work one_entry_fs) = psz example_config" by simp
  from page_move_moves [OF example_flash.spiffs_flash_axioms one_entry_inv(1,2) z s this t, of 0 7] one_entry_free
  obtain b e m1 fs' where b: "b < blks example_config" "e < ents example_config" "lu_id example_config ?m b e = SPIFFS_OBJ_ID_FREE"
    and r: "spiffs_page_move one_entry_fs 0 False 7 1 = Some (SPIFFS_OK, word_of_nat (page_of_entry example_config b e), fs')"
    and e: "entry_becomes example_config ?m m1 b e 7 (page_bytes example_config ?m 0 0)"
      "entry_becomes example_config m1 (flash_window id (dev fs')) 0 0 SPIFFS_OBJ_ID_DELETED
        (deleted_page (page_bytes example_config ?m 0 0))"
    unfolding p of_nat_1 if_False by blast
  have ne: "(b, e) \<noteq> (0, 0)" using b(3) s by (cases "(b, e) = (0, 0)") simp_all
  have "lu_id example_config (flash_window id (dev fs')) b e = 7" "lu_id example_config (flash_window id (dev fs')) 0 0 = 0"
    using e b(1,2) ne z by (auto simp: entry_becomes_def SPIFFS_OBJ_ID_DELETED_def)
  then show ?thesis using r ne by blast
qed

theorem page_allocate_data_allocates_witness:
  "\<exists>ph b e fs'. spiffs_page_allocate_data one_entry_fs 7 \<lparr>ph_obj_id = 7, ph_span_ix = 0, ph_flags = 0xff\<rparr> (Some [1, 2]) 3 True =
       Some (SPIFFS_OK, ph, word_of_nat (page_of_entry example_config b e), fs') \<and>
     take 11 (page_bytes example_config (flash_window id (dev fs')) b e) = [7, 0, 0, 0, 0xfc, 0xff, 0xff, 0xff, 1, 2, 0xff]"
proof -
  let ?m = "flash_window id (dev one_entry_fs)"
  let ?ph = "\<lparr>ph_obj_id = 7, ph_span_ix = 0, ph_flags = 0xff\<rparr>"
  have t: "ticks one_entry_fs + walk_cost example_config 0 + 4 < 2 ^ 32 - 1"
    by (simp add: one_entry_inv one_entry_cost)
  have z: "5 + unat (3 :: u32) < psz example_config"
    "5 + unat (3 :: u32) + length (case Some [1, 2 :: u8] of None \<Rightarrow> [] | Some bs \<Rightarrow> bs) \<le> psz example_config"
    by (simp_all add: layout_simps)
  from page_allocate_data_allocates [OF example_flash.spiffs_flash_axioms one_entry_inv(1,2) z t, of 7 ?ph True] one_entry_free
  obtain b e fs' where b: "b < blks example_config" "e < ents example_config"
    and r: "spiffs_page_allocate_data one_entry_fs 7 ?ph (Some [1, 2]) 3 True =
      Some (SPIFFS_OK, allocated_header True ?ph, word_of_nat (page_of_entry example_config b e), fs')"
    and e: "entry_becomes example_config ?m (flash_window id (dev fs')) b e 7
      (page_image 256 (allocated_header True ?ph) 3 [1, 2])"
    by (auto simp: layout_simps)
  have "page_bytes example_config (flash_window id (dev fs')) b e = page_image 256 (allocated_header True ?ph) 3 [1, 2]"
    using entry_becomes_at(2) [OF e b] .
  then have "take 11 (page_bytes example_config (flash_window id (dev fs')) b e) = [7, 0, 0, 0, 0xfc, 0xff, 0xff, 0xff, 1, 2, 0xff]"
    by (simp add: page_image_def allocated_header_def page_header_bytes_def bytes16_def blit_def take_Cons' numeral_3_eq_3
        SPIFFS_PH_FLAG_USED_def SPIFFS_PH_FLAG_FINAL_def)
  with r show ?thesis by blast
qed

theorem page_delete_deletes_witness:
  "\<exists>fs'. spiffs_page_delete one_entry_fs 1 = Some (SPIFFS_OK, fs') \<and>
     lu_id example_config (flash_window id (dev fs')) 0 0 = 0 \<and>
     page_bytes example_config (flash_window id (dev fs')) 0 0 ! 4 = 0x7e \<and> stats_p_deleted fs' = stats_p_deleted one_entry_fs + 1"
proof -
  have p: "page_of_entry example_config 0 0 = 1" by (simp add: page_of_entry_def layout_simps)
  have z: "0 < blks example_config" "0 < ents example_config" by (simp_all add: layout_simps)
  have t: "ticks one_entry_fs + 1 < 2 ^ 32 - 1" by (simp add: one_entry_inv)
  from page_delete_deletes [OF example_flash.spiffs_flash_axioms one_entry_inv(1) z t] obtain fs' where
    r: "spiffs_page_delete one_entry_fs 1 = Some (SPIFFS_OK, fs')" "same_but_flash (count_deleted one_entry_fs) fs'"
    and e: "entry_becomes example_config (flash_window id (dev one_entry_fs)) (flash_window id (dev fs')) 0 0
      SPIFFS_OBJ_ID_DELETED (deleted_page (replicate 256 0xff))" unfolding p one_entry_pages by auto
  from entry_becomes_at [OF e z] r show ?thesis
    by (auto simp: deleted_page_def SPIFFS_OBJ_ID_DELETED_def same_but_flash_def count_deleted_def)
qed

theorem page_operations_keep_invariant_witness:
  "\<exists>r pix fs'. spiffs_page_move one_entry_fs 0 False 7 1 = Some (r, pix, fs') \<and>
     fs_inv example_config (flash_window id) fs'"
proof -
  let ?m = "flash_window id (dev one_entry_fs)"
  have p: "page_of_entry example_config 0 0 = 1" by (simp add: page_of_entry_def layout_simps)
  have s: "lu_id example_config ?m 0 0 \<noteq> SPIFFS_OBJ_ID_FREE" by (simp add: one_entry_ids SPIFFS_OBJ_ID_FREE_def)
  have z: "0 < blks example_config" "0 < ents example_config" by (simp_all add: layout_simps)
  have o: "5 + unat (0 :: u32) < psz example_config"
    "5 + unat (0 :: u32) + length (case None of None \<Rightarrow> [] | Some (bs :: u8 list) \<Rightarrow> bs) \<le> psz example_config"
    by (simp_all add: layout_simps)
  have t: "ticks one_entry_fs + walk_cost example_config 0 + 2 * psz example_config + 4 < 2 ^ 32 - 1"
    by (simp add: one_entry_inv one_entry_cost layout_simps)
  have i: "(7 :: u16) \<noteq> SPIFFS_OBJ_ID_FREE" by (simp add: SPIFFS_OBJ_ID_FREE_def)
  have "False \<longrightarrow> length (work one_entry_fs) = psz example_config" by simp
  from page_operations_keep_invariant [OF example_flash.spiffs_flash_axioms one_entry_inv(1,2) o z s this i t,
      where fh = 0 and finalize = True and ph = undefined]
  show ?thesis unfolding p of_nat_1 by blast
qed

end
