(* ===== verification/SpiffsSearch.thy ===== *)
theory SpiffsSearch
  imports SpiffsPageFacts
begin

text \<open>
  Searches of the object lookup with a visitor that accepts some of the entries: by object id and span
  index, and by name.  A visitor that behaves like a predicate on entries makes the walk stop at an entry with
  the predicate, and run to its end only when there is none.
\<close>

section \<open>Searches with a predicate\<close>

text \<open>A visitor that stops at the entries with \<open>P\<close>, and the entries a search stops at: those that pass the
  id check of the flags and the predicate.\<close>

definition pred_visitor :: "(u16 \<Rightarrow> nat \<Rightarrow> nat \<Rightarrow> bool) \<Rightarrow> (unit, 'p) pure_visitor" where
  "pred_visitor P oid b e u p = (if P oid b e then SPIFFS_OK else SPIFFS_VIS_COUNTINUE, u, p)"

definition is_hit :: "u8 \<Rightarrow> u16 \<Rightarrow> (u16 \<Rightarrow> nat \<Rightarrow> nat \<Rightarrow> bool) \<Rightarrow> (nat \<Rightarrow> nat \<Rightarrow> u16) \<Rightarrow> nat \<Rightarrow> nat \<Rightarrow> bool" where
  "is_hit flags obj_id P ids b e \<longleftrightarrow> (flags AND SPIFFS_VIS_CHECK_ID = 0 \<or> ids b e = obj_id) \<and>
     P (if flags AND SPIFFS_VIS_CHECK_PH \<noteq> 0 then obj_id else ids b e) b e"

lemma visit_codes: "SPIFFS_OK \<noteq> SPIFFS_VIS_COUNTINUE" "SPIFFS_OK \<noteq> SPIFFS_VIS_END"
  "SPIFFS_VIS_COUNTINUE \<noteq> SPIFFS_VIS_COUNTINUE_RELOAD" "SPIFFS_OK \<noteq> SPIFFS_VIS_COUNTINUE_RELOAD"
  "\<not> SPIFFS_OK < SPIFFS_OK" "SPIFFS_ERR_NOT_FOUND < SPIFFS_OK" "SPIFFS_OK \<noteq> SPIFFS_ERR_NOT_FOUND"
  by (simp_all add: SPIFFS_OK_def SPIFFS_VIS_COUNTINUE_def SPIFFS_VIS_END_def SPIFFS_VIS_COUNTINUE_RELOAD_def
      SPIFFS_ERR_INTERNAL_def SPIFFS_ERR_NOT_FOUND_def)

lemma visit_step_pred:
  fixes P flags obj_id ids
  defines "H \<equiv> is_hit flags obj_id P ids"
  shows "H b e \<Longrightarrow> visit_step flags obj_id (Some (pred_visitor P)) b e (ids b e) s p =
      (Halt SPIFFS_OK, s\<lparr>at_block := Some (word_of_nat b), at_entry := Some e, user := ()\<rparr>, p)"
    "\<not> H b e \<Longrightarrow> \<exists>s'. visit_step flags obj_id (Some (pred_visitor P)) b e (ids b e) s p = (Next, s', p) \<and>
      entry_count s' = entry_count s - 1"
  using visit_codes by (auto simp: H_def is_hit_def visit_step_def pred_visitor_def Let_def)

lemma pred_walk:
  fixes P flags obj_id ids
  defines "H \<equiv> is_hit flags obj_id P ids"
  shows "walk (visit_step flags obj_id (Some (pred_visitor P)) b) (ids b) es s p = (r, s', p') \<Longrightarrow>
   p' = p \<and> (r = Next \<and> (\<forall>e \<in> set es. \<not> H b e) \<and> entry_count s' = entry_count s - int (length es) \<or>
     r = Halt SPIFFS_OK \<and> at_block s' = Some (word_of_nat b) \<and> (\<exists>e \<in> set es. at_entry s' = Some e \<and> H b e))"
proof (induction es arbitrary: s p)
  case (Cons e es)
  show ?case
  proof (cases "H b e")
    case True
    then show ?thesis using Cons.prems by (auto simp: visit_step_pred H_def)
  next
    case False
    from visit_step_pred(2) [OF False [unfolded H_def], of s p] obtain s1 where
      s1: "visit_step flags obj_id (Some (pred_visitor P)) b e (ids b e) s p = (Next, s1, p)"
      "entry_count s1 = entry_count s - 1" by blast
    with Cons.prems have "walk (visit_step flags obj_id (Some (pred_visitor P)) b) (ids b) es s1 p = (r, s', p')" by simp
    from Cons.IH [OF this] False s1(2) show ?thesis by auto
  qed
qed simp

lemma pred_visit_walk:
  fixes P flags obj_id ids
  defines "H \<equiv> is_hit flags obj_id P ids"
  shows "visit_walk flags obj_id (Some (pred_visitor P)) ids n bs s p = (x, s', p') \<Longrightarrow>
   p' = p \<and> (x = SPIFFS_VIS_END \<and>
       (\<forall>i < length bs. int (i * n) < entry_count s \<longrightarrow> (\<forall>e < n. \<not> H (bs ! i) e)) \<or>
     x = SPIFFS_OK \<and> (\<exists>b \<in> set bs. \<exists>e < n. at_block s' = Some (word_of_nat b) \<and> at_entry s' = Some e \<and> H b e))"
proof (induction bs arbitrary: s p)
  case (Cons b bs)
  show ?case
  proof (cases "entry_count s > 0")
    case False
    then have "\<not> int (i * n) < entry_count s" for i by (simp add: not_less order.trans)
    then show ?thesis using Cons.prems False by auto
  next
    case True
    obtain r s1 p1 where w: "walk (visit_step flags obj_id (Some (pred_visitor P)) b) (ids b) [0..<n] s p = (r, s1, p1)"
      by (metis prod_cases3)
    from pred_walk [where ids = ids, OF w] show ?thesis unfolding H_def [symmetric]
    proof (elim conjE disjE)
      assume r: "p1 = p" "r = Next" and none: "\<forall>e \<in> set [0..<n]. \<not> H b e"
        and c: "entry_count s1 = entry_count s - int (length [0..<n])"
      have ih: "visit_walk flags obj_id (Some (pred_visitor P)) ids n bs s1 p = (x, s', p')"
        using Cons.prems True w r by simp
      have "\<forall>i < length (b # bs). int (i * n) < entry_count s \<longrightarrow> (\<forall>e < n. \<not> H ((b # bs) ! i) e)"
        if "\<forall>i < length bs. int (i * n) < entry_count s1 \<longrightarrow> (\<forall>e < n. \<not> H (bs ! i) e)"
      proof (intro allI impI)
        fix i e assume "i < length (b # bs)" "int (i * n) < entry_count s" "e < n"
        then show "\<not> H ((b # bs) ! i) e"
          using that none c by (cases i) (auto simp: distrib_right)
      qed
      then show ?thesis using Cons.IH [OF ih] by auto
    next
      assume "p1 = p" "r = Halt SPIFFS_OK" "at_block s1 = Some (word_of_nat b)"
        "\<exists>e \<in> set [0..<n]. at_entry s1 = Some e \<and> H b e"
      then show ?thesis using Cons.prems True w by auto
    qed
  qed
qed simp

context spiffs_flash
begin

lemma blocks_covered:
  assumes b1: "b1 < blks conf" "e1 < ents conf"
    and nf: "\<forall>i < length (blocks_from (Suc b1 mod blks conf) (blks conf)).
        int (i * ents conf) < int (blks conf * ents conf) - int (ents conf - e1) \<longrightarrow>
        (\<forall>e < ents conf. \<not> H (blocks_from (Suc b1 mod blks conf) (blks conf) ! i) e)"
    and none: "\<forall>e \<in> {e1..<ents conf}. \<not> H b1 e"
    and be: "b' < blks conf" "e' < ents conf"
  shows "\<not> H b' e'"
proof (cases "b' = b1 \<and> e1 \<le> e'")
  case True
  then show ?thesis using none be by simp
next
  case False
  let ?bs = "blocks_from (Suc b1 mod blks conf) (blks conf)"
  have nb: "Suc b1 mod blks conf < blks conf" using b1 by simp
  have "b' \<in> set ?bs" using set_blocks_from [OF nb] be(1) by simp
  then obtain i where i: "i < blks conf" "?bs ! i = b'" by (auto simp: in_set_conv_nth blocks_from_def)
  have "int (i * ents conf) < int (blks conf * ents conf) - int (ents conf - e1)"
  proof (cases "Suc i < blks conf")
    case True
    have "i * ents conf + ents conf \<le> (blks conf - 1) * ents conf"
      using True by (intro mult_le_of_le) simp
    moreover have "(blks conf - 1) * ents conf + ents conf = blks conf * ents conf"
      using True by (simp add: algebra_simps)
    ultimately show ?thesis using b1(2) by (simp del: of_nat_mult)
  next
    case F: False
    then have "Suc i = blks conf" using i(1) by simp
    then have "Suc (b1 + i) = b1 + blks conf" by simp
    then have "Suc (b1 + i) mod blks conf = b1" using b1(1) by (metis mod_add_self2 mod_less)
    then have "b' = b1" using i by (simp add: blocks_from_def mod_add_left_eq)
    then have "0 < e1" using False by simp
    moreover have "i * ents conf + ents conf = blks conf * ents conf"
      using \<open>Suc i = blks conf\<close> by (metis add.commute mult_Suc)
    ultimately show ?thesis using b1(2) by (simp del: of_nat_mult)
  qed
  then show ?thesis using nf i be(2) by (auto simp: blocks_from_def)
qed

theorem find_pred_ok:
  fixes P flags obj_id m
  defines "H \<equiv> is_hit flags obj_id P (lu_id conf m)"
  assumes v: "visitor_ok m k (sought_id flags obj_id) (pred_visitor P) v" and nw: "flags AND SPIFFS_VIS_NO_WRAP = 0"
    and b: "b < blks conf" and m: "matches m p fs" and t: "ticks fs + search_cost k < 2 ^ 32 - 1"
  shows "\<exists>res s fs'. spiffs_obj_lu_find_entry_visitor fs (word_of_nat b) e flags obj_id (Some v) () = Some (res, s, fs') \<and>
    matches m p fs' \<and> ticks fs' \<le> ticks fs + search_cost k \<and>
    (res = SPIFFS_OK \<and> (\<exists>b' < blks conf. \<exists>e' < ents conf. at_block s = Some (word_of_nat b') \<and> at_entry s = Some e' \<and>
        H b' e') \<or>
     res = SPIFFS_VIS_END \<and> (\<forall>b' < blks conf. \<forall>e' < ents conf. \<not> H b' e'))"
proof -
  let ?v = "Some (pred_visitor P)"
  have v': "rel_option (visitor_ok m k (sought_id flags obj_id)) ?v (Some v)" using v by simp
  obtain b1 e1 where s: "search_start conf b e = (b1, e1)" by fastforce
  have b1: "b1 < blks conf" "e1 < ents conf"
    using s b ents_pos by (auto simp: search_start_def split: if_splits)
  from find_entry_visitor_ok [OF v' nw b m t, of e "()"] obtain x s' p' fs' where
    l: "lookup_visit flags obj_id ?v m (b1, e1) (init_search ()) p = (x, s', p')"
    and f: "spiffs_obj_lu_find_entry_visitor fs (word_of_nat b) e flags obj_id (Some v) () = Some (x, s', fs')"
    and m': "matches m p' fs'" "ticks fs' \<le> ticks fs + search_cost k" unfolding s by blast
  obtain r s1 p1 where w: "walk (visit_step flags obj_id ?v b1) (lu_id conf m b1) [e1..<ents conf]
      (init_search ()) p = (r, s1, p1)" by (metis prod_cases3)
  from pred_walk [where ids = "lu_id conf m", OF w] show ?thesis unfolding H_def [symmetric]
  proof (elim conjE disjE)
    assume "p1 = p" "r = Halt SPIFFS_OK" "at_block s1 = Some (word_of_nat b1)"
      "\<exists>e \<in> set [e1..<ents conf]. at_entry s1 = Some e \<and> H b1 e"
    moreover from this have "x = SPIFFS_OK" "s' = s1" "p' = p" using l w by (simp_all add: lookup_visit_def)
    ultimately show ?thesis using f m' b1 by auto
  next
    assume r: "p1 = p" "r = Next" and none: "\<forall>e \<in> set [e1..<ents conf]. \<not> H b1 e"
      and c: "entry_count s1 = entry_count (init_search ()) - int (length [e1..<ents conf])"
    let ?bs = "blocks_from (Suc b1 mod blks conf) (blks conf)"
    have nb: "Suc b1 mod blks conf < blks conf" using b1 by simp
    have "visit_walk flags obj_id ?v (lu_id conf m) (ents conf) ?bs s1 p = (x, s', p')"
      using l w r by (simp add: lookup_visit_def)
    from pred_visit_walk [OF this] show ?thesis unfolding H_def [symmetric]
    proof (elim conjE disjE)
      assume x: "p' = p" "x = SPIFFS_VIS_END"
        and nf: "\<forall>i<length ?bs. int (i * ents conf) < entry_count s1 \<longrightarrow> (\<forall>e<ents conf. \<not> H (?bs ! i) e)"
      have ec: "entry_count s1 = int (blks conf * ents conf) - int (ents conf - e1)"
        using c by (simp add: init_search_def)
      have "\<not> H b' e'" if "b' < blks conf" "e' < ents conf" for b' e'
        using blocks_covered [OF b1 nf [unfolded ec] _ that] none by simp
      then show ?thesis using f m' x by auto
    next
      assume x: "p' = p" "x = SPIFFS_OK" and h: "\<exists>b\<in>set ?bs. \<exists>e<ents conf. at_block s' = Some (word_of_nat b) \<and>
          at_entry s' = Some e \<and> H b e"
      then show ?thesis using f m' set_blocks_from [OF nb] by auto
    qed
  qed
qed

end

section \<open>By id and span index\<close>

text \<open>The header of the page of an entry.\<close>

definition header_of :: "'d spiffs_config \<Rightarrow> (nat \<Rightarrow> u8) \<Rightarrow> nat \<Rightarrow> nat \<Rightarrow> spiffs_page_header" where
  "header_of conf m b e = get_page_header (page_bytes conf m b e)"

text \<open>The header says: a final page in use of the object with the given id and span index, not being
  deleted; and the page is not the excluded one.\<close>

definition span_header :: "u16 \<Rightarrow> u16 \<Rightarrow> spiffs_page_header \<Rightarrow> bool" where
  "span_header obj_id spix ph \<longleftrightarrow> ph_obj_id ph = obj_id \<and> ph_span_ix ph = spix \<and>
     ph_flags ph AND (SPIFFS_PH_FLAG_FINAL OR SPIFFS_PH_FLAG_DELET OR SPIFFS_PH_FLAG_USED) = SPIFFS_PH_FLAG_DELET \<and>
     \<not> (obj_id AND SPIFFS_OBJ_ID_IX_FLAG \<noteq> 0 \<and> ph_flags ph AND SPIFFS_PH_FLAG_IXDELE = 0 \<and> ph_span_ix ph = 0)"

definition span_page :: "'d spiffs_config \<Rightarrow> (nat \<Rightarrow> u8) \<Rightarrow> u16 \<Rightarrow> u16 \<Rightarrow> u16 option \<Rightarrow> nat \<Rightarrow> nat \<Rightarrow> bool" where
  "span_page conf m obj_id spix excl b e \<longleftrightarrow> span_header obj_id spix (header_of conf m b e) \<and>
     excl \<noteq> Some (word_of_nat (page_of_entry conf b e))"

text \<open>The entries the two searches look at: those with the id, or all.\<close>

definition id_checked :: "'d spiffs_config \<Rightarrow> u8 \<Rightarrow> (nat \<Rightarrow> u8) \<Rightarrow> u16 \<Rightarrow> nat \<Rightarrow> nat \<Rightarrow> bool" where
  "id_checked conf flag m obj_id b e \<longleftrightarrow> flag = SPIFFS_VIS_CHECK_PH \<or> lu_id conf m b e = obj_id"

lemma get_page_header_take: "5 \<le> n \<Longrightarrow> get_page_header (take n bs) = get_page_header bs"
  by (simp add: get_page_header_def get16_def)

context spiffs_flash
begin

lemma read_page_ok:
  assumes m: "matches m p fs" and be: "b < blks conf" "e < ents conf" and t: "ticks fs < 2 ^ 32 - 1"
    and a: "unat addr = page_addr (entry_page b e) + off" "off < psz conf" "off + unat len \<le> psz conf"
  shows "\<exists>fs'. spiffs_phys_rd fs op fh addr len = Some (0, slice off (unat len) (content m b e), fs') \<and>
    matches m p fs' \<and> ticks fs' = ticks fs + 1 \<and> lu_work fs' = lu_work fs"
proof -
  have ip: "in_page conf addr (unat len)" by (rule in_page_at [OF entry_page_less [OF be] a(1) a(3) a(2)])
  from phys_rd_matches [OF m ip t, of op fh] show ?thesis
    unfolding a(1) page_bytes_def using nor_read_slice [OF a(3), of m "page_addr (entry_page b e)"] by simp
qed

lemma slice_0_take: "slice 0 n xs = take n xs"
  by (simp add: slice_def)

lemma read_page_head_ok:
  assumes m: "matches m p fs" and be: "b < blks conf" "e < ents conf" and t: "ticks fs < 2 ^ 32 - 1"
    and a: "unat addr = page_addr (entry_page b e)" "unat len \<le> psz conf"
  shows "\<exists>fs'. spiffs_phys_rd fs op fh addr len = Some (0, take (unat len) (content m b e), fs') \<and>
    matches m p fs' \<and> ticks fs' = ticks fs + 1 \<and> lu_work fs' = lu_work fs"
  using read_page_ok [OF m be t, of addr 0 len op fh] a psz_pos by (simp add: slice_0_take)

lemma find_id_and_span_v_ok:
  "visitor_ok m 1 sought (pred_visitor (\<lambda>oid. span_page conf m oid spix excl)) (spiffs_obj_lu_find_id_and_span_v spix excl)"
  unfolding visitor_ok_def
proof (intro allI impI, elim conjE)
  fix oid b e u p fs
  assume m: "matches m p fs" and be: "b < blks conf" "e < ents conf" and t: "ticks fs + 1 < 2 ^ 32 - 1"
  note pix = entry_addrs(4) [OF be]
  have five: "unat sizeof_page_header \<le> psz conf" using geometry_facts(1) [OF g] by simp
  have "ticks fs < 2 ^ 32 - 1" using t by simp
  from read_page_head_ok [OF m be this entry_addrs(3) [OF be] five, of 0 "uint (SPIFFS_OP_T_OBJ_LU2 OR SPIFFS_OP_C_READ)"]
  obtain fs' where r: "spiffs_phys_rd fs 0 (uint (SPIFFS_OP_T_OBJ_LU2 OR SPIFFS_OP_C_READ))
      (SPIFFS_PAGE_TO_PADDR conf (ucast (word_of_nat (entry_page b e) :: u16))) sizeof_page_header =
      Some (0, take 5 (content m b e), fs')"
    and m': "matches m p fs'" "ticks fs' = ticks fs + 1" "lu_work fs' = lu_work fs" by auto
  have "spiffs_obj_lu_find_id_and_span_v spix excl fs oid (word_of_nat b) e u =
      Some (if span_page conf m oid spix excl b e then SPIFFS_OK else SPIFFS_VIS_COUNTINUE, u, fs')"
    unfolding spiffs_obj_lu_find_id_and_span_v_def matches_fields(1) [OF m] pix Let_def r
    by (auto simp: r SPIFFS_OK_def get_page_header_take span_page_def span_header_def header_of_def)
  then show "case pred_visitor (\<lambda>oid. span_page conf m oid spix excl) oid b e u p of (res, u', p') \<Rightarrow>
      res \<noteq> SPIFFS_VIS_COUNTINUE_RELOAD \<and>
      (\<exists>fs'. spiffs_obj_lu_find_id_and_span_v spix excl fs oid (word_of_nat b) e u = Some (res, u', fs') \<and>
        matches m p' fs' \<and> lu_work fs' = lu_work fs \<and> ticks fs' \<le> ticks fs + 1)"
    using m' visit_codes by (simp add: pred_visitor_def)
qed

lemma find_id_and_span_ok:
  fixes obj_id spix excl :: u16
  assumes m: "matches m p fs" and b: "unat (cursor_block_ix p) < blks conf"
    and t: "ticks fs + search_cost 1 < 2 ^ 32 - 1" and flag: "flag = SPIFFS_VIS_CHECK_ID \<or> flag = SPIFFS_VIS_CHECK_PH"
  defines "H \<equiv> (\<lambda>b e. id_checked conf flag m obj_id b e \<and>
      span_page conf m obj_id spix (if excl \<noteq> 0 then Some excl else None) b e)"
  shows "(\<exists>b e fs'. b < blks conf \<and> e < ents conf \<and> H b e \<and>
      find_id_and_span_with flag fs obj_id spix excl = Some (SPIFFS_OK, word_of_nat (entry_page b e), fs') \<and>
      matches m (p\<lparr>cursor_block_ix := word_of_nat b, cursor_obj_lu_entry := e\<rparr>) fs' \<and>
      ticks fs' \<le> ticks fs + search_cost 1) \<or>
    (\<exists>fs'. find_id_and_span_with flag fs obj_id spix excl = Some (SPIFFS_ERR_NOT_FOUND, 0, fs') \<and>
      matches m p fs' \<and> ticks fs' \<le> ticks fs + search_cost 1 \<and> (\<forall>b < blks conf. \<forall>e < ents conf. \<not> H b e))"
proof -
  let ?x = "if excl \<noteq> 0 then Some excl else None"
  let ?v = "spiffs_obj_lu_find_id_and_span_v spix ?x"
  have fl: "flag AND SPIFFS_VIS_NO_WRAP = 0" "flag AND SPIFFS_VIS_CHECK_ID = 0 \<longleftrightarrow> flag = SPIFFS_VIS_CHECK_PH"
    "flag AND SPIFFS_VIS_CHECK_PH \<noteq> 0 \<longleftrightarrow> flag = SPIFFS_VIS_CHECK_PH"
    using flag by (auto simp: SPIFFS_VIS_CHECK_ID_def SPIFFS_VIS_CHECK_PH_def SPIFFS_VIS_NO_WRAP_def)
  have hit: "is_hit flag obj_id (\<lambda>oid. span_page conf m oid spix ?x) (lu_id conf m) b e \<longleftrightarrow> H b e" for b e
    unfolding is_hit_def fl H_def id_checked_def using flag
    by (auto simp: SPIFFS_VIS_CHECK_ID_def SPIFFS_VIS_CHECK_PH_def)
  have cur: "word_of_nat (unat (cursor_block_ix p)) = cursor_block_ix fs" using matches_frame(3) [OF m] by simp
  from find_pred_ok [OF find_id_and_span_v_ok [of m "sought_id flag obj_id" spix ?x] fl(1) b m t,
      where e = "cursor_obj_lu_entry fs", unfolded cur hit]
  obtain res s fs1 where
    r: "spiffs_obj_lu_find_entry_visitor fs (cursor_block_ix fs) (cursor_obj_lu_entry fs) flag obj_id (Some ?v) () =
      Some (res, s, fs1)" and m1: "matches m p fs1" "ticks fs1 \<le> ticks fs + search_cost 1"
    and c: "res = SPIFFS_OK \<and> (\<exists>b' < blks conf. \<exists>e' < ents conf. at_block s = Some (word_of_nat b') \<and>
        at_entry s = Some e' \<and> H b' e') \<or>
      res = SPIFFS_VIS_END \<and> (\<forall>b' < blks conf. \<forall>e' < ents conf. \<not> H b' e')" by blast
  from c show ?thesis
  proof (elim disjE conjE exE)
    fix b e assume ok: "res = SPIFFS_OK" and be: "b < blks conf" "e < ents conf" "at_block s = Some (word_of_nat b)"
        "at_entry s = Some e" "H b e"
    define fs2 where "fs2 = fs1\<lparr>cursor_block_ix := word_of_nat b, cursor_obj_lu_entry := e\<rparr>"
    have m2: "matches m (p\<lparr>cursor_block_ix := word_of_nat b, cursor_obj_lu_entry := e\<rparr>) fs2"
      unfolding fs2_def by (intro matches_updates m1)
    have "find_id_and_span_with flag fs obj_id spix excl = Some (SPIFFS_OK, word_of_nat (entry_page b e), fs2)"
      unfolding find_id_and_span_with_def r bind.bind_lunit prod.case fs2_def
      using ok be visit_codes matches_fields(1) [OF m1(1)] entry_addrs(4) [OF be(1,2)] by (simp add: Let_def)
    moreover have "ticks fs2 \<le> ticks fs + search_cost 1" using m1(2) by (simp add: fs2_def)
    ultimately show ?thesis using be m2 by blast
  next
    assume e: "res = SPIFFS_VIS_END" and n: "\<forall>b' < blks conf. \<forall>e' < ents conf. \<not> H b' e'"
    have "find_id_and_span_with flag fs obj_id spix excl = Some (SPIFFS_ERR_NOT_FOUND, 0, fs1)"
      unfolding find_id_and_span_with_def r bind.bind_lunit prod.case using e visit_codes by (simp add: Let_def)
    then show ?thesis using m1 n by blast
  qed
qed

end

section \<open>By name\<close>

text \<open>The name of a zero-terminated buffer.\<close>

definition c_string :: "u8 list \<Rightarrow> u8 list" where "c_string bs = takeWhile (\<lambda>c. c \<noteq> 0) bs"

lemma strcmp_eq_c_string: "0 \<in> set a \<Longrightarrow> 0 \<in> set b \<Longrightarrow> strcmp_eq a b = Some (c_string a = c_string b)"
  by (induction a b rule: strcmp_eq.induct) (auto simp: c_string_def)

text \<open>The object ids of index pages.\<close>

definition index_id :: "u16 \<Rightarrow> bool" where
  "index_id oid \<longleftrightarrow> oid \<noteq> SPIFFS_OBJ_ID_FREE \<and> oid \<noteq> SPIFFS_OBJ_ID_DELETED \<and> oid AND SPIFFS_OBJ_ID_IX_FLAG \<noteq> 0"

text \<open>A page that is the live index header of an object, with the name the object has.\<close>

definition live_header_of :: "'d spiffs_config \<Rightarrow> (nat \<Rightarrow> u8) \<Rightarrow> nat \<Rightarrow> nat \<Rightarrow> bool" where
  "live_header_of conf m b e \<longleftrightarrow> index_id (lu_id conf m b e) \<and> live_index_header (header_of conf m b e)"

definition file_named :: "'d spiffs_config \<Rightarrow> (nat \<Rightarrow> u8) \<Rightarrow> u8 list \<Rightarrow> nat \<Rightarrow> nat \<Rightarrow> bool" where
  "file_named conf m name b e \<longleftrightarrow> live_header_of conf m b e \<and>
     c_string (oix_name (page_bytes conf m b e)) = c_string name"

text \<open>Every header page has a terminated name.\<close>

definition names_terminated :: "'d spiffs_config \<Rightarrow> (nat \<Rightarrow> u8) \<Rightarrow> bool" where
  "names_terminated conf m \<longleftrightarrow> (\<forall>b < blks conf. \<forall>e < ents conf. live_header_of conf m b e \<longrightarrow>
     0 \<in> set (oix_name (page_bytes conf m b e)))"

lemma oix_name_take: "43 \<le> n \<Longrightarrow> oix_name (take n bs) = oix_name bs"
  by (simp add: oix_name_def slice_def SPIFFS_OBJ_NAME_LEN_def drop_take min_def)

context spiffs_flash
begin

lemma find_by_name_v_ok:
  assumes nt: "names_terminated conf m" and n: "0 \<in> set name"
  shows "visitor_ok m 1 (sought_id 0 0) (pred_visitor (\<lambda>oid b e. index_id oid \<and> live_index_header (header_of conf m b e) \<and>
      c_string (oix_name (content m b e)) = c_string name)) (spiffs_object_find_object_index_header_by_name_v name)"
    (is "visitor_ok m 1 (sought_id 0 0) (pred_visitor ?P) ?v")
  unfolding visitor_ok_def
proof (intro allI impI, elim conjE)
  fix oid b e u p fs
  assume m: "matches m p fs" and be: "b < blks conf" "e < ents conf" and id: "oid = lu_id conf m b e \<or> sought_id 0 0 = Some oid"
    and t: "ticks fs + 1 < 2 ^ 32 - 1"
  have "\<exists>fs'. ?v fs oid (word_of_nat b) e u = Some (if ?P oid b e then SPIFFS_OK else SPIFFS_VIS_COUNTINUE, u, fs') \<and>
      matches m p fs' \<and> lu_work fs' = lu_work fs \<and> ticks fs' \<le> ticks fs + 1"
  proof (cases "index_id oid")
    case False
    then show ?thesis using m unfolding spiffs_object_find_object_index_header_by_name_v_def
      by (auto simp: index_id_def Let_def)
  next
    case True
    note pix = entry_addrs(4) [OF be]
    have sz: "unat sizeof_page_object_ix_header \<le> psz conf" using geometry_facts(1) [OF g] by simp
    have "ticks fs < 2 ^ 32 - 1" using t by simp
    from read_page_head_ok [OF m be this entry_addrs(3) [OF be] sz, of "SPIFFS_OP_T_OBJ_LU2 OR SPIFFS_OP_C_READ" 0]
    obtain fs' where r: "spiffs_phys_rd fs (SPIFFS_OP_T_OBJ_LU2 OR SPIFFS_OP_C_READ) 0
        (SPIFFS_PAGE_TO_PADDR conf (ucast (word_of_nat (entry_page b e) :: u16))) sizeof_page_object_ix_header =
        Some (0, take 44 (content m b e), fs')"
      and m': "matches m p fs'" "ticks fs' = ticks fs + 1" "lu_work fs' = lu_work fs" by auto
    have "?v fs oid (word_of_nat b) e u = Some (if ?P oid b e then SPIFFS_OK else SPIFFS_VIS_COUNTINUE, u, fs')"
    proof (cases "live_index_header (header_of conf m b e)")
      case False
      then show ?thesis using True
        unfolding spiffs_object_find_object_index_header_by_name_v_def matches_fields(1) [OF m] pix Let_def r
        by (simp add: r SPIFFS_OK_def get_page_header_take header_of_def index_id_def)
    next
      case live: True
      moreover have "oid = lu_id conf m b e" using id by (simp add: sought_id_def)
      ultimately have "0 \<in> set (oix_name (content m b e))"
        using nt be True by (simp add: names_terminated_def live_header_of_def)
      from strcmp_eq_c_string [OF n this] show ?thesis using True live
        unfolding spiffs_object_find_object_index_header_by_name_v_def matches_fields(1) [OF m] pix Let_def r
        by (auto simp: r SPIFFS_OK_def get_page_header_take header_of_def index_id_def oix_name_take)
    qed
    then show ?thesis using m' by simp
  qed
  then show "case pred_visitor ?P oid b e u p of (res, u', p') \<Rightarrow> res \<noteq> SPIFFS_VIS_COUNTINUE_RELOAD \<and>
      (\<exists>fs'. ?v fs oid (word_of_nat b) e u = Some (res, u', fs') \<and>
        matches m p' fs' \<and> lu_work fs' = lu_work fs \<and> ticks fs' \<le> ticks fs + 1)"
    using visit_codes by (simp add: pred_visitor_def)
qed

lemma find_by_name_ok:
  assumes nt: "names_terminated conf m" and n: "0 \<in> set name"
    and m: "matches m p fs" and b: "unat (cursor_block_ix p) < blks conf" and t: "ticks fs + search_cost 1 < 2 ^ 32 - 1"
  shows "(\<exists>b e fs'. b < blks conf \<and> e < ents conf \<and> file_named conf m name b e \<and>
      spiffs_object_find_object_index_header_by_name fs name = Some (SPIFFS_OK, word_of_nat (entry_page b e), fs') \<and>
      matches m (p\<lparr>cursor_block_ix := word_of_nat b, cursor_obj_lu_entry := e\<rparr>) fs' \<and>
      ticks fs' \<le> ticks fs + search_cost 1) \<or>
    (\<exists>fs'. spiffs_object_find_object_index_header_by_name fs name = Some (SPIFFS_ERR_NOT_FOUND, 0, fs') \<and>
      matches m p fs' \<and> ticks fs' \<le> ticks fs + search_cost 1 \<and>
      (\<forall>b < blks conf. \<forall>e < ents conf. \<not> file_named conf m name b e))"
proof -
  let ?v = "spiffs_object_find_object_index_header_by_name_v name"
  let ?P = "\<lambda>oid b e. index_id oid \<and> live_index_header (header_of conf m b e) \<and>
      c_string (oix_name (content m b e)) = c_string name"
  have hit: "is_hit 0 0 ?P (lu_id conf m) b e \<longleftrightarrow> file_named conf m name b e" for b e
    by (simp add: is_hit_def file_named_def live_header_of_def)
  have cur: "word_of_nat (unat (cursor_block_ix p)) = cursor_block_ix fs" using matches_frame(3) [OF m] by simp
  have "(0 :: u8) AND SPIFFS_VIS_NO_WRAP = 0" by simp
  from find_pred_ok [OF find_by_name_v_ok [OF nt n] this b m t,
      where e = "cursor_obj_lu_entry fs", unfolded cur hit]
  obtain res s fs1 where
    r: "spiffs_obj_lu_find_entry_visitor fs (cursor_block_ix fs) (cursor_obj_lu_entry fs) 0 0 (Some ?v) () =
      Some (res, s, fs1)" and m1: "matches m p fs1" "ticks fs1 \<le> ticks fs + search_cost 1"
    and c: "res = SPIFFS_OK \<and> (\<exists>b' < blks conf. \<exists>e' < ents conf. at_block s = Some (word_of_nat b') \<and>
        at_entry s = Some e' \<and> file_named conf m name b' e') \<or>
      res = SPIFFS_VIS_END \<and> (\<forall>b' < blks conf. \<forall>e' < ents conf. \<not> file_named conf m name b' e')" by blast
  from c show ?thesis
  proof (elim disjE conjE exE)
    fix b e assume ok: "res = SPIFFS_OK" and be: "b < blks conf" "e < ents conf" "at_block s = Some (word_of_nat b)"
        "at_entry s = Some e" "file_named conf m name b e"
    define fs2 where "fs2 = fs1\<lparr>cursor_block_ix := word_of_nat b, cursor_obj_lu_entry := e\<rparr>"
    have m2: "matches m (p\<lparr>cursor_block_ix := word_of_nat b, cursor_obj_lu_entry := e\<rparr>) fs2"
      unfolding fs2_def by (intro matches_updates m1)
    have "spiffs_object_find_object_index_header_by_name fs name = Some (SPIFFS_OK, word_of_nat (entry_page b e), fs2)"
      unfolding spiffs_object_find_object_index_header_by_name_def r bind.bind_lunit prod.case fs2_def
      using ok be visit_codes matches_fields(1) [OF m1(1)] entry_addrs(4) [OF be(1,2)] by (simp add: Let_def)
    moreover have "ticks fs2 \<le> ticks fs + search_cost 1" using m1(2) by (simp add: fs2_def)
    ultimately show ?thesis using be m2 by blast
  next
    assume e: "res = SPIFFS_VIS_END" and n: "\<forall>b' < blks conf. \<forall>e' < ents conf. \<not> file_named conf m name b' e'"
    have "spiffs_object_find_object_index_header_by_name fs name = Some (SPIFFS_ERR_NOT_FOUND, 0, fs1)"
      unfolding spiffs_object_find_object_index_header_by_name_def r bind.bind_lunit prod.case
      using e visit_codes by (simp add: Let_def)
    then show ?thesis using m1 n by blast
  qed
qed

end

end
