(* ===== verification/SpiffsRead.thy ===== *)
theory SpiffsRead
  imports SpiffsSearch SpiffsApi
begin

text \<open>
  Reading files: what it means that the flash stores the contents of the object of a descriptor, and
  that \<open>spiffs_object_read\<close> and \<open>SPIFFS_read\<close> return these contents.
\<close>

section \<open>A file on flash\<close>

text \<open>Bytes of a data page, and the span index of the index page that lists data page \<open>d\<close>.\<close>

definition dps :: "'d spiffs_config \<Rightarrow> nat" where "dps conf = psz conf - 5"

definition ix_span :: "'d spiffs_config \<Rightarrow> u16 \<Rightarrow> u16" where
  "ix_span conf d = ucast (SPIFFS_OBJ_IX_ENTRY_SPAN_IX conf (ucast d))"

text \<open>The entry \<open>(b, e)\<close> has the valid index page with span index \<open>s\<close> of the object of a descriptor: the
  header page is the descriptor's, any other index page is the only page of its object and span
  index.\<close>

definition index_page :: "'d spiffs_config \<Rightarrow> (nat \<Rightarrow> u8) \<Rightarrow> spiffs_fd \<Rightarrow> u16 \<Rightarrow> nat \<Rightarrow> nat \<Rightarrow> bool" where
  "index_page conf m fd s b e \<longleftrightarrow> b < blks conf \<and> e < ents conf \<and>
     SPIFFS_VALIDATE_OBJIX (header_of conf m b e) (fd_obj_id fd) s = SPIFFS_OK \<and>
     (if s = 0 then objix_hdr_pix fd = word_of_nat (page_of_entry conf b e)
      else \<forall>b' < blks conf. \<forall>e' < ents conf.
        lu_id conf m b' e' = fd_obj_id fd OR SPIFFS_OBJ_ID_IX_FLAG \<and>
        span_page conf m (fd_obj_id fd OR SPIFFS_OBJ_ID_IX_FLAG) s None b' e' \<longleftrightarrow> (b', e') = (b, e))"

text \<open>The page of entry \<open>(b, e)\<close> holds the part of the contents that belongs to data page \<open>d\<close>.\<close>

definition data_page :: "'d spiffs_config \<Rightarrow> (nat \<Rightarrow> u8) \<Rightarrow> spiffs_fd \<Rightarrow> u8 list \<Rightarrow> nat \<Rightarrow> nat \<Rightarrow> nat \<Rightarrow> bool" where
  "data_page conf m fd bytes d b e \<longleftrightarrow> b < blks conf \<and> e < ents conf \<and>
     SPIFFS_VALIDATE_DATA (header_of conf m b e) (fd_obj_id fd AND NOT SPIFFS_OBJ_ID_IX_FLAG) (word_of_nat d) = SPIFFS_OK \<and>
     (\<forall>i < dps conf. d * dps conf + i < length bytes \<longrightarrow> page_bytes conf m b e ! (5 + i) = bytes ! (d * dps conf + i))"

text \<open>The flash stores \<open>bytes\<close> as the contents of the object of a descriptor: the size is the
  descriptor's, and every data page is listed in a valid index page.\<close>

definition stores :: "'d spiffs_config \<Rightarrow> (nat \<Rightarrow> u8) \<Rightarrow> spiffs_fd \<Rightarrow> u8 list \<Rightarrow> bool" where
  "stores conf m fd bytes \<longleftrightarrow> fd_size fd = word_of_nat (length bytes) \<and> length bytes \<le> blks conf * ppb conf * dps conf \<and>
     (\<forall>d. d * dps conf < length bytes \<longrightarrow> (\<exists>ib ie b e.
        index_page conf m fd (ix_span conf (word_of_nat d)) ib ie \<and> data_page conf m fd bytes d b e \<and>
        get16 (page_bytes conf m ib ie) (ix_slot conf (ix_span conf (word_of_nat d)) (word_of_nat d)) =
          word_of_nat (page_of_entry conf b e)))"

context spiffs_geometry
begin

lemma unat_dps: "unat (SPIFFS_DATA_PAGE_SIZE cfg) = dps cfg" and dps_pos: "0 < dps cfg"
proof -
  have "64 \<le> unat (log_page_size cfg)" using geometry_facts(1) [OF g] by (simp add: psz_def)
  then show "unat (SPIFFS_DATA_PAGE_SIZE cfg) = dps cfg" "0 < dps cfg"
    by (simp_all add: SPIFFS_DATA_PAGE_SIZE_def dps_def psz_def unat_sub_no_wrap)
qed

lemma ix_span_bound: "unat (ix_span cfg d) < 65535"
  and ix_slot_bound: "ix_slot cfg (ix_span cfg d) d + 2 \<le> psz cfg"
proof -
  have p: "64 \<le> psz cfg" "psz cfg mod 2 = 0" using geometry_facts [OF g] by auto
  let ?H = "unat (SPIFFS_OBJ_HDR_IX_LEN cfg)" and ?I = "unat (SPIFFS_OBJ_IX_LEN cfg)"
  let ?d = "ucast d :: u32"
  have I: "29 \<le> ?I" unfolding unat_ix_len using p(1) by linarith
  have d: "unat ?d < 65536" using unat_u16_less [of d] by (simp add: unat_ucast_16)
  have dm: "unat ?d = unat d" by (rule unat_ucast_16)
  let ?n = "SPIFFS_OBJ_IX_ENTRY_SPAN_IX cfg ?d"
  have n: "unat ?n = (if unat ?d < ?H then 0 else 1 + (unat ?d - ?H) div ?I)"
  proof (cases "unat ?d < ?H")
    case False
    then have s: "unat (?d - SPIFFS_OBJ_HDR_IX_LEN cfg) = unat ?d - ?H" by (simp add: unat_sub_no_wrap)
    have "(unat ?d - ?H) div ?I \<le> unat ?d - ?H" by (rule div_le_dividend)
    then have "(unat ?d - ?H) div ?I < 65536" using d by linarith
    then have "unat (1 + (?d - SPIFFS_OBJ_HDR_IX_LEN cfg) div SPIFFS_OBJ_IX_LEN cfg) = 1 + (unat ?d - ?H) div ?I"
      using d s by (subst unat_add_no_wrap) (simp_all add: unat_div)
    then show ?thesis using False by (simp add: SPIFFS_OBJ_IX_ENTRY_SPAN_IX_def word_less_nat_alt)
  qed (simp add: SPIFFS_OBJ_IX_ENTRY_SPAN_IX_def word_less_nat_alt)
  have "(unat ?d - ?H) div ?I \<le> 65536 div 29"
    using d I by (intro div_le_mono2 [THEN order_trans, OF _ _ div_le_mono]) auto
  then have nb: "unat ?n < 65535" unfolding n by simp
  then have u: "unat (ix_span cfg d) = unat ?n"
    by (simp add: ix_span_def unsigned_ucast_eq take_bit_nat_eq_self)
  show "unat (ix_span cfg d) < 65535" using nb u by simp
  have z: "ix_span cfg d = 0 \<longleftrightarrow> unat ?d < ?H" using u n by (auto simp: unat_eq_0 [symmetric] simp del: unat_eq_0 split: if_splits)
  show "ix_slot cfg (ix_span cfg d) d + 2 \<le> psz cfg"
  proof (cases "unat ?d < ?H")
    case True
    then have "44 + 2 * unat d + 2 \<le> psz cfg" using p unfolding unat_ix_len dm by presburger
    then show ?thesis using True z by (simp add: ix_slot_def)
  next
    case False
    then have "SPIFFS_OBJ_IX_ENTRY cfg ?d = (?d - SPIFFS_OBJ_HDR_IX_LEN cfg) mod SPIFFS_OBJ_IX_LEN cfg"
      by (simp add: SPIFFS_OBJ_IX_ENTRY_def word_less_nat_alt)
    then have "unat (SPIFFS_OBJ_IX_ENTRY cfg ?d) < ?I" using I by (simp add: unat_mod)
    then have "6 + 2 * unat (SPIFFS_OBJ_IX_ENTRY cfg ?d) + 2 \<le> psz cfg" using p unfolding unat_ix_len by presburger
    then show ?thesis using False z by (simp add: ix_slot_def)
  qed
qed

end

section \<open>Reading one page\<close>

text \<open>What reading changes apart from the flash: the work buffer, the search cursor, and the cursor fields
  of the descriptor.\<close>

definition read_frame :: "nat \<Rightarrow> 'd spiffs \<Rightarrow> 'd spiffs \<Rightarrow> bool" where
  "read_frame f p p' \<longleftrightarrow> (\<exists>w b e k x s. p' = p\<lparr>work := w, cursor_block_ix := b, cursor_obj_lu_entry := e,
     fd_space := (fd_space p)[f := (fd_space p ! f)\<lparr>fd_offset := k, cursor_objix_pix := x, cursor_objix_spix := s\<rparr>]\<rparr>)"

lemma read_frame_refl: "read_frame f p p"
  unfolding read_frame_def
  by (intro exI [of _ "work p"] exI [of _ "cursor_block_ix p"] exI [of _ "cursor_obj_lu_entry p"]
      exI [of _ "fd_offset (fd_space p ! f)"] exI [of _ "cursor_objix_pix (fd_space p ! f)"]
      exI [of _ "cursor_objix_spix (fd_space p ! f)"]) simp

lemma read_frame_trans:
  assumes "f < length (fd_space p)" "read_frame f p p1" "read_frame f p1 p2"
  shows "read_frame f p p2"
  using assms unfolding read_frame_def by (elim exE) (simp, blast)

lemma read_frame_fd:
  assumes "f < length (fd_space p)" "read_frame f p p'"
  shows "objix_hdr_pix (fd_space p' ! f) = objix_hdr_pix (fd_space p ! f)"
    "fd_obj_id (fd_space p' ! f) = fd_obj_id (fd_space p ! f)" "fd_size (fd_space p' ! f) = fd_size (fd_space p ! f)"
    "file_nbr (fd_space p' ! f) = file_nbr (fd_space p ! f)" "length (fd_space p') = length (fd_space p)"
    "fdoffset (fd_space p' ! f) = fdoffset (fd_space p ! f)"
  using assms by (auto simp: read_frame_def)

lemma read_frame_work: "read_frame f p (p\<lparr>work := w\<rparr>)"
  unfolding read_frame_def
  by (intro exI [of _ w] exI [of _ "cursor_block_ix p"] exI [of _ "cursor_obj_lu_entry p"]
      exI [of _ "fd_offset (fd_space p ! f)"] exI [of _ "cursor_objix_pix (fd_space p ! f)"]
      exI [of _ "cursor_objix_spix (fd_space p ! f)"]) simp

lemma read_frame_cursor: "read_frame f p (p\<lparr>cursor_block_ix := b, cursor_obj_lu_entry := e\<rparr>)"
  unfolding read_frame_def
  by (intro exI [of _ "work p"] exI [of _ b] exI [of _ e]
      exI [of _ "fd_offset (fd_space p ! f)"] exI [of _ "cursor_objix_pix (fd_space p ! f)"]
      exI [of _ "cursor_objix_spix (fd_space p ! f)"]) simp

lemma index_page_cong:
  "objix_hdr_pix fd' = objix_hdr_pix fd \<Longrightarrow> fd_obj_id fd' = fd_obj_id fd \<Longrightarrow>
   index_page conf m fd' s b e = index_page conf m fd s b e"
  by (simp only: index_page_def)

lemma stores_cong:
  "objix_hdr_pix fd' = objix_hdr_pix fd \<Longrightarrow> fd_obj_id fd' = fd_obj_id fd \<Longrightarrow> fd_size fd' = fd_size fd \<Longrightarrow>
   stores conf m fd' bytes = stores conf m fd bytes"
  by (simp only: stores_def data_page_def index_page_def)

context spiffs_flash
begin

lemma entry_not_lookup:
  assumes "b < blks conf" "e < ents conf"
  shows "\<not> ucast (word_of_nat (entry_page b e) :: u16) mod SPIFFS_PAGES_PER_BLOCK conf < SPIFFS_OBJ_LOOKUP_PAGES conf"
    "\<not> ucast (word_of_nat (entry_page b e) :: u16) > SPIFFS_MAX_PAGES conf" "(word_of_nat (entry_page b e) :: u16) \<noteq> - 1"
proof -
  have lt: "entry_page b e < blks conf * ppb conf" by (rule entry_page_less [OF assms])
  moreover have "blks conf * ppb conf \<le> 65535" using geometry_facts(7) [OF g] by simp
  ultimately have w: "entry_page b e < 65535" by simp
  have up: "unat (ucast (word_of_nat (entry_page b e) :: u16) :: u32) = entry_page b e"
    using w by (simp add: unat_ucast_16 unat_of_nat)
  have le: "lups conf + e < ppb conf" using assms(2) geometry_facts(10) [OF g] by (simp add: ents_def)
  show "\<not> ucast (word_of_nat (entry_page b e) :: u16) mod SPIFFS_PAGES_PER_BLOCK conf < SPIFFS_OBJ_LOOKUP_PAGES conf"
    using le by (simp add: word_less_nat_alt unat_mod up unat_pages_per_block unat_lookup_pages)
      (simp add: page_of_entry_def)
  show "\<not> ucast (word_of_nat (entry_page b e) :: u16) > SPIFFS_MAX_PAGES conf"
    using lt by (simp add: word_less_nat_alt up unat_max_pages)
  show "(word_of_nat (entry_page b e) :: u16) \<noteq> - 1"
  proof
    assume "(word_of_nat (entry_page b e) :: u16) = - 1"
    then have "unat (word_of_nat (entry_page b e) :: u16) = unat (- 1 :: u16)" by (rule arg_cong)
    then show False using w by (simp add: unat_of_nat unsigned_minus_1_eq_mask mask_eq_exp_minus_1)
  qed
qed

lemma page_data_check_ok:
  assumes m: "matches m p fs" and be: "b < blks conf" "e < ents conf" and t: "ticks fs < 2 ^ 32 - 1"
  shows "\<exists>fs'. spiffs_page_data_check fs fd (word_of_nat (entry_page b e)) spix =
      Some (SPIFFS_VALIDATE_DATA (header_of conf m b e) (fd_obj_id fd AND NOT SPIFFS_OBJ_ID_IX_FLAG) spix, fs') \<and>
    matches m p fs' \<and> ticks fs' = ticks fs + 1"
proof -
  have five: "unat sizeof_page_header \<le> psz conf" using geometry_facts(1) [OF g] by simp
  from read_page_head_ok [OF m be t entry_addrs(3) [OF be] five, of "SPIFFS_OP_T_OBJ_DA OR SPIFFS_OP_C_READ" "file_nbr fd"]
  obtain fs' where r: "spiffs_phys_rd fs (SPIFFS_OP_T_OBJ_DA OR SPIFFS_OP_C_READ) (file_nbr fd)
      (SPIFFS_PAGE_TO_PADDR conf (ucast (word_of_nat (entry_page b e) :: u16))) sizeof_page_header =
      Some (0, take 5 (content m b e), fs')" and m': "matches m p fs'" "ticks fs' = ticks fs + 1" by auto
  have "spiffs_page_data_check fs fd (word_of_nat (entry_page b e)) spix =
      Some (SPIFFS_VALIDATE_DATA (header_of conf m b e) (fd_obj_id fd AND NOT SPIFFS_OBJ_ID_IX_FLAG) spix, fs')"
    unfolding spiffs_page_data_check_def matches_fields(1) [OF m]
    using entry_not_lookup [OF be] r by (simp add: SPIFFS_OK_def get_page_header_take header_of_def Let_def)
  then show ?thesis using m' by blast
qed

lemma load_index_page_ok:
  assumes m: "matches m p fs" and be: "b < blks conf" "e < ents conf" and t: "ticks fs < 2 ^ 32 - 1"
    and v: "SPIFFS_VALIDATE_OBJIX (header_of conf m b e) (fd_obj_id (fd_space p ! f)) s = SPIFFS_OK"
  shows "\<exists>fs'. load_index_page fs f (word_of_nat (entry_page b e)) s = Some (0, fs') \<and>
    matches m (p\<lparr>work := content m b e\<rparr>) fs' \<and> ticks fs' = ticks fs + 1"
proof -
  have len: "unat (log_page_size conf) \<le> psz conf" by (simp add: psz_def)
  from read_page_head_ok [OF m be t entry_addrs(3) [OF be] len, of "SPIFFS_OP_T_OBJ_IX OR SPIFFS_OP_C_READ"
      "file_nbr (fd_space fs ! f)"]
  obtain fs1 where r: "spiffs_phys_rd fs (SPIFFS_OP_T_OBJ_IX OR SPIFFS_OP_C_READ) (file_nbr (fd_space fs ! f))
      (SPIFFS_PAGE_TO_PADDR conf (ucast (word_of_nat (entry_page b e) :: u16))) (log_page_size conf) =
      Some (0, content m b e, fs1)" and m1: "matches m p fs1" "ticks fs1 = ticks fs + 1"
    by (auto simp: psz_def [symmetric])
  define fs2 where "fs2 = fs1\<lparr>work := content m b e\<rparr>"
  have m2: "matches m (p\<lparr>work := content m b e\<rparr>) fs2" unfolding fs2_def by (rule matches_updates(8) [OF m1(1)])
  have "fd_space fs1 = fd_space p" by (rule matches_frame(6) [OF m1(1)])
  then have "load_index_page fs f (word_of_nat (entry_page b e)) s = Some (0, fs2)"
    unfolding load_index_page_def matches_fields(1) [OF m] using r v
    by (simp add: fs2_def Let_def SPIFFS_OK_def header_of_def)
  moreover have "ticks fs2 = ticks fs + 1" using m1(2) by (simp add: fs2_def)
  ultimately show ?thesis using m2 by blast
qed

lemma index_page_unique:
  assumes "index_page conf m fd s b e" "index_page conf m fd s b' e'"
  shows "(b, e) = (b', e')"
proof (cases "s = 0")
  case True
  have be: "b < blks conf" "e < ents conf" "b' < blks conf" "e' < ents conf" using assms by (simp_all add: index_page_def)
  have "(word_of_nat (entry_page b e) :: u16) = word_of_nat (entry_page b' e')"
    using assms True by (simp add: index_page_def)
  then have "unat (word_of_nat (entry_page b e) :: u16) = unat (word_of_nat (entry_page b' e') :: u16)" by simp
  then have "entry_page b e = entry_page b' e'"
    using entry_words(5) [OF be(1,2)] entry_words(5) [OF be(3,4)] by (simp add: unat_u16_of_nat)
  then show ?thesis using entry_page_inject [OF be(2,4)] by simp
next
  case False
  have "b' < blks conf" "e' < ents conf" using assms(2) by (simp_all add: index_page_def)
  then show ?thesis using assms False unfolding index_page_def by (metis (no_types, lifting))
qed

lemma read_switch_ok:
  assumes m: "matches m p fs" and f: "f < length (fd_space p)" and c: "unat (cursor_block_ix p) < blks conf"
    and ix: "index_page conf m (fd_space p ! f) s ib ie"
    and pre: "rd_prev_spix L = s \<longrightarrow> work p = content m ib ie"
    and t: "ticks fs + search_cost 1 + 1 < 2 ^ 32 - 1"
  shows "\<exists>p' fs'. read_switch_index f s L fs = Some (SPIFFS_OK, fs') \<and> matches m p' fs' \<and> read_frame f p p' \<and>
    work p' = content m ib ie \<and> unat (cursor_block_ix p') < blks conf \<and> ticks fs' \<le> ticks fs + search_cost 1 + 1"
proof (cases "rd_prev_spix L = s")
  case True
  then have "read_switch_index f s L fs = Some (SPIFFS_OK, fs)" by (simp add: read_switch_index_def)
  then show ?thesis using m pre True c read_frame_refl by (intro exI [of _ p] exI [of _ fs]) simp
next
  case False
  let ?fd = "fd_space p ! f"
  let ?pix = "word_of_nat (entry_page ib ie) :: u16"
  have ibe: "ib < blks conf" "ie < ents conf"
    and v: "SPIFFS_VALIDATE_OBJIX (header_of conf m ib ie) (fd_obj_id ?fd) s = SPIFFS_OK"
    using ix by (simp_all add: index_page_def)
  have fsp: "fd_space fs = fd_space p" by (rule matches_frame(6) [OF m])
  have "\<exists>p1 fs1. (if s = 0 then Some (SPIFFS_OK, objix_hdr_pix (fd_space fs ! f), fs)
      else spiffs_obj_lu_find_id_and_span fs (fd_obj_id (fd_space fs ! f) OR SPIFFS_OBJ_ID_IX_FLAG) s 0) =
        Some (SPIFFS_OK, ?pix, fs1) \<and> matches m p1 fs1 \<and> read_frame f p p1 \<and> unat (cursor_block_ix p1) < blks conf \<and>
      fd_space p1 = fd_space p \<and> ticks fs1 \<le> ticks fs + search_cost 1"
  proof (cases "s = 0")
    case True
    then have "objix_hdr_pix ?fd = ?pix" using ix by (simp add: index_page_def)
    then show ?thesis using True m c fsp read_frame_refl by (intro exI [of _ p] exI [of _ fs]) simp
  next
    case s: False
    let ?oid = "fd_obj_id ?fd OR SPIFFS_OBJ_ID_IX_FLAG"
    have ck: "id_checked conf SPIFFS_VIS_CHECK_ID m ?oid b e \<longleftrightarrow> lu_id conf m b e = ?oid" for b e
      by (simp add: id_checked_def SPIFFS_VIS_CHECK_ID_def SPIFFS_VIS_CHECK_PH_def)
    have only: "lu_id conf m b e = ?oid \<and> span_page conf m ?oid s None b e \<longleftrightarrow> (b, e) = (ib, ie)"
      if "b < blks conf" "e < ents conf" for b e
      using ix s that by (simp add: index_page_def)
    have t1: "ticks fs + search_cost 1 < 2 ^ 32 - 1" using t by simp
    from find_id_and_span_ok [OF m c t1, of SPIFFS_VIS_CHECK_ID ?oid s 0] only ibe
    obtain b e fs1 where be: "b < blks conf" "e < ents conf" "lu_id conf m b e = ?oid" "span_page conf m ?oid s None b e"
      and r: "find_id_and_span_with SPIFFS_VIS_CHECK_ID fs ?oid s 0 = Some (SPIFFS_OK, word_of_nat (entry_page b e), fs1)"
      and m1: "matches m (p\<lparr>cursor_block_ix := word_of_nat b, cursor_obj_lu_entry := e\<rparr>) fs1"
        "ticks fs1 \<le> ticks fs + search_cost 1"
      unfolding ck by auto
    have eq: "b = ib" "e = ie" using only [OF be(1,2)] be(3,4) by simp_all
    have "unat (word_of_nat b :: u16) < blks conf" using be(1) blks_bound by (simp add: unat_of_nat)
    then show ?thesis using r m1 s fsp read_frame_cursor eq
      by (intro exI [of _ "p\<lparr>cursor_block_ix := word_of_nat b, cursor_obj_lu_entry := e\<rparr>"] exI [of _ fs1])
        (simp add: spiffs_obj_lu_find_id_and_span_def)
  qed
  then obtain p1 fs1 where r1: "(if s = 0 then Some (SPIFFS_OK, objix_hdr_pix (fd_space fs ! f), fs)
      else spiffs_obj_lu_find_id_and_span fs (fd_obj_id (fd_space fs ! f) OR SPIFFS_OBJ_ID_IX_FLAG) s 0) =
        Some (SPIFFS_OK, ?pix, fs1)" and m1: "matches m p1 fs1" and f1: "read_frame f p p1"
    and c1: "unat (cursor_block_ix p1) < blks conf" and s1: "fd_space p1 = fd_space p"
    and t1: "ticks fs1 \<le> ticks fs + search_cost 1" by blast
  have "ticks fs1 < 2 ^ 32 - 1" using t t1 by linarith
  from load_index_page_ok [OF m1 ibe this, of f s] v s1 obtain fs2 where
    r2: "load_index_page fs1 f ?pix s = Some (0, fs2)" and m2: "matches m (p1\<lparr>work := content m ib ie\<rparr>) fs2"
    and t2: "ticks fs2 = ticks fs1 + 1" by auto
  let ?g = "\<lambda>fd. fd\<lparr>fd_offset := rd_offset L, cursor_objix_pix := ?pix, cursor_objix_spix := s\<rparr>"
  define p3 where "p3 = fd_update f ?g (p1\<lparr>work := content m ib ie\<rparr>)"
  have sp2: "fd_space fs2 = fd_space p1" using matches_frame(6) [OF m2] by simp
  have m3: "matches m p3 (fd_update f ?g fs2)"
    unfolding p3_def fd_update_def sp2 using matches_updates(9) [OF m2] by simp
  have "read_frame f p1 p3" unfolding read_frame_def p3_def fd_update_def
    by (intro exI [of _ "content m ib ie"] exI [of _ "cursor_block_ix p1"] exI [of _ "cursor_obj_lu_entry p1"]
      exI [of _ "rd_offset L"] exI [of _ ?pix] exI [of _ s]) simp
  from read_frame_trans [OF f f1 this] have f3: "read_frame f p p3" .
  have "read_switch_index f s L fs = Some (SPIFFS_OK, fd_update f ?g fs2)"
    unfolding read_switch_index_def using False r1 r2 by (simp add: SPIFFS_OK_def)
  moreover have "work p3 = content m ib ie" "unat (cursor_block_ix p3) < blks conf"
    using c1 by (simp_all add: p3_def fd_update_def)
  moreover have "ticks (fd_update f ?g fs2) \<le> ticks fs + search_cost 1 + 1"
    using t1 t2 by (simp add: fd_update_def)
  ultimately show ?thesis using m3 f3 by blast
qed


text \<open>One turn of the read loop, at offset \<open>k\<close> of the file.\<close>

definition read_inv :: "(nat \<Rightarrow> u8) \<Rightarrow> nat \<Rightarrow> nat \<Rightarrow> u8 list \<Rightarrow> nat \<Rightarrow> nat \<Rightarrow> read_walk \<Rightarrow> 'd spiffs \<Rightarrow> bool" where
  "read_inv m f k0 bytes k fin L p \<longleftrightarrow> f < length (fd_space p) \<and> stores conf m (fd_space p ! f) bytes \<and>
     unat (cursor_block_ix p) < blks conf \<and> k0 \<le> k \<and> k \<le> fin \<and> fin \<le> length bytes \<and>
     rd_offset L = word_of_nat k \<and> (k < fin \<longrightarrow> rd_data_spix L = word_of_nat (k div dps conf)) \<and>
     rd_bytes L = slice k0 (k - k0) bytes \<and> (k mod dps conf = 0 \<or> k = k0 \<or> k = fin) \<and>
     (\<forall>s b e. rd_prev_spix L = s \<and> s \<noteq> - 1 \<and> index_page conf m (fd_space p ! f) s b e \<longrightarrow> work p = content m b e)"

lemma slice_append: "slice a n xs @ slice (a + n) n' xs = slice a (n + n') xs"
  by (simp add: slice_def take_add add.commute)

lemma file_bounds:
  assumes "length bytes \<le> blks conf * ppb conf * dps conf"
  shows "length bytes < 2 ^ 32" "k < length bytes \<Longrightarrow> k div dps conf < 65535"
proof -
  have "dps conf \<le> psz conf" by (simp add: dps_def)
  then have "blks conf * ppb conf * dps conf \<le> blks conf * ppb conf * psz conf" by simp
  also have "\<dots> = unat (phys_size conf)" by (rule phys_size_pages [symmetric])
  also have "\<dots> < 2 ^ 32" using unat_u32_less [of "phys_size conf"] by simp
  finally show "length bytes < 2 ^ 32" using assms by linarith
  assume "k < length bytes"
  then have "k < blks conf * ppb conf * dps conf" using assms by simp
  then have "k div dps conf < blks conf * ppb conf" using dps_pos by (simp add: div_less_iff_less_mult)
  then show "k div dps conf < 65535" using geometry_facts(7) [OF g] by simp
qed

lemma read_step_ok:
  assumes m: "matches m p fs" and inv: "read_inv m f k0 bytes k fin L p" and lt: "k < fin"
    and t: "ticks fs + search_cost 1 + 3 < 2 ^ 32 - 1"
  shows "\<exists>p' fs' L' k'. read_step f (word_of_nat fin) L fs = Some (Next, L', fs') \<and> matches m p' fs' \<and>
    read_frame f p p' \<and> read_inv m f k0 bytes k' fin L' p' \<and> k < k' \<and> ticks fs' \<le> ticks fs + search_cost 1 + 3"
proof -
  let ?fd = "fd_space p ! f"
  let ?d = "k div dps conf" and ?i = "k mod dps conf"
  let ?w = "word_of_nat ?d :: u16"
  let ?s = "ix_span conf ?w"
  define n where "n = min (fin - k) (dps conf - ?i)"
  have f: "f < length (fd_space p)" and st: "stores conf m ?fd bytes" and c: "unat (cursor_block_ix p) < blks conf"
    and ks: "k0 \<le> k" "fin \<le> length bytes" and off: "rd_offset L = word_of_nat k"
    and dsp: "rd_data_spix L = ?w" and rb: "rd_bytes L = slice k0 (k - k0) bytes"
    and wk: "\<And>b e. rd_prev_spix L = ?s \<Longrightarrow> ?s \<noteq> - 1 \<Longrightarrow> index_page conf m ?fd ?s b e \<Longrightarrow> work p = content m b e"
    using inv lt by (auto simp: read_inv_def)
  have len: "length bytes \<le> blks conf * ppb conf * dps conf" and sz: "fd_size ?fd = word_of_nat (length bytes)"
    using st by (simp_all add: stores_def)
  have kl: "k < length bytes" using lt ks by simp
  note fb = file_bounds(1) [OF len] file_bounds(2) [OF len kl]
  have dk: "?d * dps conf + ?i = k" by simp
  have i: "?i < dps conf" using dps_pos by simp
  have n: "0 < n" "k + n \<le> fin" "?i + n \<le> dps conf" using lt i by (auto simp: n_def min_def)
  have "?d * dps conf < length bytes" using dk kl by linarith
  then obtain ib ie b e where ip: "index_page conf m ?fd ?s ib ie" and dp: "data_page conf m ?fd bytes ?d b e"
    and ref: "get16 (content m ib ie) (ix_slot conf ?s ?w) = word_of_nat (entry_page b e)"
    using st by (auto simp: stores_def)
  have be: "b < blks conf" "e < ents conf"
    and v: "SPIFFS_VALIDATE_DATA (header_of conf m b e) (fd_obj_id ?fd AND NOT SPIFFS_OBJ_ID_IX_FLAG) ?w = SPIFFS_OK"
    and db: "\<And>i. i < dps conf \<Longrightarrow> ?d * dps conf + i < length bytes \<Longrightarrow> content m b e ! (5 + i) = bytes ! (?d * dps conf + i)"
    using dp by (auto simp: data_page_def)
  have sp: "?s \<noteq> - 1"
  proof
    assume "?s = - 1"
    then have "unat ?s = 65535" by (simp add: unsigned_minus_1_eq_mask mask_eq_exp_minus_1)
    then show False using ix_span_bound [of ?w] by simp
  qed
  have "ticks fs + search_cost 1 + 1 < 2 ^ 32 - 1" using t by simp
  from read_switch_ok [OF m f c ip _ this] wk [OF _ sp ip] obtain p1 fs1 where
    r1: "read_switch_index f ?s L fs = Some (SPIFFS_OK, fs1)" and m1: "matches m p1 fs1" and f1: "read_frame f p p1"
    and w1: "work p1 = content m ib ie" and c1: "unat (cursor_block_ix p1) < blks conf"
    and t1: "ticks fs1 \<le> ticks fs + search_cost 1 + 1" by blast
  note fd1 = read_frame_fd [OF f f1]
  have sfs1: "fd_space fs1 = fd_space p1" "work fs1 = work p1" using matches_frame [OF m1] by simp_all
  have gx: "get_ix fs1 ?s ?w = Some (word_of_nat (entry_page b e))"
    using ix_slot_bound [of ?w] ref by (simp add: get_ix_def matches_fields(1) [OF m1] sfs1 w1 Let_def)
  have u: "unat (word_of_nat k :: u32) = k" "unat (word_of_nat fin :: u32) = fin"
    "unat (word_of_nat (length bytes) :: u32) = length bytes"
    using fb(1) kl ks by (simp_all add: unat_word_of_nat_u32)
  have inpg: "unat (word_of_nat k mod SPIFFS_DATA_PAGE_SIZE conf :: u32) = ?i" by (simp add: unat_mod u unat_dps)
  let ?len = "min (min (word_of_nat fin - word_of_nat k) (SPIFFS_DATA_PAGE_SIZE conf - word_of_nat k mod SPIFFS_DATA_PAGE_SIZE conf))
      (word_of_nat (length bytes)) :: u32"
  have ulen: "unat ?len = n"
  proof -
    have um: "unat (min x y) = min (unat x) (unat y)" for x y :: u32 by (simp add: min_def word_le_nat_alt)
    have "unat (word_of_nat fin - word_of_nat k :: u32) = fin - k" using lt by (subst unat_sub_no_wrap) (simp_all add: u)
    moreover have "unat (SPIFFS_DATA_PAGE_SIZE conf - word_of_nat k mod SPIFFS_DATA_PAGE_SIZE conf) = dps conf - ?i"
      using i by (subst unat_sub_no_wrap) (unfold inpg unat_dps, simp_all)
    ultimately show ?thesis unfolding um u n_def using lt ks by simp
  qed
  then have lw: "?len = word_of_nat n" by (simp flip: ulen)
  have lne: "?len \<noteq> 0" using ulen n(1) by (metis unat_0 less_irrefl)
  have "ticks fs1 < 2 ^ 32 - 1" using t t1 by linarith
  from page_data_check_ok [OF m1 be this, of "fd_space p1 ! f" ?w] v obtain fs2 where
    r2: "spiffs_page_data_check fs1 (fd_space p1 ! f) (word_of_nat (entry_page b e)) ?w = Some (SPIFFS_OK, fs2)"
    and m2: "matches m p1 fs2" and t2: "ticks fs2 = ticks fs1 + 1" unfolding fd1 by auto
  let ?addr = "SPIFFS_PAGE_TO_PADDR conf (ucast (word_of_nat (entry_page b e) :: u16)) + sizeof_page_header +
      word_of_nat k mod SPIFFS_DATA_PAGE_SIZE conf"
  have dz: "dps conf + 5 = psz conf" using geometry_facts(1) [OF g] by (simp add: dps_def)
  have a: "unat ?addr = page_addr (entry_page b e) + (5 + ?i)"
  proof -
    have "unat (5 + word_of_nat k mod SPIFFS_DATA_PAGE_SIZE conf :: u32) = 5 + ?i"
      using i dz unat_u32_less [of "log_page_size conf"] by (subst unat_add_no_wrap) (simp_all add: inpg psz_def [symmetric])
    then show ?thesis
      using unat_page_off [OF be entry_addrs(3) [OF be], of "5 + word_of_nat k mod SPIFFS_DATA_PAGE_SIZE conf"] i dz
      by (simp add: sizeof_simps add.assoc)
  qed
  have "5 + ?i < psz conf" "5 + ?i + unat ?len \<le> psz conf" unfolding ulen using i dz n(3) by linarith+
  moreover have "ticks fs2 < 2 ^ 32 - 1" using t t1 t2 by linarith
  ultimately obtain fs3 where
    r3: "spiffs_phys_rd fs2 (SPIFFS_OP_T_OBJ_DA OR SPIFFS_OP_C_READ) (file_nbr (fd_space p1 ! f)) ?addr ?len =
      Some (0, slice (5 + ?i) n (content m b e), fs3)" and m3: "matches m p1 fs3" "ticks fs3 = ticks fs2 + 1"
    using read_page_ok [OF m2 be _ a, of ?len] unfolding ulen by blast
  have sl: "slice (5 + ?i) n (content m b e) = slice k n bytes"
  proof (rule nth_equalityI)
    show "length (slice (5 + ?i) n (content m b e)) = length (slice k n bytes)" using n ks dz by simp
    fix j assume "j < length (slice (5 + ?i) n (content m b e))"
    then have j: "j < n" using n dz by simp
    have "content m b e ! (5 + (?i + j)) = bytes ! (?d * dps conf + (?i + j))"
      using j n ks dk by (intro db) linarith+
    moreover have "?d * dps conf + (?i + j) = k + j" using dk by simp
    ultimately show "slice (5 + ?i) n (content m b e) ! j = slice k n bytes ! j"
      using j n ks dz by (simp add: nth_slice add.assoc)
  qed
  let ?L = "L\<lparr>rd_prev_spix := ?s, rd_bytes := rd_bytes L @ slice k n bytes, rd_offset := word_of_nat (k + n),
    rd_data_spix := ?w + 1\<rparr>"
  let ?g = "\<lambda>fd. fd\<lparr>fd_offset := word_of_nat (k + n)\<rparr>"
  define p4 where "p4 = fd_update f ?g p1"
  have sfs: "fd_space fs2 = fd_space p1" "fd_space fs3 = fd_space p1"
    using matches_frame(6) [OF m2] matches_frame(6) [OF m3(1)] by simp_all
  have m4: "matches m p4 (fd_update f ?g fs3)"
    unfolding p4_def fd_update_def sfs using matches_updates(9) [OF m3(1)] by simp
  have f4: "read_frame f p1 p4" unfolding read_frame_def p4_def fd_update_def
    by (intro exI [of _ "work p1"] exI [of _ "cursor_block_ix p1"] exI [of _ "cursor_obj_lu_entry p1"]
      exI [of _ "word_of_nat (k + n)"] exI [of _ "cursor_objix_pix (fd_space p1 ! f)"]
      exI [of _ "cursor_objix_spix (fd_space p1 ! f)"]) simp
  from read_frame_trans [OF f f1 f4] have f14: "read_frame f p p4" .
  have len1: "f < length (fd_space p1)" using f fd1(5) by simp
  note fd4 = read_frame_fd [OF f f14]
  have rs: "read_step f (word_of_nat fin) L fs = Some (Next, ?L, fd_update f ?g fs3)"
  proof -
    have cf: "cfg fs = conf" "cfg fs1 = conf" "cfg fs2 = conf"
      using matches_fields(1) [OF m] matches_fields(1) [OF m1] matches_fields(1) [OF m2] by simp_all
    have szf: "fd_size (fd_space p1 ! f) = word_of_nat (length bytes)" using fd1(3) sz by simp
    have e1: "(word_of_nat k + ?len :: u32) = word_of_nat (k + n)" unfolding lw by simp
    show ?thesis unfolding read_step_def cf dsp ix_span_def [symmetric] Let_def r1 bind.bind_lunit prod.case
      using lne r2 r3 by (simp add: gx cf off dsp sfs1(1) szf sl SPIFFS_OK_def sfs e1 [simplified] cong: if_cong)
  qed
  have "read_inv m f k0 bytes (k + n) fin ?L p4"
  proof -
    have "stores conf m (fd_space p4 ! f) bytes" using st unfolding stores_cong [OF fd4(1-3)] .
    moreover have "rd_bytes L @ slice k n bytes = slice k0 (k + n - k0) bytes"
      using slice_append [of k0 "k - k0" bytes n] ks(1) by (simp add: rb add.commute)
    moreover have md: "(k + n) mod dps conf = 0 \<or> k + n = fin"
    proof (cases "n = fin - k")
      case False
      then have "n = dps conf - ?i" by (auto simp: n_def min_def split: if_splits)
      then have "k + n = (?d + 1) * dps conf" unfolding distrib_right mult_1 using dk i by linarith
      then show ?thesis by simp
    qed (use lt in simp)
    moreover have "?w + 1 = word_of_nat ((k + n) div dps conf)" if "k + n < fin"
    proof -
      have "n = dps conf - ?i" using that by (auto simp: n_def min_def split: if_splits)
      then have "k + n = (?d + 1) * dps conf" unfolding distrib_right mult_1 using dk i by linarith
      then have "(k + n) div dps conf = ?d + 1" using dps_pos by simp
      then show ?thesis by simp
    qed
    moreover have "work p4 = content m b' e'" if "index_page conf m (fd_space p4 ! f) ?s b' e'" for b' e'
    proof -
      have "index_page conf m ?fd ?s b' e'" using that unfolding index_page_cong [OF fd4(1,2)] .
      from index_page_unique [OF this ip] w1 show ?thesis by (simp add: p4_def fd_update_def)
    qed
    ultimately show ?thesis using f c1 ks n fd4(5) by (auto simp: read_inv_def p4_def fd_update_def)
  qed
  moreover have "ticks (fd_update f ?g fs3) \<le> ticks fs + search_cost 1 + 3"
    using t1 t2 m3(2) by (simp add: fd_update_def)
  ultimately show ?thesis using rs m4 f14 n(1) by (intro exI [of _ p4] exI [of _ "fd_update f ?g fs3"] exI [of _ ?L] exI [of _ "k + n"]) simp
qed


lemma read_loop_ok:
  assumes "matches m p fs" "read_inv m f k0 bytes k fin L p"
    and "ticks fs + (fin - k) * (search_cost 1 + 3) < 2 ^ 32 - 1"
  shows "\<exists>p' fs' L'. read_loop f (word_of_nat fin) L fs = Some (SPIFFS_OK, L', fs') \<and> matches m p' fs' \<and>
    read_frame f p p' \<and> rd_bytes L' = slice k0 (fin - k0) bytes \<and> unat (cursor_block_ix p') < blks conf \<and>
    ticks fs' \<le> ticks fs + (fin - k) * (search_cost 1 + 3)"
  using assms
proof (induction "fin - k" arbitrary: k p fs L rule: less_induct)
  case less
  note m = less.prems(1) and inv = less.prems(2) and t = less.prems(3)
  let ?c = "search_cost 1 + 3"
  have kf: "k \<le> fin" "fin \<le> length bytes" "rd_offset L = word_of_nat k" "f < length (fd_space p)"
    "stores conf m (fd_space p ! f) bytes"
    using inv by (simp_all add: read_inv_def)
  have "length bytes \<le> blks conf * ppb conf * dps conf" using kf(5) by (simp add: stores_def)
  from file_bounds(1) [OF this] have fb: "length bytes < 2 ^ 32" .
  have u: "unat (word_of_nat k :: u32) = k" "unat (word_of_nat fin :: u32) = fin"
    using fb kf by (simp_all add: unat_word_of_nat_u32)
  have cond: "rd_offset L < word_of_nat fin \<longleftrightarrow> k < fin" by (simp add: kf(3) word_less_nat_alt u)
  show ?case
  proof (cases "k < fin")
    case False
    then have "k = fin" using kf(1) by simp
    moreover have "read_loop f (word_of_nat fin) L fs = Some (SPIFFS_OK, L, fs)"
      using False cond by (subst read_loop.simps) simp
    ultimately show ?thesis using m inv read_frame_refl by (auto simp: read_inv_def)
  next
    case True
    have "Suc (fin - Suc k) = fin - k" using True by simp
    then have cs: "?c + (fin - Suc k) * ?c = (fin - k) * ?c" by (metis mult_Suc)
    have t1: "ticks fs + search_cost 1 + 3 < 2 ^ 32 - 1" using t cs by linarith
    from read_step_ok [OF m inv True t1] obtain p1 fs1 L1 k1 where
      st: "read_step f (word_of_nat fin) L fs = Some (Next, L1, fs1)" and m1: "matches m p1 fs1" and f1: "read_frame f p p1"
      and i1: "read_inv m f k0 bytes k1 fin L1 p1" and k1: "k < k1" and tk: "ticks fs1 \<le> ticks fs + search_cost 1 + 3"
      by blast
    have "(fin - k1) * ?c \<le> (fin - Suc k) * ?c" using k1 by (intro mult_le_mono1) simp
    then have cs1: "?c + (fin - k1) * ?c \<le> (fin - k) * ?c" using cs by linarith
    have t2: "ticks fs1 + (fin - k1) * ?c < 2 ^ 32 - 1" using t tk cs1 by linarith
    have "fin - k1 < fin - k" using k1 True by simp
    from less.hyps [OF this m1 i1 t2] obtain p2 fs2 L2 where
      r: "read_loop f (word_of_nat fin) L1 fs1 = Some (SPIFFS_OK, L2, fs2)" and m2: "matches m p2 fs2"
      and f2: "read_frame f p1 p2" and rb: "rd_bytes L2 = slice k0 (fin - k0) bytes"
      and c2: "unat (cursor_block_ix p2) < blks conf" and tk2: "ticks fs2 \<le> ticks fs1 + (fin - k1) * ?c" by blast
    have "read_loop f (word_of_nat fin) L fs = Some (SPIFFS_OK, L2, fs2)"
      using True cond st r by (subst read_loop.simps) simp
    moreover have "ticks fs2 \<le> ticks fs + (fin - k) * ?c" using tk tk2 cs1 by linarith
    ultimately show ?thesis using m2 read_frame_trans [OF kf(4) f1 f2] rb c2 by blast
  qed
qed

lemma object_read_ok:
  assumes m: "matches m p fs" and f: "f < length (fd_space p)" and st: "stores conf m (fd_space p ! f) bytes"
    and c: "unat (cursor_block_ix p) < blks conf" and kn: "k + n \<le> length bytes"
    and t: "ticks fs + n * (search_cost 1 + 3) < 2 ^ 32 - 1"
  shows "\<exists>p' fs'. spiffs_object_read fs f (word_of_nat k) (word_of_nat n) = Some (SPIFFS_OK, slice k n bytes, fs') \<and>
    matches m p' fs' \<and> read_frame f p p' \<and> unat (cursor_block_ix p') < blks conf \<and>
    ticks fs' \<le> ticks fs + n * (search_cost 1 + 3)"
proof -
  let ?L = "\<lparr>rd_offset = word_of_nat k, rd_data_spix = ucast ((word_of_nat k :: u32) div SPIFFS_DATA_PAGE_SIZE conf),
        rd_prev_spix = - 1, rd_bytes = []\<rparr>"
  have len: "length bytes \<le> blks conf * ppb conf * dps conf" using st by (simp add: stores_def)
  have fb: "length bytes < 2 ^ 32" by (rule file_bounds(1) [OF len])
  have u: "unat (word_of_nat k :: u32) = k" using fb kn by (simp add: unat_word_of_nat_u32)
  have sp: "ucast ((word_of_nat k :: u32) div SPIFFS_DATA_PAGE_SIZE conf) = (word_of_nat (k div dps conf) :: u16)"
    if "k < length bytes"
  proof -
    have "unat ((word_of_nat k :: u32) div SPIFFS_DATA_PAGE_SIZE conf) = k div dps conf"
      by (simp add: unat_div u unat_dps)
    moreover have "k div dps conf < 65535" by (rule file_bounds(2) [OF len that])
    ultimately show ?thesis
      by (simp add: word_unat_eq_iff unsigned_ucast_eq unat_of_nat take_bit_nat_eq_self)
  qed
  have "read_inv m f k bytes k (k + n) ?L p"
    using f st c kn sp by (auto simp: read_inv_def)
  from read_loop_ok [OF m this] t obtain p' fs' L' where
    r: "read_loop f (word_of_nat (k + n)) ?L fs = Some (SPIFFS_OK, L', fs')" and "matches m p' fs'" "read_frame f p p'"
    "rd_bytes L' = slice k n bytes" "unat (cursor_block_ix p') < blks conf" "ticks fs' \<le> ticks fs + n * (search_cost 1 + 3)"
    by auto
  moreover from this have "spiffs_object_read fs f (word_of_nat k) (word_of_nat n) = Some (SPIFFS_OK, slice k n bytes, fs')"
    unfolding spiffs_object_read_def matches_fields(1) [OF m] by simp
  ultimately show ?thesis by blast
qed

end

section \<open>Reading from the file position\<close>

lemma sint_word_of_nat_u32: "n < 2 ^ 31 \<Longrightarrow> sint (word_of_nat n :: u32) = int n"
proof -
  assume n: "n < 2 ^ 31"
  have "s32_range (int n)" using n by (simp add: s32_range_def)
  then have "sint (word_of_int (int n) :: u32) = int n" by (rule sint_word_of_int_s32)
  then show ?thesis by simp
qed

lemma api_checks_pass: "SPIFFS_CHECK_CFG fs \<Longrightarrow> SPIFFS_CHECK_MOUNT fs \<Longrightarrow> api_checks fs err k = k"
  by (simp add: api_checks_def)

text \<open>The outcome of reading \<open>len\<close> bytes at position \<open>k\<close> of a file: the bytes there are, or nothing at
  the end.\<close>

definition bytes_at :: "u8 list \<Rightarrow> nat \<Rightarrow> nat \<Rightarrow> u8 list" where
  "bytes_at bytes k len = take len (drop k bytes)"

lemma slice_bytes_at: "k + n \<le> length bytes \<Longrightarrow> n = min len (length bytes - k) \<Longrightarrow> slice k n bytes = bytes_at bytes k len"
  by (auto simp: slice_def bytes_at_def min_def)

context spiffs_flash
begin

lemma SPIFFS_read_ok:
  assumes m: "matches m p fs" and ck: "SPIFFS_CHECK_CFG fs" "SPIFFS_CHECK_MOUNT fs"
    and g': "spiffs_fd_get fs fh = (SPIFFS_OK, f)" and f: "f < length (fd_space p)"
    and rd: "fd_flags (fd_space p ! f) AND SPIFFS_RDONLY \<noteq> 0" and fl: "spiffs_fflush_cache fs fh = Some (r, fs)"
    and st: "stores conf m (fd_space p ! f) bytes" and pos: "fdoffset (fd_space p ! f) = word_of_nat k"
    and c: "unat (cursor_block_ix p) < blks conf"
    and k: "k < length bytes" "length bytes < 2 ^ 31" and len: "0 \<le> len" "len < 2 ^ 31"
    and t: "ticks fs + length bytes * (search_cost 1 + 3) < 2 ^ 32 - 1"
  defines "n \<equiv> min (nat len) (length bytes - k)"
  shows "\<exists>p' fs'. SPIFFS_read fs fh len = Some (int n, slice k n bytes, fd_update f (\<lambda>fd. fd\<lparr>fdoffset := word_of_nat (k + n)\<rparr>) fs') \<and>
    matches m p' fs' \<and> read_frame f p p' \<and> unat (cursor_block_ix p') < blks conf"
proof -
  have sf: "fd_space fs = fd_space p" by (rule matches_frame(6) [OF m])
  have szf: "fd_size (fd_space p ! f) = word_of_nat (length bytes)" using st by (simp add: stores_def)
  obtain l where l: "len = int l" "l < 2 ^ 31" using len by (metis nonneg_int_cases of_nat_less_numeral_power_cancel_iff)
  have nl: "nat len = l" by (simp add: l)
  have u: "unat (word_of_nat k + word_of_nat l :: u32) = k + l" "unat (word_of_nat (length bytes) :: u32) = length bytes"
    "unat (word_of_nat k :: u32) = k"
    using k l(2) by (subst unat_add_no_wrap | simp add: unat_word_of_nat_u32)+
  have ge: "fdoffset (fd_space p ! f) + word_of_int len \<ge> fd_size (fd_space p ! f) \<longleftrightarrow> length bytes \<le> k + l"
    unfolding pos szf word_le_nat_alt by (simp add: u l)
  have av: "sint (word_of_nat (length bytes) - word_of_nat k :: u32) = int (length bytes - k)"
  proof -
    have "(word_of_nat (length bytes) - word_of_nat k :: u32) = word_of_nat (length bytes - k)"
      using k(1) by (simp add: of_nat_diff)
    then show ?thesis using sint_word_of_nat_u32 [of "length bytes - k"] k by simp
  qed
  have kn: "k + n \<le> length bytes" using k by (simp add: n_def)
  have "n * (search_cost 1 + 3) \<le> length bytes * (search_cost 1 + 3)" using kn by (intro mult_le_mono1) simp
  then have tt: "ticks fs + n * (search_cost 1 + 3) < 2 ^ 32 - 1" using t by linarith
  from object_read_ok [OF m f st c kn tt] obtain p' fs' where
    r: "spiffs_object_read fs f (word_of_nat k) (word_of_nat n) = Some (SPIFFS_OK, slice k n bytes, fs')"
    and m': "matches m p' fs'" "read_frame f p p'" "unat (cursor_block_ix p') < blks conf" by blast
  have sf': "fd_space fs' = fd_space p'" by (rule matches_frame(6) [OF m'(1)])
  have pos': "fdoffset (fd_space fs' ! f) = word_of_nat k" using read_frame_fd(6) [OF f m'(2)] pos sf' by simp
  have up: "fd_update f (\<lambda>fd. fd\<lparr>fdoffset := fdoffset fd + word_of_nat n\<rparr>) fs' =
      fd_update f (\<lambda>fd. fd\<lparr>fdoffset := word_of_nat (k + n)\<rparr>) fs'"
    by (simp add: fd_update_def pos')
  have "SPIFFS_read fs fh len = Some (int n, slice k n bytes, fd_update f (\<lambda>fd. fd\<lparr>fdoffset := word_of_nat (k + n)\<rparr>) fs')"
  proof (cases "length bytes \<le> k + l")
    case True
    then have n: "n = length bytes - k" using nl by (simp add: n_def)
    have w: "word_of_int (int (length bytes - k)) = (word_of_nat n :: u32)" by (simp add: n)
    have "\<not> int (length bytes - k) \<le> 0" using k by simp
    then show ?thesis unfolding SPIFFS_read_def api_checks_pass [OF ck] g' prod.case Let_def sf
      using True ge rd fl r av up by (simp add: SPIFFS_OK_def sf pos szf w n [symmetric])
  next
    case False
    then have n: "n = l" using nl by (simp add: n_def)
    show ?thesis unfolding SPIFFS_read_def api_checks_pass [OF ck] g' prod.case Let_def sf
      using False ge rd fl r up by (simp add: SPIFFS_OK_def sf pos szf l n)
  qed
  then show ?thesis using m' by blast
qed

end

section \<open>An example file\<close>

text \<open>A chip with one file \<open>a\<close> of two bytes: entry 0 has the index header of object 1, entry 1 its data page.\<close>

definition example_header_page :: "u8 list" where
  "example_header_page = [1, 0x80, 0, 0, 0xf8, 0xff] @ [2, 0, 0, 0] @ [1] @ (97 # replicate 31 0) @ [0xff] @ [2, 0]"

definition example_data_page :: "u8 list" where
  "example_data_page = [1, 0, 0, 0, 0xfc, 104, 105]"

definition file_chip :: "nat \<Rightarrow> u8" where
  "file_chip i =
     (if 0x100000 \<le> i \<and> i < 0x100004 then [1, 0x80, 1, 0] ! (i - 0x100000)
      else if 0x100100 \<le> i \<and> i < 0x100100 + length example_header_page then example_header_page ! (i - 0x100100)
      else if 0x100200 \<le> i \<and> i < 0x100200 + length example_data_page then example_data_page ! (i - 0x100200)
      else 0xff)"

definition file_fd :: spiffs_fd where
  "file_fd = \<lparr>file_nbr = 1, fd_obj_id = 0x8001, fd_size = 2, objix_hdr_pix = 1, cursor_objix_pix = 1,
     cursor_objix_spix = 0, fd_offset = 0, fdoffset = 0, fd_flags = SPIFFS_RDONLY OR SPIFFS_DIRECT, fd_cache_page = None\<rparr>"

definition file_fs :: "(nat \<Rightarrow> u8) flash_hw spiffs" where
  "file_fs = (example_mount file_chip)\<lparr>free_blocks := 127, mounted := 1, fd_space := [file_fd]\<rparr>"

lemma example_pages: "length example_header_page = 46" "length example_data_page = 7"
  by (simp_all add: example_header_page_def example_data_page_def)

lemma file_view:
  "flash_window id (dev file_fs) i = (if i < 0x40200000 then 0 else file_chip (i - 0x40200000))"
  by (simp add: file_fs_def example_mount_ready flash_window_def)

lemma file_ids: "lu_id example_config (flash_window id (dev file_fs)) b e =
    (if b = 0 \<and> e = 0 then 0x8001 else if b = 0 \<and> e = 1 then 1 else if e < 31 then 0xffff
     else lu_id example_config (flash_window id (dev file_fs)) b e)"
proof (cases "b = 0")
  case True
  then show ?thesis
    by (auto simp: lu_id_def file_view layout_simps file_chip_def word16_def example_pages nth_Cons' split: if_splits)
next
  case False
  then have "file_chip (0x100000 + b * 8192 + 2 * e) = 0xff \<and> file_chip (0x100000 + b * 8192 + 2 * e + 1) = 0xff"
    by (simp add: file_chip_def example_pages)
  then show ?thesis using False by (simp add: lu_id_def file_view layout_simps word16_def add.assoc)
qed

lemma file_page_nth: "i < 256 \<Longrightarrow>
    page_bytes example_config (flash_window id (dev file_fs)) b e ! i = file_chip (0x100000 + (b * 32 + (1 + e)) * 256 + i)"
  by (simp add: page_bytes_def nor_read_def file_view addr_of_page_def page_of_entry_def layout_simps algebra_simps del: upt_Suc)

lemma length_file_page: "length (page_bytes example_config m b e) = 256"
  by (simp add: page_bytes_def layout_simps del: upt_Suc)

lemma file_pages:
  "page_bytes example_config (flash_window id (dev file_fs)) 0 0 = example_header_page @ replicate 210 0xff"
  "page_bytes example_config (flash_window id (dev file_fs)) 0 1 = example_data_page @ replicate 249 0xff"
  "(b, e) \<noteq> (0, 0) \<Longrightarrow> (b, e) \<noteq> (0, 1) \<Longrightarrow> e < 31 \<Longrightarrow>
    page_bytes example_config (flash_window id (dev file_fs)) b e = replicate 256 0xff"
proof -
  show "page_bytes example_config (flash_window id (dev file_fs)) 0 0 = example_header_page @ replicate 210 0xff"
    by (rule nth_equalityI; unfold length_file_page)
      (auto simp: file_page_nth file_chip_def example_pages nth_append)
  show "page_bytes example_config (flash_window id (dev file_fs)) 0 1 = example_data_page @ replicate 249 0xff"
    by (rule nth_equalityI; unfold length_file_page)
      (auto simp: file_page_nth file_chip_def example_pages nth_append)
  assume a: "(b, e) \<noteq> (0, 0)" "(b, e) \<noteq> (0, 1)" "e < 31"
  show "page_bytes example_config (flash_window id (dev file_fs)) b e = replicate 256 0xff"
  proof (rule nth_equalityI; unfold length_file_page)
    fix i :: nat assume i: "i < 256"
    have "file_chip (0x100000 + (b * 32 + (1 + e)) * 256 + i) = 0xff"
      using a i by (cases "b = 0") (auto simp: file_chip_def example_pages)
    then show "page_bytes example_config (flash_window id (dev file_fs)) b e ! i = replicate 256 0xff ! i"
      using i by (simp add: file_page_nth)
  qed simp
qed

lemma mount_fields2:
  "cursor_block_ix (SPIFFS_mount_state config w fa fsz ca csz junk d) = 0"
  "config_magic (SPIFFS_mount_state config w fa fsz ca csz junk d) = SPIFFS_CONFIG_MAGIC"
proof -
  have f: "cursor_block_ix (spiffs_cache_init fs) = cursor_block_ix fs" for fs :: "'d spiffs"
    using cache_init_keeps [of fs] by auto
  show "cursor_block_ix (SPIFFS_mount_state config w fa fsz ca csz junk d) = 0"
    "config_magic (SPIFFS_mount_state config w fa fsz ca csz junk d) = SPIFFS_CONFIG_MAGIC"
    by (simp_all add: SPIFFS_mount_state_def Let_def f)
qed

lemma file_fs_state:
  "fs_inv example_config (flash_window id) file_fs" "ticks file_fs = 0" "SPIFFS_CHECK_CFG file_fs" "SPIFFS_CHECK_MOUNT file_fs"
  "unat (cursor_block_ix file_fs) < blks example_config" "fd_space file_fs = [file_fd]"
proof -
  have "ready example_config (flash_window id (dev file_fs)) file_fs"
    using example_mount_ready(1) [of _ file_chip] by (simp add: file_fs_def ready_def)
  moreover have "unat (block_count file_fs) = blks example_config"
    by (simp add: file_fs_def example_mount_def SPIFFS_mount_state_fields example_config_fields layout_simps)
  moreover have "free_pages_blank example_config (flash_window id (dev file_fs))"
    unfolding free_pages_blank_def
  proof (intro allI impI)
    fix b e assume e: "b < blks example_config" "e < ents example_config"
      and f: "lu_id example_config (flash_window id (dev file_fs)) b e = SPIFFS_OBJ_ID_FREE"
    have "(b, e) \<noteq> (0, 0)" "(b, e) \<noteq> (0, 1)"
      using f file_ids [of 0 0] file_ids [of 0 1]
      by (cases "b = 0"; cases "e = 0"; cases "e = 1"; simp add: SPIFFS_OBJ_ID_FREE_def)+
    then show "page_bytes example_config (flash_window id (dev file_fs)) b e = replicate (psz example_config) 0xff"
      using file_pages(3) e by (simp add: layout_simps)
  qed
  moreover have "unat (free_cursor_block_ix file_fs) < blks example_config"
    by (simp add: file_fs_def example_mount_def mount_free_cursor layout_simps)
  ultimately show "fs_inv example_config (flash_window id) file_fs" by (simp add: fs_inv_def)
  show "ticks file_fs = 0" using example_mount_ready(2) [of file_chip] by (simp add: file_fs_def ticks_def)
  show "SPIFFS_CHECK_CFG file_fs" "unat (cursor_block_ix file_fs) < blks example_config"
    by (simp_all add: file_fs_def example_mount_def mount_fields2 SPIFFS_CHECK_CFG_def layout_simps)
  show "SPIFFS_CHECK_MOUNT file_fs" "fd_space file_fs = [file_fd]" by (simp_all add: file_fs_def SPIFFS_CHECK_MOUNT_def)
qed

lemmas ph_flag_defs = SPIFFS_PH_FLAG_USED_def SPIFFS_PH_FLAG_FINAL_def SPIFFS_PH_FLAG_INDEX_def
  SPIFFS_PH_FLAG_IXDELE_def SPIFFS_PH_FLAG_DELET_def SPIFFS_OBJ_ID_IX_FLAG_def

lemma file_headers:
  "header_of example_config (flash_window id (dev file_fs)) 0 0 = \<lparr>ph_obj_id = 0x8001, ph_span_ix = 0, ph_flags = 0xf8\<rparr>"
  "header_of example_config (flash_window id (dev file_fs)) 0 1 = \<lparr>ph_obj_id = 1, ph_span_ix = 0, ph_flags = 0xfc\<rparr>"
  unfolding header_of_def file_pages
  by (simp_all add: get_page_header_def example_header_page_def example_data_page_def get16_def word16_def)

lemma file_stores: "stores example_config (flash_window id (dev file_fs)) file_fd [104, 105]"
proof -
  let ?m = "flash_window id (dev file_fs)"
  have s: "ix_span example_config 0 = 0"
    by (simp add: ix_span_def SPIFFS_OBJ_IX_ENTRY_SPAN_IX_def SPIFFS_OBJ_HDR_IX_LEN_def example_config_fields)
  have ip: "index_page example_config ?m file_fd 0 0 0"
    unfolding index_page_def file_headers by (simp add: layout_simps SPIFFS_VALIDATE_OBJIX_def file_fd_def page_of_entry_def ph_flag_defs)
  have dp: "data_page example_config ?m file_fd [104, 105] 0 0 1"
  proof -
    have "SPIFFS_VALIDATE_DATA (header_of example_config ?m 0 1) (fd_obj_id file_fd AND NOT SPIFFS_OBJ_ID_IX_FLAG) 0 = SPIFFS_OK"
      unfolding file_headers by (simp add: SPIFFS_VALIDATE_DATA_def file_fd_def ph_flag_defs)
    moreover have "page_bytes example_config ?m 0 1 ! (5 + i) = [104, 105] ! i" if "i < 2" for i
      unfolding file_pages using that by (auto simp: example_data_page_def less_Suc_eq numeral_2_eq_2)
    ultimately show ?thesis by (simp add: data_page_def layout_simps)
  qed
  have gx: "get16 (page_bytes example_config ?m 0 0) (ix_slot example_config 0 0) = word_of_nat (page_of_entry example_config 0 1)"
  proof -
    have "ix_slot example_config 0 0 = 44" by (simp add: ix_slot_def)
    then show ?thesis
      unfolding file_pages by (simp add: example_header_page_def get16_def word16_def page_of_entry_def layout_simps nth_append)
  qed
  have dz: "d = 0" if "d * dps example_config < length [104, 105 :: u8]" for d
    using that by (cases d) (simp_all add: dps_def layout_simps)
  have "\<exists>ib ie b e. index_page example_config ?m file_fd (ix_span example_config (word_of_nat d)) ib ie \<and>
      data_page example_config ?m file_fd [104, 105] d b e \<and>
      get16 (page_bytes example_config ?m ib ie) (ix_slot example_config (ix_span example_config (word_of_nat d))
        (word_of_nat d)) = word_of_nat (page_of_entry example_config b e)"
    if "d * dps example_config < length [104, 105 :: u8]" for d
  proof -
    have d: "d = 0" "word_of_nat d = (0 :: u16)" using dz [OF that] by simp_all
    show ?thesis unfolding d(2) s unfolding d(1) using ip dp gx by blast
  qed
  then show ?thesis unfolding stores_def by (simp add: file_fd_def layout_simps dps_def)
qed

section \<open>Properties\<close>

text \<open>C1 (refinement). Reading an open file with nothing in its write cache returns exactly the bytes of the
  file from the current position on, as many as were asked for or are left, advances the position
  by that number, and leaves the flash unchanged; data pages are found through the index header and
  the index pages, in whatever pages of the flash they are.\<close>

theorem SPIFFS_read_returns_file_bytes:
  assumes "spiffs_flash conf view lo hi" "fs_inv conf view fs" "SPIFFS_CHECK_CFG fs" "SPIFFS_CHECK_MOUNT fs"
    and "unat (cursor_block_ix fs) < blks conf"
    and "spiffs_fd_get fs fh = (SPIFFS_OK, f)" "f < length (fd_space fs)"
    and "fd_flags (fd_space fs ! f) AND SPIFFS_RDONLY \<noteq> 0" "spiffs_fflush_cache fs fh = Some (r, fs)"
    and "stores conf (view (dev fs)) (fd_space fs ! f) bytes" "fdoffset (fd_space fs ! f) = word_of_nat k"
    and "k < length bytes" "length bytes < 2 ^ 31" "0 \<le> len" "len < 2 ^ 31"
    and "ticks fs + length bytes * (walk_cost conf 1 + 3) < 2 ^ 32 - 1"
  shows "\<exists>fs'. SPIFFS_read fs fh len = Some (int (length (bytes_at bytes k (nat len))), bytes_at bytes k (nat len), fs') \<and>
    fdoffset (fd_space fs' ! f) = word_of_nat (k + length (bytes_at bytes k (nat len))) \<and>
    view (dev fs') = view (dev fs) \<and> ready conf (view (dev fs')) fs'"
proof -
  let ?n = "min (nat len) (length bytes - k)"
  note fl = assms(1)
  note m = spiffs_flash.inv_matches [OF fl assms(2)]
  from spiffs_flash.SPIFFS_read_ok [OF fl m assms(3,4,6-11) assms(5) assms(12-16)] obtain p' fs' where
    r: "SPIFFS_read fs fh len = Some (int ?n, slice k ?n bytes, fd_update f (\<lambda>fd. fd\<lparr>fdoffset := word_of_nat (k + ?n)\<rparr>) fs')"
    and m': "spiffs_flash.matches conf view (view (dev fs)) p' fs'" and rf: "read_frame f fs p'" by blast
  have "slice k ?n bytes = bytes_at bytes k (nat len)" using assms(12) by (intro slice_bytes_at) simp_all
  moreover have "length (bytes_at bytes k (nat len)) = ?n" by (simp add: bytes_at_def)
  moreover have "length (fd_space fs') = length (fd_space fs)"
    using read_frame_fd(5) [OF assms(7) rf] spiffs_flash.matches_frame(6) [OF fl m'] by simp
  ultimately show ?thesis
    using r assms(7) spiffs_flash.matches_fields(2,3) [OF fl m']
    by (intro exI [of _ "fd_update f (\<lambda>fd. fd\<lparr>fdoffset := word_of_nat (k + ?n)\<rparr>) fs'"])
      (simp add: fd_update_def ready_def)
qed

theorem SPIFFS_read_returns_file_bytes_witness:
  "\<exists>fs'. SPIFFS_read file_fs 1 10 = Some (2, [104, 105], fs') \<and> fdoffset (fd_space fs' ! 0) = 2"
proof -
  have g: "spiffs_fd_get file_fs 1 = (SPIFFS_OK, 0)"
    by (simp add: spiffs_fd_get_def file_fs_state fd_count_def to_s16_def file_fd_def)
  have fl: "spiffs_fflush_cache file_fs 1 = Some (SPIFFS_OK, file_fs)"
    by (simp add: spiffs_fflush_cache_def g file_fs_state file_fd_def SPIFFS_DIRECT_def SPIFFS_RDONLY_def SPIFFS_OK_def)
  have a: "0 < length (fd_space file_fs)" "fd_flags (fd_space file_fs ! 0) AND SPIFFS_RDONLY \<noteq> 0"
    "stores example_config (flash_window id (dev file_fs)) (fd_space file_fs ! 0) [104, 105]"
    "fdoffset (fd_space file_fs ! 0) = word_of_nat 0" "0 < length [104, 105 :: u8]" "length [104, 105 :: u8] < 2 ^ 31"
    "(0 :: int) \<le> 10" "(10 :: int) < 2 ^ 31"
    using file_stores by (simp_all add: file_fs_state, simp_all add: file_fd_def SPIFFS_RDONLY_def SPIFFS_DIRECT_def)
  have t: "ticks file_fs + length [104, 105 :: u8] * (walk_cost example_config 1 + 3) < 2 ^ 32 - 1"
    by (simp add: file_fs_state walk_cost_def layout_simps)
  from SPIFFS_read_returns_file_bytes [OF example_flash.spiffs_flash_axioms file_fs_state(1,3,4,5) g a(1,2) fl a(3-8) t]
  show ?thesis by (auto simp: bytes_at_def)
qed

text \<open>The entries the search by id and span index is for.\<close>

definition span_entry :: "'d spiffs_config \<Rightarrow> (nat \<Rightarrow> u8) \<Rightarrow> u16 \<Rightarrow> u16 \<Rightarrow> u16 \<Rightarrow> nat \<Rightarrow> nat \<Rightarrow> bool" where
  "span_entry conf m oid spix excl b e \<longleftrightarrow> lu_id conf m b e = oid \<and>
     span_page conf m oid spix (if excl \<noteq> 0 then Some excl else None) b e"

text \<open>C17 (functional). When the name stored in every live index header is terminated within its field, the search by
  name returns the page of an entry that is the live index header of a file
  with exactly that name, whenever there is one, and \<^verbatim>\<open>SPIFFS_ERR_NOT_FOUND\<close> only when there is none; it
  returns and changes nothing but the search cursor (and the counter of cache accesses, which must not wrap).  The
  condition matters: creating or renaming a file copies its name with \<^verbatim>\<open>strncpy\<close> of the whole field, so a name of
  32 characters or more is stored without a terminator, and comparing with such a header reads on behind the name.\<close>

theorem find_by_name_sound_complete:
  assumes "spiffs_flash conf view lo hi" "fs_inv conf view fs" "unat (cursor_block_ix fs) < blks conf"
    and "names_terminated conf (view (dev fs))" "0 \<in> set name" "ticks fs + walk_cost conf 1 < 2 ^ 32 - 1"
  shows "(\<exists>b e fs'. b < blks conf \<and> e < ents conf \<and> file_named conf (view (dev fs)) name b e \<and>
      spiffs_object_find_object_index_header_by_name fs name =
        Some (SPIFFS_OK, word_of_nat (page_of_entry conf b e), fs') \<and>
      same_but_flash (fs\<lparr>cursor_block_ix := word_of_nat b, cursor_obj_lu_entry := e\<rparr>) fs' \<and>
      view (dev fs') = view (dev fs)) \<or>
    (\<exists>fs'. spiffs_object_find_object_index_header_by_name fs name = Some (SPIFFS_ERR_NOT_FOUND, 0, fs') \<and>
      same_but_flash fs fs' \<and> view (dev fs') = view (dev fs) \<and>
      (\<forall>b < blks conf. \<forall>e < ents conf. \<not> file_named conf (view (dev fs)) name b e))"
  using spiffs_flash.find_by_name_ok [OF assms(1,4,5) spiffs_flash.inv_matches [OF assms(1,2)] assms(3,6)]
    spiffs_flash.matches_same [OF assms(1)] by meson

text \<open>C18 (functional). The search for a page of an object by span index returns a page that is in use, final,
  carries the object id in the lookup entry and the header, has the span index and is not the
  excluded one, whenever there is such a page, and \<^verbatim>\<open>SPIFFS_ERR_NOT_FOUND\<close> only when there is none.\<close>

theorem find_id_and_span_sound_complete:
  assumes "spiffs_flash conf view lo hi" "fs_inv conf view fs" "unat (cursor_block_ix fs) < blks conf"
    and "ticks fs + walk_cost conf 1 < 2 ^ 32 - 1"
  shows "(\<exists>b e fs'. b < blks conf \<and> e < ents conf \<and> span_entry conf (view (dev fs)) oid spix excl b e \<and>
      spiffs_obj_lu_find_id_and_span fs oid spix excl = Some (SPIFFS_OK, word_of_nat (page_of_entry conf b e), fs') \<and>
      same_but_flash (fs\<lparr>cursor_block_ix := word_of_nat b, cursor_obj_lu_entry := e\<rparr>) fs' \<and>
      view (dev fs') = view (dev fs)) \<or>
    (\<exists>fs'. spiffs_obj_lu_find_id_and_span fs oid spix excl = Some (SPIFFS_ERR_NOT_FOUND, 0, fs') \<and>
      same_but_flash fs fs' \<and> view (dev fs') = view (dev fs) \<and>
      (\<forall>b < blks conf. \<forall>e < ents conf. \<not> span_entry conf (view (dev fs)) oid spix excl b e))"
proof -
  have ck: "id_checked conf SPIFFS_VIS_CHECK_ID m oid b e \<longleftrightarrow> lu_id conf m b e = oid" for m b e
    by (simp add: id_checked_def SPIFFS_VIS_CHECK_ID_def SPIFFS_VIS_CHECK_PH_def)
  show ?thesis
    using spiffs_flash.find_id_and_span_ok [OF assms(1) spiffs_flash.inv_matches [OF assms(1,2)] assms(3,4) disjI1 [OF refl],
        of oid spix excl] spiffs_flash.matches_same [OF assms(1)]
    unfolding ck span_entry_def [symmetric] spiffs_obj_lu_find_id_and_span_def by meson
qed

lemma file_entry_ids: "e < 31 \<Longrightarrow> lu_id example_config (flash_window id (dev file_fs)) b e =
    (if b = 0 \<and> e = 0 then 0x8001 else if b = 0 \<and> e = 1 then 1 else 0xffff)"
  by (subst file_ids) simp

lemma file_live: "live_header_of example_config (flash_window id (dev file_fs)) b e \<Longrightarrow> e < 31 \<Longrightarrow> (b, e) = (0, 0)"
proof (rule ccontr)
  assume l: "live_header_of example_config (flash_window id (dev file_fs)) b e" and e: "e < 31" and ne: "(b, e) \<noteq> (0, 0)"
  have "lu_id example_config (flash_window id (dev file_fs)) b e = (if (b, e) = (0, 1) then 1 else 0xffff)"
    using e ne by (simp only: file_entry_ids) auto
  then show False using l
    by (simp add: live_header_of_def index_id_def SPIFFS_OBJ_ID_FREE_def SPIFFS_OBJ_ID_IX_FLAG_def split: if_splits)
qed

theorem find_by_name_sound_complete_witness:
  "\<exists>fs'. spiffs_object_find_object_index_header_by_name file_fs [97, 0] = Some (SPIFFS_OK, 1, fs')"
proof -
  let ?m = "flash_window id (dev file_fs)"
  have nm: "oix_name (page_bytes example_config ?m 0 0) = 97 # replicate 31 0"
    unfolding file_pages by (simp add: oix_name_def slice_def SPIFFS_OBJ_NAME_LEN_def example_header_page_def)
  have t: "ticks file_fs + walk_cost example_config 1 < 2 ^ 32 - 1"
    by (simp add: file_fs_state walk_cost_def layout_simps)
  have nt: "names_terminated example_config ?m" unfolding names_terminated_def
  proof (intro allI impI)
    fix b e assume "b < blks example_config" "e < ents example_config" "live_header_of example_config ?m b e"
    then have "b = 0 \<and> e = 0" using file_live [of b e] by (simp add: layout_simps)
    then show "0 \<in> set (oix_name (page_bytes example_config ?m b e))" using nm by simp
  qed
  have "live_header_of example_config ?m 0 0"
    using file_ids [of 0 0] unfolding live_header_of_def file_headers
    by (simp add: index_id_def live_index_header_def ph_flag_defs SPIFFS_OBJ_ID_FREE_def SPIFFS_OBJ_ID_DELETED_def)
  then have fn: "file_named example_config ?m [97, 0] 0 0"
    unfolding file_named_def nm by (simp add: c_string_def numeral_eq_Suc)
  have z: "0 < blks example_config" "0 < ents example_config" by (simp_all add: layout_simps)
  have "0 \<in> set [97, 0 :: u8]" by simp
  from find_by_name_sound_complete [OF example_flash.spiffs_flash_axioms file_fs_state(1,5) nt this t] fn z
  obtain b e fs' where b: "b < blks example_config" "e < ents example_config" "file_named example_config ?m [97, 0] b e"
    and r: "spiffs_object_find_object_index_header_by_name file_fs [97, 0] =
      Some (SPIFFS_OK, word_of_nat (page_of_entry example_config b e), fs')" by blast
  have "(b, e) = (0, 0)" using file_live [of b e] b by (simp add: file_named_def layout_simps)
  then show ?thesis using r by (simp add: page_of_entry_def layout_simps)
qed

theorem find_id_and_span_sound_complete_witness:
  "\<exists>fs'. spiffs_obj_lu_find_id_and_span file_fs 1 0 0 = Some (SPIFFS_OK, 2, fs')"
proof -
  let ?m = "flash_window id (dev file_fs)"
  have t: "ticks file_fs + walk_cost example_config 1 < 2 ^ 32 - 1"
    by (simp add: file_fs_state walk_cost_def layout_simps)
  have l: "lu_id example_config ?m 0 1 = 1" using file_ids [of 0 1] by simp
  have "span_page example_config ?m 1 0 None 0 1"
    unfolding span_page_def file_headers by (simp add: span_header_def ph_flag_defs)
  then have s: "span_entry example_config ?m 1 0 0 0 1" using l by (simp add: span_entry_def)
  have z: "0 < blks example_config" "1 < ents example_config" by (simp_all add: layout_simps)
  from find_id_and_span_sound_complete [OF example_flash.spiffs_flash_axioms file_fs_state(1,5) t, of 1 0 0] s z
  obtain b e fs' where b: "b < blks example_config" "e < ents example_config" "span_entry example_config ?m 1 0 0 b e"
    and r: "spiffs_obj_lu_find_id_and_span file_fs 1 0 0 =
      Some (SPIFFS_OK, word_of_nat (page_of_entry example_config b e), fs')" by blast
  have "lu_id example_config ?m b e = 1" using b(3) by (simp add: span_entry_def)
  then have "(b, e) = (0, 1)" using b(2) by (auto simp: layout_simps file_entry_ids split: if_splits)
  then show ?thesis using r by (simp add: page_of_entry_def layout_simps)
qed

end
