(* ===== verification/SpiffsCheck.thy ===== *)
theory SpiffsCheck imports SpiffsApi begin

text \<open>
  The consistency check (\<^verbatim>\<open>spiffs_check.c\<close>, \<^verbatim>\<open>SPIFFS_check\<close>): lookup entries against page headers, orphaned
  index pages, and the references of index pages.  The callback is the null pointer, the only value
  \<^verbatim>\<open>FSClass\<close> mounts with, so no call of it is made.  A page index that a failed search leaves unset is
  \<open>None\<close> where the code goes on to use it, and using it is undefined.
\<close>

section \<open>Helpers\<close>

definition SPIFFS_ERR_CHECK_FIRST :: int where "SPIFFS_ERR_CHECK_FIRST = SPIFFS_ERR_INTERNAL - 1"
definition SPIFFS_ERR_CHECK_OBJ_ID_MISM :: int where "SPIFFS_ERR_CHECK_OBJ_ID_MISM = SPIFFS_ERR_INTERNAL - 1"
definition SPIFFS_ERR_CHECK_SPIX_MISM :: int where "SPIFFS_ERR_CHECK_SPIX_MISM = SPIFFS_ERR_INTERNAL - 2"
definition SPIFFS_ERR_CHECK_FLAGS_BAD :: int where "SPIFFS_ERR_CHECK_FLAGS_BAD = SPIFFS_ERR_INTERNAL - 3"
definition SPIFFS_ERR_CHECK_LAST :: int where "SPIFFS_ERR_CHECK_LAST = SPIFFS_ERR_INTERNAL - 4"

definition index_bad :: "int \<Rightarrow> bool" where
  "index_bad res \<longleftrightarrow> res \<le> SPIFFS_ERR_CHECK_FIRST \<and> res > SPIFFS_ERR_CHECK_LAST"

text \<open>Result code, referenced page, index page.\<close>

definition spiffs_object_get_data_page_index_reference ::
  "'d spiffs \<Rightarrow> u16 \<Rightarrow> u16 \<Rightarrow> (int \<times> u16 \<times> u16 \<times> 'd spiffs) option" where
  "spiffs_object_get_data_page_index_reference fs obj_id dspix = do {
     let objix_spix = (ucast (SPIFFS_OBJ_IX_ENTRY_SPAN_IX (cfg fs) (ucast dspix)) :: u16);
     (res, objix_pix, fs) \<leftarrow> spiffs_obj_lu_find_id_and_span fs (obj_id OR SPIFFS_OBJ_ID_IX_FLAG) objix_spix 0;
     if res < SPIFFS_OK then Some (res, 0, 0, fs) else do {
     let addr = SPIFFS_PAGE_TO_PADDR (cfg fs) (ucast objix_pix) +
       (if objix_spix = 0 then sizeof_page_object_ix_header + ucast dspix * sizeof_page_ix
        else sizeof_page_object_ix + SPIFFS_OBJ_IX_ENTRY (cfg fs) (ucast dspix) * sizeof_page_ix);
     (res, bs, fs) \<leftarrow> spiffs_phys_rd fs (SPIFFS_OP_T_OBJ_LU2 OR SPIFFS_OP_C_READ) 0 addr sizeof_page_ix;
     Some (res, if res < SPIFFS_OK then 0 else get16 bs 0, objix_pix, fs) }}"

definition read_header :: "'d spiffs \<Rightarrow> u16 \<Rightarrow> (int \<times> spiffs_page_header \<times> 'd spiffs) option" where
  "read_header fs pix = do {
     (res, bs, fs) \<leftarrow> spiffs_phys_rd fs (SPIFFS_OP_T_OBJ_LU2 OR SPIFFS_OP_C_READ) 0
       (SPIFFS_PAGE_TO_PADDR (cfg fs) (ucast pix)) sizeof_page_header;
     Some (res, get_page_header bs, fs) }"

definition spiffs_rewrite_page ::
  "'d spiffs \<Rightarrow> u16 \<Rightarrow> spiffs_page_header \<Rightarrow> (int \<times> u16 \<times> 'd spiffs) option" where
  "spiffs_rewrite_page fs cur_pix p_hdr = do {
     (res, _, new_pix, fs) \<leftarrow> spiffs_page_allocate_data fs (ph_obj_id p_hdr) p_hdr None 0 False;
     if res < SPIFFS_OK then Some (res, 0, fs) else do {
     (res, fs) \<leftarrow> spiffs_phys_cpy fs 0 (SPIFFS_PAGE_TO_PADDR (cfg fs) (ucast new_pix) + sizeof_page_header)
       (SPIFFS_PAGE_TO_PADDR (cfg fs) (ucast cur_pix) + sizeof_page_header) (SPIFFS_DATA_PAGE_SIZE (cfg fs));
     Some (res, new_pix, fs) }}"

text \<open>The new index page is built in the lookup work buffer.\<close>

definition set_lu_ix :: "u16 \<Rightarrow> u16 \<Rightarrow> u16 \<Rightarrow> 'd spiffs \<Rightarrow> 'd spiffs option" where
  "set_lu_ix objix_spix dspix pix fs =
     (let i = ix_slot (cfg fs) objix_spix dspix
      in if i + 2 \<le> length (lu_work fs) then Some (fs\<lparr>lu_work := blit i (bytes16 pix) (lu_work fs)\<rparr>) else None)"

definition spiffs_rewrite_index ::
  "'d spiffs \<Rightarrow> u16 \<Rightarrow> u16 \<Rightarrow> u16 \<Rightarrow> u16 \<Rightarrow> (int \<times> 'd spiffs) option" where
  "spiffs_rewrite_index fs obj_id dspix new_data_pix objix_pix = do {
     let obj_id = obj_id OR SPIFFS_OBJ_ID_IX_FLAG;
     (res, bix, entry, fs) \<leftarrow> spiffs_obj_lu_find_free fs (free_cursor_block_ix fs) (free_cursor_obj_lu_entry fs);
     if res < SPIFFS_OK then Some (res, fs) else do {
     bix \<leftarrow> bix;
     entry \<leftarrow> entry;
     let free_pix = (ucast (SPIFFS_OBJ_LOOKUP_ENTRY_TO_PIX (cfg fs) (ucast bix) (word_of_nat entry)) :: u16);
     let objix_spix = (ucast (SPIFFS_OBJ_IX_ENTRY_SPAN_IX (cfg fs) (ucast dspix)) :: u16);
     (res, bs, fs) \<leftarrow> spiffs_phys_rd fs (SPIFFS_OP_T_OBJ_LU2 OR SPIFFS_OP_C_READ) 0
       (SPIFFS_PAGE_TO_PADDR (cfg fs) (ucast objix_pix)) (log_page_size (cfg fs));
     let fs = fs\<lparr>lu_work := bs\<rparr>;
     if res < SPIFFS_OK then Some (res, fs) else do {
     let objix_p_hdr = get_page_header (lu_work fs);
     let give_up = (\<lambda>err. do { (_, fs) \<leftarrow> spiffs_page_delete fs free_pix; Some (err, fs) });
     if ph_obj_id objix_p_hdr \<noteq> obj_id then give_up SPIFFS_ERR_CHECK_OBJ_ID_MISM
     else if ph_span_ix objix_p_hdr \<noteq> objix_spix then give_up SPIFFS_ERR_CHECK_SPIX_MISM
     else if ph_flags objix_p_hdr AND (SPIFFS_PH_FLAG_USED OR SPIFFS_PH_FLAG_IXDELE OR SPIFFS_PH_FLAG_INDEX OR
               SPIFFS_PH_FLAG_FINAL OR SPIFFS_PH_FLAG_DELET) \<noteq> (SPIFFS_PH_FLAG_IXDELE OR SPIFFS_PH_FLAG_DELET)
     then give_up SPIFFS_ERR_CHECK_FLAGS_BAD
     else do {
     fs \<leftarrow> set_lu_ix objix_spix dspix new_data_pix fs;
     (res, fs) \<leftarrow> spiffs_phys_wr fs (SPIFFS_OP_T_OBJ_DA OR SPIFFS_OP_C_UPDT) 0
       (SPIFFS_PAGE_TO_PADDR (cfg fs) (ucast free_pix)) (lu_work fs);
     if res < SPIFFS_OK then Some (res, fs) else do {
     (res, fs) \<leftarrow> spiffs_phys_wr fs (SPIFFS_OP_T_OBJ_LU OR SPIFFS_OP_C_UPDT) 0
       (lu_entry_of_page (cfg fs) free_pix) (bytes16 obj_id);
     if res < SPIFFS_OK then Some (res, fs) else spiffs_page_delete fs objix_pix }}}}}"

definition spiffs_delete_obj_lazy :: "'d spiffs \<Rightarrow> u16 \<Rightarrow> (int \<times> 'd spiffs) option" where
  "spiffs_delete_obj_lazy fs obj_id = do {
     (res, objix_hdr_pix, fs) \<leftarrow> spiffs_obj_lu_find_id_and_span fs obj_id 0 0;
     if res = SPIFFS_ERR_NOT_FOUND then Some (SPIFFS_OK, fs)
     else if res < SPIFFS_OK then Some (res, fs)
     else spiffs_phys_wr fs (SPIFFS_OP_T_OBJ_LU OR SPIFFS_OP_C_UPDT) 0
       (SPIFFS_PAGE_TO_PADDR (cfg fs) (ucast objix_hdr_pix) + offsetof_flags) [0xff AND NOT SPIFFS_PH_FLAG_IXDELE] }"

section \<open>Lookup entries against page headers\<close>

text \<open>A part of \<^verbatim>\<open>spiffs_lookup_check_validate\<close> returns from the function (\<open>Inl\<close>) or goes on with the flag to
  delete the page and the result code so far; next come the flag to reload the lookup page and the state.\<close>

type_synonym 'd verdict = "(int + bool \<times> int) \<times> bool \<times> 'd spiffs"

definition go_on :: "int \<Rightarrow> bool \<Rightarrow> bool \<Rightarrow> 'd spiffs \<Rightarrow> 'd verdict" where
  "go_on res delete_page reload fs = (if res < SPIFFS_OK then Inl res else Inr (delete_page, res), reload, fs)"

text \<open>A data page its index refers to is copied and the index rewritten; if the index is bad as well, the
  copy and the object are deleted.  The flag says which.\<close>

definition move_referenced_page ::
  "'d spiffs \<Rightarrow> spiffs_page_header \<Rightarrow> u16 \<Rightarrow> u16 \<Rightarrow> (int \<times> bool \<times> 'd spiffs) option" where
  "move_referenced_page fs p_hdr cur_pix objix_pix = do {
     (res, new_pix, fs) \<leftarrow> spiffs_rewrite_page fs cur_pix p_hdr;
     if res < SPIFFS_OK then Some (res, False, fs) else do {
     (res, fs) \<leftarrow> spiffs_rewrite_index fs (ph_obj_id p_hdr) (ph_span_ix p_hdr) new_pix objix_pix;
     if index_bad res
     then do {
       (res, fs) \<leftarrow> spiffs_page_delete fs new_pix;
       if res < SPIFFS_OK then Some (res, True, fs) else do {
       (res, fs) \<leftarrow> spiffs_delete_obj_lazy fs (ph_obj_id p_hdr);
       Some (res, True, fs) }}
     else Some (res, False, fs) }}"

text \<open>The entry is free or deleted but its page is in use.\<close>

definition check_unused_entry :: "'d spiffs \<Rightarrow> spiffs_page_header \<Rightarrow> u16 \<Rightarrow> 'd verdict option" where
  "check_unused_entry fs p_hdr cur_pix =
     (if ph_flags p_hdr AND SPIFFS_PH_FLAG_INDEX \<noteq> 0
      then do {
        (res, ref_pix, objix_pix, fs) \<leftarrow>
          spiffs_object_get_data_page_index_reference fs (ph_obj_id p_hdr) (ph_span_ix p_hdr);
        if res = SPIFFS_ERR_NOT_FOUND then Some (go_on SPIFFS_OK True True fs)
        else if res < SPIFFS_OK then Some (Inl res, True, fs)
        else if ref_pix = cur_pix
        then do {
          (res, _, fs) \<leftarrow> move_referenced_page fs p_hdr cur_pix objix_pix;
          Some (go_on res True True fs) }
        else Some (go_on res True True fs) }
      else do {
        (res, _, fs) \<leftarrow> spiffs_obj_lu_find_id_and_span fs (ph_obj_id p_hdr OR SPIFFS_OBJ_ID_IX_FLAG) (ph_span_ix p_hdr) cur_pix;
        if res = SPIFFS_ERR_NOT_FOUND
        then do {
          (res, _, fs) \<leftarrow> spiffs_obj_lu_find_id_and_span_by_phdr fs (ph_obj_id p_hdr OR SPIFFS_OBJ_ID_IX_FLAG) 0 0;
          if res = SPIFFS_OK
          then do {
            (res, _, fs) \<leftarrow> spiffs_rewrite_page fs cur_pix p_hdr;
            Some (go_on res True True fs) }
          else Some (Inr (True, res), True, fs) }
        else Some (go_on res True True fs) })"

text \<open>A search whose failure to find is not an error: the page index is 0 then.\<close>

definition find_or_zero :: "'d spiffs \<Rightarrow> u16 \<Rightarrow> u16 \<Rightarrow> u16 \<Rightarrow> (int \<times> u16 \<times> 'd spiffs) option" where
  "find_or_zero fs obj_id spix exclusion_pix = do {
     (res, pix, fs) \<leftarrow> spiffs_obj_lu_find_id_and_span fs obj_id spix exclusion_pix;
     Some (if res = SPIFFS_ERR_NOT_FOUND then (SPIFFS_OK, 0, fs) else (res, pix, fs)) }"

text \<open>\<^verbatim>\<open>&&\<close> and \<^verbatim>\<open>||\<close> on conditions that may read an unset variable.\<close>

definition c_and :: "bool option \<Rightarrow> bool option \<Rightarrow> bool option" where
  "c_and a b = do { x \<leftarrow> a; if x then b else Some False }"

definition c_or :: "bool option \<Rightarrow> bool option \<Rightarrow> bool option" where
  "c_or a b = do { x \<leftarrow> a; if x then Some True else b }"

definition is_set :: "u16 option \<Rightarrow> bool option" where "is_set p = map_option (\<lambda>p. p \<noteq> 0) p"

text \<open>An index page under two ids: which of them has a data page decides.  When the search for the data page of
  one id fails, the code clears the index page of that id and leaves the variable of the data page unset.\<close>

definition check_index_ids :: "'d spiffs \<Rightarrow> u16 \<Rightarrow> spiffs_page_header \<Rightarrow> u16 \<Rightarrow> 'd verdict option" where
  "check_index_ids fs lu_obj_id p_hdr cur_pix = do {
     (res, objix_pix_lu, fs) \<leftarrow> find_or_zero fs (lu_obj_id OR SPIFFS_OBJ_ID_IX_FLAG) (ph_span_ix p_hdr) 0;
     if res < SPIFFS_OK then Some (Inl res, False, fs) else do {
     (res, objix_pix_ph, fs) \<leftarrow> find_or_zero fs (ph_obj_id p_hdr OR SPIFFS_OBJ_ID_IX_FLAG) (ph_span_ix p_hdr) 0;
     if res < SPIFFS_OK then Some (Inl res, False, fs)
     else if objix_pix_ph = 0 \<or> objix_pix_lu = 0
     then do {
       (res, pix, fs) \<leftarrow> spiffs_obj_lu_find_id_and_span fs (lu_obj_id AND NOT SPIFFS_OBJ_ID_IX_FLAG) 0 0;
       let data_pix_lu = (if res < SPIFFS_OK then None else Some pix);
       let (res, objix_pix_lu) = (if res = SPIFFS_ERR_NOT_FOUND then (SPIFFS_OK, 0) else (res, objix_pix_lu));
       if res < SPIFFS_OK then Some (Inl res, False, fs) else do {
       (res, pix, fs) \<leftarrow> spiffs_obj_lu_find_id_and_span fs (ph_obj_id p_hdr AND NOT SPIFFS_OBJ_ID_IX_FLAG) 0 0;
       let data_pix_ph = (if res < SPIFFS_OK then None else Some pix);
       let (res, objix_pix_ph) = (if res = SPIFFS_ERR_NOT_FOUND then (SPIFFS_OK, 0) else (res, objix_pix_ph));
       if res < SPIFFS_OK then Some (Inl res, False, fs) else do {
       let new_flags = 0xff AND NOT (SPIFFS_PH_FLAG_USED OR SPIFFS_PH_FLAG_INDEX OR SPIFFS_PH_FLAG_FINAL);
       let rewrite_as = (\<lambda>obj_id. do {
         (res, _, fs) \<leftarrow> spiffs_rewrite_page fs cur_pix
           \<lparr>ph_obj_id = obj_id OR SPIFFS_OBJ_ID_IX_FLAG, ph_span_ix = ph_span_ix p_hdr, ph_flags = new_flags\<rparr>;
         Some (go_on res True True fs) });
       as_ph \<leftarrow> c_or
         (c_and (Some (objix_pix_lu \<noteq> 0)) (c_and (is_set data_pix_lu) (c_and (is_set data_pix_ph) (Some (objix_pix_ph = 0)))))
         (c_and (Some (objix_pix_lu = 0)) (c_and (is_set data_pix_ph) (Some (objix_pix_ph = 0))));
       if as_ph then rewrite_as (ph_obj_id p_hdr) else do {
       as_lu \<leftarrow> c_or
         (c_and (Some (objix_pix_ph \<noteq> 0)) (c_and (is_set data_pix_ph) (c_and (is_set data_pix_lu) (Some (objix_pix_lu = 0)))))
         (c_and (Some (objix_pix_ph = 0)) (c_and (is_set data_pix_lu) (Some (objix_pix_lu = 0))));
       if as_lu then rewrite_as lu_obj_id else Some (go_on res True False fs) }}}}
     else Some (go_on res True False fs) }}"

text \<open>The entry and the header have different ids.\<close>

definition check_differing_ids :: "'d spiffs \<Rightarrow> u16 \<Rightarrow> spiffs_page_header \<Rightarrow> u16 \<Rightarrow> 'd verdict option" where
  "check_differing_ids fs lu_obj_id p_hdr cur_pix =
     (if ph_flags p_hdr AND SPIFFS_PH_FLAG_DELET = 0 \<or> ph_flags p_hdr AND SPIFFS_PH_FLAG_FINAL \<noteq> 0 \<or>
         ph_flags p_hdr AND (SPIFFS_PH_FLAG_INDEX OR SPIFFS_PH_FLAG_IXDELE) = 0
      then Some (go_on SPIFFS_OK True False fs)
      else if ph_flags p_hdr AND SPIFFS_PH_FLAG_INDEX \<noteq> 0
      then do {
        (res, ref_pix, objix_pix, fs) \<leftarrow>
          spiffs_object_get_data_page_index_reference fs (ph_obj_id p_hdr) (ph_span_ix p_hdr);
        if res = SPIFFS_ERR_NOT_FOUND then Some (go_on SPIFFS_OK True False fs)
        else if res < SPIFFS_OK then Some (Inl res, False, fs)
        else if ref_pix = cur_pix
        then do {
          (res, bad, fs) \<leftarrow> move_referenced_page fs p_hdr cur_pix objix_pix;
          Some (go_on res True bad fs) }
        else Some (go_on res True False fs) }
      else check_index_ids fs lu_obj_id p_hdr cur_pix)"

text \<open>The page is copied under a new header, as an index or as a data page.\<close>

definition copy_as ::
  "'d spiffs \<Rightarrow> u16 \<Rightarrow> u16 \<Rightarrow> u8 \<Rightarrow> u16 \<Rightarrow> (int \<times> 'd spiffs) option" where
  "copy_as fs obj_id span_ix flags cur_pix = do {
     (res, _, new_pix, fs) \<leftarrow> spiffs_page_allocate_data fs obj_id
       \<lparr>ph_obj_id = obj_id, ph_span_ix = span_ix, ph_flags = flags\<rparr> None 0 True;
     if res < SPIFFS_OK then Some (res, fs)
     else spiffs_phys_cpy fs 0 (SPIFFS_PAGE_TO_PADDR (cfg fs) (ucast new_pix) + sizeof_page_header)
       (SPIFFS_PAGE_TO_PADDR (cfg fs) (ucast cur_pix) + sizeof_page_header) (log_page_size (cfg fs) - sizeof_page_header) }"

text \<open>The entry says index and the header says data, or the other way round.\<close>

definition check_index_marking :: "'d spiffs \<Rightarrow> u16 \<Rightarrow> spiffs_page_header \<Rightarrow> u16 \<Rightarrow> 'd verdict option" where
  "check_index_marking fs lu_obj_id p_hdr cur_pix = do {
     (res, data_pix, fs) \<leftarrow> find_or_zero fs (lu_obj_id AND NOT SPIFFS_OBJ_ID_IX_FLAG) (ph_span_ix p_hdr) cur_pix;
     if res < SPIFFS_OK then Some (Inl res, False, fs) else do {
     (res, objix_pix_d, fs) \<leftarrow> find_or_zero fs (lu_obj_id OR SPIFFS_OBJ_ID_IX_FLAG) (ph_span_ix p_hdr) cur_pix;
     if res < SPIFFS_OK then Some (Inl res, False, fs) else do {
     (res, fs) \<leftarrow>
       (if data_pix \<noteq> 0 \<and> objix_pix_d = 0
        then copy_as fs (lu_obj_id OR SPIFFS_OBJ_ID_IX_FLAG) (ph_span_ix p_hdr)
          (0xff AND NOT (SPIFFS_PH_FLAG_USED OR SPIFFS_PH_FLAG_FINAL OR SPIFFS_PH_FLAG_INDEX)) cur_pix
        else if data_pix = 0 \<and> objix_pix_d \<noteq> 0
        then copy_as fs (lu_obj_id AND NOT SPIFFS_OBJ_ID_IX_FLAG) (ph_span_ix p_hdr)
          (0xff AND NOT (SPIFFS_PH_FLAG_USED OR SPIFFS_PH_FLAG_FINAL)) cur_pix
        else Some (res, fs));
     Some (go_on res True False fs) }}}"

text \<open>The page was never finalized.\<close>

definition check_unfinished :: "'d spiffs \<Rightarrow> u16 \<Rightarrow> spiffs_page_header \<Rightarrow> u16 \<Rightarrow> 'd verdict option" where
  "check_unfinished fs lu_obj_id p_hdr cur_pix = do {
     (res, ref_pix, _, fs) \<leftarrow> spiffs_object_get_data_page_index_reference fs lu_obj_id (ph_span_ix p_hdr);
     if res = SPIFFS_ERR_NOT_FOUND then Some (go_on SPIFFS_OK True True fs)
     else if res < SPIFFS_OK then Some (Inl res, True, fs)
     else if ref_pix \<noteq> cur_pix then Some (go_on res True True fs)
     else do {
       (res, fs) \<leftarrow> spiffs_phys_wr fs (SPIFFS_OP_T_OBJ_DA OR SPIFFS_OP_C_UPDT) 0
         (SPIFFS_PAGE_TO_PADDR (cfg fs) (ucast cur_pix) + offsetof_flags) [0xff AND NOT SPIFFS_PH_FLAG_FINAL];
       Some (Inr (False, res), True, fs) }}"

definition check_entry :: "'d spiffs \<Rightarrow> u16 \<Rightarrow> spiffs_page_header \<Rightarrow> u16 \<Rightarrow> 'd verdict option" where
  "check_entry fs lu_obj_id p_hdr cur_pix =
     (if lu_obj_id = SPIFFS_OBJ_ID_DELETED \<and> ph_flags p_hdr AND SPIFFS_PH_FLAG_DELET \<noteq> 0 \<or>
         lu_obj_id = SPIFFS_OBJ_ID_FREE \<and> ph_flags p_hdr AND SPIFFS_PH_FLAG_USED = 0
      then check_unused_entry fs p_hdr cur_pix
      else if lu_obj_id \<noteq> SPIFFS_OBJ_ID_FREE \<and> lu_obj_id \<noteq> SPIFFS_OBJ_ID_DELETED
      then if ph_obj_id p_hdr OR SPIFFS_OBJ_ID_IX_FLAG \<noteq> lu_obj_id OR SPIFFS_OBJ_ID_IX_FLAG
        then check_differing_ids fs lu_obj_id p_hdr cur_pix
        else if lu_obj_id AND SPIFFS_OBJ_ID_IX_FLAG \<noteq> 0 \<and> ph_flags p_hdr AND SPIFFS_PH_FLAG_INDEX \<noteq> 0 \<or>
                lu_obj_id AND SPIFFS_OBJ_ID_IX_FLAG = 0 \<and> ph_flags p_hdr AND SPIFFS_PH_FLAG_INDEX = 0
        then check_index_marking fs lu_obj_id p_hdr cur_pix
        else if ph_flags p_hdr AND SPIFFS_PH_FLAG_DELET = 0 then Some (go_on SPIFFS_OK True False fs)
        else if ph_flags p_hdr AND SPIFFS_PH_FLAG_FINAL \<noteq> 0 then check_unfinished fs lu_obj_id p_hdr cur_pix
        else Some (go_on SPIFFS_OK False False fs)
      else Some (go_on SPIFFS_OK False False fs))"

definition spiffs_lookup_check_validate ::
  "'d spiffs \<Rightarrow> u16 \<Rightarrow> spiffs_page_header \<Rightarrow> u16 \<Rightarrow> (int \<times> bool \<times> 'd spiffs) option" where
  "spiffs_lookup_check_validate fs lu_obj_id p_hdr cur_pix = do {
     (v, reload_lu, fs) \<leftarrow> check_entry fs lu_obj_id p_hdr cur_pix;
     case v of
       Inl res \<Rightarrow> Some (res, reload_lu, fs)
     | Inr (delete_page, res) \<Rightarrow>
         if delete_page then do { (res, fs) \<leftarrow> spiffs_page_delete fs cur_pix; Some (res, reload_lu, fs) }
         else Some (res, reload_lu, fs) }"

definition spiffs_lookup_check_v :: "(unit, 'd) visitor" where
  "spiffs_lookup_check_v fs obj_id cur_block cur_entry u = do {
     let cur_pix = ucast (SPIFFS_OBJ_LOOKUP_ENTRY_TO_PIX (cfg fs) (ucast cur_block) (word_of_nat cur_entry));
     (res, p_hdr, fs) \<leftarrow> read_header fs cur_pix;
     if res < SPIFFS_OK then Some (res, u, fs) else do {
     (res, reload_lu, fs) \<leftarrow> spiffs_lookup_check_validate fs obj_id p_hdr cur_pix;
     Some (if res = SPIFFS_OK then (if reload_lu then SPIFFS_VIS_COUNTINUE_RELOAD else SPIFFS_VIS_COUNTINUE) else res,
       u, fs) }}"

definition spiffs_lookup_consistency_check :: "'d spiffs \<Rightarrow> (int \<times> 'd spiffs) option" where
  "spiffs_lookup_consistency_check fs = do {
     (res, _, fs) \<leftarrow> spiffs_obj_lu_find_entry_visitor fs 0 0 0 0 (Some spiffs_lookup_check_v) ();
     Some (if res = SPIFFS_VIS_END then SPIFFS_OK else res, fs) }"

section \<open>Page references\<close>

text \<open>Four bits a page in the work buffer: bit 0 used, bit 1 referenced, bit 2 index.  A page of pages fits one
  scan; page and block numbers are 16-bit.\<close>

definition pages_per_scan :: "'d spiffs_config \<Rightarrow> u16" where
  "pages_per_scan config = ucast (log_page_size config * 8 div 4)"

definition in_scan :: "'d spiffs_config \<Rightarrow> u16 \<Rightarrow> u16 \<Rightarrow> bool" where
  "in_scan config pix_offset pix \<longleftrightarrow> uint pix_offset \<le> uint pix \<and> uint pix < uint pix_offset + uint (pages_per_scan config)"

definition scan_byte :: "u16 \<Rightarrow> u16 \<Rightarrow> nat" where
  "scan_byte pix_offset pix = unat ((word_of_int (uint pix - uint pix_offset) :: u32) div 2)"

definition scan_bit :: "u16 \<Rightarrow> nat" where "scan_bit pix = 4 * unat (pix AND 1)"

definition mark_page :: "u16 \<Rightarrow> u16 \<Rightarrow> nat \<Rightarrow> 'd spiffs \<Rightarrow> 'd spiffs option" where
  "mark_page pix_offset pix n fs =
     (let i = scan_byte pix_offset pix
      in if i < length (work fs)
         then Some (fs\<lparr>work := (work fs)[i := work fs ! i OR push_bit (scan_bit pix + n) 1]\<rparr>) else None)"

definition page_marked :: "u16 \<Rightarrow> u16 \<Rightarrow> nat \<Rightarrow> 'd spiffs \<Rightarrow> bool option" where
  "page_marked pix_offset pix n fs =
     (let i = scan_byte pix_offset pix
      in if i < length (work fs) then Some (bit (work fs ! i) (scan_bit pix + n)) else None)"

text \<open>The index is rewritten to refer to another page; if it is bad, \<open>drop\<close> deletes instead.\<close>

definition rewrite_or ::
  "('d spiffs \<Rightarrow> (int \<times> 'd spiffs) option) \<Rightarrow> 'd spiffs \<Rightarrow> u16 \<Rightarrow> u16 \<Rightarrow> u16 \<Rightarrow> u16 \<Rightarrow> (int \<times> 'd spiffs) option" where
  "rewrite_or drop_it fs obj_id dspix data_pix cur_pix = do {
     (res, fs) \<leftarrow> spiffs_rewrite_index fs obj_id dspix data_pix cur_pix;
     if index_bad res then drop_it fs else Some (res, fs) }"

text \<open>
  One reference.  The result is the code, whether the loop over the entries is left, whether the range is
  scanned again, and the state; an error code is returned at once.  After a bad reference the code searches
  for the page before it reads the object id from the index page in the lookup work buffer, which the search
  has overwritten.  The span index of the reference is an \<^verbatim>\<open>int\<close> in the comparison with the one of the page,
  and 16 bits wide elsewhere.
\<close>

definition check_bad_reference ::
  "u16 \<Rightarrow> int \<Rightarrow> 'd spiffs \<Rightarrow> (int \<times> bool \<times> bool \<times> 'd spiffs) option" where
  "check_bad_reference cur_pix dspix fs = do {
     (res, data_pix, fs) \<leftarrow> find_or_zero fs (ph_obj_id (get_page_header (lu_work fs)) AND NOT SPIFFS_OBJ_ID_IX_FLAG) (word_of_int dspix) 0;
     if res < SPIFFS_OK then Some (res, True, False, fs) else do {
     (res, data_pix, fs) \<leftarrow>
       (if data_pix = 0
        then let obj_id = ph_obj_id (get_page_header (lu_work fs)) AND NOT SPIFFS_OBJ_ID_IX_FLAG
          in do {
            (res, _, pix, fs) \<leftarrow> spiffs_page_allocate_data fs obj_id
              \<lparr>ph_obj_id = obj_id, ph_span_ix = word_of_int dspix,
               ph_flags = 0xff AND NOT (SPIFFS_PH_FLAG_USED OR SPIFFS_PH_FLAG_FINAL)\<rparr> None 0 True;
            Some (res, pix, fs) }
        else Some (res, data_pix, fs));
     if res < SPIFFS_OK then Some (res, True, False, fs) else do {
     (res, fs) \<leftarrow> rewrite_or (\<lambda>fs. spiffs_page_delete fs cur_pix) fs
       (ph_obj_id (get_page_header (lu_work fs)) OR SPIFFS_OBJ_ID_IX_FLAG) (word_of_int dspix) data_pix cur_pix;
     Some (res, True, True, fs) }}}"

definition check_good_reference ::
  "u16 \<Rightarrow> spiffs_page_header \<Rightarrow> u16 \<Rightarrow> int \<Rightarrow> u16 \<Rightarrow> 'd spiffs \<Rightarrow> (int \<times> bool \<times> bool \<times> 'd spiffs) option" where
  "check_good_reference pix_offset p_hdr cur_pix dspix rpix fs = do {
     (res, rp_hdr, fs) \<leftarrow> read_header fs rpix;
     if res < SPIFFS_OK then Some (res, True, False, fs)
     else if ph_obj_id rp_hdr \<noteq> ph_obj_id p_hdr AND NOT SPIFFS_OBJ_ID_IX_FLAG \<or> uint (ph_span_ix rp_hdr) \<noteq> dspix \<or>
             ph_flags rp_hdr AND (SPIFFS_PH_FLAG_DELET OR SPIFFS_PH_FLAG_INDEX OR SPIFFS_PH_FLAG_USED) \<noteq>
               SPIFFS_PH_FLAG_DELET OR SPIFFS_PH_FLAG_INDEX
     then do {
       (res, data_pix, fs) \<leftarrow> find_or_zero fs (ph_obj_id p_hdr AND NOT SPIFFS_OBJ_ID_IX_FLAG) (word_of_int dspix) rpix;
       if res < SPIFFS_OK then Some (res, True, False, fs)
       else if data_pix = 0
       then do {
         (res, fs) \<leftarrow> spiffs_delete_obj_lazy fs (ph_obj_id p_hdr);
         Some (res, True, False, fs) }
       else do {
         (res, fs) \<leftarrow> rewrite_or (\<lambda>fs. spiffs_delete_obj_lazy fs (ph_obj_id p_hdr)) fs (ph_obj_id p_hdr) (word_of_int dspix) data_pix cur_pix;
         Some (res, True, True, fs) } }
     else do {
       again \<leftarrow> page_marked pix_offset rpix 1 fs;
       (res, restart, fs) \<leftarrow>
         (if again
          then do {
            (res, fs) \<leftarrow> spiffs_delete_obj_lazy fs (ph_obj_id p_hdr);
            if res < SPIFFS_OK then Some (res, False, fs) else do {
            (res, fs) \<leftarrow> spiffs_page_delete fs cur_pix;
            Some (res, True, fs) }}
          else Some (res, False, fs));
       if res < SPIFFS_OK then Some (res, True, False, fs) else do {
       fs \<leftarrow> mark_page pix_offset rpix 1 fs;
       Some (res, restart, restart, fs) }} }"

definition check_reference ::
  "u16 \<Rightarrow> spiffs_page_header \<Rightarrow> u16 \<Rightarrow> int \<Rightarrow> u16 \<Rightarrow> int \<Rightarrow> 'd spiffs \<Rightarrow> (int \<times> bool \<times> bool \<times> 'd spiffs) option" where
  "check_reference pix_offset p_hdr cur_pix dspix rpix res fs =
     (if rpix \<noteq> - 1 \<and> ucast rpix > SPIFFS_MAX_PAGES (cfg fs) \<or>
         in_scan (cfg fs) pix_offset rpix \<and> SPIFFS_IS_LOOKUP_PAGE (cfg fs) (ucast rpix)
      then check_bad_reference cur_pix dspix fs
      else if in_scan (cfg fs) pix_offset rpix
      then check_good_reference pix_offset p_hdr cur_pix dspix rpix fs
      else Some (res, False, False, fs))"

text \<open>The loop over the entries of the index page in the lookup work buffer, \<open>base_at\<close> bytes from its start.\<close>

fun check_references ::
  "u16 \<Rightarrow> spiffs_page_header \<Rightarrow> u16 \<Rightarrow> nat \<Rightarrow> u16 \<Rightarrow> nat list \<Rightarrow> int \<Rightarrow> 'd spiffs \<Rightarrow> (int \<times> bool \<times> 'd spiffs) option" where
  "check_references pix_offset p_hdr cur_pix base_at spix_offset [] res fs = Some (res, False, fs)"
| "check_references pix_offset p_hdr cur_pix base_at spix_offset (i # is) res fs =
     (if base_at + 2 * i + 2 \<le> length (lu_work fs)
      then do {
        (res, leave, restart, fs) \<leftarrow> check_reference pix_offset p_hdr cur_pix (uint spix_offset + int i)
          (get16 (lu_work fs) (base_at + 2 * i)) res fs;
        if leave then Some (res, restart, fs)
        else check_references pix_offset p_hdr cur_pix base_at spix_offset is res fs }
      else None)"

definition check_page :: "u16 \<Rightarrow> u16 \<Rightarrow> 'd spiffs \<Rightarrow> (int \<times> bool \<times> 'd spiffs) option" where
  "check_page pix_offset cur_pix fs = do {
     (res, p_hdr, fs) \<leftarrow> read_header fs cur_pix;
     if res < SPIFFS_OK then Some (res, False, fs) else do {
     let within_range = in_scan (cfg fs) pix_offset cur_pix;
     fs \<leftarrow> (if within_range \<and> ph_flags p_hdr AND SPIFFS_PH_FLAG_DELET \<noteq> 0 \<and> ph_flags p_hdr AND SPIFFS_PH_FLAG_USED = 0
           then mark_page pix_offset cur_pix 0 fs else Some fs);
     if ph_flags p_hdr AND SPIFFS_PH_FLAG_DELET \<noteq> 0 \<and> ph_flags p_hdr AND SPIFFS_PH_FLAG_IXDELE \<noteq> 0 \<and>
        ph_flags p_hdr AND (SPIFFS_PH_FLAG_INDEX OR SPIFFS_PH_FLAG_USED) = 0
     then do {
       fs \<leftarrow> (if within_range then mark_page pix_offset cur_pix 2 fs else Some fs);
       (res, bs, fs) \<leftarrow> spiffs_phys_rd fs (SPIFFS_OP_T_OBJ_LU2 OR SPIFFS_OP_C_READ) 0
         (SPIFFS_PAGE_TO_PADDR (cfg fs) (ucast cur_pix)) (log_page_size (cfg fs));
       let fs = fs\<lparr>lu_work := bs\<rparr>;
       if res < SPIFFS_OK then Some (res, False, fs)
       else if ph_span_ix p_hdr = 0
       then check_references pix_offset p_hdr cur_pix (unat sizeof_page_object_ix_header) 0
         [0..<unat (SPIFFS_OBJ_HDR_IX_LEN (cfg fs))] res fs
       else check_references pix_offset p_hdr cur_pix (unat sizeof_page_object_ix)
         (ucast (SPIFFS_OBJ_HDR_IX_LEN (cfg fs) + SPIFFS_OBJ_IX_LEN (cfg fs) * (ucast (ph_span_ix p_hdr) - 1)))
         [0..<unat (SPIFFS_OBJ_IX_LEN (cfg fs))] res fs }
     else Some (res, False, fs) }}"

partial_function (option) check_pages ::
  "u16 \<Rightarrow> u16 \<Rightarrow> u16 \<Rightarrow> int \<Rightarrow> 'd spiffs \<Rightarrow> (int \<times> bool \<times> 'd spiffs) option" where
  "check_pages pix_offset cur_block cur_pix res fs =
     (if ucast cur_pix < SPIFFS_PAGES_PER_BLOCK (cfg fs) * (ucast cur_block + 1)
      then do {
        (res, restart, fs) \<leftarrow> check_page pix_offset cur_pix fs;
        if res < SPIFFS_OK \<or> restart then Some (res, restart, fs)
        else check_pages pix_offset cur_block (cur_pix + 1) res fs }
      else Some (res, False, fs))"

partial_function (option) check_blocks ::
  "u16 \<Rightarrow> u16 \<Rightarrow> int \<Rightarrow> 'd spiffs \<Rightarrow> (int \<times> bool \<times> 'd spiffs) option" where
  "check_blocks pix_offset cur_block res fs =
     (if ucast cur_block < block_count fs
      then do {
        (res, restart, fs) \<leftarrow> check_pages pix_offset cur_block
          (ucast (SPIFFS_OBJ_LOOKUP_PAGES (cfg fs) + SPIFFS_PAGES_PER_BLOCK (cfg fs) * ucast cur_block)) res fs;
        if res < SPIFFS_OK \<or> restart then Some (res, restart, fs)
        else check_blocks pix_offset (cur_block + 1) res fs }
      else Some (res, False, fs))"

declare check_pages.simps [code] check_blocks.simps [code]

text \<open>A page in use that nothing refers to.\<close>

definition check_unreferenced :: "u16 \<Rightarrow> 'd spiffs \<Rightarrow> (int \<times> bool \<times> 'd spiffs) option" where
  "check_unreferenced cur_pix fs = do {
     (res, p_hdr, fs) \<leftarrow> read_header fs cur_pix;
     if res < SPIFFS_OK then Some (res, False, fs) else do {
     (res, rpix, objix_pix, fs) \<leftarrow> spiffs_object_get_data_page_index_reference fs (ph_obj_id p_hdr) (ph_span_ix p_hdr);
     let rewrite = (\<lambda>fs. do {
       (res, fs) \<leftarrow> rewrite_or (\<lambda>fs. do {
           (res, fs) \<leftarrow> spiffs_page_delete fs cur_pix;
           if res < SPIFFS_OK then Some (res, fs) else spiffs_delete_obj_lazy fs (ph_obj_id p_hdr) })
         fs (ph_obj_id p_hdr) (ph_span_ix p_hdr) cur_pix objix_pix;
       Some (res, True, fs) });
     let remove = (\<lambda>fs. do { (res, fs) \<leftarrow> spiffs_page_delete fs cur_pix; Some (res, False, fs) });
     if res = SPIFFS_OK
     then if rpix = - 1 \<or> ucast rpix > SPIFFS_MAX_PAGES (cfg fs) \<or> SPIFFS_IS_LOOKUP_PAGE (cfg fs) (ucast rpix)
       then rewrite fs
       else do {
         (res, rp_hdr, fs) \<leftarrow> read_header fs rpix;
         if res < SPIFFS_OK then Some (res, False, fs)
         else if ph_obj_id p_hdr AND NOT SPIFFS_OBJ_ID_IX_FLAG = ph_obj_id rp_hdr \<and>
                 ph_flags rp_hdr AND (SPIFFS_PH_FLAG_INDEX OR SPIFFS_PH_FLAG_DELET OR SPIFFS_PH_FLAG_USED OR SPIFFS_PH_FLAG_FINAL) =
                   SPIFFS_PH_FLAG_INDEX OR SPIFFS_PH_FLAG_DELET
         then remove fs
         else if rpix \<noteq> cur_pix then rewrite fs
         else Some (res, False, fs) }
     else if res = SPIFFS_ERR_NOT_FOUND then remove fs
     else Some (res, False, fs) }}"

text \<open>The bitmap, byte by byte, two pages in each.\<close>

fun check_bitmap :: "u16 \<Rightarrow> (nat \<times> nat) list \<Rightarrow> int \<Rightarrow> 'd spiffs \<Rightarrow> (int \<times> bool \<times> 'd spiffs) option" where
  "check_bitmap pix_offset [] res fs = Some (res, False, fs)"
| "check_bitmap pix_offset ((byte_ix, bit_ix) # is) res fs =
     (if byte_ix < length (work fs)
      then if drop_bit (4 * bit_ix) (work fs ! byte_ix) AND 0x7 = 0x1
        then do {
          (res, restart, fs) \<leftarrow> check_unreferenced (pix_offset + word_of_nat (2 * byte_ix + bit_ix)) fs;
          if res < SPIFFS_OK \<or> restart then Some (res, restart, fs)
          else check_bitmap pix_offset is res fs }
        else check_bitmap pix_offset is res fs
      else None)"

partial_function (option) check_ranges :: "u16 \<Rightarrow> int \<Rightarrow> 'd spiffs \<Rightarrow> (int \<times> 'd spiffs) option" where
  "check_ranges pix_offset res fs =
     (if ucast pix_offset < SPIFFS_PAGES_PER_BLOCK (cfg fs) * block_count fs
      then do {
        let n = unat (log_page_size (cfg fs));
        (res, restart, fs) \<leftarrow> check_blocks pix_offset 0 res (fs\<lparr>work := replicate n 0\<rparr>);
        if res < SPIFFS_OK then Some (res, fs) else do {
        (res, restart, fs) \<leftarrow>
          (if restart then Some (res, True, fs)
           else check_bitmap pix_offset (List.product [0..<n] [0, 1]) res fs);
        if res < SPIFFS_OK then Some (res, fs)
        else check_ranges (if restart then pix_offset else pix_offset + pages_per_scan (cfg fs)) res fs }}
      else Some (res, fs))"

declare check_ranges.simps [code]

definition spiffs_page_consistency_check_i :: "'d spiffs \<Rightarrow> (int \<times> 'd spiffs) option" where
  "spiffs_page_consistency_check_i fs = check_ranges 0 SPIFFS_OK fs"

definition spiffs_page_consistency_check :: "'d spiffs \<Rightarrow> (int \<times> 'd spiffs) option" where
  "spiffs_page_consistency_check fs = spiffs_page_consistency_check_i fs"

section \<open>Orphaned index pages\<close>

text \<open>The work buffer is a table of object ids; the index flag marks an unreachable one.  The position of the
  next entry to fill is the visitor's data.\<close>

definition obj_table_len :: "'d spiffs \<Rightarrow> nat" where
  "obj_table_len fs = unat (log_page_size (cfg fs) div sizeof_obj_id)"

definition obj_table :: "'d spiffs \<Rightarrow> nat \<Rightarrow> u16" where "obj_table fs i = get16 (work fs) (2 * i)"

definition spiffs_object_index_search :: "'d spiffs \<Rightarrow> u16 \<Rightarrow> int" where
  "spiffs_object_index_search fs obj_id =
     (case find (\<lambda>i. obj_table fs i AND NOT SPIFFS_OBJ_ID_IX_FLAG = obj_id AND NOT SPIFFS_OBJ_ID_IX_FLAG)
        [0..<obj_table_len fs] of
        Some i \<Rightarrow> int i | None \<Rightarrow> - 1)"

definition register_obj :: "u16 \<Rightarrow> nat \<Rightarrow> 'd spiffs \<Rightarrow> (nat \<times> 'd spiffs) option" where
  "register_obj obj_id log_ix fs =
     (if 2 * log_ix + 2 \<le> length (work fs)
      then Some (if log_ix + 1 \<ge> obj_table_len fs then 0 else log_ix + 1, fs\<lparr>work := blit (2 * log_ix) (bytes16 obj_id) (work fs)\<rparr>)
      else None)"

definition check_index_span ::
  "u16 \<Rightarrow> u16 \<Rightarrow> nat \<Rightarrow> 'd spiffs \<Rightarrow> (int \<times> nat \<times> 'd spiffs) option" where
  "check_index_span obj_id cur_pix log_ix fs = do {
     let r = spiffs_object_index_search fs obj_id;
     (res, res_c, del, log_ix, fs) \<leftarrow>
       (if r = - 1
        then do {
          (res, _, fs) \<leftarrow> spiffs_obj_lu_find_id_and_span fs (obj_id OR SPIFFS_OBJ_ID_IX_FLAG) 0 0;
          if res = SPIFFS_OK
          then do {
            (log_ix, fs) \<leftarrow> register_obj (obj_id AND NOT SPIFFS_OBJ_ID_IX_FLAG) log_ix fs;
            Some (SPIFFS_OK, SPIFFS_VIS_COUNTINUE_RELOAD, False, log_ix, fs) }
          else if res = SPIFFS_ERR_NOT_FOUND
          then do {
            (log_ix, fs) \<leftarrow> register_obj (obj_id OR SPIFFS_OBJ_ID_IX_FLAG) log_ix fs;
            Some (SPIFFS_OK, SPIFFS_VIS_COUNTINUE_RELOAD, True, log_ix, fs) }
          else if res < SPIFFS_OK then Some (res, res, False, log_ix, fs)
          else do {
            let log_ix = (if log_ix + 1 \<ge> obj_table_len fs then 0 else log_ix + 1);
            Some (SPIFFS_OK, SPIFFS_VIS_COUNTINUE_RELOAD, False, log_ix, fs) } }
        else Some (SPIFFS_OK, SPIFFS_VIS_COUNTINUE, obj_table fs (nat r) AND SPIFFS_OBJ_ID_IX_FLAG \<noteq> 0, log_ix, fs));
     if res < SPIFFS_OK then Some (res, log_ix, fs)
     else if del
     then do {
       (res, fs) \<leftarrow> spiffs_page_delete fs cur_pix;
       Some (if res < SPIFFS_OK then res else res_c, log_ix, fs) }
     else Some (res_c, log_ix, fs) }"

definition spiffs_object_index_consistency_check_v :: "(nat, 'd) visitor" where
  "spiffs_object_index_consistency_check_v fs obj_id cur_block cur_entry log_ix =
     (if obj_id \<noteq> SPIFFS_OBJ_ID_FREE \<and> obj_id \<noteq> SPIFFS_OBJ_ID_DELETED \<and> obj_id AND SPIFFS_OBJ_ID_IX_FLAG \<noteq> 0
      then do {
        let cur_pix = ucast (SPIFFS_OBJ_LOOKUP_ENTRY_TO_PIX (cfg fs) (ucast cur_block) (word_of_nat cur_entry));
        (res, p_hdr, fs) \<leftarrow> read_header fs cur_pix;
        if res < SPIFFS_OK then Some (res, log_ix, fs) else do {
        let fl = ph_flags p_hdr AND (SPIFFS_PH_FLAG_INDEX OR SPIFFS_PH_FLAG_FINAL OR SPIFFS_PH_FLAG_DELET OR SPIFFS_PH_FLAG_IXDELE);
        if ph_span_ix p_hdr = 0 \<and> fl = SPIFFS_PH_FLAG_DELET
        then do {
          (res, fs) \<leftarrow> spiffs_page_delete fs cur_pix;
          Some (if res < SPIFFS_OK then res else SPIFFS_VIS_COUNTINUE, log_ix, fs) }
        else if fl = SPIFFS_PH_FLAG_DELET OR SPIFFS_PH_FLAG_IXDELE then Some (SPIFFS_VIS_COUNTINUE, log_ix, fs)
        else if ph_span_ix p_hdr = 0
        then if spiffs_object_index_search fs obj_id = - 1
          then do {
            (log_ix, fs) \<leftarrow> register_obj (obj_id AND NOT SPIFFS_OBJ_ID_IX_FLAG) log_ix fs;
            Some (SPIFFS_VIS_COUNTINUE, log_ix, fs) }
          else Some (SPIFFS_VIS_COUNTINUE, log_ix, fs)
        else check_index_span obj_id cur_pix log_ix fs }}
      else Some (SPIFFS_VIS_COUNTINUE, log_ix, fs))"

definition spiffs_object_index_consistency_check :: "'d spiffs \<Rightarrow> (int \<times> 'd spiffs) option" where
  "spiffs_object_index_consistency_check fs = do {
     (res, _, fs) \<leftarrow> spiffs_obj_lu_find_entry_visitor (fs\<lparr>work := replicate (unat (log_page_size (cfg fs))) 0\<rparr>) 0 0 0 0
       (Some spiffs_object_index_consistency_check_v) 0;
     Some (if res = SPIFFS_VIS_END then SPIFFS_OK else res, fs) }"

section \<open>The whole check\<close>

text \<open>The results of the three checks are not looked at.\<close>

definition SPIFFS_check :: "'d spiffs \<Rightarrow> (int \<times> 'd spiffs) option" where
  "SPIFFS_check fs = api_checks fs id (do {
     (_, fs) \<leftarrow> spiffs_lookup_consistency_check fs;
     (_, fs) \<leftarrow> spiffs_object_index_consistency_check fs;
     (_, fs) \<leftarrow> spiffs_page_consistency_check fs;
     spiffs_obj_lu_scan fs })"

end
