(* ===== verification/SpiffsHandles.thy ===== *)
theory SpiffsHandles
  imports SpiffsCheck
begin

text \<open>
  The descriptor table as a table of handles, the object events that keep open descriptors in step with the index
  pages, and the checks at the start of the interface calls.
\<close>

section \<open>Handle tables\<close>

text \<open>What the users of a table of handles rely on: \<open>new\<close> takes a free slot, \<open>ret\<close> gives one back, and
  \<open>get\<close> finds the slot of an open handle and no other.\<close>

locale handle_table =
  fixes new :: "'s \<Rightarrow> int \<times> nat \<times> 's" and get :: "'s \<Rightarrow> int \<Rightarrow> int \<times> nat" and ret :: "'s \<Rightarrow> int \<Rightarrow> int \<times> 's"
    and table_ok :: "'s \<Rightarrow> bool" and is_open :: "'s \<Rightarrow> int \<Rightarrow> bool" and handle :: "nat \<Rightarrow> int"
  assumes get_open: "table_ok s \<Longrightarrow> is_open s (handle f) \<Longrightarrow> get s (handle f) = (0, f)"
    and get_closed: "table_ok s \<Longrightarrow> \<not> is_open s h \<Longrightarrow> fst (get s h) < 0"
    and new_ok: "table_ok s \<Longrightarrow> new s = (0, f, s') \<Longrightarrow>
      table_ok s' \<and> \<not> is_open s (handle f) \<and> (\<forall>h. is_open s' h \<longleftrightarrow> is_open s h \<or> h = handle f)"
    and new_full: "table_ok s \<Longrightarrow> new s = (r, f, s') \<Longrightarrow> r \<noteq> 0 \<Longrightarrow> r < 0 \<and> s' = s"
    and ret_open: "table_ok s \<Longrightarrow> is_open s h \<Longrightarrow>
      \<exists>s'. ret s h = (0, s') \<and> table_ok s' \<and> (\<forall>h'. is_open s' h' \<longleftrightarrow> is_open s h' \<and> h' \<noteq> h)"
    and ret_closed: "table_ok s \<Longrightarrow> \<not> is_open s h \<Longrightarrow> fst (ret s h) < 0 \<and> snd (ret s h) = s"
begin

lemma new_get:
  assumes "table_ok s" "new s = (0, f, s')"
  shows "get s' (handle f) = (0, f)" "is_open s' (handle f)"
  using new_ok [OF assms] get_open by auto

lemma new_keeps: "table_ok s \<Longrightarrow> new s = (r, f, s') \<Longrightarrow> is_open s h \<Longrightarrow> is_open s' h \<and> (r = 0 \<longrightarrow> h \<noteq> handle f)"
  using new_ok [of s f s'] new_full [of s r f s'] by (cases "r = 0") (simp_all, metis)

lemma ret_get:
  assumes "table_ok s" "ret s h = (r, s')"
  shows "fst (get s' h) < 0" "table_ok s'" "h' \<noteq> h \<Longrightarrow> is_open s' h' \<longleftrightarrow> is_open s h'"
proof -
  have "fst (get s' h) < 0 \<and> table_ok s' \<and> (h' \<noteq> h \<longrightarrow> is_open s' h' = is_open s h')"
    using assms ret_open [of s h] ret_closed [of s h] get_closed by (cases "is_open s h") fastforce+
  then show "fst (get s' h) < 0" "table_ok s'" "h' \<noteq> h \<Longrightarrow> is_open s' h' \<longleftrightarrow> is_open s h'" by simp_all
qed

lemma new_ret:
  assumes "table_ok s" "new s = (0, f, s1)" "ret s1 (handle f) = (r, s2)"
  shows "r = 0" "\<And>h. is_open s2 h \<longleftrightarrow> is_open s h"
proof -
  note n = new_ok [OF assms(1,2)]
  then show "r = 0" "\<And>h. is_open s2 h \<longleftrightarrow> is_open s h"
    using ret_open [of s1 "handle f"] new_get [OF assms(1,2)] assms(3) by fastforce+
qed

end

section \<open>The descriptor table\<close>

text \<open>A used descriptor has the number of its place, and all numbers fit the handle type.\<close>

definition fd_table_ok :: "'d spiffs \<Rightarrow> bool" where
  "fd_table_ok fs \<longleftrightarrow> fd_count fs < 32768 \<and> (\<forall>i < fd_count fs. file_nbr (fd_space fs ! i) \<in> {0, int i + 1})"

definition open_handle :: "'d spiffs \<Rightarrow> int \<Rightarrow> bool" where
  "open_handle fs h \<longleftrightarrow> 0 < h \<and> h \<le> int (fd_count fs) \<and> file_nbr (fd_space fs ! nat (h - 1)) \<noteq> 0"

definition handle_of :: "nat \<Rightarrow> int" where "handle_of f = int f + 1"

lemma to_s16_small: "n < 32768 \<Longrightarrow> to_s16 n = int n"
proof -
  assume n: "n < 32768"
  have "sint (word_of_nat n :: u16) = sint (word_of_int (int n) :: u16)" by simp
  also have "\<dots> = int n" using n by (subst sint_sbintrunc') (simp add: signed_take_bit_int_eq_self)
  finally show ?thesis by (simp add: to_s16_def)
qed

lemma fd_err_codes: "SPIFFS_OK = 0" "SPIFFS_ERR_FILE_CLOSED < 0" "SPIFFS_ERR_BAD_DESCRIPTOR < 0"
  "SPIFFS_ERR_OUT_OF_FILE_DESCS < 0"
  by (simp_all add: SPIFFS_OK_def SPIFFS_ERR_FILE_CLOSED_def SPIFFS_ERR_BAD_DESCRIPTOR_def SPIFFS_ERR_OUT_OF_FILE_DESCS_def)

lemma find_new_cases:
  assumes ok: "fd_table_ok fs" and r: "spiffs_fd_find_new fs = (r, f, fs')"
  shows "r = SPIFFS_OK \<and> f < fd_count fs \<and> file_nbr (fd_space fs ! f) = 0 \<and>
      fs' = fd_update f (\<lambda>fd. fd\<lparr>file_nbr := int f + 1\<rparr>) fs \<or>
    r = SPIFFS_ERR_OUT_OF_FILE_DESCS \<and> fs' = fs \<and> (\<forall>i < fd_count fs. file_nbr (fd_space fs ! i) \<noteq> 0)"
proof (cases "find (\<lambda>i. file_nbr (fd_space fs ! i) = 0) [0..<fd_count fs]")
  case None
  then have "\<forall>i < fd_count fs. file_nbr (fd_space fs ! i) \<noteq> 0" by (simp add: find_None_iff)
  then show ?thesis using r None by (simp add: spiffs_fd_find_new_def)
next
  case (Some i)
  then have i: "i < fd_count fs" "file_nbr (fd_space fs ! i) = 0" by (auto simp: find_Some_iff)
  have "Suc i < 32768 \<or> Suc i = fd_count fs" using i ok by (auto simp: fd_table_ok_def)
  then have "to_s16 (i + 1) = int i + 1" using ok to_s16_small [of "Suc i"] by (auto simp: fd_table_ok_def)
  then show ?thesis using r Some i by (auto simp: spiffs_fd_find_new_def)
qed

lemma fd_update_facts [simp]:
  "fd_count (fd_update f g fs) = fd_count fs"
  "f < fd_count fs \<Longrightarrow> fd_space (fd_update f g fs) ! i = (if i = f then g (fd_space fs ! f) else fd_space fs ! i)"
  by (auto simp: fd_update_def fd_count_def)

lemma open_handle_update:
  assumes "f < fd_count fs"
  shows "open_handle (fd_update f g fs) h \<longleftrightarrow>
    (if h = handle_of f then file_nbr (g (fd_space fs ! f)) \<noteq> 0 else open_handle fs h)"
  using assms by (auto simp: open_handle_def handle_of_def)

lemma fd_get_cases:
  assumes "fd_table_ok fs"
  shows "spiffs_fd_get fs h =
    (if open_handle fs h then (SPIFFS_OK, nat (h - 1))
     else if 0 < h \<and> h \<le> int (fd_count fs) then (SPIFFS_ERR_FILE_CLOSED, nat (h - 1))
     else (SPIFFS_ERR_BAD_DESCRIPTOR, 0))"
  using assms to_s16_small [of "fd_count fs"] by (auto simp: spiffs_fd_get_def open_handle_def fd_table_ok_def)

lemma fd_return_cases:
  assumes "fd_table_ok fs"
  shows "spiffs_fd_return fs h =
    (if open_handle fs h then (SPIFFS_OK, fd_update (nat (h - 1)) (\<lambda>fd. fd\<lparr>file_nbr := 0\<rparr>) fs)
     else if 0 < h \<and> h \<le> int (fd_count fs) then (SPIFFS_ERR_FILE_CLOSED, fs)
     else (SPIFFS_ERR_BAD_DESCRIPTOR, fs))"
  using assms to_s16_small [of "fd_count fs"] by (auto simp: spiffs_fd_return_def open_handle_def fd_table_ok_def)

interpretation fds: handle_table spiffs_fd_find_new spiffs_fd_get spiffs_fd_return fd_table_ok open_handle handle_of
proof unfold_locales
  fix s :: "'a spiffs" and f h s' r
  assume ok: "fd_table_ok s"
  show "open_handle s (handle_of f) \<Longrightarrow> spiffs_fd_get s (handle_of f) = (0, f)"
    by (simp add: fd_get_cases [OF ok] fd_err_codes handle_of_def)
  show "\<not> open_handle s h \<Longrightarrow> fst (spiffs_fd_get s h) < 0"
    by (simp add: fd_get_cases [OF ok] fd_err_codes)
  show "\<not> open_handle s h \<Longrightarrow> fst (spiffs_fd_return s h) < 0 \<and> snd (spiffs_fd_return s h) = s"
    by (simp add: fd_return_cases [OF ok] fd_err_codes)
  show "r < 0 \<and> s' = s" if "spiffs_fd_find_new s = (r, f, s')" "r \<noteq> 0"
    using find_new_cases [OF ok that(1)] that(2) fd_err_codes by auto
  show "fd_table_ok s' \<and> \<not> open_handle s (handle_of f) \<and> (\<forall>h. open_handle s' h \<longleftrightarrow> open_handle s h \<or> h = handle_of f)"
    if n: "spiffs_fd_find_new s = (0, f, s')"
  proof -
    have f: "f < fd_count s" "file_nbr (fd_space s ! f) = 0" "s' = fd_update f (\<lambda>fd. fd\<lparr>file_nbr := int f + 1\<rparr>) s"
      using find_new_cases [OF ok n] fd_err_codes by auto
    have "fd_table_ok s'" using ok f by (auto simp: fd_table_ok_def)
    moreover have "\<not> open_handle s (handle_of f)" using f by (simp add: open_handle_def handle_of_def)
    ultimately show ?thesis using f by (auto simp: open_handle_update)
  qed
  show "\<exists>s'. spiffs_fd_return s h = (0, s') \<and> fd_table_ok s' \<and> (\<forall>h'. open_handle s' h' \<longleftrightarrow> open_handle s h' \<and> h' \<noteq> h)"
    if o: "open_handle s h"
  proof -
    let ?f = "nat (h - 1)" and ?s = "fd_update (nat (h - 1)) (\<lambda>fd. fd\<lparr>file_nbr := 0\<rparr>) s"
    have f: "?f < fd_count s" "handle_of ?f = h" using o by (auto simp: open_handle_def handle_of_def)
    have "fd_table_ok ?s" using ok f by (auto simp: fd_table_ok_def)
    then show ?thesis using o f open_handle_update [OF f(1), of "\<lambda>fd. fd\<lparr>file_nbr := 0\<rparr>"]
      by (auto simp: fd_return_cases [OF ok] fd_err_codes)
  qed
qed

section \<open>Descriptors and object events\<close>

text \<open>The descriptor, if open on object \<open>oid\<close>, knows the pages where \<open>pix_of\<close> says the index pages are.\<close>

definition follows :: "u16 \<Rightarrow> (u16 \<Rightarrow> u16) \<Rightarrow> spiffs_fd \<Rightarrow> bool" where
  "follows oid pix_of fd \<longleftrightarrow> (file_nbr fd \<noteq> 0 \<and> fd_obj_id fd AND NOT SPIFFS_OBJ_ID_IX_FLAG = oid \<longrightarrow>
     objix_hdr_pix fd = pix_of 0 \<and> cursor_objix_pix fd = pix_of (cursor_objix_spix fd))"

lemma object_event_other:
  "file_nbr fd = 0 \<or> fd_obj_id fd AND NOT SPIFFS_OBJ_ID_IX_FLAG \<noteq> oid \<Longrightarrow> object_event_fd ev oid spix pix sz fd = fd"
  by (auto simp: object_event_fd_def)

lemma object_event_nbr:
  "file_nbr (object_event_fd ev oid spix pix sz fd) =
     (if ev = SPIFFS_EV_IX_DEL \<and> spix = 0 \<and> fd_obj_id fd AND NOT SPIFFS_OBJ_ID_IX_FLAG = oid then 0 else file_nbr fd)"
  by (cases ev) (auto simp: object_event_fd_def Let_def)

lemma object_event_follows:
  assumes "follows oid pix_of fd" "ev \<noteq> SPIFFS_EV_IX_DEL"
  shows "follows oid (pix_of(spix := pix)) (object_event_fd ev oid spix pix sz fd)"
  using assms by (cases ev) (auto simp: follows_def object_event_fd_def Let_def)

lemma and_not_flag_again: "((x :: u16) AND NOT m) AND NOT m = x AND NOT m"
  by (rule bit_word_eqI) (auto simp: bit_simps)

section \<open>Properties\<close>

text \<open>C25 (type). On a well-formed descriptor table a new descriptor gets a handle that was not open and is
  found under it; every other handle stays open or closed; with no free descriptor the call fails and
  changes nothing.  Returning an open handle closes it and no other, a closed handle or a number outside
  the table is rejected, and the table stays well-formed.\<close>

theorem descriptor_table_contract:
  assumes "fd_table_ok fs"
  shows "(case spiffs_fd_find_new fs of (r, f, fs') \<Rightarrow>
      if r = SPIFFS_OK
      then fd_table_ok fs' \<and> \<not> open_handle fs (handle_of f) \<and> spiffs_fd_get fs' (handle_of f) = (SPIFFS_OK, f) \<and>
        (\<forall>h. open_handle fs' h \<longleftrightarrow> open_handle fs h \<or> h = handle_of f)
      else r = SPIFFS_ERR_OUT_OF_FILE_DESCS \<and> fs' = fs \<and> (\<forall>f < fd_count fs. open_handle fs (handle_of f))) \<and>
    (case spiffs_fd_return fs h of (r, fs') \<Rightarrow>
      fd_table_ok fs' \<and> fst (spiffs_fd_get fs' h) < SPIFFS_OK \<and> (r = SPIFFS_OK \<longleftrightarrow> open_handle fs h) \<and>
      (r \<noteq> SPIFFS_OK \<longrightarrow> fs' = fs) \<and> (\<forall>h'. h' \<noteq> h \<longrightarrow> (open_handle fs' h' \<longleftrightarrow> open_handle fs h')))"
proof (intro conjI)
  obtain r f fs' where n: "spiffs_fd_find_new fs = (r, f, fs')" by (metis prod_cases3)
  show "case spiffs_fd_find_new fs of (r, f, fs') \<Rightarrow>
      if r = SPIFFS_OK
      then fd_table_ok fs' \<and> \<not> open_handle fs (handle_of f) \<and> spiffs_fd_get fs' (handle_of f) = (SPIFFS_OK, f) \<and>
        (\<forall>h. open_handle fs' h \<longleftrightarrow> open_handle fs h \<or> h = handle_of f)
      else r = SPIFFS_ERR_OUT_OF_FILE_DESCS \<and> fs' = fs \<and> (\<forall>f < fd_count fs. open_handle fs (handle_of f))"
    using fds.new_ok [OF assms] fds.new_get [OF assms] find_new_cases [OF assms n] n fd_err_codes
    by (auto simp: open_handle_def handle_of_def)
  obtain r' fs'' where t: "spiffs_fd_return fs h = (r', fs'')" by fastforce
  have "r' = SPIFFS_OK \<longleftrightarrow> open_handle fs h" "r' \<noteq> SPIFFS_OK \<longrightarrow> fs'' = fs"
    using t fd_return_cases [OF assms, of h] fd_err_codes by (auto split: if_splits)
  then show "case spiffs_fd_return fs h of (r, fs') \<Rightarrow>
      fd_table_ok fs' \<and> fst (spiffs_fd_get fs' h) < SPIFFS_OK \<and> (r = SPIFFS_OK \<longleftrightarrow> open_handle fs h) \<and>
      (r \<noteq> SPIFFS_OK \<longrightarrow> fs' = fs) \<and> (\<forall>h'. h' \<noteq> h \<longrightarrow> (open_handle fs' h' \<longleftrightarrow> open_handle fs h'))"
    using fds.ret_get [OF assms t] t fd_err_codes by simp
qed

text \<open>C26 (invariant). Object events keep the open descriptors in step with the index pages: when they knew
  the pages of an object's index, then after an update or creation of an index page at a new place
  they know the new place, whatever part of the file their cursor is in; after the deletion of the
  header no descriptor is open on the object.  Descriptors of other objects are not touched, and the
  descriptor table stays well-formed.\<close>

theorem object_event_keeps_descriptors:
  assumes "fd_table_ok fs" "\<forall>fd \<in> set (fd_space fs). follows (oid AND NOT SPIFFS_OBJ_ID_IX_FLAG) pix_of fd"
  shows "let fs' = spiffs_cb_object_event fs ev oid spix pix sz; oid' = oid AND NOT SPIFFS_OBJ_ID_IX_FLAG
    in fd_table_ok fs' \<and>
      (ev \<noteq> SPIFFS_EV_IX_DEL \<longrightarrow> (\<forall>fd \<in> set (fd_space fs'). follows oid' (pix_of(spix := pix)) fd)) \<and>
      (ev = SPIFFS_EV_IX_DEL \<and> spix = 0 \<longrightarrow>
        (\<forall>i < fd_count fs. fd_obj_id (fd_space fs ! i) AND NOT SPIFFS_OBJ_ID_IX_FLAG = oid' \<longrightarrow>
           \<not> open_handle fs' (handle_of i))) \<and>
      (\<forall>i < fd_count fs. fd_obj_id (fd_space fs ! i) AND NOT SPIFFS_OBJ_ID_IX_FLAG \<noteq> oid' \<longrightarrow>
         fd_space fs' ! i = fd_space fs ! i)"
proof -
  have "fd_table_ok (spiffs_cb_object_event fs ev oid spix pix sz)"
    using assms(1) by (auto simp: fd_table_ok_def fd_count_def spiffs_cb_object_event_def object_event_nbr)
  moreover have "\<forall>fd \<in> set (fd_space (spiffs_cb_object_event fs ev oid spix pix sz)).
      follows (oid AND NOT SPIFFS_OBJ_ID_IX_FLAG) (pix_of(spix := pix)) fd" if "ev \<noteq> SPIFFS_EV_IX_DEL"
    using assms(2) object_event_follows [OF _ that] by (auto simp: spiffs_cb_object_event_def)
  ultimately show ?thesis
    by (auto simp: Let_def spiffs_cb_object_event_def fd_count_def object_event_other object_event_nbr open_handle_def handle_of_def)
qed

text \<open>C27 (error). On a file system that is not configured or not mounted, the calls that work on the mounted one
  (\<^verbatim>\<open>creat\<close>, \<^verbatim>\<open>open\<close>, \<^verbatim>\<open>open_by_dirent\<close>, \<^verbatim>\<open>read\<close>, \<^verbatim>\<open>write\<close>, \<^verbatim>\<open>lseek\<close>, \<^verbatim>\<open>eof\<close>, \<^verbatim>\<open>tell\<close>, \<^verbatim>\<open>remove\<close>,
  \<^verbatim>\<open>fremove\<close>, \<^verbatim>\<open>rename\<close>, \<^verbatim>\<open>stat\<close>, \<^verbatim>\<open>fstat\<close>, \<^verbatim>\<open>fflush\<close>, \<^verbatim>\<open>close\<close>, \<^verbatim>\<open>info\<close>, \<^verbatim>\<open>opendir\<close>, \<^verbatim>\<open>closedir\<close>, \<^verbatim>\<open>check\<close>)
  fail with the error code that says so and change nothing but \<^verbatim>\<open>err_code\<close>: no flash access, no descriptor taken.
  Three calls differ: \<^verbatim>\<open>readdir\<close> looks only at whether the file system is mounted, \<^verbatim>\<open>format\<close>, which is meant for one
  that is not, only at the configuration, and \<^verbatim>\<open>unmount\<close> does nothing and sets no code.\<close>

theorem calls_need_mounted:
  assumes "\<not> (SPIFFS_CHECK_CFG fs \<and> SPIFFS_CHECK_MOUNT fs)"
  defines "e \<equiv> (if SPIFFS_CHECK_CFG fs then SPIFFS_ERR_NOT_MOUNTED else SPIFFS_ERR_NOT_CONFIGURED)"
  shows "SPIFFS_creat stack fs path = Some (- 1, fs\<lparr>err_code := e\<rparr>) \<and>
    SPIFFS_open stack fs path flags = Some (- 1, fs\<lparr>err_code := e\<rparr>) \<and>
    SPIFFS_open_by_dirent fs de flags = Some (- 1, fs\<lparr>err_code := e\<rparr>) \<and>
    SPIFFS_read fs fh len = Some (- 1, [], fs\<lparr>err_code := e\<rparr>) \<and>
    SPIFFS_write fs fh buf len = Some (- 1, fs\<lparr>err_code := e\<rparr>) \<and>
    SPIFFS_lseek fs fh offs whence = Some (- 1, fs\<lparr>err_code := e\<rparr>) \<and>
    SPIFFS_eof fs fh = Some (- 1, fs\<lparr>err_code := e\<rparr>) \<and> SPIFFS_tell fs fh = Some (- 1, fs\<lparr>err_code := e\<rparr>) \<and>
    SPIFFS_remove fs path = Some (- 1, fs\<lparr>err_code := e\<rparr>) \<and> SPIFFS_fremove fs fh = Some (- 1, fs\<lparr>err_code := e\<rparr>) \<and>
    SPIFFS_rename fs path new = Some (- 1, fs\<lparr>err_code := e\<rparr>) \<and>
    SPIFFS_stat fs path = Some (- 1, None, fs\<lparr>err_code := e\<rparr>) \<and>
    SPIFFS_fstat fs fh = Some (- 1, None, fs\<lparr>err_code := e\<rparr>) \<and>
    SPIFFS_fflush fs fh = Some (- 1, fs\<lparr>err_code := e\<rparr>) \<and> SPIFFS_close fs fh = Some (fs\<lparr>err_code := e\<rparr>) \<and>
    SPIFFS_info fs = Some (- 1, 0, 0, fs\<lparr>err_code := e\<rparr>) \<and> SPIFFS_opendir fs = (None, fs\<lparr>err_code := e\<rparr>) \<and>
    SPIFFS_closedir fs = (- 1, fs\<lparr>err_code := e\<rparr>) \<and> SPIFFS_check fs = Some (- 1, fs\<lparr>err_code := e\<rparr>) \<and>
    (\<not> SPIFFS_CHECK_MOUNT fs \<longrightarrow> SPIFFS_readdir fs d = Some (None, d, fs\<lparr>err_code := SPIFFS_ERR_NOT_MOUNTED\<rparr>)) \<and>
    (\<not> SPIFFS_CHECK_CFG fs \<longrightarrow> SPIFFS_format fs = Some (- 1, fs\<lparr>err_code := SPIFFS_ERR_NOT_CONFIGURED\<rparr>)) \<and>
    SPIFFS_unmount fs = Some fs"
  using assms(1)
  by (auto simp: SPIFFS_creat_def SPIFFS_open_def SPIFFS_open_by_dirent_def SPIFFS_read_def SPIFFS_write_def
      SPIFFS_lseek_def SPIFFS_eof_def SPIFFS_tell_def SPIFFS_remove_def SPIFFS_fremove_def SPIFFS_rename_def
      SPIFFS_stat_def SPIFFS_fstat_def SPIFFS_fflush_def SPIFFS_close_def SPIFFS_info_def SPIFFS_opendir_def
      SPIFFS_closedir_def SPIFFS_check_def SPIFFS_readdir_def SPIFFS_format_def SPIFFS_unmount_def api_checks_def api_error_def e_def)

text \<open>On an open file that is empty, whose size field is the undefined length, \<^verbatim>\<open>SPIFFS_eof\<close> says
  at position 0 that the end is not reached, and \<^verbatim>\<open>SPIFFS_lseek\<close> to position 0 fails: both compare with the
  raw size field, which \<^verbatim>\<open>SPIFFS_fstat\<close> shows as 0.\<close>

theorem empty_file_has_no_end:
  assumes "SPIFFS_CHECK_CFG fs" "SPIFFS_CHECK_MOUNT fs" "spiffs_fd_get fs fh = (SPIFFS_OK, f)"
    and "spiffs_fflush_cache fs fh = Some (r, fs)"
    and "fd_size (fd_space fs ! f) = SPIFFS_UNDEFINED_LEN" "fdoffset (fd_space fs ! f) = 0"
  shows "SPIFFS_eof fs fh = Some (0, fs) \<and>
    SPIFFS_lseek fs fh 0 SPIFFS_SEEK_SET = Some (- 1, fs\<lparr>err_code := SPIFFS_ERR_END_OF_OBJECT\<rparr>) \<and>
    visible_size (fd_size (fd_space fs ! f)) = 0"
  using assms
  by (simp add: SPIFFS_eof_def SPIFFS_lseek_def api_checks_def api_error_def fd_err_codes SPIFFS_UNDEFINED_LEN_def
      visible_size_def SPIFFS_SEEK_SET_def SPIFFS_SEEK_CUR_def SPIFFS_SEEK_END_def)

section \<open>Examples\<close>

definition two_fds :: "(nat \<Rightarrow> u8) flash_hw spiffs" where
  "two_fds = (example_mount (\<lambda>i. 0xff))\<lparr>mounted := 1, fd_space := [zero_fd, zero_fd\<lparr>file_nbr := 2,
     fd_obj_id := 0x8005, fd_size := - 1, objix_hdr_pix := 3, cursor_objix_pix := 3, fd_flags := SPIFFS_DIRECT\<rparr>]\<rparr>"

lemma two_fds_facts:
  "fd_table_ok two_fds" "fd_count two_fds = 2" "SPIFFS_CHECK_CFG two_fds" "SPIFFS_CHECK_MOUNT two_fds"
  by (auto simp: fd_table_ok_def fd_count_def two_fds_def zero_fd_def less_Suc_eq numeral_2_eq_2 SPIFFS_CHECK_CFG_def
      SPIFFS_CHECK_MOUNT_def example_mount_def SPIFFS_mount_state_def Let_def)

theorem descriptor_table_contract_witness:
  "\<exists>fs'. spiffs_fd_find_new two_fds = (SPIFFS_OK, 0, fs') \<and> spiffs_fd_get fs' 1 = (SPIFFS_OK, 0) \<and> open_handle fs' 2"
proof -
  obtain fs' where n: "spiffs_fd_find_new two_fds = (SPIFFS_OK, 0, fs')"
    by (simp add: spiffs_fd_find_new_def two_fds_facts numeral_2_eq_2) (simp add: two_fds_def zero_fd_def)
  have "open_handle two_fds 2" by (simp add: open_handle_def two_fds_facts) (simp add: two_fds_def)
  then show ?thesis using descriptor_table_contract [OF two_fds_facts(1)] n by (simp add: handle_of_def)
qed

theorem object_event_keeps_descriptors_witness:
  "follows 5 ((\<lambda>_. 3)(0 := 9)) (fd_space (spiffs_cb_object_event two_fds SPIFFS_EV_IX_UPD 0x8005 0 9 0) ! 1)"
proof -
  have "\<forall>fd \<in> set (fd_space two_fds). follows (0x8005 AND NOT SPIFFS_OBJ_ID_IX_FLAG) (\<lambda>_. 3) fd"
    by (simp add: two_fds_def zero_fd_def follows_def)
  from object_event_keeps_descriptors [OF two_fds_facts(1) this, of SPIFFS_EV_IX_UPD 0 9 0]
  have "\<forall>fd \<in> set (fd_space (spiffs_cb_object_event two_fds SPIFFS_EV_IX_UPD 0x8005 0 9 0)).
      follows 5 ((\<lambda>_. 3)(0 := 9)) fd"
    by (simp add: Let_def SPIFFS_OBJ_ID_IX_FLAG_def)
  moreover have "length (fd_space (spiffs_cb_object_event two_fds SPIFFS_EV_IX_UPD 0x8005 0 9 0)) = 2"
    using two_fds_facts(2) by (simp add: spiffs_cb_object_event_def fd_count_def)
  ultimately show ?thesis by simp
qed

theorem calls_need_mounted_witness:
  "\<exists>fs. SPIFFS_read (example_mount (\<lambda>i. 0xff)) 1 10 = Some (- 1, [], fs) \<and> err_code fs = - 10000"
proof -
  let ?fs = "example_mount (\<lambda>i. 0xff)"
  have m: "mounted (spiffs_cache_init fs) = mounted fs" for fs :: "(nat \<Rightarrow> u8) flash_hw spiffs"
    using cache_init_keeps [of fs] by auto
  have "SPIFFS_CHECK_CFG ?fs" "\<not> SPIFFS_CHECK_MOUNT ?fs"
    by (simp_all add: SPIFFS_CHECK_CFG_def SPIFFS_CHECK_MOUNT_def example_mount_def SPIFFS_mount_state_def Let_def m)
  then show ?thesis using calls_need_mounted [of ?fs] by (simp add: SPIFFS_ERR_NOT_MOUNTED_def)
qed

theorem empty_file_has_no_end_witness:
  "SPIFFS_eof two_fds 2 = Some (0, two_fds)"
proof -
  have g: "spiffs_fd_get two_fds 2 = (SPIFFS_OK, 1)"
    by (simp add: spiffs_fd_get_def two_fds_facts to_s16_small) (simp add: two_fds_def)
  have fl: "spiffs_fflush_cache two_fds 2 = Some (SPIFFS_OK, two_fds)"
    by (simp add: spiffs_fflush_cache_def g fd_err_codes) (simp add: two_fds_def SPIFFS_DIRECT_def)
  have "fd_size (fd_space two_fds ! 1) = SPIFFS_UNDEFINED_LEN" "fdoffset (fd_space two_fds ! 1) = 0"
    by (simp_all add: two_fds_def SPIFFS_UNDEFINED_LEN_def zero_fd_def)
  from empty_file_has_no_end [OF two_fds_facts(3,4) g fl this] show ?thesis by simp
qed

end
