(* ===== verification/WString.thy ===== *)
theory WString
  imports NumConv
begin

text \<open>
  The Arduino class \<^verbatim>\<open>String\<close> (\<^verbatim>\<open>WString.h\<close>, \<^verbatim>\<open>WString.cpp\<close>): a heap buffer with its capacity and
  length, every member function as it works on the buffer, and the text functions they implement,
  which the application's model is written with.

  The allocator \<^verbatim>\<open>os_realloc\<close> belongs to the SDK and is a parameter; a failed allocation is one of
  its outcomes.  \<^verbatim>\<open>strstr\<close>, \<^verbatim>\<open>strcmp\<close>, \<^verbatim>\<open>strncmp\<close>, \<^verbatim>\<open>memcpy\<close> and \<^verbatim>\<open>memmove\<close> are the ROM's standard
  functions; \<^verbatim>\<open>strchr\<close>, \<^verbatim>\<open>strrchr\<close> and the number conversions are the framework's own.  A length
  is a \<^verbatim>\<open>nat\<close>, with the wrap-around of \<^verbatim>\<open>unsigned int\<close> written out where a difference can be negative.
  The \<^verbatim>\<open>float\<close> members and those for strings in program memory are not modelled.
\<close>

section \<open>The object and its buffer\<close>

record arduino_string =
  sbuffer :: "u8 list option"
  capacity :: nat
  slen :: nat

type_synonym os_realloc = "u8 list option \<Rightarrow> nat \<Rightarrow> u8 list option"

definition init_string :: arduino_string where
  "init_string = \<lparr>sbuffer = None, capacity = 0, slen = 0\<rparr>"

definition invalidate :: "arduino_string \<Rightarrow> arduino_string" where
  "invalidate s = s\<lparr>sbuffer := None, capacity := 0, slen := 0\<rparr>"

definition changeBuffer :: "os_realloc \<Rightarrow> nat \<Rightarrow> arduino_string \<Rightarrow> bool \<times> arduino_string" where
  "changeBuffer ra maxStrLen s =
     (case ra (sbuffer s) (maxStrLen + 1) of
        Some newbuffer \<Rightarrow> (True, s\<lparr>sbuffer := Some newbuffer, capacity := maxStrLen\<rparr>)
      | None \<Rightarrow> (False, s))"

definition reserve :: "os_realloc \<Rightarrow> nat \<Rightarrow> arduino_string \<Rightarrow> bool \<times> arduino_string" where
  "reserve ra n s =
     (if sbuffer s \<noteq> None \<and> capacity s \<ge> n then (True, s)
      else case changeBuffer ra n s of
        (True, s) \<Rightarrow> (True, if slen s = 0 then s\<lparr>sbuffer := map_option (\<lambda>b. b[0 := 0]) (sbuffer s)\<rparr> else s)
      | (False, s) \<Rightarrow> (False, s))"

text \<open>Writes into the buffer: \<^verbatim>\<open>memcpy\<close> or \<^verbatim>\<open>strcpy\<close> to an offset, undefined outside it.\<close>

definition mem_put :: "nat \<Rightarrow> u8 list \<Rightarrow> u8 list \<Rightarrow> u8 list option" where
  "mem_put off src b = (if off + length src \<le> length b then Some (blit off src b) else None)"

definition str_put :: "nat \<Rightarrow> u8 list \<Rightarrow> u8 list \<Rightarrow> u8 list option" where
  "str_put off src b = do { n \<leftarrow> strlen src; mem_put off (take (Suc n) src) b }"

definition copy :: "os_realloc \<Rightarrow> u8 list \<Rightarrow> nat \<Rightarrow> arduino_string \<Rightarrow> arduino_string option" where
  "copy ra cstr len s =
     (case reserve ra len s of
        (False, s) \<Rightarrow> Some (invalidate s)
      | (True, s) \<Rightarrow> do {
          b \<leftarrow> sbuffer s;
          b \<leftarrow> str_put 0 cstr b;
          Some (s\<lparr>slen := len, sbuffer := Some b\<rparr>) })"

definition move :: "arduino_string \<Rightarrow> arduino_string \<Rightarrow> (arduino_string \<times> arduino_string) option" where
  "move s rhs =
     (case sbuffer s of
        Some b \<Rightarrow>
          if capacity s \<ge> slen rhs
          then do {
            r \<leftarrow> sbuffer rhs;
            b \<leftarrow> str_put 0 r b;
            Some (s\<lparr>sbuffer := Some b, slen := slen rhs\<rparr>, rhs\<lparr>slen := 0\<rparr>) }
          else Some (rhs, invalidate rhs)
      | None \<Rightarrow> Some (rhs, invalidate rhs))"

section \<open>Constructors and assignment\<close>

text \<open>The pointer arguments that may be null are options.\<close>

definition assign_cstr :: "os_realloc \<Rightarrow> u8 list option \<Rightarrow> arduino_string \<Rightarrow> arduino_string option" where
  "assign_cstr ra cstr s =
     (case cstr of Some c \<Rightarrow> do { n \<leftarrow> strlen c; copy ra c n s } | None \<Rightarrow> Some (invalidate s))"

definition assign_string :: "os_realloc \<Rightarrow> arduino_string \<Rightarrow> arduino_string \<Rightarrow> arduino_string option" where
  "assign_string ra rhs s =
     (case sbuffer rhs of Some b \<Rightarrow> copy ra b (slen rhs) s | None \<Rightarrow> Some (invalidate s))"

definition String_cstr :: "os_realloc \<Rightarrow> u8 list option \<Rightarrow> arduino_string option" where
  "String_cstr ra cstr =
     (case cstr of Some c \<Rightarrow> do { n \<leftarrow> strlen c; copy ra c n init_string } | None \<Rightarrow> Some init_string)"

definition String_copy :: "os_realloc \<Rightarrow> arduino_string \<Rightarrow> arduino_string option" where
  "String_copy ra v = assign_string ra v init_string"

definition String_char :: "os_realloc \<Rightarrow> u8 \<Rightarrow> arduino_string option" where
  "String_char ra c = assign_cstr ra (Some [c, 0]) init_string"

definition String_int :: "os_realloc \<Rightarrow> int \<Rightarrow> u8 \<Rightarrow> arduino_string option" where
  "String_int ra v base = do { b \<leftarrow> itoa v (uint base); assign_cstr ra (Some b) init_string }"

definition String_long :: "os_realloc \<Rightarrow> int \<Rightarrow> u8 \<Rightarrow> arduino_string option" where
  "String_long ra v base = do { b \<leftarrow> ltoa v (uint base); assign_cstr ra (Some b) init_string }"

definition String_uint :: "os_realloc \<Rightarrow> u32 \<Rightarrow> u8 \<Rightarrow> arduino_string option" where
  "String_uint ra v base = do { b \<leftarrow> utoa v (uint base); assign_cstr ra (Some b) init_string }"

definition String_ulong :: "os_realloc \<Rightarrow> u32 \<Rightarrow> u8 \<Rightarrow> arduino_string option" where
  "String_ulong ra v base = do { b \<leftarrow> ultoa v (uint base); assign_cstr ra (Some b) init_string }"

definition String_uchar :: "os_realloc \<Rightarrow> u8 \<Rightarrow> u8 \<Rightarrow> arduino_string option" where
  "String_uchar ra v base = do { b \<leftarrow> utoa (ucast v) (uint base); assign_cstr ra (Some b) init_string }"

section \<open>Concatenation\<close>

text \<open>The result is what the C++ function returns: success.\<close>

definition concat_buf ::
  "os_realloc \<Rightarrow> u8 list option \<Rightarrow> nat \<Rightarrow> arduino_string \<Rightarrow> (bool \<times> arduino_string) option" where
  "concat_buf ra cstr len s =
     (case cstr of
        None \<Rightarrow> Some (False, s)
      | Some c \<Rightarrow>
          if len = 0 then Some (True, s)
          else case reserve ra (slen s + len) s of
            (False, s) \<Rightarrow> Some (False, s)
          | (True, s) \<Rightarrow> do {
              b \<leftarrow> sbuffer s;
              b \<leftarrow> str_put (slen s) c b;
              Some (True, s\<lparr>sbuffer := Some b, slen := slen s + len\<rparr>) })"

text \<open>Concatenating a string with itself: the \<^verbatim>\<open>strcpy\<close> reads the buffer it writes, and a buffer that
  had to grow leaves the argument pointing to the freed one.\<close>

function strcpy_within :: "nat \<Rightarrow> nat \<Rightarrow> u8 list \<Rightarrow> u8 list option" where
  "strcpy_within dst src b =
     (if src < length b \<and> dst < length b
      then if b ! src = 0 then Some (b[dst := 0]) else strcpy_within (Suc dst) (Suc src) (b[dst := b ! src])
      else None)"
  by pat_completeness auto
termination
  by (relation "measure (\<lambda>(dst, src, b). length b - dst)") auto

declare strcpy_within.simps [simp del]

definition concat_self :: "os_realloc \<Rightarrow> arduino_string \<Rightarrow> (bool \<times> arduino_string) option" where
  "concat_self ra s =
     (case sbuffer s of
        None \<Rightarrow> Some (False, s)
      | Some b \<Rightarrow>
          if slen s = 0 then Some (True, s)
          else if capacity s \<ge> slen s + slen s
          then do { b \<leftarrow> strcpy_within (slen s) 0 b; Some (True, s\<lparr>sbuffer := Some b, slen := slen s + slen s\<rparr>) }
          else if ra (sbuffer s) (slen s + slen s + 1) = None then Some (False, s) else None)"

definition concat_string ::
  "os_realloc \<Rightarrow> bool \<Rightarrow> arduino_string \<Rightarrow> arduino_string \<Rightarrow> (bool \<times> arduino_string) option" where
  "concat_string ra same r s = (if same then concat_self ra s else concat_buf ra (sbuffer r) (slen r) s)"

definition concat_cstr :: "os_realloc \<Rightarrow> u8 list option \<Rightarrow> arduino_string \<Rightarrow> (bool \<times> arduino_string) option" where
  "concat_cstr ra cstr s =
     (case cstr of None \<Rightarrow> Some (False, s) | Some c \<Rightarrow> do { n \<leftarrow> strlen c; concat_buf ra (Some c) n s })"

definition concat_char where "concat_char ra c s = concat_buf ra (Some [c, 0]) 1 s"

definition concat_int :: "os_realloc \<Rightarrow> int \<Rightarrow> arduino_string \<Rightarrow> (bool \<times> arduino_string) option" where
  "concat_int ra v s = do { b \<leftarrow> itoa v 10; concat_cstr ra (Some b) s }"

definition concat_uchar :: "os_realloc \<Rightarrow> u8 \<Rightarrow> arduino_string \<Rightarrow> (bool \<times> arduino_string) option" where
  "concat_uchar ra v s = do { b \<leftarrow> itoa (uint v) 10; concat_cstr ra (Some b) s }"

definition concat_uint :: "os_realloc \<Rightarrow> u32 \<Rightarrow> arduino_string \<Rightarrow> (bool \<times> arduino_string) option" where
  "concat_uint ra v s = do { b \<leftarrow> utoa v 10; concat_cstr ra (Some b) s }"

definition concat_long :: "os_realloc \<Rightarrow> int \<Rightarrow> arduino_string \<Rightarrow> (bool \<times> arduino_string) option" where
  "concat_long ra v s = do { b \<leftarrow> ltoa v 10; concat_cstr ra (Some b) s }"

definition concat_ulong :: "os_realloc \<Rightarrow> u32 \<Rightarrow> arduino_string \<Rightarrow> (bool \<times> arduino_string) option" where
  "concat_ulong ra v s = do { b \<leftarrow> ultoa v 10; concat_cstr ra (Some b) s }"

text \<open>\<^verbatim>\<open>operator +\<close> on a \<^verbatim>\<open>StringSumHelper\<close>: the object itself, invalid when the concatenation failed.\<close>

definition plus_string :: "os_realloc \<Rightarrow> arduino_string \<Rightarrow> arduino_string \<Rightarrow> arduino_string option" where
  "plus_string ra a rhs = do { (ok, a) \<leftarrow> concat_buf ra (sbuffer rhs) (slen rhs) a;
     Some (if ok then a else invalidate a) }"

definition plus_cstr :: "os_realloc \<Rightarrow> arduino_string \<Rightarrow> u8 list option \<Rightarrow> arduino_string option" where
  "plus_cstr ra a cstr = do { (ok, a) \<leftarrow> concat_cstr ra cstr a; Some (if ok then a else invalidate a) }"

definition plus_char :: "os_realloc \<Rightarrow> arduino_string \<Rightarrow> u8 \<Rightarrow> arduino_string option" where
  "plus_char ra a c = do { (ok, a) \<leftarrow> concat_char ra c a; Some (if ok then a else invalidate a) }"

section \<open>Comparison\<close>

fun strcmp :: "u8 list \<Rightarrow> u8 list \<Rightarrow> int option" where
  "strcmp (a # s) (b # t) =
     (if a \<noteq> b then Some (uint a - uint b) else if a = 0 then Some 0 else strcmp s t)"
| "strcmp _ _ = None"

fun strncmp :: "u8 list \<Rightarrow> u8 list \<Rightarrow> nat \<Rightarrow> int option" where
  "strncmp s t 0 = Some 0"
| "strncmp (a # s) (b # t) (Suc n) =
     (if a \<noteq> b then Some (uint a - uint b) else if a = 0 then Some 0 else strncmp s t n)"
| "strncmp _ _ _ = None"

definition compareTo :: "arduino_string \<Rightarrow> arduino_string \<Rightarrow> int option" where
  "compareTo a s =
     (case (sbuffer a, sbuffer s) of
        (Some b, Some c) \<Rightarrow> strcmp b c
      | (Some b, None) \<Rightarrow> if slen a > 0 then Some (uint (hd b)) else Some 0
      | (None, Some c) \<Rightarrow> if slen s > 0 then Some (- uint (hd c)) else Some 0
      | (None, None) \<Rightarrow> Some 0)"

definition equals :: "arduino_string \<Rightarrow> arduino_string \<Rightarrow> bool option" where
  "equals a s = (if slen a = slen s then do { c \<leftarrow> compareTo a s; Some (c = 0) } else Some False)"

definition equals_cstr :: "arduino_string \<Rightarrow> u8 list option \<Rightarrow> bool option" where
  "equals_cstr a cstr =
     (if slen a = 0 then (case cstr of None \<Rightarrow> Some True | Some c \<Rightarrow> if c = [] then None else Some (hd c = 0))
      else do {
        b \<leftarrow> sbuffer a;
        case cstr of None \<Rightarrow> Some (hd b = 0) | Some c \<Rightarrow> do { r \<leftarrow> strcmp b c; Some (r = 0) } })"

definition less_string where "less_string a s = do { c \<leftarrow> compareTo a s; Some (c < 0) }"
definition greater_string where "greater_string a s = do { c \<leftarrow> compareTo a s; Some (c > 0) }"
definition less_eq_string where "less_eq_string a s = do { c \<leftarrow> compareTo a s; Some (c \<le> 0) }"
definition greater_eq_string where "greater_eq_string a s = do { c \<leftarrow> compareTo a s; Some (c \<ge> 0) }"

fun equals_case_loop :: "u8 list \<Rightarrow> u8 list \<Rightarrow> bool option" where
  "equals_case_loop (a # p1) (b # p2) =
     (if a = 0 then Some True
      else if tolower (uint a) \<noteq> tolower (uint b) then Some False else equals_case_loop p1 p2)"
| "equals_case_loop (a # p1) [] = (if a = 0 then Some True else None)"
| "equals_case_loop [] _ = None"

text \<open>Both arguments being the same object is the flag \<open>same\<close>.\<close>

definition equalsIgnoreCase :: "bool \<Rightarrow> arduino_string \<Rightarrow> arduino_string \<Rightarrow> bool option" where
  "equalsIgnoreCase same a s2 =
     (if same then Some True else if slen a \<noteq> slen s2 then Some False else if slen a = 0 then Some True
      else do { b \<leftarrow> sbuffer a; c \<leftarrow> sbuffer s2; equals_case_loop b c })"

definition startsWith_from :: "arduino_string \<Rightarrow> arduino_string \<Rightarrow> nat \<Rightarrow> bool option" where
  "startsWith_from a s2 offset =
     (case (sbuffer a, sbuffer s2) of
        (Some b, Some c) \<Rightarrow>
          if offset > (slen a + 2 ^ 32 - slen s2) mod 2 ^ 32 then Some False
          else do { r \<leftarrow> strncmp (drop offset b) c (slen s2); Some (r = 0) }
      | _ \<Rightarrow> Some False)"

definition startsWith :: "arduino_string \<Rightarrow> arduino_string \<Rightarrow> bool option" where
  "startsWith a s2 = (if slen a < slen s2 then Some False else startsWith_from a s2 0)"

definition endsWith :: "arduino_string \<Rightarrow> arduino_string \<Rightarrow> bool option" where
  "endsWith a s2 =
     (case (sbuffer a, sbuffer s2) of
        (Some b, Some c) \<Rightarrow>
          if slen a < slen s2 then Some False
          else do { r \<leftarrow> strcmp (drop (slen a - slen s2) b) c; Some (r = 0) }
      | _ \<Rightarrow> Some False)"

section \<open>Character access\<close>

definition charAt :: "arduino_string \<Rightarrow> nat \<Rightarrow> u8" where
  "charAt s loc = (case sbuffer s of Some b \<Rightarrow> if loc \<ge> slen s then 0 else b ! loc | None \<Rightarrow> 0)"

definition setCharAt :: "nat \<Rightarrow> u8 \<Rightarrow> arduino_string \<Rightarrow> arduino_string" where
  "setCharAt loc c s = (if loc < slen s then s\<lparr>sbuffer := map_option (\<lambda>b. b[loc := c]) (sbuffer s)\<rparr> else s)"

text \<open>The destination is the caller's array, null or with \<open>bufsize\<close> bytes at least.\<close>

definition getBytes :: "arduino_string \<Rightarrow> u8 list option \<Rightarrow> nat \<Rightarrow> nat \<Rightarrow> u8 list option option" where
  "getBytes s buf bufsize index =
     (case buf of
        None \<Rightarrow> Some None
      | Some d \<Rightarrow>
          if bufsize = 0 then Some (Some d)
          else if index \<ge> slen s then map_option Some (mem_put 0 [0] d)
          else do {
            b \<leftarrow> sbuffer s;
            let n = min (bufsize - 1) (slen s - index);
            bs \<leftarrow> strncpy (drop index b) n;
            d \<leftarrow> mem_put 0 bs d;
            d \<leftarrow> mem_put n [0] d;
            Some (Some d) })"

definition toCharArray where "toCharArray s buf bufsize index = getBytes s buf bufsize index"

section \<open>Search\<close>

text \<open>The ROM's \<^verbatim>\<open>strstr\<close>: the offset of the first match.\<close>

definition strstr :: "u8 list \<Rightarrow> u8 list \<Rightarrow> nat option option" where
  "strstr haystack needle = do {
     h \<leftarrow> strlen haystack;
     n \<leftarrow> strlen needle;
     Some (find (\<lambda>i. take n (drop i haystack) = take n needle) [0..<Suc h - n]) }"

definition indexOf_char_from :: "arduino_string \<Rightarrow> u8 \<Rightarrow> nat \<Rightarrow> int option" where
  "indexOf_char_from s ch fromIndex =
     (if fromIndex \<ge> slen s then Some (- 1)
      else do {
        b \<leftarrow> sbuffer s;
        temp \<leftarrow> strchr (drop fromIndex b) (uint ch);
        Some (case temp of None \<Rightarrow> - 1 | Some k \<Rightarrow> int (fromIndex + k)) })"

definition indexOf_char where "indexOf_char s c = indexOf_char_from s c 0"

definition indexOf_from :: "arduino_string \<Rightarrow> arduino_string \<Rightarrow> nat \<Rightarrow> int option" where
  "indexOf_from s s2 fromIndex =
     (if fromIndex \<ge> slen s then Some (- 1)
      else do {
        b \<leftarrow> sbuffer s;
        c \<leftarrow> sbuffer s2;
        found \<leftarrow> strstr (drop fromIndex b) c;
        Some (case found of None \<Rightarrow> - 1 | Some k \<Rightarrow> int (fromIndex + k)) })"

definition indexOf where "indexOf s s2 = indexOf_from s s2 0"

definition lastIndexOf_char_from :: "arduino_string \<Rightarrow> u8 \<Rightarrow> nat \<Rightarrow> int option" where
  "lastIndexOf_char_from s ch fromIndex =
     (if fromIndex \<ge> slen s then Some (- 1)
      else do {
        b \<leftarrow> sbuffer s;
        b \<leftarrow> mem_put (fromIndex + 1) [0] b;
        temp \<leftarrow> strrchr b (uint ch);
        Some (case temp of None \<Rightarrow> - 1 | Some k \<Rightarrow> int k) })"

definition lastIndexOf_char where
  "lastIndexOf_char s c = lastIndexOf_char_from s c ((slen s + 2 ^ 32 - 1) mod 2 ^ 32)"

partial_function (option) last_match :: "u8 list \<Rightarrow> u8 list \<Rightarrow> nat \<Rightarrow> nat \<Rightarrow> int \<Rightarrow> int option" where
  "last_match b f fromIndex p found =
     (if p \<le> fromIndex
      then do {
        r \<leftarrow> strstr (drop p b) f;
        case r of
          None \<Rightarrow> Some found
        | Some k \<Rightarrow> last_match b f fromIndex (p + k + 1) (if p + k \<le> fromIndex then int (p + k) else found) }
      else Some found)"

declare last_match.simps [code]

definition lastIndexOf_from :: "arduino_string \<Rightarrow> arduino_string \<Rightarrow> nat \<Rightarrow> int option" where
  "lastIndexOf_from s s2 fromIndex =
     (if slen s2 = 0 \<or> slen s = 0 \<or> slen s2 > slen s then Some (- 1)
      else do {
        b \<leftarrow> sbuffer s;
        f \<leftarrow> sbuffer s2;
        last_match b f (if fromIndex \<ge> slen s then slen s - 1 else fromIndex) 0 (- 1) })"

definition lastIndexOf where
  "lastIndexOf s s2 = lastIndexOf_from s s2 ((slen s + 2 ^ 32 - slen s2) mod 2 ^ 32)"

definition substring :: "os_realloc \<Rightarrow> arduino_string \<Rightarrow> nat \<Rightarrow> nat \<Rightarrow> arduino_string option" where
  "substring ra s left right = do {
     let (left, right) = (if left > right then (right, left) else (left, right));
     out \<leftarrow> String_cstr ra (Some [0]);
     if left \<ge> slen s then Some out
     else do {
       let right = (if right > slen s then slen s else right);
       b \<leftarrow> sbuffer s;
       b \<leftarrow> mem_put right [0] b;
       assign_cstr ra (Some (drop left b)) out } }"

definition substring_from where "substring_from ra s beginIndex = substring ra s beginIndex (slen s)"

section \<open>Modification\<close>

fun map_cstr :: "(u8 \<Rightarrow> u8) \<Rightarrow> u8 list \<Rightarrow> u8 list option" where
  "map_cstr f [] = None"
| "map_cstr f (c # s) = (if c = 0 then Some (c # s) else map_option ((#) (f c)) (map_cstr f s))"

definition replace_char :: "u8 \<Rightarrow> u8 \<Rightarrow> arduino_string \<Rightarrow> arduino_string option" where
  "replace_char f r s =
     (case sbuffer s of
        None \<Rightarrow> Some s
      | Some b \<Rightarrow> do { b \<leftarrow> map_cstr (\<lambda>c. if c = f then r else c) b; Some (s\<lparr>sbuffer := Some b\<rparr>) })"

text \<open>The bytes \<^verbatim>\<open>memcpy(\<dots>, s.buffer, s.len)\<close> copies.\<close>

definition string_bytes :: "arduino_string \<Rightarrow> u8 list option" where
  "string_bytes s =
     (if slen s = 0 then Some []
      else do { b \<leftarrow> sbuffer s; if slen s \<le> length b then Some (take (slen s) b) else None })"

text \<open>The three loops of \<^verbatim>\<open>replace\<close>: \<open>f\<close> is \<^verbatim>\<open>find.buffer\<close>, \<open>r\<close> the replacement, \<open>rd\<close> and \<open>wr\<close> the
  offsets of \<^verbatim>\<open>readFrom\<close> and \<^verbatim>\<open>writeTo\<close>.\<close>

partial_function (option) replace_same :: "u8 list \<Rightarrow> u8 list \<Rightarrow> nat \<Rightarrow> u8 list \<Rightarrow> u8 list option" where
  "replace_same f r rd b = do {
     foundAt \<leftarrow> strstr (drop rd b) f;
     case foundAt of
       None \<Rightarrow> Some b
     | Some k \<Rightarrow> do { b \<leftarrow> mem_put (rd + k) r b; replace_same f r (rd + k + length r) b } }"

partial_function (option) replace_shrink ::
  "u8 list \<Rightarrow> nat \<Rightarrow> u8 list \<Rightarrow> nat \<Rightarrow> nat \<Rightarrow> nat \<Rightarrow> u8 list \<Rightarrow> (nat \<times> u8 list) option" where
  "replace_shrink f flen r rd wr len b = do {
     foundAt \<leftarrow> strstr (drop rd b) f;
     case foundAt of
       None \<Rightarrow> do { b \<leftarrow> str_put wr (drop rd b) b; Some (len, b) }
     | Some n \<Rightarrow> do {
         b \<leftarrow> mem_put wr (slice rd n b) b;
         b \<leftarrow> mem_put (wr + n) r b;
         replace_shrink f flen r (rd + n + flen) (wr + n + length r) (len + length r - flen) b } }"

partial_function (option) count_matches :: "u8 list \<Rightarrow> nat \<Rightarrow> u8 list \<Rightarrow> nat \<Rightarrow> nat \<Rightarrow> nat option" where
  "count_matches f flen b rd n = do {
     foundAt \<leftarrow> strstr (drop rd b) f;
     case foundAt of None \<Rightarrow> Some n | Some k \<Rightarrow> count_matches f flen b (rd + k + flen) (n + 1) }"

partial_function (option) replace_grow ::
  "arduino_string \<Rightarrow> u8 list \<Rightarrow> int \<Rightarrow> arduino_string \<Rightarrow> arduino_string option" where
  "replace_grow f r index s =
     (if index \<ge> 0
      then do {
        index \<leftarrow> lastIndexOf_from s f (nat index);
        if index \<ge> 0
        then do {
          b \<leftarrow> sbuffer s;
          let rd = nat index + slen f;
          let diff = length r - slen f;
          b \<leftarrow> (if rd \<le> slen s \<and> slen s \<le> length b then mem_put (rd + diff) (slice rd (slen s - rd) b) b else None);
          b \<leftarrow> mem_put (slen s + diff) [0] b;
          b \<leftarrow> mem_put (nat index) r b;
          replace_grow f r (index - 1) (s\<lparr>slen := slen s + diff, sbuffer := Some b\<rparr>) }
        else Some s }
      else Some s)"

declare replace_same.simps [code] replace_shrink.simps [code] count_matches.simps [code] replace_grow.simps [code]

definition replace_string ::
  "os_realloc \<Rightarrow> arduino_string \<Rightarrow> arduino_string \<Rightarrow> arduino_string \<Rightarrow> arduino_string option" where
  "replace_string ra f r s =
     (if slen s = 0 \<or> slen f = 0 then Some s
      else do {
        b \<leftarrow> sbuffer s;
        fb \<leftarrow> sbuffer f;
        rb \<leftarrow> string_bytes r;
        if slen r = slen f
        then do { b \<leftarrow> replace_same fb rb 0 b; Some (s\<lparr>sbuffer := Some b\<rparr>) }
        else if slen r < slen f
        then do { (len, b) \<leftarrow> replace_shrink fb (slen f) rb 0 0 (slen s) b;
                  Some (s\<lparr>slen := len, sbuffer := Some b\<rparr>) }
        else do {
          n \<leftarrow> count_matches fb (slen f) b 0 0;
          let sz = slen s + n * (slen r - slen f);
          if sz = slen s then Some s
          else case (if sz > capacity s then changeBuffer ra sz s else (True, s)) of
            (False, s) \<Rightarrow> Some s
          | (True, s) \<Rightarrow> replace_grow f rb (int (slen s) - 1) s } })"

definition remove_count :: "nat \<Rightarrow> nat \<Rightarrow> arduino_string \<Rightarrow> arduino_string option" where
  "remove_count index n s =
     (if index \<ge> slen s \<or> n = 0 then Some s
      else do {
        let n = (if n > slen s - index then slen s - index else n);
        let len = slen s - n;
        b \<leftarrow> sbuffer s;
        bs \<leftarrow> strncpy (drop (index + n) b) (len - index);
        b \<leftarrow> mem_put index bs b;
        b \<leftarrow> mem_put len [0] b;
        Some (s\<lparr>slen := len, sbuffer := Some b\<rparr>) })"

definition remove_from where "remove_from index s = remove_count index (2 ^ 32 - 1) s"

definition toLowerCase :: "arduino_string \<Rightarrow> arduino_string option" where
  "toLowerCase s =
     (case sbuffer s of
        None \<Rightarrow> Some s
      | Some b \<Rightarrow> do { b \<leftarrow> map_cstr (\<lambda>c. word_of_int (tolower (uint c))) b; Some (s\<lparr>sbuffer := Some b\<rparr>) })"

definition toUpperCase :: "arduino_string \<Rightarrow> arduino_string option" where
  "toUpperCase s =
     (case sbuffer s of
        None \<Rightarrow> Some s
      | Some b \<Rightarrow> do { b \<leftarrow> map_cstr (\<lambda>c. word_of_int (toupper (uint c))) b; Some (s\<lparr>sbuffer := Some b\<rparr>) })"

fun trim_begin :: "u8 list \<Rightarrow> nat \<Rightarrow> nat option" where
  "trim_begin [] i = None"
| "trim_begin (c # s) i = (if isspace (uint c) then trim_begin s (Suc i) else Some i)"

function trim_end :: "u8 list \<Rightarrow> int \<Rightarrow> int \<Rightarrow> int option" where
  "trim_end b begin e =
     (if e < 0 then None
      else if isspace (uint (b ! nat e)) \<and> e \<ge> begin then trim_end b begin (e - 1) else Some e)"
  by pat_completeness auto
termination
  by (relation "measure (\<lambda>(b, begin, e). nat (e + 1))") auto

declare trim_end.simps [simp del]

definition trim :: "arduino_string \<Rightarrow> arduino_string option" where
  "trim s =
     (case sbuffer s of
        None \<Rightarrow> Some s
      | Some b \<Rightarrow>
          if slen s = 0 then Some s
          else do {
            bg \<leftarrow> trim_begin b 0;
            e \<leftarrow> trim_end b (int bg) (int (slen s) - 1);
            let len = nat ((e + 1 - int bg) mod 2 ^ 32);
            b \<leftarrow> (if bg > 0
                 then (if bg + len \<le> length b then mem_put 0 (slice bg len b) b else None) else Some b);
            b \<leftarrow> mem_put len [0] b;
            Some (s\<lparr>slen := len, sbuffer := Some b\<rparr>) })"

section \<open>Parsing\<close>

definition toInt :: "arduino_string \<Rightarrow> int option" where
  "toInt s = (case sbuffer s of Some b \<Rightarrow> atol b | None \<Rightarrow> Some 0)"

section \<open>The text functions\<close>

text \<open>
  What the member functions compute when a string's bytes are taken as a list: the text is the bytes
  before the terminator.  \<open>holds s xs\<close> is the representation invariant of the class.
\<close>

definition holds :: "arduino_string \<Rightarrow> u8 list \<Rightarrow> bool" where
  "holds s xs \<longleftrightarrow> 0 \<notin> set xs \<and> slen s = length xs \<and>
     (\<exists>r. sbuffer s = Some (xs @ 0 # r) \<and> length (xs @ 0 # r) = Suc (capacity s))"

definition find_text :: "u8 list \<Rightarrow> u8 list \<Rightarrow> nat option" where
  "find_text xs p = find (\<lambda>i. take (length p) (drop i xs) = p) [0..<Suc (length xs) - length p]"

definition text_index_of :: "u8 list \<Rightarrow> u8 list \<Rightarrow> int" where
  "text_index_of xs p =
     (if xs = [] then - 1 else case find_text xs p of None \<Rightarrow> - 1 | Some k \<Rightarrow> int k)"

definition text_substring :: "u8 list \<Rightarrow> nat \<Rightarrow> nat \<Rightarrow> u8 list" where
  "text_substring xs left right = drop (min left right) (take (max left right) xs)"

function text_replace :: "u8 list \<Rightarrow> u8 list \<Rightarrow> u8 list \<Rightarrow> u8 list" where
  "text_replace p r [] = []"
| "text_replace p r (c # s) =
     (if p \<noteq> [] \<and> take (length p) (c # s) = p then r @ text_replace p r (drop (length p) (c # s))
      else c # text_replace p r s)"
  by pat_completeness auto
termination
  by (relation "measure (\<lambda>(p, r, xs). length xs)") (auto simp: neq_Nil_conv)

definition text_int :: "u8 list \<Rightarrow> int option" where
  "text_int xs = atol (xs @ [0])"

named_theorems string_simps "facts of string buffers"

lemma strlen_text [string_simps]: "0 \<notin> set xs \<Longrightarrow> strlen (xs @ 0 # r) = Some (length xs)"
  by (rule strlen_append)

lemma mem_put_Some [string_simps]: "off + length src \<le> length b \<Longrightarrow> mem_put off src b = Some (blit off src b)"
  by (simp add: mem_put_def)

lemma blit_append [string_simps]: "off = length pre \<Longrightarrow> length src = length old \<Longrightarrow>
    blit off src (pre @ old @ post) = pre @ src @ post"
  by (simp add: blit_def)

lemma str_put_text:
  "0 \<notin> set xs \<Longrightarrow> off + length xs < length b \<Longrightarrow>
   str_put off (xs @ 0 # r) b = Some (take off b @ (xs @ [0]) @ drop (off + length xs + 1) b)"
  by (simp add: str_put_def strlen_text mem_put_def blit_def)

lemma strstr_text:
  assumes "0 \<notin> set xs" "0 \<notin> set p"
  shows "strstr (xs @ 0 # r) (p @ 0 # r') = Some (find_text xs p)"
proof -
  have "(take (length p) (drop i (xs @ 0 # r)) = take (length p) (p @ 0 # r')) =
      (take (length p) (drop i xs) = p)" if "i < Suc (length xs) - length p" for i
    using that by simp
  then have "find (\<lambda>i. take (length p) (drop i (xs @ 0 # r)) = take (length p) (p @ 0 # r'))
      [0..<Suc (length xs) - length p] = find_text xs p"
    unfolding find_text_def by (intro find_cong refl) auto
  then show ?thesis using assms by (simp add: strstr_def strlen_text del: upt_Suc)
qed

lemma find_text_Some:
  "find_text xs p = Some k \<Longrightarrow> k + length p \<le> length xs \<and> take (length p) (drop k xs) = p"
  by (auto simp: find_text_def find_upt_Some)

lemma find_text_Cons:
  "length p \<le> Suc (length xs) \<Longrightarrow> find_text (c # xs) p =
     (if take (length p) (c # xs) = p then Some 0 else map_option Suc (find_text xs p))"
proof -
  assume l: "length p \<le> Suc (length xs)"
  have "[0..<Suc (Suc (length xs)) - length p] = 0 # map Suc [0..<Suc (length xs) - length p]"
    using l by (simp only: map_Suc_upt Suc_diff_le upt_conv_Cons zero_less_Suc)
  then show ?thesis by (simp add: find_text_def find_map comp_def del: upt_Suc)
qed

lemma find_text_short: "length xs < length p \<Longrightarrow> find_text xs p = None"
  by (simp add: find_text_def)

lemma text_replace_short: "length xs < length p \<Longrightarrow> text_replace p r xs = xs"
  by (induction xs) (auto dest: arg_cong [of _ _ length])

lemma text_replace_find:
  assumes "p \<noteq> []"
  shows "text_replace p r xs = (case find_text xs p of
     None \<Rightarrow> xs | Some k \<Rightarrow> take k xs @ r @ text_replace p r (drop (k + length p) xs))"
proof (induction xs)
  case Nil
  with assms show ?case by (simp add: find_text_short)
next
  case (Cons c xs)
  show ?case
  proof (cases "length p \<le> Suc (length xs)")
    case True
    show ?thesis
    proof (cases "take (length p) (c # xs) = p")
      case False
      then show ?thesis using Cons assms by (auto simp: find_text_Cons [OF True] split: option.split)
    qed (use assms in \<open>simp add: find_text_Cons [OF True]\<close>)
  next
    case False
    then have "length (c # xs) < length p" by simp
    then show ?thesis by (simp only: find_text_short text_replace_short option.case)
  qed
qed

lemma text_replace_no_nul: "0 \<notin> set xs \<Longrightarrow> 0 \<notin> set r \<Longrightarrow> 0 \<notin> set (text_replace p r xs)"
proof (induction p r xs rule: text_replace.induct)
  case (2 p r c s)
  then show ?case using in_set_dropD [of 0 "length p" "c # s"] by (auto split: if_splits)
qed simp

lemma text_replace_length_le: "length r \<le> length p \<Longrightarrow> length (text_replace p r xs) \<le> length xs"
proof (induction p r xs rule: text_replace.induct)
  case (2 p r c s)
  show ?case
  proof (cases "p \<noteq> [] \<and> take (length p) (c # s) = p")
    case True
    then have "length p \<le> length (c # s)" by (metis length_take min.cobounded1)
    with 2 True show ?thesis by fastforce
  qed (use 2 in auto)
qed simp

section \<open>The buffer loops compute the text functions\<close>

lemma text_split_at:
  "find_text xs p = Some k \<Longrightarrow> xs = take k xs @ p @ drop (k + length p) xs"
  using find_text_Some [of xs p k] by (metis append_take_drop_id drop_drop add.commute)

lemma replace_same_text:
  assumes "0 \<notin> set p" "p \<noteq> []" "length r = length p"
  shows "0 \<notin> set xs \<Longrightarrow> rd = length pre \<Longrightarrow>
    replace_same (p @ 0 # q) r rd (pre @ xs @ 0 # tail) = Some (pre @ text_replace p r xs @ 0 # tail)"
proof (induction "length xs" arbitrary: pre xs rd rule: less_induct)
  case less
  show ?case
  proof (cases "find_text xs p")
    case None
    then show ?thesis
      using less.prems assms by (subst replace_same.simps) (simp add: strstr_text text_replace_find [of p r xs])
  next
    case (Some k)
    define zs where "zs = drop (k + length p) xs"
    have xs: "xs = take k xs @ p @ zs" using text_split_at [OF Some] by (simp add: zs_def)
    have k: "k + length p \<le> length xs" using find_text_Some [OF Some] by simp
    have put: "mem_put (rd + k) r (pre @ xs @ 0 # tail) = Some ((pre @ take k xs @ r) @ zs @ 0 # tail)"
      using k less.prems(2) assms(3) blit_append [of "rd + k" "pre @ take k xs" r p "zs @ 0 # tail"]
      by (subst (2) xs) (simp add: mem_put_def, metis (no_types, lifting) xs append.assoc)
    have "0 < length p" using assms(2) by simp
    then have "length zs < length xs" using k unfolding zs_def length_drop by linarith
    moreover have "0 \<notin> set zs" using less.prems(1) by (auto simp: zs_def dest: in_set_dropD)
    moreover have "rd + k + length r = length (pre @ take k xs @ r)" using k less.prems(2) by simp
    ultimately have "replace_same (p @ 0 # q) r (rd + k + length r) ((pre @ take k xs @ r) @ zs @ 0 # tail) =
        Some ((pre @ take k xs @ r) @ text_replace p r zs @ 0 # tail)"
      by (rule less.hyps)
    then show ?thesis
      using less.prems assms put Some
      by (subst replace_same.simps) (simp add: strstr_text text_replace_find [of p r xs] zs_def)
  qed
qed

lemma replace_shrink_text:
  assumes "0 \<notin> set p" "p \<noteq> []" "length r < length p"
  shows "0 \<notin> set xs \<Longrightarrow> drop rd b = xs @ 0 # tail \<Longrightarrow> rd \<le> length b \<Longrightarrow> wr \<le> rd \<Longrightarrow> len = n0 + length xs \<Longrightarrow>
    \<exists>b'. replace_shrink (p @ 0 # q) (length p) r rd wr len b = Some (n0 + length (text_replace p r xs), b') \<and>
      length b' = length b \<and> (\<exists>t. b' = take wr b @ text_replace p r xs @ 0 # t)"
proof (induction "length xs" arbitrary: xs rd wr len b n0 rule: less_induct)
  case less
  have lb: "length b = rd + length xs + 1 + length tail"
    using arg_cong [OF less.prems(2), of length] less.prems(3) by simp
  show ?case
  proof (cases "find_text xs p")
    case None
    then show ?thesis
      using less.prems assms lb
      by (subst replace_shrink.simps)
        (simp add: strstr_text text_replace_find [of p r xs] str_put_text)
  next
    case (Some k)
    define zs where "zs = drop (k + length p) xs"
    have xs: "xs = take k xs @ p @ zs" using text_split_at [OF Some] by (simp add: zs_def)
    have k: "k + length p \<le> length xs" using find_text_Some [OF Some] by simp
    have sl: "slice rd k b = take k xs" using less.prems(2) k by (simp add: slice_def)
    define b1 where "b1 = blit wr (take k xs) b"
    define b2 where "b2 = blit (wr + k) r b1"
    have l1: "length b1 = length b" unfolding b1_def using k lb less.prems(4) by (intro length_blit) simp
    have l2: "length b2 = length b"
      unfolding b2_def using k lb less.prems(4) l1 assms(3) by (subst length_blit) simp_all
    have put: "mem_put wr (take k xs) b = Some b1" "mem_put (wr + k) r b1 = Some b2"
      using k lb less.prems(4) l1 assms(3) by (simp_all add: mem_put_def b1_def b2_def)
    have tk: "take (wr + k + length r) b2 = take wr b @ take k xs @ r"
      using k lb less.prems(4) assms(3) by (simp add: b2_def b1_def blit_def)
    have "drop (rd + k + length p) b2 = drop (rd + k + length p) b"
      using k lb less.prems(4) assms(3) by (simp add: b2_def b1_def blit_def ac_simps)
    also have "\<dots> = zs @ 0 # tail"
      using arg_cong [OF less.prems(2), of "drop (k + length p)"] k
      by (simp add: zs_def add.assoc add.commute add.left_commute)
    finally have dr: "drop (rd + k + length p) b2 = zs @ 0 # tail" .
    have "0 < length p" using assms(2) by simp
    then have sm: "length zs < length xs" using k unfolding zs_def length_drop by linarith
    have nz: "0 \<notin> set zs" using less.prems(1) by (auto simp: zs_def dest: in_set_dropD)
    have ln: "len + length r - length p = (n0 + k + length r) + length zs"
      using less.prems(5) k by (simp add: zs_def)
    from less.hyps [OF sm nz dr _ _ ln, of "wr + k + length r"] obtain b' t where
      b': "replace_shrink (p @ 0 # q) (length p) r (rd + k + length p) (wr + k + length r) (len + length r - length p) b2 =
         Some (n0 + k + length r + length (text_replace p r zs), b')" "length b' = length b2"
        "b' = take (wr + k + length r) b2 @ text_replace p r zs @ 0 # t"
      using l2 lb k less.prems(4) assms(3) by auto
    then show ?thesis
      using less.prems assms put Some sl tk l2 k
      by (subst replace_shrink.simps) (simp add: strstr_text text_replace_find [of p r xs] zs_def)
  qed
qed

lemma strcpy_within_runs_off:
  "src < dst \<Longrightarrow> (\<forall>i. src \<le> i \<and> i < dst \<and> i < length b \<longrightarrow> b ! i \<noteq> 0) \<Longrightarrow> strcpy_within dst src b = None"
proof (induction dst src b rule: strcpy_within.induct)
  case (1 dst src b)
  show ?case
  proof (cases "src < length b \<and> dst < length b")
    case True
    then have nz: "b ! src \<noteq> 0" using "1.prems" by simp
    have "strcpy_within (Suc dst) (Suc src) (b[dst := b ! src]) = None"
      using "1.prems" True nz by (intro "1.IH") (auto simp: nth_list_update)
    then show ?thesis using True nz by (simp add: strcpy_within.simps [of dst src b])
  next
    case False
    then show ?thesis by (subst strcpy_within.simps) (simp only: if_False)
  qed
qed

section \<open>The allocator\<close>

text \<open>The documented behaviour of \<^verbatim>\<open>os_realloc\<close>: when it succeeds the new block has the size asked for
  and starts with the bytes of the old one.\<close>

definition realloc_ok :: "os_realloc \<Rightarrow> bool" where
  "realloc_ok ra \<longleftrightarrow> (\<forall>b n b'. ra b n = Some b' \<longrightarrow> length b' = n \<and>
     (\<forall>old. b = Some old \<and> length old \<le> n \<longrightarrow> take (length old) b' = old))"

text \<open>The outcome of an operation that allocates: the text, or an invalid string when the allocator
  failed.\<close>

definition yields :: "os_realloc \<Rightarrow> arduino_string option \<Rightarrow> u8 list \<Rightarrow> bool" where
  "yields ra r xs \<longleftrightarrow> (\<exists>s. r = Some s \<and> (holds s xs \<or> s = init_string \<and> (\<exists>b n. ra b n = None)))"

lemma invalidate_init [simp]: "invalidate s = init_string"
  by (simp add: invalidate_def init_string_def)

lemma holds_buffer: "holds s xs \<Longrightarrow> \<exists>r. sbuffer s = Some (xs @ 0 # r) \<and> capacity s = length xs + length r"
  by (auto simp: holds_def)

lemma holds_slen: "holds s xs \<Longrightarrow> slen s = length xs"
  and holds_no_nul: "holds s xs \<Longrightarrow> 0 \<notin> set xs"
  by (simp_all add: holds_def)

lemma holds_I: "0 \<notin> set xs \<Longrightarrow> slen s = length xs \<Longrightarrow> sbuffer s = Some (xs @ 0 # r) \<Longrightarrow>
    capacity s = length xs + length r \<Longrightarrow> holds s xs"
  by (simp add: holds_def)

text \<open>After a successful \<^verbatim>\<open>reserve\<close> the buffer has room and still starts with the text.\<close>

lemma reserve_cases:
  assumes "realloc_ok ra" "holds s xs \<or> s = init_string \<and> xs = []" "length xs \<le> n"
  shows "(\<exists>b s'. reserve ra n s = (True, s') \<and> sbuffer s' = Some b \<and> length b = Suc (capacity s') \<and>
      n \<le> capacity s' \<and> slen s' = length xs \<and> take (length xs) b = xs) \<or>
    reserve ra n s = (False, s) \<and> (\<exists>b m. ra b m = None)"
proof (cases "sbuffer s \<noteq> None \<and> capacity s \<ge> n")
  case True
  then show ?thesis using assms(2) by (auto simp: reserve_def holds_def init_string_def)
next
  case False
  show ?thesis
  proof (cases "ra (sbuffer s) (n + 1)")
    case None
    then show ?thesis using False by (auto simp: reserve_def changeBuffer_def)
  next
    case (Some b)
    have "length b = n + 1" using assms(1) Some by (simp add: realloc_ok_def)
    moreover have "take (length xs) b = xs"
    proof (cases "sbuffer s")
      case old: (Some old)
      have "length old \<le> n + 1" using assms(2) False old by (auto simp: holds_def init_string_def)
      then have "take (length old) b = old" using assms(1) Some old by (auto simp: realloc_ok_def)
      moreover have "take (length xs) old = xs" "length xs \<le> length old"
        using assms(2) old by (auto simp: holds_def init_string_def)
      ultimately show ?thesis by (metis min.absorb1 take_take)
    qed (use assms(2) in \<open>auto simp: holds_def init_string_def\<close>)
    moreover have "slen s = length xs" using assms(2) by (auto simp: init_string_def holds_slen)
    ultimately show ?thesis using False Some by (auto simp: reserve_def changeBuffer_def)
  qed
qed

lemma copy_text:
  assumes "realloc_ok ra" "holds s ys \<or> s = init_string" "0 \<notin> set xs"
  shows "yields ra (copy ra (xs @ 0 # r) (length xs) s) xs"
proof -
  define ys' where "ys' = (if s = init_string then [] else ys)"
  have h: "holds s [] \<or> holds s ys \<or> s = init_string \<and> [] = ([] :: u8 list)" using assms(2) by auto
  have "(\<exists>b s'. reserve ra (length xs) s = (True, s') \<and> sbuffer s' = Some b \<and> length b = Suc (capacity s') \<and>
      length xs \<le> capacity s') \<or> reserve ra (length xs) s = (False, s) \<and> (\<exists>b m. ra b m = None)"
  proof (cases "sbuffer s \<noteq> None \<and> capacity s \<ge> length xs")
    case True
    then show ?thesis using assms(2) by (auto simp: reserve_def holds_def init_string_def)
  next
    case False
    then show ?thesis
      using assms(1) by (auto simp: reserve_def changeBuffer_def realloc_ok_def split: option.split)
  qed
  then show ?thesis
  proof
    assume "\<exists>b s'. reserve ra (length xs) s = (True, s') \<and> sbuffer s' = Some b \<and> length b = Suc (capacity s') \<and>
      length xs \<le> capacity s'"
    then obtain b s' where r: "reserve ra (length xs) s = (True, s')" "sbuffer s' = Some b"
      "length b = Suc (capacity s')" "length xs \<le> capacity s'" by blast
    then have "copy ra (xs @ 0 # r) (length xs) s =
        Some (s'\<lparr>slen := length xs, sbuffer := Some (xs @ 0 # drop (length xs + 1) b)\<rparr>)"
      using assms(3) by (simp add: copy_def str_put_text)
    then show ?thesis using r assms(3) by (auto simp: yields_def holds_def)
  qed (auto simp: yields_def copy_def)
qed

lemma String_cstr_text:
  "realloc_ok ra \<Longrightarrow> 0 \<notin> set xs \<Longrightarrow> yields ra (String_cstr ra (Some (xs @ 0 # r))) xs"
  using copy_text [of ra init_string "[]" xs r] by (simp add: String_cstr_def strlen_text)

lemma assign_cstr_text:
  "realloc_ok ra \<Longrightarrow> holds s ys \<or> s = init_string \<Longrightarrow> 0 \<notin> set xs \<Longrightarrow>
   yields ra (assign_cstr ra (Some (xs @ 0 # r)) s) xs"
  using copy_text [of ra s ys xs r] by (simp add: assign_cstr_def strlen_text)

lemma plus_string_text:
  assumes "realloc_ok ra" "holds s xs" "holds t ys"
  shows "yields ra (plus_string ra s t) (xs @ ys)"
proof (cases "ys = []")
  case True
  then show ?thesis
    using assms holds_buffer [OF assms(3)] holds_slen [OF assms(3)] by (auto simp: plus_string_def concat_buf_def yields_def)
next
  case False
  obtain r where t: "sbuffer t = Some (ys @ 0 # r)" using holds_buffer [OF assms(3)] by blast
  have ny: "0 \<notin> set ys" using assms(3) by (simp add: holds_def)
  from reserve_cases [OF assms(1), of s xs "length xs + length ys"] assms(2)
  consider b s' where "reserve ra (length xs + length ys) s = (True, s')" "sbuffer s' = Some b"
      "length b = Suc (capacity s')" "length xs + length ys \<le> capacity s'" "slen s' = length xs" "take (length xs) b = xs"
    | "reserve ra (length xs + length ys) s = (False, s)" "\<exists>b m. ra b m = None" by auto
  then show ?thesis
  proof cases
    case 1
    then have "str_put (length xs) (ys @ 0 # r) b = Some (xs @ (ys @ [0]) @ drop (length xs + length ys + 1) b)"
      using ny by (simp add: str_put_text)
    then show ?thesis
      using 1 False t ny holds_no_nul [OF assms(2)] holds_slen [OF assms(2)] holds_slen [OF assms(3)]
      by (auto simp: plus_string_def concat_buf_def yields_def holds_def)
  next
    case 2
    then show ?thesis
      using holds_slen [OF assms(2)] holds_slen [OF assms(3)] False t by (auto simp: plus_string_def concat_buf_def yields_def)
  qed
qed

lemma substring_text:
  assumes "realloc_ok ra" "holds s xs"
  shows "yields ra (substring ra s i j) (text_substring xs i j)"
proof -
  obtain out where out: "String_cstr ra (Some [0]) = Some out" "holds out [] \<or> out = init_string \<and> (\<exists>b n. ra b n = None)"
    using String_cstr_text [OF assms(1), of "[]" "[]"] by (auto simp: yields_def)
  define l r where "l = min i j" and "r = max i j"
  have sub: "substring ra s i j =
     (if l \<ge> length xs then Some out
      else do {
        b \<leftarrow> sbuffer s;
        b \<leftarrow> mem_put (min r (length xs)) [0] b;
        assign_cstr ra (Some (drop l b)) out })"
    using holds_slen [OF assms(2)] out(1) by (auto simp: substring_def l_def r_def min_def max_def)
  show ?thesis
  proof (cases "l \<ge> length xs")
    case True
    then have "text_substring xs i j = []" by (auto simp: text_substring_def l_def r_def)
    then show ?thesis using sub True out(2) by (auto simp: yields_def)
  next
    case False
    obtain q where b: "sbuffer s = Some (xs @ 0 # q)" using holds_buffer [OF assms(2)] by blast
    have "l \<le> r" by (simp add: l_def r_def)
    define t where "t = drop (Suc (min r (length xs))) (xs @ 0 # q)"
    have p: "mem_put (min r (length xs)) [0] (xs @ 0 # q) = Some (take r xs @ 0 # t)"
      by (cases "r \<le> length xs") (simp_all add: mem_put_def blit_def t_def min_def)
    have d: "drop l (take r xs @ 0 # t) = drop l (take r xs) @ 0 # t"
      using False \<open>l \<le> r\<close> by simp
    have n: "0 \<notin> set (drop l (take r xs))"
      using holds_no_nul [OF assms(2)] by (auto dest: in_set_dropD in_set_takeD)
    have "yields ra (assign_cstr ra (Some (drop l (take r xs) @ 0 # t)) out) (drop l (take r xs))"
      using out(2) by (intro assign_cstr_text [OF assms(1) _ n]) auto
    moreover have "substring ra s i j = assign_cstr ra (Some (drop l (take r xs) @ 0 # t)) out"
      unfolding sub if_not_P [OF False] b by (simp add: p d del: drop_append)
    moreover have "text_substring xs i j = drop l (take r xs)"
      by (simp add: text_substring_def l_def r_def)
    ultimately show ?thesis by simp
  qed
qed

lemma indexOf_text: "holds s xs \<Longrightarrow> holds t ys \<Longrightarrow> indexOf s t = Some (text_index_of xs ys)"
  using holds_buffer [of s xs] holds_buffer [of t ys] holds_slen [of s xs]
  by (auto simp: indexOf_def indexOf_from_def text_index_of_def strstr_text holds_no_nul split: option.split)

lemma replace_string_text:
  assumes "holds s xs" "holds f p" "holds t r" "length r \<le> length p"
  shows "\<exists>s'. replace_string ra f t s = Some s' \<and> holds s' (text_replace p r xs)"
proof (cases "xs = [] \<or> p = []")
  case True
  have "text_replace [] r ys = ys" for ys by (induction ys) auto
  then have "text_replace p r xs = xs" using True by auto
  then show ?thesis using True assms by (auto simp: replace_string_def holds_slen)
next
  case False
  obtain q where s: "sbuffer s = Some (xs @ 0 # q)" "capacity s = length xs + length q"
    using holds_buffer [OF assms(1)] by blast
  obtain pq where f: "sbuffer f = Some (p @ 0 # pq)" using holds_buffer [OF assms(2)] by blast
  obtain rq where t: "sbuffer t = Some (r @ 0 # rq)" using holds_buffer [OF assms(3)] by blast
  note len = assms(1-3) [THEN holds_slen]
  note nul = assms(1-3) [THEN holds_no_nul]
  have rb: "string_bytes t = Some r" using t len(3) by (simp add: string_bytes_def)
  have n: "0 \<notin> set (text_replace p r xs)" using nul by (intro text_replace_no_nul)
  show ?thesis
  proof (cases "length r = length p")
    case True
    have l: "length (text_replace p r xs) = length xs"
      using True by (induction p r xs rule: text_replace.induct) (auto dest: arg_cong [of _ _ length])
    have "replace_same (p @ 0 # pq) r 0 ([] @ xs @ 0 # q) = Some ([] @ text_replace p r xs @ 0 # q)"
      using nul False True by (intro replace_same_text) simp_all
    then have "replace_string ra f t s = Some (s\<lparr>sbuffer := Some (text_replace p r xs @ 0 # q)\<rparr>)"
      using False len s f rb True by (simp add: replace_string_def)
    then show ?thesis using n l len s by (simp add: holds_def)
  next
    case neq: False
    then have "length r < length p" using assms(4) by simp
    from replace_shrink_text [OF nul(2) _ this nul(1), of 0 "xs @ 0 # q" q 0 "length xs" 0 pq] False obtain b' t' where
      b: "replace_shrink (p @ 0 # pq) (length p) r 0 0 (length xs) (xs @ 0 # q) = Some (length (text_replace p r xs), b')"
        "length b' = length (xs @ 0 # q)" "b' = text_replace p r xs @ 0 # t'" by auto
    then have "replace_string ra f t s = Some (s\<lparr>slen := length (text_replace p r xs), sbuffer := Some b'\<rparr>)"
      using False len s f rb neq \<open>length r < length p\<close> by (simp add: replace_string_def)
    then show ?thesis using n b s by (auto simp: holds_def)
  qed
qed

text \<open>\<^verbatim>\<open>atol\<close> does not look past the terminator.\<close>

lemma skip_space_text: "0 \<notin> set xs \<Longrightarrow> skip_space (xs @ 0 # r) = Some (dropWhile (\<lambda>c. isspace (uint c)) xs @ 0 # r)"
  by (induction xs) (auto simp: isspace_def)

lemma strtol_digits_text: "0 \<notin> set xs \<Longrightarrow>
   map_option fst (strtol_digits b (xs @ 0 # r) a) = map_option fst (strtol_digits b (xs @ [0]) a)"
  by (induction xs arbitrary: a) (auto simp: Let_def)

lemma atol_text: "0 \<notin> set xs \<Longrightarrow> atol (xs @ 0 # r) = text_int xs"
proof -
  have pull: "atol s = (do { s \<leftarrow> skip_space s;
      (if hd s = 0 then Some 0
       else let (sign, s) = (if hd s = of_char (CHR ''-'') then (- 1, tl s)
                         else if hd s = of_char (CHR ''+'') then (1, tl s) else (1, s))
         in map_option (\<lambda>v. sint (sign * v)) (map_option fst (strtol_digits 10 s 0))) })" for s
    by (auto simp: atol_def strtol_def split: Option.bind_split)
  assume n: "0 \<notin> set xs"
  define ys where "ys = dropWhile (\<lambda>c. isspace (uint c)) xs"
  have ny: "0 \<notin> set ys" using n by (auto simp: ys_def dest: set_dropWhileD)
  show ?thesis
  proof (cases ys)
    case Nil
    then show ?thesis using n by (simp add: pull text_int_def skip_space_text ys_def [symmetric])
  next
    case (Cons c zs)
    then have "0 \<notin> set zs" "0 \<notin> set (c # zs)" using ny by auto
    from strtol_digits_text [OF this(1), of 10 r] show ?thesis
      using n Cons by (simp add: pull text_int_def skip_space_text ys_def [symmetric])
  qed
qed

lemma toInt_text: "holds s xs \<Longrightarrow> toInt s = text_int xs"
  using holds_buffer [of s xs] holds_no_nul [of s xs] by (auto simp: toInt_def atol_text)

lemma charAt_text: "holds s xs \<Longrightarrow> charAt s i = (if i < length xs then xs ! i else 0)"
  using holds_buffer [of s xs] holds_slen [of s xs] by (auto simp: charAt_def nth_append)

lemma strncpy_prefix': "n \<le> length xs \<Longrightarrow> 0 \<notin> set xs \<Longrightarrow> strncpy (xs @ r) n = Some (take n xs)"
proof (induction xs arbitrary: n)
  case (Cons c xs)
  then show ?case by (cases n) auto
qed simp

lemma toCharArray_text:
  assumes "holds s xs" "0 < n" "n \<le> length buf"
  shows "toCharArray s (Some buf) n 0 = Some (Some (blit 0 (take (n - 1) xs @ [0]) buf))"
proof (cases "xs = []")
  case True
  then show ?thesis
    using assms holds_slen [OF assms(1)] by (cases buf) (auto simp: toCharArray_def getBytes_def mem_put_def)
next
  case False
  obtain q where s: "sbuffer s = Some (xs @ 0 # q)" using holds_buffer [OF assms(1)] by blast
  let ?k = "min (n - 1) (length xs)"
  have t: "strncpy (xs @ 0 # q) ?k = Some (take ?k xs)"
    using holds_no_nul [OF assms(1)] by (intro strncpy_prefix') simp_all
  have k: "?k < length buf" using assms by simp
  have e: "take ?k xs = take (n - 1) xs" by (cases "n - 1 \<le> length xs") (simp_all add: min_def)
  have "blit ?k [0] (blit 0 (take ?k xs) buf) = blit 0 (take ?k xs @ [0]) buf"
    using k by (simp add: blit_def)
  moreover have "length (take ?k xs) = ?k" by simp
  ultimately show ?thesis
    using False s t k holds_slen [OF assms(1)] assms(2) unfolding e [symmetric]
    by (simp add: toCharArray_def getBytes_def mem_put_def Let_def)
qed

lemma concat_self_overruns:
  assumes "realloc_ok ra" "\<And>b n. ra b n \<noteq> None" "holds s xs" "xs \<noteq> []"
  shows "concat_string ra True t s = None"
proof -
  obtain q where s: "sbuffer s = Some (xs @ 0 # q)" "capacity s = length xs + length q"
    using holds_buffer [OF assms(3)] by blast
  have "strcpy_within (length xs) 0 (xs @ 0 # q) = None"
    using assms(4) holds_no_nul [OF assms(3)]
    by (intro strcpy_within_runs_off) (auto simp: nth_append in_set_conv_nth)
  moreover have "ra (Some (xs @ 0 # q)) n \<noteq> None" for n using assms(2) by blast
  ultimately show ?thesis
    using s assms(4) holds_slen [OF assms(3)] by (simp add: concat_string_def concat_self_def del: not_None_eq)
qed

text \<open>The run of \<^verbatim>\<open>"aab".replace("ab", "bbb")\<close> in a buffer for four characters.\<close>

lemma grow_steps:
  fixes f :: arduino_string
  assumes "sbuffer f = Some (97 # 98 # 0 # q)" "slen f = 2" "sbuffer s = Some [97, 97, 98, 0, x]" "slen s = 3"
  shows "replace_grow f [98, 98, 98] 2 s = None"
proof -
  have z: "strlen (97 # 98 # 0 # q) = Some 2" by simp
  have m1: "last_match [97, 97, 98, 0, x] (97 # 98 # 0 # q) 2 0 (- 1) = Some 1"
    by (simp add: last_match.simps strstr_def z upt_rec)
  have m2: "last_match [97, 98, 98, 98, 0] (97 # 98 # 0 # q) 0 0 (- 1) = Some 0"
    by (simp add: last_match.simps strstr_def z upt_rec)
  have "replace_grow f [98, 98, 98] 2 s = replace_grow f [98, 98, 98] 0 (s\<lparr>slen := 4, sbuffer := Some [97, 98, 98, 98, 0]\<rparr>)"
    using assms m1
    by (subst replace_grow.simps) (simp add: lastIndexOf_from_def mem_put_def slice_def blit_def eval_nat_numeral)
  moreover have "replace_grow f [98, 98, 98] 0 s' = None"
    if "sbuffer s' = Some [97, 98, 98, 98, 0]" "slen s' = 4" for s'
    using assms(1,2) that m2
    by (subst replace_grow.simps) (simp add: lastIndexOf_from_def mem_put_def slice_def blit_def)
  ultimately show ?thesis by simp
qed

lemma replace_longer_overruns:
  assumes "realloc_ok ra" "\<And>b n. ra b n \<noteq> None"
    and "holds s (str ''aab'')" "capacity s \<le> 4" "holds f (str ''ab'')" "holds r (str ''bbb'')"
  shows "replace_string ra f r s = None"
proof -
  have st: "str ''aab'' = [97, 97, 98]" "str ''ab'' = [97, 98]" "str ''bbb'' = [98, 98, 98]" by (simp_all add: str_def)
  obtain q where s: "sbuffer s = Some ([97, 97, 98] @ 0 # q)" "capacity s = 3 + length q"
    using holds_buffer [OF assms(3)] st by auto
  obtain fq where f: "sbuffer f = Some (97 # 98 # 0 # fq)" using holds_buffer [OF assms(5)] st by auto
  obtain rq where r: "sbuffer r = Some (98 # 98 # 98 # 0 # rq)" using holds_buffer [OF assms(6)] st by auto
  have len: "slen s = 3" "slen f = 2" "slen r = 3"
    using assms(3,5,6) [THEN holds_slen] st by simp_all
  have c: "count_matches (97 # 98 # 0 # fq) 2 (97 # 97 # 98 # 0 # q) 0 0 = Some 1"
    by (simp add: count_matches.simps strstr_def upt_rec)
  have rb: "string_bytes r = Some [98, 98, 98]" using r len by (simp add: string_bytes_def numeral_eq_Suc)
  obtain s' x where s': "(if 4 > capacity s then changeBuffer ra 4 s else (True, s)) = (True, s')"
    "sbuffer s' = Some [97, 97, 98, 0, x]" "slen s' = 3"
  proof (cases "capacity s < 4")
    case True
    then have q: "q = []" using s by simp
    obtain b where b: "ra (sbuffer s) 5 = Some b" using assms(2) by blast
    note ok = assms(1) [unfolded realloc_ok_def, rule_format, OF b]
    have "length b = 5" "take 4 b = [97, 97, 98, 0]"
      using ok [THEN conjunct1] ok [THEN conjunct2, rule_format, of "[97, 97, 98, 0]"] s q by (simp_all add: eval_nat_numeral)
    then obtain x where "b = [97, 97, 98, 0, x]"
      by (auto simp: eval_nat_numeral length_Suc_conv)
    then show ?thesis using that [of "s\<lparr>sbuffer := Some b, capacity := 4\<rparr>"] True b len by (simp add: changeBuffer_def)
  next
    case False
    then have "length q = 1" using s(2) assms(4) by linarith
    then obtain x where "q = [x]" by (auto simp: length_Suc_conv)
    then show ?thesis using that [of s x] False s len by simp
  qed
  have "replace_grow f [98, 98, 98] 2 s' = None" by (rule grow_steps [OF f len(2) s'(2,3)])
  then show ?thesis
    using s f len rb c s'(1,3) by (simp add: replace_string_def split: prod.splits if_splits)
qed

section \<open>Properties\<close>

text \<open>C20 (refinement). The buffer operations of \<^verbatim>\<open>String\<close> implement the text functions: on valid strings
  \<^verbatim>\<open>+\<close> appends, \<^verbatim>\<open>substring\<close> cuts (swapping its bounds if needed), \<^verbatim>\<open>indexOf\<close> finds the first
  match, \<^verbatim>\<open>replace\<close> with a text that is not longer replaces every match from the left, \<^verbatim>\<open>toInt\<close> parses,
  \<^verbatim>\<open>charAt\<close> reads 0 past the end and \<^verbatim>\<open>toCharArray\<close> copies a terminated prefix.  No buffer is
  overrun, the result is valid again, and a failed allocation gives an invalid string, nothing else.\<close>

theorem string_implements_text:
  assumes "realloc_ok ra" "holds s xs" "holds t ys" "holds u zs"
  shows "yields ra (plus_string ra s t) (xs @ ys) \<and>
    yields ra (substring ra s i j) (text_substring xs i j) \<and>
    indexOf s t = Some (text_index_of xs ys) \<and>
    (length zs \<le> length ys \<longrightarrow>
      (\<exists>s'. replace_string ra t u s = Some s' \<and> holds s' (text_replace ys zs xs))) \<and>
    toInt s = text_int xs \<and> charAt s i = (if i < length xs then xs ! i else 0) \<and>
    (0 < n \<and> n \<le> length buf \<longrightarrow>
      toCharArray s (Some buf) n 0 = Some (Some (blit 0 (take (n - 1) xs @ [0]) buf)))"
  using plus_string_text [OF assms(1-3)] substring_text [OF assms(1,2)] indexOf_text [OF assms(2,3)]
    replace_string_text [OF assms(2-4)] toInt_text [OF assms(2)] charAt_text [OF assms(2)] toCharArray_text [OF assms(2)]
  by blast

text \<open>C35 (safety). Two uses of \<^verbatim>\<open>String\<close> leave the buffer.  \<^verbatim>\<open>replace\<close> with a longer text sizes the buffer by
  the matches it counts from the left but replaces from the right in the changed text, where
  replaced characters can complete another match: \<^verbatim>\<open>"aab"\<close> with \<^verbatim>\<open>"ab"\<close> replaced by \<^verbatim>\<open>"bbb"\<close> gets room
  for four characters and writes five.  Appending a non-empty string to itself overwrites the terminator
  the copy is looking for.\<close>

theorem replace_longer_and_self_append_overrun:
  assumes "realloc_ok ra" "\<And>b n. ra b n \<noteq> None"
  shows "(holds s (str ''aab'') \<and> capacity s \<le> 4 \<and> holds f (str ''ab'') \<and> holds r (str ''bbb'') \<longrightarrow>
      replace_string ra f r s = None) \<and>
    (holds s xs \<and> xs \<noteq> [] \<longrightarrow> concat_string ra True t s = None)"
proof (intro conjI impI; elim conjE)
  assume h: "holds s (str ''aab'')" "capacity s \<le> 4" "holds f (str ''ab'')" "holds r (str ''bbb'')"
  then show "replace_string ra f r s = None" by (rule replace_longer_overruns [OF assms])
next
  assume "holds s xs" "xs \<noteq> []"
  then show "concat_string ra True t s = None" by (rule concat_self_overruns [OF assms])
qed

section \<open>Examples\<close>

definition example_realloc :: os_realloc where
  "example_realloc b n = Some (take n (case b of None \<Rightarrow> [] | Some old \<Rightarrow> old) @
     replicate (n - length (case b of None \<Rightarrow> [] | Some old \<Rightarrow> old)) 7)"

definition example_string :: "string \<Rightarrow> arduino_string" where
  "example_string cs = \<lparr>sbuffer = Some (str cs @ [0]), capacity = length cs, slen = length cs\<rparr>"

lemma example_realloc_ok: "realloc_ok example_realloc" "example_realloc b n \<noteq> None"
  by (auto simp: realloc_ok_def example_realloc_def split: option.splits)

lemma example_string_holds: "0 \<notin> set (str cs) \<Longrightarrow> holds (example_string cs) (str cs)"
  by (simp add: holds_def example_string_def str_def)

theorem string_implements_text_witness:
  "\<exists>s'. replace_string example_realloc (example_string ''%2F'') (example_string ''/'') (example_string ''a%2Fb%2F'') =
     Some s' \<and> holds s' (str ''a/b/'')"
proof -
  have "text_replace (str ''%2F'') (str ''/'') (str ''a%2Fb%2F'') = str ''a/b/''" by code_simp
  moreover have "length (str ''/'') \<le> length (str ''%2F'')" by code_simp
  ultimately show ?thesis
    using string_implements_text [OF example_realloc_ok(1), of "example_string ''a%2Fb%2F''" "str ''a%2Fb%2F''"
        "example_string ''%2F''" "str ''%2F''" "example_string ''/''" "str ''/''"]
      example_string_holds [of "''a%2Fb%2F''"] example_string_holds [of "''%2F''"] example_string_holds [of "''/''"]
    by (auto simp: str_def)
qed

theorem replace_longer_and_self_append_overrun_witness:
  "replace_string example_realloc (example_string ''ab'') (example_string ''bbb'') (example_string ''aab'') = None \<and>
   concat_string example_realloc True init_string (example_string ''aab'') = None"
proof -
  have c: "capacity (example_string ''aab'') \<le> 4" by (simp add: example_string_def)
  have "str ''aab'' \<noteq> []" "0 \<notin> set (str ''aab'')" "0 \<notin> set (str ''ab'')" "0 \<notin> set (str ''bbb'')"
    by (simp_all add: str_def)
  then show ?thesis
    using replace_longer_and_self_append_overrun [OF example_realloc_ok, of "example_string ''aab''" "example_string ''ab''"
        "example_string ''bbb''" "str ''aab''" init_string] c
      example_string_holds [of "''aab''"] example_string_holds [of "''ab''"] example_string_holds [of "''bbb''"]
    by auto
qed
end
