(* ===== verification/WebServer.thy ===== *)
theory WebServer
  imports WString
begin

text \<open>
  The web server (\<^verbatim>\<open>ESP8266WebServer.cpp\<close>, \<^verbatim>\<open>Parsing.cpp\<close>): reading a request from a connection, its
  arguments, the table of handlers, and the response.  A connection is the list of the bytes that arrive
  before the reads of \<^verbatim>\<open>Stream\<close> time out; texts have no zero byte.  The debug prints are left out.
\<close>

section \<open>Reading from the connection\<close>

type_synonym stream = "u8 list"

fun readStringUntil :: "u8 \<Rightarrow> stream \<Rightarrow> u8 list \<times> stream" where
  "readStringUntil t [] = ([], [])"
| "readStringUntil t (c # s) = (if c = t then ([], s) else let (r, s) = readStringUntil t s in (c # r, s))"

text \<open>The two calls that read a line: up to the carriage return, and past the newline.\<close>

definition read_line :: "stream \<Rightarrow> u8 list \<times> stream" where
  "read_line s = (let (l, s) = readStringUntil 13 s; (_, s) = readStringUntil 10 s in (l, s))"

definition readBytes :: "nat \<Rightarrow> stream \<Rightarrow> u8 list \<times> stream" where
  "readBytes n s = (take n s, drop n s)"

text \<open>\<^verbatim>\<open>indexOf(ch, fromIndex)\<close> and \<^verbatim>\<open>startsWith\<close> on texts.\<close>

definition char_index :: "u8 list \<Rightarrow> char \<Rightarrow> nat \<Rightarrow> int" where
  "char_index xs c start =
     (let n = start + length (takeWhile (\<lambda>x. x \<noteq> of_char c) (drop start xs)) in if n < length xs then int n else - 1)"

definition text_starts :: "u8 list \<Rightarrow> u8 list \<Rightarrow> bool" where
  "text_starts xs p \<longleftrightarrow> take (length p) xs = p"

text \<open>\<^verbatim>\<open>substring\<close> with \<^verbatim>\<open>int\<close> arguments, which become \<^verbatim>\<open>unsigned int\<close>.\<close>

definition sub_from :: "u8 list \<Rightarrow> int \<Rightarrow> u8 list" where
  "sub_from s i = text_substring s (unat (word_of_int i :: u32)) (length s)"

definition sub_between :: "u8 list \<Rightarrow> int \<Rightarrow> int \<Rightarrow> u8 list" where
  "sub_between s i j = text_substring s (unat (word_of_int i :: u32)) (unat (word_of_int j :: u32))"

section \<open>The server's state\<close>

datatype HTTPMethod = HTTP_ANY | HTTP_GET | HTTP_POST | HTTP_PUT | HTTP_PATCH | HTTP_DELETE

datatype HTTPUploadStatus = UPLOAD_FILE_START | UPLOAD_FILE_WRITE | UPLOAD_FILE_END

record HTTPUpload =
  up_status :: HTTPUploadStatus
  up_filename :: "u8 list"
  up_name :: "u8 list"
  up_type :: "u8 list"
  up_total :: nat
  up_buf :: "u8 list"

text \<open>The buffer of an upload is the list of its first \<^verbatim>\<open>currentSize\<close> bytes; \<open>upload_calls\<close> is what the
  upload handler was called with, if there is one.\<close>

type_synonym args = "(u8 list \<times> u8 list) list"

record 'h web_server =
  handlers :: "(u8 list \<times> HTTPMethod \<times> 'h) list"
  notFoundHandler :: "'h option"
  has_upload_handler :: bool
  currentMethod :: HTTPMethod
  currentUri :: "u8 list"
  currentArgs :: args
  currentUpload :: HTTPUpload
  upload_calls :: "HTTPUpload list"
  responseHeaders :: "u8 list"

definition on_method :: "u8 list \<Rightarrow> HTTPMethod \<Rightarrow> 'h \<Rightarrow> 'h web_server \<Rightarrow> 'h web_server" where
  "on_method uri method fn w = w\<lparr>handlers := handlers w @ [(uri, method, fn)]\<rparr>"

definition on_any :: "u8 list \<Rightarrow> 'h \<Rightarrow> 'h web_server \<Rightarrow> 'h web_server" where
  "on_any uri fn w = on_method uri HTTP_ANY fn w"

definition onNotFound :: "'h \<Rightarrow> 'h web_server \<Rightarrow> 'h web_server" where
  "onNotFound fn w = w\<lparr>notFoundHandler := Some fn\<rparr>"

section \<open>The arguments\<close>

definition arg_value :: "args \<Rightarrow> nat \<Rightarrow> u8 list" where
  "arg_value as i = (if i < length as then snd (as ! i) else [])"

definition arg_name :: "args \<Rightarrow> nat \<Rightarrow> u8 list" where
  "arg_name as i = (if i < length as then fst (as ! i) else [])"

definition arg_named :: "args \<Rightarrow> u8 list \<Rightarrow> u8 list" where
  "arg_named as name = (case find (\<lambda>a. fst a = name) as of Some a \<Rightarrow> snd a | None \<Rightarrow> [])"

definition hasArg :: "args \<Rightarrow> u8 list \<Rightarrow> bool" where
  "hasArg as name \<longleftrightarrow> (\<exists>a \<in> set as. fst a = name)"

lemma char_index_bounds: "char_index xs c start \<noteq> - 1 \<Longrightarrow>
    int start \<le> char_index xs c start \<and> char_index xs c start < int (length xs)"
  by (auto simp: char_index_def Let_def split: if_splits)

function count_args :: "u8 list \<Rightarrow> nat \<Rightarrow> nat \<Rightarrow> nat" where
  "count_args s i n =
     (if i < length s
      then let j = char_index s (CHR ''&'') i in if j = - 1 then n else count_args s (nat (j + 1)) (n + 1)
      else n)"
  by pat_completeness auto
termination
  by (relation "measure (\<lambda>(s, i, n). length s - i)") (auto dest!: char_index_bounds)

declare count_args.simps [simp del]

text \<open>The loop that fills the arguments: \<open>n\<close> is the number of slots, \<open>out\<close> the arguments so far.\<close>

function arg_loop :: "u8 list \<Rightarrow> nat \<Rightarrow> nat \<Rightarrow> args \<Rightarrow> args" where
  "arg_loop s n pos out =
     (if length out < n
      then let equal_sign_index = char_index s (CHR ''='') pos; next_arg_index = char_index s (CHR ''&'') pos in
        if equal_sign_index = - 1 \<or> equal_sign_index > next_arg_index \<and> next_arg_index \<noteq> - 1
        then if next_arg_index = - 1 then out else arg_loop s n (nat (next_arg_index + 1)) out
        else let out = out @ [(sub_between s (int pos) equal_sign_index,
                               sub_between s (equal_sign_index + 1) next_arg_index)] in
          if next_arg_index = - 1 then out else arg_loop s n (nat (next_arg_index + 1)) out
      else out)"
  by pat_completeness auto
termination
  by (relation "measure (\<lambda>(s, n, pos, out). length s - pos)") (auto dest!: char_index_bounds)

declare arg_loop.simps [simp del]

definition parseArguments :: "u8 list \<Rightarrow> args" where
  "parseArguments s = (if s = [] then [] else arg_loop s (count_args s 0 1) 0 [])"

section \<open>Multipart forms\<close>

text \<open>What a call can come to: it waits for bytes that never come, reads or writes past an array, or returns.\<close>

datatype 'a run = Hangs | Overflow | Done 'a

definition HTTP_UPLOAD_BUFLEN :: nat where
  "HTTP_UPLOAD_BUFLEN = 2048"

definition call_upload :: "'h web_server \<Rightarrow> 'h web_server" where
  "call_upload w = (if has_upload_handler w then w\<lparr>upload_calls := upload_calls w @ [currentUpload w]\<rparr> else w)"

definition flush_upload :: "'h web_server \<Rightarrow> 'h web_server" where
  "flush_upload w =
     (let w = call_upload w; u = currentUpload w
      in w\<lparr>currentUpload := u\<lparr>up_total := up_total u + length (up_buf u)\<rparr>\<rparr>)"

definition uploadWriteByte :: "u8 \<Rightarrow> 'h web_server \<Rightarrow> 'h web_server" where
  "uploadWriteByte b w =
     (let w = (if length (up_buf (currentUpload w)) = HTTP_UPLOAD_BUFLEN
               then (flush_upload w)\<lparr>currentUpload := (currentUpload (flush_upload w))\<lparr>up_buf := []\<rparr>\<rparr> else w);
          u = currentUpload w
      in w\<lparr>currentUpload := u\<lparr>up_buf := up_buf u @ [b]\<rparr>\<rparr>)"

abbreviation write_bytes :: "u8 list \<Rightarrow> 'h web_server \<Rightarrow> 'h web_server" where
  "write_bytes bs w \<equiv> fold uploadWriteByte bs w"

text \<open>The body of a file: \<open>b\<close> is \<^verbatim>\<open>argByte\<close>.  \<^verbatim>\<open>endBuf\<close> is not terminated, so \<^verbatim>\<open>strstr\<close> runs on into \<open>mem\<close>,
  the memory behind it.  The result is the server and the rest of the stream.\<close>

function (sequential) read_file :: "u8 list \<Rightarrow> u8 list \<Rightarrow> 'h web_server \<Rightarrow> u8 \<Rightarrow> stream \<Rightarrow> ('h web_server \<times> stream) run" where
  "read_file mem boundary w b [] = Hangs"
| "read_file mem boundary w b (b1 # s) =
     (if b \<noteq> 13 then read_file mem boundary (uploadWriteByte b w) b1 s
      else if b1 \<noteq> 10 then read_file mem boundary (uploadWriteByte 13 w) b1 s
      else case s of
          [] \<Rightarrow> Hangs
        | b2 # s \<Rightarrow>
          if b2 \<noteq> of_char (CHR ''-'') then read_file mem boundary (write_bytes [13, 10] w) b2 s
          else case s of
              [] \<Rightarrow> Hangs
            | b3 # s \<Rightarrow>
              if b3 \<noteq> of_char (CHR ''-'') then read_file mem boundary (write_bytes [13, 10, of_char (CHR ''-'')] w) b3 s
              else let endBuf = take (length boundary) s @ drop (length s) (take (length boundary) mem) in
                case strstr (endBuf @ mem) (boundary @ [0]) of
                  None \<Rightarrow> Overflow
                | Some (Some _) \<Rightarrow>
                    let w = flush_upload w;
                        w = w\<lparr>currentUpload := (currentUpload w)\<lparr>up_status := UPLOAD_FILE_END\<rparr>\<rparr>
                    in Done (call_upload w, drop (length boundary) s)
                | Some None \<Rightarrow>
                    (case drop (length boundary) s of
                       [] \<Rightarrow> Hangs
                     | b4 # s' \<Rightarrow> read_file mem boundary
                         (write_bytes ([13, 10, of_char (CHR ''-''), of_char (CHR ''-'')] @ endBuf) w) b4 s'))"
  by pat_completeness auto
termination
  by (relation "measure (\<lambda>(mem, boundary, w, b, s). length s)") (auto dest: arg_cong [of _ _ length])

text \<open>The lines of a text value, up to the one that starts with the boundary.  At the end of the stream every
  line is empty: the loop then never ends, which here is running out of \<open>fuel\<close>.\<close>

fun value_loop :: "nat \<Rightarrow> u8 list \<Rightarrow> u8 list \<Rightarrow> stream \<Rightarrow> (u8 list \<times> u8 list \<times> stream) run" where
  "value_loop 0 boundary argValue s = Hangs"
| "value_loop (Suc fuel) boundary argValue s =
     (let (line, s) = read_line s in
      if text_starts line (str ''--'' @ boundary) then Done (argValue, line, s)
      else let argValue = (if length argValue > 0 then argValue @ [10] else argValue)
           in value_loop fuel boundary (argValue @ line) s)"

text \<open>The header of a part: name, file name if it has one, type, and the rest of the stream.\<close>

definition part_header :: "args \<Rightarrow> u8 list \<Rightarrow> int \<Rightarrow> stream \<Rightarrow> u8 list \<times> u8 list option \<times> u8 list \<times> stream" where
  "part_header as line nameStart s =
     (let argName = sub_from line (nameStart + 2);
          nameStart = char_index argName (CHR ''='') 0;
          (argName, file) =
            (if nameStart = - 1 then (sub_between argName 0 (int (length argName) - 1), None)
             else let f = sub_between argName (nameStart + 2) (int (length argName) - 1);
                      f' = (if f = str ''blob'' \<and> hasArg as (str ''filename'') then arg_named as (str ''filename'') else f)
                  in (sub_between argName 0 (char_index argName (CHR 0x22) 0), Some f'));
          (line, s) = read_line s;
          (argType, s) =
            (if text_starts line (str ''Content-Type'')
             then (sub_from line (char_index line (CHR '':'') 0 + 2), snd (read_line s))
             else (str ''text/plain'', s))
      in (argName, file, argType, s))"

text \<open>\<open>postArgs\<close> has 32 slots.\<close>

fun form_loop :: "nat \<Rightarrow> u8 list \<Rightarrow> u8 list \<Rightarrow> 'h web_server \<Rightarrow> args \<Rightarrow> stream \<Rightarrow> ('h web_server \<times> args \<times> stream) run" where
  "form_loop 0 mem boundary w postArgs s = Hangs"
| "form_loop (Suc fuel) mem boundary w postArgs s =
     (let (line, s) = read_line s; nameStart = char_index line (CHR ''='') 0 in
      if text_starts line (str ''Content-Disposition'') \<and> nameStart \<noteq> - 1
      then case part_header (currentArgs w) line nameStart s of
          (argName, None, argType, s) \<Rightarrow>
            (case value_loop fuel boundary [] s of
               Hangs \<Rightarrow> Hangs | Overflow \<Rightarrow> Overflow
             | Done (argValue, line, s) \<Rightarrow>
                 if length postArgs \<ge> 32 then Overflow
                 else let postArgs = postArgs @ [(argName, argValue)] in
                   if line = str ''--'' @ boundary @ str ''--'' then Done (w, postArgs, s)
                   else form_loop fuel mem boundary w postArgs s)
        | (argName, Some argFilename, argType, s) \<Rightarrow>
            let w = w\<lparr>currentUpload := \<lparr>up_status = UPLOAD_FILE_START, up_filename = argFilename, up_name = argName,
                      up_type = argType, up_total = 0, up_buf = []\<rparr>\<rparr>;
                w = call_upload w;
                w = w\<lparr>currentUpload := (currentUpload w)\<lparr>up_status := UPLOAD_FILE_WRITE\<rparr>\<rparr>
            in (case s of
                  [] \<Rightarrow> Hangs
                | b # s \<Rightarrow> (case read_file mem boundary w b s of
                    Hangs \<Rightarrow> Hangs | Overflow \<Rightarrow> Overflow
                  | Done (w, s) \<Rightarrow>
                      let (line, s) = read_line s in
                      if line = str ''--'' then Done (w, postArgs, s) else form_loop fuel mem boundary w postArgs s))
      else form_loop fuel mem boundary w postArgs s)"

definition parseForm :: "nat \<Rightarrow> u8 list \<Rightarrow> u8 list \<Rightarrow> 'h web_server \<Rightarrow> stream \<Rightarrow> ('h web_server \<times> stream) run" where
  "parseForm fuel mem boundary w s =
     (let (line, s) = read_line s in
      if line = str ''--'' @ boundary
      then case form_loop fuel mem boundary w [] s of
          Hangs \<Rightarrow> Hangs | Overflow \<Rightarrow> Overflow
        | Done (w, postArgs, s) \<Rightarrow>
            let totalArgs = (if 32 - length postArgs < length (currentArgs w) then 32 - length postArgs
                             else length (currentArgs w))
            in Done (w\<lparr>currentArgs := postArgs @ take totalArgs (currentArgs w)\<rparr>, s)
      else Done (w, s))"

section \<open>Requests\<close>

lemma length_readStringUntil: "length (snd (readStringUntil t s)) \<le> length s"
  by (induction s) (auto split: prod.splits)

lemma length_read_line: "fst (read_line s) \<noteq> [] \<Longrightarrow> length (snd (read_line s)) < length s"
proof -
  assume a: "fst (read_line s) \<noteq> []"
  have "fst (readStringUntil 13 s) \<noteq> []" using a by (auto simp: read_line_def split: prod.splits)
  then have "length (snd (readStringUntil 13 s)) < length s"
    using length_readStringUntil [of 13 "tl s"] by (cases s) (auto simp: less_Suc_eq_le split: prod.splits if_splits)
  then show ?thesis
    using length_readStringUntil [of 10 "snd (readStringUntil 13 s)"]
    by (auto simp: read_line_def split: prod.splits)
qed

text \<open>The header lines: whether the body is a form, and its boundary.  The content length is only printed.\<close>

function header_loop :: "bool \<Rightarrow> u8 list \<Rightarrow> stream \<Rightarrow> bool \<times> u8 list \<times> stream" where
  "header_loop isForm boundary s =
     (let req = fst (read_line s); rest = snd (read_line s) in
      if req = [] then (isForm, boundary, rest)
      else let headerDiv = char_index req (CHR '':'') 0 in
        if headerDiv = - 1 then (isForm, boundary, rest)
        else let headerName = sub_between req 0 headerDiv; headerValue = sub_from req (headerDiv + 2);
                 (isForm, boundary) =
                   (if headerName = str ''Content-Type''
                    then if text_starts headerValue (str ''text/plain'') then (False, boundary)
                      else if text_starts headerValue (str ''multipart/form-data'')
                      then (True, sub_from headerValue (char_index headerValue (CHR ''='') 0 + 1))
                      else (isForm, boundary)
                    else (isForm, boundary))
             in header_loop isForm boundary rest)"
  by pat_completeness auto
termination
  by (relation "measure (\<lambda>(isForm, boundary, s). length s)") (auto intro: length_read_line)

declare header_loop.simps [simp del]

definition request_method :: "u8 list \<Rightarrow> HTTPMethod" where
  "request_method methodStr =
     (if methodStr = str ''POST'' then HTTP_POST
      else if methodStr = str ''DELETE'' then HTTP_DELETE
      else if methodStr = str ''PUT'' then HTTP_PUT
      else if methodStr = str ''PATCH'' then HTTP_PATCH
      else HTTP_GET)"

definition parseRequest :: "nat \<Rightarrow> u8 list \<Rightarrow> stream \<Rightarrow> 'h web_server \<Rightarrow> (bool \<times> 'h web_server) run" where
  "parseRequest fuel mem s w =
     (let (req, s) = read_line s;
          addr_start = char_index req (CHR '' '') 0;
          addr_end = char_index req (CHR '' '') (nat (addr_start + 1)) in
      if addr_start = - 1 \<or> addr_end = - 1 then Done (False, w)
      else let methodStr = sub_between req 0 addr_start;
               url = sub_between req (addr_start + 1) addr_end;
               hasSearch = char_index url (CHR ''?'') 0;
               (searchStr, url) = (if hasSearch \<noteq> - 1 then (sub_from url (hasSearch + 1), sub_between url 0 hasSearch) else ([], url));
               method = request_method methodStr;
               w = w\<lparr>currentUri := url, currentMethod := method\<rparr>
           in if method = HTTP_POST \<or> method = HTTP_PUT \<or> method = HTTP_PATCH \<or> method = HTTP_DELETE
              then case header_loop False [] s of (isForm, boundary, s) \<Rightarrow>
                if isForm
                then (case parseForm fuel mem boundary (w\<lparr>currentArgs := parseArguments searchStr\<rparr>) s of
                        Hangs \<Rightarrow> Hangs | Overflow \<Rightarrow> Overflow | Done (w, s) \<Rightarrow> Done (True, w))
                else let searchStr = (if searchStr \<noteq> [] then searchStr @ str ''&'' else searchStr);
                         searchStr = searchStr @ fst (read_line s)
                     in Done (True, w\<lparr>currentArgs := parseArguments searchStr\<rparr>)
              else Done (True, w\<lparr>currentArgs := parseArguments searchStr\<rparr>))"

text \<open>The handler \<^verbatim>\<open>_handleRequest\<close> calls: the first in the order of registration that fits.\<close>

definition find_handler :: "'h web_server \<Rightarrow> 'h option" where
  "find_handler w =
     (case find (\<lambda>(uri, method, fn). \<not> (method \<noteq> HTTP_ANY \<and> method \<noteq> currentMethod w) \<and> \<not> uri \<noteq> currentUri w) (handlers w) of
        Some (uri, method, fn) \<Rightarrow> Some fn
      | None \<Rightarrow> notFoundHandler w)"

section \<open>Responses\<close>

definition responseCodeToString :: "int \<Rightarrow> u8 list" where
  "responseCodeToString code =
     (if code = 101 then str ''Switching Protocols''
      else if code = 200 then str ''OK''
      else if code = 403 then str ''Forbidden''
      else if code = 404 then str ''Not found''
      else if code = 500 then str ''Fail''
      else [])"

definition sendHeader :: "u8 list \<Rightarrow> u8 list \<Rightarrow> bool \<Rightarrow> 'h web_server \<Rightarrow> 'h web_server" where
  "sendHeader name v first w =
     (let headerLine = name @ str '': '' @ v @ [13, 10]
      in w\<lparr>responseHeaders := (if first then headerLine @ responseHeaders w else responseHeaders w @ headerLine)\<rparr>)"

text \<open>\<open>code_text\<close> and \<open>len_text\<close> are \<^verbatim>\<open>String(code)\<close> and \<^verbatim>\<open>String(content.length())\<close>.\<close>

definition send_response :: "int \<Rightarrow> u8 list option \<Rightarrow> u8 list \<Rightarrow> 'h web_server \<Rightarrow> (u8 list \<times> 'h web_server) option" where
  "send_response code content_type content w = do {
     code_text \<leftarrow> map_option butlast (itoa code 10);
     let response = str ''HTTP/1.1 '' @ code_text @ str '' '' @ responseCodeToString code @ [13, 10];
     let content_type = (case content_type of None \<Rightarrow> str ''text/html'' | Some t \<Rightarrow> t);
     len_text \<leftarrow> map_option butlast (utoa (word_of_nat (length content)) 10);
     let w = sendHeader (str ''Content-Type'') content_type True w;
     let w = sendHeader (str ''Content-Length'') len_text False w;
     let w = sendHeader (str ''Connection'') (str ''close'') False w;
     let w = sendHeader (str ''Access-Control-Allow-Origin'') (str ''*'') False w;
     Some (response @ responseHeaders w @ [13, 10] @ content, w\<lparr>responseHeaders := []\<rparr>) }"

definition HTTP_DOWNLOAD_UNIT_SIZE :: nat where
  "HTTP_DOWNLOAD_UNIT_SIZE = 1460"

text \<open>\<^verbatim>\<open>sendContent\<close>: \<open>accepted i\<close> is what the \<open>i\<close>-th \<^verbatim>\<open>write\<close> returned; the result is what was sent.  The wait
  for the client to close, at most two seconds, is left out.\<close>

function send_loop :: "(nat \<Rightarrow> nat) \<Rightarrow> nat \<Rightarrow> u8 list \<Rightarrow> u8 list" where
  "send_loop accepted i content =
     (if content = [] then []
      else let will_send = (if length content < HTTP_DOWNLOAD_UNIT_SIZE then length content else HTTP_DOWNLOAD_UNIT_SIZE);
               sent = min will_send (accepted i)
           in if sent = 0 then [] else take sent content @ send_loop accepted (Suc i) (drop sent content))"
  by pat_completeness auto
termination
  by (relation "measure (\<lambda>(accepted, i, content). length content)") auto

declare send_loop.simps [simp del]

definition sendContent :: "(nat \<Rightarrow> nat) \<Rightarrow> u8 list \<Rightarrow> u8 list" where
  "sendContent accepted content = send_loop accepted 0 content"

section \<open>Arguments come back\<close>

text \<open>A form as a browser writes it.\<close>

fun form_text :: "args \<Rightarrow> u8 list" where
  "form_text [] = []"
| "form_text [(k, v)] = k @ [61] @ v"
| "form_text ((k, v) # a # as) = k @ [61] @ v @ [38] @ form_text (a # as)"

definition plain_args :: "args \<Rightarrow> bool" where
  "plain_args as \<longleftrightarrow> (\<forall>(k, v) \<in> set as. 61 \<notin> set k \<and> 38 \<notin> set k \<and> 38 \<notin> set v)"

lemma form_char_codes [simp]: "(of_char (CHR ''&'') :: u8) = 38" "(of_char (CHR ''='') :: u8) = 61"
  "(of_char (CHR '' '') :: u8) = 32" "(of_char (CHR ''?'') :: u8) = 63" "(of_char (CHR '':'') :: u8) = 58"
  by simp_all

lemma char_index_append:
  "char_index (pre @ xs) c (length pre) =
     (if of_char c \<in> set xs then int (length pre + length (takeWhile (\<lambda>x. x \<noteq> of_char c) xs)) else - 1)"
proof -
  have "length (takeWhile (\<lambda>x. x \<noteq> of_char c) xs) < length xs \<longleftrightarrow> of_char c \<in> set xs"
    by (induction xs) auto
  then show ?thesis by (simp add: char_index_def)
qed

lemma char_index_found: "of_char c \<notin> set a \<Longrightarrow> char_index (pre @ a @ of_char c # b) c (length pre) = int (length pre + length a)"
proof -
  assume "of_char c \<notin> set a"
  then have "takeWhile (\<lambda>x. x \<noteq> of_char c) (a @ of_char c # b) = a" by (induction a) auto
  then show ?thesis by (simp add: char_index_append)
qed

lemma char_index_none: "of_char c \<notin> set xs \<Longrightarrow> char_index (pre @ xs) c (length pre) = - 1"
  by (simp add: char_index_append)

lemma sub_between_nat: "i \<le> j \<Longrightarrow> j \<le> length s \<Longrightarrow> length s < 2 ^ 32 \<Longrightarrow> sub_between s (int i) (int j) = drop i (take j s)"
  by (simp add: sub_between_def text_substring_def unat_of_nat)

lemma unat_minus_1: "unat (- 1 :: u32) = 2 ^ 32 - 1"
  by (simp add: unsigned_minus_1_eq_mask mask_eq_exp_minus_1)

lemma sub_between_end: "i \<le> length s \<Longrightarrow> length s < 2 ^ 32 \<Longrightarrow> sub_between s (int i) (- 1) = drop i s"
  by (simp add: sub_between_def text_substring_def unat_of_nat unat_minus_1)

lemma sub_from_nat: "i \<le> length s \<Longrightarrow> length s < 2 ^ 32 \<Longrightarrow> sub_from s (int i) = drop i s"
  by (simp add: sub_from_def text_substring_def unat_of_nat)

lemma form_text_Cons: "form_text ((k, v) # as) = k @ 61 # v @ (if as = [] then [] else 38 # form_text as)"
  by (cases as) simp_all

lemma plain_args_Cons: "plain_args ((k, v) # as) \<longleftrightarrow> 61 \<notin> set k \<and> 38 \<notin> set k \<and> 38 \<notin> set v \<and> plain_args as"
  by (simp add: plain_args_def)

lemma count_args_form:
  assumes "plain_args as" "as \<noteq> []"
  shows "count_args (pre @ form_text as) (length pre) n = n + length as - 1"
  using assms
proof (induction as arbitrary: pre n)
  case (Cons a as)
  obtain k v where a: "a = (k, v)" by (cases a) auto
  have p: "61 \<notin> set k" "38 \<notin> set k" "38 \<notin> set v" "plain_args as" using Cons.prems(1) by (simp_all add: a plain_args_Cons)
  show ?case
  proof (cases "as = []")
    case True
    then have "char_index (pre @ form_text (a # as)) (CHR ''&'') (length pre) = - 1"
      unfolding a form_text_Cons using p by (intro char_index_none) simp
    then show ?thesis by (subst count_args.simps) (simp add: True)
  next
    case False
    let ?pre = "pre @ k @ 61 # v @ [38]"
    have s: "pre @ form_text (a # as) = ?pre @ form_text as" by (simp add: a form_text_Cons False)
    have "char_index (pre @ (k @ 61 # v) @ of_char (CHR ''&'') # form_text as) (CHR ''&'') (length pre) = int (length pre + length (k @ 61 # v))"
      by (rule char_index_found) (use p in simp)
    then have i: "char_index (?pre @ form_text as) (CHR ''&'') (length pre) = int (length pre + length (k @ 61 # v))" by simp
    have "length pre < length (?pre @ form_text as)" by simp
    then have "count_args (?pre @ form_text as) (length pre) n = count_args (?pre @ form_text as) (length ?pre) (n + 1)"
      using i by (subst count_args.simps) (simp add: nat_add_distrib add.assoc)
    then show ?thesis unfolding s using Cons.IH [OF p(4) False, of ?pre "n + 1"] False by (cases as) simp_all
  qed
qed simp

lemma arg_loop_form:
  assumes "plain_args as" "as \<noteq> []" "length out + length as \<le> n" "length (pre @ form_text as) < 2 ^ 32"
  shows "arg_loop (pre @ form_text as) n (length pre) out = out @ as"
  using assms
proof (induction as arbitrary: pre out)
  case (Cons a as)
  obtain k v where a: "a = (k, v)" by (cases a) auto
  have p: "61 \<notin> set k" "38 \<notin> set k" "38 \<notin> set v" "plain_args as" using Cons.prems(1) by (simp_all add: a plain_args_Cons)
  let ?rest = "if as = [] then [] else 38 # form_text as" and ?i = "length pre"
  define s where "s = pre @ k @ 61 # v @ ?rest"
  have s: "pre @ form_text (a # as) = s" by (simp add: a form_text_Cons s_def)
  have l: "length s < 2 ^ 32" using Cons.prems(4) unfolding s .
  have eq: "char_index s (CHR ''='') ?i = int (?i + length k)"
    unfolding s_def using char_index_found [of "CHR ''=''" k pre "v @ ?rest"] p by simp
  have key: "sub_between s (int ?i) (int (?i + length k)) = k"
    using l by (subst sub_between_nat) (simp_all add: s_def)
  show ?case
  proof (cases "as = []")
    case True
    then have "char_index s (CHR ''&'') ?i = - 1" unfolding s_def using p by (intro char_index_none) simp
    moreover have "sub_between s (int (Suc (?i + length k))) (- 1) = v"
      using l True by (subst sub_between_end) (simp_all add: s_def)
    ultimately show ?thesis
      unfolding s using Cons.prems(3) True eq key by (subst arg_loop.simps) (simp add: a add.commute add.left_commute)
  next
    case False
    let ?pre = "pre @ k @ 61 # v @ [38]" and ?j = "?i + length k + 1 + length v"
    have "char_index (pre @ (k @ 61 # v) @ of_char (CHR ''&'') # form_text as) (CHR ''&'') ?i = int (?i + length (k @ 61 # v))"
      by (rule char_index_found) (use p in simp)
    then have amp: "char_index s (CHR ''&'') ?i = int ?j" by (simp add: s_def False)
    have v: "sub_between s (int (?i + length k + 1)) (int ?j) = v"
      using l by (subst sub_between_nat) (simp_all add: s_def)
    have "s = ?pre @ form_text as" "nat (int ?j + 1) = length ?pre" by (simp_all add: s_def False nat_add_distrib)
    moreover have "arg_loop s n ?i out = arg_loop s n (nat (int ?j + 1)) (out @ [(k, v)])"
      using Cons.prems(3) eq key amp v by (subst arg_loop.simps) (simp add: Let_def add.commute add.left_commute)
    ultimately show ?thesis
      unfolding s using Cons.IH [OF p(4) False, of "out @ [(k, v)]" ?pre] Cons.prems(3) l a by simp
  qed
qed simp

lemma parseArguments_form:
  assumes "plain_args as" "length (form_text as) < 2 ^ 32"
  shows "parseArguments (form_text as) = as"
proof (cases "as = []")
  case False
  then have "form_text as \<noteq> []" by (cases as) (auto simp: form_text_Cons)
  moreover have "count_args (form_text as) 0 1 = length as"
    using count_args_form [OF assms(1) False, of "[]" 1] by simp
  moreover have "arg_loop (form_text as) (length as) 0 [] = as"
    using arg_loop_form [OF assms(1) False, of "[]" "length as" "[]"] assms(2) by simp
  ultimately show ?thesis by (simp add: parseArguments_def)
qed (simp add: parseArguments_def)

section \<open>A posted form\<close>

lemma readStringUntil_found: "t \<notin> set l \<Longrightarrow> readStringUntil t (l @ t # s) = (l, s)"
  by (induction l) auto

lemma readStringUntil_end: "t \<notin> set l \<Longrightarrow> readStringUntil t l = (l, [])"
  by (induction l) auto

lemma read_line_found: "13 \<notin> set l \<Longrightarrow> read_line (l @ 13 # 10 # s) = (l, s)"
  using readStringUntil_found [of 10 "[]" s] by (simp add: read_line_def readStringUntil_found)

lemma read_line_end: "13 \<notin> set l \<Longrightarrow> read_line l = (l, [])"
  by (simp add: read_line_def readStringUntil_end)

definition header_lines :: "u8 list list \<Rightarrow> u8 list" where
  "header_lines hs = concat (map (\<lambda>h. h @ [13, 10]) hs)"

text \<open>A header line that does not announce a multipart form.\<close>

definition plain_header :: "u8 list \<Rightarrow> bool" where
  "plain_header h \<longleftrightarrow> 13 \<notin> set h \<and> 58 \<in> set h \<and>
     \<not> (sub_between h 0 (char_index h (CHR '':'') 0) = str ''Content-Type'' \<and>
        text_starts (sub_from h (char_index h (CHR '':'') 0 + 2)) (str ''multipart/form-data''))"

lemma header_loop_plain:
  "\<forall>h \<in> set hs. plain_header h \<Longrightarrow> header_loop False [] (header_lines hs @ 13 # 10 # body) = (False, [], body)"
proof (induction hs)
  case Nil
  have "read_line (13 # 10 # body) = ([], body)" using read_line_found [of "[]" body] by simp
  then show ?case by (subst header_loop.simps) (simp add: header_lines_def)
next
  case (Cons h hs)
  have h: "13 \<notin> set h" "58 \<in> set h" using Cons.prems by (simp_all add: plain_header_def)
  then have i: "char_index h (CHR '':'') 0 \<noteq> - 1" "h \<noteq> []" using char_index_append [of "[]" h "CHR '':''"] by auto
  have "header_lines (h # hs) @ 13 # 10 # body = h @ 13 # 10 # header_lines hs @ 13 # 10 # body" by (simp add: header_lines_def)
  then have r: "read_line (header_lines (h # hs) @ 13 # 10 # body) = (h, header_lines hs @ 13 # 10 # body)"
    using read_line_found [OF h(1)] by simp
  have "header_loop False [] (header_lines (h # hs) @ 13 # 10 # body) = header_loop False [] (header_lines hs @ 13 # 10 # body)"
    using Cons.prems i by (subst header_loop.simps) (auto simp: r Let_def plain_header_def)
  then show ?case using Cons by simp
qed

text \<open>The request line.\<close>

lemma request_line:
  assumes "32 \<notin> set methd" "32 \<notin> set uri" "length methd + length uri < 2 ^ 32 - 20"
  defines "req \<equiv> methd @ 32 # uri @ 32 # str ''HTTP/1.1''"
  shows "char_index req (CHR '' '') 0 = int (length methd)"
    and "char_index req (CHR '' '') (length methd + 1) = int (length methd + 1 + length uri)"
    and "sub_between req 0 (int (length methd)) = methd"
    and "sub_between req (int (length methd + 1)) (int (length methd + 1 + length uri)) = uri"
proof -
  show "char_index req (CHR '' '') 0 = int (length methd)"
    using char_index_found [of "CHR '' ''" methd "[]"] assms(1) by (simp add: req_def)
  show "char_index req (CHR '' '') (length methd + 1) = int (length methd + 1 + length uri)"
    using char_index_found [of "CHR '' ''" uri "methd @ [32]"] assms(2) by (simp add: req_def)
  have l: "length req < 2 ^ 32" using assms(3) by (simp add: req_def str_def)
  show "sub_between req 0 (int (length methd)) = methd"
    using sub_between_nat [of 0 "length methd" req] l by (simp add: req_def)
  show "sub_between req (int (length methd + 1)) (int (length methd + 1 + length uri)) = uri"
    using sub_between_nat [of "length methd + 1" "length methd + 1 + length uri" req] l
    by (simp add: req_def del: of_nat_add)
qed

lemma parse_posted_form:
  assumes "plain_args as" "length (form_text as) < 2 ^ 32" "13 \<notin> set (form_text as)"
    and "set uri \<inter> {13, 32, 63} = {}" "length uri < 2 ^ 31" "\<forall>h \<in> set hs. plain_header h"
  shows "parseRequest fuel mem
      (str ''POST '' @ uri @ str '' HTTP/1.1'' @ [13, 10] @ header_lines hs @ [13, 10] @ form_text as) w =
    Done (True, w\<lparr>currentUri := uri, currentMethod := HTTP_POST, currentArgs := as\<rparr>)"
proof -
  define req where "req = str ''POST'' @ 32 # uri @ 32 # str ''HTTP/1.1''"
  let ?s = "header_lines hs @ 13 # 10 # form_text as"
  have s: "str ''POST '' @ uri @ str '' HTTP/1.1'' @ [13, 10] @ header_lines hs @ [13, 10] @ form_text as = req @ 13 # 10 # ?s"
    by (simp add: req_def str_def)
  have "13 \<notin> set req" using assms(4) by (auto simp: req_def str_def)
  then have r: "read_line (req @ 13 # 10 # ?s) = (req, ?s)" by (rule read_line_found)
  have m: "32 \<notin> set (str ''POST'')" "32 \<notin> set uri" "length (str ''POST'') = 4" using assms(4) by (auto simp: str_def)
  have i: "char_index req (CHR '' '') 0 = 4" "char_index req (CHR '' '') 5 = 5 + int (length uri)"
    "sub_between req 0 4 = str ''POST''" "sub_between req 5 (5 + int (length uri)) = uri"
    using request_line [OF m(1,2), folded req_def] m(3) assms(5) by simp_all
  have q: "char_index uri (CHR ''?'') 0 = - 1" using char_index_none [of "CHR ''?''" uri "[]"] assms(4) by simp
  have h: "header_loop False [] ?s = (False, [], form_text as)" by (rule header_loop_plain [OF assms(6)])
  show ?thesis
    unfolding s parseRequest_def r
    using q h read_line_end [OF assms(3)] parseArguments_form [OF assms(1,2)]
    by (simp add: i request_method_def Let_def)
qed

section \<open>Forms that are not answered\<close>

lemma text_starts_Nil: "p \<noteq> [] \<Longrightarrow> \<not> text_starts [] p"
  by (simp add: text_starts_def)

lemma read_line_Nil [simp]: "read_line [] = ([], [])"
  by (simp add: read_line_def)

lemma form_loop_end: "form_loop fuel mem boundary w out [] = Hangs"
  by (induction fuel) (simp_all add: text_starts_Nil str_def)

definition field_part :: "u8 list \<Rightarrow> u8 list \<Rightarrow> u8 list \<Rightarrow> u8 list" where
  "field_part boundary k v = str ''Content-Disposition: form-data; name='' @ [34] @ k @ [34] @ [13, 10] @ [13, 10] @
     v @ [13, 10] @ str ''--'' @ boundary @ [13, 10]"

lemma form_loop_field:
  assumes "13 \<notin> set boundary" "13 \<notin> set k" "61 \<notin> set k" "13 \<notin> set v" "length k < 2 ^ 31"
    and "\<not> text_starts v (str ''--'' @ boundary)"
  shows "form_loop (Suc (Suc (Suc fuel))) mem boundary w out (field_part boundary k v @ s) =
    (if 32 \<le> length out then Overflow else form_loop (Suc (Suc fuel)) mem boundary w (out @ [(k, v)]) s)"
proof -
  define d where "d = str ''Content-Disposition: form-data; name''"
  let ?l1 = "d @ 61 # 34 # k @ [34]" and ?l2 = "str ''--'' @ boundary"
  have f: "field_part boundary k v @ s = ?l1 @ 13 # 10 # ([] @ 13 # 10 # (v @ 13 # 10 # (?l2 @ 13 # 10 # s)))"
    by (simp add: field_part_def d_def str_def)
  have n: "13 \<notin> set ?l1" "13 \<notin> set ?l2" "61 \<notin> set d" "length d < 100" using assms(1,2) by (auto simp: d_def str_def)
  note rd = read_line_found [OF n(1)] read_line_found [of "[]", simplified] read_line_found [OF assms(4)] read_line_found [OF n(2)]
  have st: "text_starts ?l1 (str ''Content-Disposition'')" by (simp add: text_starts_def d_def str_def)
  have i: "char_index ?l1 (CHR ''='') 0 = int (length d)" using char_index_found [of "CHR ''=''" d "[]"] n(3) by simp
  have "sub_from ?l1 (int (length d + 2)) = k @ [34]"
    using n(4) assms(5) by (subst sub_from_nat) simp_all
  moreover have "char_index (k @ [34]) (CHR ''='') 0 = - 1" using char_index_none [of "CHR ''=''" "k @ [34]" "[]"] assms(3) by simp
  moreover have "sub_between (k @ [34]) 0 (int (length k)) = k"
    using sub_between_nat [of 0 "length k" "k @ [34]"] assms(5) by simp
  ultimately have h: "part_header (currentArgs w) ?l1 (int (length d)) (13 # 10 # (v @ 13 # 10 # (?l2 @ 13 # 10 # s))) =
      (k, None, str ''text/plain'', v @ 13 # 10 # (?l2 @ 13 # 10 # s))"
    using rd(2) [of "v @ 13 # 10 # (?l2 @ 13 # 10 # s)"]
    by (simp add: part_header_def Let_def text_starts_Nil add.commute) (simp add: str_def text_starts_def)
  have v: "value_loop (Suc (Suc fuel)) boundary [] (v @ 13 # 10 # (?l2 @ 13 # 10 # s)) = Done (v, ?l2, s)"
    using rd(3) [of "?l2 @ 13 # 10 # s"] rd(4) [of s] assms(6) by (simp add: text_starts_def)
  have l2: "?l2 \<noteq> ?l2 @ str ''--''" by (simp add: str_def)
  show ?thesis
    unfolding f form_loop.simps(2) [of "Suc (Suc fuel)"]
    using rd(1) st i h v l2 by (simp add: Let_def del: value_loop.simps form_loop.simps)
qed

lemma form_loop_overflow:
  assumes "13 \<notin> set boundary" "13 \<notin> set k" "61 \<notin> set k" "13 \<notin> set v" "length k < 2 ^ 31"
    and "\<not> text_starts v (str ''--'' @ boundary)" "length out \<le> 32" "32 < n + length out" "n + 1 < fuel"
  shows "form_loop fuel mem boundary w out (concat (replicate n (field_part boundary k v)) @ s) = Overflow"
  using assms(7-9)
proof (induction n arbitrary: out fuel)
  case (Suc n)
  define f where "f = fuel - 3"
  with Suc.prems(3) have f: "fuel = Suc (Suc (Suc f))" by simp
  show ?case
    using Suc.IH [of "out @ [(k, v)]" "Suc (Suc f)"] Suc.prems
    by (simp add: f form_loop_field [OF assms(1-6)] del: form_loop.simps)
qed simp

section \<open>Properties\<close>

text \<open>C21 (functional). A form that a browser posts, any number of fields after any header lines that do not announce a
  multipart form, reaches the handler with its address, its method and exactly its fields, in order and not
  decoded.\<close>

theorem posted_form_is_parsed:
  assumes "plain_args as" "length (form_text as) < 2 ^ 32" "13 \<notin> set (form_text as)"
    and "set uri \<inter> {13, 32, 63} = {}" "length uri < 2 ^ 31" "\<forall>h \<in> set hs. plain_header h"
  shows "parseRequest fuel mem
      (str ''POST '' @ uri @ str '' HTTP/1.1'' @ [13, 10] @ header_lines hs @ [13, 10] @ form_text as) w =
    Done (True, w\<lparr>currentUri := uri, currentMethod := HTTP_POST, currentArgs := as\<rparr>)"
  by (rule parse_posted_form [OF assms])

text \<open>C32 (safety). A multipart form stops the server: if the connection ends after the first boundary the loop that
  looks for parts never ends, however long it runs, and a form of more than 32 fields writes past the 32
  slots of \<^verbatim>\<open>postArgs\<close>.\<close>

theorem multipart_form_traps:
  assumes "13 \<notin> set boundary" "13 \<notin> set k" "61 \<notin> set k" "13 \<notin> set v" "length k < 2 ^ 31"
    and "\<not> text_starts v (str ''--'' @ boundary)" "32 < n" "n + 1 < fuel"
  shows "parseForm any_fuel mem boundary w (str ''--'' @ boundary @ [13, 10]) = Hangs \<and>
    parseForm fuel mem boundary w
      (str ''--'' @ boundary @ [13, 10] @ concat (replicate n (field_part boundary k v)) @ s) = Overflow"
proof -
  have n: "13 \<notin> set (str ''--'' @ boundary)" using assms(1) by (simp add: str_def)
  show ?thesis
    using read_line_found [OF n, of "[]"] read_line_found [OF n, of "concat (replicate n (field_part boundary k v)) @ s"]
      form_loop_overflow [OF assms(1-6), of "[]" n fuel mem w s] assms(7,8) form_loop_end [of any_fuel mem boundary w "[]"]
    by (simp add: parseForm_def)
qed

section \<open>Examples\<close>

definition idle_server :: "nat web_server" where
  "idle_server = \<lparr>handlers = [], notFoundHandler = None, has_upload_handler = False, currentMethod = HTTP_GET,
     currentUri = [], currentArgs = [], currentUpload = \<lparr>up_status = UPLOAD_FILE_START, up_filename = [], up_name = [],
     up_type = [], up_total = 0, up_buf = []\<rparr>, upload_calls = [], responseHeaders = []\<rparr>"

theorem posted_form_is_parsed_witness:
  "parseRequest 0 [] (str ''POST /general.html HTTP/1.1'' @ [13, 10] @ str ''Host: 192.168.4.1'' @ [13, 10] @ [13, 10] @
     str ''pm=1&pt=100'') idle_server =
   Done (True, idle_server\<lparr>currentUri := str ''/general.html'', currentMethod := HTTP_POST,
     currentArgs := [(str ''pm'', str ''1''), (str ''pt'', str ''100'')]\<rparr>)"
proof -
  have "plain_header (str ''Host: 192.168.4.1'')"
    by (simp add: plain_header_def char_index_def sub_between_def text_substring_def str_def)
  then show ?thesis
    using posted_form_is_parsed [of "[(str ''pm'', str ''1''), (str ''pt'', str ''100'')]" "str ''/general.html''"
        "[str ''Host: 192.168.4.1'']" 0 "[]" idle_server]
    by (simp add: plain_args_def header_lines_def str_def)
qed

theorem multipart_form_traps_witness:
  "parseForm 1000 [] (str ''xyz'') idle_server (str ''--xyz'' @ [13, 10]) = Hangs \<and>
   parseForm 40 [] (str ''xyz'') idle_server
     (str ''--xyz'' @ [13, 10] @ concat (replicate 33 (field_part (str ''xyz'') (str ''a'') (str ''1'')))) = Overflow"
  using multipart_form_traps [of "str ''xyz''" "str ''a''" "str ''1''" 33 40 1000 "[]" idle_server "[]"]
  by (simp add: text_starts_def str_def)

end
