(* ===== verification/Eeprom.thy ===== *)
theory Eeprom
  imports Flashmem
begin

text \<open>
  The EEPROM emulation (\<^verbatim>\<open>EEPROM.cpp\<close>): a RAM copy of the first bytes of one flash sector, written
  back as a whole by \<^verbatim>\<open>commit\<close>.  The SDK's flash routines are the parameter \<open>k\<close> of theory
  \<open>Flashmem\<close>; \<^verbatim>\<open>operator new\<close> is taken to return a block.  The lemmas give the content of the RAM
  copy after every operation and its survival of a restart.
\<close>

section \<open>The object\<close>

record 'd eeprom =
  hw :: "'d flash_hw"
  ee_sector :: u32
  ee_data :: "u8 list option"
  ee_size :: nat
  ee_dirty :: bool

definition EEPROMClass :: "'d flash_hw \<Rightarrow> u32 \<Rightarrow> 'd eeprom" where
  "EEPROMClass h sector = \<lparr>hw = h, ee_sector = sector, ee_data = None, ee_size = 0, ee_dirty = False\<rparr>"

definition SPI_FLASH_SEC_SIZE :: nat where
  "SPI_FLASH_SEC_SIZE = 4096"

definition EEPROM_begin :: "'d sdk \<Rightarrow> nat \<Rightarrow> 'd eeprom \<Rightarrow> 'd eeprom" where
  "EEPROM_begin k sz e =
     (if sz = 0 then e
      else let sz = (if sz > SPI_FLASH_SEC_SIZE then SPI_FLASH_SEC_SIZE else sz);
               h = noInterrupts (hw e);
               (res, bs, d) = spi_flash_read k (chip_size h) (ee_sector e * word_of_nat SPI_FLASH_SEC_SIZE) (word_of_nat sz) (chip h)
           in e\<lparr>ee_data := Some bs, ee_size := sz, hw := interrupts (h\<lparr>chip := d\<rparr>)\<rparr>)"

definition EEPROM_read :: "'d eeprom \<Rightarrow> int \<Rightarrow> u8" where
  "EEPROM_read e address =
     (if address < 0 \<or> nat address \<ge> ee_size e then 0
      else case ee_data e of None \<Rightarrow> 0 | Some bs \<Rightarrow> bs ! nat address)"

definition EEPROM_write :: "int \<Rightarrow> u8 \<Rightarrow> 'd eeprom \<Rightarrow> 'd eeprom" where
  "EEPROM_write address v e =
     (if address < 0 \<or> nat address \<ge> ee_size e then e
      else case ee_data e of None \<Rightarrow> e | Some bs \<Rightarrow> e\<lparr>ee_data := Some (bs[nat address := v]), ee_dirty := True\<rparr>)"

definition EEPROM_commit :: "'d sdk \<Rightarrow> 'd eeprom \<Rightarrow> bool \<times> 'd eeprom" where
  "EEPROM_commit k e =
     (if ee_size e = 0 then (False, e)
      else if \<not> ee_dirty e then (True, e)
      else case ee_data e of
        None \<Rightarrow> (False, e)
      | Some bs \<Rightarrow>
          let h = noInterrupts (hw e);
              (erased, d) = spi_flash_erase_sector k (chip_size h) (ee_sector e) (chip h);
              h = h\<lparr>chip := d\<rparr>
          in if erased
             then let (written, d) = spi_flash_write k (chip_size h) (ee_sector e * word_of_nat SPI_FLASH_SEC_SIZE)
                        (take (ee_size e) bs) (chip h);
                      h = interrupts (h\<lparr>chip := d\<rparr>)
                  in if written then (True, e\<lparr>hw := h, ee_dirty := False\<rparr>) else (False, e\<lparr>hw := h\<rparr>)
             else (False, e\<lparr>hw := interrupts h\<rparr>))"

definition EEPROM_end :: "'d sdk \<Rightarrow> 'd eeprom \<Rightarrow> 'd eeprom" where
  "EEPROM_end k e =
     (if ee_size e = 0 then e else (snd (EEPROM_commit k e))\<lparr>ee_data := None, ee_size := 0\<rparr>)"

text \<open>\<^verbatim>\<open>getDataPtr\<close> gives the RAM copy away and marks it as changed.\<close>

definition EEPROM_getDataPtr :: "'d eeprom \<Rightarrow> u8 list option \<times> 'd eeprom" where
  "EEPROM_getDataPtr e = (ee_data e, e\<lparr>ee_dirty := True\<rparr>)"

text \<open>The bytes of a value of the template type; \<^verbatim>\<open>get\<close> leaves its argument alone when out of range.\<close>

definition EEPROM_get :: "'d eeprom \<Rightarrow> int \<Rightarrow> u8 list \<Rightarrow> u8 list option" where
  "EEPROM_get e address t =
     (if address < 0 \<or> nat address + length t > ee_size e then Some t
      else map_option (slice (nat address) (length t)) (ee_data e))"

definition EEPROM_put :: "int \<Rightarrow> u8 list \<Rightarrow> 'd eeprom \<Rightarrow> 'd eeprom option" where
  "EEPROM_put address t e =
     (if address < 0 \<or> nat address + length t > ee_size e then Some e
      else map_option (\<lambda>bs. e\<lparr>ee_data := Some (blit (nat address) t bs), ee_dirty := True\<rparr>) (ee_data e))"

section \<open>The RAM copy\<close>

text \<open>A mounted EEPROM: the copy has the size asked for, and when it is not dirty the flash sector
  holds the same bytes.\<close>

definition ee_ok :: "('d \<Rightarrow> nat \<Rightarrow> u8) \<Rightarrow> 'd eeprom \<Rightarrow> bool" where
  "ee_ok view e \<longleftrightarrow> (\<exists>bs. ee_data e = Some bs \<and> length bs = ee_size e \<and>
     (\<not> ee_dirty e \<longrightarrow> nor_read (view (chip (hw e))) (unat (ee_sector e) * 4096) (ee_size e) = bs)) \<and>
   0 < ee_size e \<and> ee_size e \<le> 4096 \<and> ee_size e mod 4 = 0 \<and>
   unat (ee_sector e) * 4096 + 4096 \<le> unat (chip_size (hw e))"

abbreviation ee_bytes :: "'d eeprom \<Rightarrow> u8 list" where
  "ee_bytes e \<equiv> the (ee_data e)"

named_theorems eeprom_simps "reads, writes and frames of the RAM copy"

lemma ee_ok_bytes: "ee_ok view e \<Longrightarrow> ee_data e = Some (ee_bytes e) \<and> length (ee_bytes e) = ee_size e"
  by (auto simp: ee_ok_def)

lemma EEPROM_read_bytes [eeprom_simps]:
  "ee_ok view e \<Longrightarrow> EEPROM_read e a = (if 0 \<le> a \<and> nat a < ee_size e then ee_bytes e ! nat a else 0)"
  by (auto simp: ee_ok_def EEPROM_read_def)

lemma EEPROM_write_fields [eeprom_simps]:
  "ee_size (EEPROM_write a v e) = ee_size e" "ee_sector (EEPROM_write a v e) = ee_sector e"
  "hw (EEPROM_write a v e) = hw e"
  by (auto simp: EEPROM_write_def split: option.split)

lemma EEPROM_write_ok: "ee_ok view e \<Longrightarrow> ee_ok view (EEPROM_write a v e)"
  by (auto simp: ee_ok_def EEPROM_write_def split: option.split)

lemma EEPROM_write_bytes [eeprom_simps]:
  "ee_ok view e \<Longrightarrow> ee_bytes (EEPROM_write a v e) = (if 0 \<le> a then (ee_bytes e)[nat a := v] else ee_bytes e)"
  by (auto simp: ee_ok_def EEPROM_write_def list_update_beyond)

lemma sector_start:
  "unat (s :: u32) * 4096 + 4096 \<le> unat (c :: u32) \<Longrightarrow> unat (s * word_of_nat SPI_FLASH_SEC_SIZE) = unat s * 4096"
  using unat_u32_less [of c] by (simp add: SPI_FLASH_SEC_SIZE_def unat_word_ariths)

context spi_chip
begin

lemma EEPROM_begin_ok:
  assumes "0 < n" "n \<le> 4096" "n mod 4 = 0" "unat (ee_sector e) * 4096 + 4096 \<le> unat (chip_size (hw e))" "\<not> ee_dirty e"
  shows "ee_ok view (EEPROM_begin k n e) \<and> ee_size (EEPROM_begin k n e) = n \<and>
    ee_sector (EEPROM_begin k n e) = ee_sector e \<and>
    ee_bytes (EEPROM_begin k n e) = nor_read (view (chip (hw e))) (unat (ee_sector e) * 4096) n \<and>
    leaves (hw e) (view (chip (hw e))) (hw (EEPROM_begin k n e))"
proof -
  have u: "unat (word_of_nat n :: u32) = n" using assms(2) by (intro unat_word_of_nat_u32) simp
  note s = sector_start [OF assms(4)]
  from read_ok [of "ee_sector e * word_of_nat SPI_FLASH_SEC_SIZE" "word_of_nat n" "chip_size (hw e)" "chip (hw e)"]
  obtain d' where "spi_flash_read k (chip_size (hw e)) (ee_sector e * word_of_nat SPI_FLASH_SEC_SIZE) (word_of_nat n) (chip (hw e)) =
      (True, nor_read (view (chip (hw e))) (unat (ee_sector e) * 4096) n, d')" "view d' = view (chip (hw e))"
    using assms s u by auto
  then show ?thesis
    using assms by (auto simp: EEPROM_begin_def ee_ok_def noInterrupts_def interrupts_def SPI_FLASH_SEC_SIZE_def Let_def)
qed

lemma EEPROM_commit_ok:
  assumes "ee_ok view e"
  shows "\<exists>e'. EEPROM_commit k e = (True, e') \<and> ee_ok view e' \<and> \<not> ee_dirty e' \<and> ee_data e' = ee_data e \<and>
    ee_size e' = ee_size e \<and> ee_sector e' = ee_sector e \<and> chip_size (hw e') = chip_size (hw e) \<and> ps (hw e') = ps (hw e) \<and>
    nor_read (view (chip (hw e'))) (unat (ee_sector e) * 4096) (ee_size e) = ee_bytes e \<and>
    (\<forall>i. i < unat (ee_sector e) * 4096 \<or> unat (ee_sector e) * 4096 + 4096 \<le> i \<longrightarrow>
       view (chip (hw e')) i = view (chip (hw e)) i)"
proof (cases "ee_dirty e")
  case False
  then show ?thesis using assms by (auto simp: EEPROM_commit_def ee_ok_def)
next
  case True
  let ?a = "unat (ee_sector e) * 4096"
  obtain bs where bs: "ee_data e = Some bs" "length bs = ee_size e" using assms by (auto simp: ee_ok_def)
  have sz: "0 < ee_size e" "ee_size e \<le> 4096" "ee_size e mod 4 = 0" "?a + 4096 \<le> unat (chip_size (hw e))"
    using assms by (auto simp: ee_ok_def)
  note s = sector_start [OF sz(4)]
  obtain d1 where d1: "spi_flash_erase_sector k (chip_size (hw e)) (ee_sector e) (chip (hw e)) = (True, d1)"
    "view d1 = nor_erase (view (chip (hw e))) ?a 4096" using erase_ok [OF sz(4)] by blast
  obtain d2 where d2: "spi_flash_write k (chip_size (hw e)) (ee_sector e * word_of_nat SPI_FLASH_SEC_SIZE) bs d1 = (True, d2)"
    "view d2 = nor_program (view d1) ?a bs"
    using write_ok [of "ee_sector e * word_of_nat SPI_FLASH_SEC_SIZE" bs "chip_size (hw e)" d1] s sz bs(2) by auto
  have rd: "nor_read (view d2) ?a (length bs) = bs"
    unfolding d2(2) d1(2) using sz(2) bs(2) by (intro nor_read_program_erased) (simp add: nor_erase_def)
  have out: "view d2 i = view (chip (hw e)) i" if "i < ?a \<or> ?a + 4096 \<le> i" for i
    using that sz(2) bs(2) by (auto simp: d2(2) d1(2) nor_program_def nor_erase_def)
  have t: "take (ee_size e) bs = bs" using bs(2) by simp
  have "EEPROM_commit k e = (True, e\<lparr>hw := interrupts (noInterrupts (hw e)\<lparr>chip := d2\<rparr>), ee_dirty := False\<rparr>)"
    using True sz(1) bs(1) d1(1) d2(1) t
    by (simp add: EEPROM_commit_def noInterrupts_def Let_def)
  then show ?thesis
    using assms bs rd out by (auto simp: ee_ok_def interrupts_def noInterrupts_def)
qed

end

section \<open>Properties\<close>

text \<open>C24 (roundtrip). On a chip that behaves as documented, \<^verbatim>\<open>commit\<close> succeeds, and \<^verbatim>\<open>begin\<close> after a restart,
  on a new object over the same flash, finds exactly the bytes of the RAM copy; the rest of the flash is as
  before.\<close>

theorem commit_survives_restart:
  assumes "spi_chip k view" "ee_ok view e"
  shows "\<exists>e'. EEPROM_commit k e = (True, e') \<and> ee_ok view e' \<and> ee_data e' = ee_data e \<and>
    ee_data (EEPROM_begin k (ee_size e) (EEPROMClass (hw e') (ee_sector e))) = ee_data e \<and>
    (\<forall>i. i < unat (ee_sector e) * 4096 \<or> unat (ee_sector e) * 4096 + 4096 \<le> i \<longrightarrow>
       view (chip (hw e')) i = view (chip (hw e)) i)"
proof -
  from spi_chip.EEPROM_commit_ok [OF assms] obtain e' where
    c: "EEPROM_commit k e = (True, e')" "ee_ok view e'" "ee_data e' = ee_data e"
      "chip_size (hw e') = chip_size (hw e)"
      "nor_read (view (chip (hw e'))) (unat (ee_sector e) * 4096) (ee_size e) = ee_bytes e"
      "\<forall>i. i < unat (ee_sector e) * 4096 \<or> unat (ee_sector e) * 4096 + 4096 \<le> i \<longrightarrow>
       view (chip (hw e')) i = view (chip (hw e)) i" by blast
  let ?n = "EEPROMClass (hw e') (ee_sector e)"
  have "ee_ok view (EEPROM_begin k (ee_size e) ?n) \<and> ee_bytes (EEPROM_begin k (ee_size e) ?n) = ee_bytes e"
  proof -
    have "0 < ee_size e" "ee_size e \<le> 4096" "ee_size e mod 4 = 0"
      "unat (ee_sector ?n) * 4096 + 4096 \<le> unat (chip_size (hw ?n))" "\<not> ee_dirty ?n"
      "hw ?n = hw e'" "ee_sector ?n = ee_sector e"
      using assms(2) c(4) by (simp_all add: EEPROMClass_def ee_ok_def)
    then show ?thesis using spi_chip.EEPROM_begin_ok [OF assms(1), of "ee_size e" ?n] c(5) by simp
  qed
  then have "ee_data (EEPROM_begin k (ee_size e) ?n) = ee_data e"
    using ee_ok_bytes [of view "EEPROM_begin k (ee_size e) ?n"] ee_ok_bytes [OF assms(2)] by simp
  with c show ?thesis by blast
qed

section \<open>An example\<close>

definition blank_eeprom :: "(nat \<Rightarrow> u8) eeprom" where
  "blank_eeprom = EEPROM_begin reference_sdk 200
     (EEPROMClass \<lparr>chip_size = 0x100000, ps = 0, interrupts_state = 0, chip = (\<lambda>i. 0xff)\<rparr> 0xfb)"

lemma blank_eeprom_ok: "ee_ok id blank_eeprom" "ee_size blank_eeprom = 200" "ee_sector blank_eeprom = 0xfb"
  "ee_bytes blank_eeprom = replicate 200 0xff"
proof -
  let ?e = "EEPROMClass \<lparr>chip_size = 0x100000, ps = 0, interrupts_state = 0, chip = (\<lambda>i. 0xff)\<rparr> 0xfb :: (nat \<Rightarrow> u8) eeprom"
  have "ee_ok id blank_eeprom \<and> ee_size blank_eeprom = 200 \<and> ee_sector blank_eeprom = 0xfb \<and>
      ee_bytes blank_eeprom = nor_read (\<lambda>i. 0xff) (0xfb * 4096) 200"
    using ref_chip.EEPROM_begin_ok [of 200 ?e] by (simp add: blank_eeprom_def EEPROMClass_def)
  moreover have "nor_read (\<lambda>i. c) a n = replicate n c" for c a n
    by (simp add: nor_read_def map_replicate_const)
  ultimately show "ee_ok id blank_eeprom" "ee_size blank_eeprom = 200" "ee_sector blank_eeprom = 0xfb"
    "ee_bytes blank_eeprom = replicate 200 0xff" by simp_all
qed

theorem commit_survives_restart_witness:
  "\<exists>e'. EEPROM_commit reference_sdk (EEPROM_write 7 42 blank_eeprom) = (True, e') \<and>
     ee_data (EEPROM_begin reference_sdk 200 (EEPROMClass (hw e') 0xfb)) = Some ((replicate 200 0xff)[7 := 42])"
proof -
  have "ee_data (EEPROM_write 7 42 blank_eeprom) = Some ((replicate 200 0xff)[7 := 42])"
    using ee_ok_bytes [OF EEPROM_write_ok [OF blank_eeprom_ok(1), of 7 42]]
      EEPROM_write_bytes [OF blank_eeprom_ok(1), of 7 42] by (simp add: blank_eeprom_ok(4))
  then show ?thesis
    using commit_survives_restart [OF ref_chip.spi_chip_axioms EEPROM_write_ok [OF blank_eeprom_ok(1), of 7 42]]
    by (auto simp: EEPROM_write_fields blank_eeprom_ok)
qed

end
