(* ===== verification/Monitor.thy ===== *)
theory Monitor
  imports WebServer Eeprom
begin

text \<open>
  The application's settings: the global variables (\<^verbatim>\<open>Globals.h\<close>), the helpers of \<^verbatim>\<open>Globals.ino\<close> and
  \<^verbatim>\<open>Settings.ino\<close>, which keeps strings, numbers and flags in the EEPROM, and the forms that change them
  (\<^verbatim>\<open>WiFiFunctions.ino\<close>, \<^verbatim>\<open>Other.ino\<close>).

  A \<^verbatim>\<open>String\<close> is the list of its characters; theory \<open>WString\<close> shows that the class computes the text
  functions used here, as long as the allocator succeeds.  \<^verbatim>\<open>char\<close> is unsigned on this processor, and
  every \<^verbatim>\<open>char\<close> variable is a \<open>u8\<close> here with its wrap-around.  Messages to the serial port are left
  out.  \<open>k\<close> is the SDK's flash.
\<close>

section \<open>The global variables\<close>

record SETTINGS =
  ssid :: "u8 list"
  password :: "u8 list"
  useWiFi :: bool

record 'd monitor =
  eeprom :: "'d eeprom"
  lPulses :: u32
  bPowerMonEnabled :: bool
  bPulseLight :: bool
  cPulseFreq :: u8
  iPulseMultiFactor :: int
  cLimit :: u8
  cLimitHigh :: u8
  cLimitDebounce :: u8
  cLimitCountHi :: u8
  cLimitCountLo :: u8
  bLimitDebounce :: bool
  sPushURL :: "u8 list"
  sPushArg :: "u8 list"
  iPushFreq :: int
  lLastConnectionTime :: u32
  cABuffer :: "u8 list option"
  iABufferSize :: u8
  iABufferPos :: u8
  cFreeBufferCount :: u8

text \<open>The value of an \<open>int\<close> variable after an assignment that may overflow.\<close>

definition to_s32 :: "int \<Rightarrow> int" where
  "to_s32 v = sint (word_of_int v :: u32)"

section \<open>Text helpers\<close>

definition char_at :: "u8 list \<Rightarrow> nat \<Rightarrow> u8" where
  "char_at s i = (if i < length s then s ! i else 0)"

text \<open>The text \<^verbatim>\<open>String(v, DEC)\<close> holds: what \<^verbatim>\<open>itoa\<close> or \<^verbatim>\<open>ultoa\<close> printed, without its terminator.\<close>

definition int_text :: "int \<Rightarrow> u8 list option" where
  "int_text v = map_option butlast (itoa v 10)"

definition ulong_text :: "u32 \<Rightarrow> u8 list option" where
  "ulong_text v = map_option butlast (ultoa v 10)"

text \<open>\<^verbatim>\<open>String(p)\<close> of a character array: the bytes in memory from \<^verbatim>\<open>p\<close> up to the first zero.\<close>

definition cstr_text :: "u8 list \<Rightarrow> u8 list option" where
  "cstr_text mem = do { n \<leftarrow> strlen mem; Some (take n mem) }"

text \<open>\<^verbatim>\<open>s.toCharArray(p, n)\<close>, read back as a C string.\<close>

definition char_array_text :: "nat \<Rightarrow> u8 list \<Rightarrow> u8 list" where
  "char_array_text n s = take (n - 1) s"

section \<open>Globals.ino\<close>

text \<open>\<^verbatim>\<open>cLen = cLength * cSize\<close> is a \<^verbatim>\<open>char\<close>; the loop counts a \<^verbatim>\<open>char\<close> up to it.\<close>

definition clear_alloc :: "(nat \<Rightarrow> bool) \<Rightarrow> u8 \<Rightarrow> u8 \<Rightarrow> u8 list option" where
  "clear_alloc malloc_ok cLength cSize =
     (let cLen = cLength * cSize in if malloc_ok (unat cLen) then Some (replicate (unat cLen) 0) else None)"

definition clear_buffer :: "u8 list \<Rightarrow> nat \<Rightarrow> u8 list option" where
  "clear_buffer bIn n = mem_put 0 (replicate n 0) bIn"

text \<open>\<^verbatim>\<open>charToIntStr\<close> and \<^verbatim>\<open>intToStr\<close> print into 4 and 9 bytes; a longer text is written past them.\<close>

definition print_into :: "bool \<Rightarrow> nat \<Rightarrow> int \<Rightarrow> u8 list option option" where
  "print_into malloc_ok n v =
     (if \<not> malloc_ok then Some None
      else do { s \<leftarrow> itoa v 10; if length s \<le> n then Some (Some s) else None })"

definition charToIntStr :: "bool \<Rightarrow> u8 \<Rightarrow> u8 list option option" where
  "charToIntStr malloc_ok cIn = print_into malloc_ok 4 (uint cIn)"

definition intToStr :: "bool \<Rightarrow> int \<Rightarrow> u8 list option option" where
  "intToStr malloc_ok iIn = print_into malloc_ok 9 iIn"

text \<open>\<^verbatim>\<open>shiftString\<close>: the new terminator is stored first, then the characters move up, from the last one
  down.\<close>

definition shift_loop :: "nat \<Rightarrow> nat \<Rightarrow> u8 list \<Rightarrow> u8 list" where
  "shift_loop n offset b = fold (\<lambda>i b. b[i := b ! (i - offset)]) (rev [offset..<n]) b"

definition shiftString :: "u8 list \<Rightarrow> nat \<Rightarrow> u8 list option" where
  "shiftString strIn offset = do {
     n \<leftarrow> strlen strIn;
     b \<leftarrow> mem_put (n + offset) [0] strIn;
     n \<leftarrow> strlen b;
     if n + offset \<le> length b then Some (shift_loop (n + offset) offset b) else None }"

definition escapes :: "(string \<times> string) list" where
  "escapes = [(''+'', '' ''), (''%21'', ''!''), (''%23'', ''#''), (''%24'', ''$''), (''%26'', ''&''),
     (''%27'', [CHR 0x27]), (''%28'', ''(''), (''%29'', '')''), (''%2A'', ''*''), (''%2B'', ''+''),
     (''%2C'', '',''), (''%2F'', ''/''), (''%3A'', '':''), (''%3B'', '';''), (''%3D'', ''=''),
     (''%3F'', ''?''), (''%40'', ''@''), (''%5B'', ''[''), (''%5D'', '']'')]"

definition escape_parameter :: "u8 list \<Rightarrow> u8 list" where
  "escape_parameter param = fold (\<lambda>(p, r) s. text_replace (str p) (str r) s) escapes param"

section \<open>Strings in the EEPROM\<close>

text \<open>The loop of \<^verbatim>\<open>readString\<close>: text so far, checksum so far, stored checksum (unset before the last
  byte) and \<^verbatim>\<open>bEnd\<close>.\<close>

type_synonym read_loop = "u8 list \<times> u8 \<times> u8 option \<times> bool"

definition read_byte :: "'d eeprom \<Rightarrow> u8 \<Rightarrow> u8 \<Rightarrow> nat \<Rightarrow> read_loop \<Rightarrow> read_loop" where
  "read_byte e cStartPosition cLength i L =
     (case L of (strOut, strCalcXOR, strRecXOR, bEnd) \<Rightarrow>
       let cIn = EEPROM_read e (uint cStartPosition + int i);
           bEnd = (bEnd \<or> cIn = 0);
           strOut = (if \<not> bEnd then strOut @ [cIn] else strOut)
       in if int i \<noteq> uint cLength - 1 then (strOut, strCalcXOR XOR cIn, strRecXOR, bEnd)
          else (strOut, strCalcXOR, Some cIn, bEnd))"

definition readString :: "'d eeprom \<Rightarrow> u8 \<Rightarrow> u8 \<Rightarrow> u8 list option" where
  "readString e cStartPosition cLength =
     (case fold (read_byte e cStartPosition cLength) [0..<unat cLength] ([], 0, None, False) of
        (strOut, strCalcXOR, strRecXOR, bEnd) \<Rightarrow> do {
          r \<leftarrow> strRecXOR;
          Some (if r \<noteq> strCalcXOR then [] else strOut) })"

definition put_char :: "u8 list \<Rightarrow> u8 \<Rightarrow> nat \<Rightarrow> 'd eeprom \<times> u8 \<Rightarrow> 'd eeprom \<times> u8" where
  "put_char strIn cStartPosition i = (\<lambda>(e, strXOR).
     let c = char_at strIn (i - unat cStartPosition) in (EEPROM_write (int i) c e, strXOR XOR c))"

definition writeString :: "'d sdk \<Rightarrow> u8 \<Rightarrow> u8 \<Rightarrow> u8 list \<Rightarrow> 'd eeprom \<Rightarrow> 'd eeprom" where
  "writeString k cStartPosition cLength strIn e =
     (if strIn = [] then e
      else let cEnd = cStartPosition + word_of_nat (length strIn);
               cTEnd = cStartPosition + cLength;
               cEnd = (if cEnd \<ge> cTEnd then cTEnd - 1 else cEnd);
               (e, strXOR) = fold (put_char strIn cStartPosition) [unat cStartPosition..<unat cEnd] (e, 0);
               e = fold (\<lambda>i. EEPROM_write (int i) 0) [unat cEnd..<unat cTEnd] e;
               e = EEPROM_write (uint cStartPosition + uint cLength - 1) strXOR e
           in snd (EEPROM_commit k e))"

definition readInt :: "'d eeprom \<Rightarrow> u8 \<Rightarrow> int option" where
  "readInt e cStartPosition = do {
     cReadBuffer \<leftarrow> readString e cStartPosition 6;
     if length cReadBuffer > 0 then text_int cReadBuffer else Some 0 }"

definition writeInt :: "'d sdk \<Rightarrow> u8 \<Rightarrow> int \<Rightarrow> 'd eeprom \<Rightarrow> 'd eeprom option" where
  "writeInt k cStartPosition iIn e = do {
     let iIn = (if iIn > 99999 then 99999 else if iIn < 0 then 0 else iIn);
     cWriteBuffer \<leftarrow> int_text iIn;
     Some (writeString k cStartPosition 6 cWriteBuffer e) }"

definition readBoolean :: "'d eeprom \<Rightarrow> u8 \<Rightarrow> u8 \<Rightarrow> bool" where
  "readBoolean e cBytePosition cBitPosition =
     (let bMask = push_bit (unat cBitPosition) 1; byteIn = EEPROM_read e (uint cBytePosition)
      in byteIn AND bMask > 0)"

definition writeBoolean :: "'d sdk \<Rightarrow> u8 \<Rightarrow> u8 \<Rightarrow> bool \<Rightarrow> 'd eeprom \<Rightarrow> 'd eeprom" where
  "writeBoolean k cBytePosition cBitPosition bValue e =
     (let bMask = push_bit (unat cBitPosition) 1;
          byteIn = EEPROM_read e (uint cBytePosition);
          byteOut = (if bValue then byteIn OR bMask else byteIn AND NOT bMask)
      in snd (EEPROM_commit k (EEPROM_write (uint cBytePosition) byteOut e)))"

section \<open>WiFi settings\<close>

text \<open>The outcome of each \<^verbatim>\<open>malloc\<close> is the argument \<open>malloc_ok\<close>; a NULL result is the inner \<open>None\<close>.\<close>

definition getWiFiSettings :: "bool \<Rightarrow> 'd eeprom \<Rightarrow> u8 \<Rightarrow> SETTINGS option option" where
  "getWiFiSettings malloc_ok e cStartPos =
     (if \<not> malloc_ok then Some None
      else do {
        strSSID \<leftarrow> readString e cStartPos 16;
        strPassword \<leftarrow> readString e (cStartPos + 16) 16;
        let bUseWiFi = readBoolean e (cStartPos + 32) 0;
        Some (if length strSSID > 0 \<and> length strPassword > 0
          then Some \<lparr>ssid = char_array_text 15 strSSID, password = char_array_text 15 strPassword, useWiFi = bUseWiFi\<rparr>
          else None) })"

definition putWiFiSettings :: "'d sdk \<Rightarrow> u8 \<Rightarrow> SETTINGS option \<Rightarrow> 'd eeprom \<Rightarrow> 'd eeprom" where
  "putWiFiSettings k cStartPos settings e =
     (case settings of
        None \<Rightarrow> e
      | Some s \<Rightarrow>
          let e = writeString k cStartPos 16 (ssid s) e;
              e = writeString k (cStartPos + 16) 16 (password s) e
          in writeBoolean k (cStartPos + 32) 0 (useWiFi s) e)"

definition getWiFiClientSettings :: "bool \<Rightarrow> 'd eeprom \<Rightarrow> SETTINGS option option" where
  "getWiFiClientSettings malloc_ok e = getWiFiSettings malloc_ok e 0"

definition putWiFiClientSettings :: "'d sdk \<Rightarrow> SETTINGS option \<Rightarrow> 'd eeprom \<Rightarrow> 'd eeprom" where
  "putWiFiClientSettings k settings e = putWiFiSettings k 0 settings e"

definition getDefaultWiFiAPSettings :: "bool \<Rightarrow> SETTINGS option" where
  "getDefaultWiFiAPSettings malloc_ok =
     (if malloc_ok
      then Some \<lparr>ssid = char_array_text 15 (str ''pulsemon-3AD1''), password = char_array_text 15 (str ''Test1234''),
                 useWiFi = True\<rparr>
      else None)"

definition getWiFiAPSettings :: "bool \<Rightarrow> 'd eeprom \<Rightarrow> SETTINGS option option" where
  "getWiFiAPSettings malloc_ok e = do {
     settingsOut \<leftarrow> getWiFiSettings malloc_ok e 33;
     Some (case settingsOut of None \<Rightarrow> getDefaultWiFiAPSettings malloc_ok | Some s \<Rightarrow> Some s) }"

definition putWiFiAPSettings :: "'d sdk \<Rightarrow> SETTINGS option \<Rightarrow> 'd eeprom \<Rightarrow> 'd eeprom" where
  "putWiFiAPSettings k settings e = putWiFiSettings k 33 settings e"

text \<open>\<^verbatim>\<open>generateNewSettings\<close> writes through the result of \<^verbatim>\<open>malloc\<close> without looking at it.\<close>

definition generateNewSettings :: "bool \<Rightarrow> SETTINGS option" where
  "generateNewSettings malloc_ok = (if malloc_ok then Some \<lparr>ssid = [], password = [], useWiFi = False\<rparr> else None)"

section \<open>General settings\<close>

definition loadSettings :: "'d monitor \<Rightarrow> 'd monitor option" where
  "loadSettings m = do {
     let m = m\<lparr>bPowerMonEnabled := readBoolean (eeprom m) 66 0, bPulseLight := readBoolean (eeprom m) 66 1\<rparr>;
     p \<leftarrow> readString (eeprom m) 67 2;
     let m = m\<lparr>cPulseFreq := char_at p 0\<rparr>;
     f \<leftarrow> readInt (eeprom m) 69;
     let m = m\<lparr>iPulseMultiFactor := f\<rparr>;
     let m = m\<lparr>iPulseMultiFactor := c_div (iPulseMultiFactor m) 10\<rparr>;
     p \<leftarrow> readString (eeprom m) 75 2;
     let m = m\<lparr>cLimit := char_at p 0\<rparr>;
     p \<leftarrow> readString (eeprom m) 77 2;
     let m = m\<lparr>cLimitHigh := char_at p 0\<rparr>;
     p \<leftarrow> readString (eeprom m) 79 2;
     let m = m\<lparr>cLimitDebounce := char_at p 0\<rparr>;
     u \<leftarrow> readString (eeprom m) 81 40;
     a \<leftarrow> readString (eeprom m) 121 10;
     f \<leftarrow> readInt (eeprom m) 131;
     Some (m\<lparr>sPushURL := u, sPushArg := a, iPushFreq := f\<rparr>) }"

text \<open>\<^verbatim>\<open>char cPlaceholder[2]\<close> gets one character and is passed as a C string; \<open>mem\<close> is what is in memory
  from its second byte on, which the code never sets.\<close>

definition saveSettings :: "'d sdk \<Rightarrow> u8 list \<Rightarrow> 'd monitor \<Rightarrow> 'd monitor option" where
  "saveSettings k mem m = do {
     let e = writeBoolean k 66 0 (bPowerMonEnabled m) (eeprom m);
     let e = writeBoolean k 66 1 (bPulseLight m) e;
     p \<leftarrow> cstr_text (cPulseFreq m # mem);
     let e = writeString k 67 2 p e;
     let dPlaceholder = to_s32 (iPulseMultiFactor m * 10);
     e \<leftarrow> writeInt k 69 dPlaceholder e;
     p \<leftarrow> cstr_text (cLimit m # mem);
     let e = writeString k 75 2 p e;
     p \<leftarrow> cstr_text (cLimitHigh m # mem);
     let e = writeString k 77 2 p e;
     p \<leftarrow> cstr_text (cLimitDebounce m # mem);
     let e = writeString k 79 2 p e;
     let e = writeString k 81 40 (sPushURL m) e;
     let e = writeString k 121 10 (sPushArg m) e;
     e \<leftarrow> writeInt k 131 (iPushFreq m) e;
     Some (m\<lparr>eeprom := e\<rparr>) }"

definition loadDefaultSettings :: "'d monitor \<Rightarrow> 'd monitor" where
  "loadDefaultSettings m = m\<lparr>bPowerMonEnabled := False, bPulseLight := False, cPulseFreq := 100,
     iPulseMultiFactor := 5660, cLimit := 120, cLimitHigh := 5, cLimitDebounce := 5, cLimitCountHi := 0,
     cLimitCountLo := 0, bLimitDebounce := False, sPushURL := str ''http://192.168.1.101'',
     sPushArg := str ''value'', iPushFreq := 600\<rparr>"

section \<open>The forms\<close>

text \<open>The arguments of a request are the list of names and values the web server parsed.  The loop
  counts them with a \<^verbatim>\<open>char\<close>: with more than 255 it never ends.\<close>

definition for_args :: "(u8 list \<times> u8 list \<Rightarrow> 'a \<Rightarrow> 'a option) \<Rightarrow> args \<Rightarrow> 'a \<Rightarrow> 'a option" where
  "for_args f as a = (if length as > 255 then None else fold (\<lambda>x a. Option.bind a (f x)) as (Some a))"

definition clip_char :: "int \<Rightarrow> u8" where
  "clip_char v = (let v = (if v > 255 then 255 else v); v = (if v < 0 then 0 else v) in word_of_int v)"

definition general_arg :: "u8 list \<times> u8 list \<Rightarrow> 'd monitor \<Rightarrow> 'd monitor option" where
  "general_arg a m =
     (case a of (name, v) \<Rightarrow> do {
        n \<leftarrow> text_int v;
        let c = char_at name 1;
        Some (if c = of_char (CHR ''m'') then m\<lparr>bPowerMonEnabled := (n = 1)\<rparr>
         else if c = of_char (CHR ''l'') then m\<lparr>bPulseLight := (n = 1)\<rparr>
         else if c = of_char (CHR ''t'') then m\<lparr>cPulseFreq := clip_char n\<rparr>
         else if c = of_char (CHR ''d'') then m\<lparr>cLimit := clip_char n\<rparr>
         else if c = of_char (CHR ''h'') then m\<lparr>cLimitHigh := clip_char n\<rparr>
         else if c = of_char (CHR ''i'') then m\<lparr>cLimitDebounce := clip_char n\<rparr>
         else if c = of_char (CHR ''c'') then m\<lparr>iPulseMultiFactor := (if n \<le> 0 then 1 else n)\<rparr>
         else if c = of_char (CHR ''u'') then m\<lparr>sPushURL := escape_parameter v\<rparr>
         else if c = of_char (CHR ''a'') then m\<lparr>sPushArg := v\<rparr>
         else if c = of_char (CHR ''f'') then m\<lparr>iPushFreq := (if n < 5 then 5 else if n > 1000 then 1000 else n)\<rparr>
         else m) })"

definition updateGeneralSettings :: "args \<Rightarrow> 'd monitor \<Rightarrow> 'd monitor option" where
  "updateGeneralSettings as m = for_args general_arg as (m\<lparr>bPowerMonEnabled := False, bPulseLight := False\<rparr>)"

definition set_wifi_arg :: "u8 \<Rightarrow> u8 list \<Rightarrow> SETTINGS \<Rightarrow> SETTINGS option" where
  "set_wifi_arg c v s = do {
     n \<leftarrow> text_int v;
     Some (if c = of_char (CHR ''s'') then s\<lparr>ssid := char_array_text 15 v\<rparr>
      else if c = of_char (CHR ''p'') then s\<lparr>password := char_array_text 15 v\<rparr>
      else if c = of_char (CHR ''e'') then s\<lparr>useWiFi := (n = 1)\<rparr>
      else s) }"

definition wifi_arg :: "u8 list \<times> u8 list \<Rightarrow> SETTINGS \<times> SETTINGS \<Rightarrow> (SETTINGS \<times> SETTINGS) option" where
  "wifi_arg a S =
     (case a of (name, v) \<Rightarrow> case S of (client, ap) \<Rightarrow>
        if char_at name 0 = of_char (CHR ''c'')
        then do { client \<leftarrow> set_wifi_arg (char_at name 1) v client; Some (client, ap) }
        else if char_at name 0 = of_char (CHR ''a'')
        then do { ap \<leftarrow> set_wifi_arg (char_at name 1) v ap; Some (client, ap) }
        else Some (client, ap))"

definition updateWiFiSettings :: "'d sdk \<Rightarrow> args \<Rightarrow> 'd monitor \<Rightarrow> (bool \<times> 'd monitor) option" where
  "updateWiFiSettings k as m = do {
     let blank = \<lparr>ssid = [], password = [], useWiFi = False\<rparr>;
     (client, ap) \<leftarrow> for_args wifi_arg as (blank, blank);
     let use_client = (length (ssid client) > 0 \<and> length (password client) > 0);
     let e = (if use_client then putWiFiClientSettings k (Some client) (eeprom m) else eeprom m);
     let use_ap = (length (ssid ap) > 0 \<and> length (password ap) > 0);
     let e = (if use_ap then putWiFiAPSettings k (Some ap) e else e);
     Some (use_client \<or> use_ap, m\<lparr>eeprom := e\<rparr>) }"

end
