(* ===== verification/MonitorFacts.thy ===== *)
theory MonitorFacts
  imports Monitor
begin

text \<open>
  Facts of the settings: what \<^verbatim>\<open>writeString\<close> leaves in the EEPROM and what \<^verbatim>\<open>readString\<close> makes of it, the
  numbers that survive, the whole of \<^verbatim>\<open>saveSettings\<close> and \<^verbatim>\<open>loadSettings\<close> across a restart, and the
  inputs for which they go wrong.
\<close>

section \<open>Checksums and stored strings\<close>

definition xor_sum :: "u8 list \<Rightarrow> u8" where
  "xor_sum xs = fold (\<lambda>c x. x XOR c) xs 0"

text \<open>The bytes \<^verbatim>\<open>writeString\<close> stores for a string in a field of \<open>n\<close> bytes, and the text that comes back:
  a string that fills the field is followed by its checksum, unless that is 0.\<close>

definition stored :: "nat \<Rightarrow> u8 list \<Rightarrow> u8 list" where
  "stored n s = take (n - 1) s @ replicate (n - 1 - length s) 0 @ [xor_sum (take (n - 1) s)]"

definition reread :: "nat \<Rightarrow> u8 list \<Rightarrow> u8 list" where
  "reread n s = take (n - 1) s @
     (if n - 1 \<le> length s \<and> xor_sum (take (n - 1) s) \<noteq> 0 then [xor_sum (take (n - 1) s)] else [])"

lemma xor_sum_simps [simp]: "xor_sum [] = 0" "xor_sum (xs @ [c]) = xor_sum xs XOR c"
  by (simp_all add: xor_sum_def)

lemma fold_xor_start: "fold (\<lambda>c x. x XOR c) xs a = a XOR xor_sum (xs :: u8 list)"
  by (induction xs rule: rev_induct) (simp_all add: xor_sum_def xor.assoc)

lemma xor_sum_Cons [simp]: "xor_sum (c # xs) = c XOR xor_sum xs"
  by (simp add: xor_sum_def fold_xor_start [of xs c, unfolded xor_sum_def])

lemma xor_sum_append: "xor_sum (xs @ ys) = xor_sum xs XOR xor_sum ys"
  by (induction xs) (simp_all add: xor.assoc)

lemma xor_sum_zeros [simp]: "xor_sum (replicate n 0) = 0"
  by (induction n) simp_all

lemma xor_sum_update: "i < length xs \<Longrightarrow> xor_sum (xs[i := v]) = xor_sum xs XOR (xs ! i) XOR v"
proof (induction xs arbitrary: i)
  case (Cons c xs)
  show ?case
  proof (cases i)
    case 0
    have "v XOR xor_sum xs = (c XOR xor_sum xs) XOR c XOR v"
      by (rule bit_word_eqI) (auto simp: bit_simps)
    with 0 show ?thesis by simp
  next
    case (Suc j)
    with Cons show ?thesis by (simp add: xor.assoc)
  qed
qed simp

lemma length_stored [simp]: "0 < n \<Longrightarrow> length (stored n s) = n"
  by (simp add: stored_def)

section \<open>writeString\<close>

lemma blit_blit_adjacent:
  "a + length x + length y \<le> length b \<Longrightarrow> blit (a + length x) y (blit a x b) = blit a (x @ y) b"
  by (simp add: blit_def ac_simps)

lemma blit_update: "i < length b \<Longrightarrow> b[i := v] = blit i [v] b"
  by (simp add: blit_def upd_conv_take_nth_drop)

lemma put_chars:
  assumes "ee_ok view e" "unat start + n \<le> ee_size e" "n \<le> length s"
  shows "\<exists>e'. fold (put_char s start) [unat start..<unat start + n] (e, 0) = (e', xor_sum (take n s)) \<and> ee_ok view e' \<and>
    ee_size e' = ee_size e \<and> ee_sector e' = ee_sector e \<and> hw e' = hw e \<and>
    ee_bytes e' = blit (unat start) (take n s) (ee_bytes e)"
  using assms(2,3)
proof (induction n)
  case 0
  then show ?case using assms(1) by (simp add: blit_def)
next
  case (Suc n)
  then obtain e1 where e1: "fold (put_char s start) [unat start..<unat start + n] (e, 0) = (e1, xor_sum (take n s))"
    "ee_ok view e1" "ee_size e1 = ee_size e" "ee_sector e1 = ee_sector e" "hw e1 = hw e"
    "ee_bytes e1 = blit (unat start) (take n s) (ee_bytes e)" by auto
  have l: "length (ee_bytes e) = ee_size e" using ee_ok_bytes [OF assms(1)] by simp
  have t: "take (Suc n) s = take n s @ [s ! n]" using Suc.prems by (simp add: take_Suc_conv_app_nth)
  let ?e = "EEPROM_write (int (unat start + n)) (s ! n) e1"
  have "fold (put_char s start) [unat start..<unat start + Suc n] (e, 0) = (?e, xor_sum (take (Suc n) s))"
    using e1(1) Suc.prems t by (simp add: put_char_def char_at_def Let_def)
  moreover have "ee_bytes ?e = blit (unat start + length (take n s)) [s ! n] (blit (unat start) (take n s) (ee_bytes e))"
    using EEPROM_write_bytes [OF e1(2), of "int (unat start + n)" "s ! n"] e1(6) Suc.prems l
    by (simp add: blit_update nat_add_distrib)
  then have "ee_bytes ?e = blit (unat start) (take (Suc n) s) (ee_bytes e)"
    using Suc.prems l t by (subst (asm) blit_blit_adjacent) simp_all
  ultimately show ?case
    using EEPROM_write_ok [OF e1(2)] e1 by (auto simp: EEPROM_write_fields)
qed

lemma put_zeros:
  assumes "ee_ok view e" "a + n \<le> ee_size e"
  shows "\<exists>e'. fold (\<lambda>i. EEPROM_write (int i) 0) [a..<a + n] e = e' \<and> ee_ok view e' \<and>
    ee_size e' = ee_size e \<and> ee_sector e' = ee_sector e \<and> hw e' = hw e \<and> ee_bytes e' = blit a (replicate n 0) (ee_bytes e)"
  using assms(2)
proof (induction n)
  case 0
  then show ?case using assms(1) by (simp add: blit_def)
next
  case (Suc n)
  then obtain e1 where e1: "fold (\<lambda>i. EEPROM_write (int i) 0) [a..<a + n] e = e1"
    "ee_ok view e1" "ee_size e1 = ee_size e" "ee_sector e1 = ee_sector e" "hw e1 = hw e"
    "ee_bytes e1 = blit a (replicate n 0) (ee_bytes e)" by auto
  have l: "length (ee_bytes e) = ee_size e" using ee_ok_bytes [OF assms(1)] by simp
  let ?e = "EEPROM_write (int (a + n)) 0 e1"
  have "fold (\<lambda>i. EEPROM_write (int i) 0) [a..<a + Suc n] e = ?e" using e1(1) by simp
  moreover have "ee_bytes ?e = blit (a + length (replicate n (0 :: u8))) [0] (blit a (replicate n 0) (ee_bytes e))"
    using EEPROM_write_bytes [OF e1(2), of "int (a + n)" 0] e1(6) Suc.prems l
    by (simp add: blit_update nat_add_distrib)
  then have "ee_bytes ?e = blit a (replicate (Suc n) 0) (ee_bytes e)"
    using Suc.prems l by (subst (asm) blit_blit_adjacent) (simp_all add: replicate_append_same)
  ultimately show ?case
    using EEPROM_write_ok [OF e1(2)] e1 by (auto simp: EEPROM_write_fields)
qed

text \<open>What an operation that ends with a commit leaves: a store of the same place and size, all of it in
  the flash.\<close>

definition same_store :: "('d \<Rightarrow> nat \<Rightarrow> u8) \<Rightarrow> 'd eeprom \<Rightarrow> 'd eeprom \<Rightarrow> bool" where
  "same_store view e e' \<longleftrightarrow> ee_ok view e' \<and> \<not> ee_dirty e' \<and> ee_size e' = ee_size e \<and> ee_sector e' = ee_sector e"

context spi_chip
begin

lemma commit_store:
  "ee_ok view e \<Longrightarrow> same_store view e (snd (EEPROM_commit k e)) \<and> ee_bytes (snd (EEPROM_commit k e)) = ee_bytes e"
  using EEPROM_commit_ok [of e] by (auto simp: same_store_def)

lemma writeString_bytes:
  assumes "ee_ok view e" "unat start + unat n \<le> ee_size e" "0 < n" "unat start + unat n < 256"
    and "s \<noteq> []" "unat start + length s < 256"
  shows "same_store view e (writeString k start n s e) \<and>
    ee_bytes (writeString k start n s e) = blit (unat start) (stored (unat n) s) (ee_bytes e)"
proof -
  let ?a = "unat start" and ?n = "unat n"
  let ?m = "min (length s) (?n - 1)"
  have n0: "0 < ?n" using assms(3) by (simp add: unat_gt_0 word_gt_0)
  have l: "length (ee_bytes e) = ee_size e" using ee_ok_bytes [OF assms(1)] by simp
  have ls: "unat (word_of_nat (length s) :: u8) = length s" using assms(6) by (simp add: unat_of_nat)
  have cend: "unat (start + word_of_nat (length s)) = ?a + length s"
    using assms(6) ls by (subst unat_add_no_wrap) simp_all
  have tend: "unat (start + n) = ?a + ?n" using assms(4) by (subst unat_add_no_wrap) simp_all
  have tend1: "unat (start + n - 1) = ?a + ?n - 1"
    using tend n0 by (subst unat_sub_no_wrap) simp_all
  define cEnd where "cEnd = (if start + word_of_nat (length s) \<ge> start + n then start + n - 1 else start + word_of_nat (length s))"
  have ce: "unat cEnd = ?a + ?m"
    using n0 unfolding cEnd_def by (auto simp: word_le_nat_alt cend tend tend1 min_def)
  obtain e1 where e1: "fold (put_char s start) [?a..<?a + ?m] (e, 0) = (e1, xor_sum (take ?m s))" "ee_ok view e1"
    "ee_size e1 = ee_size e" "ee_sector e1 = ee_sector e" "ee_bytes e1 = blit ?a (take ?m s) (ee_bytes e)"
  proof -
    have "?a + ?m \<le> ee_size e" "?m \<le> length s" using assms(2) by simp_all
    from put_chars [OF assms(1) this] that show ?thesis by blast
  qed
  obtain e2 where e2: "fold (\<lambda>i. EEPROM_write (int i) 0) [?a + ?m..<?a + ?m + (?n - ?m)] e1 = e2" "ee_ok view e2"
    "ee_size e2 = ee_size e1" "ee_sector e2 = ee_sector e1" "ee_bytes e2 = blit (?a + ?m) (replicate (?n - ?m) 0) (ee_bytes e1)"
  proof -
    have "?a + ?m + (?n - ?m) \<le> ee_size e1" using assms(2) e1(3) n0 by simp
    from put_zeros [OF e1(2) this] that show ?thesis by blast
  qed
  have z: "?a + ?m + (?n - ?m) = ?a + ?n" using n0 by auto
  let ?e3 = "EEPROM_write (uint start + uint n - 1) (xor_sum (take ?m s)) e2"
  have ws: "writeString k start n s e = snd (EEPROM_commit k ?e3)"
    using assms(5) e1(1) e2(1) ce z tend by (simp add: writeString_def cEnd_def [symmetric] Let_def)
  have tm: "take ?m s = take (?n - 1) s" by (simp add: min_def)
  have b2: "ee_bytes e2 = blit ?a (take ?m s @ replicate (?n - ?m) 0) (ee_bytes e)"
    using e2(5) e1(5) assms(2) l n0 blit_blit_adjacent [of ?a "take ?m s" "replicate (?n - ?m) 0" "ee_bytes e"] by simp
  have "uint start + uint n - 1 = int (?a + (?n - 1))" using n0 uint_nat [of start] uint_nat [of n] by linarith
  then have pos: "nat (uint start + uint n - 1) = ?a + (?n - 1)" "0 \<le> uint start + uint n - 1"
    by (simp_all only: nat_int of_nat_0_le_iff)
  have "ee_bytes ?e3 = (blit ?a (take ?m s @ replicate (?n - ?m) 0) (ee_bytes e))[?a + (?n - 1) := xor_sum (take ?m s)]"
    using EEPROM_write_bytes [OF e2(2)] pos b2 by simp
  also have "\<dots> = blit ?a (stored ?n s) (ee_bytes e)"
  proof (rule nth_equalityI)
    fix i assume "i < length ((blit ?a (take ?m s @ replicate (?n - ?m) 0) (ee_bytes e))[?a + (?n - 1) := xor_sum (take ?m s)])"
    then have "i < length (ee_bytes e)" using assms(2) l n0 by simp
    then show "(blit ?a (take ?m s @ replicate (?n - ?m) 0) (ee_bytes e))[?a + (?n - 1) := xor_sum (take ?m s)] ! i =
        blit ?a (stored ?n s) (ee_bytes e) ! i"
      using assms(2) l n0
      by (cases "i = ?a + (?n - 1)")
        (auto simp: nth_blit nth_list_update stored_def nth_append tm [symmetric] min_def)
  qed (use assms(2) l n0 in simp)
  finally have b3: "ee_bytes ?e3 = blit ?a (stored ?n s) (ee_bytes e)" .
  have "ee_ok view ?e3" by (rule EEPROM_write_ok [OF e2(2)])
  then show ?thesis
    using ws b3 commit_store [of ?e3] e1 e2 by (auto simp: same_store_def EEPROM_write_fields)
qed

end

section \<open>readString\<close>

lemma takeWhile_snoc: "takeWhile (\<lambda>c. c \<noteq> 0) (xs @ [c]) =
    (if 0 \<notin> set xs \<and> c \<noteq> 0 then takeWhile (\<lambda>c. c \<noteq> 0) xs @ [c] else takeWhile (\<lambda>c. c \<noteq> 0) xs)"
  by (induction xs) auto

lemma readString_bytes:
  assumes "ee_ok view e" "unat start + unat n \<le> ee_size e" "0 < n"
  defines "bs \<equiv> slice (unat start) (unat n) (ee_bytes e)"
  shows "readString e start n = Some (if last bs \<noteq> xor_sum (butlast bs) then [] else takeWhile (\<lambda>c. c \<noteq> 0) bs)"
proof -
  let ?n = "unat n"
  have n0: "0 < ?n" using assms(3) by (simp add: unat_gt_0 word_gt_0)
  have l: "length (ee_bytes e) = ee_size e" using ee_ok_bytes [OF assms(1)] by simp
  have lb: "length bs = ?n" using assms(2) l by (simp add: bs_def)
  have rd: "EEPROM_read e (uint start + int i) = bs ! i" if "i < ?n" for i
  proof -
    have "uint start + int i = int (unat start + i)" using uint_nat [of start] by linarith
    then show ?thesis
      using that assms(2) l EEPROM_read_bytes [OF assms(1), of "int (unat start + i)"]
      by (simp only: nat_int) (simp add: bs_def nth_slice)
  qed
  have cmp: "int i = uint n - 1 \<longleftrightarrow> i = ?n - 1" for i
    by (rule iffI; use n0 uint_nat [of n] in linarith)
  have step: "read_byte e start n i (out, x, r, b) =
      (if \<not> b \<and> bs ! i \<noteq> 0 then out @ [bs ! i] else out, if i \<noteq> ?n - 1 then x XOR bs ! i else x,
       if i \<noteq> ?n - 1 then r else Some (bs ! i), b \<or> bs ! i = 0)" if "i < ?n" for i out x r b
    using that by (simp add: read_byte_def rd cmp Let_def)
  have pre: "fold (read_byte e start n) [0..<i] ([], 0, None, False) =
      (takeWhile (\<lambda>c. c \<noteq> 0) (take i bs), xor_sum (take i bs), None, 0 \<in> set (take i bs))" if "i \<le> ?n - 1" for i
    using that
  proof (induction i)
    case (Suc i)
    then have t: "take (Suc i) bs = take i bs @ [bs ! i]" using lb by (simp add: take_Suc_conv_app_nth)
    show ?case using Suc step [of i] by (simp add: t takeWhile_snoc disj_commute)
  qed simp
  have split: "[0..<?n] = [0..<?n - 1] @ [?n - 1]" using n0 upt_Suc_append [of 0 "?n - 1"] by simp
  have bsp: "bs = take (?n - 1) bs @ [bs ! (?n - 1)]"
    using lb n0 take_Suc_conv_app_nth [of "?n - 1" bs] by simp
  have tw: "takeWhile (\<lambda>c. c \<noteq> 0) bs =
        (if 0 \<notin> set (take (?n - 1) bs) \<and> bs ! (?n - 1) \<noteq> 0
         then takeWhile (\<lambda>c. c \<noteq> 0) (take (?n - 1) bs) @ [bs ! (?n - 1)]
         else takeWhile (\<lambda>c. c \<noteq> 0) (take (?n - 1) bs))"
    by (subst bsp) (simp only: takeWhile_snoc)
  have "fold (read_byte e start n) [0..<?n] ([], 0, None, False) =
      (takeWhile (\<lambda>c. c \<noteq> 0) bs, xor_sum (take (?n - 1) bs), Some (bs ! (?n - 1)), 0 \<in> set bs)"
  proof -
    have "0 \<in> set bs \<longleftrightarrow> 0 \<in> set (take (?n - 1) bs) \<or> bs ! (?n - 1) = 0"
      by (subst bsp) auto
    then show ?thesis
      unfolding split fold_append comp_def pre [OF order_refl] using n0 tw by (simp add: step)
  qed
  moreover have "bs \<noteq> []" using lb n0 by auto
  then have "last bs = bs ! (?n - 1)" "butlast bs = take (?n - 1) bs"
    using lb n0 by (auto simp: last_conv_nth butlast_conv_take)
  ultimately show ?thesis by (simp add: readString_def)
qed

lemma stored_reread:
  assumes "0 < n" "0 \<notin> set s"
  shows "(if last (stored n s) \<noteq> xor_sum (butlast (stored n s)) then [] else takeWhile (\<lambda>c. c \<noteq> 0) (stored n s)) = reread n s"
proof -
  have "butlast (stored n s) = take (n - 1) s @ replicate (n - 1 - length s) 0"
    by (simp add: stored_def butlast_append)
  then have "last (stored n s) = xor_sum (butlast (stored n s))" by (simp add: stored_def xor_sum_append)
  moreover have "takeWhile (\<lambda>c. c \<noteq> 0) (take (n - 1) s @ ys) = take (n - 1) s @ takeWhile (\<lambda>c. c \<noteq> 0) ys" for ys
    using assms(2) by (intro takeWhile_append2) (auto dest: in_set_takeD)
  ultimately show ?thesis
    by (cases "n - 1 - length s") (auto simp: stored_def reread_def)
qed


section \<open>Numbers\<close>

definition digit_xor :: "nat \<Rightarrow> nat" where
  "digit_xor n = foldr (XOR) (lsb_digits 10 n) 0"

text \<open>The number that comes back for one that was saved: with five digits the checksum follows the text,
  and it is the digit \<open>digit_xor n\<close> when that is below ten.\<close>

definition reloaded :: "nat \<Rightarrow> nat" where
  "reloaded n = (if 9999 < n \<and> digit_xor n < 10 then 10 * n + digit_xor n else n)"

abbreviation decimal :: "nat \<Rightarrow> u8 list" where
  "decimal n \<equiv> rev (map digit_byte (lsb_digits 10 n))"

lemma strtol_digits_stop:
  assumes "57 < uint c"
  shows "\<forall>d \<in> set ds. d < 10 \<Longrightarrow> strtol_digits 10 (map digit_byte ds @ c # rest) r =
    Some (foldl (\<lambda>r d. r * 10 + of_nat d) r ds, c # rest)"
proof (induction ds arbitrary: r)
  case Nil
  then show ?case using assms by (auto simp: Let_def)
next
  case (Cons d ds)
  then have "d < 10" by simp
  then have u: "uint (digit_byte d) = 48 + int d" by (rule digit_byte_decimal)
  then have "digit_byte d \<noteq> 0" by auto
  with u \<open>d < 10\<close> Cons show ?case by (simp add: Let_def)
qed

lemma decimal_head: "\<exists>c s. decimal n = c # s \<and> \<not> isspace (uint c) \<and> c \<noteq> 0 \<and> c \<noteq> 45 \<and> c \<noteq> 43"
proof -
  obtain c s where "decimal n = c # s" "48 \<le> uint c" "uint c \<le> 57" by (rule printed_head [of 10 n]) auto
  then show ?thesis by (auto simp: isspace_def)
qed

lemma text_int_decimal: "text_int (decimal n) = Some (sint (of_nat n :: u32))"
  using atol_digits [of n "[]"] by (simp add: text_int_def)

lemma text_int_decimal_stop:
  assumes "57 < uint c"
  shows "text_int (decimal n @ [c]) = Some (sint (of_nat n :: u32))"
proof -
  obtain h s where h: "decimal n = h # s" "\<not> isspace (uint h)" "h \<noteq> 0" "h \<noteq> 45" "h \<noteq> 43" using decimal_head by blast
  have "\<forall>d \<in> set (rev (lsb_digits 10 n)). d < 10" using lsb_digits_less [of 10 _ n] by auto
  from strtol_digits_stop [OF assms this, of "[0]" 0]
  have "strtol_digits 10 (decimal n @ [c, 0]) 0 = Some (of_nat n, [c, 0])"
    using foldl_digits_value [of 10 "lsb_digits 10 n"] lsb_digits_value [of 10 n] by (simp add: rev_map)
  then show ?thesis using h by (simp add: text_int_def atol_def strtol_def)
qed

lemma decimal_append: "0 < n \<Longrightarrow> d < 10 \<Longrightarrow> decimal n @ [digit_byte d] = decimal (10 * n + d)"
  by (simp add: lsb_digits.simps [of 10 "10 * n + d"])

lemma digit_byte_or: "d < 10 \<Longrightarrow> digit_byte d = 48 XOR word_of_nat d"
proof -
  assume "d < 10"
  then have "d \<in> {0, 1, 2, 3, 4, 5, 6, 7, 8, 9}" by auto
  then show ?thesis by (auto simp: digit_byte_def digit_literal_def str_def)
qed

lemma word_of_nat_xor: "(word_of_nat (a XOR b) :: u8) = word_of_nat a XOR word_of_nat b"
  by (rule bit_word_eqI) (simp add: bit_simps)

lemma xor_sum_digits:
  "\<forall>d \<in> set ds. d < 10 \<Longrightarrow> xor_sum (map digit_byte ds) =
     (if odd (length ds) then 48 else 0) XOR word_of_nat (foldr (XOR) ds 0)"
proof (induction ds)
  case (Cons d ds)
  have "48 XOR (w XOR (48 XOR v)) = w XOR v" for w v :: u8
    by (rule bit_word_eqI) (auto simp: bit_simps)
  then show ?case using Cons by (simp add: digit_byte_or word_of_nat_xor xor.assoc xor.left_commute)
qed simp

lemma xor_sum_rev: "xor_sum (rev xs) = xor_sum xs"
  by (induction xs) (simp_all add: xor_sum_append xor.commute)

lemma xor_less_16: "a < 16 \<Longrightarrow> b < 16 \<Longrightarrow> (a XOR b :: nat) < 16"
proof -
  assume "a < 16" "b < 16"
  then have "take_bit 4 a = a" "take_bit 4 b = b" by (simp_all add: take_bit_eq_mod)
  then have "take_bit 4 (a XOR b) = a XOR b" by (simp add: take_bit_xor)
  then show "a XOR b < 16" using take_bit_nat_less_exp [of 4 "a XOR b"] by simp
qed

lemma digit_xor_less: "digit_xor n < 16"
proof -
  have "\<forall>d \<in> set ds. d < 10 \<Longrightarrow> foldr (XOR) ds 0 < (16 :: nat)" for ds
    by (induction ds) (auto intro!: xor_less_16)
  then show ?thesis using lsb_digits_less [of 10 _ n] by (auto simp: digit_xor_def)
qed

lemma uint_48_xor: "m < 16 \<Longrightarrow> uint (48 XOR word_of_nat m :: u8) = 48 + int m"
proof -
  assume "m < 16"
  then have "m = 0 \<or> m = 1 \<or> m = 2 \<or> m = 3 \<or> m = 4 \<or> m = 5 \<or> m = 6 \<or> m = 7 \<or> m = 8 \<or> m = 9 \<or>
      m = 10 \<or> m = 11 \<or> m = 12 \<or> m = 13 \<or> m = 14 \<or> m = 15" by presburger
  then show ?thesis by (elim disjE) simp_all
qed

lemma lsb_digits_5: "9999 < n \<Longrightarrow> n \<le> 99999 \<Longrightarrow> length (lsb_digits 10 n) = 5"
proof -
  assume "9999 < n" "n \<le> 99999"
  then have "n div 10 \<ge> 10" "n div 10 div 10 \<ge> 10" "n div 10 div 10 div 10 \<ge> 10" "n div 10 div 10 div 10 div 10 < 10" by auto
  then show ?thesis using \<open>9999 < n\<close> by (simp add: lsb_digits.simps [of 10])
qed

lemma sint_small: "n < 2 ^ 31 \<Longrightarrow> sint (of_nat n :: u32) = int n"
  using sint_word_of_int_s32 [of "int n"] by (simp add: s32_range_def)

text \<open>The text of a number in a six byte field, read back as a number.\<close>

lemma reread_decimal:
  assumes "n \<le> 99999"
  shows "text_int (reread 6 (decimal n)) = Some (int (reloaded n))"
proof (cases "9999 < n")
  case False
  then have "length (lsb_digits 10 n) \<le> 4" by (intro lsb_digits_length) simp_all
  then have "reread 6 (decimal n) = decimal n" by (simp add: reread_def)
  then show ?thesis using False text_int_decimal [of n] sint_small [of n] by (simp add: reloaded_def)
next
  case True
  have l: "length (lsb_digits 10 n) = 5" using lsb_digits_5 [OF True assms] .
  have "\<forall>d \<in> set (lsb_digits 10 n). d < 10" using lsb_digits_less [of 10 _ n] by auto
  from xor_sum_digits [OF this] l have x: "xor_sum (decimal n) = 48 XOR word_of_nat (digit_xor n)"
    by (simp add: xor_sum_rev digit_xor_def)
  have tk: "take 5 (decimal n) = decimal n" using l by simp
  have ux: "uint (xor_sum (decimal n)) = 48 + int (digit_xor n)"
    unfolding x by (rule uint_48_xor [OF digit_xor_less])
  then have "xor_sum (decimal n) \<noteq> 0" by auto
  then have r: "reread 6 (decimal n) = decimal n @ [xor_sum (decimal n)]"
    using l tk by (simp add: reread_def)
  show ?thesis
  proof (cases "digit_xor n < 10")
    case True
    then have "xor_sum (decimal n) = digit_byte (digit_xor n)" by (simp only: x digit_byte_or)
    then have "reread 6 (decimal n) = decimal (10 * n + digit_xor n)"
      using r decimal_append [of n "digit_xor n"] True \<open>9999 < n\<close> by simp
    then show ?thesis
      using True \<open>9999 < n\<close> assms text_int_decimal [of "10 * n + digit_xor n"] sint_small [of "10 * n + digit_xor n"]
      by (simp add: reloaded_def)
  next
    case False
    then show ?thesis
      using r text_int_decimal_stop [of "xor_sum (decimal n)" n] ux sint_small [of n] assms by (simp add: reloaded_def)
  qed
qed

lemma int_text_decimal: "int_text (int n) = Some (decimal n)"
proof -
  have "0 \<le> int n" by simp
  then have "int n \<noteq> - (2 ^ 31)" by (intro notI) simp
  then show ?thesis using itoa_text [of 10 "int n"] by (simp add: int_text_def butlast_append)
qed

section \<open>Fields of the EEPROM\<close>

context spi_chip
begin

lemma writeBoolean_bytes:
  fixes p b :: u8
  assumes "ee_ok view e" "unat p < ee_size e"
  defines "old \<equiv> ee_bytes e ! unat p" and "msk \<equiv> push_bit (unat b) (1 :: u8)"
  shows "same_store view e (writeBoolean k p b v e) \<and>
    ee_bytes (writeBoolean k p b v e) = (ee_bytes e)[unat p := if v then old OR msk else old AND NOT msk]"
proof -
  have rd: "EEPROM_read e (uint p) = old"
    using EEPROM_read_bytes [OF assms(1), of "uint p"] assms(2) by (simp add: old_def)
  let ?w = "EEPROM_write (uint p) (if v then old OR msk else old AND NOT msk) e"
  have "writeBoolean k p b v e = snd (EEPROM_commit k ?w)"
    by (simp add: writeBoolean_def rd msk_def Let_def)
  moreover have "ee_bytes ?w = (ee_bytes e)[unat p := if v then old OR msk else old AND NOT msk]"
    using EEPROM_write_bytes [OF assms(1), of "uint p"] by simp
  ultimately show ?thesis
    using commit_store [OF EEPROM_write_ok [OF assms(1)]] by (simp add: same_store_def EEPROM_write_fields)
qed

lemma readBoolean_bytes:
  "ee_ok view e \<Longrightarrow> unat p < ee_size e \<Longrightarrow>
   readBoolean e p b \<longleftrightarrow> ee_bytes e ! unat p AND push_bit (unat b) 1 > 0"
proof -
  assume a: "ee_ok view e" "unat p < ee_size e"
  have "EEPROM_read e (uint p) = ee_bytes e ! unat p"
    using EEPROM_read_bytes [OF a(1), of "uint p"] a(2) by simp
  then show ?thesis by (simp add: readBoolean_def Let_def)
qed

lemma readString_stored:
  assumes "ee_ok view e" "unat a + unat n \<le> ee_size e" "0 < n" "0 \<notin> set s"
    and "slice (unat a) (unat n) (ee_bytes e) = stored (unat n) s"
  shows "readString e a n = Some (reread (unat n) s)"
proof -
  have "0 < unat n" using assms(3) by (simp add: unat_gt_0 word_gt_0)
  then show ?thesis
    unfolding readString_bytes [OF assms(1-3)] assms(5) by (simp only: stored_reread [OF _ assms(4)])
qed

lemma writeString_field:
  assumes "ee_ok view e" "unat start + unat n \<le> ee_size e" "0 < n" "unat start + unat n < 256"
    and "s \<noteq> []" "unat start + length s < 256"
  shows "same_store view e (writeString k start n s e)"
    and "slice (unat start) (unat n) (ee_bytes (writeString k start n s e)) = stored (unat n) s"
    and "a + j \<le> ee_size e \<Longrightarrow> a + j \<le> unat start \<or> unat start + unat n \<le> a \<Longrightarrow>
      slice a j (ee_bytes (writeString k start n s e)) = slice a j (ee_bytes e)"
proof -
  note w = writeString_bytes [OF assms]
  have l: "length (ee_bytes e) = ee_size e" using ee_ok_bytes [OF assms(1)] by simp
  have n: "length (stored (unat n) s) = unat n" using assms(3) by (simp add: unat_gt_0 word_gt_0)
  show "same_store view e (writeString k start n s e)" using w by simp
  show "slice (unat start) (unat n) (ee_bytes (writeString k start n s e)) = stored (unat n) s"
    using w slice_blit_same [of "unat start" "stored (unat n) s" "ee_bytes e"] n l assms(2) by simp
  show "slice a j (ee_bytes (writeString k start n s e)) = slice a j (ee_bytes e)"
    if "a + j \<le> ee_size e" "a + j \<le> unat start \<or> unat start + unat n \<le> a"
    using w that n l assms(2) by (simp add: slice_blit_disjoint)
qed

end

section \<open>A save and a restart\<close>

text \<open>A field after a save: an empty text is not written, so its field keeps what was there.  A setting of one
  character is passed on as a C string, so 0 is the empty text.\<close>

definition kept_field :: "u8 list \<Rightarrow> nat \<Rightarrow> nat \<Rightarrow> u8 list \<Rightarrow> u8 list" where
  "kept_field b a n s = (if s = [] then slice a n b else stored n s)"

definition char_text :: "u8 \<Rightarrow> u8 list" where
  "char_text c = (if c = 0 then [] else [c])"

text \<open>What a load finds in it: for an empty text, or 0, what the field held in the store \<open>e\<close> before the save.\<close>

definition kept_text :: "'d eeprom \<Rightarrow> u8 \<Rightarrow> u8 \<Rightarrow> u8 list \<Rightarrow> u8 list" where
  "kept_text e a n s =
     (if s \<noteq> [] then reread (unat n) s else case readString e a n of None \<Rightarrow> [] | Some t \<Rightarrow> t)"

definition kept_char :: "'d eeprom \<Rightarrow> u8 \<Rightarrow> u8 \<Rightarrow> u8" where
  "kept_char e a c =
     (if c \<noteq> 0 then c else case readString e a 2 of None \<Rightarrow> 0 | Some t \<Rightarrow> char_at t 0)"

text \<open>The number that comes back for one that goes through its six byte field.\<close>

definition kept_number :: "int \<Rightarrow> int" where
  "kept_number v = int (reloaded (min 99999 (nat v)))"

text \<open>The settings in reach of the form, as a save over the store \<open>b0\<close> leaves them in the EEPROM.\<close>

definition settings_stored :: "u8 list \<Rightarrow> u8 list \<Rightarrow> 'd monitor \<Rightarrow> bool" where
  "settings_stored b0 b m \<longleftrightarrow> length b = 200 \<and>
     (b ! 66 AND 1 > 0 \<longleftrightarrow> bPowerMonEnabled m) \<and> (b ! 66 AND 2 > 0 \<longleftrightarrow> bPulseLight m) \<and>
     slice 67 2 b = kept_field b0 67 2 (char_text (cPulseFreq m)) \<and>
     slice 69 6 b = stored 6 (decimal (min 99999 (nat (to_s32 (iPulseMultiFactor m * 10))))) \<and>
     slice 75 2 b = kept_field b0 75 2 (char_text (cLimit m)) \<and> slice 77 2 b = kept_field b0 77 2 (char_text (cLimitHigh m)) \<and>
     slice 79 2 b = kept_field b0 79 2 (char_text (cLimitDebounce m)) \<and> slice 81 40 b = kept_field b0 81 40 (sPushURL m) \<and>
     slice 121 10 b = kept_field b0 121 10 (sPushArg m) \<and> slice 131 6 b = stored 6 (decimal (min 99999 (nat (iPushFreq m))))"

text \<open>Texts that do not wrap the \<^verbatim>\<open>char\<close> sum of start and length, without a zero byte.\<close>

definition texts_fit :: "'d monitor \<Rightarrow> bool" where
  "texts_fit m \<longleftrightarrow> length (sPushURL m) < 175 \<and> 0 \<notin> set (sPushURL m) \<and> length (sPushArg m) < 135 \<and> 0 \<notin> set (sPushArg m)"

lemma cstr_text_char:
  assumes "c \<noteq> 0" "0 \<in> set (take n mem)"
  shows "\<exists>t. cstr_text (c # mem) = Some (c # t) \<and> length t < n"
proof -
  have "\<exists>i. strlen mem = Some i \<and> i < n" using assms(2)
  proof (induction mem arbitrary: n)
    case (Cons d mem)
    then obtain n' where "n = Suc n'" by (cases n) auto
    show ?case
    proof (cases "d = 0")
      case False
      then have "0 \<in> set (take n' mem)" using Cons.prems \<open>n = Suc n'\<close> by simp
      from Cons.IH [OF this] False \<open>n = Suc n'\<close> show ?thesis by auto
    qed (use \<open>n = Suc n'\<close> in simp)
  qed simp
  then show ?thesis using assms(1) by (auto simp: cstr_text_def)
qed

lemma stored_char: "stored 2 (c # t) = stored 2 [c]"
  by (simp add: stored_def)

lemma kept_char_text: "kept_field b a 2 (if c = 0 then [] else c # t) = kept_field b a 2 (char_text c)"
  by (simp add: kept_field_def char_text_def stored_char [of c t])

lemma kept_field_written: "s \<noteq> [] \<Longrightarrow> kept_field b a n s = stored n s"
  by (simp add: kept_field_def)

lemma writeInt_decimal: "writeInt k p v e = Some (writeString k p 6 (decimal (min 99999 (nat v))) e)"
proof -
  have "(if v > 99999 then 99999 else if v < 0 then 0 else v) = int (min 99999 (nat v))" by auto
  then show ?thesis using int_text_decimal [of "min 99999 (nat v)"] by (simp add: writeInt_def Let_def)
qed

lemma decimal_facts: "decimal n \<noteq> []" "0 \<notin> set (decimal n)" "n \<le> 99999 \<Longrightarrow> length (decimal n) \<le> 5"
proof -
  show "decimal n \<noteq> []" by simp
  show "0 \<notin> set (decimal n)"
  proof
    assume "0 \<in> set (decimal n)"
    then obtain d where "d \<in> set (lsb_digits 10 n)" "digit_byte d = 0" by auto
    then show False using lsb_digits_less [of 10 d n] digit_byte_decimal [of d] by auto
  qed
  show "length (decimal n) \<le> 5" if "n \<le> 99999" using that by (simp add: lsb_digits_length)
qed

lemma same_store_trans: "same_store view a b \<Longrightarrow> same_store view b c \<Longrightarrow> same_store view a c"
  by (simp add: same_store_def)

lemma slice_update_other: "\<not> (a \<le> i \<and> i < a + n) \<Longrightarrow> slice a n (b[i := v]) = slice a n b"
  by (auto simp: slice_def take_update_cancel drop_update_swap)

lemma two_flags:
  fixes x :: u8
  shows "(if b then (if a then x OR 1 else x AND NOT 1) OR 2 else (if a then x OR 1 else x AND NOT 1) AND NOT 2) AND 1 > 0 \<longleftrightarrow> a"
    and "(if b then (if a then x OR 1 else x AND NOT 1) OR 2 else (if a then x OR 1 else x AND NOT 1) AND NOT 2) AND 2 > 0 \<longleftrightarrow> b"
proof -
  have t: "(w AND 1 > 0) = bit w 0" "(w AND 2 > 0) = bit w 1" for w :: u8
  proof -
    have m: "(1 :: u8) = mask 1" "(2 :: u8) = push_bit 1 1" by (simp_all add: mask_eq_exp_minus_1)
    show "(w AND 1 > 0) = bit w 0" by (simp add: word_gt_0 and_one_eq odd_iff_mod_2_eq_one bit_0 flip: mod_2_eq_odd)
    show "(w AND 2 > 0) = bit w 1" using and_exp_eq_0_iff_not_bit [of w 1] by (simp add: word_gt_0)
  qed
  show "(if b then (if a then x OR 1 else x AND NOT 1) OR 2 else (if a then x OR 1 else x AND NOT 1) AND NOT 2) AND 1 > 0 \<longleftrightarrow> a"
    "(if b then (if a then x OR 1 else x AND NOT 1) OR 2 else (if a then x OR 1 else x AND NOT 1) AND NOT 2) AND 2 > 0 \<longleftrightarrow> b"
    unfolding t by (auto simp: bit_simps)
qed

text \<open>The store as a sequence of fields, a start, a length and a text each, written in the order of their starts.\<close>

type_synonym field = "u8 \<times> u8 \<times> u8 list"

definition write_fields :: "'d sdk \<Rightarrow> field list \<Rightarrow> 'd eeprom \<Rightarrow> 'd eeprom" where
  "write_fields k fs = fold (\<lambda>(a, n, s). writeString k a n s) fs"

definition field_fits :: "field \<Rightarrow> bool" where
  "field_fits = (\<lambda>(a, n, s). 0 < n \<and> unat a + unat n \<le> 200 \<and> unat a + length s < 256)"

definition field_before :: "field \<Rightarrow> field \<Rightarrow> bool" where
  "field_before = (\<lambda>(a, n, s) (b, j, t). unat a + unat n \<le> unat b)"

definition field_apart :: "nat \<Rightarrow> nat \<Rightarrow> field \<Rightarrow> bool" where
  "field_apart i j = (\<lambda>(a, n, s). i + j \<le> unat a \<or> unat a + unat n \<le> i)"

context spi_chip
begin

lemma write_fields:
  assumes "ee_ok view e" "ee_size e = 200" "\<forall>f \<in> set fs. field_fits f" "sorted_wrt field_before fs"
  shows "ee_ok view (write_fields k fs e) \<and> ee_size (write_fields k fs e) = 200 \<and>
    ee_sector (write_fields k fs e) = ee_sector e \<and> (\<not> ee_dirty e \<longrightarrow> \<not> ee_dirty (write_fields k fs e)) \<and>
    (\<forall>(a, n, s) \<in> set fs. slice (unat a) (unat n) (ee_bytes (write_fields k fs e)) = kept_field (ee_bytes e) (unat a) (unat n) s) \<and>
    (\<forall>i j. i + j \<le> 200 \<longrightarrow> (\<forall>f \<in> set fs. field_apart i j f) \<longrightarrow>
      slice i j (ee_bytes (write_fields k fs e)) = slice i j (ee_bytes e))"
  using assms
proof (induction fs arbitrary: e)
  case (Cons f fs)
  obtain a n s where f: "f = (a, n, s)" by (cases f) auto
  have ok: "0 < n" "unat a + unat n \<le> 200" "unat a + length s < 256"
    using Cons.prems(3) by (simp_all add: f field_fits_def)
  have n0: "0 < unat n" using ok(1) by (simp add: unat_gt_0 word_gt_0)
  let ?e = "writeString k a n s e"
  have l: "length (ee_bytes e) = 200" using ee_ok_bytes [OF Cons.prems(1)] Cons.prems(2) by simp
  have w: "same_store view e ?e \<and> ee_bytes ?e = blit (unat a) (stored (unat n) s) (ee_bytes e)" if "s \<noteq> []"
    using writeString_bytes [OF Cons.prems(1), of a n s] ok Cons.prems(2) that by simp
  have none: "?e = e" if "s = []" using that by (simp add: writeString_def)
  have e: "ee_ok view ?e" "ee_size ?e = 200" "ee_sector ?e = ee_sector e" "\<not> ee_dirty e \<longrightarrow> \<not> ee_dirty ?e"
    using w none Cons.prems(1,2) by (cases "s = []"; simp add: same_store_def)+
  note ih = Cons.IH [OF e(1,2)]
  have apart: "\<forall>g \<in> set fs. field_apart (unat a) (unat n) g"
    using Cons.prems(4) by (auto simp: f field_before_def field_apart_def)
  have own: "slice (unat a) (unat n) (ee_bytes ?e) = kept_field (ee_bytes e) (unat a) (unat n) s"
    using w none slice_blit_same [of "unat a" "stored (unat n) s" "ee_bytes e"] ok(2) l n0
    by (cases "s = []") (simp_all add: kept_field_def)
  have other: "slice i j (ee_bytes ?e) = slice i j (ee_bytes e)" if "i + j \<le> 200" "field_apart i j f" for i j
    using that w none l n0 ok(2) by (cases "s = []") (simp_all add: f field_apart_def slice_blit_disjoint)
  have later: "kept_field (ee_bytes ?e) (unat b) (unat j) t = kept_field (ee_bytes e) (unat b) (unat j) t"
    if "(b, j, t) \<in> set fs" for b j t
  proof -
    have "field_apart (unat b) (unat j) f" "unat b + unat j \<le> 200"
      using Cons.prems(3,4) that by (force simp: f field_before_def field_apart_def field_fits_def)+
    then show ?thesis using other by (simp add: kept_field_def)
  qed
  have "\<forall>x \<in> set fs. field_fits x" "sorted_wrt field_before fs" using Cons.prems(3,4) by simp_all
  note ih = ih [OF this]
  have wf: "write_fields k (f # fs) e = write_fields k fs ?e" by (simp add: f write_fields_def)
  have mine: "slice (unat a) (unat n) (ee_bytes (write_fields k fs ?e)) = kept_field (ee_bytes e) (unat a) (unat n) s"
    using ih apart ok(2) own by simp
  have "\<forall>(b, j, t) \<in> set fs. slice (unat b) (unat j) (ee_bytes (write_fields k fs ?e)) = kept_field (ee_bytes e) (unat b) (unat j) t"
    using ih later by fastforce
  with ih mine e other show ?case unfolding wf by (simp add: f)
qed (simp add: write_fields_def)

lemma flag:
  assumes "ee_ok view e \<and> ee_size e = 200 \<and> ee_sector e = q"
  shows "(ee_ok view (writeBoolean k 66 b v e) \<and> \<not> ee_dirty (writeBoolean k 66 b v e)) \<and> ee_size (writeBoolean k 66 b v e) = 200 \<and>
    ee_sector (writeBoolean k 66 b v e) = q \<and>
    ee_bytes (writeBoolean k 66 b v e) = (ee_bytes e)[66 := if v then ee_bytes e ! 66 OR push_bit (unat b) 1
      else ee_bytes e ! 66 AND NOT (push_bit (unat b) 1)]"
proof -
  have "unat (66 :: u8) = 66" by simp
  with writeBoolean_bytes [of e 66 b v] assms show ?thesis by (simp only: same_store_def) simp
qed

end

lemma decimal_short: "length (lsb_digits 10 (min 99999 n)) \<le> 5" "length (lsb_digits 10 (min 99999 n)) < 100"
  using decimal_facts(3) [of "min 99999 n"] by simp_all

definition char_field :: "u8 \<Rightarrow> u8 \<Rightarrow> u8 list \<Rightarrow> field list" where
  "char_field a c t = [(a, 2, if c = 0 then [] else c # t)]"

lemma char_field_written:
  assumes "0 \<in> set (take 170 mem)"
  shows "\<exists>p t. cstr_text (c # mem) = Some p \<and> length t < 170 \<and> (\<forall>a. writeString k a 2 p = write_fields k (char_field a c t))"
proof (cases "c = 0")
  case True
  then show ?thesis
    by (intro exI [of _ "[]"]) (simp add: cstr_text_def char_field_def write_fields_def fun_eq_iff)
next
  case False
  with cstr_text_char [OF False assms] show ?thesis
    by (auto simp: char_field_def write_fields_def fun_eq_iff)
qed

lemma write_fields_append: "write_fields k (xs @ ys) e = write_fields k ys (write_fields k xs e)"
  by (simp add: write_fields_def)

text \<open>\<^verbatim>\<open>saveSettings\<close> as a sequence of fields.\<close>

abbreviation number_field :: "u8 \<Rightarrow> int \<Rightarrow> field list" where
  "number_field a v \<equiv> [(a, 6, decimal (min 99999 (nat v)))]"

lemma saveSettings_fields:
  assumes "0 \<in> set (take 170 mem)"
  shows "\<exists>t1 t2 t3 t4. length t1 < 170 \<and> length t2 < 170 \<and> length t3 < 170 \<and> length t4 < 170 \<and>
    saveSettings k mem m = Some (m\<lparr>eeprom := write_fields k
      (char_field 67 (cPulseFreq m) t1 @ number_field 69 (to_s32 (iPulseMultiFactor m * 10)) @ char_field 75 (cLimit m) t2 @
       char_field 77 (cLimitHigh m) t3 @ char_field 79 (cLimitDebounce m) t4 @
       [(81, 40, sPushURL m), (121, 10, sPushArg m)] @ number_field 131 (iPushFreq m))
      (writeBoolean k 66 1 (bPulseLight m) (writeBoolean k 66 0 (bPowerMonEnabled m) (eeprom m)))\<rparr>)"
proof -
  note c = char_field_written [OF assms(1)]
  obtain p1 t1 where 1: "cstr_text (cPulseFreq m # mem) = Some p1" "length t1 < 170"
    "\<forall>a. writeString k a 2 p1 = write_fields k (char_field a (cPulseFreq m) t1)" using c by blast
  obtain p2 t2 where 2: "cstr_text (cLimit m # mem) = Some p2" "length t2 < 170"
    "\<forall>a. writeString k a 2 p2 = write_fields k (char_field a (cLimit m) t2)" using c by blast
  obtain p3 t3 where 3: "cstr_text (cLimitHigh m # mem) = Some p3" "length t3 < 170"
    "\<forall>a. writeString k a 2 p3 = write_fields k (char_field a (cLimitHigh m) t3)" using c by blast
  obtain p4 t4 where 4: "cstr_text (cLimitDebounce m # mem) = Some p4" "length t4 < 170"
    "\<forall>a. writeString k a 2 p4 = write_fields k (char_field a (cLimitDebounce m) t4)" using c by blast
  have one: "write_fields k [(a, n, s)] = writeString k a n s" for a n s by (simp add: write_fields_def fun_eq_iff)
  show ?thesis
    by (intro exI [of _ t1] exI [of _ t2] exI [of _ t3] exI [of _ t4])
      (simp add: saveSettings_def 1 2 3 4 writeInt_decimal write_fields_append one, simp add: write_fields_def)
qed

context spi_chip
begin

lemma two_flags_stored:
  fixes a b :: bool and e :: "'d eeprom"
  assumes "ee_ok view e" "ee_size e = 200"
  defines "e2 \<equiv> writeBoolean k 66 1 b (writeBoolean k 66 0 a e)"
  shows "(ee_ok view e2 \<and> \<not> ee_dirty e2) \<and> ee_size e2 = 200 \<and> ee_sector e2 = ee_sector e \<and>
    (ee_bytes e2 ! 66 AND 1 > 0 \<longleftrightarrow> a) \<and> (ee_bytes e2 ! 66 AND 2 > 0 \<longleftrightarrow> b) \<and>
    (\<forall>i n. i + n \<le> 66 \<or> 67 \<le> i \<longrightarrow> slice i n (ee_bytes e2) = slice i n (ee_bytes e))"
proof -
  define e1 where "e1 = writeBoolean k 66 0 a e"
  have e0: "ee_ok view e \<and> ee_size e = 200 \<and> ee_sector e = ee_sector e" using assms by simp
  from flag [OF this, of 0 a, folded e1_def] have e1: "ee_ok view e1 \<and> ee_size e1 = 200 \<and> ee_sector e1 = ee_sector e"
    and b1: "ee_bytes e1 = (ee_bytes e)[66 := if a then ee_bytes e ! 66 OR push_bit (unat (0 :: u8)) 1
      else ee_bytes e ! 66 AND NOT (push_bit (unat (0 :: u8)) 1)]" by blast+
  from flag [OF e1, of 1 b] have e2: "(ee_ok view e2 \<and> \<not> ee_dirty e2) \<and> ee_size e2 = 200 \<and> ee_sector e2 = ee_sector e"
    and b2: "ee_bytes e2 = (ee_bytes e1)[66 := if b then ee_bytes e1 ! 66 OR push_bit (unat (1 :: u8)) 1
      else ee_bytes e1 ! 66 AND NOT (push_bit (unat (1 :: u8)) 1)]" unfolding e1_def e2_def by blast+
  have len: "length (ee_bytes e) = 200" "length (ee_bytes e1) = 200"
    using e1 assms(1,2) ee_ok_bytes by metis+
  have v: "ee_bytes e2 ! 66 = (if b then (if a then ee_bytes e ! 66 OR 1 else ee_bytes e ! 66 AND NOT 1) OR 2
      else (if a then ee_bytes e ! 66 OR 1 else ee_bytes e ! 66 AND NOT 1) AND NOT 2)"
    using len by (simp add: b2 b1)
  have "(ee_bytes e2 ! 66 AND 1 > 0 \<longleftrightarrow> a) \<and> (ee_bytes e2 ! 66 AND 2 > 0 \<longleftrightarrow> b)"
    unfolding v by (intro conjI two_flags)
  moreover have "slice i n (ee_bytes e2) = slice i n (ee_bytes e)" if "i + n \<le> 66 \<or> 67 \<le> i" for i n
    unfolding b2 b1 using that by (auto simp: slice_update_other)
  ultimately show ?thesis using e2 by simp
qed

lemma saveSettings_stored:
  assumes "ee_ok view (eeprom m)" "ee_size (eeprom m) = 200" "0 \<in> set (take 170 mem)" "texts_fit m"
  shows "\<exists>e. saveSettings k mem m = Some (m\<lparr>eeprom := e\<rparr>) \<and> same_store view (eeprom m) e \<and>
    settings_stored (ee_bytes (eeprom m)) (ee_bytes e) m \<and> slice 0 66 (ee_bytes e) = slice 0 66 (ee_bytes (eeprom m))"
proof -
  note fit = assms(4) [unfolded texts_fit_def]
  from saveSettings_fields [OF assms(3), of k m] obtain t1 t2 t3 t4 where
    t: "length t1 < 170" "length t2 < 170" "length t3 < 170" "length t4 < 170"
    and s: "saveSettings k mem m = Some (m\<lparr>eeprom := write_fields k
      (char_field 67 (cPulseFreq m) t1 @ number_field 69 (to_s32 (iPulseMultiFactor m * 10)) @ char_field 75 (cLimit m) t2 @
       char_field 77 (cLimitHigh m) t3 @ char_field 79 (cLimitDebounce m) t4 @
       [(81, 40, sPushURL m), (121, 10, sPushArg m)] @ number_field 131 (iPushFreq m))
      (writeBoolean k 66 1 (bPulseLight m) (writeBoolean k 66 0 (bPowerMonEnabled m) (eeprom m)))\<rparr>)" by auto
  define fs where "fs = char_field 67 (cPulseFreq m) t1 @ number_field 69 (to_s32 (iPulseMultiFactor m * 10)) @ char_field 75 (cLimit m) t2 @
       char_field 77 (cLimitHigh m) t3 @ char_field 79 (cLimitDebounce m) t4 @
       [(81, 40, sPushURL m), (121, 10, sPushArg m)] @ number_field 131 (iPushFreq m)"
  define e1 where "e1 = writeBoolean k 66 1 (bPulseLight m) (writeBoolean k 66 0 (bPowerMonEnabled m) (eeprom m))"
  define e where "e = write_fields k fs e1"
  have sv: "saveSettings k mem m = Some (m\<lparr>eeprom := e\<rparr>)" using s by (simp add: e_def e1_def fs_def)
  note f = two_flags_stored [OF assms(1,2), of "bPulseLight m" "bPowerMonEnabled m", folded e1_def]
  have c: "length (if c = 0 then [] else c # t) \<le> Suc (length t)" for c and t :: "u8 list" by simp
  have "\<forall>x \<in> set fs. field_fits x" "sorted_wrt field_before fs"
    using t fit c [THEN le_less_trans] by (simp_all add: fs_def char_field_def field_fits_def field_before_def less_le_trans [OF decimal_short(2)])
  note w = write_fields [OF conjunct1 [OF conjunct1 [OF f]] conjunct1 [OF conjunct2 [OF f]] this, folded e_def]
  have e: "ee_ok view e" "ee_size e = 200" "ee_sector e = ee_sector (eeprom m)" "\<not> ee_dirty e" using w f by simp_all
  have len: "length (ee_bytes e) = 200" "length (ee_bytes e1) = 200" using e f ee_ok_bytes by metis+
  have rest: "slice i j (ee_bytes e) = slice i j (ee_bytes e1)" if "i + j \<le> 67" for i j
    using w that by (simp add: fs_def char_field_def field_apart_def)
  have low: "slice 0 66 (ee_bytes e) = slice 0 66 (ee_bytes (eeprom m))" using rest [of 0 66] f by simp
  have flags: "ee_bytes e ! 66 = ee_bytes e1 ! 66"
    using arg_cong [OF rest [of 66 1], of hd] len by (simp add: slice_def hd_drop_conv_nth)
  have old: "kept_field (ee_bytes e1) i n s = kept_field (ee_bytes (eeprom m)) i n s" if "67 \<le> i" for i n s
    using f that by (simp add: kept_field_def)
  have field: "slice (unat a) (unat n) (ee_bytes e) = kept_field (ee_bytes (eeprom m)) (unat a) (unat n) s"
    if "(a, n, s) \<in> set fs" "67 \<le> unat a" for a n s
    using w that old by fastforce
  have "slice 67 2 (ee_bytes e) = kept_field (ee_bytes (eeprom m)) 67 2 (char_text (cPulseFreq m))"
    "slice 75 2 (ee_bytes e) = kept_field (ee_bytes (eeprom m)) 75 2 (char_text (cLimit m))"
    "slice 77 2 (ee_bytes e) = kept_field (ee_bytes (eeprom m)) 77 2 (char_text (cLimitHigh m))"
    "slice 79 2 (ee_bytes e) = kept_field (ee_bytes (eeprom m)) 79 2 (char_text (cLimitDebounce m))"
    using field [of 67 2] field [of 75 2] field [of 77 2] field [of 79 2] by (simp_all add: fs_def char_field_def kept_char_text)
  moreover have "slice 81 40 (ee_bytes e) = kept_field (ee_bytes (eeprom m)) 81 40 (sPushURL m)"
    "slice 121 10 (ee_bytes e) = kept_field (ee_bytes (eeprom m)) 121 10 (sPushArg m)"
    using field [of 81 40] field [of 121 10] by (simp_all add: fs_def)
  moreover have "slice 69 6 (ee_bytes e) = stored 6 (decimal (min 99999 (nat (to_s32 (iPulseMultiFactor m * 10)))))"
    "slice 131 6 (ee_bytes e) = stored 6 (decimal (min 99999 (nat (iPushFreq m))))"
    using field [of 69 6 "decimal (min 99999 (nat (to_s32 (iPulseMultiFactor m * 10))))"]
      field [of 131 6 "decimal (min 99999 (nat (iPushFreq m)))"] by (simp_all add: fs_def kept_field_written)
  ultimately have "settings_stored (ee_bytes (eeprom m)) (ee_bytes e) m"
    using f flags len by (simp only: settings_stored_def)
  then show ?thesis
    using sv e assms(2) low by (auto simp: same_store_def)
qed

lemma readString_kept:
  assumes "ee_ok view e0" "ee_size e0 = 200" "ee_ok view e" "ee_size e = 200" "unat a + unat n \<le> 200" "0 < n" "0 \<notin> set s"
    and "slice (unat a) (unat n) (ee_bytes e) = kept_field (ee_bytes e0) (unat a) (unat n) s"
  shows "readString e a n = Some (kept_text e0 a n s)"
proof (cases "s = []")
  case True
  then have "slice (unat a) (unat n) (ee_bytes e) = slice (unat a) (unat n) (ee_bytes e0)" using assms(8) by (simp add: kept_field_def)
  then have "readString e a n = readString e0 a n" "readString e0 a n \<noteq> None"
    using readString_bytes [OF assms(3), of a n] readString_bytes [OF assms(1), of a n] assms(2,4-6) by simp_all
  with True show ?thesis by (auto simp: kept_text_def)
next
  case False
  then show ?thesis
    using readString_stored [OF assms(3), of a n s] assms(4-8) by (simp add: kept_field_def kept_text_def)
qed

lemma char_at_kept: "char_at (kept_text e a 2 (char_text c)) 0 = kept_char e a c"
  by (auto simp: kept_text_def kept_char_def char_text_def char_at_def reread_def split: option.splits)

lemma loadSettings_stored:
  assumes "ee_ok view e0" "ee_size e0 = 200" "ee_ok view e" "ee_size e = 200"
    and "settings_stored (ee_bytes e0) (ee_bytes e) m" "texts_fit m"
  shows "loadSettings (m0\<lparr>eeprom := e\<rparr>) = Some (m0\<lparr>eeprom := e, bPowerMonEnabled := bPowerMonEnabled m,
    bPulseLight := bPulseLight m, cPulseFreq := kept_char e0 67 (cPulseFreq m),
    iPulseMultiFactor := kept_number (to_s32 (iPulseMultiFactor m * 10)) div 10, cLimit := kept_char e0 75 (cLimit m),
    cLimitHigh := kept_char e0 77 (cLimitHigh m), cLimitDebounce := kept_char e0 79 (cLimitDebounce m),
    sPushURL := kept_text e0 81 40 (sPushURL m), sPushArg := kept_text e0 121 10 (sPushArg m),
    iPushFreq := kept_number (iPushFreq m)\<rparr>)"
proof -
  note st = assms(5) [unfolded settings_stored_def] and fit = assms(6) [unfolded texts_fit_def]
  note kept = readString_kept [OF assms(1-4)]
  have chr: "readString e a 2 = Some (kept_text e0 a 2 (char_text c))"
    if "unat a + 2 \<le> 200" "slice (unat a) 2 (ee_bytes e) = kept_field (ee_bytes e0) (unat a) 2 (char_text c)" for a c
    using kept [of a 2 "char_text c"] that by (simp add: char_text_def)
  have num: "readInt e a = Some (kept_number v)"
    if "unat a + 6 \<le> 200" "slice (unat a) 6 (ee_bytes e) = stored 6 (decimal (min 99999 (nat v)))" for a v
  proof -
    have "readString e a 6 = Some (reread 6 (decimal (min 99999 (nat v))))"
      using readString_stored [OF assms(3), of a 6] that assms(4) decimal_facts(2) by simp
    moreover have "0 < length (reread 6 (decimal (min 99999 (nat v))))" by (simp add: reread_def)
    ultimately show ?thesis using reread_decimal [of "min 99999 (nat v)"] by (simp add: readInt_def kept_number_def)
  qed
  have "readBoolean e 66 0 = bPowerMonEnabled m" "readBoolean e 66 1 = bPulseLight m"
    using st assms(4) readBoolean_bytes [OF assms(3), of 66 0] readBoolean_bytes [OF assms(3), of 66 1] by simp_all
  moreover have "readString e 67 2 = Some (kept_text e0 67 2 (char_text (cPulseFreq m)))"
    "readString e 75 2 = Some (kept_text e0 75 2 (char_text (cLimit m)))"
    "readString e 77 2 = Some (kept_text e0 77 2 (char_text (cLimitHigh m)))"
    "readString e 79 2 = Some (kept_text e0 79 2 (char_text (cLimitDebounce m)))"
    using st by (simp_all add: chr)
  moreover have "readString e 81 40 = Some (kept_text e0 81 40 (sPushURL m))"
    "readString e 121 10 = Some (kept_text e0 121 10 (sPushArg m))"
    using st fit kept [of 81 40 "sPushURL m"] kept [of 121 10 "sPushArg m"] by simp_all
  moreover have "readInt e 69 = Some (kept_number (to_s32 (iPulseMultiFactor m * 10)))" "readInt e 131 = Some (kept_number (iPushFreq m))"
    using st num [of 69] num [of 131] by simp_all
  moreover have "c_div (kept_number v) 10 = kept_number v div 10" for v
    using c_div_of_nat [of "reloaded (min 99999 (nat v))" 10] by (simp add: kept_number_def zdiv_int)
  ultimately show ?thesis by (simp add: loadSettings_def char_at_kept)
qed

lemma restart:
  assumes "ee_ok view e" "\<not> ee_dirty e"
  shows "ee_ok view (EEPROM_begin k (ee_size e) (EEPROMClass (hw e) (ee_sector e))) \<and>
    ee_size (EEPROM_begin k (ee_size e) (EEPROMClass (hw e) (ee_sector e))) = ee_size e \<and>
    ee_bytes (EEPROM_begin k (ee_size e) (EEPROMClass (hw e) (ee_sector e))) = ee_bytes e"
proof -
  let ?n = "EEPROMClass (hw e) (ee_sector e)"
  have "0 < ee_size e" "ee_size e \<le> 4096" "ee_size e mod 4 = 0"
    "unat (ee_sector ?n) * 4096 + 4096 \<le> unat (chip_size (hw ?n))" "\<not> ee_dirty ?n" "hw ?n = hw e" "ee_sector ?n = ee_sector e"
    using assms by (simp_all add: EEPROMClass_def ee_ok_def)
  then show ?thesis using EEPROM_begin_ok [of "ee_size e" ?n] assms by (auto simp: ee_ok_def)
qed

end

section \<open>Inputs that go wrong\<close>

text \<open>A long text makes the \<^verbatim>\<open>char\<close> sum \<^verbatim>\<open>cStartPosition + length()\<close> wrap: nothing is written, and the padding
  starts far below the field.\<close>

context spi_chip
begin

lemma writeString_wrapped:
  assumes "ee_ok view e" "unat start + unat n \<le> ee_size e" "0 < n" "unat start + unat n < 256"
    and "256 \<le> unat start + length s" "unat start + length s < 256 + unat start"
  defines "c \<equiv> unat start + length s - 256"
  shows "same_store view e (writeString k start n s e) \<and>
    ee_bytes (writeString k start n s e) = blit c (replicate (unat start + unat n - c) 0) (ee_bytes e)"
proof -
  let ?a = "unat start" and ?n = "unat n"
  have n0: "0 < ?n" using assms(3) by (simp add: unat_gt_0 word_gt_0)
  have l: "length (ee_bytes e) = ee_size e" using ee_ok_bytes [OF assms(1)] by simp
  have "s \<noteq> []" using assms(5) unat_u8_less [of start] by auto
  have cend: "unat (start + word_of_nat (length s)) = c"
    using assms(5,6) unat_u8_less [of start] by (simp add: c_def unat_word_ariths unat_of_nat mod_simps mod_if)
  have tend: "unat (start + n) = ?a + ?n" using assms(4) by (subst unat_add_no_wrap) simp_all
  have ce: "\<not> start + word_of_nat (length s) \<ge> start + n"
    using assms(6) n0 by (simp add: word_le_nat_alt cend tend c_def)
  have "c < ?a" using assms(5,6) by (simp add: c_def)
  obtain e2 where e2: "fold (\<lambda>i. EEPROM_write (int i) 0) [c..<c + (?a + ?n - c)] e = e2" "ee_ok view e2"
    "ee_size e2 = ee_size e" "ee_sector e2 = ee_sector e" "ee_bytes e2 = blit c (replicate (?a + ?n - c) 0) (ee_bytes e)"
    using put_zeros [OF assms(1), of c "?a + ?n - c"] assms(2) \<open>c < ?a\<close> by auto
  have z: "c + (?a + ?n - c) = ?a + ?n" using \<open>c < ?a\<close> by simp
  let ?e3 = "EEPROM_write (uint start + uint n - 1) 0 e2"
  have ws: "writeString k start n s e = snd (EEPROM_commit k ?e3)"
    using \<open>s \<noteq> []\<close> e2(1) ce z tend cend \<open>c < ?a\<close> by (simp add: writeString_def Let_def)
  have "uint start + uint n - 1 = int (?a + (?n - 1))" using n0 uint_nat [of start] uint_nat [of n] by linarith
  then have pos: "nat (uint start + uint n - 1) = ?a + (?n - 1)" "0 \<le> uint start + uint n - 1"
    by (simp_all only: nat_int of_nat_0_le_iff)
  have "ee_bytes ?e3 = (blit c (replicate (?a + ?n - c) 0) (ee_bytes e))[?a + (?n - 1) := 0]"
    using EEPROM_write_bytes [OF e2(2)] pos e2(5) by simp
  also have "\<dots> = blit c (replicate (?a + ?n - c) 0) (ee_bytes e)"
    using \<open>c < ?a\<close> assms(2) n0 l by (intro list_update_same_conv [THEN iffD2]) (auto simp: nth_blit)
  finally have "ee_bytes ?e3 = blit c (replicate (?a + ?n - c) 0) (ee_bytes e)" .
  moreover have "ee_ok view ?e3" by (rule EEPROM_write_ok [OF e2(2)])
  ultimately show ?thesis
    using ws commit_store [of ?e3] e2 by (auto simp: same_store_def EEPROM_write_fields)
qed


lemma readString_zeros:
  assumes "ee_ok view e" "unat a + unat n \<le> ee_size e" "0 < n" "slice (unat a) (unat n) (ee_bytes e) = replicate (unat n) 0"
  shows "readString e a n = Some []"
proof -
  have "0 < unat n" using assms(3) by (simp add: unat_gt_0 word_gt_0)
  then obtain j where "unat n = Suc j" by (cases "unat n") auto
  then show ?thesis
    unfolding readString_bytes [OF assms(1-3)] assms(4) by simp
qed

end

section \<open>A changed byte\<close>

lemma slice_update_inside: "a + n \<le> length b \<Longrightarrow> i < n \<Longrightarrow> slice a n (b[a + i := v]) = (slice a n b)[i := v]"
  by (rule nth_equalityI) (auto simp: nth_slice nth_list_update)

lemma xor_cancel_eq: "(c XOR a XOR v = c) \<longleftrightarrow> a = (v :: u8)"
proof
  assume "c XOR a XOR v = c"
  moreover have "a = (c XOR a XOR v) XOR c XOR v" by (rule bit_word_eqI) (auto simp: bit_simps)
  ultimately show "a = v" by simp
qed (rule bit_word_eqI, auto simp: bit_simps)

lemma stored_changed:
  assumes "i < n" "v \<noteq> stored n s ! i"
  shows "last ((stored n s)[i := v]) \<noteq> xor_sum (butlast ((stored n s)[i := v]))"
proof -
  define t where "t = take (n - 1) s @ replicate (n - 1 - length s) 0"
  have x: "xor_sum t = xor_sum (take (n - 1) s)" by (simp add: t_def xor_sum_append)
  have st: "stored n s = t @ [xor_sum t]" by (simp add: stored_def t_def xor_sum_append)
  have l: "length t = n - 1" by (simp add: t_def)
  show ?thesis
  proof (cases "i < n - 1")
    case True
    then have "v \<noteq> t ! i" using assms(2) l by (simp add: st nth_append)
    then show ?thesis
      using True l xor_sum_update [of i t v] xor_cancel_eq [of "xor_sum t" "t ! i" v]
      by (simp add: st list_update_append butlast_append)
  next
    case False
    then have "i = length t" using assms(1) l by simp
    then show ?thesis using assms(2) by (simp add: st)
  qed
qed

section \<open>Properties\<close>

text \<open>C22 (roundtrip). A non-empty text without a zero byte, stored in a field of the EEPROM, comes back, as long as
  neither the end of the field nor the start plus the length of the text reaches 256, where the \<^verbatim>\<open>char\<close> sums wrap: whole when
  it is shorter than the field by two, and otherwise cut to the field less one byte and followed by its checksum
  byte, which the reader takes for text unless it is 0.  Every field that does not overlap reads as before.\<close>

theorem string_setting_roundtrip:
  assumes "spi_chip k view" "ee_ok view e" "unat start + unat n \<le> ee_size e" "0 < n" "unat start + unat n < 256"
    and "s \<noteq> []" "0 \<notin> set s" "unat start + length s < 256"
  shows "readString (writeString k start n s e) start n = Some (if length s < unat n - 1 then s
      else take (unat n - 1) s @ (if xor_sum (take (unat n - 1) s) = 0 then [] else [xor_sum (take (unat n - 1) s)])) \<and>
    (\<forall>b j. 0 < j \<and> unat b + unat j \<le> ee_size e \<and> (unat b + unat j \<le> unat start \<or> unat start + unat n \<le> unat b) \<longrightarrow>
      readString (writeString k start n s e) b j = readString e b j)"
proof -
  let ?e = "writeString k start n s e"
  note w = spi_chip.writeString_field [OF assms(1-6) assms(8)]
  have ok: "ee_ok view ?e" "ee_size ?e = ee_size e" using w(1) by (simp_all add: same_store_def)
  have "readString ?e start n = Some (reread (unat n) s)"
    using spi_chip.readString_stored [OF assms(1) ok(1)] ok(2) assms(3,4,7) w(2) by simp
  moreover have "readString ?e b j = readString e b j"
    if "0 < j" "unat b + unat j \<le> ee_size e" "unat b + unat j \<le> unat start \<or> unat start + unat n \<le> unat b" for b j
    using readString_bytes [OF ok(1), of b j] readString_bytes [OF assms(2) that(2,1)] w(3) [OF that(2,3)] that ok(2) by simp
  ultimately show ?thesis by (simp add: reread_def)
qed

text \<open>C23 (safety). Any single byte of a stored field that changes, the checksum included, is noticed: the field reads as
  the empty text.\<close>

theorem corrupted_setting_detected:
  assumes "spi_chip k view" "ee_ok view e" "unat start + unat n \<le> ee_size e" "0 < n" "unat start + unat n < 256"
    and "s \<noteq> []" "unat start + length s < 256" "i < unat n"
    and "v \<noteq> EEPROM_read (writeString k start n s e) (uint start + int i)"
  shows "readString (EEPROM_write (uint start + int i) v (writeString k start n s e)) start n = Some []"
proof -
  let ?e = "writeString k start n s e" and ?i = "unat start + i" and ?a = "unat start" and ?n = "unat n"
  note w = spi_chip.writeString_field [OF assms(1-7)]
  have ok: "ee_ok view ?e" "ee_size ?e = ee_size e" using w(1) by (simp_all add: same_store_def)
  have l: "length (ee_bytes ?e) = ee_size e" using ee_ok_bytes [OF ok(1)] ok(2) by simp
  let ?e2 = "EEPROM_write (uint start + int i) v ?e"
  have ok2: "ee_ok view ?e2" "ee_size ?e2 = ee_size e"
    using EEPROM_write_ok [OF ok(1)] ok(2) by (simp_all add: EEPROM_write_fields)
  have st: "slice ?a ?n (ee_bytes ?e) = stored ?n s" by (rule w(2))
  have lst: "length (stored ?n s) = ?n" using assms(4) by (simp add: unat_gt_0 word_gt_0)
  have "EEPROM_read ?e (uint start + int i) = ee_bytes ?e ! ?i"
    unfolding EEPROM_read_bytes [OF ok(1)] using ok(2) assms(3,8) by (simp add: nat_add_distrib)
  also have "\<dots> = stored ?n s ! i"
    unfolding st [symmetric] using nth_slice [of ?a ?n "ee_bytes ?e" i] assms(3,8) l by simp
  finally have v: "v \<noteq> stored ?n s ! i" using assms(9) by metis
  have "ee_bytes ?e2 = (ee_bytes ?e)[?i := v]"
    unfolding EEPROM_write_bytes [OF ok(1)] by (simp add: nat_add_distrib)
  then have b: "slice ?a ?n (ee_bytes ?e2) = (stored ?n s)[i := v]"
    using st assms(3,8) l by (simp add: slice_update_inside)
  have "last ((stored ?n s)[i := v]) \<noteq> xor_sum (butlast ((stored ?n s)[i := v]))"
    by (rule stored_changed [OF _ v]) (use assms(8) in simp)
  then show ?thesis
    using readString_bytes [OF ok2(1), of start n] ok2(2) assms(3,4) b by simp
qed

text \<open>A number is stored as its decimal text, after clipping to 0..99999, in a field of six bytes.  Up
  to 9999 it comes back; a five digit number comes back with one more digit, the exclusive or of its five digits,
  whenever that is a digit.\<close>

theorem stored_number_reload:
  assumes "spi_chip k view" "ee_ok view e" "unat p + 6 \<le> ee_size e" "unat p + 6 < 256"
  shows "\<exists>e'. writeInt k p v e = Some e' \<and> readInt e' p = Some (int (reloaded (min 99999 (nat v))))"
proof -
  let ?s = "decimal (min 99999 (nat v))"
  let ?e = "writeString k p 6 ?s e"
  have s: "?s \<noteq> []" "0 \<notin> set ?s" "length ?s \<le> 5" by (rule decimal_facts | simp)+
  note w = spi_chip.writeString_field [OF assms(1,2), of p 6 ?s]
  have "ee_ok view ?e" "ee_size ?e = ee_size e" using w(1) assms s by (simp_all add: same_store_def)
  then have "readString ?e p 6 = Some (reread 6 ?s)"
    using spi_chip.readString_stored [OF assms(1), of ?e p 6 ?s] w(2) assms s by simp
  moreover have "0 < length (reread 6 ?s)" using s(1) by (simp add: reread_def)
  moreover have "writeInt k p v e = Some ?e" by (rule writeInt_decimal)
  ultimately show ?thesis using reread_decimal [of "min 99999 (nat v)"] by (simp add: readInt_def)
qed

text \<open>C14 (roundtrip). After \<^verbatim>\<open>saveSettings\<close>, a restart on the same flash and \<^verbatim>\<open>loadSettings\<close>, with a push address
  of less than 175 characters and an argument of less than 135, both without zero bytes (and a zero byte among the 170
  bytes of the stack behind the placeholder of the one-character settings): the flags and the four
  one-character settings are those that were saved, except that for a setting of 0 the value the EEPROM held before the
  save is back; a push address or argument comes back as one field keeps it (whole when it is shorter than its field by
  two, else cut and followed by its checksum byte), and when it is empty as it was in the EEPROM before; the push interval,
  and ten times the factor, come back clipped to 0..99999, one with five digits possibly with its checksum as a sixth digit.\<close>

theorem settings_survive_restart:
  assumes "spi_chip k view" "ee_ok view (eeprom m)" "ee_size (eeprom m) = 200" "0 \<in> set (take 170 mem)" "texts_fit m"
  shows "\<exists>m'. saveSettings k mem m = Some m' \<and>
    (let e = EEPROM_begin k 200 (EEPROMClass (hw (eeprom m')) (ee_sector (eeprom m'))) in
     loadSettings (m0\<lparr>eeprom := e\<rparr>) = Some (m0\<lparr>eeprom := e, bPowerMonEnabled := bPowerMonEnabled m,
       bPulseLight := bPulseLight m, cPulseFreq := kept_char (eeprom m) 67 (cPulseFreq m),
       iPulseMultiFactor := kept_number (to_s32 (iPulseMultiFactor m * 10)) div 10,
       cLimit := kept_char (eeprom m) 75 (cLimit m), cLimitHigh := kept_char (eeprom m) 77 (cLimitHigh m),
       cLimitDebounce := kept_char (eeprom m) 79 (cLimitDebounce m), sPushURL := kept_text (eeprom m) 81 40 (sPushURL m),
       sPushArg := kept_text (eeprom m) 121 10 (sPushArg m), iPushFreq := kept_number (iPushFreq m)\<rparr>))"
proof -
  from spi_chip.saveSettings_stored [OF assms] obtain e where
    e: "saveSettings k mem m = Some (m\<lparr>eeprom := e\<rparr>)" "same_store view (eeprom m) e"
      "settings_stored (ee_bytes (eeprom m)) (ee_bytes e) m" by blast
  have ok: "ee_ok view e" "ee_size e = 200" "\<not> ee_dirty e" using e(2) assms(3) by (simp_all add: same_store_def)
  let ?e = "EEPROM_begin k 200 (EEPROMClass (hw e) (ee_sector e))"
  have r: "ee_ok view ?e" "ee_size ?e = 200" "ee_bytes ?e = ee_bytes e"
    using spi_chip.restart [OF assms(1) ok(1,3)] ok(2) by simp_all
  show ?thesis
    using e(1) spi_chip.loadSettings_stored [OF assms(1-3) r(1,2) _ assms(5), of m0] e(3) r(3) by (simp add: Let_def)
qed

text \<open>C33 (safety). A push address of 175 to 208 characters, which the form accepts, wraps the \<^verbatim>\<open>char\<close> sum of start
  and length: saving it stores none of it and clears the EEPROM up to the end of its field.  Its field reads as
  empty, the access point goes back to its factory name and password, and the flags read as off.\<close>

theorem long_url_wipes_settings:
  assumes "spi_chip k view" "ee_ok view e" "ee_size e = 200" "175 \<le> length url" "length url \<le> 208"
  shows "readString (writeString k 81 40 url e) 81 40 = Some [] \<and>
    getWiFiAPSettings ok (writeString k 81 40 url e) = Some (getDefaultWiFiAPSettings ok) \<and>
    \<not> readBoolean (writeString k 81 40 url e) 66 0 \<and> \<not> readBoolean (writeString k 81 40 url e) 66 1"
proof -
  let ?e = "writeString k 81 40 url e" and ?c = "81 + length url - 256"
  have w: "same_store view e ?e" "ee_bytes ?e = blit ?c (replicate (121 - ?c) 0) (ee_bytes e)"
    using spi_chip.writeString_wrapped [OF assms(1,2), of 81 40 url] assms(3-5) by simp_all
  have e: "ee_ok view ?e" "ee_size ?e = 200" using w(1) assms(3) by (simp_all add: same_store_def)
  have l: "length (ee_bytes e) = 200" using ee_ok_bytes [OF assms(2)] assms(3) by simp
  have z: "ee_bytes ?e ! i = 0" if "33 \<le> i" "i < 121" for i
    unfolding w(2) using that assms(4,5) l by (auto simp: nth_blit)
  have "slice a n (ee_bytes ?e) = replicate n 0" if "33 \<le> a" "a + n \<le> 121" for a n
    using that z l w(2) assms(4,5) by (intro nth_equalityI) (simp_all add: nth_slice)
  then have r: "readString ?e a n = Some []" if "33 \<le> unat a" "unat a + unat n \<le> 121" "0 < n" for a n
    using spi_chip.readString_zeros [OF assms(1) e(1)] e(2) that by simp
  have b: "\<not> readBoolean ?e 66 j" for j
    using spi_chip.readBoolean_bytes [OF assms(1) e(1), of 66 j] e(2) z [of 66] by simp
  show ?thesis
    using r [of 81 40] r [of 33 16] b by (cases ok) (simp_all add: getWiFiAPSettings_def getWiFiSettings_def r)
qed

section \<open>Examples\<close>

definition factory_monitor :: "(nat \<Rightarrow> u8) monitor" where
  "factory_monitor = loadDefaultSettings \<lparr>eeprom = blank_eeprom, lPulses = 0, bPowerMonEnabled = False,
     bPulseLight = False, cPulseFreq = 0, iPulseMultiFactor = 0, cLimit = 0, cLimitHigh = 0, cLimitDebounce = 0,
     cLimitCountHi = 0, cLimitCountLo = 0, bLimitDebounce = False, sPushURL = [], sPushArg = [], iPushFreq = 0,
     lLastConnectionTime = 0, cABuffer = None, iABufferSize = 0, iABufferPos = 0, cFreeBufferCount = 0\<rparr>"

lemma factory_monitor_fits: "texts_fit factory_monitor" "eeprom factory_monitor = blank_eeprom"
  by (simp_all add: factory_monitor_def loadDefaultSettings_def texts_fit_def str_def)

theorem string_setting_roundtrip_witness:
  "readString (writeString reference_sdk 121 10 (str ''value'') blank_eeprom) 121 10 = Some (str ''value'') \<and>
   readString (writeString reference_sdk 121 10 (str ''powermeter'') blank_eeprom) 121 10 = Some (str ''powermete'' @ [102])"
  using string_setting_roundtrip [OF ref_chip.spi_chip_axioms blank_eeprom_ok(1), of 121 10 "str ''value''"]
    string_setting_roundtrip [OF ref_chip.spi_chip_axioms blank_eeprom_ok(1), of 121 10 "str ''powermeter''"]
  by (simp add: blank_eeprom_ok(2) str_def)

theorem corrupted_setting_detected_witness:
  "readString (EEPROM_write 123 (EEPROM_read (writeString reference_sdk 121 10 (str ''value'') blank_eeprom) 123 + 1)
     (writeString reference_sdk 121 10 (str ''value'') blank_eeprom)) 121 10 = Some []"
  using corrupted_setting_detected [OF ref_chip.spi_chip_axioms blank_eeprom_ok(1), of 121 10 "str ''value''" 2
      "EEPROM_read (writeString reference_sdk 121 10 (str ''value'') blank_eeprom) 123 + 1"]
  by (simp add: blank_eeprom_ok(2) str_def)

lemma reloaded_factory_factor: "reloaded 56600 = 566005"
proof -
  have "lsb_digits 10 56600 = [0, 0, 6, 6, 5]" by (simp add: lsb_digits.simps [of 10])
  moreover have "foldr (XOR) [0, 0, a, a, b] 0 = b" for a b :: nat by (simp flip: xor.assoc)
  ultimately have "digit_xor 56600 = 5" unfolding digit_xor_def by metis
  then show ?thesis by (simp add: reloaded_def)
qed

theorem stored_number_reload_witness:
  "\<exists>e'. writeInt reference_sdk 69 56600 blank_eeprom = Some e' \<and> readInt e' 69 = Some 566005"
  using stored_number_reload [OF ref_chip.spi_chip_axioms blank_eeprom_ok(1), of 69 56600]
  by (simp add: blank_eeprom_ok(2) reloaded_factory_factor)

text \<open>The factory settings are saved, then once more with a measurement frequency of 0: the 100 from before comes back, and
  the factor ten times bigger.\<close>

theorem settings_survive_restart_witness:
  "\<exists>m1 m2. saveSettings reference_sdk [0] factory_monitor = Some m1 \<and>
    saveSettings reference_sdk [0] (m1\<lparr>cPulseFreq := 0\<rparr>) = Some m2 \<and>
    map_option (\<lambda>m. (cLimit m, iPushFreq m, iPulseMultiFactor m, cPulseFreq m))
      (loadSettings (factory_monitor\<lparr>eeprom := EEPROM_begin reference_sdk 200 (EEPROMClass (hw (eeprom m2)) (ee_sector (eeprom m2)))\<rparr>)) =
    Some (120, 600, 56600, 100)"
proof -
  let ?f = "factory_monitor"
  note fits = factory_monitor_fits blank_eeprom_ok
  from ref_chip.saveSettings_stored [of ?f "[0]"] fits obtain e where
    e: "saveSettings reference_sdk [0] ?f = Some (?f\<lparr>eeprom := e\<rparr>)" "same_store id blank_eeprom e"
      "settings_stored (ee_bytes blank_eeprom) (ee_bytes e) ?f" by auto
  have ok: "ee_ok id e" "ee_size e = 200" using e(2) fits by (simp_all add: same_store_def)
  have "readString e 67 2 = Some (kept_text blank_eeprom 67 2 [100])"
    using ref_chip.readString_kept [of blank_eeprom e 67 2 "[100]"] fits ok e(3)
    by (simp add: settings_stored_def char_text_def factory_monitor_def loadDefaultSettings_def)
  then have k: "kept_char e 67 0 = 100" by (simp add: kept_char_def kept_text_def reread_def char_at_def)
  have n: "kept_number 600 = 600" "kept_number 56600 = 566005"
    by (simp_all add: kept_number_def reloaded_factory_factor reloaded_def [of 600])
  have t: "to_s32 56600 = 56600" unfolding to_s32_def by (rule sint_word_of_int_s32) (simp add: s32_range_def)
  show ?thesis
    using settings_survive_restart [OF ref_chip.spi_chip_axioms, of "?f\<lparr>eeprom := e, cPulseFreq := 0\<rparr>" "[0]" ?f] ok fits e(1) k n t
    by (auto simp: Let_def factory_monitor_def loadDefaultSettings_def texts_fit_def kept_char_def)
qed

theorem long_url_wipes_settings_witness:
  "readString (writeString reference_sdk 81 40 (replicate 180 65) blank_eeprom) 81 40 = Some []"
  using long_url_wipes_settings [OF ref_chip.spi_chip_axioms blank_eeprom_ok(1,2), of "replicate 180 65" True] by simp

end
