(* ===== verification/MonitorPulse.thy ===== *)
theory MonitorPulse
  imports MonitorFacts
begin

text \<open>
  The work of the main loop (\<^verbatim>\<open>Other.ino\<close>): the buffer of readings, the pulse counter with its two
  limits, and the push of the count to a server.  What the processor and the network give back is an
  argument of the definitions (a reading, the clock, the free heap, whether a connection was made); what
  they are told is a list of actions.
\<close>

section \<open>Actions\<close>

datatype wifi_mode = WIFI_STA | WIFI_AP | WIFI_AP_STA

datatype action =
    PinMode nat
  | DigitalWrite nat bool
  | Delay int
  | WiFiMode wifi_mode
  | WiFiSoftAP "u8 list" "u8 list"
  | WiFiBegin "u8 list" "u8 list"
  | MdnsBegin "u8 list"
  | HttpSend int "u8 list" "u8 list"
  | ServerBegin
  | ClientStop
  | ClientConnect "u8 list" nat
  | ClientPrint "u8 list"

definition pulseLightOn :: action where
  "pulseLightOn = DigitalWrite 2 True"

definition pulseLightOff :: action where
  "pulseLightOff = DigitalWrite 2 False"

definition displayFreeBufferInfo :: "'d monitor \<Rightarrow> 'd monitor" where
  "displayFreeBufferInfo m =
     (let c = cFreeBufferCount m + 1 in m\<lparr>cFreeBufferCount := (if c > 9 then 0 else c)\<rparr>)"

section \<open>The buffer of readings\<close>

text \<open>One turn per allocation: \<open>heap i\<close> is the free heap and \<open>malloc_ok i\<close> the outcome of the \<open>i\<close>-th
  one, \<open>last_ok\<close> that of the allocation after the loop.  The multiplier is a \<^verbatim>\<open>char\<close> and wraps; a division by 0 and running out of \<open>fuel\<close> are the
  outer \<open>None\<close>.  What an earlier turn allocated is dropped.\<close>

definition adc_buffer_turn :: "nat \<Rightarrow> bool \<Rightarrow> u8 \<Rightarrow> (u8 \<times> u8 list option \<times> u8) option" where
  "adc_buffer_turn heap malloc_ok cMultiplier =
     (if cMultiplier = 0 then None
      else let bSize = heap div unat cMultiplier;
               sz = (if bSize > 255 then 255 else word_of_nat bSize)
           in Some (sz, clear_alloc (\<lambda>n. malloc_ok) sz 1, cMultiplier + 20))"

fun adc_buffer_loop :: "nat \<Rightarrow> (nat \<Rightarrow> nat) \<Rightarrow> (nat \<Rightarrow> bool) \<Rightarrow> nat \<Rightarrow> u8 \<times> u8 list option \<times> u8 \<Rightarrow>
    (u8 \<times> u8 list option) option" where
  "adc_buffer_loop fuel heap malloc_ok i (sz, buf, cMultiplier) =
     (if buf = None \<or> cMultiplier < 100
      then case fuel of
          0 \<Rightarrow> None
        | Suc fuel \<Rightarrow> do {
            t \<leftarrow> adc_buffer_turn (heap i) (malloc_ok i) cMultiplier;
            adc_buffer_loop fuel heap malloc_ok (Suc i) t }
      else Some (sz, buf))"

definition generateADCBuffer :: "nat \<Rightarrow> (nat \<Rightarrow> nat) \<Rightarrow> (nat \<Rightarrow> bool) \<Rightarrow> bool \<Rightarrow> 'd monitor \<Rightarrow> 'd monitor option" where
  "generateADCBuffer fuel heap malloc_ok last_ok m = do {
     let m = m\<lparr>iABufferPos := 0, cABuffer := None\<rparr>;
     (sz, buf) \<leftarrow> adc_buffer_loop fuel heap malloc_ok 0 (iABufferSize m, cABuffer m, 10);
     let (sz, buf) = (case buf of None \<Rightarrow> (1, clear_alloc (\<lambda>n. last_ok) 1 1) | Some b \<Rightarrow> (sz, Some b));
     Some (m\<lparr>iABufferSize := sz, cABuffer := buf\<rparr>) }"

section \<open>Counting pulses\<close>

definition count_reading :: "u8 \<Rightarrow> 'd monitor \<Rightarrow> 'd monitor" where
  "count_reading v m =
     (if v \<ge> cLimit m
      then let m = m\<lparr>cLimitCountHi := cLimitCountHi m + 1, cLimitCountLo := 0\<rparr>
           in if \<not> bLimitDebounce m
              then if cLimitCountHi m > cLimitHigh m then m\<lparr>lPulses := lPulses m + 1, bLimitDebounce := True\<rparr> else m
              else m
      else let m = m\<lparr>cLimitCountLo := cLimitCountLo m + 1, cLimitCountHi := 0\<rparr>
           in if cLimitCountLo m > cLimitDebounce m then m\<lparr>bLimitDebounce := False\<rparr> else m)"

text \<open>\<open>adc\<close> is what \<^verbatim>\<open>analogRead(A0)\<close> returned.  A write outside the buffer, or to no buffer, is undefined.\<close>

definition addADCValueToBuffer :: "int \<Rightarrow> 'd monitor \<Rightarrow> 'd monitor option" where
  "addADCValueToBuffer adc m = do {
     let v = word_of_int (drop_bit 2 adc);
     b \<leftarrow> cABuffer m;
     b \<leftarrow> mem_put (unat (iABufferPos m)) [v] b;
     let m = m\<lparr>cABuffer := Some b\<rparr>;
     let m = count_reading v m;
     let m = m\<lparr>iABufferPos := iABufferPos m + 1\<rparr>;
     Some (if iABufferPos m \<ge> iABufferSize m then m\<lparr>iABufferPos := 0\<rparr> else m) }"

section \<open>Pushing the count\<close>

text \<open>The -1 of a failed search is passed on as an \<^verbatim>\<open>unsigned int\<close>.\<close>

definition push_server :: "u8 list \<Rightarrow> u8 list" where
  "push_server url = sub_from url (text_index_of url (str ''//'') + 2)"

definition push_host :: "u8 list \<Rightarrow> u8 list" where
  "push_host url = sub_between (push_server url) 0 (text_index_of (push_server url) (str ''/''))"

definition push_path :: "u8 list \<Rightarrow> u8 list" where
  "push_path url = sub_from (push_server url) (text_index_of (push_server url) (str ''/''))"

definition println :: "u8 list \<Rightarrow> action" where
  "println s = ClientPrint (s @ [13, 10])"

text \<open>\<open>connected\<close> is the outcome of \<^verbatim>\<open>client.connect\<close> and \<open>later\<close> the clock after the request.\<close>

definition pushDataToServer :: "bool \<Rightarrow> u32 \<Rightarrow> 'd monitor \<Rightarrow> (action list \<times> 'd monitor) option" where
  "pushDataToServer connected later m = do {
     let strHost = push_host (sPushURL m);
     let strURL = push_path (sPushURL m);
     let connect = [ClientStop, ClientConnect (char_array_text 100 strHost) 80];
     if connected
     then do {
       n \<leftarrow> ulong_text (lPulses m * word_of_int (iPulseMultiFactor m));
       Some (connect @
         [println (str ''GET '' @ strURL @ str ''?'' @ sPushArg m @ str ''='' @ n @ str '' HTTP/1.1''),
          println (str ''Host: www.arduino.cc''),
          println (str ''User-Agent: ArduinoWiFi/1.1''),
          println (str ''Connection: close''),
          println []], m\<lparr>lLastConnectionTime := later\<rparr>) }
     else Some (connect, m) }"

definition checkWhetherToPushData :: "bool \<Rightarrow> u32 \<Rightarrow> u32 \<Rightarrow> 'd monitor \<Rightarrow> (action list \<times> 'd monitor) option" where
  "checkWhetherToPushData connected millis later m =
     (if millis - lLastConnectionTime m > word_of_int (to_s32 (iPushFreq m * 1000))
      then pushDataToServer connected later m
      else Some ([], m))"

section \<open>The counter\<close>

text \<open>What the counter promises, with run lengths that do not wrap: a pulse is counted when a run of readings at or
  above the limit gets longer than \<open>high\<close>, once until a run below the limit has been longer than
  \<open>low\<close>.\<close>

record pulse_counter =
  high_run :: nat
  low_run :: nat
  waiting :: bool
  pulses :: nat

definition pulse_step :: "nat \<Rightarrow> nat \<Rightarrow> nat \<Rightarrow> pulse_counter \<Rightarrow> nat \<Rightarrow> pulse_counter" where
  "pulse_step limit high low p v =
     (if limit \<le> v
      then if \<not> waiting p \<and> high_run p + 1 > high
        then p\<lparr>high_run := high_run p + 1, low_run := 0, waiting := True, pulses := pulses p + 1\<rparr>
        else p\<lparr>high_run := high_run p + 1, low_run := 0\<rparr>
      else p\<lparr>high_run := 0, low_run := low_run p + 1, waiting := waiting p \<and> low_run p + 1 \<le> low\<rparr>)"

definition counter_sim :: "'d monitor \<Rightarrow> pulse_counter \<Rightarrow> bool" where
  "counter_sim m p \<longleftrightarrow> cLimitCountHi m = word_of_nat (high_run p) \<and> cLimitCountLo m = word_of_nat (low_run p) \<and>
     bLimitDebounce m = waiting p \<and> lPulses m = word_of_nat (pulses p) \<and>
     (\<not> waiting p \<longrightarrow> high_run p \<le> unat (cLimitHigh m)) \<and> (waiting p \<longrightarrow> low_run p \<le> unat (cLimitDebounce m))"

definition limits :: "'d monitor \<Rightarrow> u8 \<times> u8 \<times> u8" where
  "limits m = (cLimit m, cLimitHigh m, cLimitDebounce m)"

lemma count_reading_frame:
  "limits (count_reading v m) = limits m" "cABuffer (count_reading v m) = cABuffer m"
  "iABufferPos (count_reading v m) = iABufferPos m" "iABufferSize (count_reading v m) = iABufferSize m"
  by (simp_all add: count_reading_def limits_def Let_def)

lemma u8_Suc: "n < 255 \<Longrightarrow> unat (word_of_nat n + 1 :: u8) = Suc n"
  by (simp add: unat_word_ariths unat_of_nat)

lemma count_reading_sim:
  assumes "counter_sim m p" "cLimitHigh m < 255" "cLimitDebounce m < 255"
  shows "counter_sim (count_reading v m)
    (pulse_step (unat (cLimit m)) (unat (cLimitHigh m)) (unat (cLimitDebounce m)) p (unat v))"
proof -
  have lim: "unat (cLimitHigh m) < 255" "unat (cLimitDebounce m) < 255" using assms(2,3) by (simp_all add: word_less_nat_alt)
  note sim = assms(1) [unfolded counter_sim_def]
  show ?thesis
  proof (cases "cLimit m \<le> v")
    case True
    then have t: "unat (cLimit m) \<le> unat v" by (simp add: word_le_nat_alt)
    show ?thesis
    proof (cases "waiting p")
      case True
      then show ?thesis
        using \<open>cLimit m \<le> v\<close> t sim by (simp add: count_reading_def pulse_step_def counter_sim_def Let_def add.commute)
    next
      case False
      then have "unat (word_of_nat (high_run p) + 1 :: u8) = Suc (high_run p)" using sim lim by (intro u8_Suc) simp
      then have "cLimitHigh m < word_of_nat (high_run p) + 1 \<longleftrightarrow> unat (cLimitHigh m) < Suc (high_run p)"
        by (simp add: word_less_nat_alt)
      then show ?thesis
        using \<open>cLimit m \<le> v\<close> False t sim by (auto simp: count_reading_def pulse_step_def counter_sim_def Let_def add.commute)
    qed
  next
    case False
    then have t: "\<not> unat (cLimit m) \<le> unat v" by (simp add: word_le_nat_alt)
    show ?thesis
    proof (cases "waiting p")
      case True
      then have "unat (word_of_nat (low_run p) + 1 :: u8) = Suc (low_run p)" using sim lim by (intro u8_Suc) simp
      then have "cLimitDebounce m < word_of_nat (low_run p) + 1 \<longleftrightarrow> unat (cLimitDebounce m) < Suc (low_run p)"
        by (simp add: word_less_nat_alt)
      then show ?thesis
        using False True t sim by (auto simp: count_reading_def pulse_step_def counter_sim_def Let_def add.commute)
    next
      case False
      then show ?thesis
        using \<open>\<not> cLimit m \<le> v\<close> t sim by (simp add: count_reading_def pulse_step_def counter_sim_def Let_def add.commute)
    qed
  qed
qed


text \<open>The calls of one run of readings.\<close>

fun add_readings :: "int list \<Rightarrow> 'd monitor \<Rightarrow> 'd monitor option" where
  "add_readings [] m = Some m"
| "add_readings (a # as) m = do { m \<leftarrow> addADCValueToBuffer a m; add_readings as m }"

definition reading :: "int \<Rightarrow> nat" where
  "reading a = unat (word_of_int (drop_bit 2 a) :: u8)"

definition buffer_ok :: "'d monitor \<Rightarrow> bool" where
  "buffer_ok m \<longleftrightarrow> (\<exists>b. cABuffer m = Some b \<and> length b = unat (iABufferSize m)) \<and> iABufferPos m < iABufferSize m"

lemma counter_sim_buffer [simp]:
  "counter_sim (m\<lparr>cABuffer := b\<rparr>) p \<longleftrightarrow> counter_sim m p" "counter_sim (m\<lparr>iABufferPos := x\<rparr>) p \<longleftrightarrow> counter_sim m p"
  by (simp_all add: counter_sim_def)

lemma count_reading_buffer: "count_reading v (m\<lparr>cABuffer := b\<rparr>) = (count_reading v m)\<lparr>cABuffer := b\<rparr>"
  by (simp add: count_reading_def Let_def)

lemma addADCValueToBuffer_ok:
  assumes "buffer_ok m"
  shows "\<exists>b x. addADCValueToBuffer a m =
      Some ((count_reading (word_of_int (drop_bit 2 a)) m)\<lparr>cABuffer := Some b, iABufferPos := x\<rparr>) \<and>
    length b = unat (iABufferSize m) \<and> x < iABufferSize m"
proof -
  obtain b where b: "cABuffer m = Some b" "length b = unat (iABufferSize m)" using assms by (auto simp: buffer_ok_def)
  have p: "unat (iABufferPos m) < unat (iABufferSize m)" using assms by (simp add: buffer_ok_def word_less_nat_alt)
  then have sz: "0 < iABufferSize m" by (simp add: word_less_nat_alt)
  from p have "mem_put (unat (iABufferPos m)) [word_of_int (drop_bit 2 a)] b = Some (blit (unat (iABufferPos m)) [word_of_int (drop_bit 2 a)] b)"
    using b(2) by (intro mem_put_Some) simp
  then show ?thesis
    using b p sz by (intro exI [of _ "blit (unat (iABufferPos m)) [word_of_int (drop_bit 2 a)] b"]
        exI [of _ "if iABufferSize m \<le> iABufferPos m + 1 then 0 else iABufferPos m + 1"])
      (simp add: addADCValueToBuffer_def count_reading_buffer count_reading_frame Let_def not_le)
qed

lemma fold_addADCValueToBuffer:
  "fold (\<lambda>a m. Option.bind m (addADCValueToBuffer a)) as (Some m) = add_readings as m"
proof (induction as arbitrary: m)
  case (Cons a as)
  have "fold (\<lambda>a m. Option.bind m (addADCValueToBuffer a)) as None = None" by (induction as) simp_all
  then show ?case using Cons by (cases "addADCValueToBuffer a m") simp_all
qed simp

lemma add_readings_sim:
  assumes "buffer_ok m" "counter_sim m p" "cLimitHigh m < 255" "cLimitDebounce m < 255"
  shows "\<exists>m'. add_readings as m = Some m' \<and> buffer_ok m' \<and> limits m' = limits m \<and>
    counter_sim m' (foldl (pulse_step (unat (cLimit m)) (unat (cLimitHigh m)) (unat (cLimitDebounce m))) p (map reading as))"
  using assms
proof (induction as arbitrary: m p)
  case (Cons a as)
  let ?v = "word_of_int (drop_bit 2 a) :: u8"
  from addADCValueToBuffer_ok [OF Cons.prems(1), of a] obtain b x where
    1: "addADCValueToBuffer a m = Some ((count_reading ?v m)\<lparr>cABuffer := Some b, iABufferPos := x\<rparr>)" (is "_ = Some ?m")
      "length b = unat (iABufferSize m)" "x < iABufferSize m" by blast
  have l: "limits ?m = limits m" using count_reading_frame(1) [of ?v m] by (simp add: limits_def)
  then have l': "cLimit ?m = cLimit m" "cLimitHigh ?m = cLimitHigh m" "cLimitDebounce ?m = cLimitDebounce m"
    by (simp_all add: limits_def)
  have "buffer_ok ?m" using 1 by (simp add: buffer_ok_def count_reading_frame)
  moreover have "counter_sim ?m (pulse_step (unat (cLimit m)) (unat (cLimitHigh m)) (unat (cLimitDebounce m)) p (reading a))"
    using count_reading_sim [OF Cons.prems(2-4), of ?v] by (simp add: reading_def)
  ultimately show ?case
    using Cons.IH [of ?m] Cons.prems(3,4) 1(1) unfolding l' l by simp
qed simp

text \<open>Runs below and above the limit.\<close>

lemma pulse_step_low: "v < limit \<Longrightarrow> pulse_step limit high low p v =
    p\<lparr>high_run := 0, low_run := low_run p + 1, waiting := waiting p \<and> low_run p + 1 \<le> low\<rparr>"
  by (simp add: pulse_step_def)

lemma pulse_step_high: "limit \<le> v \<Longrightarrow> pulse_step limit high low p v =
    (if \<not> waiting p \<and> high_run p + 1 > high
     then p\<lparr>high_run := high_run p + 1, low_run := 0, waiting := True, pulses := pulses p + 1\<rparr>
     else p\<lparr>high_run := high_run p + 1, low_run := 0\<rparr>)"
  by (simp add: pulse_step_def)

lemma low_readings:
  "\<forall>v \<in> set vs. v < limit \<Longrightarrow> vs \<noteq> [] \<Longrightarrow> foldl (pulse_step limit high low) p vs =
    p\<lparr>high_run := 0, low_run := low_run p + length vs, waiting := waiting p \<and> low_run p + length vs \<le> low\<rparr>"
proof (induction vs arbitrary: p)
  case (Cons v vs)
  then show ?case by (cases "vs = []") (auto simp: pulse_step_low intro!: arg_cong2 [where f = "\<lambda>x y. p\<lparr>high_run := 0, low_run := x, waiting := y\<rparr>"])
qed simp

lemma high_readings_waiting:
  "\<forall>v \<in> set vs. limit \<le> v \<Longrightarrow> waiting p \<Longrightarrow> pulses (foldl (pulse_step limit high low) p vs) = pulses p"
  by (induction vs arbitrary: p) (simp_all add: pulse_step_high)

lemma high_readings:
  "\<forall>v \<in> set vs. limit \<le> v \<Longrightarrow> \<not> waiting p \<Longrightarrow> high_run p \<le> high \<Longrightarrow>
   pulses (foldl (pulse_step limit high low) p vs) = (if high_run p + length vs > high then pulses p + 1 else pulses p)"
proof (induction vs arbitrary: p)
  case (Cons v vs)
  show ?case
  proof (cases "high_run p + 1 > high")
    case True
    then show ?thesis
      using Cons.prems high_readings_waiting [of vs limit "p\<lparr>high_run := high_run p + 1, low_run := 0, waiting := True, pulses := pulses p + 1\<rparr>"]
      by (simp add: pulse_step_high)
  next
    case False
    then show ?thesis
      using Cons.prems Cons.IH [of "p\<lparr>high_run := high_run p + 1, low_run := 0\<rparr>"] by (simp add: pulse_step_high)
  qed
qed simp

lemma never_counts_at_255: "cLimitHigh m = 255 \<Longrightarrow> lPulses (count_reading v m) = lPulses m"
proof -
  assume "cLimitHigh m = 255"
  moreover have "\<not> (255 :: u8) < x" for x using unat_u8_less [of x] by (simp add: word_less_nat_alt)
  ultimately show ?thesis by (simp add: count_reading_def Let_def)
qed

lemma add_readings_never:
  assumes "buffer_ok m" "cLimitHigh m = 255"
  shows "\<exists>m'. add_readings as m = Some m' \<and> lPulses m' = lPulses m"
  using assms
proof (induction as arbitrary: m)
  case (Cons a as)
  let ?v = "word_of_int (drop_bit 2 a) :: u8"
  from addADCValueToBuffer_ok [OF Cons.prems(1), of a] obtain b x where
    1: "addADCValueToBuffer a m = Some ((count_reading ?v m)\<lparr>cABuffer := Some b, iABufferPos := x\<rparr>)" (is "_ = Some ?m")
      "length b = unat (iABufferSize m)" "x < iABufferSize m" by blast
  have "limits ?m = limits m" using count_reading_frame(1) [of ?v m] by (simp add: limits_def)
  then have "cLimitHigh ?m = 255" using Cons.prems(2) by (simp add: limits_def)
  moreover have "buffer_ok ?m" using 1 by (simp add: buffer_ok_def count_reading_frame)
  moreover have "lPulses ?m = lPulses m" using never_counts_at_255 [OF Cons.prems(2)] by simp
  ultimately show ?case using Cons.IH [of ?m] 1(1) by simp
qed simp

section \<open>The buffer is found\<close>

lemma adc_multiplier: "(10 + 20 * j) mod 256 \<noteq> (0 :: nat)"
proof
  assume "(10 + 20 * j) mod 256 = 0"
  then have "4 dvd 10 + 20 * j" using dvd_trans [of 4 256 "10 + 20 * j"] by auto
  then show False by presburger
qed

definition adc_mult :: "nat \<Rightarrow> u8" where
  "adc_mult j = word_of_nat (10 + 20 * j)"

lemma unat_adc_mult: "unat (adc_mult j) = (10 + 20 * j) mod 256"
  unfolding adc_mult_def by (subst unat_of_nat) simp

lemma adc_mult_steps: "adc_mult j \<noteq> 0" "adc_mult j + 20 = adc_mult (Suc j)" "adc_mult 0 = 10"
proof -
  show "adc_mult j \<noteq> 0" using unat_adc_mult [of j] adc_multiplier [of j] by (metis unat_0)
qed (simp_all add: adc_mult_def)

lemma adc_mult_less: "adc_mult j < 100 \<longleftrightarrow> (10 + 20 * j) mod 256 < 100"
  by (simp add: word_less_nat_alt unat_adc_mult)

definition adc_size :: "nat \<Rightarrow> nat \<Rightarrow> nat" where
  "adc_size heap j = min 255 (heap div ((10 + 20 * j) mod 256))"

lemma adc_turn: "adc_buffer_turn heap malloc_ok (adc_mult j) =
    Some (word_of_nat (adc_size heap j), if malloc_ok then Some (replicate (adc_size heap j) 0) else None,
      adc_mult (Suc j))"
proof -
  have s: "(if heap div ((10 + 20 * j) mod 256) > 255 then 255 else word_of_nat (heap div ((10 + 20 * j) mod 256)) :: u8) =
      word_of_nat (adc_size heap j)"
    by (simp add: adc_size_def min_def)
  have "unat (word_of_nat (adc_size heap j) :: u8) = adc_size heap j"
    by (simp add: adc_size_def unat_of_nat)
  then show ?thesis
    unfolding adc_buffer_turn_def Let_def unat_adc_mult s adc_mult_steps(2)
    by (simp add: adc_mult_steps(1) clear_alloc_def)
qed

lemma adc_buffer_loop_ends:
  assumes "malloc_ok i" "100 \<le> (30 + 20 * i) mod 256" "\<forall>j<i. malloc_ok j \<longrightarrow> (30 + 20 * j) mod 256 < 100"
    and "j \<le> i" "i < j + fuel" "buf = None \<or> (10 + 20 * j) mod 256 < 100"
  shows "adc_buffer_loop fuel heap malloc_ok j (sz, buf, adc_mult j) =
    Some (word_of_nat (adc_size (heap i) i), Some (replicate (adc_size (heap i) i) 0))"
  using assms(4-6)
proof (induction fuel arbitrary: j sz buf)
  case (Suc fuel)
  have m: "10 + 20 * Suc j = 30 + 20 * j" for j :: nat by simp
  let ?sz = "word_of_nat (adc_size (heap j) j) :: u8"
  let ?buf = "if malloc_ok j then Some (replicate (adc_size (heap j) j) (0 :: u8)) else None"
  have step: "adc_buffer_loop (Suc fuel) heap malloc_ok j (sz, buf, adc_mult j) =
      adc_buffer_loop fuel heap malloc_ok (Suc j) (?sz, ?buf, adc_mult (Suc j))"
    using Suc.prems(3) by (simp add: adc_turn adc_mult_less del: adc_buffer_loop.simps add: adc_buffer_loop.simps [of "Suc fuel"])
  show ?case
  proof (cases "j = i")
    case True
    then have "\<not> adc_mult (Suc j) < 100" using assms(2) unfolding adc_mult_less m by simp
    then show ?thesis unfolding step using True assms(1) by (simp add: adc_buffer_loop.simps)
  next
    case False
    then have "j < i" using Suc.prems(1) by simp
    then have "?buf = None \<or> (10 + 20 * Suc j) mod 256 < 100" using assms(3) unfolding m by auto
    then show ?thesis unfolding step using Suc.prems(2) \<open>j < i\<close> by (intro Suc.IH) simp_all
  qed
qed simp

lemma generateADCBuffer_ends:
  assumes "malloc_ok i" "100 \<le> (30 + 20 * i) mod 256" "\<forall>j<i. malloc_ok j \<longrightarrow> (30 + 20 * j) mod 256 < 100" "i < fuel"
  shows "generateADCBuffer fuel heap malloc_ok last_ok m = Some (m\<lparr>iABufferPos := 0,
      iABufferSize := word_of_nat (min 255 (heap i div ((10 + 20 * i) mod 256))),
      cABuffer := Some (replicate (min 255 (heap i div ((10 + 20 * i) mod 256))) 0)\<rparr>)"
  using adc_buffer_loop_ends [OF assms(1-3), of 0 fuel None heap "iABufferSize m"] assms(4)
  by (simp add: generateADCBuffer_def adc_mult_steps(3) adc_size_def)

lemma text_index_find: "text_index_of xs p = (case find_text xs p of None \<Rightarrow> - 1 | Some k \<Rightarrow> int k)" if "p \<noteq> []"
  using that by (cases xs) (simp_all add: text_index_of_def find_text_short)

lemma find_char:
  "find_text xs [c] = (if c \<in> set xs then Some (length (takeWhile (\<lambda>x. x \<noteq> c) xs)) else None)"
proof (induction xs)
  case (Cons x xs)
  then show ?case using find_text_Cons [of "[c]" xs x] by auto
qed (simp add: find_text_def)

lemma find_scheme: "find_text (str ''http://'' @ s) (str ''//'') = Some 5"
  by (simp add: str_def find_text_Cons)

lemma sub_from_none: "length s < 2 ^ 32 \<Longrightarrow> sub_from s (- 1) = []"
  by (simp add: sub_from_def text_substring_def unat_minus_1)

lemma push_server_scheme: "length s < 2 ^ 32 - 7 \<Longrightarrow> push_server (str ''http://'' @ s) = s"
proof -
  assume "length s < 2 ^ 32 - 7"
  then have "sub_from (str ''http://'' @ s) (int 7) = drop 7 (str ''http://'' @ s)"
    by (intro sub_from_nat) (simp_all add: str_def)
  moreover have "text_index_of (str ''http://'' @ s) (str ''//'') = 5"
    using find_scheme [of s] text_index_find [of "str ''//''" "str ''http://'' @ s"] by (simp add: str_def)
  ultimately show ?thesis by (simp add: push_server_def str_def)
qed

lemma push_parts:
  assumes "47 \<notin> set host" "length host + length path < 2 ^ 32 - 8"
  shows "push_host (str ''http://'' @ host @ 47 # path) = host" "push_path (str ''http://'' @ host @ 47 # path) = 47 # path"
    "push_host (str ''http://'' @ host) = host" "push_path (str ''http://'' @ host) = []"
proof -
  have "takeWhile (\<lambda>x. x \<noteq> 47) (host @ 47 # path) = host" using assms(1) by (subst takeWhile_append2) auto
  then have i: "text_index_of (host @ 47 # path) (str ''/'') = int (length host)"
    using text_index_find [of "str ''/''" "host @ 47 # path"] by (simp add: str_def find_char)
  have n: "text_index_of host (str ''/'') = - 1"
    using text_index_find [of "str ''/''" host] assms(1) by (simp add: str_def find_char)
  show "push_host (str ''http://'' @ host @ 47 # path) = host" "push_path (str ''http://'' @ host @ 47 # path) = 47 # path"
    using assms(2) push_server_scheme [of "host @ 47 # path"] sub_between_nat [of 0 "length host" "host @ 47 # path"]
      sub_from_nat [of "length host" "host @ 47 # path"]
    by (simp_all add: push_host_def push_path_def i)
  show "push_host (str ''http://'' @ host) = host" "push_path (str ''http://'' @ host) = []"
    using assms(2) push_server_scheme [of host] sub_between_end [of 0 host] sub_from_none [of host]
    by (simp_all add: push_host_def push_path_def n)
qed

lemma push_server_no_scheme:
  "text_index_of url (str ''//'') = - 1 \<Longrightarrow> url \<noteq> [] \<Longrightarrow> length url < 2 ^ 32 \<Longrightarrow> push_server url = tl url"
  using sub_from_nat [of 1 url] by (cases url) (simp_all add: push_server_def)

lemma ulong_text_decimal: "ulong_text w = Some (decimal (unat w))"
  using utoa_text [of 10 w] by (simp add: ulong_text_def ultoa_utoa butlast_append)

section \<open>Properties\<close>

text \<open>C6 (equivalence). With a high count and a debounce count below 255, the counter kept in three \<^verbatim>\<open>char\<close>
  variables counts what the specification with unbounded runs counts, over every sequence of readings; the
  readings stay inside the buffer and the limits are not touched.  The specification is the one of the code: a run counts
  when it is longer than the high count, and the next pulse waits for a run below the limit longer than the debounce
  count, so both take one reading more than the numbers of cycles the README describes.\<close>

theorem pulse_counter_counts_runs:
  assumes "buffer_ok m" "counter_sim m p" "cLimitHigh m < 255" "cLimitDebounce m < 255"
  shows "\<exists>m'. fold (\<lambda>a m. Option.bind m (addADCValueToBuffer a)) as (Some m) = Some m' \<and> buffer_ok m' \<and> limits m' = limits m \<and>
    counter_sim m' (foldl (pulse_step (unat (cLimit m)) (unat (cLimitHigh m)) (unat (cLimitDebounce m))) p (map reading as))"
  using add_readings_sim [OF assms] by (simp only: fold_addADCValueToBuffer)

text \<open>C7 (liveness). A pulse is counted, when high count and debounce count are below 255: whatever came before, more
  readings below the limit than the debounce count, followed by readings at or above it, add exactly one to the number of
  pulses when these are more than the high count, and none when they are as many or fewer.\<close>

theorem pulse_is_counted_once:
  assumes "buffer_ok m" "counter_sim m p" "cLimitHigh m < 255" "cLimitDebounce m < 255"
    and "\<forall>a \<in> set ls. reading a < unat (cLimit m)" "unat (cLimitDebounce m) < length ls"
    and "\<forall>a \<in> set hs. unat (cLimit m) \<le> reading a"
  shows "\<exists>m'. fold (\<lambda>a m. Option.bind m (addADCValueToBuffer a)) (ls @ hs) (Some m) = Some m' \<and>
    lPulses m' = lPulses m + (if unat (cLimitHigh m) < length hs then 1 else 0)"
proof -
  let ?step = "pulse_step (unat (cLimit m)) (unat (cLimitHigh m)) (unat (cLimitDebounce m))"
  let ?p = "foldl ?step p (map reading ls)"
  have "map reading ls \<noteq> []" "\<forall>v \<in> set (map reading ls). v < unat (cLimit m)" using assms(5,6) by auto
  note l = low_readings [OF this(2,1)]
  have "\<not> waiting ?p \<and> high_run ?p = 0 \<and> pulses ?p = pulses p" using l assms(6) by simp
  moreover have "\<forall>v \<in> set (map reading hs). unat (cLimit m) \<le> v" using assms(7) by simp
  ultimately have "pulses (foldl ?step ?p (map reading hs)) = (if unat (cLimitHigh m) < length hs then pulses p + 1 else pulses p)"
    using high_readings [of "map reading hs" "unat (cLimit m)" ?p] by simp
  then show ?thesis
    using add_readings_sim [OF assms(1-4), of "ls @ hs"] assms(2)
    by (auto simp: counter_sim_def fold_addADCValueToBuffer simp del: fold_append)
qed

text \<open>C34 (termination). The search for a buffer ends at the first allocation that succeeds while the multiplier, which
  runs through 30, 50, ... and wraps without ever being 0, is at least 100 afterwards: the buffer has the free heap
  divided by the multiplier, at most 255 bytes, all zero, and the one byte fallback is never reached.\<close>

theorem adc_buffer_is_generated:
  assumes "malloc_ok i" "100 \<le> (30 + 20 * i) mod 256" "\<forall>j<i. malloc_ok j \<longrightarrow> (30 + 20 * j) mod 256 < 100" "i < fuel"
  shows "generateADCBuffer fuel heap malloc_ok last_ok m = Some (m\<lparr>iABufferPos := 0,
      iABufferSize := word_of_nat (min 255 (heap i div ((10 + 20 * i) mod 256))),
      cABuffer := Some (replicate (min 255 (heap i div ((10 + 20 * i) mod 256))) 0)\<rparr>)"
  by (rule generateADCBuffer_ends [OF assms])

text \<open>The push timer measures time modulo \<^verbatim>\<open>2^32\<close> milliseconds and is right across the wrap of
  \<^verbatim>\<open>millis()\<close>: less than \<^verbatim>\<open>2^32\<close> milliseconds after the last connection, a push is attempted exactly when more
  than \<^verbatim>\<open>iPushFreq\<close> seconds have passed.\<close>

theorem push_interval:
  assumes "lLastConnectionTime m = word_of_nat t0" "t0 \<le> t" "t - t0 < 2 ^ 32" "0 \<le> iPushFreq m" "iPushFreq m \<le> 1000"
  shows "checkWhetherToPushData connected (word_of_nat t) later m =
    (if t - t0 > nat (iPushFreq m) * 1000 then pushDataToServer connected later m else Some ([], m))"
proof -
  have "(word_of_nat t :: u32) - word_of_nat t0 = word_of_nat (t - t0)" using assms(2) by (simp add: of_nat_diff)
  moreover have "unat (word_of_nat (t - t0) :: u32) = t - t0" using assms(3) by (intro unat_word_of_nat_u32) simp
  moreover have "to_s32 (iPushFreq m * 1000) = int (nat (iPushFreq m) * 1000)"
    unfolding to_s32_def using assms(4,5) sint_word_of_int_s32 [of "iPushFreq m * 1000"] by (simp add: s32_range_def)
  moreover have "unat (word_of_nat (nat (iPushFreq m) * 1000) :: u32) = nat (iPushFreq m) * 1000"
    using assms(4,5) by (intro unat_word_of_nat_u32) simp
  ultimately show ?thesis
    using assms(1) by (simp add: checkWhetherToPushData_def word_less_nat_alt del: of_nat_mult of_nat_diff)
qed

text \<open>For a push address with a scheme, a host and a path, the device connects to port 80 of the host,
  cut to 99 characters, and asks for the path with the argument set to the product of count and factor modulo
  \<^verbatim>\<open>2^32\<close>.  For an address without a path, such as the default one, it asks for nothing before the question
  mark.  The host named in the request is the same for every address.\<close>

theorem push_request:
  assumes "47 \<notin> set host" "length host + length path < 2 ^ 32 - 8"
    and "sPushURL m = str ''http://'' @ host @ (if has_path then 47 # path else [])"
  shows "pushDataToServer True later m = Some ([ClientStop, ClientConnect (take 99 host) 80,
      println (str ''GET '' @ (if has_path then 47 # path else []) @ str ''?'' @ sPushArg m @ str ''='' @
        decimal (unat (lPulses m * word_of_int (iPulseMultiFactor m))) @ str '' HTTP/1.1''),
      println (str ''Host: www.arduino.cc''), println (str ''User-Agent: ArduinoWiFi/1.1''),
      println (str ''Connection: close''), println []], m\<lparr>lLastConnectionTime := later\<rparr>)"
  using push_parts [OF assms(1,2)] assms(3)
  by (simp add: pushDataToServer_def ulong_text_decimal char_array_text_def)

section \<open>Examples\<close>

definition counting_monitor :: "(nat \<Rightarrow> u8) monitor" where
  "counting_monitor = factory_monitor\<lparr>cLimitHigh := 1, cLimitDebounce := 1, cABuffer := Some [0, 0, 0], iABufferSize := 3\<rparr>"

lemma counting_monitor_ok: "buffer_ok counting_monitor"
  "counter_sim counting_monitor \<lparr>high_run = 0, low_run = 0, waiting = False, pulses = 0\<rparr>"
  "cLimitHigh counting_monitor = 1" "cLimitDebounce counting_monitor = 1" "cLimit counting_monitor = 120" "lPulses counting_monitor = 0"
  "sPushURL counting_monitor = str ''http://192.168.1.101''" "sPushArg counting_monitor = str ''value''"
  "iPushFreq counting_monitor = 600" "iPulseMultiFactor counting_monitor = 5660"
  "lLastConnectionTime counting_monitor = 0"
  by (simp_all add: counting_monitor_def factory_monitor_def loadDefaultSettings_def buffer_ok_def counter_sim_def)

theorem pulse_counter_counts_runs_witness:
  "\<exists>m'. fold (\<lambda>a m. Option.bind m (addADCValueToBuffer a)) [600, 600, 600, 100, 600, 600] (Some counting_monitor) = Some m' \<and>
     lPulses m' = 1"
  using pulse_counter_counts_runs [OF counting_monitor_ok(1,2), of "[600, 600, 600, 100, 600, 600]"]
  by (simp add: counting_monitor_ok reading_def pulse_step_def counter_sim_def del: fold.simps) blast

text \<open>The high count is 1: two readings above the limit make a pulse, one does not.\<close>

theorem pulse_is_counted_once_witness:
  "(\<exists>m'. fold (\<lambda>a m. Option.bind m (addADCValueToBuffer a)) ([0, 100] @ [600, 1023]) (Some counting_monitor) = Some m' \<and>
     lPulses m' = 1) \<and>
   (\<exists>m'. fold (\<lambda>a m. Option.bind m (addADCValueToBuffer a)) ([0, 100] @ [600]) (Some counting_monitor) = Some m' \<and>
     lPulses m' = 0)"
  using pulse_is_counted_once [OF counting_monitor_ok(1,2), of "[0, 100]" "[600, 1023]"]
    pulse_is_counted_once [OF counting_monitor_ok(1,2), of "[0, 100]" "[600]"]
  by (simp add: counting_monitor_ok reading_def del: fold.simps)

theorem adc_buffer_is_generated_witness:
  "map_option iABufferSize (generateADCBuffer 5 (\<lambda>i. 18000) (\<lambda>i. True) False counting_monitor) = Some 200"
proof -
  have "(30 + 20 * j) mod 256 < 100" if "j < 4" for j :: nat using that by simp
  then show ?thesis using adc_buffer_is_generated [of "\<lambda>i. True" 4 5 "\<lambda>i. 18000" False counting_monitor] by simp
qed

theorem push_interval_witness:
  "checkWhetherToPushData True (word_of_nat (2 ^ 32 + 600000)) 0 (counting_monitor\<lparr>lLastConnectionTime := word_of_nat (2 ^ 32 - 1)\<rparr>) =
     pushDataToServer True 0 (counting_monitor\<lparr>lLastConnectionTime := word_of_nat (2 ^ 32 - 1)\<rparr>)"
  using push_interval [of "counting_monitor\<lparr>lLastConnectionTime := word_of_nat (2 ^ 32 - 1)\<rparr>" "2 ^ 32 - 1" "2 ^ 32 + 600000" True 0]
  by (simp add: counting_monitor_ok del: of_nat_diff)

theorem push_request_witness:
  "\<exists>r. pushDataToServer True 7 counting_monitor = Some (r, counting_monitor\<lparr>lLastConnectionTime := 7\<rparr>) \<and>
     r ! 1 = ClientConnect (str ''192.168.1.101'') 80 \<and> r ! 2 = println (str ''GET ?value=0 HTTP/1.1'')"
  using push_request [of "str ''192.168.1.101''" "[]" counting_monitor False 7]
  by (simp add: counting_monitor_ok str_def lsb_digits.simps [of 10] digit_byte_def digit_literal_def)

end
