(* ===== verification/MonitorWeb.thy ===== *)
theory MonitorWeb
  imports MonitorPulse
begin

text \<open>
  Connecting to a network (\<^verbatim>\<open>WiFiFunctions.ino\<close>) and the pages of the device (\<^verbatim>\<open>WebContent.ino\<close>).  A handler
  gets the request the web server has parsed and returns what the device does, and its new state.  \<open>None\<close> is
  undefined behaviour, such as the use of a settings block that was not allocated.
\<close>

section \<open>What the handlers get from outside\<close>

text \<open>Whether allocations succeed, the answers to the \<^verbatim>\<open>WiFi.status()\<close> queries, and what is on the stack behind
  \<^verbatim>\<open>cPlaceholder\<close> in \<^verbatim>\<open>saveSettings\<close>.\<close>

record surroundings =
  alloc_ok :: bool
  wifi_status :: "nat \<Rightarrow> bool"
  stack :: "u8 list"

section \<open>Connecting\<close>

text \<open>The wait of at most \<open>n\<close> more turns, from query \<open>i\<close> on, and the number of the query that follows the loop.\<close>

fun wifi_wait :: "(nat \<Rightarrow> bool) \<Rightarrow> nat \<Rightarrow> nat \<Rightarrow> action list \<times> nat" where
  "wifi_wait status i 0 = ([], Suc i)"
| "wifi_wait status i (Suc n) =
     (if status i then ([], Suc i)
      else let (acts, j) = wifi_wait status (Suc i) n in (Delay 500 # acts, j))"

definition connectToClientWiFi :: "surroundings \<Rightarrow> SETTINGS \<Rightarrow> action list" where
  "connectToClientWiFi env settings =
     (case wifi_wait (wifi_status env) 0 30 of
        (acts, i) \<Rightarrow> WiFiBegin (ssid settings) (password settings) # acts @
          (if wifi_status env i then [MdnsBegin (ssid settings)] else []))"

definition setupAPWiFi :: "SETTINGS \<Rightarrow> action list" where
  "setupAPWiFi settings = [WiFiSoftAP (ssid settings) (password settings)]"

definition connectToWiFi :: "surroundings \<Rightarrow> 'd eeprom \<Rightarrow> action list option" where
  "connectToWiFi env e = do {
     settingsAP \<leftarrow> getWiFiAPSettings (alloc_ok env) e;
     settingsClient \<leftarrow> getWiFiClientSettings (alloc_ok env) e;
     let useAP = (case settingsAP of Some s \<Rightarrow> if useWiFi s then Some s else None | None \<Rightarrow> None);
     let useClient = (case settingsClient of Some s \<Rightarrow> if useWiFi s then Some s else None | None \<Rightarrow> None);
     case (useAP, useClient) of
       (Some ap, Some cl) \<Rightarrow> Some (WiFiMode WIFI_AP_STA # setupAPWiFi ap @ connectToClientWiFi env cl)
     | (Some ap, None) \<Rightarrow> Some (WiFiMode WIFI_AP # setupAPWiFi ap)
     | (None, Some cl) \<Rightarrow> Some (WiFiMode WIFI_STA # connectToClientWiFi env cl)
     | (None, None) \<Rightarrow> do {
         settingsAP \<leftarrow> getDefaultWiFiAPSettings (alloc_ok env);
         Some (WiFiMode WIFI_AP # setupAPWiFi settingsAP) } }"

section \<open>Pages\<close>

text \<open>An empty title compares equal to \<^verbatim>\<open>NULL\<close>, and nothing is sent.\<close>

definition generatePage :: "int \<Rightarrow> u8 list \<Rightarrow> u8 list \<Rightarrow> u8 list \<Rightarrow> action list" where
  \<open>generatePage iRetCode strTitle strHeader strBuffer =
     (if strTitle = [] then []
      else let strOut = str ''<html><head>'' @ strHeader @
                 str ''<link rel="stylesheet" type="text/css" href="style.css"/><title>'' @ strTitle @
                 str ''</title></head><body><div id='main_outer'><div id='main_inner'>'';
               strOut = strOut @ strBuffer @ str ''</div></div></body></html>''
           in [HttpSend iRetCode (str ''text/html'') strOut])\<close>

text \<open>\<open>arrIn\<close> is the array from its pointer on; reading behind it is undefined.\<close>

fun json_items :: "u8 list \<Rightarrow> nat \<Rightarrow> u8 list option" where
  "json_items arrIn 0 = Some []"
| "json_items [] (Suc n) = None"
| "json_items (c # arrIn) (Suc n) = do {
     t \<leftarrow> int_text (uint c);
     r \<leftarrow> json_items arrIn n;
     Some (t @ (if n \<noteq> 0 then str '', '' else []) @ r) }"

definition generateJSONArray :: "int \<Rightarrow> u8 list \<Rightarrow> nat \<Rightarrow> action list option" where
  "generateJSONArray iRetCode arrIn iBufferSize = do {
     items \<leftarrow> json_items arrIn iBufferSize;
     Some [HttpSend iRetCode (str ''application/json'') (str ''['' @ items @ str '']'')] }"

definition generateCSS :: "action list" where
  \<open>generateCSS = [HttpSend 200 (str ''text/css'') (str (
     ''#chart_div,#main _outer,iframe{width:100%}body{background-color:#2eb82e;color:#fff}span{width:300px;'' @
     ''display:inline-block}iframe{border:.5px solid}fieldset{width:99%;border:0}input{width:400px;padding:'' @
     ''10px;border:1px solid #dcdcdc;transition:box-shadow .3s,border .3s}input.focus,input:focus{border:1p'' @
     ''x solid #707070;box-shadow:0 0 5px 1px #969696}#main_inner{width:100%;margin:0 auto}#chart_div{heigh'' @
     ''t:80%}''))]\<close>

definition generateScript :: "u8 list \<Rightarrow> action list" where
  "generateScript strIn = [HttpSend 200 (str ''text/javascript'') strIn]"

definition appendInputElement :: "u8 list \<Rightarrow> u8 list \<Rightarrow> u8 list \<Rightarrow> u8 list \<Rightarrow> u8 list \<Rightarrow> u8 list" where
  \<open>appendInputElement strIn strLabel strType strName strValue =
     strIn @ str ''<br/><span>'' @ strLabel @ str ''</span><input type="'' @ strType @ str ''" name="'' @ strName @
     str ''" value="'' @ strValue @ str ''"/>''\<close>

definition appendCheckboxElement :: "u8 list \<Rightarrow> u8 list \<Rightarrow> u8 list \<Rightarrow> u8 list \<Rightarrow> u8 list" where
  \<open>appendCheckboxElement strIn strLabel strName strValue =
     strIn @ str ''<br/><span>'' @ strLabel @ str ''</span><input type="checkbox" name="'' @ strName @
     str ''" value="1" '' @ strValue @ str ''>''\<close>

definition appendLink :: "u8 list \<Rightarrow> u8 list \<Rightarrow> u8 list \<Rightarrow> u8 list" where
  \<open>appendLink strIn strLabel strLink = strIn @ str ''<br/><a href="'' @ strLink @ str ''">'' @ strLabel @ str ''</a>''\<close>

definition appendScript :: "u8 list \<Rightarrow> u8 list \<Rightarrow> u8 list" where
  \<open>appendScript strIn strSource = strIn @ str ''<script type="text/javascript" src="'' @ strSource @ str ''"></script>''\<close>

definition appendElement :: "u8 list \<Rightarrow> u8 list \<Rightarrow> u8 list" where
  "appendElement strIn strElement = strIn @ strElement"

abbreviation checked :: "bool \<Rightarrow> u8 list" where
  "checked b \<equiv> (if b then str ''checked'' else [])"

text \<open>The line above a form after its settings were changed.\<close>

definition updated_message :: "u8 list" where
  \<open>updated_message = str ''<label style="color:#FF0000">Updated settings.</label>''\<close>

text \<open>\<^verbatim>\<open>char cStrOut[1024]\<close> holds 1023 characters of a page.\<close>

definition page_buffer :: "u8 list \<Rightarrow> u8 list" where
  "page_buffer strOut = char_array_text 1024 strOut"

section \<open>Handlers\<close>

definition handleRoot :: "'d monitor \<Rightarrow> action list option" where
  \<open>handleRoot m = do {
     n \<leftarrow> ulong_text (lPulses m);
     u \<leftarrow> ulong_text (lPulses m * word_of_int (iPulseMultiFactor m));
     let strOut = str ''<label class='indexLbl'><h5>Total Pulses: '' @ n @
       str ''</label><br/><label class='indexLbl'>Calculated Usage: '' @ u @
       str ''</label><br/><br/><a href="graph.html">View ADC Graph</a><br/><a href="settings.html">Settings</a></h5>'';
     Some (generatePage 200 (str ''Home'') [] (page_buffer strOut)) }\<close>

definition handleConnect :: "surroundings \<Rightarrow> 'd monitor \<Rightarrow> action list option" where
  \<open>handleConnect env m = do {
     settings \<leftarrow> getWiFiClientSettings (alloc_ok env) (eeprom m);
     Some (case settings of
       Some s \<Rightarrow>
         generatePage 200 (str ''Connecting'') [] (page_buffer (str ''Connecting to WiFi client AP with SSID '' @ [39] @ ssid s @
           [39] @ str ''...<br/><br/><a href="/">Home</a>'')) @ connectToClientWiFi env s
     | None \<Rightarrow>
         generatePage 200 (str ''Connecting'') []
           (page_buffer (str ''There are no valid WiFi Client settings in memory.<br/><br/><a href="/">Home</a>''))) }\<close>

text \<open>The settings a form shows: those in the EEPROM, or new ones.\<close>

definition shown_settings :: "bool \<Rightarrow> SETTINGS option \<Rightarrow> SETTINGS option" where
  "shown_settings malloc_ok settings = (case settings of Some s \<Rightarrow> Some s | None \<Rightarrow> generateNewSettings malloc_ok)"

definition wifi_post :: "'d sdk \<Rightarrow> surroundings \<Rightarrow> bool \<Rightarrow> args \<Rightarrow> 'd monitor \<Rightarrow> (action list \<times> u8 list \<times> 'd monitor) option" where
  "wifi_post k env post as m =
     (if post
      then do {
        (changed, m) \<leftarrow> updateWiFiSettings k as m;
        acts \<leftarrow> (if changed then connectToWiFi env (eeprom m) else Some []);
        Some (acts, updated_message, m) }
      else Some ([], [], m))"

definition client_form :: "u8 list \<Rightarrow> SETTINGS \<Rightarrow> u8 list" where
  \<open>client_form strMessage s =
     (let strOut = appendElement [] (str ''<h5>'');
          strOut = appendElement strOut strMessage;
          strOut = appendElement strOut (str ''<form method="POST">'');
          strOut = appendElement strOut (str ''<fieldset>'');
          strOut = appendInputElement strOut (str ''Client SSID:'') (str ''text'') (str ''cs'') (ssid s);
          strOut = appendInputElement strOut (str ''Client Password:'') (str ''password'') (str ''cp'') (password s);
          strOut = appendCheckboxElement strOut (str ''Client Mode Active'') (str ''ce'') (checked (useWiFi s));
          strOut = appendElement strOut (str ''</fieldset>'');
          strOut = appendInputElement strOut [] (str ''submit'') (str ''su'') (str ''Update'');
          strOut = appendElement strOut (str ''</form>'');
          strOut = appendLink strOut (str ''Connect to WiFi'') (str ''connect.html'')
      in appendElement strOut (str ''</h5>''))\<close>

definition handleWiFiClientSettings ::
    "'d sdk \<Rightarrow> surroundings \<Rightarrow> bool \<Rightarrow> args \<Rightarrow> 'd monitor \<Rightarrow> (action list \<times> 'd monitor) option" where
  "handleWiFiClientSettings k env post as m = do {
     (acts, strMessage, m) \<leftarrow> wifi_post k env post as m;
     settingsClient \<leftarrow> getWiFiClientSettings (alloc_ok env) (eeprom m);
     s \<leftarrow> shown_settings (alloc_ok env) settingsClient;
     Some (acts @ generatePage 200 (str ''Settings'') [] (page_buffer (client_form strMessage s)), m) }"

definition ap_form :: "u8 list \<Rightarrow> SETTINGS \<Rightarrow> u8 list" where
  \<open>ap_form strMessage s =
     (let strOut = appendElement [] (str ''<h5>'');
          strOut = appendElement strOut strMessage;
          strOut = appendElement strOut (str ''<form method="POST">'');
          strOut = appendElement strOut (str ''<fieldset>'');
          strOut = appendInputElement strOut (str ''Access Point SSID:'') (str ''text'') (str ''as'') (ssid s);
          strOut = appendInputElement strOut (str ''Access Point Password:'') (str ''password'') (str ''ap'') (password s);
          strOut = appendCheckboxElement strOut (str ''Access Point Mode Active'') (str ''ae'') (checked (useWiFi s));
          strOut = appendElement strOut (str ''</fieldset>'');
          strOut = appendInputElement strOut [] (str ''submit'') (str ''su'') (str ''Update'');
          strOut = appendElement strOut (str ''</form>'')
      in appendElement strOut (str ''</h5>''))\<close>

definition handleWiFiAPSettings ::
    "'d sdk \<Rightarrow> surroundings \<Rightarrow> bool \<Rightarrow> args \<Rightarrow> 'd monitor \<Rightarrow> (action list \<times> 'd monitor) option" where
  "handleWiFiAPSettings k env post as m = do {
     (acts, strMessage, m) \<leftarrow> wifi_post k env post as m;
     settingsAP \<leftarrow> getWiFiAPSettings (alloc_ok env) (eeprom m);
     s \<leftarrow> shown_settings (alloc_ok env) settingsAP;
     Some (acts @ generatePage 200 (str ''Settings'') [] (page_buffer (ap_form strMessage s)), m) }"

definition general_form :: "u8 list \<Rightarrow> 'd monitor \<Rightarrow> u8 list option" where
  \<open>general_form strMessage m = do {
     let strOut = appendElement [] (str ''<h5>'');
     let strOut = appendElement strOut strMessage;
     let strOut = appendElement strOut (str ''<form method="POST">'');
     let strOut = appendElement strOut (str ''<fieldset>'');
     let strOut = appendCheckboxElement strOut (str ''Power monitoring Active'') (str ''pm'') (checked (bPowerMonEnabled m));
     let strOut = appendCheckboxElement strOut (str ''Pulse Light'') (str ''pl'') (checked (bPulseLight m));
     let strOut = appendElement strOut (str ''<br/>'');
     t \<leftarrow> int_text (uint (cPulseFreq m));
     let strOut = appendInputElement strOut (str ''Measurement Frequency'') (str ''text'') (str ''pt'') t;
     let strOut = appendElement strOut (str ''<br/>'');
     t \<leftarrow> int_text (uint (cLimit m));
     let strOut = appendInputElement strOut (str ''ADC Limit'') (str ''text'') (str ''ad'') t;
     t \<leftarrow> int_text (uint (cLimitHigh m));
     let strOut = appendInputElement strOut (str ''ADC High Count'') (str ''text'') (str ''ah'') t;
     t \<leftarrow> int_text (uint (cLimitDebounce m));
     let strOut = appendInputElement strOut (str ''ADC High Debounce'') (str ''text'') (str ''ai'') t;
     let strOut = appendElement strOut (str ''<br/>'');
     t \<leftarrow> int_text (iPulseMultiFactor m);
     let strOut = appendInputElement strOut (str ''Pulse multiplication factor'') (str ''text'') (str ''pc'') t;
     let strOut = appendInputElement strOut (str ''Push Data(URL)'') (str ''text'') (str ''pu'') (sPushURL m);
     let strOut = appendInputElement strOut (str ''Push Argument'') (str ''text'') (str ''pa'') (sPushArg m);
     let strOut = appendElement strOut (str ''<br/>'');
     t \<leftarrow> int_text (iPushFreq m);
     let strOut = appendInputElement strOut (str ''Push Frequency'') (str ''text'') (str ''pf'') t;
     let strOut = appendElement strOut (str ''</fieldset>'');
     let strOut = appendInputElement strOut [] (str ''submit'') (str ''sv'') (str ''Update'');
     let strOut = appendElement strOut (str ''</form>'');
     Some (appendElement strOut (str ''</h5>'')) }\<close>

definition general_post :: "'d sdk \<Rightarrow> surroundings \<Rightarrow> bool \<Rightarrow> args \<Rightarrow> 'd monitor \<Rightarrow> (u8 list \<times> 'd monitor) option" where
  "general_post k env post as m =
     (if post
      then do {
        (changed, m) \<leftarrow> updateWiFiSettings k as m;
        m \<leftarrow> updateGeneralSettings as m;
        m \<leftarrow> saveSettings k (stack env) m;
        Some (updated_message, m) }
      else Some ([], m))"

definition handleGeneralSettings ::
    "'d sdk \<Rightarrow> surroundings \<Rightarrow> bool \<Rightarrow> args \<Rightarrow> 'd monitor \<Rightarrow> (action list \<times> 'd monitor) option" where
  "handleGeneralSettings k env post as m = do {
     (strMessage, m) \<leftarrow> general_post k env post as m;
     m \<leftarrow> loadSettings m;
     strOut \<leftarrow> general_form strMessage m;
     Some (generatePage 200 (str ''Settings'') [] (page_buffer strOut), m) }"

definition handleSettings :: "action list" where
  \<open>handleSettings =
     (let strOut = appendElement [] (str (
            ''<iframe src="client.html" scrolling="yes" id="csi" onload="javascript:resizeFrame(this)"></iframe><b'' @
            ''r/><iframe src="ap.html" scrolling="yes" id="asi" onload="javascript:resizeFrame(this)"></iframe><br'' @
            ''/><iframe src="general.html" scrolling="yes" id="gsi" onload="javascript:resizeFrame(this)"></iframe'' @
            ''><br/>''));
          strHeader = appendScript [] (str ''https://ajax.googleapis.com/ajax/libs/jquery/2.1.3/jquery.min.js'');
          strHeader = appendScript strHeader (str ''general.js'')
      in generatePage 200 (str ''Settings'') strHeader (page_buffer strOut))\<close>

definition handleGraph :: "action list" where
  \<open>handleGraph =
     (let strOut = appendElement [] (str ''Raw Values<div id="chart_div"></div>'');
          strHeader = appendScript [] (str ''https://ajax.googleapis.com/ajax/libs/jquery/2.1.3/jquery.min.js'');
          strHeader = appendScript strHeader (str ''https://www.google.com/jsapi'');
          strHeader = appendScript strHeader (str ''graph.js'')
      in generatePage 200 (str ''Graph'') strHeader (page_buffer strOut))\<close>

definition handleGraphScript :: "action list" where
  \<open>handleGraphScript = generateScript (str (
     ''function updateGraph(){$.ajax({url:"values.json",success:function(a){drawGraph(organiseData(a))},com'' @
     ''plete:function(){setTimeout(updateGraph,1e3)}})}function organiseData(a){var e,n;for(e=new Array,n=0'' @
     '';n<a.length;n++)e[n]=new Array,e[n][0]=n,e[n][1]=a[n];return e}function drawGraph(a){var e=new googl'' @
     ''e.visualization.DataTable;e.addColumn("number","X"),e.addColumn("number","Value"),e.addRows(a);var n'' @
     ''={hAxis:{title:"Time"},vAxis:{title:"Value"}},t=new google.visualization.LineChart(document.getEleme'' @
     ''ntById("chart_div"));t.draw(e,n)}function resizeFrame(a){a.style.height=a.contentWindow.document.bod'' @
     ''y.scrollHeight+"px"}google.load("visualization","1",{packages:["corechart","line"]}),google.setOnLoa'' @
     ''dCallback(function(){$(function(){updateGraph()})});''))\<close>

definition handleGeneralScript :: "action list" where
  \<open>handleGeneralScript = generateScript (str
     ''function resizeFrame(e){e.style.height=(e.contentWindow.document.body.scrollHeight+100)+"px"}'')\<close>

definition handleValues :: "'d monitor \<Rightarrow> action list option" where
  "handleValues m = do { b \<leftarrow> cABuffer m; generateJSONArray 200 b (unat (iABufferSize m)) }"

definition handleCSSRequest :: "action list" where
  "handleCSSRequest = generateCSS"

definition handleNotFound :: "u8 list \<Rightarrow> action list" where
  \<open>handleNotFound uri =
     generatePage 404 (str ''File not Found'') []
       (page_buffer (str ''<h3>File not Found</h3><br/><h5>The file '' @ [39] @ uri @ [39] @
          str '' cannot be found on the server.</h5>''))\<close>

section \<open>The general form fits\<close>

text \<open>Numbers read from a text of \<open>n\<close> characters print in at most \<open>n\<close> characters.\<close>

definition number_fits :: "nat \<Rightarrow> int \<Rightarrow> bool" where
  "number_fits n v \<longleftrightarrow> - (10 ^ (n - 1)) < v \<and> v < 10 ^ n"

lemma uint_less_power: "unat (r :: u32) < 10 ^ k \<Longrightarrow> uint r < 10 ^ k"
proof -
  assume "unat r < 10 ^ k"
  then have "int (unat r) < int (10 ^ k)" by (simp only: of_nat_less_iff)
  then show ?thesis by (simp only: uint_nat of_nat_power of_nat_numeral)
qed

lemma number_fits_uint: "unat (r :: u32) < 10 ^ n \<Longrightarrow> number_fits n (uint r)"
  "unat r < 10 ^ (n - 1) \<Longrightarrow> number_fits n (- uint r)"
proof -
  have "0 \<le> uint r" "(0 :: int) < 10 ^ (n - 1)" "(0 :: int) < 10 ^ n" by simp_all
  then show "unat r < 10 ^ n \<Longrightarrow> number_fits n (uint r)" "unat r < 10 ^ (n - 1) \<Longrightarrow> number_fits n (- uint r)"
    unfolding number_fits_def using uint_less_power [of r n] uint_less_power [of r "n - 1"] by linarith+
qed

lemma strtol_digits_bound:
  "strtol_digits 10 (xs @ [0]) r = Some (v, e) \<Longrightarrow> unat r < 10 ^ i \<Longrightarrow> i + length xs \<le> 9 \<Longrightarrow> unat v < 10 ^ (i + length xs)"
proof (induction xs arbitrary: r i)
  case (Cons c xs)
  have i: "10 ^ i \<le> (10 :: nat) ^ (i + length (c # xs))" by (intro power_increasing) simp_all
  show ?case
  proof (cases "c = 0 \<or> uint c < 48 \<or> uint c > 57")
    case True
    then have "v = r" using Cons.prems(1) by (auto simp: Let_def split: if_splits)
    then show ?thesis using Cons.prems(2) i by simp
  next
    case False
    have p: "(10 :: nat) ^ i \<le> 10 ^ 8" using Cons.prems(3) by (intro power_increasing) simp_all
    define d where "d = nat (uint c - 48)"
    have d: "uint c = 48 + int d" "d < 10" using False unfolding d_def by linarith+
    let ?r = "r * 10 + word_of_nat d"
    have "?r = word_of_nat (unat r * 10 + d)" by simp
    moreover have "unat r * 10 + d < 10 ^ Suc i" using Cons.prems(2) d(2) by simp
    moreover have "(10 :: nat) ^ Suc i \<le> 10 ^ 9" using Cons.prems(3) by (intro power_increasing) simp_all
    ultimately have "unat ?r < 10 ^ Suc i" using unat_word_of_nat_u32 [of "unat r * 10 + d"] by simp
    moreover have "strtol_digits 10 (xs @ [0]) ?r = Some (v, e)" using Cons.prems(1) False d by (simp add: Let_def)
    ultimately show ?thesis using Cons.IH [of ?r "Suc i"] Cons.prems(3) by simp
  qed
qed simp

lemma skip_space_suffix: "skip_space (xs @ [0]) = Some s \<Longrightarrow> \<exists>ys. s = ys @ [0] \<and> length ys \<le> length xs"
proof (induction xs)
  case (Cons c xs)
  show ?case
  proof (cases "isspace (uint c)")
    case True
    then show ?thesis using Cons by fastforce
  next
    case False
    then show ?thesis using Cons.prems by (intro exI [of _ "c # xs"]) simp
  qed
qed (simp add: isspace_def)

lemma text_int_fits:
  assumes "text_int xs = Some v" "length xs \<le> n" "0 < n" "n \<le> 9"
  shows "number_fits n v"
proof -
  obtain s where "skip_space (xs @ [0]) = Some s"
    using assms(1) by (auto simp: text_int_def atol_def strtol_def split: Option.bind_splits)
  moreover from skip_space_suffix [OF this] obtain ys where ys: "s = ys @ [0]" "length ys \<le> length xs" by blast
  ultimately have sk: "skip_space (xs @ [0]) = Some (ys @ [0])" by simp
  have small: "sint r = int (unat r)" "sint (- r) = - int (unat r)" if "unat r < 10 ^ 9" for r :: u32
  proof -
    have r: "r = word_of_nat (unat r)" by simp
    have u: "uint r < 10 ^ 9" by (rule uint_less_power [OF that])
    have "0 \<le> uint r" by simp
    then have u0: "- uint r < 2147483648" by linarith
    show "sint r = int (unat r)" using sint_small [of "unat r"] that r by simp
    show "sint (- r) = - int (unat r)"
      using sint_word_of_int_s32 [of "- uint r"] u u0 by (simp add: s32_range_def)
  qed
  have bound: "unat r < 10 ^ length zs \<and> unat r < 10 ^ 9"
    if "strtol_digits 10 (zs @ [0]) 0 = Some (r, e)" "length zs \<le> n" for zs r e
  proof -
    have "unat r < 10 ^ length zs" using strtol_digits_bound [OF that(1), of 0] that(2) assms(4) by simp
    moreover have "(10 :: nat) ^ length zs \<le> 10 ^ 9" using that(2) assms(4) by (intro power_increasing) simp_all
    ultimately show ?thesis by simp
  qed
  show ?thesis
  proof (cases ys)
    case Nil
    then show ?thesis using assms(1,3) sk by (simp add: text_int_def atol_def strtol_def number_fits_def)
  next
    case (Cons c cs)
    have a: "do { (v, e) \<leftarrow> strtol (xs @ [0]) 10; Some v } = Some v"
      using assms(1) by (simp add: text_int_def atol_def)
    have len: "length cs \<le> n - 1" "length ys \<le> n" using ys(2) assms(2) Cons by simp_all
    have pw: "10 ^ length cs \<le> (10 :: nat) ^ (n - 1)" "10 ^ length cs \<le> (10 :: nat) ^ n" "10 ^ length ys \<le> (10 :: nat) ^ n"
      using len by (auto intro!: power_increasing)
    consider (z) "c = 0" | (m) "c = 45" | (p) "c = 43" | (d) "c \<noteq> 0" "c \<noteq> 45" "c \<noteq> 43" by blast
    then show ?thesis
    proof cases
      case z
      then show ?thesis using a sk Cons by (simp add: strtol_def number_fits_def)
    next
      case m
      then obtain r e where r: "strtol_digits 10 (cs @ [0]) 0 = Some (r, e)" "v = sint (- r)"
        using a sk Cons by (auto simp: strtol_def split: Option.bind_splits)
      have "length cs \<le> n" using len(1) by simp
      from bound [OF r(1) this] have "unat r < 10 ^ (n - 1)" "unat r < 10 ^ 9" using less_le_trans [OF _ pw(1)] by blast+
      then show ?thesis using r(2) small(2) [of r]number_fits_uint [of r n] by simp
    next
      case p
      then obtain r e where r: "strtol_digits 10 (cs @ [0]) 0 = Some (r, e)" "v = sint r"
        using a sk Cons by (auto simp: strtol_def split: Option.bind_splits)
      have "length cs \<le> n" using len(1) by simp
      from bound [OF r(1) this] have "unat r < 10 ^ n" "unat r < 10 ^ 9" using less_le_trans [OF _ pw(2)] by blast+
      then show ?thesis using r(2) small(1) [of r]number_fits_uint [of r n] by simp
    next
      case d
      then obtain r e where r: "strtol_digits 10 (ys @ [0]) 0 = Some (r, e)" "v = sint r"
        using a sk Cons by (auto simp: strtol_def split: Option.bind_splits)
      from bound [OF r(1) len(2)] have "unat r < 10 ^ n" "unat r < 10 ^ 9" using less_le_trans [OF _ pw(3)] by blast+
      then show ?thesis using r(2) small(1) [of r]number_fits_uint [of r n] by simp
    qed
  qed
qed

lemma int_text_fits:
  assumes "number_fits n v" "0 < n" "n \<le> 9"
  shows "\<exists>t. int_text v = Some t \<and> length t \<le> n"
proof -
  have "(10 :: int) ^ (n - 1) \<le> 10 ^ 8" using assms(3) by (intro power_increasing) simp_all
  then have "v \<noteq> - (2 ^ 31)" using assms(1) by (auto simp: number_fits_def)
  then have t: "int_text v = Some ((if v < 0 then [45] else []) @ decimal (nat \<bar>v\<bar>))"
    using itoa_text [of 10 v] by (simp add: int_text_def butlast_append)
  show ?thesis
  proof (cases "v < 0")
    case True
    have "nat \<bar>v\<bar> < 10 ^ (n - 1)" using assms(1) True by (simp add: number_fits_def nat_less_iff)
    moreover have "0 < n - 1"
    proof (rule ccontr)
      assume "\<not> 0 < n - 1"
      then show False using calculation True by simp
    qed
    ultimately show ?thesis using t True lsb_digits_length [of 10 "n - 1" "nat \<bar>v\<bar>"] by simp
  next
    case False
    have "nat \<bar>v\<bar> < 10 ^ n" using assms(1) False by (simp add: number_fits_def nat_less_iff)
    then show ?thesis using t False lsb_digits_length [of 10 n "nat \<bar>v\<bar>"] assms(2) by simp
  qed
qed

lemma number_fits_div: "number_fits (Suc n) v \<Longrightarrow> 0 < n \<Longrightarrow> number_fits n (c_div v 10)"
proof -
  assume a: "number_fits (Suc n) v" "0 < n"
  then obtain j where n: "n = Suc j" by (cases n) auto
  have "- (10 * 10 ^ j) < v" "v < 10 * 10 ^ n" using a(1) by (simp_all add: number_fits_def n)
  moreover have "(0 :: int) < 10 ^ j" "(0 :: int) < 10 ^ n" by simp_all
  moreover have "c_div v 10 = (if v < 0 then - ((- v) div 10) else v div 10)" by (auto simp: c_div_def sgn_if)
  ultimately show ?thesis unfolding number_fits_def n by (simp, linarith)
qed

lemma number_fits_char: "number_fits 3 (uint (c :: u8))"
proof -
  have "0 \<le> uint c" "uint c < 256" using unsigned_less [of c] by simp_all
  then have "- 100 < uint c" "uint c < 1000" by linarith+
  then show ?thesis by (simp add: number_fits_def)
qed

text \<open>Any text is read as a number.\<close>

lemma text_int_total: "\<exists>v. text_int xs = Some v"
proof -
  have sk: "\<exists>ys. skip_space (xs @ [0]) = Some (ys @ [0])" for xs
  proof (induction xs)
    case (Cons c xs)
    then show ?case by (cases "isspace (uint c)") (auto intro: exI [of _ "c # xs"])
  qed (simp add: isspace_def)
  have dg: "\<exists>r. strtol_digits 10 (ys @ [0]) a = Some r" for ys a
    by (induction ys arbitrary: a) (auto simp: Let_def)
  obtain ys where ys: "skip_space (xs @ [0]) = Some (ys @ [0])" using sk by blast
  obtain r1 e1 where "strtol_digits 10 (tl ys @ [0]) 0 = Some (r1, e1)" using dg [of "tl ys" 0] by auto
  moreover obtain r2 e2 where "strtol_digits 10 (ys @ [0]) 0 = Some (r2, e2)" using dg [of ys 0] by auto
  ultimately show ?thesis
    using ys by (cases ys) (auto simp: text_int_def atol_def strtol_def)
qed

context spi_chip
begin

lemma readString_bound:
  "ee_ok view e \<Longrightarrow> unat a + unat n \<le> ee_size e \<Longrightarrow> 0 < n \<Longrightarrow> \<exists>s. readString e a n = Some s \<and> length s \<le> unat n"
proof -
  assume a: "ee_ok view e" "unat a + unat n \<le> ee_size e" "0 < n"
  have "length (slice (unat a) (unat n) (ee_bytes e)) = unat n" using a(2) ee_ok_bytes [OF a(1)] by simp
  then show ?thesis
    unfolding readString_bytes [OF a] using length_takeWhile_le [of "\<lambda>c. c \<noteq> 0" "slice (unat a) (unat n) (ee_bytes e)"] by auto
qed

lemma readInt_bound:
  assumes "ee_ok view e" "unat a + 6 \<le> ee_size e"
  shows "\<exists>v. readInt e a = Some v \<and> number_fits 6 v"
proof -
  obtain s where s: "readString e a 6 = Some s" "length s \<le> 6" using readString_bound [OF assms(1), of a 6] assms(2) by auto
  obtain v where v: "text_int s = Some v" using text_int_total by blast
  have "number_fits 6 v" using text_int_fits [OF v s(2)] by simp
  moreover have "number_fits 6 0" by (simp add: number_fits_def)
  ultimately show ?thesis using s v by (auto simp: readInt_def)
qed

lemma loadSettings_bound:
  assumes "ee_ok view (eeprom m)" "ee_size (eeprom m) = 200"
  shows "\<exists>m'. loadSettings m = Some m' \<and> eeprom m' = eeprom m \<and> number_fits 5 (iPulseMultiFactor m') \<and>
    number_fits 6 (iPushFreq m') \<and> length (sPushURL m') \<le> 40 \<and> length (sPushArg m') \<le> 10"
proof -
  note rs = readString_bound [OF assms(1)]
  obtain p1 where 1: "readString (eeprom m) 67 2 = Some p1" using rs [of 67 2] assms(2) by auto
  obtain p2 where 2: "readString (eeprom m) 75 2 = Some p2" using rs [of 75 2] assms(2) by auto
  obtain p3 where 3: "readString (eeprom m) 77 2 = Some p3" using rs [of 77 2] assms(2) by auto
  obtain p4 where 4: "readString (eeprom m) 79 2 = Some p4" using rs [of 79 2] assms(2) by auto
  obtain u where u: "readString (eeprom m) 81 40 = Some u" "length u \<le> 40" using rs [of 81 40] assms(2) by auto
  obtain a where a: "readString (eeprom m) 121 10 = Some a" "length a \<le> 10" using rs [of 121 10] assms(2) by auto
  obtain f where f: "readInt (eeprom m) 69 = Some f" "number_fits 6 f" using readInt_bound [OF assms(1), of 69] assms(2) by auto
  obtain g where g: "readInt (eeprom m) 131 = Some g" "number_fits 6 g" using readInt_bound [OF assms(1), of 131] assms(2) by auto
  have "number_fits 5 (c_div f 10)" using number_fits_div [of 5 f] f(2) by simp
  then show ?thesis using 1 2 3 4 u a f g by (simp add: loadSettings_def)
qed

end

lemma general_form_fits:
  assumes "number_fits 5 (iPulseMultiFactor m)" "number_fits 6 (iPushFreq m)" "length (sPushURL m) \<le> 40"
    "length (sPushArg m) \<le> 10"
  shows "\<exists>u. general_form msg m = Some (appendElement u (str ''</h5>'')) \<and> length u \<le> 967 + length msg"
proof -
  note ch = int_text_fits [OF number_fits_char]
  obtain t1 where 1: "int_text (uint (cPulseFreq m)) = Some t1" "length t1 \<le> 3" using ch by fastforce
  obtain t2 where 2: "int_text (uint (cLimit m)) = Some t2" "length t2 \<le> 3" using ch by fastforce
  obtain t3 where 3: "int_text (uint (cLimitHigh m)) = Some t3" "length t3 \<le> 3" using ch by fastforce
  obtain t4 where 4: "int_text (uint (cLimitDebounce m)) = Some t4" "length t4 \<le> 3" using ch by fastforce
  obtain t5 where 5: "int_text (iPulseMultiFactor m) = Some t5" "length t5 \<le> 5" using int_text_fits [OF assms(1)] by auto
  obtain t6 where 6: "int_text (iPushFreq m) = Some t6" "length t6 \<le> 6" using int_text_fits [OF assms(2)] by auto
  show ?thesis
    by (rule exI, rule conjI,
        (unfold general_form_def 1(1) 2(1) 3(1) 4(1) 5(1) 6(1) Let_def Option.bind.bind_lunit, rule refl),
        use 1(2) 2(2) 3(2) 4(2) 5(2) 6(2) assms(3,4) in
          \<open>simp add: appendElement_def appendInputElement_def appendCheckboxElement_def str_def\<close>)
qed

section \<open>Properties\<close>

text \<open>C31 (bounds). The general form fits its 1024 byte buffer whatever the EEPROM holds: the settings are always read,
  the form built from them is sent whole, and with the message after a change at most the end of the last
  closing tag is cut off, no field.\<close>

theorem general_page_fits:
  assumes "spi_chip k view" "ee_ok view (eeprom m)" "ee_size (eeprom m) = 200"
  shows "\<exists>m' t u. loadSettings m = Some m' \<and> general_form [] m' = Some t \<and> page_buffer t = t \<and>
    general_form updated_message m' = Some (appendElement u (str ''</h5>'')) \<and>
    take (length u) (page_buffer (appendElement u (str ''</h5>''))) = u"
proof -
  from spi_chip.loadSettings_bound [OF assms(1-3)] obtain m' where
    m: "loadSettings m = Some m'" "number_fits 5 (iPulseMultiFactor m')" "number_fits 6 (iPushFreq m')"
      "length (sPushURL m') \<le> 40" "length (sPushArg m') \<le> 10" by blast
  obtain t where t: "general_form [] m' = Some (appendElement t (str ''</h5>''))" "length t \<le> 967"
    using general_form_fits [OF m(2-5), of "[]"] by auto
  obtain u where u: "general_form updated_message m' = Some (appendElement u (str ''</h5>''))" "length u \<le> 1021"
    using general_form_fits [OF m(2-5), of updated_message] by (auto simp: updated_message_def str_def)
  show ?thesis
    using m(1) t u by (auto simp: page_buffer_def char_array_text_def appendElement_def str_def)
qed

theorem general_page_fits_witness:
  "\<exists>m' t. loadSettings factory_monitor = Some m' \<and> general_form [] m' = Some t \<and> page_buffer t = t"
  using general_page_fits [OF ref_chip.spi_chip_axioms, of factory_monitor]
    factory_monitor_fits(2) blank_eeprom_ok(1,2) by auto

end
