(* ===== verification/MonitorMain.thy ===== *)
theory MonitorMain
  imports MonitorWeb
begin

text \<open>
  The whole device (\<^verbatim>\<open>Main.ino\<close>): the start, the table of pages it registers with the web server, and one
  turn of the main loop, in which the web server, the counter and the push run after each other on the
  same variables.
\<close>

section \<open>The pages\<close>

datatype page = RootPage | SettingsPage | GeneralPage | ClientPage | ApPage | GeneralScriptPage | ConnectPage
  | StylePage | GraphPage | GraphScriptPage | ValuesPage | NotFoundPage

definition register_pages :: "page web_server \<Rightarrow> page web_server" where
  "register_pages w =
     (let w = onNotFound NotFoundPage w;
          w = on_any (str ''/'') RootPage w;
          w = on_any (str ''/settings.html'') SettingsPage w;
          w = on_any (str ''/general.html'') GeneralPage w;
          w = on_any (str ''/client.html'') ClientPage w;
          w = on_any (str ''/ap.html'') ApPage w;
          w = on_any (str ''/general.js'') GeneralScriptPage w;
          w = on_any (str ''/connect.html'') ConnectPage w;
          w = on_any (str ''/style.css'') StylePage w;
          w = on_any (str ''/graph.html'') GraphPage w;
          w = on_any (str ''/graph.js'') GraphScriptPage w
      in on_any (str ''/values.json'') ValuesPage w)"

definition run_page ::
    "'d sdk \<Rightarrow> surroundings \<Rightarrow> page \<Rightarrow> page web_server \<Rightarrow> 'd monitor \<Rightarrow> (action list \<times> 'd monitor) option" where
  "run_page k env p w m =
     (let post = (currentMethod w = HTTP_POST); as = currentArgs w; only = map_option (\<lambda>acts. (acts, m)) in
      case p of
        RootPage \<Rightarrow> only (handleRoot m)
      | SettingsPage \<Rightarrow> only (Some handleSettings)
      | GeneralPage \<Rightarrow> handleGeneralSettings k env post as m
      | ClientPage \<Rightarrow> handleWiFiClientSettings k env post as m
      | ApPage \<Rightarrow> handleWiFiAPSettings k env post as m
      | GeneralScriptPage \<Rightarrow> only (Some handleGeneralScript)
      | ConnectPage \<Rightarrow> only (handleConnect env m)
      | StylePage \<Rightarrow> only (Some handleCSSRequest)
      | GraphPage \<Rightarrow> only (Some handleGraph)
      | GraphScriptPage \<Rightarrow> only (Some handleGraphScript)
      | ValuesPage \<Rightarrow> only (handleValues m)
      | NotFoundPage \<Rightarrow> only (Some (handleNotFound (currentUri w))))"

text \<open>\<^verbatim>\<open>server.handleClient()\<close>: \<open>client\<close> is what a waiting connection sends, if there is one.  A request that
  hangs the parser or makes it write past an array is \<open>None\<close>.\<close>

definition handleClient ::
    "'d sdk \<Rightarrow> surroundings \<Rightarrow> nat \<Rightarrow> stream option \<Rightarrow> page web_server \<Rightarrow> 'd monitor \<Rightarrow>
     (action list \<times> page web_server \<times> 'd monitor) option" where
  "handleClient k env fuel client w m =
     (case client of
        None \<Rightarrow> Some ([], w, m)
      | Some s \<Rightarrow>
          (case parseRequest fuel (stack env) s w of
             Hangs \<Rightarrow> None
           | Overflow \<Rightarrow> None
           | Done (ok, w) \<Rightarrow>
               if \<not> ok then Some ([], w, m)
               else do {
                 (acts, m) \<leftarrow> (case find_handler w of
                   Some p \<Rightarrow> run_page k env p w m
                 | None \<Rightarrow> Some ([HttpSend 404 (str ''text/plain'') (str ''Not found: '' @ currentUri w)], m));
                 Some (acts, w\<lparr>currentUri := []\<rparr>, m) }))"

section \<open>Start and main loop\<close>

definition setup_device :: "'d sdk \<Rightarrow> surroundings \<Rightarrow> nat \<Rightarrow> (nat \<Rightarrow> nat) \<Rightarrow> (nat \<Rightarrow> bool) \<Rightarrow> bool \<Rightarrow> page web_server \<Rightarrow> 'd monitor \<Rightarrow>
    (action list \<times> page web_server \<times> 'd monitor) option" where
  "setup_device k env fuel heap malloc_ok last_ok w m = do {
     let m = m\<lparr>eeprom := EEPROM_begin k 200 (eeprom m)\<rparr>;
     let m = loadDefaultSettings m;
     m \<leftarrow> loadSettings m;
     acts \<leftarrow> connectToWiFi env (eeprom m);
     let m = m\<lparr>lPulses := 0\<rparr>;
     let m = m\<lparr>cFreeBufferCount := 0\<rparr>;
     let w = register_pages w;
     m \<leftarrow> generateADCBuffer fuel heap malloc_ok last_ok m;
     Some (PinMode 2 # acts @ [ServerBegin], w, m) }"

text \<open>What one turn meets: a connection, the reading, the clock, and the outcome of a push.\<close>

record turn =
  client :: "stream option"
  adc :: int
  now :: u32
  connected :: bool
  later :: u32

definition main_loop :: "'d sdk \<Rightarrow> surroundings \<Rightarrow> nat \<Rightarrow> turn \<Rightarrow> page web_server \<Rightarrow> 'd monitor \<Rightarrow>
    (action list \<times> page web_server \<times> 'd monitor) option" where
  "main_loop k env fuel t w m = do {
     (served, w, m) \<leftarrow> handleClient k env fuel (client t) w m;
     (measured, m) \<leftarrow> (if bPowerMonEnabled m
       then do { m \<leftarrow> addADCValueToBuffer (adc t) m; Some ([pulseLightOn, Delay 20], m) }
       else Some ([], m));
     let light = (if bPulseLight m then [pulseLightOff] else []);
     let wait = [Delay (if bPowerMonEnabled m then uint (cPulseFreq m) else 100)];
     (pushed, m) \<leftarrow> checkWhetherToPushData (connected t) (now t) (later t) m;
     Some (served @ measured @ light @ wait @ pushed, w, displayFreeBufferInfo m) }"

section \<open>An erased EEPROM\<close>

lemma xor_sum_replicate: "xor_sum (replicate n c) = (if odd n then c else 0)"
  by (induction n) auto

lemma readString_erased:
  assumes "ee_ok view e" "ee_bytes e = replicate (ee_size e) 255" "unat a + unat n \<le> ee_size e" "0 < n" "even (unat n)"
  shows "readString e a n = Some (replicate (unat n) 255)"
proof -
  have n0: "0 < unat n" using assms(4) by (simp add: unat_gt_0 word_gt_0)
  then obtain j where j: "unat n = Suc j" by (cases "unat n") auto
  have s: "slice (unat a) (unat n) (ee_bytes e) = replicate (unat n) 255"
    using assms(2,3) by (simp add: slice_def)
  have r: "replicate (Suc j) (255 :: u8) = replicate j 255 @ [255]" by (simp add: replicate_append_same)
  have "odd j" using assms(5) j by simp
  then show ?thesis
    unfolding readString_bytes [OF assms(1,3,4)] s unfolding j by (simp add: r xor_sum_replicate butlast_append del: replicate_Suc)
qed


lemma text_int_erased: "text_int (replicate 6 255) = Some 0"
proof -
  have "replicate 6 255 = 255 # replicate 5 (255 :: u8)" by (simp flip: replicate_Suc)
  then show ?thesis by (simp add: text_int_def atol_def strtol_def isspace_def)
qed

section \<open>A posted form\<close>

definition no_wifi_args :: "args \<Rightarrow> bool" where
  "no_wifi_args as \<longleftrightarrow> (\<forall>(n, v) \<in> set as. char_at n 0 \<in> {of_char (CHR ''a''), of_char (CHR ''c'')} \<longrightarrow>
     char_at n 1 \<notin> {of_char (CHR ''s''), of_char (CHR ''p''), of_char (CHR ''e'')})"

lemma set_wifi_arg_other:
  "c \<notin> {of_char (CHR ''s''), of_char (CHR ''p''), of_char (CHR ''e'')} \<Longrightarrow> set_wifi_arg c v s = Some s"
  using text_int_total [of v] by (auto simp: set_wifi_arg_def)

lemma wifi_arg_other: "no_wifi_args [a] \<Longrightarrow> wifi_arg a S = Some S"
  by (cases S; cases a) (auto simp: no_wifi_args_def wifi_arg_def set_wifi_arg_other)

lemma wifi_args_other: "no_wifi_args as \<Longrightarrow> fold (\<lambda>x a. Option.bind a (wifi_arg x)) as (Some S) = Some S"
  by (induction as) (auto simp: wifi_arg_other no_wifi_args_def)

lemma updateWiFiSettings_other:
  "no_wifi_args as \<Longrightarrow> length as \<le> 255 \<Longrightarrow> updateWiFiSettings k as m = Some (False, m)"
  by (simp add: updateWiFiSettings_def for_args_def wifi_args_other)

lemma general_arg_eeprom: "general_arg a m = Some m' \<Longrightarrow> eeprom m' = eeprom m \<and> lPulses m' = lPulses m"
  by (auto simp: general_arg_def Let_def split: prod.splits Option.bind_splits if_splits)

lemma general_args_None: "fold (\<lambda>x a. Option.bind a (general_arg x)) as None = None"
  by (induction as) simp_all

lemma general_args_eeprom:
  "fold (\<lambda>x a. Option.bind a (general_arg x)) as (Some m) = Some m' \<Longrightarrow>
   eeprom m' = eeprom m \<and> lPulses m' = lPulses m"
proof (induction as arbitrary: m)
  case (Cons a as)
  show ?case
  proof (cases "general_arg a m")
    case None
    then show ?thesis using Cons.prems by (simp add: general_args_None)
  next
    case (Some m1)
    then show ?thesis using Cons.prems Cons.IH [of m1] general_arg_eeprom [OF Some] by simp
  qed
qed simp

lemma updateGeneralSettings_eeprom:
  "updateGeneralSettings as m = Some m' \<Longrightarrow> eeprom m' = eeprom m \<and> lPulses m' = lPulses m \<and> length as \<le> 255"
  using general_args_eeprom [of as] by (fastforce simp: updateGeneralSettings_def for_args_def split: if_splits)

lemma find_general_page:
  "handlers w = handlers (register_pages w0) \<Longrightarrow> handlers w0 = [] \<Longrightarrow> currentUri w = str ''/general.html'' \<Longrightarrow> find_handler w = Some GeneralPage"
  by (simp add: find_handler_def register_pages_def on_any_def on_method_def onNotFound_def str_def)


lemma erased_settings:
  assumes "ee_ok view (eeprom m)" "ee_size (eeprom m) = 200" "ee_bytes (eeprom m) = replicate 200 255"
  shows "loadSettings m = Some (m\<lparr>bPowerMonEnabled := True, bPulseLight := True, cPulseFreq := 255, iPulseMultiFactor := 0,
      cLimit := 255, cLimitHigh := 255, cLimitDebounce := 255, sPushURL := replicate 40 255, sPushArg := replicate 10 255,
      iPushFreq := 0\<rparr>)"
    and "a = 0 \<or> a = 33 \<Longrightarrow> getWiFiSettings True (eeprom m) a =
      Some (Some \<lparr>ssid = replicate 14 255, password = replicate 14 255, useWiFi = True\<rparr>)"
proof -
  have r: "readString (eeprom m) b n = Some (replicate (unat n) 255)" if "unat b + unat n \<le> 200" "0 < n" "even (unat n)" for b n
    using readString_erased [OF assms(1), of b n] assms(2,3) that by simp
  have bool: "readBoolean (eeprom m) b j" if "unat b < 200" "j = 0 \<or> j = 1" for b j
  proof -
    have "EEPROM_read (eeprom m) (uint b) = 255"
      using EEPROM_read_bytes [OF assms(1), of "uint b"] assms(2,3) that(1) by simp
    then show ?thesis using that(2) by (auto simp: readBoolean_def)
  qed
  have num: "readInt (eeprom m) b = Some 0" if "unat b + 6 \<le> 200" for b
    using r [of b 6] that text_int_erased by (simp add: readInt_def)
  have c: "char_at (replicate 2 255) 0 = 255" by (simp add: char_at_def)
  show "loadSettings m = Some (m\<lparr>bPowerMonEnabled := True, bPulseLight := True, cPulseFreq := 255, iPulseMultiFactor := 0,
      cLimit := 255, cLimitHigh := 255, cLimitDebounce := 255, sPushURL := replicate 40 255, sPushArg := replicate 10 255,
      iPushFreq := 0\<rparr>)"
    by (simp add: loadSettings_def r num bool c c_div_def)
  show "getWiFiSettings True (eeprom m) a = Some (Some \<lparr>ssid = replicate 14 255, password = replicate 14 255, useWiFi = True\<rparr>)"
    if "a = 0 \<or> a = 33"
    using that by (elim disjE) (simp_all add: getWiFiSettings_def r bool char_array_text_def)
qed

section \<open>Properties\<close>

text \<open>The fields of the EEPROM that hold a text with a checksum, a start and a length each.\<close>

definition settings_fields :: "(u8 \<times> u8) list" where
  "settings_fields = [(0, 16), (16, 16), (33, 16), (49, 16), (67, 2), (69, 6), (75, 2), (77, 2), (79, 2), (81, 40),
     (121, 10), (131, 6)]"

text \<open>C30 (safety). On a chip whose settings sector is erased every field passes its checksum and reads as bytes \<^verbatim>\<open>0xff\<close>, so
  the first start takes them for settings: instead of the factory access point it opens one whose name and password are
  fourteen bytes \<^verbatim>\<open>0xff\<close>, tries to join a network of the same name, and measures with all three limits at 255.  With
  these, and a free heap that gives the buffer at least one byte, no sequence of readings ever counts a pulse.\<close>

theorem first_start_on_erased_chip:
  assumes "spi_chip k view" "\<not> ee_dirty (eeprom m)"
    and "unat (ee_sector (eeprom m)) * 4096 + 4096 \<le> unat (chip_size (hw (eeprom m)))"
    and "nor_read (view (chip (hw (eeprom m)))) (unat (ee_sector (eeprom m)) * 4096) 200 = replicate 200 255"
    and "alloc_ok env" "malloc_ok 4" "4 < fuel" "90 \<le> heap 4"
  shows "\<exists>w' m'. setup_device k env fuel heap malloc_ok last_ok w m = Some (PinMode 2 # WiFiMode WIFI_AP_STA #
      WiFiSoftAP (replicate 14 255) (replicate 14 255) #
      connectToClientWiFi env \<lparr>ssid = replicate 14 255, password = replicate 14 255, useWiFi = True\<rparr> @ [ServerBegin], w', m') \<and>
    (\<forall>(a, n) \<in> set settings_fields. readString (eeprom m') a n = Some (replicate (unat n) 255)) \<and>
    bPowerMonEnabled m' \<and> cLimit m' = 255 \<and> cLimitHigh m' = 255 \<and> cLimitDebounce m' = 255 \<and>
    iPulseMultiFactor m' = 0 \<and> iPushFreq m' = 0 \<and>
    (\<forall>as. \<exists>m2. fold (\<lambda>a m. Option.bind m (addADCValueToBuffer a)) as (Some m') = Some m2 \<and> lPulses m2 = 0)"
proof -
  let ?e = "EEPROM_begin k 200 (eeprom m)"
  have e: "ee_ok view ?e" "ee_size ?e = 200" "ee_bytes ?e = replicate 200 255"
    using spi_chip.EEPROM_begin_ok [OF assms(1), of 200 "eeprom m"] assms(2-4) by simp_all
  let ?m = "loadDefaultSettings (m\<lparr>eeprom := ?e\<rparr>)"
  have em: "eeprom ?m = ?e" by (simp add: loadDefaultSettings_def)
  note s = erased_settings [of view ?m, unfolded em, OF e]
  have r: "\<forall>(a, n) \<in> set settings_fields. readString ?e a n = Some (replicate (unat n) 255)"
    using readString_erased [OF e(1)] e(2,3) by (simp add: settings_fields_def)
  have c: "connectToWiFi env ?e = Some (WiFiMode WIFI_AP_STA # WiFiSoftAP (replicate 14 255) (replicate 14 255) #
      connectToClientWiFi env \<lparr>ssid = replicate 14 255, password = replicate 14 255, useWiFi = True\<rparr>)"
    using s(2) [of 0] s(2) [of 33] assms(5)
    by (simp add: connectToWiFi_def getWiFiAPSettings_def getWiFiClientSettings_def setupAPWiFi_def)
  have j: "(30 + 20 * j) mod 256 < 100" if "j < 4" for j :: nat using that by simp
  define sz where "sz = min 255 (heap 4 div 90)"
  have sz: "0 < sz" "sz \<le> 255" using assms(8) by (simp_all add: sz_def)
  have g: "generateADCBuffer fuel heap malloc_ok last_ok x = Some (x\<lparr>iABufferPos := 0,
      iABufferSize := word_of_nat sz, cABuffer := Some (replicate sz 0)\<rparr>)"
    for x :: "'a monitor" using generateADCBuffer_ends [of malloc_ok 4 fuel heap last_ok x] assms(6,7) j by (simp add: sz_def)
  obtain w' m' where st: "setup_device k env fuel heap malloc_ok last_ok w m = Some (PinMode 2 # WiFiMode WIFI_AP_STA #
      WiFiSoftAP (replicate 14 255) (replicate 14 255) #
      connectToClientWiFi env \<lparr>ssid = replicate 14 255, password = replicate 14 255, useWiFi = True\<rparr> @ [ServerBegin], w', m')"
    "eeprom m' = ?e" "lPulses m' = 0" "bPowerMonEnabled m'" "cLimit m' = 255" "cLimitHigh m' = 255" "cLimitDebounce m' = 255"
    "iPulseMultiFactor m' = 0" "iPushFreq m' = 0" "iABufferPos m' = 0" "iABufferSize m' = word_of_nat sz" "cABuffer m' = Some (replicate sz 0)"
    using s(1) c by (simp add: setup_device_def g em)
  have "unat (word_of_nat sz :: u8) = sz" using sz(2) by (simp add: unat_of_nat)
  then have "buffer_ok m'" using st sz(1) by (simp add: buffer_ok_def word_less_nat_alt)
  then have n: "\<forall>as. \<exists>m2. fold (\<lambda>a m. Option.bind m (addADCValueToBuffer a)) as (Some m') = Some m2 \<and> lPulses m2 = 0"
    using add_readings_never [of m'] st(3,6) by (simp add: fold_addADCValueToBuffer)
  show ?thesis using st r n by (intro exI [of _ w'] exI [of _ m']) simp
qed

text \<open>C2 (functional). Changing the settings over the network: a posted general form that reaches the web server is
  applied to the variables, saved and read back.  For every such form whose push address stays below 175 characters and
  whose argument below 135 (longer ones wrap a sum), without zero bytes, and with a zero byte among the 170 bytes of the
  stack behind the placeholder of the one-character settings, the EEPROM then holds the new settings over the
  old ones, and in force are the flags of the form; its four one-character settings, except that for a 0 the value the
  EEPROM held before is back; its push address and argument as one field keeps them, or the old ones when they are empty;
  and its push interval and factor as numbers come back from their fields.  The count of pulses is untouched.\<close>

theorem posted_settings_take_effect:
  assumes "spi_chip k view" "ee_ok view (eeprom m)" "ee_size (eeprom m) = 200" "0 \<in> set (take 170 (stack env))"
    and "handlers w = handlers (register_pages w0)" "handlers w0 = []"
    and "plain_args as" "length (form_text as) < 2 ^ 32" "13 \<notin> set (form_text as)" "\<forall>h \<in> set hs. plain_header h"
    and "no_wifi_args as" "updateGeneralSettings as m = Some new" "texts_fit new"
  shows "\<exists>acts w' m'. handleClient k env fuel
      (Some (str ''POST '' @ str ''/general.html'' @ str '' HTTP/1.1'' @ [13, 10] @ header_lines hs @ [13, 10] @ form_text as)) w m =
      Some (acts, w', m') \<and> settings_stored (ee_bytes (eeprom m)) (ee_bytes (eeprom m')) new \<and> lPulses m' = lPulses m \<and>
    bPowerMonEnabled m' = bPowerMonEnabled new \<and> bPulseLight m' = bPulseLight new \<and>
    cPulseFreq m' = kept_char (eeprom m) 67 (cPulseFreq new) \<and> cLimit m' = kept_char (eeprom m) 75 (cLimit new) \<and>
    cLimitHigh m' = kept_char (eeprom m) 77 (cLimitHigh new) \<and> cLimitDebounce m' = kept_char (eeprom m) 79 (cLimitDebounce new) \<and>
    sPushURL m' = kept_text (eeprom m) 81 40 (sPushURL new) \<and> sPushArg m' = kept_text (eeprom m) 121 10 (sPushArg new) \<and>
    iPushFreq m' = kept_number (iPushFreq new) \<and>
    iPulseMultiFactor m' = kept_number (to_s32 (iPulseMultiFactor new * 10)) div 10"
proof -
  let ?uri = "str ''/general.html''"
  let ?w = "w\<lparr>currentUri := ?uri, currentMethod := HTTP_POST, currentArgs := as\<rparr>"
  have "set ?uri \<inter> {13, 32, 63} = {}" "length ?uri < 2 ^ 31" by (simp_all add: str_def)
  note parsed = parse_posted_form [OF assms(7-9) this assms(10), of fuel "stack env" w]
  have page: "find_handler ?w = Some GeneralPage" by (rule find_general_page [of _ w0]) (use assms(5,6) in simp_all)
  have new: "eeprom new = eeprom m" "lPulses new = lPulses m" "length as \<le> 255"
    using updateGeneralSettings_eeprom [OF assms(12)] by simp_all
  from spi_chip.saveSettings_stored [OF assms(1), of new "stack env"] assms(2-4,13) new(1) obtain e where
    e: "saveSettings k (stack env) new = Some (new\<lparr>eeprom := e\<rparr>)" "same_store view (eeprom m) e"
      "settings_stored (ee_bytes (eeprom m)) (ee_bytes e) new"
    by auto
  have ok: "ee_ok view e" "ee_size e = 200" using e(2) assms(3) by (simp_all add: same_store_def)
  note load = spi_chip.loadSettings_stored [OF assms(1-3) ok e(3) assms(13), of new]
  from spi_chip.loadSettings_bound [OF assms(1), of "new\<lparr>eeprom := e\<rparr>"] ok load obtain m' where
    m: "loadSettings (new\<lparr>eeprom := e\<rparr>) = Some m'" "number_fits 5 (iPulseMultiFactor m')" "number_fits 6 (iPushFreq m')"
      "length (sPushURL m') \<le> 40" "length (sPushArg m') \<le> 10" by auto
  obtain t where t: "general_form updated_message m' = Some t" using general_form_fits [OF m(2-5)] by blast
  have p: "run_page k env GeneralPage ?w m = Some (generatePage 200 (str ''Settings'') [] (page_buffer t), m')"
    using updateWiFiSettings_other [OF assms(11) new(3), of k m] assms(12) e(1) m(1) t
    by (simp add: run_page_def handleGeneralSettings_def general_post_def)
  have m': "m' = new\<lparr>eeprom := e, bPowerMonEnabled := bPowerMonEnabled new,
    bPulseLight := bPulseLight new, cPulseFreq := kept_char (eeprom m) 67 (cPulseFreq new),
    iPulseMultiFactor := kept_number (to_s32 (iPulseMultiFactor new * 10)) div 10, cLimit := kept_char (eeprom m) 75 (cLimit new),
    cLimitHigh := kept_char (eeprom m) 77 (cLimitHigh new), cLimitDebounce := kept_char (eeprom m) 79 (cLimitDebounce new),
    sPushURL := kept_text (eeprom m) 81 40 (sPushURL new), sPushArg := kept_text (eeprom m) 121 10 (sPushArg new),
    iPushFreq := kept_number (iPushFreq new)\<rparr>"
    using load m(1) by simp
  show ?thesis
    unfolding handleClient_def option.case parsed run.case prod.case using e(3) page p new(2) by (simp add: m')
qed


section \<open>Examples\<close>

definition fresh_server :: "page web_server" where
  "fresh_server = \<lparr>handlers = [], notFoundHandler = None, has_upload_handler = False, currentMethod = HTTP_GET,
     currentUri = [], currentArgs = [], currentUpload = \<lparr>up_status = UPLOAD_FILE_START, up_filename = [], up_name = [],
     up_type = [], up_total = 0, up_buf = []\<rparr>, upload_calls = [], responseHeaders = []\<rparr>"

definition quiet :: surroundings where
  "quiet = \<lparr>alloc_ok = True, wifi_status = (\<lambda>i. False), stack = [0]\<rparr>"

definition erased_eeprom :: "(nat \<Rightarrow> u8) eeprom" where
  "erased_eeprom = EEPROMClass \<lparr>chip_size = 0x100000, ps = 0, interrupts_state = 0, chip = (\<lambda>i. 0xff)\<rparr> 0xfb"

theorem first_start_on_erased_chip_witness:
  "\<exists>acts w' m'. setup_device reference_sdk quiet 5 (\<lambda>i. 40000) (\<lambda>i. True) True fresh_server
     (factory_monitor\<lparr>eeprom := erased_eeprom\<rparr>) = Some (acts, w', m') \<and>
     acts ! 2 = WiFiSoftAP (replicate 14 255) (replicate 14 255) \<and> cLimitHigh m' = 255 \<and>
     (\<exists>m2. fold (\<lambda>a m. Option.bind m (addADCValueToBuffer a)) (replicate 1000 1023) (Some m') = Some m2 \<and> lPulses m2 = 0)"
proof -
  have r: "nor_read (\<lambda>i. c) a n = replicate n c" for c a n by (simp add: nor_read_def map_replicate_const)
  let ?m = "factory_monitor\<lparr>eeprom := erased_eeprom\<rparr>"
  have h: "\<not> ee_dirty (eeprom ?m)" "unat (ee_sector (eeprom ?m)) * 4096 + 4096 \<le> unat (chip_size (hw (eeprom ?m)))"
    "nor_read (id (chip (hw (eeprom ?m)))) (unat (ee_sector (eeprom ?m)) * 4096) 200 = replicate 200 255" "alloc_ok quiet"
    by (simp_all add: erased_eeprom_def EEPROMClass_def quiet_def r)
  have "4 < (5 :: nat)" "90 \<le> (40000 :: nat)" by simp_all
  note start = first_start_on_erased_chip [OF ref_chip.spi_chip_axioms h, of "\<lambda>i. True" 5 "\<lambda>i. 40000" True fresh_server,
    OF TrueI this]
  from start obtain w' m' where s: "setup_device reference_sdk quiet 5 (\<lambda>i. 40000) (\<lambda>i. True) True fresh_server ?m =
      Some (PinMode 2 # WiFiMode WIFI_AP_STA # WiFiSoftAP (replicate 14 255) (replicate 14 255) #
      connectToClientWiFi quiet \<lparr>ssid = replicate 14 255, password = replicate 14 255, useWiFi = True\<rparr> @ [ServerBegin], w', m')"
    "cLimitHigh m' = 255" and n: "\<forall>as. \<exists>m2. fold (\<lambda>a m. Option.bind m (addADCValueToBuffer a)) as (Some m') = Some m2 \<and> lPulses m2 = 0"
    by blast
  have a: "(x # y # z # zs) ! 2 = z" for x y z :: action and zs by simp
  from n [rule_format, of "replicate 1000 1023"] obtain m2 where
    "fold (\<lambda>a m. Option.bind m (addADCValueToBuffer a)) (replicate 1000 1023) (Some m') = Some m2" "lPulses m2 = 0" by (elim exE conjE)
  with s show ?thesis by (intro exI conjI) (assumption | rule a)+
qed

text \<open>The form \<open>pm=1&ad=200&ft=0\<close>.\<close>

definition sample_form :: args where
  "sample_form = [(str ''pm'', str ''1''), (str ''ad'', str ''200''), (str ''ft'', str ''0'')]"

lemma sample_form_update: "updateGeneralSettings sample_form factory_monitor =
    Some (factory_monitor\<lparr>bPowerMonEnabled := True, bPulseLight := False, cLimit := 200, cPulseFreq := 0\<rparr>)"
proof -
  have n: "text_int (str ''1'') = Some 1" "text_int (str ''200'') = Some 200" "text_int (str ''0'') = Some 0"
    by (simp_all add: text_int_def atol_def strtol_def isspace_def str_def)
  have c: "char_at (str ''pm'') (Suc 0) = 109" "char_at (str ''ad'') (Suc 0) = 100" "char_at (str ''ft'') (Suc 0) = 116"
    by (simp_all add: char_at_def str_def)
  show ?thesis
    by (simp add: updateGeneralSettings_def for_args_def sample_form_def general_arg_def n c clip_char_def Let_def)
qed

text \<open>Sent to a chip with a blank EEPROM: the limit is taken over, and the 0 brings back the \<^verbatim>\<open>0xff\<close> that was there.\<close>

theorem posted_settings_take_effect_witness:
  "\<exists>acts w' m'. handleClient reference_sdk quiet 0
      (Some (str ''POST '' @ str ''/general.html'' @ str '' HTTP/1.1'' @ [13, 10] @ header_lines [] @ [13, 10] @ form_text sample_form))
      (register_pages fresh_server) factory_monitor = Some (acts, w', m') \<and> cLimit m' = 200 \<and> bPowerMonEnabled m' \<and>
     cPulseFreq m' = 255 \<and> iPushFreq m' = 600"
proof -
  have "readString blank_eeprom 67 2 = Some (replicate (unat (2 :: u8)) 255)"
    by (rule readString_erased [OF blank_eeprom_ok(1)]) (simp_all add: blank_eeprom_ok)
  then have k: "kept_char blank_eeprom 67 0 = 255" "kept_char blank_eeprom 75 200 = 200" by (simp_all add: kept_char_def char_at_def)
  have n: "kept_number 600 = 600" by (simp add: kept_number_def reloaded_def)
  have f: "texts_fit (factory_monitor\<lparr>bPowerMonEnabled := True, bPulseLight := False, cLimit := 200, cPulseFreq := 0\<rparr>)"
    using factory_monitor_fits(1) by (simp add: texts_fit_def)
  have i: "iPushFreq factory_monitor = 600" by (simp add: factory_monitor_def loadDefaultSettings_def)
  have h: "ee_ok id (eeprom factory_monitor)" "ee_size (eeprom factory_monitor) = 200" "0 \<in> set (take 170 (stack quiet))"
    "handlers (register_pages fresh_server) = handlers (register_pages fresh_server)" "handlers fresh_server = []"
    using factory_monitor_fits(2) blank_eeprom_ok(1,2) by (simp_all add: quiet_def fresh_server_def)
  have a: "plain_args sample_form" "length (form_text sample_form) < 2 ^ 32" "13 \<notin> set (form_text sample_form)"
    "\<forall>h \<in> set []. plain_header h" "no_wifi_args sample_form"
    by (simp_all add: sample_form_def plain_args_def no_wifi_args_def char_at_def str_def)
  from posted_settings_take_effect [OF ref_chip.spi_chip_axioms h a sample_form_update f, of 0]
  obtain acts w' m' where "handleClient reference_sdk quiet 0
      (Some (str ''POST '' @ str ''/general.html'' @ str '' HTTP/1.1'' @ [13, 10] @ header_lines [] @ [13, 10] @ form_text sample_form))
      (register_pages fresh_server) factory_monitor = Some (acts, w', m')"
    "bPowerMonEnabled m'" "cPulseFreq m' = kept_char blank_eeprom 67 0" "cLimit m' = kept_char blank_eeprom 75 200"
    "iPushFreq m' = kept_number 600" by (auto simp: i factory_monitor_fits(2))
  then show ?thesis by (simp only: k n) blast
qed

end
