(* ===== verification/Gpio.thy ===== *)
theory Gpio imports Prelude begin

text \<open>
  Memory mapped registers (\<^verbatim>\<open>esp8266_peri.h\<close>) and the pins (\<^verbatim>\<open>core_esp8266_wiring_digital.c\<close>).  The hardware is not part of the sources: it is the record \<open>bus\<close>, an
  argument of every function here, over an arbitrary type \<open>'h\<close> of hardware states.  A read may change the
  hardware (it takes time, or empties a FIFO), so it returns a state too.
\<close>

section \<open>The bus\<close>

record 'h bus =
  reg_rd :: "u32 \<Rightarrow> 'h \<Rightarrow> u32 \<times> 'h"
  reg_wr :: "u32 \<Rightarrow> u32 \<Rightarrow> 'h \<Rightarrow> 'h"

definition ESP8266_REG :: "u32 \<Rightarrow> u32" where "ESP8266_REG addr = 0x60000000 + addr"
definition ESP8266_DREG :: "u32 \<Rightarrow> u32" where "ESP8266_DREG addr = 0x3FF00000 + addr"

text \<open>\<^verbatim>\<open>R |= m\<close>, \<^verbatim>\<open>R &= m\<close> on a volatile register: a read and a write.\<close>

definition reg_or :: "'h bus \<Rightarrow> u32 \<Rightarrow> u32 \<Rightarrow> 'h \<Rightarrow> 'h" where
  "reg_or b a m h = (case reg_rd b a h of (v, h) \<Rightarrow> reg_wr b a (v OR m) h)"

definition reg_and :: "'h bus \<Rightarrow> u32 \<Rightarrow> u32 \<Rightarrow> 'h \<Rightarrow> 'h" where
  "reg_and b a m h = (case reg_rd b a h of (v, h) \<Rightarrow> reg_wr b a (v AND m) h)"

text \<open>\<^verbatim>\<open>1 << n\<close> as a 32-bit number.\<close>

definition shl1 :: "nat \<Rightarrow> u32" where "shl1 n = push_bit n 1"

lemma bit_shl1 [simp]: "bit (shl1 n) i \<longleftrightarrow> i = n \<and> i < 32"
  by (auto simp: shl1_def bit_simps)

text \<open>A plain memory as hardware: a register holds what was written to it last.\<close>

definition ram_bus :: "(u32 \<Rightarrow> u32) bus" where
  "ram_bus = \<lparr>reg_rd = \<lambda>a m. (m a, m), reg_wr = \<lambda>a v m. m(a := v)\<rparr>"

lemma ram_bus_simps [simp]:
  "reg_rd ram_bus a m = (m a, m)" "reg_wr ram_bus a v m = m(a := v)"
  by (simp_all add: ram_bus_def)

lemma ram_bus_same [simp]:
  "reg_or ram_bus a v m a = m a OR v" "reg_and ram_bus a v m a = m a AND v"
  by (simp_all add: reg_or_def reg_and_def)

lemma ram_bus_other [simp]:
  "x \<noteq> a \<Longrightarrow> reg_or ram_bus a v m x = m x" "x \<noteq> a \<Longrightarrow> reg_and ram_bus a v m x = m x"
  by (simp_all add: reg_or_def reg_and_def)

section \<open>Registers of the pins\<close>

definition GPO :: u32 where "GPO = ESP8266_REG 0x300"
definition GPOS :: u32 where "GPOS = ESP8266_REG 0x304"
definition GPOC :: u32 where "GPOC = ESP8266_REG 0x308"
definition GPE :: u32 where "GPE = ESP8266_REG 0x30C"
definition GPES :: u32 where "GPES = ESP8266_REG 0x310"
definition GPEC :: u32 where "GPEC = ESP8266_REG 0x314"
definition GPI :: u32 where "GPI = ESP8266_REG 0x318"
definition GPIE :: u32 where "GPIE = ESP8266_REG 0x31C"
definition GPIES :: u32 where "GPIES = ESP8266_REG 0x320"
definition GPIEC :: u32 where "GPIEC = ESP8266_REG 0x324"

definition GPC :: "u8 \<Rightarrow> u32" where "GPC p = ESP8266_REG (0x328 + (ucast p AND 0xF) * 4)"

definition GPCWE :: nat where "GPCWE = 10"
definition GPCI :: nat where "GPCI = 7"
definition GPCD :: nat where "GPCD = 2"
definition GPCS :: nat where "GPCS = 0"

definition esp8266_gpioToFn :: "u32 list" where
  "esp8266_gpioToFn =
     [0x34, 0x18, 0x38, 0x14, 0x3C, 0x40, 0x1C, 0x20, 0x24, 0x28, 0x2C, 0x30, 0x04, 0x08, 0x0C, 0x10]"

definition GPF :: "u8 \<Rightarrow> u32" where "GPF p = ESP8266_REG (0x800 + esp8266_gpioToFn ! unat (p AND 0xF))"

definition GPFFS0 :: nat where "GPFFS0 = 4"
definition GPFFS1 :: nat where "GPFFS1 = 5"
definition GPFPD :: nat where "GPFPD = 6"
definition GPFPU :: nat where "GPFPU = 7"
definition GPFFS2 :: nat where "GPFFS2 = 8"

definition GPFFS :: "u32 \<Rightarrow> u32" where
  "GPFFS f = push_bit GPFFS2 (of_bool (f AND 4 \<noteq> 0)) OR push_bit GPFFS1 (of_bool (f AND 2 \<noteq> 0)) OR
     push_bit GPFFS0 (of_bool (f AND 1 \<noteq> 0))"

definition GPFFS_GPIO :: "u8 \<Rightarrow> u32" where
  "GPFFS_GPIO p = (if p = 0 \<or> p = 2 \<or> p = 4 \<or> p = 5 then 0 else if p = 16 then 1 else 3)"

definition GPFFS_BUS :: "u8 \<Rightarrow> u32" where
  "GPFFS_BUS p = (if p = 1 \<or> p = 3 then 0 else if p = 2 \<or> p = 12 \<or> p = 13 \<or> p = 14 \<or> p = 15 then 2
     else if p = 0 then 4 else 1)"

definition GP16O :: u32 where "GP16O = ESP8266_REG 0x768"
definition GP16E :: u32 where "GP16E = ESP8266_REG 0x774"
definition GP16I :: u32 where "GP16I = ESP8266_REG 0x78C"
definition GPC16 :: u32 where "GPC16 = ESP8266_REG 0x790"
definition GPF16 :: u32 where "GPF16 = ESP8266_REG 0x7A0"
definition GP16FPD :: nat where "GP16FPD = 3"
definition GP16FFS :: "u32 \<Rightarrow> u32" where "GP16FFS f = (f AND 0x03) OR push_bit 4 (f AND 0x04)"

definition INPUT :: u8 where "INPUT = 0x00"
definition INPUT_PULLUP :: u8 where "INPUT_PULLUP = 0x02"
definition INPUT_PULLDOWN :: u8 where "INPUT_PULLDOWN = 0x04"
definition OUTPUT :: u8 where "OUTPUT = 0x01"
definition OUTPUT_OPEN_DRAIN :: u8 where "OUTPUT_OPEN_DRAIN = 0x03"
definition SPECIAL :: u8 where "SPECIAL = 0xF8"
definition FUNCTION_0 :: u8 where "FUNCTION_0 = 0x08"
definition FUNCTION_4 :: u8 where "FUNCTION_4 = 0x48"

lemmas pin_regs = ESP8266_REG_def ESP8266_DREG_def GPO_def GPOS_def GPOC_def GPE_def GPES_def GPEC_def GPI_def
  GPIE_def GPIES_def GPIEC_def GP16O_def GP16E_def GP16I_def GPC16_def GPF16_def

lemmas pin_modes = INPUT_def INPUT_PULLUP_def INPUT_PULLDOWN_def OUTPUT_def OUTPUT_OPEN_DRAIN_def SPECIAL_def
  FUNCTION_0_def FUNCTION_4_def

section \<open>Mode, level\<close>

definition pinMode :: "'h bus \<Rightarrow> u8 \<Rightarrow> u8 \<Rightarrow> 'h \<Rightarrow> 'h" where
  "pinMode b pin mode h =
     (if pin < 16
      then if mode = SPECIAL
        then let h = reg_and b (GPC pin) (push_bit GPCI 0xF) h;
                 h = reg_wr b GPEC (shl1 (unat pin)) h;
                 h = reg_wr b (GPF pin) (GPFFS (GPFFS_BUS pin)) h
          in if pin = 3 then reg_or b (GPF pin) (shl1 GPFPU) h else h
        else if mode AND FUNCTION_0 \<noteq> 0
        then let h = reg_and b (GPC pin) (push_bit GPCI 0xF) h;
                 h = reg_wr b GPEC (shl1 (unat pin)) h;
                 h = reg_wr b (GPF pin) (GPFFS (ucast (drop_bit 4 mode AND 0x07))) h
          in if pin = 13 \<and> mode = FUNCTION_4 then reg_or b (GPF pin) (shl1 GPFPU) h else h
        else if mode = OUTPUT \<or> mode = OUTPUT_OPEN_DRAIN
        then let h = reg_wr b (GPF pin) (GPFFS (GPFFS_GPIO pin)) h;
                 h = reg_and b (GPC pin) (push_bit GPCI 0xF) h;
                 h = (if mode = OUTPUT_OPEN_DRAIN then reg_or b (GPC pin) (shl1 GPCD) h else h)
          in reg_wr b GPES (shl1 (unat pin)) h
        else if mode = INPUT \<or> mode = INPUT_PULLUP \<or> mode = INPUT_PULLDOWN
        then let h = reg_wr b (GPF pin) (GPFFS (GPFFS_GPIO pin)) h;
                 h = reg_wr b GPEC (shl1 (unat pin)) h;
                 (v, h) = reg_rd b (GPC pin) h;
                 h = reg_wr b (GPC pin) (v AND push_bit GPCI 0xF OR shl1 GPCD) h
          in if mode = INPUT_PULLUP then reg_or b (GPF pin) (shl1 GPFPU) h
             else if mode = INPUT_PULLDOWN then reg_or b (GPF pin) (shl1 GPFPD) h
             else h
        else h
      else if pin = 16
      then let h = reg_wr b GPF16 (GP16FFS (GPFFS_GPIO pin)) h;
               h = reg_wr b GPC16 0 h
        in if mode = INPUT \<or> mode = INPUT_PULLDOWN
           then let h = (if mode = INPUT_PULLDOWN then reg_or b GPF16 (shl1 GP16FPD) h else h)
             in reg_and b GP16E (NOT 1) h
           else if mode = OUTPUT then reg_or b GP16E 1 h
           else h
      else h)"

definition digitalWrite :: "'h bus \<Rightarrow> u8 \<Rightarrow> u8 \<Rightarrow> 'h \<Rightarrow> 'h" where
  "digitalWrite b pin val h =
     (let val = val AND 0x01
      in if pin < 16
         then if val \<noteq> 0 then reg_wr b GPOS (shl1 (unat pin)) h else reg_wr b GPOC (shl1 (unat pin)) h
         else if pin = 16
         then if val \<noteq> 0 then reg_or b GP16O 1 h else reg_and b GP16O (NOT 1) h
         else h)"

definition digitalRead :: "'h bus \<Rightarrow> u8 \<Rightarrow> 'h \<Rightarrow> int \<times> 'h" where
  "digitalRead b pin h =
     (if pin < 16
      then case reg_rd b GPI h of (v, h) \<Rightarrow> (of_bool (v AND shl1 (unat (pin AND 0xF)) \<noteq> 0), h)
      else if pin = 16
      then case reg_rd b GP16I h of (v, h) \<Rightarrow> (uint (v AND 0x01), h)
      else (0, h))"

section \<open>Pin interrupts\<close>

text \<open>A handler is a value of type \<open>'f\<close>; \<open>call\<close> runs it.  \<open>intr_on\<close> is the mask the SDK macros
  \<^verbatim>\<open>ETS_GPIO_INTR_ENABLE/DISABLE\<close> set, \<open>intr_attached\<close> says that \<^verbatim>\<open>interrupt_handler\<close> was attached.\<close>

record 'f pin_irqs =
  irq_mode :: "u8 list"
  irq_fn :: "'f option list"
  interrupt_reg :: u32
  intr_on :: bool
  intr_attached :: bool

fun handle_pins ::
  "'h bus \<Rightarrow> ('f \<Rightarrow> 'h \<Rightarrow> 'h) \<Rightarrow> 'f pin_irqs \<Rightarrow> u32 \<Rightarrow> nat list \<Rightarrow> 'h \<Rightarrow> 'h option" where
  "handle_pins b call g changedbits [] h = Some h"
| "handle_pins b call g changedbits (i # is) h =
     (if bit changedbits i
      then if i < length (irq_mode g) \<and> i < length (irq_fn g)
        then (let (v, h) = digitalRead b (word_of_nat i) h;
                  h = (if uint (irq_mode g ! i AND 1) = v
                       then case irq_fn g ! i of None \<Rightarrow> h | Some f \<Rightarrow> call f h else h)
              in handle_pins b call g changedbits is h)
        else None
      else handle_pins b call g changedbits is h)"

text \<open>The inner loop over \<^verbatim>\<open>i\<close> finds the set bits in ascending order.\<close>

definition interrupt_handler ::
  "'h bus \<Rightarrow> ('f \<Rightarrow> 'h \<Rightarrow> 'h) \<Rightarrow> 'f pin_irqs \<Rightarrow> 'h \<Rightarrow> ('f pin_irqs \<times> 'h) option" where
  "interrupt_handler b call g h =
     (let (status, h) = reg_rd b GPIE h;
          h = reg_wr b GPIEC status h
      in if status = 0 \<or> interrupt_reg g = 0 then Some (g, h)
         else do {
           h \<leftarrow> handle_pins b call g (status AND interrupt_reg g) [0..<32] h;
           Some (g\<lparr>intr_on := True\<rparr>, h) })"

definition attachInterrupt ::
  "'h bus \<Rightarrow> u8 \<Rightarrow> 'f option \<Rightarrow> int \<Rightarrow> 'f pin_irqs \<Rightarrow> 'h \<Rightarrow> 'f pin_irqs \<times> 'h" where
  "attachInterrupt b pin userFunc mode g h =
     (if pin < 16
      then let g = g\<lparr>irq_mode := (irq_mode g)[unat pin := word_of_int mode], irq_fn := (irq_fn g)[unat pin := userFunc],
                     interrupt_reg := interrupt_reg g OR shl1 (unat pin)\<rparr>;
               h = reg_and b (GPC pin) (NOT (push_bit GPCI 0xF)) h;
               h = reg_wr b GPIEC (shl1 (unat pin)) h;
               h = reg_or b (GPC pin) (push_bit GPCI (word_of_int mode AND 0xF)) h
        in (g, h)
      else (g, h))"

definition detachInterrupt :: "'h bus \<Rightarrow> u8 \<Rightarrow> 'f pin_irqs \<Rightarrow> 'h \<Rightarrow> 'f pin_irqs \<times> 'h" where
  "detachInterrupt b pin g h =
     (if pin < 16
      then let h = reg_and b (GPC pin) (NOT (push_bit GPCI 0xF)) h;
               h = reg_wr b GPIEC (shl1 (unat pin)) h
        in (g\<lparr>interrupt_reg := interrupt_reg g AND NOT (shl1 (unat pin)),
              irq_mode := (irq_mode g)[unat pin := 0], irq_fn := (irq_fn g)[unat pin := None]\<rparr>, h)
      else (g, h))"

section \<open>Properties\<close>

definition pins :: "u8 list" where "pins = [0, 1, 2, 3, 4, 5, 6, 7, 8, 9, 10, 11, 12, 13, 14, 15]"

lemma pin_in_pins: "p < 16 \<Longrightarrow> p \<in> set pins"
proof -
  assume "p < 16"
  then have "unat p < 16" by (simp add: word_less_nat_alt)
  then have "unat p \<in> set [0..<16]" by simp
  then have "unat p \<in> {0, 1, 2, 3, 4, 5, 6, 7, 8, 9, 10, 11, 12, 13, 14, 15}" by (simp add: upt_rec numeral_eq_Suc)
  then have "(word_of_nat (unat p) :: u8) \<in> word_of_nat ` {0, 1, 2, 3, 4, 5, 6, 7, 8, 9, 10, 11, 12, 13, 14, 15}" by (rule imageI)
  then show ?thesis by (simp add: pins_def)
qed

text \<open>The registers of different pins are different, and different from the shared ones.\<close>

lemma pin_registers_table: "distinct (map GPC pins @ map GPF pins @ [GPES, GPEC])"
  by (simp add: pins_def GPC_def GPF_def esp8266_gpioToFn_def pin_regs)

lemma pin_registers:
  assumes "p < 16" "q < 16"
  shows "GPC p = GPC q \<longleftrightarrow> p = q" "GPF p = GPF q \<longleftrightarrow> p = q" "GPC p \<noteq> GPF q"
    "GPC p \<noteq> GPES" "GPC p \<noteq> GPEC" "GPF p \<noteq> GPES" "GPF p \<noteq> GPEC"
proof -
  note mem = pin_in_pins [OF assms(1)] pin_in_pins [OF assms(2)]
  have i: "inj_on GPC (set pins)" "inj_on GPF (set pins)" and d: "GPC ` set pins \<inter> GPF ` set pins = {}"
    and e: "GPES \<notin> GPC ` set pins \<union> GPF ` set pins" "GPEC \<notin> GPC ` set pins \<union> GPF ` set pins"
    using pin_registers_table by (auto simp: distinct_map)
  show "GPC p = GPC q \<longleftrightarrow> p = q" "GPF p = GPF q \<longleftrightarrow> p = q" using i mem by (auto dest: inj_onD)
  show "GPC p \<noteq> GPF q" using d mem by blast
  show "GPC p \<noteq> GPES" "GPC p \<noteq> GPEC" "GPF p \<noteq> GPES" "GPF p \<noteq> GPEC" using e mem by (metis Un_iff image_eqI)+
qed

lemma pinMode_frame:
  assumes "p < 16" "x \<noteq> GPC p" "x \<noteq> GPF p" "x \<noteq> GPES" "x \<noteq> GPEC"
  shows "pinMode ram_bus p mode m x = m x"
proof -
  consider "mode = SPECIAL" | "mode \<noteq> SPECIAL" "mode AND FUNCTION_0 \<noteq> 0"
    | "mode \<noteq> SPECIAL" "\<not> mode AND FUNCTION_0 \<noteq> 0" by blast
  then show ?thesis
    using assms unfolding pinMode_def Let_def by cases (simp_all only: if_True if_False if_distribR if_cancel ram_bus_simps ram_bus_other fun_upd_other split_conv simp_thms not_False_eq_True)
qed

lemma pin_registers_distinct:
  assumes "p < 16" "q < 16" "p \<noteq> q"
  shows "pinMode ram_bus p mode m (GPC q) = m (GPC q) \<and> pinMode ram_bus p mode m (GPF q) = m (GPF q)"
proof -
  note t = pin_registers [OF assms(2,1)] and s = pin_registers(3) [OF assms(1,2)]
  have n: "GPC q \<noteq> GPC p" "GPF q \<noteq> GPF p" using t(1,2) assms(3) by simp_all
  show ?thesis using n t(3-7) s by (metis pinMode_frame [OF assms(1)])
qed

text \<open>\<^verbatim>\<open>CHANGE\<close> is 3, and a handler only runs when the lowest bit of its mode is the level read back: a pin
  attached for changes is not heard when it goes low.\<close>

lemma change_misses_falling:
  assumes "m GPI = 0" "i < length (irq_mode g)" "i < length (irq_fn g)" "irq_mode g ! i = 3" "i < 16"
  shows "handle_pins ram_bus call g (shl1 i) [i] m = Some m"
proof -
  have "(word_of_nat i :: u8) < 16" using assms(5) by (simp add: word_less_nat_alt unat_of_nat)
  then show ?thesis using assms by (simp add: digitalRead_def)
qed

end
