(* ===== verification/Cbuf.thy ===== *)
theory Cbuf imports WString begin

text \<open>
  The ring buffer of the serial port (\<^verbatim>\<open>cbuf.h\<close>) and the queue of bytes it stands for.  The pointers are
  offsets into the block; an access outside of it is \<open>None\<close>.  The locale \<open>byte_queue\<close> is the contract the
  serial port relies on, \<open>queue_do\<close> the abstract queue that whole sequences of operations refine.
\<close>

section \<open>The buffer\<close>

record cbuf =
  csize :: nat
  cbytes :: "u8 list"
  cbegin :: nat
  cend :: nat

text \<open>\<open>mem\<close> is the content of the block \<^verbatim>\<open>new char[size]\<close> returns.\<close>

definition new_cbuf :: "nat \<Rightarrow> u8 list \<Rightarrow> cbuf" where
  "new_cbuf n mem = \<lparr>csize = n, cbytes = take n mem, cbegin = 0, cend = 0\<rparr>"

definition cbuf_getSize :: "cbuf \<Rightarrow> nat" where
  "cbuf_getSize b = (if cend b \<ge> cbegin b then cend b - cbegin b else csize b - (cbegin b - cend b))"

text \<open>\<^verbatim>\<open>size_t\<close> arithmetic: an empty buffer of size 0 has room for \<^verbatim>\<open>2^32 - 1\<close> bytes.\<close>

definition cbuf_room :: "cbuf \<Rightarrow> nat" where
  "cbuf_room b =
     (if cend b \<ge> cbegin b then (csize b + 2 ^ 32 - (cend b - cbegin b) - 1) mod 2 ^ 32 else cbegin b - cend b - 1)"

definition cbuf_empty :: "cbuf \<Rightarrow> bool" where
  "cbuf_empty b \<longleftrightarrow> cbegin b = cend b"

definition cbuf_peek :: "cbuf \<Rightarrow> int option" where
  "cbuf_peek b =
     (if cend b = cbegin b then Some (- 1)
      else if cbegin b < length (cbytes b) then Some (uint (cbytes b ! cbegin b)) else None)"

definition cbuf_read :: "cbuf \<Rightarrow> (int \<times> cbuf) option" where
  "cbuf_read b =
     (if cbuf_getSize b = 0 then Some (- 1, b)
      else if cbegin b < length (cbytes b)
      then let result = cbytes b ! cbegin b; bg = cbegin b + 1
           in Some (uint result, b\<lparr>cbegin := (if bg = csize b then 0 else bg)\<rparr>)
      else None)"

text \<open>The result holds the bytes copied to \<^verbatim>\<open>dst\<close>; their number is the one returned.\<close>

definition cbuf_read_bytes :: "nat \<Rightarrow> cbuf \<Rightarrow> (u8 list \<times> cbuf) option" where
  "cbuf_read_bytes n b =
     (let bytes_available = cbuf_getSize b;
          size_to_read = (if n < bytes_available then n else bytes_available);
          (top, b, size_to_read) =
            (if cend b < cbegin b \<and> size_to_read > csize b - cbegin b
             then (drop (cbegin b) (cbytes b), b\<lparr>cbegin := 0\<rparr>, size_to_read - (csize b - cbegin b))
             else ([], b, size_to_read))
      in if cbegin b + size_to_read > length (cbytes b) then None
         else let dst = top @ slice (cbegin b) size_to_read (cbytes b); bg = cbegin b + size_to_read
              in Some (dst, b\<lparr>cbegin := (if bg = csize b then 0 else bg)\<rparr>))"

definition cbuf_write :: "u8 \<Rightarrow> cbuf \<Rightarrow> (nat \<times> cbuf) option" where
  "cbuf_write c b =
     (if cbuf_room b = 0 then Some (0, b)
      else do {
        bs \<leftarrow> mem_put (cend b) [c] (cbytes b);
        let en = cend b + 1;
        Some (1, b\<lparr>cbytes := bs, cend := (if en = csize b then 0 else en)\<rparr>) })"

definition cbuf_write_bytes :: "u8 list \<Rightarrow> cbuf \<Rightarrow> (nat \<times> cbuf) option" where
  "cbuf_write_bytes src b =
     (let bytes_available = cbuf_room b;
          size_to_write = (if length src < bytes_available then length src else bytes_available)
      in do {
        (b, src, left) \<leftarrow>
          (if cend b > cbegin b \<and> size_to_write > csize b - cend b
           then do {
             bs \<leftarrow> mem_put (cend b) (take (csize b - cend b) src) (cbytes b);
             Some (b\<lparr>cbytes := bs, cend := 0\<rparr>, drop (csize b - cend b) src, size_to_write - (csize b - cend b)) }
           else Some (b, src, size_to_write));
        bs \<leftarrow> mem_put (cend b) (take left src) (cbytes b);
        let en = cend b + left;
        Some (size_to_write, b\<lparr>cbytes := bs, cend := (if en = csize b then 0 else en)\<rparr>) })"

definition cbuf_flush :: "cbuf \<Rightarrow> cbuf" where
  "cbuf_flush b = b\<lparr>cbegin := 0, cend := 0\<rparr>"

section \<open>The queue\<close>

definition cbuf_ok :: "cbuf \<Rightarrow> bool" where
  "cbuf_ok b \<longleftrightarrow> length (cbytes b) = csize b \<and> cbegin b < csize b \<and> cend b < csize b \<and> csize b < 2 ^ 32"

definition queued :: "cbuf \<Rightarrow> u8 list" where
  "queued b = (if cend b \<ge> cbegin b then slice (cbegin b) (cend b - cbegin b) (cbytes b)
     else drop (cbegin b) (cbytes b) @ take (cend b) (cbytes b))"

lemma length_queued: "cbuf_ok b \<Longrightarrow> length (queued b) = cbuf_getSize b"
  by (auto simp: cbuf_ok_def queued_def cbuf_getSize_def)

lemma queued_bound: "cbuf_ok b \<Longrightarrow> length (queued b) < csize b"
  by (auto simp: cbuf_ok_def queued_def)

lemma cbuf_room_queued: "cbuf_ok b \<Longrightarrow> cbuf_room b = csize b - 1 - length (queued b)"
proof -
  assume ok: "cbuf_ok b"
  show ?thesis
  proof (cases "cend b \<ge> cbegin b")
    case True
    let ?r = "csize b - 1 - (cend b - cbegin b)"
    have "csize b + 2 ^ 32 - (cend b - cbegin b) - 1 = ?r + 2 ^ 32" "?r < 2 ^ 32"
      using ok True by (auto simp: cbuf_ok_def)
    then have "(csize b + 2 ^ 32 - (cend b - cbegin b) - 1) mod 2 ^ 32 = ?r" by (simp only: mod_add_self2 mod_less)
    then show ?thesis using ok True by (simp add: cbuf_room_def length_queued cbuf_getSize_def)
  next
    case False
    then show ?thesis using ok by (simp add: cbuf_room_def length_queued cbuf_getSize_def cbuf_ok_def)
  qed
qed

lemma cbuf_empty_queued: "cbuf_ok b \<Longrightarrow> cbuf_empty b \<longleftrightarrow> queued b = []"
  by (auto simp: cbuf_ok_def cbuf_empty_def queued_def slice_def)

lemma new_cbuf_ok: "0 < n \<Longrightarrow> n < 2 ^ 32 \<Longrightarrow> n \<le> length mem \<Longrightarrow> cbuf_ok (new_cbuf n mem) \<and> queued (new_cbuf n mem) = []"
  by (simp add: new_cbuf_def cbuf_ok_def queued_def)

lemma cbuf_flush_ok: "cbuf_ok b \<Longrightarrow> cbuf_ok (cbuf_flush b) \<and> queued (cbuf_flush b) = []"
  by (auto simp: cbuf_flush_def cbuf_ok_def queued_def)

lemma cbuf_peek_queued: "cbuf_ok b \<Longrightarrow> cbuf_peek b = Some (case queued b of [] \<Rightarrow> - 1 | c # _ \<Rightarrow> uint c)"
proof -
  assume ok: "cbuf_ok b"
  show ?thesis
  proof (cases "cbegin b = cend b")
    case False
    then have "hd (queued b) = cbytes b ! cbegin b" "queued b \<noteq> []"
      using ok by (auto simp: cbuf_ok_def queued_def slice_def hd_drop_conv_nth hd_append)
    then show ?thesis using ok False by (cases "queued b") (auto simp: cbuf_peek_def cbuf_ok_def)
  qed (simp add: cbuf_peek_def queued_def)
qed

lemma cbuf_read_queued:
  assumes "cbuf_ok b"
  shows "cbuf_read b = Some (- 1, b) \<and> queued b = [] \<or>
    (\<exists>c r b'. queued b = c # r \<and> cbuf_read b = Some (uint c, b') \<and> cbuf_ok b' \<and> csize b' = csize b \<and> queued b' = r)"
proof (cases "cbuf_getSize b = 0")
  case True
  then show ?thesis using length_queued [OF assms] by (simp add: cbuf_read_def)
next
  case False
  let ?b = "b\<lparr>cbegin := (if cbegin b + 1 = csize b then 0 else cbegin b + 1)\<rparr>"
  have ok: "length (cbytes b) = csize b" "cbegin b < csize b" "cend b < csize b" using assms by (simp_all add: cbuf_ok_def)
  have d: "drop (cbegin b) (cbytes b) = cbytes b ! cbegin b # drop (Suc (cbegin b)) (cbytes b)"
    using ok by (simp add: Cons_nth_drop_Suc)
  have "queued b = cbytes b ! cbegin b # queued ?b"
  proof (cases "cend b \<ge> cbegin b")
    case True
    then have "cbegin b < cend b" using False by (simp add: cbuf_getSize_def)
    then obtain j where "cend b = Suc (cbegin b + j)" using less_imp_Suc_add by blast
    then show ?thesis using ok d by (simp add: queued_def slice_def)
  next
    case f: False
    then show ?thesis using ok d by (auto simp: queued_def slice_def)
  qed
  moreover have "cbuf_read b = Some (uint (cbytes b ! cbegin b), ?b)" using False ok by (simp add: cbuf_read_def Let_def)
  moreover have "cbuf_ok ?b" using assms by (auto simp: cbuf_ok_def)
  ultimately show ?thesis by auto
qed

lemma cbuf_write_queued:
  assumes "cbuf_ok b"
  shows "cbuf_room b = 0 \<and> cbuf_write c b = Some (0, b) \<or>
    0 < cbuf_room b \<and> (\<exists>b'. cbuf_write c b = Some (1, b') \<and> cbuf_ok b' \<and> csize b' = csize b \<and> queued b' = queued b @ [c])"
proof (cases "cbuf_room b = 0")
  case False
  let ?b = "b\<lparr>cbytes := (cbytes b)[cend b := c], cend := (if cend b + 1 = csize b then 0 else cend b + 1)\<rparr>"
  have ok: "length (cbytes b) = csize b" "cbegin b < csize b" "cend b < csize b" using assms by (simp_all add: cbuf_ok_def)
  have put: "mem_put (cend b) [c] (cbytes b) = Some ((cbytes b)[cend b := c])"
    using ok by (simp add: mem_put_def blit_def upd_conv_take_nth_drop)
  have "queued ?b = queued b @ [c]"
  proof (cases "cend b \<ge> cbegin b")
    case True
    have sl: "slice (cbegin b) (Suc (cend b - cbegin b)) ((cbytes b)[cend b := c]) = slice (cbegin b) (cend b - cbegin b) (cbytes b) @ [c]"
      using True ok by (simp add: slice_def take_Suc_conv_app_nth drop_update_swap)
    show ?thesis
    proof (cases "cend b + 1 = csize b")
      case w: True
      have "0 < cbegin b"
        using False True ok w assms by (cases "cbegin b") (auto simp: cbuf_room_queued length_queued cbuf_getSize_def)
      moreover have "drop (cbegin b) ((cbytes b)[cend b := c]) = slice (cbegin b) (Suc (cend b - cbegin b)) ((cbytes b)[cend b := c])"
        using w ok True by (simp add: slice_def)
      ultimately show ?thesis using True w sl by (simp add: queued_def)
    qed (use True sl in \<open>simp add: queued_def Suc_diff_le\<close>)
  next
    case f: False
    then have "cend b + 1 < cbegin b" using False by (simp add: cbuf_room_def)
    then show ?thesis using ok f by (simp add: queued_def take_Suc_conv_app_nth)
  qed
  moreover have "cbuf_write c b = Some (1, ?b)" using False put by (simp add: cbuf_write_def Let_def)
  moreover have "cbuf_ok ?b" using assms by (auto simp: cbuf_ok_def)
  ultimately show ?thesis using False by auto
qed (simp add: cbuf_write_def)

lemma cbuf_read_bytes_queued:
  assumes "cbuf_ok b"
  shows "\<exists>b'. cbuf_read_bytes n b = Some (take n (queued b), b') \<and> cbuf_ok b' \<and> csize b' = csize b \<and> queued b' = drop n (queued b)"
proof -
  have ok: "length (cbytes b) = csize b" "cbegin b < csize b" "cend b < csize b" using assms by (simp_all add: cbuf_ok_def)
  obtain k where k: "(if n < cbuf_getSize b then n else cbuf_getSize b) = k" by blast
  then have kle: "k \<le> cbuf_getSize b" by auto
  have tk: "take n (queued b) = take k (queued b)" "drop n (queued b) = drop k (queued b)"
    using length_queued [OF assms] k by auto
  show ?thesis
  proof (cases "cend b < cbegin b \<and> k > csize b - cbegin b")
    case True
    let ?l = "k - (csize b - cbegin b)"
    have kk: "csize b \<le> k + cbegin b" using True by linarith
    have l: "?l \<le> cend b" using True ok kle by (auto simp: cbuf_getSize_def)
    let ?b = "b\<lparr>cbegin := ?l\<rparr>"
    have "?l < csize b" using l ok by linarith
    moreover have "0 + ?l \<le> csize b" "?l \<noteq> csize b" using \<open>?l < csize b\<close> by simp_all
    ultimately have "cbuf_read_bytes n b = Some (drop (cbegin b) (cbytes b) @ take ?l (cbytes b), ?b)"
      using True ok l unfolding cbuf_read_bytes_def k Let_def by (simp add: slice_def)
    moreover have "take k (queued b) = drop (cbegin b) (cbytes b) @ take ?l (cbytes b)"
      using True ok l by (simp add: queued_def)
    moreover have "drop k (queued b) = queued ?b"
      using True ok l kk by (simp add: queued_def slice_def drop_take)
    moreover have "cbuf_ok ?b" using assms \<open>?l < csize b\<close> by (simp add: cbuf_ok_def)
    ultimately show ?thesis unfolding tk by auto
  next
    case False
    have fit: "cbegin b + k \<le> csize b" using False ok kle by (auto simp: cbuf_getSize_def)
    let ?b = "b\<lparr>cbegin := (if cbegin b + k = csize b then 0 else cbegin b + k)\<rparr>"
    have "cbuf_read_bytes n b = Some (slice (cbegin b) k (cbytes b), ?b)"
      using False ok fit unfolding cbuf_read_bytes_def k Let_def by auto
    moreover have "take k (queued b) = slice (cbegin b) k (cbytes b)"
      using False ok fit kle by (auto simp: queued_def slice_def cbuf_getSize_def)
    moreover have "drop k (queued b) = queued ?b"
    proof (cases "cend b \<ge> cbegin b")
      case True
      then have "cbegin b + k \<le> cend b" using kle by (auto simp: cbuf_getSize_def)
      then show ?thesis using True ok by (auto simp: queued_def slice_def drop_take add.commute)
    qed (use ok fit False in \<open>auto simp: queued_def slice_def add.commute\<close>)
    moreover have "cbuf_ok ?b" using assms fit by (auto simp: cbuf_ok_def)
    ultimately show ?thesis unfolding tk by auto
  qed
qed

text \<open>
  The bulk write splits a wrapping copy only when \<^verbatim>\<open>_end > _begin\<close>: with an empty buffer whose pointers are not
  at the start it copies across the end of the block.
\<close>

definition bulk_write_fits :: "nat \<Rightarrow> cbuf \<Rightarrow> bool" where
  "bulk_write_fits n b \<longleftrightarrow> (cend b = cbegin b \<longrightarrow> min n (csize b - 1) \<le> csize b - cend b)"

lemma cbuf_write_bytes_overrun:
  assumes "cbuf_ok b" "\<not> bulk_write_fits (length src) b"
  shows "cbuf_write_bytes src b = None"
proof -
  have e: "cend b = cbegin b" "csize b - cend b < length src" "csize b - cend b < csize b - 1" "length (cbytes b) = csize b"
    using assms by (auto simp: bulk_write_fits_def cbuf_ok_def)
  then have "cbuf_room b = csize b - 1" using assms(1) by (simp add: cbuf_room_queued queued_def slice_def)
  then show ?thesis using e by (auto simp: cbuf_write_bytes_def Let_def mem_put_def)
qed

lemma cbuf_write_bytes_queued:
  assumes "cbuf_ok b" "bulk_write_fits (length src) b"
  shows "\<exists>b'. cbuf_write_bytes src b = Some (min (length src) (cbuf_room b), b') \<and> cbuf_ok b' \<and> csize b' = csize b \<and>
    queued b' = queued b @ take (cbuf_room b) src"
proof -
  have ok: "length (cbytes b) = csize b" "cbegin b < csize b" "cend b < csize b" using assms by (simp_all add: cbuf_ok_def)
  obtain n where n: "min (length src) (cbuf_room b) = n" by blast
  have st: "(if length src < cbuf_room b then length src else cbuf_room b) = n" using n by auto
  have nl: "n \<le> length src" "n \<le> cbuf_room b" using n by auto
  have tk: "take (cbuf_room b) src = take n src" using n by (auto simp: min_def split: if_splits)
  have room: "cbuf_room b = csize b - 1 - length (queued b)" by (rule cbuf_room_queued [OF assms(1)])
  show ?thesis
  proof (cases "cend b > cbegin b \<and> n > csize b - cend b")
    case True
    obtain t where t: "csize b = cend b + t" using ok(3) by (metis le_add_diff_inverse less_imp_le)
    then have "t \<le> n" using True by simp
    then obtain r where r: "n = t + r" using le_Suc_ex by blast
    have t0: "csize b - cend b = t" "n - t = r" using t r by simp_all
    have lt: "r < cbegin b" using True nl room ok t r length_queued [OF assms(1)] by (auto simp: cbuf_getSize_def)
    let ?bs = "blit 0 (take r (drop t src)) (take (cend b) (cbytes b) @ take t src)"
    let ?b = "b\<lparr>cbytes := ?bs, cend := r\<rparr>"
    have len: "length (take r (drop t src)) = r" "length (take t src) = t" "length ?bs = csize b"
      using nl True ok lt t r by (auto simp: blit_def)
    have "cbuf_write_bytes src b = Some (n, ?b)"
      using True ok nl len lt t unfolding cbuf_write_bytes_def st Let_def t0 by (simp add: mem_put_def t0) (simp add: blit_def)
    moreover have "queued ?b = queued b @ take n src"
    proof -
      have a: "drop (cbegin b) ?bs = slice (cbegin b) (cend b - cbegin b) (cbytes b) @ take t src"
        using True ok lt len(1) by (simp add: blit_def slice_def drop_take)
      have c: "take r ?bs = take r (drop t src)" using len(1) by (simp add: blit_def)
      show ?thesis using lt True a c by (simp add: queued_def r take_add)
    qed
    moreover have "cbuf_ok ?b" using assms lt len ok by (simp add: cbuf_ok_def)
    ultimately show ?thesis unfolding tk n by auto
  next
    case False
    have fit: "cend b + n \<le> csize b"
    proof (cases "cend b = cbegin b")
      case True
      then have "n \<le> csize b - cend b" using assms nl room n by (auto simp: bulk_write_fits_def queued_def slice_def)
      then show ?thesis using ok by linarith
    next
      case ne: False
      then show ?thesis using False nl ok room length_queued [OF assms(1)] by (auto simp: cbuf_getSize_def split: if_splits)
    qed
    let ?bs = "blit (cend b) (take n src) (cbytes b)"
    let ?b = "b\<lparr>cbytes := ?bs, cend := (if cend b + n = csize b then 0 else cend b + n)\<rparr>"
    have len: "length ?bs = csize b" using fit nl ok by (simp add: blit_def)
    have "cbuf_write_bytes src b = Some (n, ?b)"
      using False ok nl fit unfolding cbuf_write_bytes_def st Let_def by (auto simp: mem_put_def)
    moreover have "queued ?b = queued b @ take n src"
    proof (cases "cend b \<ge> cbegin b")
      case True
      have a: "slice (cbegin b) (cend b + n - cbegin b) ?bs = slice (cbegin b) (cend b - cbegin b) (cbytes b) @ take n src"
        using True fit nl ok by (simp add: blit_def slice_def drop_take)
      have "cend b + n = csize b \<Longrightarrow> 0 < cbegin b"
        using nl room ok True length_queued [OF assms(1)] by (cases "cbegin b") (auto simp: cbuf_getSize_def)
      moreover have "cend b + n = csize b \<Longrightarrow> drop (cbegin b) ?bs = slice (cbegin b) (cend b + n - cbegin b) ?bs"
        using len by (simp add: slice_def)
      ultimately show ?thesis using True a by (auto simp: queued_def)
    next
      case f: False
      then have "cend b + n < cbegin b" using nl room ok length_queued [OF assms(1)] by (auto simp: cbuf_getSize_def)
      then show ?thesis using f ok nl by (simp add: queued_def blit_def)
    qed
    moreover have "cbuf_ok ?b" using assms fit len by (auto simp: cbuf_ok_def)
    ultimately show ?thesis unfolding tk n by auto
  qed
qed

section \<open>The contract\<close>

locale byte_queue =
  fixes ok :: "'b \<Rightarrow> bool"
    and contents :: "'b \<Rightarrow> u8 list"
    and space :: "'b \<Rightarrow> nat"
    and put :: "u8 \<Rightarrow> 'b \<Rightarrow> (nat \<times> 'b) option"
    and get :: "'b \<Rightarrow> (int \<times> 'b) option"
  assumes put_space: "ok b \<Longrightarrow> 0 < space b \<Longrightarrow>
      \<exists>b'. put c b = Some (1, b') \<and> ok b' \<and> contents b' = contents b @ [c] \<and> space b' = space b - 1"
    and get_first: "ok b \<Longrightarrow> contents b = c # r \<Longrightarrow>
      \<exists>b'. get b = Some (uint c, b') \<and> ok b' \<and> contents b' = r \<and> space b' = space b + 1"
begin

fun put_all :: "u8 list \<Rightarrow> 'b \<Rightarrow> 'b option" where
  "put_all [] b = Some b"
| "put_all (c # cs) b = do { (_, b) \<leftarrow> put c b; put_all cs b }"

fun get_all :: "nat \<Rightarrow> 'b \<Rightarrow> (u8 list \<times> 'b) option" where
  "get_all 0 b = Some ([], b)"
| "get_all (Suc n) b = do { (c, b) \<leftarrow> get b; (cs, b) \<leftarrow> get_all n b; Some (word_of_int c # cs, b) }"

lemma put_all_appends:
  "ok b \<Longrightarrow> length cs \<le> space b \<Longrightarrow>
   \<exists>b'. put_all cs b = Some b' \<and> ok b' \<and> contents b' = contents b @ cs \<and> space b' = space b - length cs"
proof (induction cs arbitrary: b)
  case (Cons c cs)
  then obtain b' where b: "put c b = Some (1, b')" "ok b'" "contents b' = contents b @ [c]" "space b' = space b - 1"
    using put_space [of b c] by auto
  with Cons.IH [of b'] Cons.prems show ?case by auto
qed simp

lemma get_all_takes:
  "ok b \<Longrightarrow> n \<le> length (contents b) \<Longrightarrow>
   \<exists>b'. get_all n b = Some (take n (contents b), b') \<and> ok b' \<and> contents b' = drop n (contents b) \<and>
     space b' = space b + n"
proof (induction n arbitrary: b)
  case (Suc n)
  obtain c r where cr: "contents b = c # r" using Suc.prems(2) by (cases "contents b") auto
  then obtain b' where b: "get b = Some (uint c, b')" "ok b'" "contents b' = r" "space b' = space b + 1"
    using get_first [OF Suc.prems(1)] by auto
  with Suc.IH [of b'] Suc.prems cr show ?case by auto
qed simp

end

interpretation tx_queue: byte_queue cbuf_ok queued cbuf_room cbuf_write cbuf_read
proof unfold_locales
  fix b c
  assume ok: "cbuf_ok b" and r: "0 < cbuf_room b"
  from cbuf_write_queued [OF ok, of c] r obtain b'
    where b': "cbuf_write c b = Some (1, b')" "cbuf_ok b'" "csize b' = csize b" "queued b' = queued b @ [c]" by auto
  moreover have "cbuf_room b' = cbuf_room b - 1"
    using b' by (simp add: cbuf_room_queued [OF ok] cbuf_room_queued [OF b'(2)])
  ultimately show "\<exists>b'. cbuf_write c b = Some (1, b') \<and> cbuf_ok b' \<and> queued b' = queued b @ [c] \<and> cbuf_room b' = cbuf_room b - 1"
    by auto
next
  fix b c r
  assume ok: "cbuf_ok b" and q: "queued b = c # r"
  from cbuf_read_queued [OF ok] q obtain b'
    where b': "cbuf_read b = Some (uint c, b')" "cbuf_ok b'" "csize b' = csize b" "queued b' = r" by auto
  moreover have "cbuf_room b' = cbuf_room b + 1"
    using b' q queued_bound [OF ok] by (simp add: cbuf_room_queued [OF ok] cbuf_room_queued [OF b'(2)])
  ultimately show "\<exists>b'. cbuf_read b = Some (uint c, b') \<and> cbuf_ok b' \<and> queued b' = r \<and> cbuf_room b' = cbuf_room b + 1"
    by auto
qed

section \<open>Sequences of operations\<close>

text \<open>The calls of a client and what they return, on the buffer and on a bounded queue of bytes.\<close>

datatype cbuf_op = Put u8 | Get | Get_bytes nat | Peek | Size | Room | Empty | Flush

fun cbuf_do :: "cbuf_op \<Rightarrow> cbuf \<Rightarrow> (int list \<times> cbuf) option" where
  "cbuf_do (Put c) b = map_option (\<lambda>(n, b). ([int n], b)) (cbuf_write c b)"
| "cbuf_do Get b = map_option (\<lambda>(c, b). ([c], b)) (cbuf_read b)"
| "cbuf_do (Get_bytes n) b = map_option (\<lambda>(cs, b). (map uint cs, b)) (cbuf_read_bytes n b)"
| "cbuf_do Peek b = map_option (\<lambda>c. ([c], b)) (cbuf_peek b)"
| "cbuf_do Size b = Some ([int (cbuf_getSize b)], b)"
| "cbuf_do Room b = Some ([int (cbuf_room b)], b)"
| "cbuf_do Empty b = Some ([of_bool (cbuf_empty b)], b)"
| "cbuf_do Flush b = Some ([], cbuf_flush b)"

fun queue_do :: "nat \<Rightarrow> cbuf_op \<Rightarrow> u8 list \<Rightarrow> int list \<times> u8 list" where
  "queue_do cap (Put c) q = (if length q < cap then ([1], q @ [c]) else ([0], q))"
| "queue_do cap Get q = (case q of [] \<Rightarrow> ([- 1], q) | c # r \<Rightarrow> ([uint c], r))"
| "queue_do cap (Get_bytes n) q = (map uint (take n q), drop n q)"
| "queue_do cap Peek q = ([case q of [] \<Rightarrow> - 1 | c # _ \<Rightarrow> uint c], q)"
| "queue_do cap Size q = ([int (length q)], q)"
| "queue_do cap Room q = ([int (cap - length q)], q)"
| "queue_do cap Empty q = ([of_bool (q = [])], q)"
| "queue_do cap Flush q = ([], [])"

fun cbuf_run :: "cbuf_op list \<Rightarrow> cbuf \<Rightarrow> int list list option" where
  "cbuf_run [] b = Some []"
| "cbuf_run (x # xs) b = do { (r, b) \<leftarrow> cbuf_do x b; rs \<leftarrow> cbuf_run xs b; Some (r # rs) }"

fun queue_run :: "nat \<Rightarrow> cbuf_op list \<Rightarrow> u8 list \<Rightarrow> int list list" where
  "queue_run cap [] q = []"
| "queue_run cap (x # xs) q = (case queue_do cap x q of (r, q) \<Rightarrow> r # queue_run cap xs q)"

lemma cbuf_do_queue:
  assumes "cbuf_ok b" "queue_do (csize b - 1) x (queued b) = (r, q)"
  shows "\<exists>b'. cbuf_do x b = Some (r, b') \<and> cbuf_ok b' \<and> csize b' = csize b \<and> queued b' = q"
proof (cases x)
  case (Put c)
  then show ?thesis
    using assms cbuf_write_queued [OF assms(1), of c] cbuf_room_queued [OF assms(1)] by (auto split: if_splits)
next
  case Get
  then show ?thesis using assms cbuf_read_queued [OF assms(1)] by auto
next
  case (Get_bytes n)
  then show ?thesis using assms cbuf_read_bytes_queued [OF assms(1), of n] by auto
next
  case Flush
  then show ?thesis using assms cbuf_flush_ok [OF assms(1)] by (auto simp: cbuf_flush_def)
qed (use assms length_queued [OF assms(1)] cbuf_room_queued [OF assms(1)] cbuf_empty_queued [OF assms(1)]
    cbuf_peek_queued [OF assms(1)] in auto)

lemma cbuf_run_queue: "cbuf_ok b \<Longrightarrow> cbuf_run xs b = Some (queue_run (csize b - 1) xs (queued b))"
proof (induction xs arbitrary: b)
  case (Cons x xs)
  obtain r q where rq: "queue_do (csize b - 1) x (queued b) = (r, q)" by fastforce
  then obtain b' where "cbuf_do x b = Some (r, b')" "cbuf_ok b'" "csize b' = csize b" "queued b' = q"
    using cbuf_do_queue [OF Cons.prems rq] by blast
  then show ?case using Cons.IH [of b'] rq by simp
qed simp

text \<open>C11 (refinement). Whatever sequence of single writes, reads, bulk reads, looks and flushes is called on a
  new ring buffer of n bytes, every call returns what it would return on a queue that holds at most n - 1
  bytes, and no access leaves the block.\<close>

theorem ring_buffer_is_queue:
  assumes "0 < n" "n < 2 ^ 32" "n \<le> length mem"
  shows "cbuf_run xs (new_cbuf n mem) = Some (queue_run (n - 1) xs [])"
proof -
  have "csize (new_cbuf n mem) = n" by (simp add: new_cbuf_def)
  then show ?thesis using cbuf_run_queue new_cbuf_ok [OF assms] by metis
qed

theorem ring_buffer_is_queue_witness:
  "cbuf_run [Put 7, Put 8, Put 9, Put 5, Get, Put 6, Get_bytes 3, Get] (new_cbuf 4 [0, 0, 0, 0]) =
   Some [[1], [1], [1], [0], [7], [1], [8, 9, 6], [- 1]]"
  using ring_buffer_is_queue [of 4 "[0, 0, 0, 0]" "[Put 7, Put 8, Put 9, Put 5, Get, Put 6, Get_bytes 3, Get]"] by simp

text \<open>The bulk write is not part of this: after five single writes and reads the buffer of 8 bytes is empty with
  both pointers at 5, and a bulk write of 4 bytes leaves the block.\<close>

lemma bulk_write_leaves_block:
  "cbuf_write_bytes [1, 2, 3, 4] \<lparr>csize = 8, cbytes = replicate 8 0, cbegin = 5, cend = 5\<rparr> = None"
  by (rule cbuf_write_bytes_overrun) (simp_all add: cbuf_ok_def bulk_write_fits_def)

end
