(* ===== verification/Serial.thy ===== *)
theory Serial imports Gpio Cbuf begin

text \<open>
  The serial ports (\<^verbatim>\<open>HardwareSerial.cpp\<close>, \<^verbatim>\<open>debug.cpp\<close>): the driver of the two UARTs over the register bus of
  theory Gpio, the two transmit and receive buffers of theory Cbuf, and the interrupt handler.

  The interrupt that refills the transmitter can come between any two calls \<open>write\<close> makes.  \<open>serial_write_step\<close>
  is \<open>write\<close> cut at these points, \<open>serial_step\<close> the step relation of writer, interrupt and transmitter.
\<close>

section \<open>Registers of the UARTs\<close>

definition USWAP :: u32 where "USWAP = ESP8266_DREG 0x28"
definition USWAP0 :: nat where "USWAP0 = 2"

definition uart_reg :: "u32 \<Rightarrow> int \<Rightarrow> u32" where
  "uart_reg offs u = ESP8266_REG (offs + 0xF00 * (word_of_int u AND 1))"

definition USF :: "int \<Rightarrow> u32" where "USF u = uart_reg 0x000 u"
definition USIS :: "int \<Rightarrow> u32" where "USIS u = uart_reg 0x008 u"
definition USIE :: "int \<Rightarrow> u32" where "USIE u = uart_reg 0x00c u"
definition USIC :: "int \<Rightarrow> u32" where "USIC u = uart_reg 0x010 u"
definition USD :: "int \<Rightarrow> u32" where "USD u = uart_reg 0x014 u"
definition USS :: "int \<Rightarrow> u32" where "USS u = uart_reg 0x01C u"
definition USC0 :: "int \<Rightarrow> u32" where "USC0 u = uart_reg 0x020 u"
definition USC1 :: "int \<Rightarrow> u32" where "USC1 u = uart_reg 0x024 u"

definition UIFE :: nat where "UIFE = 1"
definition UIFF :: nat where "UIFF = 0"
definition USTXC :: nat where "USTXC = 16"
definition UCTXRST :: nat where "UCTXRST = 18"
definition UCRXRST :: nat where "UCRXRST = 17"
definition UCFET :: nat where "UCFET = 8"
definition UCFFT :: nat where "UCFFT = 0"

definition UART_TX_FIFO_SIZE :: u32 where "UART_TX_FIFO_SIZE = 0x80"
definition SERIAL_TX_BUFFER_SIZE :: nat where "SERIAL_TX_BUFFER_SIZE = 256"
definition SERIAL_RX_BUFFER_SIZE :: nat where "SERIAL_RX_BUFFER_SIZE = 256"

section \<open>The driver\<close>

definition UART0 :: int where "UART0 = 0"
definition UART1 :: int where "UART1 = 1"
definition UART_NO :: int where "UART_NO = - 1"

record uart =
  uart_nr :: int
  baud_rate :: int
  rxEnabled :: bool
  txEnabled :: bool
  rxPin :: u8
  txPin :: u8

text \<open>A \<^verbatim>\<open>uart_t*\<close> is an option.  \<open>tx_count\<close> is the fill level in the status register.\<close>

definition tx_count :: "u32 \<Rightarrow> u32" where "tx_count v = drop_bit USTXC v AND 0xff"

partial_function (option) wait_tx_fifo :: "'h bus \<Rightarrow> int \<Rightarrow> u32 \<Rightarrow> 'h \<Rightarrow> 'h option" where
  "wait_tx_fifo b u size_needed h =
     (case reg_rd b (USS u) h of (v, h) \<Rightarrow>
        if tx_count v \<le> UART_TX_FIFO_SIZE - size_needed then Some h else wait_tx_fifo b u size_needed h)"

declare wait_tx_fifo.simps [code]

definition uart_wait_for_tx_fifo :: "'h bus \<Rightarrow> uart option \<Rightarrow> u32 \<Rightarrow> 'h \<Rightarrow> 'h option" where
  "uart_wait_for_tx_fifo b uart size_needed h =
     (case uart of None \<Rightarrow> Some h
      | Some u \<Rightarrow> if txEnabled u then wait_tx_fifo b (uart_nr u) size_needed h else Some h)"

definition uart_get_tx_fifo_room :: "'h bus \<Rightarrow> uart option \<Rightarrow> 'h \<Rightarrow> u32 \<times> 'h" where
  "uart_get_tx_fifo_room b uart h =
     (case uart of None \<Rightarrow> (0, h)
      | Some u \<Rightarrow> if txEnabled u
          then case reg_rd b (USS (uart_nr u)) h of (v, h) \<Rightarrow> (UART_TX_FIFO_SIZE - tx_count v, h)
          else (0, h))"

definition uart_wait_for_transmit :: "'h bus \<Rightarrow> uart option \<Rightarrow> 'h \<Rightarrow> 'h option" where
  "uart_wait_for_transmit b uart h =
     (case uart of None \<Rightarrow> Some h
      | Some u \<Rightarrow> if txEnabled u then uart_wait_for_tx_fifo b uart UART_TX_FIFO_SIZE h else Some h)"

definition uart_transmit_char :: "'h bus \<Rightarrow> uart option \<Rightarrow> u8 \<Rightarrow> 'h \<Rightarrow> 'h" where
  "uart_transmit_char b uart c h =
     (case uart of None \<Rightarrow> h | Some u \<Rightarrow> if txEnabled u then reg_wr b (USF (uart_nr u)) (ucast c) h else h)"

text \<open>The bytes to send are taken in parts that fit the FIFO.\<close>

function transmit_parts :: "'h bus \<Rightarrow> uart \<Rightarrow> u8 list \<Rightarrow> 'h \<Rightarrow> 'h option" where
  "transmit_parts b u [] h = Some h"
| "transmit_parts b u (c # cs) h =
     (let part_size = min (unat UART_TX_FIFO_SIZE) (Suc (length cs)) in do {
        h \<leftarrow> uart_wait_for_tx_fifo b (Some u) (word_of_nat part_size) h;
        transmit_parts b u (drop part_size (c # cs))
          (fold (\<lambda>c. reg_wr b (USF (uart_nr u)) (ucast c)) (take part_size (c # cs)) h) })"
  by pat_completeness auto
termination
  by (relation "measure (\<lambda>(b, u, cs, h). length cs)") (auto simp: UART_TX_FIFO_SIZE_def)

definition uart_transmit :: "'h bus \<Rightarrow> uart option \<Rightarrow> u8 list \<Rightarrow> 'h \<Rightarrow> 'h option" where
  "uart_transmit b uart buf h =
     (case uart of None \<Rightarrow> Some h | Some u \<Rightarrow> if txEnabled u then transmit_parts b u buf h else Some h)"

definition uart_flush :: "'h bus \<Rightarrow> uart option \<Rightarrow> 'h \<Rightarrow> 'h" where
  "uart_flush b uart h =
     (case uart of None \<Rightarrow> h
      | Some u \<Rightarrow>
          (let tmp = (if rxEnabled u then shl1 UCRXRST else 0) OR (if txEnabled u then shl1 UCTXRST else 0);
               h = reg_or b (USC0 (uart_nr u)) tmp h
           in reg_and b (USC0 (uart_nr u)) (NOT tmp) h))"

text \<open>\<^verbatim>\<open>ETS_UART_INTR_ATTACH/ENABLE\<close> are SDK macros: the flag \<open>uart_intr\<close> of the state below.\<close>

definition uart_interrupt_enable :: "'h bus \<Rightarrow> uart \<Rightarrow> 'h \<Rightarrow> 'h" where
  "uart_interrupt_enable b u h =
     (let h = reg_wr b (USIC (uart_nr u)) 0x1ff h
      in if rxEnabled u then reg_or b (USIE (uart_nr u)) (shl1 UIFF) h else h)"

definition uart_interrupt_disable :: "'h bus \<Rightarrow> uart option \<Rightarrow> 'h \<Rightarrow> 'h" where
  "uart_interrupt_disable b uart h =
     (case uart of None \<Rightarrow> h
      | Some u \<Rightarrow>
          (let h = (if rxEnabled u then reg_and b (USIE (uart_nr u)) (NOT (shl1 UIFF)) h else h)
           in if txEnabled u then reg_and b (USIE (uart_nr u)) (NOT (shl1 UIFE)) h else h))"

definition uart_arm_tx_interrupt :: "'h bus \<Rightarrow> uart option \<Rightarrow> 'h \<Rightarrow> 'h" where
  "uart_arm_tx_interrupt b uart h =
     (case uart of None \<Rightarrow> h
      | Some u \<Rightarrow> if txEnabled u then reg_or b (USIE (uart_nr u)) (shl1 UIFE) h else h)"

definition uart_disarm_tx_interrupt :: "'h bus \<Rightarrow> uart option \<Rightarrow> 'h \<Rightarrow> 'h" where
  "uart_disarm_tx_interrupt b uart h =
     (case uart of None \<Rightarrow> h
      | Some u \<Rightarrow> if txEnabled u then reg_and b (USIE (uart_nr u)) (NOT (shl1 UIFE)) h else h)"

text \<open>\<^verbatim>\<open>80000000UL / baud_rate\<close> divides unsigned numbers; a rate of 0 is undefined.\<close>

definition uart_set_baudrate :: "'h bus \<Rightarrow> uart \<Rightarrow> int \<Rightarrow> 'h \<Rightarrow> (uart \<times> 'h) option" where
  "uart_set_baudrate b u rate h =
     (if (word_of_int rate :: u32) = 0 then None
      else Some (u\<lparr>baud_rate := rate\<rparr>, reg_wr b (USD (uart_nr u)) (80000000 div word_of_int rate) h))"

definition uart_get_baudrate :: "uart option \<Rightarrow> int" where
  "uart_get_baudrate uart = (case uart of None \<Rightarrow> 0 | Some u \<Rightarrow> baud_rate u)"

text \<open>\<open>mem\<close> is what \<^verbatim>\<open>os_malloc\<close> returns: the null pointer or a block with some content.\<close>

definition uart_init :: "'h bus \<Rightarrow> uart option \<Rightarrow> int \<Rightarrow> int \<Rightarrow> u8 \<Rightarrow> 'h \<Rightarrow> (uart option \<times> 'h) option" where
  "uart_init b mem nr baudrate config h =
     (case mem of None \<Rightarrow> Some (None, h)
      | Some u \<Rightarrow> do {
          let u = u\<lparr>uart_nr := nr\<rparr>;
          let (u, h) =
            (if nr = UART0
             then (u\<lparr>rxEnabled := True, txEnabled := True, rxPin := 3, txPin := 1\<rparr>,
                   pinMode b 3 SPECIAL (pinMode b 1 SPECIAL h))
             else if nr = UART1
             then (u\<lparr>rxEnabled := False, txEnabled := True, rxPin := 255, txPin := 2\<rparr>, pinMode b 2 SPECIAL h)
             else (u, h));
          (u, h) \<leftarrow> uart_set_baudrate b u baudrate h;
          let h = reg_wr b (USC0 nr) (ucast config) h;
          let h = uart_flush b (Some u) h;
          let h = uart_interrupt_enable b u h;
          let conf1 = (if rxEnabled u then push_bit UCFFT 0x01 else 0) OR
                      (if txEnabled u then push_bit UCFET 0x20 else 0);
          let h = reg_wr b (USC1 nr) conf1 h;
          Some (Some u, h) })"

definition uart_uninit :: "'h bus \<Rightarrow> uart option \<Rightarrow> 'h \<Rightarrow> 'h" where
  "uart_uninit b uart h =
     (case uart of None \<Rightarrow> h
      | Some u \<Rightarrow>
          (let h = uart_interrupt_disable b uart h;
               h = (if rxPin u = 3 then pinMode b 3 INPUT h
                    else if rxPin u = 13 then pinMode b 13 INPUT h else h)
           in if txPin u = 1 then pinMode b 1 INPUT h
              else if txPin u = 2 then pinMode b 2 INPUT h
              else if txPin u = 15 then pinMode b 15 INPUT h
              else h))"

definition uart_swap :: "'h bus \<Rightarrow> uart option \<Rightarrow> 'h \<Rightarrow> uart option \<times> 'h" where
  "uart_swap b uart h =
     (case uart of None \<Rightarrow> (None, h)
      | Some u \<Rightarrow>
          if uart_nr u = UART0
          then if txPin u = 1 \<and> rxPin u = 3
            then (let h = pinMode b 13 FUNCTION_4 (pinMode b 15 FUNCTION_4 h);
                      h = reg_or b USWAP (shl1 USWAP0) h;
                      h = pinMode b 3 INPUT (pinMode b 1 INPUT h)
                  in (Some (u\<lparr>rxPin := 13, txPin := 15\<rparr>), h))
            else (let h = pinMode b 3 SPECIAL (pinMode b 1 SPECIAL h);
                      h = reg_and b USWAP (NOT (shl1 USWAP0)) h;
                      h = pinMode b 13 INPUT (pinMode b 15 INPUT h)
                  in (Some (u\<lparr>rxPin := 3, txPin := 1\<rparr>), h))
          else (uart, h))"

section \<open>The serial port class\<close>

record hardware_serial =
  serial_nr :: int
  serial_uart :: "uart option"
  tx_buffer :: "cbuf option"
  rx_buffer :: "cbuf option"
  written :: bool

definition new_HardwareSerial :: "int \<Rightarrow> hardware_serial" where
  "new_HardwareSerial nr = \<lparr>serial_nr = nr, serial_uart = None, tx_buffer = None, rx_buffer = None, written = False\<rparr>"

text \<open>Debug output: the port chosen, and what the SDK was told with \<^verbatim>\<open>system_set_os_print\<close> and
  \<^verbatim>\<open>ets_install_putc1\<close>.\<close>

datatype putc = uart0_write_char | uart1_write_char | uart_ignore_char

record debug_output =
  debug_nr :: int
  os_print :: bool
  putc1 :: putc

definition uart_set_debug :: "int \<Rightarrow> debug_output \<Rightarrow> debug_output" where
  "uart_set_debug nr d =
     (if nr = UART0 then \<lparr>debug_nr = nr, os_print = True, putc1 = uart0_write_char\<rparr>
      else if nr = UART1 then \<lparr>debug_nr = nr, os_print = True, putc1 = uart1_write_char\<rparr>
      else \<lparr>debug_nr = nr, os_print = False, putc1 = uart_ignore_char\<rparr>)"

definition uart_get_debug :: "debug_output \<Rightarrow> int" where "uart_get_debug d = debug_nr d"

definition isTxEnabled :: "hardware_serial \<Rightarrow> bool" where
  "isTxEnabled s = (case serial_uart s of None \<Rightarrow> False | Some u \<Rightarrow> txEnabled u)"

definition isRxEnabled :: "hardware_serial \<Rightarrow> bool" where
  "isRxEnabled s = (case serial_uart s of None \<Rightarrow> False | Some u \<Rightarrow> rxEnabled u)"

text \<open>\<open>mem\<close>, \<open>rx_mem\<close> and \<open>tx_mem\<close> are the blocks the allocations return; the closing \<^verbatim>\<open>delay(1)\<close> only lets
  time pass.\<close>

definition HardwareSerial_begin ::
  "'h bus \<Rightarrow> uart option \<Rightarrow> u8 list \<Rightarrow> u8 list \<Rightarrow> int \<Rightarrow> u8 \<Rightarrow> hardware_serial \<Rightarrow> debug_output \<Rightarrow> 'h \<Rightarrow>
   (hardware_serial \<times> debug_output \<times> 'h) option" where
  "HardwareSerial_begin b mem rx_mem tx_mem baud config s d h = do {
     let d = (if uart_get_debug d = serial_nr s then uart_set_debug UART_NO d else d);
     (uart, h) \<leftarrow> uart_init b mem (serial_nr s) baud config h;
     let s = s\<lparr>serial_uart := uart\<rparr>;
     case uart of
       None \<Rightarrow> Some (s, d, h)
     | Some u \<Rightarrow>
         (let s = (if rxEnabled u \<and> rx_buffer s = None
                   then s\<lparr>rx_buffer := Some (new_cbuf SERIAL_RX_BUFFER_SIZE rx_mem)\<rparr> else s);
              s = (if txEnabled u \<and> tx_buffer s = None
                   then s\<lparr>tx_buffer := Some (new_cbuf SERIAL_TX_BUFFER_SIZE tx_mem)\<rparr> else s)
          in Some (s\<lparr>written := False\<rparr>, d, h)) }"

definition HardwareSerial_end ::
  "'h bus \<Rightarrow> hardware_serial \<Rightarrow> debug_output \<Rightarrow> 'h \<Rightarrow> hardware_serial \<times> debug_output \<times> 'h" where
  "HardwareSerial_end b s d h =
     (let d = (if uart_get_debug d = serial_nr s then uart_set_debug UART_NO d else d)
      in (s\<lparr>serial_uart := None, rx_buffer := None, tx_buffer := None\<rparr>, d, uart_uninit b (serial_uart s) h))"

definition HardwareSerial_swap :: "'h bus \<Rightarrow> hardware_serial \<Rightarrow> 'h \<Rightarrow> hardware_serial \<times> 'h" where
  "HardwareSerial_swap b s h =
     (if serial_uart s = None then (s, h)
      else case uart_swap b (serial_uart s) h of (u, h) \<Rightarrow> (s\<lparr>serial_uart := u\<rparr>, h))"

definition setDebugOutput :: "bool \<Rightarrow> hardware_serial \<Rightarrow> debug_output \<Rightarrow> debug_output" where
  "setDebugOutput en s d =
     (case serial_uart s of None \<Rightarrow> d
      | Some u \<Rightarrow> if en then uart_set_debug (uart_nr u) d
          else if uart_get_debug d = serial_nr s then uart_set_debug UART_NO d else d)"

text \<open>A buffer that is null although its direction is enabled is undefined.\<close>

definition serial_available :: "hardware_serial \<Rightarrow> int option" where
  "serial_available s = (if isRxEnabled s then map_option (\<lambda>b. int (cbuf_getSize b)) (rx_buffer s) else Some 0)"

definition serial_peek :: "hardware_serial \<Rightarrow> int option" where
  "serial_peek s = (if isRxEnabled s then Option.bind (rx_buffer s) cbuf_peek else Some (- 1))"

definition serial_read :: "hardware_serial \<Rightarrow> (int \<times> hardware_serial) option" where
  "serial_read s =
     (if isRxEnabled s
      then do {
        rb \<leftarrow> rx_buffer s;
        (c, rb) \<leftarrow> cbuf_read rb;
        Some (c, s\<lparr>rx_buffer := Some rb\<rparr>) }
      else Some (- 1, s))"

definition availableForWrite :: "hardware_serial \<Rightarrow> int option" where
  "availableForWrite s = (if isTxEnabled s then map_option (\<lambda>b. int (cbuf_room b)) (tx_buffer s) else Some 0)"

text \<open>What happens during \<^verbatim>\<open>yield()\<close>, interrupts included, is an argument.\<close>

type_synonym 'h meanwhile = "hardware_serial \<times> 'h \<Rightarrow> hardware_serial \<times> 'h"

partial_function (option) flush_loop ::
  "'h bus \<Rightarrow> 'h meanwhile \<Rightarrow> hardware_serial \<Rightarrow> 'h \<Rightarrow> (hardware_serial \<times> 'h) option" where
  "flush_loop b yield s h = do {
     tb \<leftarrow> tx_buffer s;
     let (room, h) = (if cbuf_getSize tb \<noteq> 0 then (0, h) else uart_get_tx_fifo_room b (serial_uart s) h);
     if cbuf_getSize tb \<noteq> 0 \<or> room < UART_TX_FIFO_SIZE
     then (case yield (s, h) of (s, h) \<Rightarrow> flush_loop b yield s h)
     else Some (s, h) }"

declare flush_loop.simps [code]

definition serial_flush ::
  "'h bus \<Rightarrow> 'h meanwhile \<Rightarrow> hardware_serial \<Rightarrow> 'h \<Rightarrow> (hardware_serial \<times> 'h) option" where
  "serial_flush b yield s h =
     (if \<not> isTxEnabled s \<or> \<not> written s then Some (s, h)
      else map_option (\<lambda>(s, h). (s\<lparr>written := False\<rparr>, h)) (flush_loop b yield s h))"

section \<open>Writing, cut where an interrupt can come in\<close>

text \<open>
  Between the calls it makes, \<^verbatim>\<open>write\<close> has read the room of the FIFO (\<open>Measured\<close>), has found the buffer empty
  (\<open>Direct\<close>), has put the byte into the FIFO (\<open>Sent\<close>), is in the loop that waits for room in the buffer
  (\<open>Waiting\<close>), or has left it (\<open>Storing\<close>).
\<close>

datatype write_pc = Ready | Measured u8 u32 | Direct u8 u32 | Sent u32 | Waiting u8 | Storing u8

definition write_begin :: "'h bus \<Rightarrow> u8 \<Rightarrow> hardware_serial \<Rightarrow> 'h \<Rightarrow> write_pc \<times> hardware_serial \<times> 'h" where
  "write_begin b c s h =
     (case uart_get_tx_fifo_room b (serial_uart s) h of (room, h) \<Rightarrow> (Measured c room, s\<lparr>written := True\<rparr>, h))"

fun write_step :: "'h bus \<Rightarrow> write_pc \<Rightarrow> hardware_serial \<Rightarrow> 'h \<Rightarrow> (write_pc \<times> hardware_serial \<times> 'h) option" where
  "write_step b Ready s h = None"
| "write_step b (Measured c room) s h = do {
     tb \<leftarrow> tx_buffer s;
     Some (if room > 0 \<and> cbuf_empty tb then Direct c room else Waiting c, s, h) }"
| "write_step b (Direct c room) s h = Some (Sent room, s, uart_transmit_char b (serial_uart s) c h)"
| "write_step b (Sent room) s h =
     Some (Ready, s, if room < 10 then uart_arm_tx_interrupt b (serial_uart s) h else h)"
| "write_step b (Waiting c) s h = do {
     tb \<leftarrow> tx_buffer s;
     Some (if cbuf_room tb = 0 then Waiting c else Storing c, s, h) }"
| "write_step b (Storing c) s h = do {
     tb \<leftarrow> tx_buffer s;
     (_, tb) \<leftarrow> cbuf_write c tb;
     Some (Ready, s\<lparr>tx_buffer := Some tb\<rparr>, h) }"

partial_function (option) write_rest ::
  "'h bus \<Rightarrow> 'h meanwhile \<Rightarrow> write_pc \<Rightarrow> hardware_serial \<Rightarrow> 'h \<Rightarrow> (hardware_serial \<times> 'h) option" where
  "write_rest b yield pc s h = do {
     (pc', s, h) \<leftarrow> write_step b pc s h;
     if pc' = Ready then Some (s, h)
     else if pc' = pc then (case yield (s, h) of (s, h) \<Rightarrow> write_rest b yield pc' s h)
     else write_rest b yield pc' s h }"

declare write_rest.simps [code]

definition HardwareSerial_write ::
  "'h bus \<Rightarrow> 'h meanwhile \<Rightarrow> u8 \<Rightarrow> hardware_serial \<Rightarrow> 'h \<Rightarrow> (nat \<times> hardware_serial \<times> 'h) option" where
  "HardwareSerial_write b yield c s h =
     (if \<not> isTxEnabled s then Some (0, s, h)
      else case write_begin b c s h of (pc, s, h) \<Rightarrow>
        map_option (\<lambda>(s, h). (1, s, h)) (write_rest b yield pc s h))"

text \<open>Put together, the steps are the function as it is written.\<close>

partial_function (option) wait_room ::
  "'h meanwhile \<Rightarrow> hardware_serial \<Rightarrow> 'h \<Rightarrow> (hardware_serial \<times> 'h) option" where
  "wait_room yield s h = do {
     tb \<leftarrow> tx_buffer s;
     if cbuf_room tb = 0 then (case yield (s, h) of (s, h) \<Rightarrow> wait_room yield s h) else Some (s, h) }"

declare wait_room.simps [code]

definition write_stored :: "u8 \<Rightarrow> hardware_serial \<times> 'h \<Rightarrow> (hardware_serial \<times> 'h) option" where
  "write_stored c = (\<lambda>(s, h). do {
     tb \<leftarrow> tx_buffer s;
     (_, tb) \<leftarrow> cbuf_write c tb;
     Some (s\<lparr>tx_buffer := Some tb\<rparr>, h) })"

lemma write_rest_storing: "write_rest b yield (Storing c) s h = write_stored c (s, h)"
  by (simp add: write_rest.simps write_stored_def split: bind_split prod.split)

lemma write_rest_waiting_1:
  "wait_room yield s h = Some r \<Longrightarrow> write_rest b yield (Waiting c) s h = write_stored c r"
proof (induction rule: wait_room.raw_induct [rotated, of yield s h r, consumes 1])
  case (1 wr yield s h r)
  then show ?case
    by (cases r, subst write_rest.simps)
      (auto simp: write_rest_storing bind_eq_Some_conv split: if_splits prod.splits)
qed

lemma write_rest_waiting_2:
  "write_rest b yield pc s h = Some r \<Longrightarrow>
   (pc = Storing c \<longrightarrow> write_stored c (s, h) = Some r) \<and>
   (pc = Waiting c \<longrightarrow> Option.bind (wait_room yield s h) (write_stored c) = Some r)"
proof (induction rule: write_rest.raw_induct [rotated, of b yield pc s h r, consumes 1])
  case (1 wr b yield pc s h r)
  have "write_stored c (s, h) = Some r" if "pc = Storing c"
    using 1(2) that by (auto simp: write_stored_def bind_eq_Some_conv split: if_splits)
  moreover have "Option.bind (wait_room yield s h) (write_stored c) = Some r" if w: "pc = Waiting c"
  proof -
    obtain tb where tb: "tx_buffer s = Some tb" using 1(2) w by (auto simp: bind_eq_Some_conv)
    show ?thesis
    proof (cases "cbuf_room tb = 0")
      case True
      then show ?thesis using 1 w tb by (subst wait_room.simps) (auto split: prod.splits)
    next
      case False
      then show ?thesis using 1 w tb by (subst wait_room.simps) auto
    qed
  qed
  ultimately show ?case by blast
qed

lemma write_rest_waiting:
  "write_rest b yield (Waiting c) s h = Option.bind (wait_room yield s h) (write_stored c)"
proof (cases "wait_room yield s h")
  case None
  then show ?thesis using write_rest_waiting_2 [of b yield "Waiting c" s h _ c]
    by (cases "write_rest b yield (Waiting c) s h") auto
next
  case (Some r)
  then show ?thesis using write_rest_waiting_1 by fastforce
qed

lemma HardwareSerial_write_eq:
  "HardwareSerial_write b yield c s h =
     (if \<not> isTxEnabled s then Some (0, s, h)
      else case uart_get_tx_fifo_room b (serial_uart s) h of (room, h) \<Rightarrow> do {
        let s = s\<lparr>written := True\<rparr>;
        tb \<leftarrow> tx_buffer s;
        if room > 0 \<and> cbuf_empty tb
        then (let h = uart_transmit_char b (serial_uart s) c h;
                  h = (if room < 10 then uart_arm_tx_interrupt b (serial_uart s) h else h)
              in Some (1, s, h))
        else do {
          (s, h) \<leftarrow> wait_room yield s h;
          tb \<leftarrow> tx_buffer s;
          (_, tb) \<leftarrow> cbuf_write c tb;
          Some (1, s\<lparr>tx_buffer := Some tb\<rparr>, h) } })"
  apply (cases "uart_get_tx_fifo_room b (serial_uart s) h")
  apply (simp add: HardwareSerial_write_def write_begin_def)
  apply (subst write_rest.simps)
  apply (cases "tx_buffer s")
   apply simp
  apply (simp add: write_rest.simps [of b yield "Direct _ _"] write_rest.simps [of b yield "Sent _"] write_rest_waiting)
  apply (cases "wait_room yield (s\<lparr>written := True\<rparr>) (snd (uart_get_tx_fifo_room b (serial_uart s) h))")
  apply (auto simp: write_stored_def map_option_bind Let_def split: prod.splits intro!: Option.bind_cong)
  done

section \<open>Interrupts\<close>

definition rx_complete_irq :: "u8 \<Rightarrow> hardware_serial \<Rightarrow> hardware_serial option" where
  "rx_complete_irq c s =
     (case rx_buffer s of None \<Rightarrow> Some s
      | Some rb \<Rightarrow> map_option (\<lambda>(_, rb). s\<lparr>rx_buffer := Some rb\<rparr>) (cbuf_write c rb))"

text \<open>\<^verbatim>\<open>while(n--) uart_transmit_char(_uart, _tx_buffer->read())\<close>\<close>

fun tx_drain :: "'h bus \<Rightarrow> uart option \<Rightarrow> nat \<Rightarrow> cbuf \<Rightarrow> 'h \<Rightarrow> (cbuf \<times> 'h) option" where
  "tx_drain b u 0 tb h = Some (tb, h)"
| "tx_drain b u (Suc n) tb h = do {
     (c, tb) \<leftarrow> cbuf_read tb;
     tx_drain b u n tb (uart_transmit_char b u (word_of_int c) h) }"

definition tx_empty_irq :: "'h bus \<Rightarrow> hardware_serial \<Rightarrow> 'h \<Rightarrow> (hardware_serial \<times> 'h) option" where
  "tx_empty_irq b s h =
     (if serial_uart s = None then Some (s, h)
      else case tx_buffer s of None \<Rightarrow> Some (s, h)
      | Some tb \<Rightarrow>
          (let size = cbuf_getSize tb
           in if size = 0 then Some (s, uart_disarm_tx_interrupt b (serial_uart s) h)
              else do {
                let (room, h) = uart_get_tx_fifo_room b (serial_uart s) h;
                let n = (if size < unat room then size else unat room);
                (tb, h) \<leftarrow> tx_drain b (serial_uart s) n tb h;
                Some (s\<lparr>tx_buffer := Some tb\<rparr>, h) }))"

partial_function (option) uart_rx_service ::
  "'h bus \<Rightarrow> int \<Rightarrow> hardware_serial \<Rightarrow> 'h \<Rightarrow> (hardware_serial \<times> 'h) option" where
  "uart_rx_service b u s h =
     (case reg_rd b (USIS u) h of (v, h) \<Rightarrow>
        if v AND shl1 UIFF \<noteq> 0
        then case reg_rd b (USF u) h of (c, h) \<Rightarrow> do {
          s \<leftarrow> rx_complete_irq (ucast (c AND 0xff)) s;
          uart_rx_service b u s (reg_wr b (USIC u) (shl1 UIFF) h) }
        else Some (s, h))"

declare uart_rx_service.simps [code]

definition uart_tx_service :: "'h bus \<Rightarrow> int \<Rightarrow> hardware_serial \<Rightarrow> 'h \<Rightarrow> (hardware_serial \<times> 'h) option" where
  "uart_tx_service b u s h =
     (case reg_rd b (USIS u) h of (v, h) \<Rightarrow>
        if v AND shl1 UIFE \<noteq> 0 then tx_empty_irq b s (reg_wr b (USIC u) (shl1 UIFE) h) else Some (s, h))"

definition uart_interrupt_handler ::
  "'h bus \<Rightarrow> hardware_serial \<Rightarrow> hardware_serial \<Rightarrow> 'h \<Rightarrow> (hardware_serial \<times> hardware_serial \<times> 'h) option" where
  "uart_interrupt_handler b Serial Serial1 h = do {
     (Serial, h) \<leftarrow> (if isRxEnabled Serial then uart_rx_service b UART0 Serial h else Some (Serial, h));
     (Serial, h) \<leftarrow> (if isTxEnabled Serial then uart_tx_service b UART0 Serial h else Some (Serial, h));
     (Serial1, h) \<leftarrow> (if isRxEnabled Serial1 then uart_rx_service b UART1 Serial1 h else Some (Serial1, h));
     (Serial1, h) \<leftarrow> (if isTxEnabled Serial1 then uart_tx_service b UART1 Serial1 h else Some (Serial1, h));
     Some (Serial, Serial1, h) }"

text \<open>The output routine for debug messages on port \<open>u\<close>, whose object is \<open>s\<close>.\<close>

definition uart_write_char ::
  "'h bus \<Rightarrow> 'h meanwhile \<Rightarrow> int \<Rightarrow> u8 \<Rightarrow> hardware_serial \<Rightarrow> 'h \<Rightarrow> (hardware_serial \<times> 'h) option" where
  "uart_write_char b yield u c s h = do {
     free \<leftarrow> (if isTxEnabled s then availableForWrite s else Some 0);
     if free > 0
     then do {
       (_, s, h) \<leftarrow> (if c = 10 then HardwareSerial_write b yield 13 s h else Some (0, s, h));
       (_, s, h) \<leftarrow> HardwareSerial_write b yield c s h;
       Some (s, h) }
     else do {
       h \<leftarrow> wait_tx_fifo b u 2 h;
       let h = (if c = 10 then reg_wr b (USF u) 13 h else h);
       Some (s, reg_wr b (USF u) (ucast c) h) } }"

section \<open>Writer, interrupt and transmitter\<close>

text \<open>
  \<open>asked\<close> has the bytes \<open>write\<close> was called with and \<open>sent\<close> those that left the transmitter, whose FIFO is
  \<open>fifo\<close> and whose next state, after a byte was sent, is \<open>shift\<close>.
\<close>

record 'h line =
  ser :: hardware_serial
  hwst :: 'h
  write_at :: write_pc
  asked :: "u8 list"
  sent :: "u8 list"

datatype actor = Call | Writer | Interrupt | Transmitter

inductive serial_step ::
  "'h bus \<Rightarrow> int \<Rightarrow> ('h \<Rightarrow> u8 list) \<Rightarrow> ('h \<Rightarrow> 'h) \<Rightarrow> actor \<Rightarrow> 'h line \<Rightarrow> 'h line \<Rightarrow> bool"
  for b nr fifo shift where
  call: "write_at l = Ready \<Longrightarrow> isTxEnabled (ser l) \<Longrightarrow> write_begin b c (ser l) (hwst l) = (p, s, h) \<Longrightarrow>
    serial_step b nr fifo shift Call l (l\<lparr>ser := s, hwst := h, write_at := p, asked := asked l @ [c]\<rparr>)"
| writer: "write_step b (write_at l) (ser l) (hwst l) = Some (p, s, h) \<Longrightarrow>
    serial_step b nr fifo shift Writer l (l\<lparr>ser := s, hwst := h, write_at := p\<rparr>)"
| interrupt: "isTxEnabled (ser l) \<Longrightarrow> uart_tx_service b nr (ser l) (hwst l) = Some (s, h) \<Longrightarrow>
    serial_step b nr fifo shift Interrupt l (l\<lparr>ser := s, hwst := h\<rparr>)"
| transmitter: "fifo (hwst l) = c # r \<Longrightarrow>
    serial_step b nr fifo shift Transmitter l (l\<lparr>hwst := shift (hwst l), sent := sent l @ [c]\<rparr>)"

inductive_cases serial_stepE [consumes 1, case_names call writer interrupt transmitter]:
  "serial_step b nr fifo shift a l l'"

definition serial_reaches ::
  "'h bus \<Rightarrow> int \<Rightarrow> ('h \<Rightarrow> u8 list) \<Rightarrow> ('h \<Rightarrow> 'h) \<Rightarrow> 'h line \<Rightarrow> 'h line \<Rightarrow> bool" where
  "serial_reaches b nr fifo shift = (\<lambda>l l'. \<exists>a. serial_step b nr fifo shift a l l')\<^sup>*\<^sup>*"

definition interrupt_pending :: "'h bus \<Rightarrow> int \<Rightarrow> 'h \<Rightarrow> bool" where
  "interrupt_pending b nr h \<longleftrightarrow> fst (reg_rd b (USIS nr) h) AND shl1 UIFE \<noteq> 0"

text \<open>The bytes in the transmit buffer, and the one \<open>write\<close> still holds.\<close>

definition waiting_bytes :: "hardware_serial \<Rightarrow> u8 list" where
  "waiting_bytes s = (case tx_buffer s of None \<Rightarrow> [] | Some tb \<Rightarrow> queued tb)"

fun held :: "write_pc \<Rightarrow> u8 list" where
  "held (Measured c _) = [c]"
| "held (Direct c _) = [c]"
| "held (Waiting c) = [c]"
| "held (Storing c) = [c]"
| "held _ = []"

definition on_the_way :: "('h \<Rightarrow> u8 list) \<Rightarrow> 'h line \<Rightarrow> u8 list" where
  "on_the_way fifo l = sent l @ fifo (hwst l) @ waiting_bytes (ser l) @ held (write_at l)"

text \<open>A port after \<open>begin\<close>: enabled, with its transmit buffer.\<close>

definition serial_ok :: "int \<Rightarrow> hardware_serial \<Rightarrow> bool" where
  "serial_ok nr s \<longleftrightarrow>
     (\<exists>u tb. serial_uart s = Some u \<and> uart_nr u = nr \<and> txEnabled u \<and> tx_buffer s = Some tb \<and> cbuf_ok tb \<and>
        length (queued tb) + cbuf_room tb = SERIAL_TX_BUFFER_SIZE - 1)"

definition serial_idle :: "int \<Rightarrow> ('h \<Rightarrow> u8 list) \<Rightarrow> 'h line \<Rightarrow> bool" where
  "serial_idle nr fifo l \<longleftrightarrow> serial_ok nr (ser l) \<and> write_at l = Ready \<and> fifo (hwst l) = [] \<and>
     waiting_bytes (ser l) = [] \<and> asked l = [] \<and> sent l = []"

text \<open>Steps in which the interrupt keeps out of a running \<open>write\<close>, except that it may refill the FIFO while
  \<open>write\<close> waits for room and the buffer still has a byte.\<close>

definition quiet_step ::
  "'h bus \<Rightarrow> int \<Rightarrow> ('h \<Rightarrow> u8 list) \<Rightarrow> ('h \<Rightarrow> 'h) \<Rightarrow> 'h line \<Rightarrow> 'h line \<Rightarrow> bool" where
  "quiet_step b nr fifo shift l l' \<longleftrightarrow>
     (\<exists>a. serial_step b nr fifo shift a l l' \<and>
        (a = Interrupt \<longrightarrow> write_at l = Ready \<or> (\<exists>c. write_at l = Waiting c) \<and> waiting_bytes (ser l) \<noteq> []))"

text \<open>Steps without the writer that get on: a byte leaves, or a requested interrupt is served.\<close>

definition serial_progress ::
  "'h bus \<Rightarrow> int \<Rightarrow> ('h \<Rightarrow> u8 list) \<Rightarrow> ('h \<Rightarrow> 'h) \<Rightarrow> 'h line \<Rightarrow> 'h line \<Rightarrow> bool" where
  "serial_progress b nr fifo shift l l' \<longleftrightarrow>
     serial_step b nr fifo shift Transmitter l l' \<or>
     serial_step b nr fifo shift Interrupt l l' \<and> interrupt_pending b nr (hwst l)"

end
