(* ===== verification/SerialFacts.thy ===== *)
theory SerialFacts imports Serial "HOL-Library.Sublist" begin

text \<open>
  What the driver of theory Serial guarantees.  The locale \<open>uart_chip\<close> states the documented behaviour of the
  transmit FIFO and its interrupt; \<open>reference_uart\<close> is an instance.  In it, \<open>in_order\<close> is the invariant of
  all interleavings, \<open>none_lost\<close> that of the quiet ones, \<open>stalled\<close> the states that are never left.
\<close>

section \<open>The transmitter\<close>

text \<open>
  A FIFO of 128 bytes; a byte written to a full one is lost.  The fill level is in the status register, and the
  interrupt is requested while it is enabled and the FIFO has run below the threshold of 32 bytes that
  \<open>uart_init\<close> sets (whether at 32 already is left open).
\<close>

lemma ucast_u8_u32: "(ucast (ucast (c :: u8) :: u32) :: u8) = c"
  by (rule bit_word_eqI) (auto simp: bit_simps)

locale uart_chip =
  fixes b :: "'h bus"
    and nr :: int
    and fifo :: "'h \<Rightarrow> u8 list"
    and ie :: "'h \<Rightarrow> u32"
    and shift :: "'h \<Rightarrow> 'h"
  assumes fifo_size: "length (fifo h) \<le> 128"
    and status: "\<exists>v. reg_rd b (USS nr) h = (v, h) \<and> tx_count v = word_of_nat (length (fifo h))"
    and fifo_put: "fifo (reg_wr b (USF nr) v h) = (if length (fifo h) < 128 then fifo h @ [ucast v] else fifo h)"
    and fifo_put_ie: "ie (reg_wr b (USF nr) v h) = ie h"
    and ie_read: "reg_rd b (USIE nr) h = (ie h, h)"
    and ie_write: "ie (reg_wr b (USIE nr) v h) = v" "fifo (reg_wr b (USIE nr) v h) = fifo h"
    and pending: "\<exists>v. reg_rd b (USIS nr) h = (v, h) \<and>
        (v AND shl1 UIFE \<noteq> 0 \<longrightarrow> bit (ie h) UIFE \<and> length (fifo h) \<le> 32) \<and>
        (bit (ie h) UIFE \<and> length (fifo h) < 32 \<longrightarrow> v AND shl1 UIFE \<noteq> 0)"
    and clear: "ie (reg_wr b (USIC nr) v h) = ie h" "fifo (reg_wr b (USIC nr) v h) = fifo h"
    and shift_out: "fifo h = c # r \<Longrightarrow> fifo (shift h) = r" "fifo h = c # r \<Longrightarrow> ie (shift h) = ie h"
begin

lemma ok_uart:
  assumes "serial_ok nr s"
  obtains u where "serial_uart s = Some u" "uart_nr u = nr" "txEnabled u"
  using assms by (auto simp: serial_ok_def)

lemma fifo_room:
  assumes "serial_ok nr s"
  obtains r where "uart_get_tx_fifo_room b (serial_uart s) h = (r, h)" "unat r = 128 - length (fifo h)"
proof -
  obtain v where v: "reg_rd b (USS nr) h = (v, h)" "tx_count v = word_of_nat (length (fifo h))" using status by blast
  obtain u where u: "serial_uart s = Some u" "uart_nr u = nr" "txEnabled u" by (rule ok_uart [OF assms])
  have "unat (word_of_nat (length (fifo h)) :: u32) = length (fifo h)" using fifo_size [of h] by (simp add: unat_of_nat)
  then have "unat (UART_TX_FIFO_SIZE - tx_count v) = 128 - length (fifo h)"
    unfolding v(2) UART_TX_FIFO_SIZE_def using fifo_size [of h] by (subst unat_sub_no_wrap) simp_all
  then show thesis using v(1) u by (intro that) (simp_all add: uart_get_tx_fifo_room_def)
qed

lemma transmit_char:
  assumes "serial_ok nr s"
  shows "fifo (uart_transmit_char b (serial_uart s) c h) = (if length (fifo h) < 128 then fifo h @ [c] else fifo h)"
    "ie (uart_transmit_char b (serial_uart s) c h) = ie h"
proof -
  obtain u where u: "serial_uart s = Some u" "uart_nr u = nr" "txEnabled u" by (rule ok_uart [OF assms])
  show "fifo (uart_transmit_char b (serial_uart s) c h) = (if length (fifo h) < 128 then fifo h @ [c] else fifo h)"
    "ie (uart_transmit_char b (serial_uart s) c h) = ie h" using u by (simp_all add: uart_transmit_char_def fifo_put fifo_put_ie ucast_u8_u32)
qed

lemma arm:
  assumes "serial_ok nr s"
  shows "fifo (uart_arm_tx_interrupt b (serial_uart s) h) = fifo h"
    "bit (ie (uart_arm_tx_interrupt b (serial_uart s) h)) UIFE"
proof -
  obtain u where u: "serial_uart s = Some u" "uart_nr u = nr" "txEnabled u" by (rule ok_uart [OF assms])
  show "fifo (uart_arm_tx_interrupt b (serial_uart s) h) = fifo h"
    "bit (ie (uart_arm_tx_interrupt b (serial_uart s) h)) UIFE" using u by (simp_all add: uart_arm_tx_interrupt_def reg_or_def ie_read ie_write bit_or_iff UIFE_def)
qed

lemma disarm:
  assumes "serial_ok nr s"
  shows "fifo (uart_disarm_tx_interrupt b (serial_uart s) h) = fifo h"
    "\<not> bit (ie (uart_disarm_tx_interrupt b (serial_uart s) h)) UIFE"
proof -
  obtain u where u: "serial_uart s = Some u" "uart_nr u = nr" "txEnabled u" by (rule ok_uart [OF assms])
  show "fifo (uart_disarm_tx_interrupt b (serial_uart s) h) = fifo h"
    "\<not> bit (ie (uart_disarm_tx_interrupt b (serial_uart s) h)) UIFE" using u by (simp_all add: uart_disarm_tx_interrupt_def reg_and_def ie_read ie_write bit_and_iff
      bit_not_iff UIFE_def)
qed

lemma tx_drain_get_all:
  "tx_drain b u n tb h = map_option (\<lambda>(cs, tb). (tb, fold (uart_transmit_char b u) cs h)) (tx_queue.get_all n tb)"
proof (induction n arbitrary: tb h)
  case (Suc n)
  show ?case
  proof (cases "cbuf_read tb")
    case (Some p)
    then show ?thesis by (cases p; cases "tx_queue.get_all n (snd p)") (auto simp: Suc.IH)
  qed simp
qed simp

lemma transmit_all:
  assumes "serial_ok nr s" "length (fifo h) + length cs \<le> 128"
  shows "fifo (fold (uart_transmit_char b (serial_uart s)) cs h) = fifo h @ cs"
    "ie (fold (uart_transmit_char b (serial_uart s)) cs h) = ie h"
  using assms(2) by (induction cs arbitrary: h) (simp_all add: transmit_char [OF assms(1)])

text \<open>The interrupt: nothing when it is not pending, else as many bytes as fit move from the buffer to the
  FIFO, and an empty buffer switches the interrupt off.\<close>

lemma tx_service:
  assumes ok: "serial_ok nr s"
  obtains (idle) "uart_tx_service b nr s h = Some (s, h)" "\<not> (bit (ie h) UIFE \<and> length (fifo h) < 32)"
      "\<not> interrupt_pending b nr h"
  | (switched_off) h' where "uart_tx_service b nr s h = Some (s, h')" "waiting_bytes s = []" "fifo h' = fifo h"
      "\<not> bit (ie h') UIFE" "bit (ie h) UIFE" "length (fifo h) \<le> 32"
  | (refill) h' s' n where "uart_tx_service b nr s h = Some (s', h')" "waiting_bytes s \<noteq> []"
      "n = min (length (waiting_bytes s)) (128 - length (fifo h))" "0 < n" "serial_ok nr s'"
      "fifo h' = fifo h @ take n (waiting_bytes s)" "waiting_bytes s' = drop n (waiting_bytes s)"
      "ie h' = ie h" "bit (ie h) UIFE" "length (fifo h) \<le> 32"
proof -
  obtain u tb where u: "serial_uart s = Some u" "uart_nr u = nr" "txEnabled u" "tx_buffer s = Some tb" "cbuf_ok tb"
    "length (queued tb) + cbuf_room tb = SERIAL_TX_BUFFER_SIZE - 1" using ok by (auto simp: serial_ok_def)
  obtain v where v: "reg_rd b (USIS nr) h = (v, h)"
    "v AND shl1 UIFE \<noteq> 0 \<Longrightarrow> bit (ie h) UIFE \<and> length (fifo h) \<le> 32"
    "bit (ie h) UIFE \<and> length (fifo h) < 32 \<Longrightarrow> v AND shl1 UIFE \<noteq> 0" using pending [of h] by blast
  have w: "waiting_bytes s = queued tb" using u by (simp add: waiting_bytes_def)
  define h1 where "h1 = reg_wr b (USIC nr) (shl1 UIFE) h"
  have h1: "fifo h1 = fifo h" "ie h1 = ie h" by (simp_all add: h1_def clear)
  show thesis
  proof (cases "v AND shl1 UIFE = 0")
    case True
    then have "uart_tx_service b nr s h = Some (s, h)" using v(1) by (simp add: uart_tx_service_def)
    moreover have "\<not> (bit (ie h) UIFE \<and> length (fifo h) < 32)" using v(3) True by blast
    moreover have "\<not> interrupt_pending b nr h" using v(1) True by (simp add: interrupt_pending_def)
    ultimately show thesis by (rule idle)
  next
    case False
    then have svc: "uart_tx_service b nr s h = tx_empty_irq b s h1" using v by (simp add: uart_tx_service_def h1_def)
    note irq = v(2) [OF False]
    show thesis
    proof (cases "queued tb = []")
      case True
      then have "cbuf_getSize tb = 0" using length_queued [OF u(5)] by simp
      then have "tx_empty_irq b s h1 = Some (s, uart_disarm_tx_interrupt b (serial_uart s) h1)"
        using u by (simp add: tx_empty_irq_def)
      then have "uart_tx_service b nr s h = Some (s, uart_disarm_tx_interrupt b (serial_uart s) h1)" using svc by simp
      then show thesis by (rule switched_off) (use True w irq disarm [OF ok, of h1] h1 in simp_all)
    next
      case False
      let ?n = "min (length (queued tb)) (128 - length (fifo h))"
      have n: "0 < ?n" using False irq by simp
      obtain tb' where g: "tx_queue.get_all ?n tb = Some (take ?n (queued tb), tb')" "cbuf_ok tb'"
        "queued tb' = drop ?n (queued tb)" "cbuf_room tb' = cbuf_room tb + ?n"
        using tx_queue.get_all_takes [OF u(5), of ?n] by auto
      let ?h = "fold (uart_transmit_char b (serial_uart s)) (take ?n (queued tb)) h1"
      have sz: "cbuf_getSize tb = length (queued tb)" using length_queued [OF u(5)] by simp
      have "tx_empty_irq b s h1 = Some (s\<lparr>tx_buffer := Some tb'\<rparr>, ?h)"
      proof -
        obtain r where r: "uart_get_tx_fifo_room b (serial_uart s) h1 = (r, h1)" "unat r = 128 - length (fifo h)"
          using fifo_room [OF ok, of h1] h1 by metis
        have e: "\<not> length (queued tb) < 128 - length (fifo h) \<Longrightarrow> ?n = 128 - length (fifo h)" by simp
        show ?thesis
          using u(1,4) False g(1) r e
          by (cases "length (queued tb) < 128 - length (fifo h)") (simp_all add: tx_empty_irq_def Let_def sz tx_drain_get_all)
      qed
      moreover have "fifo ?h = fifo h1 @ take ?n (queued tb)" "ie ?h = ie h1"
      proof -
        have "length (fifo h1) + length (take ?n (queued tb)) \<le> 128" using fifo_size [of h] h1 by simp
        then show "fifo ?h = fifo h1 @ take ?n (queued tb)" "ie ?h = ie h1"
          using transmit_all [OF ok, of h1 "take ?n (queued tb)"] by simp_all
      qed
      moreover have "serial_ok nr (s\<lparr>tx_buffer := Some tb'\<rparr>)" using u g by (simp add: serial_ok_def)
      ultimately show thesis
        by (intro refill [of "s\<lparr>tx_buffer := Some tb'\<rparr>" ?h ?n])
          (use svc False w irq h1 g n in \<open>auto simp: waiting_bytes_def\<close>)
    qed
  qed
qed

text \<open>The other operations of the port.\<close>

lemma serial_ok_buffer:
  assumes "serial_ok nr s"
  obtains tb where "tx_buffer s = Some tb" "cbuf_ok tb" "waiting_bytes s = queued tb"
    "length (queued tb) + cbuf_room tb = SERIAL_TX_BUFFER_SIZE - 1"
  using assms by (auto simp: serial_ok_def waiting_bytes_def)

lemma serial_ok_enabled: "serial_ok nr s \<Longrightarrow> isTxEnabled s"
  by (auto simp: serial_ok_def isTxEnabled_def)

lemma serial_ok_written [simp]: "serial_ok nr (s\<lparr>written := x\<rparr>) = serial_ok nr s"
  by (simp add: serial_ok_def)

lemma waiting_written [simp]: "waiting_bytes (s\<lparr>written := x\<rparr>) = waiting_bytes s"
  by (simp add: waiting_bytes_def)

lemma store:
  assumes "serial_ok nr s" "tx_buffer s = Some tb" "0 < cbuf_room tb"
  obtains tb' where "cbuf_write c tb = Some (1, tb')" "serial_ok nr (s\<lparr>tx_buffer := Some tb'\<rparr>)"
    "waiting_bytes (s\<lparr>tx_buffer := Some tb'\<rparr>) = waiting_bytes s @ [c]"
proof -
  have ok: "cbuf_ok tb" "length (queued tb) + cbuf_room tb = SERIAL_TX_BUFFER_SIZE - 1"
    using assms by (auto simp: serial_ok_def)
  obtain tb' where t: "cbuf_write c tb = Some (1, tb')" "cbuf_ok tb'" "queued tb' = queued tb @ [c]"
    "cbuf_room tb' = cbuf_room tb - 1" using tx_queue.put_space [OF ok(1) assms(3)] by blast
  show thesis
  proof (rule that [OF t(1)])
    show "serial_ok nr (s\<lparr>tx_buffer := Some tb'\<rparr>)" using assms t ok by (auto simp: serial_ok_def)
    show "waiting_bytes (s\<lparr>tx_buffer := Some tb'\<rparr>) = waiting_bytes s @ [c]" using assms t by (simp add: waiting_bytes_def)
  qed
qed

definition in_order :: "'h line \<Rightarrow> bool" where
  "in_order l \<longleftrightarrow> serial_ok nr (ser l) \<and> subseq (on_the_way fifo l) (asked l) \<and>
     (\<forall>c r. write_at l = Direct c r \<longrightarrow> waiting_bytes (ser l) = []) \<and>
     (\<forall>c tb. write_at l = Storing c \<longrightarrow> tx_buffer (ser l) = Some tb \<longrightarrow> 0 < cbuf_room tb)"

lemma in_orderD:
  assumes "in_order l"
  shows "serial_ok nr (ser l)" "subseq (on_the_way fifo l) (asked l)"
    "write_at l = Direct c r \<Longrightarrow> waiting_bytes (ser l) = []"
    "write_at l = Storing c \<Longrightarrow> tx_buffer (ser l) = Some tb \<Longrightarrow> 0 < cbuf_room tb"
  using assms by (auto simp: in_order_def)

lemma in_order_writer:
  assumes l: "in_order l" and step: "write_step b (write_at l) (ser l) (hwst l) = Some (p, s, h)"
  shows "in_order (l\<lparr>ser := s, hwst := h, write_at := p\<rparr>)"
proof -
  note ok = in_orderD(1) [OF l] and sub = in_orderD(2) [OF l]
  obtain tb where tb: "tx_buffer (ser l) = Some tb" "cbuf_ok tb" "waiting_bytes (ser l) = queued tb"
    "length (queued tb) + cbuf_room tb = SERIAL_TX_BUFFER_SIZE - 1" by (rule serial_ok_buffer [OF ok])
  show ?thesis
  proof (cases "write_at l")
    case (Measured c room)
    then show ?thesis using step tb l
      by (auto simp: in_order_def on_the_way_def cbuf_empty_queued split: if_splits)
  next
    case (Direct c room)
    then have q: "queued tb = []" using in_orderD(3) [OF l] tb by simp
    have "subseq (sent l @ fifo h) (asked l)"
    proof (cases "length (fifo (hwst l)) < 128")
      case True
      then show ?thesis using step Direct sub tb q transmit_char [OF ok] by (auto simp: on_the_way_def)
    next
      case False
      have "subseq (sent l @ fifo (hwst l)) (sent l @ fifo (hwst l) @ [c])" by (metis append_assoc list_emb_append2 subseq_order.refl prefix_order.refl subseq_append_iff list_emb_append_mono list_emb_Nil append_Nil2)
      then show ?thesis using False step Direct sub tb q transmit_char [OF ok]
        by (auto simp: on_the_way_def intro: subseq_order.trans)
    qed
    then show ?thesis using step Direct ok q tb by (auto simp: in_order_def on_the_way_def)
  next
    case (Sent room)
    then show ?thesis using step l arm [OF ok] by (auto simp: in_order_def on_the_way_def)
  next
    case (Waiting c)
    then have "p = (if cbuf_room tb = 0 then Waiting c else Storing c)" "s = ser l" "h = hwst l" using step tb by auto
    then show ?thesis using tb l Waiting by (auto simp: in_order_def on_the_way_def)
  next
    case (Storing c)
    then have "0 < cbuf_room tb" using in_orderD(4) [OF l] tb by simp
    then obtain tb' where "cbuf_write c tb = Some (1, tb')" "serial_ok nr (ser l\<lparr>tx_buffer := Some tb'\<rparr>)"
      "waiting_bytes (ser l\<lparr>tx_buffer := Some tb'\<rparr>) = waiting_bytes (ser l) @ [c]"
      by (rule store [OF ok tb(1)])
    then show ?thesis using step Storing tb sub by (auto simp: in_order_def on_the_way_def)
  qed (use step in simp)
qed

lemma in_order_step:
  assumes l: "in_order l" and step: "serial_step b nr fifo shift a l l'"
  shows "in_order l'"
  using step
proof (cases rule: serial_stepE)
  case (call c p s h)
  obtain r where "uart_get_tx_fifo_room b (serial_uart (ser l)) (hwst l) = (r, hwst l)"
    using fifo_room [OF in_orderD(1) [OF l], of "hwst l"] by metis
  then have "p = Measured c r" "s = ser l\<lparr>written := True\<rparr>" "h = hwst l" using call by (simp_all add: write_begin_def)
  moreover have "subseq (on_the_way fifo l @ [c]) (asked l @ [c])" using in_orderD(2) [OF l] by (simp add: list_emb_append_mono)
  ultimately show ?thesis using l call by (auto simp: in_order_def on_the_way_def)
next
  case (writer p s h)
  then show ?thesis using in_order_writer [OF l] by simp
next
  case (interrupt s h)
  note ok = in_orderD(1) [OF l] and sub = in_orderD(2) [OF l]
  show ?thesis
  proof (cases rule: tx_service [OF ok, of "hwst l", case_names idle switched_off refill])
    case idle
    then show ?thesis using interrupt l by simp
  next
    case (switched_off h')
    then show ?thesis using interrupt l by (auto simp: in_order_def on_the_way_def)
  next
    case (refill h' s' n)
    have "on_the_way fifo l' = on_the_way fifo l" using interrupt refill by (simp add: on_the_way_def)
    moreover have "0 < cbuf_room tb" if "write_at l = Storing c" "tx_buffer s' = Some tb" for c tb
    proof -
      have "length (waiting_bytes s') < length (waiting_bytes (ser l))" using refill by (simp add: diff_less)
      then show ?thesis using serial_ok_buffer [OF ok] serial_ok_buffer [OF refill(5)] that
        by (smt (verit) add_less_cancel_right gr0I leD le_add1 option.inject add.commute add_0)
    qed
    ultimately show ?thesis using interrupt refill l in_orderD(3) [OF l] by (auto simp: in_order_def)
  qed
next
  case (transmitter c r)
  then show ?thesis using l shift_out [of "hwst l" c r] by (auto simp: in_order_def on_the_way_def)
qed

text \<open>Nothing is lost in quiet steps.  The interrupt stays enabled as long as it is needed.\<close>

abbreviation armed :: "'h line \<Rightarrow> bool" where "armed l \<equiv> bit (ie (hwst l)) UIFE"

abbreviation fill :: "'h line \<Rightarrow> nat" where "fill l \<equiv> length (fifo (hwst l))"

fun needs :: "write_pc \<Rightarrow> bool \<Rightarrow> nat \<Rightarrow> hardware_serial \<Rightarrow> bool" where
  "needs (Measured c r) a n s \<longleftrightarrow> unat r + n \<le> 128 \<and> (r = 0 \<longrightarrow> a)"
| "needs (Direct c r) a n s \<longleftrightarrow> waiting_bytes s = [] \<and> 0 < unat r \<and> unat r + n \<le> 128"
| "needs (Waiting c) a n s \<longleftrightarrow> a"
| "needs (Storing c) a n s \<longleftrightarrow> a \<and> (\<forall>tb. tx_buffer s = Some tb \<longrightarrow> 0 < cbuf_room tb)"
| "needs _ a n s \<longleftrightarrow> True"

definition none_lost :: "'h line \<Rightarrow> bool" where
  "none_lost l \<longleftrightarrow> serial_ok nr (ser l) \<and> on_the_way fifo l = asked l \<and>
     (waiting_bytes (ser l) \<noteq> [] \<longrightarrow> armed l) \<and>
     (120 \<le> fill l \<longrightarrow> armed l \<or> (\<exists>r. write_at l = Sent r \<and> r < 10)) \<and>
     needs (write_at l) (armed l) (fill l) (ser l)"

lemma none_lostD:
  assumes "none_lost l"
  shows "serial_ok nr (ser l)" "on_the_way fifo l = asked l" "waiting_bytes (ser l) \<noteq> [] \<Longrightarrow> armed l"
    "120 \<le> fill l \<Longrightarrow> armed l \<or> (\<exists>r. write_at l = Sent r \<and> r < 10)"
    "needs (write_at l) (armed l) (fill l) (ser l)"
  using assms by (auto simp: none_lost_def)

lemma none_lost_writer:
  assumes l: "none_lost l" and step: "write_step b (write_at l) (ser l) (hwst l) = Some (p, s, h)"
  shows "none_lost (l\<lparr>ser := s, hwst := h, write_at := p\<rparr>)"
proof -
  note ok = none_lostD(1) [OF l] and way = none_lostD(2) [OF l]
  obtain tb where tb: "tx_buffer (ser l) = Some tb" "cbuf_ok tb" "waiting_bytes (ser l) = queued tb"
    "length (queued tb) + cbuf_room tb = SERIAL_TX_BUFFER_SIZE - 1" by (rule serial_ok_buffer [OF ok])
  show ?thesis
  proof (cases "write_at l")
    case (Measured c room)
    have r: "unat room + fill l \<le> 128" "room = 0 \<longrightarrow> armed l" using none_lostD(5) [OF l] Measured by simp_all
    show ?thesis
    proof (cases "room > 0 \<and> queued tb = []")
      case True
      then have "p = Direct c room" "s = ser l" "h = hwst l" using step tb Measured by (auto simp: cbuf_empty_queued)
      then show ?thesis using l r tb True Measured by (auto simp: none_lost_def on_the_way_def word_less_nat_alt)
    next
      case False
      then have "p = Waiting c" "s = ser l" "h = hwst l" using step tb Measured by (auto simp: cbuf_empty_queued)
      moreover have "armed l" using False none_lostD(3) [OF l] tb(3) r(2) by (auto simp: word_gt_0)
      ultimately show ?thesis using l Measured by (auto simp: none_lost_def on_the_way_def)
    qed
  next
    case (Direct c room)
    then have q: "queued tb = []" "0 < unat room" "unat room + fill l \<le> 128" using none_lostD(5) [OF l] tb by simp_all
    then have f: "fill l < 128" by simp
    have p: "p = Sent room" "s = ser l" "fifo h = fifo (hwst l) @ [c]" "ie h = ie (hwst l)"
      using step Direct transmit_char [OF ok] f by auto
    have "120 \<le> fill l + 1 \<Longrightarrow> room < 10" using q(3) by (simp add: word_less_nat_alt)
    then show ?thesis using p l q tb Direct by (auto simp: none_lost_def on_the_way_def)
  next
    case (Sent room)
    then show ?thesis using step l arm [OF ok, of "hwst l"] by (auto simp: none_lost_def on_the_way_def split: if_splits)
  next
    case (Waiting c)
    then have "p = (if cbuf_room tb = 0 then Waiting c else Storing c)" "s = ser l" "h = hwst l" using step tb by auto
    then show ?thesis using tb l Waiting by (auto simp: none_lost_def on_the_way_def)
  next
    case (Storing c)
    then have "0 < cbuf_room tb" "armed l" using none_lostD(5) [OF l] tb by simp_all
    moreover then obtain tb' where "cbuf_write c tb = Some (1, tb')" "serial_ok nr (ser l\<lparr>tx_buffer := Some tb'\<rparr>)"
      "waiting_bytes (ser l\<lparr>tx_buffer := Some tb'\<rparr>) = waiting_bytes (ser l) @ [c]"
      using store [OF ok tb(1)] by blast
    ultimately show ?thesis using step Storing tb way by (auto simp: none_lost_def on_the_way_def)
  qed (use step in simp)
qed

lemma none_lost_step:
  assumes l: "none_lost l" and quiet: "quiet_step b nr fifo shift l l'"
  shows "none_lost l'"
proof -
  obtain a where step: "serial_step b nr fifo shift a l l'"
    and q: "a = Interrupt \<Longrightarrow> write_at l = Ready \<or> (\<exists>c. write_at l = Waiting c) \<and> waiting_bytes (ser l) \<noteq> []"
    using quiet by (auto simp: quiet_step_def)
  note ok = none_lostD(1) [OF l] and way = none_lostD(2) [OF l]
  from step show ?thesis
  proof (cases rule: serial_stepE)
    case (call c p s h)
    obtain r where r: "uart_get_tx_fifo_room b (serial_uart (ser l)) (hwst l) = (r, hwst l)" "unat r = 128 - fill l"
      using fifo_room [OF ok, of "hwst l"] by metis
    then have p: "p = Measured c r" "s = ser l\<lparr>written := True\<rparr>" "h = hwst l" using call by (simp_all add: write_begin_def)
    have "armed l" if "r = 0"
      using that r(2) fifo_size [of "hwst l"] none_lostD(4) [OF l] call by auto
    moreover have "unat r + fill l \<le> 128" using r(2) fifo_size [of "hwst l"] by simp
    ultimately show ?thesis using l call p way by (auto simp: none_lost_def on_the_way_def)
  next
    case (writer p s h)
    then show ?thesis using none_lost_writer [OF l] by simp
  next
    case (interrupt s h)
    from q interrupt have at: "write_at l = Ready \<or> (\<exists>c. write_at l = Waiting c) \<and> waiting_bytes (ser l) \<noteq> []" by simp
    show ?thesis
    proof (cases rule: tx_service [OF ok, of "hwst l", case_names idle switched_off refill])
      case idle
      then show ?thesis using interrupt l by simp
    next
      case (switched_off h')
      then show ?thesis using interrupt l at by (auto simp: none_lost_def on_the_way_def)
    next
      case (refill h' s' n)
      have "on_the_way fifo l' = on_the_way fifo l" using interrupt refill by (simp add: on_the_way_def)
      then show ?thesis using interrupt refill l at by (auto simp: none_lost_def)
    qed
  next
    case (transmitter c r)
    have "needs (write_at l) (armed l) (fill l) (ser l) \<Longrightarrow> needs (write_at l) (armed l) (length r) (ser l)"
      using transmitter by (cases "write_at l") auto
    then show ?thesis using transmitter l shift_out [of "hwst l" c r] by (auto simp: none_lost_def on_the_way_def)
  qed
qed

lemma progress_quiet:
  assumes "write_at l = Ready" "serial_progress b nr fifo shift l l'"
  shows "quiet_step b nr fifo shift l l'" "write_at l' = Ready" "asked l' = asked l"
  using assms by (auto simp: serial_progress_def quiet_step_def elim: serial_stepE)

definition work_left :: "'h line \<Rightarrow> nat" where
  "work_left l = 2 * length (waiting_bytes (ser l)) + fill l + of_bool (armed l)"

lemma progress_measure:
  assumes ok: "serial_ok nr (ser l)" and step: "serial_progress b nr fifo shift l l'"
  shows "work_left l' < work_left l"
proof -
  consider "serial_step b nr fifo shift Transmitter l l'"
    | "serial_step b nr fifo shift Interrupt l l'" "interrupt_pending b nr (hwst l)"
    using step by (auto simp: serial_progress_def)
  then show ?thesis
  proof cases
    case 1
    then obtain c r where "fifo (hwst l) = c # r" "l' = l\<lparr>hwst := shift (hwst l), sent := sent l @ [c]\<rparr>"
      by (auto elim: serial_stepE)
    then show ?thesis using shift_out [of "hwst l" c r] by (simp add: work_left_def)
  next
    case 2
    then obtain s h where i: "uart_tx_service b nr (ser l) (hwst l) = Some (s, h)" "l' = l\<lparr>ser := s, hwst := h\<rparr>"
      by (auto elim: serial_stepE)
    show ?thesis
    proof (cases rule: tx_service [OF ok, of "hwst l", case_names idle switched_off refill])
      case idle
      then show ?thesis using 2 by simp
    next
      case (switched_off h')
      then show ?thesis using i by (simp add: work_left_def)
    next
      case (refill h' s' n)
      then show ?thesis using i by (auto simp: work_left_def min_def split: if_splits)
    qed
  qed
qed

lemma no_progress:
  assumes l: "none_lost l" "write_at l = Ready" and stop: "\<And>l'. \<not> serial_progress b nr fifo shift l l'"
  shows "sent l = asked l"
proof -
  have f: "fifo (hwst l) = []"
  proof (rule ccontr)
    assume "fifo (hwst l) \<noteq> []"
    then obtain c r where "fifo (hwst l) = c # r" by (cases "fifo (hwst l)") auto
    then show False using stop serial_step.transmitter [of fifo l c r b nr shift] by (auto simp: serial_progress_def)
  qed
  have "waiting_bytes (ser l) = []"
  proof (rule ccontr)
    assume w: "waiting_bytes (ser l) \<noteq> []"
    then have a: "armed l" using none_lostD(3) [OF l(1)] by simp
    note ok = none_lostD(1) [OF l(1)]
    have "interrupt_pending b nr (hwst l)" using pending [of "hwst l"] a f by (auto simp: interrupt_pending_def)
    moreover obtain s h where "uart_tx_service b nr (ser l) (hwst l) = Some (s, h)"
      by (cases rule: tx_service [OF ok, of "hwst l"]) auto
    ultimately show False
      using stop serial_step.interrupt [of l b nr s h fifo shift] serial_ok_enabled [OF ok] by (auto simp: serial_progress_def)
  qed
  then show ?thesis using none_lostD(2) [OF l(1)] l(2) f by (simp add: on_the_way_def)
qed

lemma idle_in_order: "serial_idle nr fifo l \<Longrightarrow> in_order l"
  by (simp add: serial_idle_def in_order_def on_the_way_def)

lemma idle_none_lost: "serial_idle nr fifo l \<Longrightarrow> none_lost l"
  by (simp add: serial_idle_def none_lost_def on_the_way_def)

lemma reaches_in_order:
  assumes "serial_reaches b nr fifo shift l l'" "in_order l"
  shows "in_order l'"
  using assms unfolding serial_reaches_def by (induction rule: rtranclp_induct) (auto intro: in_order_step)

lemma quiet_none_lost:
  assumes "(quiet_step b nr fifo shift)\<^sup>*\<^sup>* l l'" "none_lost l"
  shows "none_lost l'"
  using assms by (induction rule: rtranclp_induct) (auto intro: none_lost_step)

lemma progress_run:
  assumes "(serial_progress b nr fifo shift ^^ n) l l'" "none_lost l" "write_at l = Ready"
  shows "none_lost l' \<and> write_at l' = Ready \<and> asked l' = asked l \<and> work_left l' + n \<le> work_left l"
  using assms
proof (induction n arbitrary: l')
  case (Suc n)
  then obtain m where m: "(serial_progress b nr fifo shift ^^ n) l m" "serial_progress b nr fifo shift m l'" by auto
  with Suc have IH: "none_lost m" "write_at m = Ready" "asked m = asked l" "work_left m + n \<le> work_left l" by auto
  then show ?case
    using progress_quiet [OF IH(2) m(2)] none_lost_step [OF IH(1)] progress_measure [OF none_lostD(1) [OF IH(1)] m(2)]
    by auto
qed simp

text \<open>Whole writes, for reaching states: into the FIFO, and into the buffer.\<close>

lemma reaches_refl: "serial_reaches b nr fifo shift l l"
  by (simp add: serial_reaches_def)

lemma reaches_trans:
  "serial_reaches b nr fifo shift l m \<Longrightarrow> serial_reaches b nr fifo shift m l' \<Longrightarrow> serial_reaches b nr fifo shift l l'"
  unfolding serial_reaches_def by (rule rtranclp_trans)

lemma reaches_step:
  "serial_reaches b nr fifo shift l m \<Longrightarrow> serial_step b nr fifo shift a m l' \<Longrightarrow> serial_reaches b nr fifo shift l l'"
  unfolding serial_reaches_def by (rule rtranclp.rtrancl_into_rtrancl) auto

lemma quiet_reaches: "(quiet_step b nr fifo shift)\<^sup>*\<^sup>* l l' \<Longrightarrow> serial_reaches b nr fifo shift l l'"
  by (induction rule: rtranclp_induct) (auto simp: quiet_step_def intro: reaches_refl reaches_step)

lemma quiet_then:
  assumes "(quiet_step b nr fifo shift)\<^sup>*\<^sup>* l m" "serial_step b nr fifo shift a m l'" "a \<noteq> Interrupt"
  shows "(quiet_step b nr fifo shift)\<^sup>*\<^sup>* l l'"
  using assms(1) by (rule rtranclp.rtrancl_into_rtrancl) (use assms(2,3) in \<open>auto simp: quiet_step_def\<close>)

lemma measured:
  assumes "serial_ok nr (ser l)" "write_at l = Ready"
  obtains r where "unat r = 128 - fill l"
    "serial_step b nr fifo shift Call l (l\<lparr>ser := ser l\<lparr>written := True\<rparr>, write_at := Measured c r, asked := asked l @ [c]\<rparr>)"
proof -
  obtain r where r: "uart_get_tx_fifo_room b (serial_uart (ser l)) (hwst l) = (r, hwst l)" "unat r = 128 - fill l"
    using fifo_room [OF assms(1), of "hwst l"] by metis
  have "serial_step b nr fifo shift Call l
      (l\<lparr>ser := ser l\<lparr>written := True\<rparr>, hwst := hwst l, write_at := Measured c r, asked := asked l @ [c]\<rparr>)"
    by (rule serial_step.call) (use assms r serial_ok_enabled in \<open>simp_all add: write_begin_def\<close>)
  then show thesis using r(2) by (intro that) simp_all
qed

lemma direct_write:
  assumes ok: "serial_ok nr (ser l)" and l: "write_at l = Ready" "waiting_bytes (ser l) = []" "fill l < 128"
  obtains l' where "(quiet_step b nr fifo shift)\<^sup>*\<^sup>* l l'" "asked l' = asked l @ [c]" "serial_ok nr (ser l')" "write_at l' = Ready"
    "waiting_bytes (ser l') = []" "fill l' = Suc (fill l)" "119 \<le> fill l \<Longrightarrow> armed l'"
proof -
  obtain r where r: "unat r = 128 - fill l"
    "serial_step b nr fifo shift Call l (l\<lparr>ser := ser l\<lparr>written := True\<rparr>, write_at := Measured c r, asked := asked l @ [c]\<rparr>)"
    by (rule measured [OF ok l(1)])
  let ?s = "ser l\<lparr>written := True\<rparr>"
  let ?l1 = "l\<lparr>ser := ?s, write_at := Measured c r, asked := asked l @ [c]\<rparr>"
  have ok': "serial_ok nr ?s" using ok by simp
  obtain tb where tb: "tx_buffer ?s = Some tb" "cbuf_ok tb" "waiting_bytes ?s = queued tb"
    by (rule serial_ok_buffer [OF ok'])
  have "0 < unat r" using r l by simp
  then have pos: "0 < r" by (simp add: word_less_nat_alt)
  have s1: "serial_step b nr fifo shift Writer ?l1 (?l1\<lparr>ser := ?s, hwst := hwst l, write_at := Direct c r\<rparr>)"
    by (rule serial_step.writer) (use tb l pos in \<open>auto simp: cbuf_empty_queued\<close>)
  let ?h = "uart_transmit_char b (serial_uart ?s) c (hwst l)"
  have s2: "serial_step b nr fifo shift Writer (?l1\<lparr>ser := ?s, hwst := hwst l, write_at := Direct c r\<rparr>)
      (?l1\<lparr>ser := ?s, hwst := ?h, write_at := Sent r\<rparr>)"
    using serial_step.writer [of b "?l1\<lparr>ser := ?s, hwst := hwst l, write_at := Direct c r\<rparr>" "Sent r" ?s ?h] by simp
  let ?h' = "if r < 10 then uart_arm_tx_interrupt b (serial_uart ?s) ?h else ?h"
  have s3: "serial_step b nr fifo shift Writer (?l1\<lparr>ser := ?s, hwst := ?h, write_at := Sent r\<rparr>)
      (?l1\<lparr>ser := ?s, hwst := ?h', write_at := Ready\<rparr>)"
    using serial_step.writer [of b "?l1\<lparr>ser := ?s, hwst := ?h, write_at := Sent r\<rparr>" Ready ?s ?h'] by simp
  have "(quiet_step b nr fifo shift)\<^sup>*\<^sup>* l (?l1\<lparr>ser := ?s, hwst := ?h', write_at := Ready\<rparr>)"
    by (rule quiet_then [OF quiet_then [OF quiet_then [OF quiet_then [OF rtranclp.rtrancl_refl r(2)] s1] s2] s3]) simp_all
  moreover have "fifo ?h' = fifo (hwst l) @ [c]"
    using transmit_char(1) [OF ok'] arm(1) [OF ok'] l by simp
  moreover have "bit (ie ?h') UIFE" if "119 \<le> fill l"
  proof -
    have "r < 10" using that r(1) by (simp add: word_less_nat_alt)
    then show ?thesis using arm(2) [OF ok'] by simp
  qed
  ultimately show thesis
    using ok' l by (intro that [of "?l1\<lparr>ser := ?s, hwst := ?h', write_at := Ready\<rparr>"]) simp_all
qed

lemma fill_fifo_quiet:
  assumes "serial_ok nr (ser l)" "write_at l = Ready" "waiting_bytes (ser l) = []" "fifo (hwst l) = []" "k \<le> 128"
  shows "\<exists>l'. (quiet_step b nr fifo shift)\<^sup>*\<^sup>* l l' \<and> serial_ok nr (ser l') \<and> write_at l' = Ready \<and>
    waiting_bytes (ser l') = [] \<and> fill l' = k \<and> (120 \<le> k \<longrightarrow> armed l') \<and> asked l' = asked l @ replicate k c"
  using assms(5)
proof (induction k)
  case 0
  then show ?case using assms by (intro exI [of _ l]) simp
next
  case (Suc k)
  then obtain m where m: "(quiet_step b nr fifo shift)\<^sup>*\<^sup>* l m" "serial_ok nr (ser m)" "write_at m = Ready"
    "waiting_bytes (ser m) = []" "fill m = k" "asked m = asked l @ replicate k c" by auto
  moreover have "fill m < 128" using m Suc by simp
  ultimately obtain l' where "(quiet_step b nr fifo shift)\<^sup>*\<^sup>* m l'" "asked l' = asked m @ [c]" "serial_ok nr (ser l')"
    "write_at l' = Ready" "waiting_bytes (ser l') = []" "fill l' = Suc k" "119 \<le> k \<Longrightarrow> armed l'"
    using direct_write [of m c] by metis
  then show ?case
    using rtranclp_trans [OF m(1)] m(6) by (intro exI [of _ l']) (simp add: replicate_append_same)
qed

lemma fill_fifo:
  assumes "serial_ok nr (ser l)" "write_at l = Ready" "waiting_bytes (ser l) = []" "fifo (hwst l) = []" "k \<le> 128"
  shows "\<exists>l'. serial_reaches b nr fifo shift l l' \<and> serial_ok nr (ser l') \<and> write_at l' = Ready \<and>
    waiting_bytes (ser l') = [] \<and> fill l' = k \<and> (120 \<le> k \<longrightarrow> armed l')"
  using fill_fifo_quiet [OF assms] quiet_reaches by blast

lemma drain_fifo:
  assumes "k \<le> fill l"
  shows "\<exists>h snt. serial_reaches b nr fifo shift l (l\<lparr>hwst := h, sent := snt\<rparr>) \<and> length (fifo h) = fill l - k \<and> ie h = ie (hwst l)"
  using assms
proof (induction k)
  case 0
  have "serial_reaches b nr fifo shift l (l\<lparr>hwst := hwst l, sent := sent l\<rparr>)" using reaches_refl by simp
  then show ?case by (intro exI [of _ "hwst l"] exI [of _ "sent l"]) simp
next
  case (Suc k)
  then obtain h snt where h: "serial_reaches b nr fifo shift l (l\<lparr>hwst := h, sent := snt\<rparr>)"
    "length (fifo h) = fill l - k" "ie h = ie (hwst l)" by auto
  then obtain c r where c: "fifo h = c # r" using Suc.prems by (cases "fifo h") auto
  have "serial_step b nr fifo shift Transmitter (l\<lparr>hwst := h, sent := snt\<rparr>) (l\<lparr>hwst := shift h, sent := snt @ [c]\<rparr>)"
    using serial_step.transmitter [of fifo "l\<lparr>hwst := h, sent := snt\<rparr>" c r] c by simp
  from reaches_step [OF h(1) this] show ?case
    using h c shift_out [OF c] Suc.prems by (intro exI [of _ "shift h"] exI [of _ "snt @ [c]"]) simp
qed

text \<open>The stall: the interrupt switches itself off after \<^verbatim>\<open>write\<close> has decided to use the buffer and before the
  byte is in it.\<close>

definition stalled :: "'h line \<Rightarrow> bool" where
  "stalled l \<longleftrightarrow> serial_ok nr (ser l) \<and> fifo (hwst l) = [] \<and> waiting_bytes (ser l) \<noteq> [] \<and> \<not> armed l \<and>
     (\<forall>c r. write_at l \<noteq> Direct c r) \<and> (\<forall>r. write_at l \<noteq> Sent r) \<and>
     (\<forall>c tb. write_at l = Storing c \<longrightarrow> tx_buffer (ser l) = Some tb \<longrightarrow> 0 < cbuf_room tb)"

lemma stalled_step:
  assumes l: "stalled l" and step: "serial_step b nr fifo shift a l l'"
  shows "stalled l' \<and> sent l' = sent l"
proof -
  have ok: "serial_ok nr (ser l)" using l by (simp add: stalled_def)
  obtain tb where tb: "tx_buffer (ser l) = Some tb" "cbuf_ok tb" "waiting_bytes (ser l) = queued tb"
    by (rule serial_ok_buffer [OF ok])
  from step show ?thesis
  proof (cases rule: serial_stepE)
    case (call c p s h)
    obtain r where "uart_get_tx_fifo_room b (serial_uart (ser l)) (hwst l) = (r, hwst l)"
      using fifo_room [OF ok, of "hwst l"] by metis
    then have "p = Measured c r" "s = ser l\<lparr>written := True\<rparr>" "h = hwst l" using call by (simp_all add: write_begin_def)
    then show ?thesis using l call by (simp add: stalled_def)
  next
    case (writer p s h)
    show ?thesis
    proof (cases "write_at l")
      case (Measured c r)
      then show ?thesis using writer tb l by (auto simp: stalled_def cbuf_empty_queued)
    next
      case (Waiting c)
      then have "p = (if cbuf_room tb = 0 then Waiting c else Storing c)" "s = ser l" "h = hwst l"
        using writer tb by auto
      then show ?thesis using tb l writer by (auto simp: stalled_def)
    next
      case (Storing c)
      then have "0 < cbuf_room tb" using l tb by (auto simp: stalled_def)
      then obtain tb' where "cbuf_write c tb = Some (1, tb')" "serial_ok nr (ser l\<lparr>tx_buffer := Some tb'\<rparr>)"
        "waiting_bytes (ser l\<lparr>tx_buffer := Some tb'\<rparr>) = waiting_bytes (ser l) @ [c]" by (rule store [OF ok tb(1)])
      then show ?thesis using l writer Storing tb by (auto simp: stalled_def)
    qed (use l writer in \<open>auto simp: stalled_def\<close>)
  next
    case (interrupt s h)
    show ?thesis
      by (cases rule: tx_service [OF ok, of "hwst l"]) (use interrupt l in \<open>auto simp: stalled_def\<close>)
  next
    case (transmitter c r)
    then show ?thesis using l by (simp add: stalled_def)
  qed
qed

lemma stalled_for_ever:
  assumes "serial_reaches b nr fifo shift l l'" "stalled l"
  shows "stalled l' \<and> sent l' = sent l"
  using assms unfolding serial_reaches_def by (induction rule: rtranclp_induct) (use stalled_step in force)+

lemma reaches_stalled:
  assumes "serial_idle nr fifo l0"
  shows "\<exists>l. serial_reaches b nr fifo shift l0 l \<and> write_at l = Ready \<and> stalled l"
proof -
  have i: "serial_ok nr (ser l0)" "write_at l0 = Ready" "waiting_bytes (ser l0) = []" "fifo (hwst l0) = []"
    using assms by (simp_all add: serial_idle_def)
  from fill_fifo [OF i order_refl] obtain l1 where l1: "serial_reaches b nr fifo shift l0 l1" "serial_ok nr (ser l1)"
    "write_at l1 = Ready" "waiting_bytes (ser l1) = []" "fill l1 = 128" "armed l1" by auto
  obtain r where r: "unat r = 128 - fill l1" "serial_step b nr fifo shift Call l1
      (l1\<lparr>ser := ser l1\<lparr>written := True\<rparr>, write_at := Measured 0 r, asked := asked l1 @ [0]\<rparr>)"
    by (rule measured [OF l1(2,3)])
  let ?s = "ser l1\<lparr>written := True\<rparr>"
  let ?l2 = "l1\<lparr>ser := ?s, write_at := Measured 0 r, asked := asked l1 @ [0]\<rparr>"
  have ok: "serial_ok nr ?s" and r0: "r = 0" using l1 r(1) by (simp_all add: unat_eq_zero)
  obtain tb where tb: "tx_buffer ?s = Some tb" "cbuf_ok tb" "waiting_bytes ?s = queued tb"
    "length (queued tb) + cbuf_room tb = SERIAL_TX_BUFFER_SIZE - 1" by (rule serial_ok_buffer [OF ok])
  have room: "0 < cbuf_room tb" using tb l1 by (simp add: SERIAL_TX_BUFFER_SIZE_def)
  let ?l3 = "?l2\<lparr>ser := ?s, hwst := hwst l1, write_at := Waiting 0\<rparr>"
  let ?l4 = "?l3\<lparr>ser := ?s, hwst := hwst l1, write_at := Storing 0\<rparr>"
  have s3: "serial_step b nr fifo shift Writer ?l2 ?l3"
    by (rule serial_step.writer) (use tb r0 in simp)
  have s4: "serial_step b nr fifo shift Writer ?l3 ?l4"
    by (rule serial_step.writer) (use tb room in simp)
  have "fill ?l4 = 128" using l1 by simp
  from drain_fifo [of 128 ?l4] obtain h snt where h: "serial_reaches b nr fifo shift ?l4 (?l4\<lparr>hwst := h, sent := snt\<rparr>)"
    "length (fifo h) = 0" "ie h = ie (hwst l1)" using l1 by auto
  let ?l5 = "?l4\<lparr>hwst := h, sent := snt\<rparr>"
  obtain h' where h': "uart_tx_service b nr ?s h = Some (?s, h')" "fifo h' = []" "\<not> bit (ie h') UIFE"
    by (cases rule: tx_service [OF ok, of h]) (use h l1 in auto)
  let ?l6 = "?l5\<lparr>ser := ?s, hwst := h'\<rparr>"
  have s6: "serial_step b nr fifo shift Interrupt ?l5 ?l6"
    by (rule serial_step.interrupt) (use h' serial_ok_enabled [OF ok] in simp_all)
  obtain tb' where t: "cbuf_write 0 tb = Some (1, tb')" "serial_ok nr (?s\<lparr>tx_buffer := Some tb'\<rparr>)"
    "waiting_bytes (?s\<lparr>tx_buffer := Some tb'\<rparr>) = waiting_bytes ?s @ [0]" by (rule store [OF ok tb(1) room])
  let ?l7 = "?l6\<lparr>ser := ?s\<lparr>tx_buffer := Some tb'\<rparr>, hwst := h', write_at := Ready\<rparr>"
  have s7: "serial_step b nr fifo shift Writer ?l6 ?l7"
    by (rule serial_step.writer) (use t tb in simp)
  have "serial_reaches b nr fifo shift l0 ?l7"
    by (rule reaches_step [OF reaches_step [OF reaches_trans [OF reaches_step [OF reaches_step [OF reaches_step
      [OF l1(1) r(2)] s3] s4] h(1)] s6] s7])
  moreover have "stalled ?l7" unfolding stalled_def using t h' by simp
  ultimately show ?thesis by (intro exI [of _ ?l7]) simp
qed

text \<open>The lost byte: the buffer is emptied between the look at the FIFO and the look at the buffer.\<close>

lemma queued_write:
  assumes ok: "serial_ok nr (ser l)" and l: "write_at l = Ready" "fill l = 128" "length (waiting_bytes (ser l)) < 255"
  obtains l' where "(quiet_step b nr fifo shift)\<^sup>*\<^sup>* l l'" "asked l' = asked l @ [c]" "serial_ok nr (ser l')" "write_at l' = Ready"
    "length (waiting_bytes (ser l')) = Suc (length (waiting_bytes (ser l)))" "hwst l' = hwst l"
proof -
  obtain r where r: "unat r = 128 - fill l"
    "serial_step b nr fifo shift Call l (l\<lparr>ser := ser l\<lparr>written := True\<rparr>, write_at := Measured c r, asked := asked l @ [c]\<rparr>)"
    by (rule measured [OF ok l(1)])
  let ?s = "ser l\<lparr>written := True\<rparr>"
  let ?l1 = "l\<lparr>ser := ?s, write_at := Measured c r, asked := asked l @ [c]\<rparr>"
  have ok': "serial_ok nr ?s" and r0: "r = 0" using ok l r(1) by (simp_all add: unat_eq_zero)
  obtain tb where tb: "tx_buffer ?s = Some tb" "waiting_bytes ?s = queued tb"
    "length (queued tb) + cbuf_room tb = SERIAL_TX_BUFFER_SIZE - 1" by (rule serial_ok_buffer [OF ok'])
  have room: "0 < cbuf_room tb" using tb l by (simp add: SERIAL_TX_BUFFER_SIZE_def)
  let ?l2 = "?l1\<lparr>ser := ?s, hwst := hwst l, write_at := Waiting c\<rparr>"
  let ?l3 = "?l2\<lparr>ser := ?s, hwst := hwst l, write_at := Storing c\<rparr>"
  have s1: "serial_step b nr fifo shift Writer ?l1 ?l2" by (rule serial_step.writer) (use tb r0 in simp)
  have s2: "serial_step b nr fifo shift Writer ?l2 ?l3" by (rule serial_step.writer) (use tb room in simp)
  obtain tb' where t: "cbuf_write c tb = Some (1, tb')" "serial_ok nr (?s\<lparr>tx_buffer := Some tb'\<rparr>)"
    "waiting_bytes (?s\<lparr>tx_buffer := Some tb'\<rparr>) = waiting_bytes ?s @ [c]" by (rule store [OF ok' tb(1) room])
  let ?l4 = "?l3\<lparr>ser := ?s\<lparr>tx_buffer := Some tb'\<rparr>, hwst := hwst l, write_at := Ready\<rparr>"
  have s3: "serial_step b nr fifo shift Writer ?l3 ?l4" by (rule serial_step.writer) (use t tb in simp)
  have "(quiet_step b nr fifo shift)\<^sup>*\<^sup>* l ?l4"
    by (rule quiet_then [OF quiet_then [OF quiet_then [OF quiet_then [OF rtranclp.rtrancl_refl r(2)] s1] s2] s3]) simp_all
  then show thesis using t by (intro that [of ?l4]) simp_all
qed

lemma fill_queue:
  assumes "serial_ok nr (ser l)" "write_at l = Ready" "fill l = 128" "waiting_bytes (ser l) = []" "k \<le> 255"
  shows "\<exists>l'. serial_reaches b nr fifo shift l l' \<and> serial_ok nr (ser l') \<and> write_at l' = Ready \<and>
    length (waiting_bytes (ser l')) = k \<and> hwst l' = hwst l"
  using assms(5)
proof (induction k)
  case 0
  then show ?case using assms reaches_refl by (intro exI [of _ l]) simp
next
  case (Suc k)
  then obtain m where m: "serial_reaches b nr fifo shift l m" "serial_ok nr (ser m)" "write_at m = Ready"
    "length (waiting_bytes (ser m)) = k" "hwst m = hwst l" by auto
  moreover have "fill m = 128" "k < 255" using m assms Suc by simp_all
  ultimately obtain l' where "serial_reaches b nr fifo shift m l'" "serial_ok nr (ser l')" "write_at l' = Ready"
    "length (waiting_bytes (ser l')) = Suc k" "hwst l' = hwst l" using queued_write [of m 0] quiet_reaches by metis
  then show ?case using reaches_trans [OF m(1)] by (intro exI [of _ l']) simp
qed

lemma reaches_lost:
  assumes idle: "serial_idle nr fifo l0"
  shows "\<exists>l. serial_reaches b nr fifo shift l0 l \<and> write_at l = Ready \<and> length (on_the_way fifo l) < length (asked l)"
proof -
  have i: "serial_ok nr (ser l0)" "write_at l0 = Ready" "waiting_bytes (ser l0) = []" "fifo (hwst l0) = []"
    using idle by (simp_all add: serial_idle_def)
  from fill_fifo [OF i order_refl] obtain l1 where l1: "serial_reaches b nr fifo shift l0 l1" "serial_ok nr (ser l1)"
    "write_at l1 = Ready" "waiting_bytes (ser l1) = []" "fill l1 = 128" "armed l1" by auto
  from fill_queue [OF l1(2,3,5,4), of 97] obtain l2 where l2: "serial_reaches b nr fifo shift l1 l2"
    "serial_ok nr (ser l2)" "write_at l2 = Ready" "length (waiting_bytes (ser l2)) = 97" "hwst l2 = hwst l1" by auto
  from drain_fifo [of 97 l2] obtain h snt where h: "serial_reaches b nr fifo shift l2 (l2\<lparr>hwst := h, sent := snt\<rparr>)"
    "length (fifo h) = 31" "ie h = ie (hwst l1)" using l1 l2 by auto
  let ?l3 = "l2\<lparr>hwst := h, sent := snt\<rparr>"
  let ?s = "ser l2\<lparr>written := True\<rparr>"
  have r3: "serial_reaches b nr fifo shift l0 ?l3" by (rule reaches_trans [OF reaches_trans [OF l1(1) l2(1)] h(1)])
  have "serial_ok nr (ser ?l3)" "write_at ?l3 = Ready" using l2 by simp_all
  then obtain r where r: "unat r = 128 - fill ?l3"
    "serial_step b nr fifo shift Call ?l3 (?l3\<lparr>ser := ser ?l3\<lparr>written := True\<rparr>, write_at := Measured 0 r, asked := asked ?l3 @ [0]\<rparr>)"
    by (rule measured)
  let ?l4 = "?l3\<lparr>ser := ?s, write_at := Measured 0 r, asked := asked l2 @ [0]\<rparr>"
  have s4: "serial_step b nr fifo shift Call ?l3 ?l4" using r(2) by simp
  have ok: "serial_ok nr ?s" using l2 by simp
  have w: "length (waiting_bytes ?s) = 97" using l2 by simp
  obtain h5 s5 where h5: "uart_tx_service b nr ?s h = Some (s5, h5)" "waiting_bytes s5 = []" "serial_ok nr s5"
    "length (fifo h5) = 128"
  proof (cases rule: tx_service [OF ok, of h])
    case 1
    then show ?thesis using h l1 by simp
  next
    case 2
    then show ?thesis using w by simp
  next
    case (3 h' s' n)
    then show ?thesis using w h(2) by (intro that [of s' h']) simp_all
  qed
  let ?l5 = "?l4\<lparr>ser := s5, hwst := h5\<rparr>"
  have t5: "serial_step b nr fifo shift Interrupt ?l4 ?l5"
    by (rule serial_step.interrupt) (use h5 serial_ok_enabled [OF ok] in simp_all)
  obtain tb where tb: "tx_buffer s5 = Some tb" "cbuf_ok tb" "waiting_bytes s5 = queued tb"
    by (rule serial_ok_buffer [OF h5(3)])
  have "r > 0" using r(1) h(2) by (simp add: word_less_nat_alt)
  let ?l6 = "?l5\<lparr>ser := s5, hwst := h5, write_at := Direct 0 r\<rparr>"
  have t6: "serial_step b nr fifo shift Writer ?l5 ?l6"
    by (rule serial_step.writer) (use tb h5 \<open>r > 0\<close> in \<open>simp add: cbuf_empty_queued\<close>)
  let ?h7 = "uart_transmit_char b (serial_uart s5) 0 h5"
  let ?l7 = "?l6\<lparr>ser := s5, hwst := ?h7, write_at := Sent r\<rparr>"
  have t7: "serial_step b nr fifo shift Writer ?l6 ?l7"
    using serial_step.writer [of b ?l6 "Sent r" s5 ?h7] by simp
  let ?h8 = "if r < 10 then uart_arm_tx_interrupt b (serial_uart s5) ?h7 else ?h7"
  let ?l8 = "?l7\<lparr>ser := s5, hwst := ?h8, write_at := Ready\<rparr>"
  have t8: "serial_step b nr fifo shift Writer ?l7 ?l8"
    using serial_step.writer [of b ?l7 Ready s5 ?h8] by simp
  have reach: "serial_reaches b nr fifo shift l0 ?l8"
    by (rule reaches_step [OF reaches_step [OF reaches_step [OF reaches_step [OF reaches_step [OF r3 s4] t5] t6] t7] t8])
  have full: "fifo ?h8 = fifo h5" using transmit_char(1) [OF h5(3)] arm(1) [OF h5(3)] h5(4) by simp
  have "in_order ?l5" using reaches_in_order [OF reaches_step [OF reaches_step [OF r3 s4] t5] idle_in_order [OF idle]] .
  then have "subseq (on_the_way fifo ?l5) (asked ?l5)" by (rule in_orderD(2))
  then have "length (on_the_way fifo ?l5) \<le> length (asked ?l5)" by (rule list_emb_length)
  moreover have "length (on_the_way fifo ?l8) < length (on_the_way fifo ?l5)"
    using h5(2) full by (simp add: on_the_way_def)
  ultimately show ?thesis using reach by (intro exI [of _ ?l8]) simp
qed

text \<open>A full FIFO and one byte in the buffer, reached by whole writes; from there the steps of transmitter and
  interrupt come to an end.\<close>

lemma quiet_full:
  assumes "serial_idle nr fifo l0"
  obtains l where "(quiet_step b nr fifo shift)\<^sup>*\<^sup>* l0 l" "write_at l = Ready" "waiting_bytes (ser l) \<noteq> []"
    "asked l = replicate 128 c @ [d]"
proof -
  have i: "serial_ok nr (ser l0)" "write_at l0 = Ready" "waiting_bytes (ser l0) = []" "fifo (hwst l0) = []" "asked l0 = []"
    using assms by (simp_all add: serial_idle_def)
  from fill_fifo_quiet [OF i(1-4) order_refl, of c] i(5) obtain m where
    m: "(quiet_step b nr fifo shift)\<^sup>*\<^sup>* l0 m" "serial_ok nr (ser m)" "write_at m = Ready" "waiting_bytes (ser m) = []"
      "fill m = 128" "asked m = replicate 128 c" by auto
  from queued_write [OF m(2,3,5), of d] m(4) obtain l where l: "(quiet_step b nr fifo shift)\<^sup>*\<^sup>* m l" "asked l = asked m @ [d]"
    "write_at l = Ready" "length (waiting_bytes (ser l)) = 1" by auto
  then have "waiting_bytes (ser l) \<noteq> []" by auto
  with l m(6) show thesis using rtranclp_trans [OF m(1) l(1)] by (intro that [of l]) simp_all
qed

lemma progress_ends:
  assumes "none_lost l" "write_at l = Ready"
  shows "\<exists>n l'. (serial_progress b nr fifo shift ^^ n) l l' \<and> (\<nexists>l''. serial_progress b nr fifo shift l' l'')"
  using assms
proof (induction "work_left l" arbitrary: l rule: less_induct)
  case less
  show ?case
  proof (cases "\<exists>m. serial_progress b nr fifo shift l m")
    case True
    then obtain m where m: "serial_progress b nr fifo shift l m" by blast
    then have one: "(serial_progress b nr fifo shift ^^ 1) l m" by (simp only: relpowp_1)
    have "none_lost m \<and> write_at m = Ready \<and> work_left m + 1 \<le> work_left l"
      using progress_run [OF one less.prems] by simp
    then obtain n l' where "(serial_progress b nr fifo shift ^^ n) m l'" "\<nexists>l''. serial_progress b nr fifo shift l' l''"
      using less.hyps [of m] by auto
    with m show ?thesis using relpowp_Suc_I2 [of "serial_progress b nr fifo shift" l m n l'] by blast
  next
    case False
    then show ?thesis by (intro exI [of _ 0]) auto
  qed
qed

end

section \<open>A chip\<close>

record uart_regs =
  rf_fifo :: "u8 list"
  rf_ie :: u32

definition ref_fifo :: "uart_regs \<Rightarrow> u8 list" where "ref_fifo h = take 128 (rf_fifo h)"

definition ref_shift :: "uart_regs \<Rightarrow> uart_regs" where "ref_shift h = h\<lparr>rf_fifo := tl (ref_fifo h)\<rparr>"

definition reference_uart :: "uart_regs bus" where
  "reference_uart =
     \<lparr>reg_rd = \<lambda>a h.
        (if a = USS 0 then push_bit USTXC (word_of_nat (length (ref_fifo h)))
         else if a = USIE 0 then rf_ie h
         else if a = USIS 0 then (if bit (rf_ie h) UIFE \<and> length (ref_fifo h) < 32 then shl1 UIFE else 0)
         else 0, h),
      reg_wr = \<lambda>a v h.
        (if a = USF 0 then if length (ref_fifo h) < 128 then h\<lparr>rf_fifo := ref_fifo h @ [ucast v]\<rparr> else h
         else if a = USIE 0 then h\<lparr>rf_ie := v\<rparr> else h)\<rparr>"

lemma uart_regs_distinct:
  "USS 0 \<noteq> USIE 0" "USS 0 \<noteq> USIS 0" "USIE 0 \<noteq> USIS 0" "USF 0 \<noteq> USIE 0" "USIC 0 \<noteq> USF 0" "USIC 0 \<noteq> USIE 0"
  by (simp_all add: USS_def USIE_def USIS_def USF_def USIC_def uart_reg_def ESP8266_REG_def)

lemma tx_count_shifted: "n \<le> 128 \<Longrightarrow> tx_count (push_bit USTXC (word_of_nat n)) = word_of_nat n"
proof -
  assume n: "n \<le> 128"
  have m: "(0xff :: u32) = mask 8" by (simp add: mask_eq_exp_minus_1)
  have "tx_count (push_bit USTXC w) = take_bit 8 w" for w
    unfolding tx_count_def m by (rule bit_word_eqI) (auto simp: USTXC_def bit_simps)
  moreover have "take_bit 8 (word_of_nat n :: u32) = word_of_nat n"
    using n by (simp add: take_bit_of_nat take_bit_nat_eq_self)
  ultimately show ?thesis by simp
qed

interpretation ref_uart: uart_chip reference_uart 0 ref_fifo rf_ie ref_shift
proof unfold_locales
  fix h v c r
  show le: "length (ref_fifo h) \<le> 128" by (simp add: ref_fifo_def)
  show "\<exists>v. reg_rd reference_uart (USS 0) h = (v, h) \<and> tx_count v = word_of_nat (length (ref_fifo h))"
    using tx_count_shifted [OF le] by (simp add: reference_uart_def)
  show "ref_fifo (reg_wr reference_uart (USF 0) v h) = (if length (ref_fifo h) < 128 then ref_fifo h @ [ucast v] else ref_fifo h)"
    by (auto simp: reference_uart_def ref_fifo_def min_def split: if_splits)
  show "rf_ie (reg_wr reference_uart (USF 0) v h) = rf_ie h" by (simp add: reference_uart_def)
  show "reg_rd reference_uart (USIE 0) h = (rf_ie h, h)" using uart_regs_distinct by (simp add: reference_uart_def)
  show "rf_ie (reg_wr reference_uart (USIE 0) v h) = v" "ref_fifo (reg_wr reference_uart (USIE 0) v h) = ref_fifo h"
    using uart_regs_distinct by (simp_all add: reference_uart_def ref_fifo_def)
  have "shl1 UIFE \<noteq> 0" by (simp add: shl1_def UIFE_def)
  then show "\<exists>v. reg_rd reference_uart (USIS 0) h = (v, h) \<and>
        (v AND shl1 UIFE \<noteq> 0 \<longrightarrow> bit (rf_ie h) UIFE \<and> length (ref_fifo h) \<le> 32) \<and>
        (bit (rf_ie h) UIFE \<and> length (ref_fifo h) < 32 \<longrightarrow> v AND shl1 UIFE \<noteq> 0)"
    using uart_regs_distinct by (simp add: reference_uart_def)
  show "rf_ie (reg_wr reference_uart (USIC 0) v h) = rf_ie h" "ref_fifo (reg_wr reference_uart (USIC 0) v h) = ref_fifo h"
    using uart_regs_distinct by (simp_all add: reference_uart_def)
  show "ref_fifo (ref_shift h) = r" if "ref_fifo h = c # r"
    using that le by (simp add: ref_shift_def ref_fifo_def)
  show "rf_ie (ref_shift h) = rf_ie h" by (simp add: ref_shift_def)
qed

definition reference_line :: "uart_regs line" where
  "reference_line =
     \<lparr>ser = \<lparr>serial_nr = 0,
        serial_uart = Some \<lparr>uart_nr = 0, baud_rate = 115200, rxEnabled = True, txEnabled = True, rxPin = 3, txPin = 1\<rparr>,
        tx_buffer = Some (new_cbuf SERIAL_TX_BUFFER_SIZE (replicate 256 0)), rx_buffer = None, written = False\<rparr>,
      hwst = \<lparr>rf_fifo = [], rf_ie = 0\<rparr>, write_at = Ready, asked = [], sent = []\<rparr>"

lemma new_tx_buffer:
  assumes "256 \<le> length mem"
  shows "cbuf_ok (new_cbuf SERIAL_TX_BUFFER_SIZE mem) \<and> queued (new_cbuf SERIAL_TX_BUFFER_SIZE mem) = [] \<and>
    cbuf_room (new_cbuf SERIAL_TX_BUFFER_SIZE mem) = SERIAL_TX_BUFFER_SIZE - 1"
proof -
  have ok: "cbuf_ok (new_cbuf SERIAL_TX_BUFFER_SIZE mem) \<and> queued (new_cbuf SERIAL_TX_BUFFER_SIZE mem) = []"
    by (rule new_cbuf_ok) (use assms in \<open>simp_all add: SERIAL_TX_BUFFER_SIZE_def\<close>)
  moreover have "csize (new_cbuf SERIAL_TX_BUFFER_SIZE mem) = SERIAL_TX_BUFFER_SIZE" by (simp add: new_cbuf_def)
  ultimately show ?thesis using cbuf_room_queued by (metis diff_zero list.size(3))
qed

lemma reference_line_idle: "serial_idle 0 ref_fifo reference_line"
  using new_tx_buffer [of "replicate 256 0"]
  by (simp add: serial_idle_def serial_ok_def reference_line_def waiting_bytes_def ref_fifo_def)

lemma reference_run:
  "\<exists>l. (\<lambda>l l'. \<exists>a. serial_step reference_uart 0 ref_fifo ref_shift a l l')\<^sup>*\<^sup>* reference_line l \<and>
     asked l = [72, 105] \<and> sent l = [72] \<and> ref_fifo (hwst l) = [105]"
proof -
  have i: "serial_ok 0 (ser reference_line)" "write_at reference_line = Ready" "waiting_bytes (ser reference_line) = []"
    "ref_fifo (hwst reference_line) = []" "asked reference_line = []" "sent reference_line = []"
    using reference_line_idle by (simp_all add: serial_idle_def)
  have "length (ref_fifo (hwst reference_line)) < 128" using i(4) by simp
  from ref_uart.direct_write [OF i(1-3) this, of 72] obtain l1 where
    1: "(quiet_step reference_uart 0 ref_fifo ref_shift)\<^sup>*\<^sup>* reference_line l1" "asked l1 = asked reference_line @ [72]"
      "serial_ok 0 (ser l1)" "write_at l1 = Ready" "waiting_bytes (ser l1) = []"
      "length (ref_fifo (hwst l1)) = Suc (length (ref_fifo (hwst reference_line)))" by metis
  have "length (ref_fifo (hwst l1)) < 128" using 1(6) i(4) by simp
  from ref_uart.direct_write [OF 1(3-5) this, of 105] obtain l2 where
    q2: "(quiet_step reference_uart 0 ref_fifo ref_shift)\<^sup>*\<^sup>* l1 l2" and a2: "asked l2 = asked l1 @ [105]"
      and r2: "write_at l2 = Ready" "waiting_bytes (ser l2) = []" "length (ref_fifo (hwst l2)) = Suc (length (ref_fifo (hwst l1)))" by metis
  have 2: "(quiet_step reference_uart 0 ref_fifo ref_shift)\<^sup>*\<^sup>* l1 l2" "asked l2 = [72, 105]" "write_at l2 = Ready"
      "waiting_bytes (ser l2) = []" "length (ref_fifo (hwst l2)) = 2"
    using q2 a2 r2 1 i by simp_all
  note q = rtranclp_trans [OF 1(1) 2(1)]
  have "ref_uart.none_lost l2" by (rule ref_uart.quiet_none_lost [OF q ref_uart.idle_none_lost [OF reference_line_idle]])
  then have w: "sent l2 @ ref_fifo (hwst l2) = [72, 105]"
    using ref_uart.none_lostD(2) [of l2] 2 by (simp add: on_the_way_def)
  have "length (sent l2 @ ref_fifo (hwst l2)) = 2" unfolding w by simp
  then have s: "sent l2 = []" using 2(5) by simp
  with w have s2: "ref_fifo (hwst l2) = [72, 105]" by simp
  have "serial_step reference_uart 0 ref_fifo ref_shift Transmitter l2 (l2\<lparr>hwst := ref_shift (hwst l2), sent := sent l2 @ [72]\<rparr>)"
    by (rule serial_step.transmitter) (rule s2)
  from ref_uart.reaches_step [OF ref_uart.quiet_reaches [OF q] this]
  show ?thesis
    using s 2(2) ref_uart.shift_out(1) [OF s2] unfolding serial_reaches_def
    by (intro exI [of _ "l2\<lparr>hwst := ref_shift (hwst l2), sent := sent l2 @ [72]\<rparr>"]) simp
qed

text \<open>\<open>begin\<close> brings a port into the state the properties start from.\<close>

lemma begin_serial_ok:
  assumes "serial_nr s = UART0 \<or> serial_nr s = UART1" "tx_buffer s = None" "256 \<le> length tx_mem"
    and "HardwareSerial_begin b (Some u) rx_mem tx_mem baud config s d h = Some (s', d', h')"
  shows "serial_ok (serial_nr s) s' \<and> waiting_bytes s' = []"
  using assms new_tx_buffer [OF assms(3)]
  by (auto simp: HardwareSerial_begin_def uart_init_def uart_set_baudrate_def Let_def bind_eq_Some_conv serial_ok_def
      waiting_bytes_def UART0_def UART1_def split: if_splits)

section \<open>Properties\<close>

text \<open>C9 (safety). However the steps of the writer, the interrupt routine and the transmitter interleave, the
  bytes sent so far, those in the FIFO, those in the buffer and the one being written are, in this order, a
  subsequence of the bytes \<^verbatim>\<open>write\<close> was called with: nothing is sent twice, reordered or made up.\<close>

theorem serial_keeps_order:
  assumes "uart_chip b nr fifo ie shift" "serial_idle nr fifo l0" "(\<lambda>l l'. \<exists>a. serial_step b nr fifo shift a l l')\<^sup>*\<^sup>* l0 l"
  shows "subseq (sent l @ fifo (hwst l) @ waiting_bytes (ser l) @ held (write_at l)) (asked l)"
proof -
  have "uart_chip.in_order nr fifo l"
    by (rule uart_chip.reaches_in_order [OF assms(1) assms(3) [folded serial_reaches_def]])
      (rule uart_chip.idle_in_order [OF assms(1,2)])
  then show ?thesis using uart_chip.in_orderD(2) [OF assms(1)] by (simp add: on_the_way_def)
qed

text \<open>Two bytes are written, and the first one leaves.\<close>

theorem serial_keeps_order_witness:
  "\<exists>l. (\<lambda>l l'. \<exists>a. serial_step reference_uart 0 ref_fifo ref_shift a l l')\<^sup>*\<^sup>* reference_line l \<and>
     asked l = [72, 105] \<and> sent l = [72] \<and> ref_fifo (hwst l) = [105] \<and>
     subseq ([72, 105] @ waiting_bytes (ser l) @ held (write_at l)) [72, 105]"
proof -
  obtain l where l: "(\<lambda>l l'. \<exists>a. serial_step reference_uart 0 ref_fifo ref_shift a l l')\<^sup>*\<^sup>* reference_line l"
    "asked l = [72, 105]" "sent l = [72]" "ref_fifo (hwst l) = [105]" using reference_run by blast
  with serial_keeps_order [OF ref_uart.uart_chip_axioms reference_line_idle l(1)] show ?thesis
    by (intro exI [of _ l]) simp
qed

text \<open>C8 (liveness). As long as the interrupt routine runs between two writes, or in a write that waits for room
  while the buffer has bytes, no byte is lost and none is stuck: from any state between two writes, after at
  most twice as many steps of transmitter and interrupt as there are bytes left (and one) no step is left to
  do, and then every byte asked for has been sent, in order.\<close>

theorem serial_sends_everything:
  assumes "uart_chip b nr fifo ie shift" "serial_idle nr fifo l0" "write_at l = Ready"
    and "(\<lambda>l l'. \<exists>a. serial_step b nr fifo shift a l l' \<and>
        (a = Interrupt \<longrightarrow> write_at l = Ready \<or> (\<exists>c. write_at l = Waiting c) \<and> waiting_bytes (ser l) \<noteq> []))\<^sup>*\<^sup>* l0 l"
    and "(serial_progress b nr fifo shift ^^ n) l l'"
  shows "n \<le> 2 * length (waiting_bytes (ser l)) + length (fifo (hwst l)) + 1 \<and>
    ((\<nexists>l''. serial_progress b nr fifo shift l' l'') \<longrightarrow> sent l' = asked l)"
proof -
  have l: "uart_chip.none_lost nr fifo ie l"
    by (rule uart_chip.quiet_none_lost [OF assms(1) assms(4) [folded quiet_step_def]])
      (rule uart_chip.idle_none_lost [OF assms(1,2)])
  note run = uart_chip.progress_run [OF assms(1,5) l assms(3)]
  have "of_bool (bit (ie (hwst l)) UIFE) \<le> (1 :: nat)" by simp
  then have "n \<le> 2 * length (waiting_bytes (ser l)) + length (fifo (hwst l)) + 1"
    using run unfolding uart_chip.work_left_def [OF assms(1)] by linarith
  moreover have "sent l' = asked l" if "\<nexists>l''. serial_progress b nr fifo shift l' l''"
    using uart_chip.no_progress [OF assms(1), of l'] run that by auto
  ultimately show ?thesis by blast
qed

text \<open>The FIFO is filled and one more byte waits in the buffer, which takes the interrupt to send.\<close>

theorem serial_sends_everything_witness:
  "\<exists>l n l'. (\<lambda>l l'. \<exists>a. serial_step reference_uart 0 ref_fifo ref_shift a l l' \<and>
        (a = Interrupt \<longrightarrow> write_at l = Ready \<or> (\<exists>c. write_at l = Waiting c) \<and> waiting_bytes (ser l) \<noteq> []))\<^sup>*\<^sup>* reference_line l \<and>
     waiting_bytes (ser l) \<noteq> [] \<and> asked l = replicate 128 72 @ [105] \<and>
     (serial_progress reference_uart 0 ref_fifo ref_shift ^^ n) l l' \<and> sent l' = replicate 128 72 @ [105] \<and>
     n \<le> 2 * length (waiting_bytes (ser l)) + length (ref_fifo (hwst l)) + 1"
proof -
  obtain l where l: "(quiet_step reference_uart 0 ref_fifo ref_shift)\<^sup>*\<^sup>* reference_line l" "write_at l = Ready"
    "waiting_bytes (ser l) \<noteq> []" "asked l = replicate 128 72 @ [105]"
    by (rule ref_uart.quiet_full [OF reference_line_idle])
  have "ref_uart.none_lost l" by (rule ref_uart.quiet_none_lost [OF l(1) ref_uart.idle_none_lost [OF reference_line_idle]])
  from ref_uart.progress_ends [OF this l(2)] obtain n l' where
    n: "(serial_progress reference_uart 0 ref_fifo ref_shift ^^ n) l l'"
      "\<nexists>l''. serial_progress reference_uart 0 ref_fifo ref_shift l' l''" by blast
  note q = l(1) [unfolded quiet_step_def]
  from serial_sends_everything [OF ref_uart.uart_chip_axioms reference_line_idle l(2) q n(1)] n(2) l(3,4) q n(1)
  show ?thesis by (intro exI [of _ l] exI [of _ n] exI [of _ l']) simp
qed

text \<open>C10 (safety). Without that restriction both fail on every such chip.  The interrupt can switch itself off
  after \<^verbatim>\<open>write\<close> has turned to the buffer and before the byte is in it: from the state reached nothing is ever
  sent again, whatever is written.  And when it empties the buffer between the two looks \<^verbatim>\<open>write\<close> takes, the byte
  goes into a full FIFO and is lost.\<close>

theorem serial_races:
  assumes "uart_chip b nr fifo ie shift" "serial_idle nr fifo l0"
  shows "(\<exists>l. serial_reaches b nr fifo shift l0 l \<and> write_at l = Ready \<and> waiting_bytes (ser l) \<noteq> [] \<and>
      (\<forall>l'. (\<lambda>l l'. \<exists>a. serial_step b nr fifo shift a l l')\<^sup>*\<^sup>* l l' \<longrightarrow> sent l' = sent l)) \<and>
    (\<exists>l. serial_reaches b nr fifo shift l0 l \<and> write_at l = Ready \<and>
      length (sent l @ fifo (hwst l) @ waiting_bytes (ser l)) < length (asked l))"
proof
  obtain l where l: "serial_reaches b nr fifo shift l0 l" "write_at l = Ready" "uart_chip.stalled nr fifo ie l"
    using uart_chip.reaches_stalled [OF assms] by blast
  moreover have "waiting_bytes (ser l) \<noteq> []" using l(3) unfolding uart_chip.stalled_def [OF assms(1)] by blast
  moreover have "sent l' = sent l" if "serial_reaches b nr fifo shift l l'" for l'
    using uart_chip.stalled_for_ever [OF assms(1) that l(3)] by simp
  ultimately show "\<exists>l. serial_reaches b nr fifo shift l0 l \<and> write_at l = Ready \<and> waiting_bytes (ser l) \<noteq> [] \<and>
      (\<forall>l'. (\<lambda>l l'. \<exists>a. serial_step b nr fifo shift a l l')\<^sup>*\<^sup>* l l' \<longrightarrow> sent l' = sent l)"
    unfolding serial_reaches_def by blast
next
  obtain l where "serial_reaches b nr fifo shift l0 l" "write_at l = Ready" "length (on_the_way fifo l) < length (asked l)"
    using uart_chip.reaches_lost [OF assms] by blast
  then show "\<exists>l. serial_reaches b nr fifo shift l0 l \<and> write_at l = Ready \<and>
      length (sent l @ fifo (hwst l) @ waiting_bytes (ser l)) < length (asked l)"
    by (intro exI [of _ l]) (simp add: on_the_way_def)
qed

theorem serial_races_witness:
  "\<exists>l. serial_reaches reference_uart 0 ref_fifo ref_shift reference_line l \<and> write_at l = Ready \<and>
     length (sent l @ ref_fifo (hwst l) @ waiting_bytes (ser l)) < length (asked l)"
  using serial_races [OF ref_uart.uart_chip_axioms reference_line_idle] by blast

end
