(* ===== verification/SpiffsCheckFacts.thy ===== *)
theory SpiffsCheckFacts imports SpiffsCheck SpiffsRead begin

text \<open>
  What the consistency check of \<^verbatim>\<open>SpiffsCheck\<close> does to a file system: the entries and pages it leaves alone, the
  flags it keeps in the work buffer, and the page under two ids on which it reads a variable that was never set.
\<close>

section \<open>Entries that agree with the headers\<close>

definition entry_agrees :: "u16 \<Rightarrow> spiffs_page_header \<Rightarrow> bool" where
  "entry_agrees oid ph \<longleftrightarrow>
     (if oid = SPIFFS_OBJ_ID_FREE then ph_flags ph AND SPIFFS_PH_FLAG_USED \<noteq> 0
      else if oid = SPIFFS_OBJ_ID_DELETED then ph_flags ph AND SPIFFS_PH_FLAG_DELET = 0
      else ph_obj_id ph OR SPIFFS_OBJ_ID_IX_FLAG = oid OR SPIFFS_OBJ_ID_IX_FLAG \<and>
        (oid AND SPIFFS_OBJ_ID_IX_FLAG \<noteq> 0 \<longleftrightarrow> ph_flags ph AND SPIFFS_PH_FLAG_INDEX = 0) \<and>
        ph_flags ph AND SPIFFS_PH_FLAG_DELET \<noteq> 0 \<and> ph_flags ph AND SPIFFS_PH_FLAG_FINAL = 0)"

definition lookup_consistent :: "'d spiffs_config \<Rightarrow> (nat \<Rightarrow> u8) \<Rightarrow> bool" where
  "lookup_consistent conf m \<longleftrightarrow>
     (\<forall>b < blks conf. \<forall>e < ents conf. entry_agrees (lu_id conf m b e) (header_of conf m b e))"

text \<open>A final index page that is not deleted.\<close>

definition final_index :: "spiffs_page_header \<Rightarrow> bool" where
  "final_index ph \<longleftrightarrow>
     ph_flags ph AND (SPIFFS_PH_FLAG_INDEX OR SPIFFS_PH_FLAG_FINAL OR SPIFFS_PH_FLAG_DELET OR SPIFFS_PH_FLAG_IXDELE) =
       SPIFFS_PH_FLAG_DELET OR SPIFFS_PH_FLAG_IXDELE"

lemma final_index_flags:
  assumes "final_index ph"
  shows "ph_flags ph AND SPIFFS_PH_FLAG_INDEX = 0" "ph_flags ph AND SPIFFS_PH_FLAG_FINAL = 0"
    "ph_flags ph AND SPIFFS_PH_FLAG_DELET \<noteq> 0" "ph_flags ph AND SPIFFS_PH_FLAG_IXDELE \<noteq> 0"
    "ph_flags ph AND (SPIFFS_PH_FLAG_INDEX OR SPIFFS_PH_FLAG_IXDELE) \<noteq> 0"
proof -
  have e: "ph_flags ph AND 0xC6 = 0xC0" using assms by (simp add: final_index_def ph_flag_defs)
  have "ph_flags ph AND k = 0xC0 AND k" if "0xC6 AND k = k" for k
    using arg_cong [OF e, of "\<lambda>x. x AND k"] that by (simp add: and.assoc)
  from this [of 4] this [of 2] this [of "0x80"] this [of "0x40"] this [of "0x44"]
  show "ph_flags ph AND SPIFFS_PH_FLAG_INDEX = 0" "ph_flags ph AND SPIFFS_PH_FLAG_FINAL = 0"
    "ph_flags ph AND SPIFFS_PH_FLAG_DELET \<noteq> 0" "ph_flags ph AND SPIFFS_PH_FLAG_IXDELE \<noteq> 0"
    "ph_flags ph AND (SPIFFS_PH_FLAG_INDEX OR SPIFFS_PH_FLAG_IXDELE) \<noteq> 0"
    by (simp_all add: ph_flag_defs)
qed


text \<open>All index pages are final and not deleted, with or without an index header.\<close>

definition index_pages_live :: "'d spiffs_config \<Rightarrow> (nat \<Rightarrow> u8) \<Rightarrow> bool" where
  "index_pages_live conf m \<longleftrightarrow> (\<forall>b < blks conf. \<forall>e < ents conf. index_id (lu_id conf m b e) \<longrightarrow>
     final_index (header_of conf m b e))"

lemma check_entry_agrees:
  "entry_agrees oid ph \<Longrightarrow> check_entry fs oid ph pix = Some (Inr (False, SPIFFS_OK), False, fs)"
  by (auto simp: entry_agrees_def check_entry_def go_on_def SPIFFS_OBJ_ID_FREE_def SPIFFS_OBJ_ID_DELETED_def
      split: if_splits)

text \<open>A walk with a visitor that leaves every entry of the flash alone.\<close>

context spiffs_flash
begin

lemma read_header_ok:
  assumes m: "matches m p fs" and be: "b < blks conf" "e < ents conf" and t: "ticks fs < 2 ^ 32 - 1"
  shows "\<exists>fs'. read_header fs (word_of_nat (entry_page b e)) = Some (SPIFFS_OK, header_of conf m b e, fs') \<and>
    matches m p fs' \<and> ticks fs' = ticks fs + 1 \<and> lu_work fs' = lu_work fs"
proof -
  have "unat sizeof_page_header \<le> psz conf" using geometry_facts(1) [OF g] by simp
  from read_page_head_ok [OF m be t entry_addrs(3) [OF be] this, of "SPIFFS_OP_T_OBJ_LU2 OR SPIFFS_OP_C_READ" 0]
  show ?thesis using matches_fields(1) [OF m]
    by (auto simp: read_header_def header_of_def get_page_header_take SPIFFS_OK_def)
qed

lemma quiet_walk:
  "walk (visit_step flags obj_id (Some (\<lambda>_ _ _ u p. (SPIFFS_VIS_COUNTINUE, u, p))) b) ids es s p = (r, s', p') \<Longrightarrow>
   r = Next \<and> p' = p"
  by (induction es arbitrary: s) (auto simp: visit_step_def Let_def split: if_splits)

lemma quiet_visit_walk:
  "visit_walk flags obj_id (Some (\<lambda>_ _ _ u p. (SPIFFS_VIS_COUNTINUE, u, p))) ids n bs s p = (x, s', p') \<Longrightarrow>
   x = SPIFFS_VIS_END \<and> p' = p"
  by (induction bs arbitrary: s) (auto split: prod.splits lu_step.splits if_splits dest: quiet_walk)

lemma quiet_visit:
  fixes u :: 'u
  assumes v: "visitor_ok m k None (\<lambda>_ _ _ u p. (SPIFFS_VIS_COUNTINUE, u, p)) v"
    and m: "matches m p fs" and t: "ticks fs + search_cost k < 2 ^ 32 - 1"
  shows "\<exists>s fs'. spiffs_obj_lu_find_entry_visitor fs 0 0 0 0 (Some v) u = Some (SPIFFS_VIS_END, s, fs') \<and>
    matches m p fs' \<and> ticks fs' \<le> ticks fs + search_cost k"
proof -
  let ?q = "\<lambda>_ _ _ (u :: 'u) (p :: 'd spiffs). (SPIFFS_VIS_COUNTINUE, u, p)"
  have v': "rel_option (visitor_ok m k (sought_id 0 0)) (Some ?q) (Some v)" using v by (simp add: sought_id_def)
  have b: "0 < blks conf" using geometry_facts(6) [OF g] by simp
  from find_entry_visitor_ok [OF v' _ b m t, of 0 u] obtain x s' p' fs' where
    l: "lookup_visit 0 0 (Some ?q) m (search_start conf 0 0) (init_search u) p = (x, s', p')"
    and f: "spiffs_obj_lu_find_entry_visitor fs 0 0 0 0 (Some v) u = Some (x, s', fs')"
    and m': "matches m p' fs'" "ticks fs' \<le> ticks fs + search_cost k" by auto
  from l have "x = SPIFFS_VIS_END \<and> p' = p"
    by (auto simp: lookup_visit_def split: prod.splits lu_step.splits dest: quiet_walk quiet_visit_walk)
  then show ?thesis using f m' by blast
qed

text \<open>A visitor that does nothing but read.\<close>

lemma quiet_visitor_ok:
  assumes "\<And>b e u p fs. matches m p fs \<Longrightarrow> b < blks conf \<Longrightarrow> e < ents conf \<Longrightarrow> ticks fs < 2 ^ 32 - 1 \<Longrightarrow>
    \<exists>fs'. v fs (lu_id conf m b e) (word_of_nat b) e u = Some (SPIFFS_VIS_COUNTINUE, u, fs') \<and> matches m p fs' \<and>
      lu_work fs' = lu_work fs \<and> ticks fs' \<le> ticks fs + 1"
  shows "visitor_ok m 1 None (\<lambda>_ _ _ u p. (SPIFFS_VIS_COUNTINUE, u, p)) v"
  unfolding visitor_ok_def
proof (intro allI impI, elim conjE)
  fix oid b e u p fs
  assume m: "matches m p fs" "b < blks conf" "e < ents conf" and id: "oid = lu_id conf m b e \<or> None = Some oid"
    and t: "ticks fs + 1 < 2 ^ 32 - 1"
  have "ticks fs < 2 ^ 32 - 1" using t by simp
  from assms [OF m this] show "case (SPIFFS_VIS_COUNTINUE, u, p) of (res, u', p') \<Rightarrow> res \<noteq> SPIFFS_VIS_COUNTINUE_RELOAD \<and>
      (\<exists>fs'. v fs oid (word_of_nat b) e u = Some (res, u', fs') \<and> matches m p' fs' \<and> lu_work fs' = lu_work fs \<and>
        ticks fs' \<le> ticks fs + 1)"
    using id visit_codes by simp
qed

lemma lookup_check_v_quiet:
  assumes c: "lookup_consistent conf m"
  shows "visitor_ok m 1 None (\<lambda>_ _ _ u p. (SPIFFS_VIS_COUNTINUE, u, p)) spiffs_lookup_check_v"
proof (rule quiet_visitor_ok)
  fix b e u p fs
  assume m: "matches m p fs" and be: "b < blks conf" "e < ents conf" and t: "ticks fs < 2 ^ 32 - 1"
  from read_header_ok [OF m be t] obtain fs' where
    r: "read_header fs (word_of_nat (entry_page b e)) = Some (SPIFFS_OK, header_of conf m b e, fs')"
    and m': "matches m p fs'" "ticks fs' = ticks fs + 1" "lu_work fs' = lu_work fs" by blast
  have a: "entry_agrees (lu_id conf m b e) (header_of conf m b e)" using c be by (simp add: lookup_consistent_def)
  show "\<exists>fs'. spiffs_lookup_check_v fs (lu_id conf m b e) (word_of_nat b) e u = Some (SPIFFS_VIS_COUNTINUE, u, fs') \<and>
      matches m p fs' \<and> lu_work fs' = lu_work fs \<and> ticks fs' \<le> ticks fs + 1"
    unfolding spiffs_lookup_check_v_def matches_fields(1) [OF m] entry_addrs(4) [OF be] Let_def r
    using m' by (simp add: spiffs_lookup_check_validate_def check_entry_agrees [OF a])
qed

lemma index_check_v_quiet:
  assumes c: "index_pages_live conf m"
  shows "visitor_ok m 1 None (\<lambda>_ _ _ u p. (SPIFFS_VIS_COUNTINUE, u, p)) spiffs_object_index_consistency_check_v"
proof (rule quiet_visitor_ok)
  fix b e u p fs
  assume m: "matches m p fs" and be: "b < blks conf" "e < ents conf" and t: "ticks fs < 2 ^ 32 - 1"
  let ?id = "lu_id conf m b e"
  show "\<exists>fs'. spiffs_object_index_consistency_check_v fs ?id (word_of_nat b) e u = Some (SPIFFS_VIS_COUNTINUE, u, fs') \<and>
      matches m p fs' \<and> lu_work fs' = lu_work fs \<and> ticks fs' \<le> ticks fs + 1"
  proof (cases "index_id ?id")
    case False
    then have "spiffs_object_index_consistency_check_v fs ?id (word_of_nat b) e u = Some (SPIFFS_VIS_COUNTINUE, u, fs)"
      by (auto simp: spiffs_object_index_consistency_check_v_def index_id_def)
    then show ?thesis using m by simp
  next
    case True
    from read_header_ok [OF m be t] obtain fs' where
      r: "read_header fs (word_of_nat (entry_page b e)) = Some (SPIFFS_OK, header_of conf m b e, fs')"
      and m': "matches m p fs'" "ticks fs' = ticks fs + 1" "lu_work fs' = lu_work fs" by blast
    have "ph_flags (header_of conf m b e) AND
       (SPIFFS_PH_FLAG_INDEX OR SPIFFS_PH_FLAG_FINAL OR SPIFFS_PH_FLAG_DELET OR SPIFFS_PH_FLAG_IXDELE) =
       SPIFFS_PH_FLAG_DELET OR SPIFFS_PH_FLAG_IXDELE" (is "?f = _")
      using c be True by (simp add: index_pages_live_def final_index_def)
    moreover have "SPIFFS_PH_FLAG_DELET OR SPIFFS_PH_FLAG_IXDELE \<noteq> SPIFFS_PH_FLAG_DELET"
      by (simp add: ph_flag_defs)
    ultimately have "spiffs_object_index_consistency_check_v fs ?id (word_of_nat b) e u = Some (SPIFFS_VIS_COUNTINUE, u, fs')"
      using True
      unfolding spiffs_object_index_consistency_check_v_def matches_fields(1) [OF m] entry_addrs(4) [OF be] Let_def r index_id_def
      by simp
    then show ?thesis using m' by simp
  qed
qed

end

section \<open>An index page under two ids\<close>

context spiffs_flash
begin

lemma entry_page_not_0: "b < blks conf \<Longrightarrow> e < ents conf \<Longrightarrow> (word_of_nat (entry_page b e) :: u16) \<noteq> 0"
proof -
  assume be: "b < blks conf" "e < ents conf"
  have "entry_page b e \<noteq> 0" using geometry_facts(9) [OF g] by (simp add: page_of_entry_def)
  then show ?thesis using entry_words(5) [OF be] by (metis unat_0 unat_u16_of_nat)
qed

lemma span_search_ok:
  assumes m: "matches m p fs" and b: "unat (cursor_block_ix p) < blks conf" and t: "ticks fs + search_cost 1 < 2 ^ 32 - 1"
  shows "\<exists>r pix p' fs'. spiffs_obj_lu_find_id_and_span fs oid spix excl = Some (r, pix, fs') \<and>
    matches m p' fs' \<and> unat (cursor_block_ix p') < blks conf \<and> ticks fs' \<le> ticks fs + search_cost 1 \<and>
    (if \<exists>b < blks conf. \<exists>e < ents conf. span_entry conf m oid spix excl b e
     then r = SPIFFS_OK \<and> pix \<noteq> 0 else r = SPIFFS_ERR_NOT_FOUND \<and> pix = 0)"
proof -
  have "unat (cursor_block_ix (p\<lparr>cursor_block_ix := word_of_nat b, cursor_obj_lu_entry := e\<rparr>)) < blks conf" if "b < blks conf" for b e
    using that blks_bound by (simp add: unat_of_nat)
  moreover have "id_checked conf SPIFFS_VIS_CHECK_ID m oid b e \<longleftrightarrow> lu_id conf m b e = oid" for b e
    by (simp add: id_checked_def SPIFFS_VIS_CHECK_ID_def SPIFFS_VIS_CHECK_PH_def)
  ultimately show ?thesis
    using find_id_and_span_ok [OF m b t disjI1 [OF refl], of oid spix excl] b
      entry_page_not_0
    unfolding span_entry_def spiffs_obj_lu_find_id_and_span_def by (smt (verit))
qed

lemma find_or_zero_ok:
  assumes m: "matches m p fs" and b: "unat (cursor_block_ix p) < blks conf" and t: "ticks fs + search_cost 1 < 2 ^ 32 - 1"
  shows "\<exists>pix p' fs'. find_or_zero fs oid spix excl = Some (SPIFFS_OK, pix, fs') \<and>
    matches m p' fs' \<and> unat (cursor_block_ix p') < blks conf \<and> ticks fs' \<le> ticks fs + search_cost 1 \<and>
    (\<not> (\<exists>b < blks conf. \<exists>e < ents conf. span_entry conf m oid spix excl b e) \<longrightarrow> pix = 0)"
  using span_search_ok [OF m b t, of oid spix excl] visit_codes by (fastforce simp: find_or_zero_def split: if_splits)

lemma index_ids_undefined:
  assumes m: "matches m p fs" and b: "unat (cursor_block_ix p) < blks conf" and t: "ticks fs + 4 * search_cost 1 < 2 ^ 32 - 1"
    and ix: "\<not> (\<exists>b < blks conf. \<exists>e < ents conf. span_entry conf m (oid OR SPIFFS_OBJ_ID_IX_FLAG) (ph_span_ix ph) 0 b e) \<or>
      \<not> (\<exists>b < blks conf. \<exists>e < ents conf. span_entry conf m (ph_obj_id ph OR SPIFFS_OBJ_ID_IX_FLAG) (ph_span_ix ph) 0 b e)"
    and d: "\<not> (\<exists>b < blks conf. \<exists>e < ents conf. span_entry conf m (ph_obj_id ph AND NOT SPIFFS_OBJ_ID_IX_FLAG) 0 0 b e)"
  shows "check_index_ids fs oid ph pix = None"
proof -
  have t1: "ticks fs + search_cost 1 < 2 ^ 32 - 1" using t by simp
  from find_or_zero_ok [OF m b t1] obtain lu p1 fs1 where
    r1: "find_or_zero fs (oid OR SPIFFS_OBJ_ID_IX_FLAG) (ph_span_ix ph) 0 = Some (SPIFFS_OK, lu, fs1)"
    and m1: "matches m p1 fs1" "unat (cursor_block_ix p1) < blks conf" "ticks fs1 \<le> ticks fs + search_cost 1"
    and z1: "\<not> (\<exists>b < blks conf. \<exists>e < ents conf. span_entry conf m (oid OR SPIFFS_OBJ_ID_IX_FLAG) (ph_span_ix ph) 0 b e) \<longrightarrow> lu = 0"
    by blast
  have t2: "ticks fs1 + search_cost 1 < 2 ^ 32 - 1" using t m1(3) by simp
  from find_or_zero_ok [OF m1(1,2) t2] obtain hd p2 fs2 where
    r2: "find_or_zero fs1 (ph_obj_id ph OR SPIFFS_OBJ_ID_IX_FLAG) (ph_span_ix ph) 0 = Some (SPIFFS_OK, hd, fs2)"
    and m2: "matches m p2 fs2" "unat (cursor_block_ix p2) < blks conf" "ticks fs2 \<le> ticks fs1 + search_cost 1"
    and z2: "\<not> (\<exists>b < blks conf. \<exists>e < ents conf. span_entry conf m (ph_obj_id ph OR SPIFFS_OBJ_ID_IX_FLAG) (ph_span_ix ph) 0 b e) \<longrightarrow> hd = 0"
    by blast
  have z: "hd = 0 \<or> lu = 0" using z1 z2 ix by blast
  have t3: "ticks fs2 + search_cost 1 < 2 ^ 32 - 1" using t m1(3) m2(3) by simp
  from span_search_ok [OF m2(1,2) t3, of "oid AND NOT SPIFFS_OBJ_ID_IX_FLAG" 0 0] obtain r dlu p3 fs3 where
    r3: "spiffs_obj_lu_find_id_and_span fs2 (oid AND NOT SPIFFS_OBJ_ID_IX_FLAG) 0 0 = Some (r, dlu, fs3)"
    and m3: "matches m p3 fs3" "unat (cursor_block_ix p3) < blks conf" "ticks fs3 \<le> ticks fs2 + search_cost 1"
    and c3: "r = SPIFFS_OK \<and> dlu \<noteq> 0 \<or> r = SPIFFS_ERR_NOT_FOUND" by (auto split: if_splits)
  have t4: "ticks fs3 + search_cost 1 < 2 ^ 32 - 1" using t m1(3) m2(3) m3(3) by simp
  from span_search_ok [OF m3(1,2) t4, of "ph_obj_id ph AND NOT SPIFFS_OBJ_ID_IX_FLAG" 0 0] d obtain fs4 where
    r4: "spiffs_obj_lu_find_id_and_span fs3 (ph_obj_id ph AND NOT SPIFFS_OBJ_ID_IX_FLAG) 0 0 = Some (SPIFFS_ERR_NOT_FOUND, 0, fs4)"
    by auto
  have n: "\<not> SPIFFS_OK < SPIFFS_OK" "SPIFFS_ERR_NOT_FOUND < SPIFFS_OK" "SPIFFS_OK \<noteq> SPIFFS_ERR_NOT_FOUND"
    using visit_codes by simp_all
  from c3 show ?thesis
    by (elim disjE conjE; cases "lu = 0")
      (simp_all add: check_index_ids_def r1 r2 r3 r4 z n c_or_def c_and_def is_set_def Let_def, (use z in auto)?)
qed

end

section \<open>The bitmap of a scan\<close>

lemma unat_less_2_16: "unat (x :: u16) < 65536"
  using unsigned_less [of x] by simp

lemma nibble_eq: "4 * x + n = 4 * y + k \<Longrightarrow> n < 4 \<Longrightarrow> k < 4 \<Longrightarrow> x = (y :: nat)"
  by arith

lemma same_half: "x div 2 = y div 2 \<Longrightarrow> (z + x) mod 2 = (z + y) mod 2 \<Longrightarrow> x = (y :: nat)"
  by presburger

lemma in_scan_nat: "in_scan conf off p \<longleftrightarrow> unat off \<le> unat p \<and> unat p < unat off + unat (pages_per_scan conf)"
  by (simp only: in_scan_def uint_nat of_nat_add [symmetric] of_nat_le_iff of_nat_less_iff)

lemma scan_byte_eq: "in_scan conf off p \<Longrightarrow> scan_byte off p = (unat p - unat off) div 2"
proof -
  assume "in_scan conf off p"
  then have le: "uint off \<le> uint p" by (simp add: in_scan_def)
  then have "(word_of_int (uint p - uint off) :: u32) = word_of_nat (unat p - unat off)"
    by (metis of_int_of_nat_eq of_nat_diff uint_nat zle_int)
  moreover have "unat p - unat off < 2 ^ 32" using unat_less_2_16 [of p] by simp
  ultimately show ?thesis by (simp only: scan_byte_def unat_div unat_word_of_nat_u32) simp
qed

lemma scan_bit_eq: "scan_bit p = 4 * (unat p mod 2)"
  by (simp add: scan_bit_def and_one_eq unat_mod)

lemma scan_byte_bound: "in_scan conf off p \<Longrightarrow> scan_byte off p < psz conf"
proof -
  assume a: "in_scan conf off p"
  have "unat (pages_per_scan conf) \<le> 2 * psz conf"
  proof -
    have "unat (log_page_size conf * 8 div 4) \<le> 2 * psz conf"
      by (simp add: unat_div unat_word_ariths psz_def)
    then show ?thesis
      by (simp add: pages_per_scan_def unsigned_ucast_eq take_bit_eq_mod le_trans [OF mod_less_eq_dividend])
  qed
  moreover have "unat p < unat off + unat (pages_per_scan conf)"
    using a by (simp add: in_scan_nat)
  moreover have "unat off \<le> unat p" using a by (simp add: in_scan_nat)
  ultimately have "unat p - unat off < psz conf * 2" by linarith
  then show ?thesis unfolding scan_byte_eq [OF a] by (rule less_mult_imp_div_less)
qed

lemma bit_set_bit: "j < 8 \<Longrightarrow> bit ((w :: u8) OR push_bit k 1) j \<longleftrightarrow> bit w j \<or> j = k"
  by (auto simp: bit_or_iff bit_push_bit_iff bit_1_iff simp del: push_bit_of_1)

lemma scan_position:
  assumes "in_scan conf off p" "in_scan conf off q" "n < 4" "k < 4"
  shows "scan_byte off p = scan_byte off q \<and> scan_bit p + n = scan_bit q + k \<longleftrightarrow> p = q \<and> n = k"
proof
  assume a: "scan_byte off p = scan_byte off q \<and> scan_bit p + n = scan_bit q + k"
  have "4 * (unat p mod 2) + n = 4 * (unat q mod 2) + k" using a by (simp add: scan_bit_eq)
  then have m: "unat p mod 2 = unat q mod 2" by (rule nibble_eq [OF _ assms(3,4)])
  then have "n = k" using a by (simp add: scan_bit_eq)
  have "(unat p - unat off) div 2 = (unat q - unat off) div 2" using a assms by (simp add: scan_byte_eq)
  moreover have "unat off \<le> unat p" "unat off \<le> unat q" using assms(1,2) by (simp_all add: in_scan_nat)
  moreover from this m have "(unat off + (unat p - unat off)) mod 2 = (unat off + (unat q - unat off)) mod 2" by simp
  ultimately have "unat p - unat off = unat q - unat off" "unat off \<le> unat p" "unat off \<le> unat q"
    using same_half by blast+
  then have "unat p = unat q" by linarith
  then show "p = q \<and> n = k" using \<open>n = k\<close> unfolding word_unat_eq_iff by blast
qed simp

lemma mark_page_ok:
  assumes "length (work fs) = psz conf" "in_scan conf off p" "n < 4"
  shows "\<exists>fs'. mark_page off p n fs = Some fs' \<and> length (work fs') = psz conf \<and>
    (\<forall>q k. in_scan conf off q \<and> k < 4 \<longrightarrow>
      page_marked off q k fs' = map_option (\<lambda>x. x \<or> q = p \<and> k = n) (page_marked off q k fs) \<and> page_marked off q k fs \<noteq> None)"
proof -
  have b: "scan_byte off p < length (work fs)" using scan_byte_bound [OF assms(2)] assms(1) by simp
  have "scan_bit q + k < 8" if "k < 4" for q k using that by (simp add: scan_bit_eq)
  note bits = bit_set_bit [OF this]
  let ?fs = "fs\<lparr>work := (work fs)[scan_byte off p := work fs ! scan_byte off p OR push_bit (scan_bit p + n) 1]\<rparr>"
  have "page_marked off q k ?fs = map_option (\<lambda>x. x \<or> q = p \<and> k = n) (page_marked off q k fs) \<and>
      page_marked off q k fs \<noteq> None" if q: "in_scan conf off q" "k < 4" for q k
  proof -
    have "scan_byte off q < length (work fs)" using scan_byte_bound [OF q(1)] assms(1) by simp
    then show ?thesis
      using scan_position [OF q(1) assms(2) q(2) assms(3)] bits [OF q(2)] b
      by (cases "scan_byte off q = scan_byte off p"; cases "q = p") (simp_all add: page_marked_def)
  qed
  then show ?thesis using assms(1) b by (intro exI [of _ ?fs]) (simp add: mark_page_def Let_def)
qed

end
