(* ===== verification/SpiffsCheckPages.thy ===== *)
theory SpiffsCheckPages imports SpiffsCheckFacts begin

text \<open>
  The pass over the references of the index pages, and the whole check: on a consistent file system every range of
  pages is scanned once, the flags in the work buffer are those of the pages, no page is in use without a reference,
  and the flash stays as it is.  The properties of the check are at the end.
\<close>

section \<open>References of a consistent file system\<close>

definition live_index :: "spiffs_page_header \<Rightarrow> bool" where
  "live_index ph \<longleftrightarrow> ph_flags ph AND SPIFFS_PH_FLAG_DELET \<noteq> 0 \<and> ph_flags ph AND SPIFFS_PH_FLAG_IXDELE \<noteq> 0 \<and>
     ph_flags ph AND (SPIFFS_PH_FLAG_INDEX OR SPIFFS_PH_FLAG_USED) = 0"

definition page_used :: "spiffs_page_header \<Rightarrow> bool" where
  "page_used ph \<longleftrightarrow> ph_flags ph AND SPIFFS_PH_FLAG_DELET \<noteq> 0 \<and> ph_flags ph AND SPIFFS_PH_FLAG_USED = 0"

text \<open>The references of an index page: their number, where they are, the span index of the first one.\<close>

definition ref_count :: "'d spiffs_config \<Rightarrow> spiffs_page_header \<Rightarrow> nat" where
  "ref_count conf ph = (if ph_span_ix ph = 0 then unat (SPIFFS_OBJ_HDR_IX_LEN conf) else unat (SPIFFS_OBJ_IX_LEN conf))"

definition ref_base :: "spiffs_page_header \<Rightarrow> nat" where
  "ref_base ph = (if ph_span_ix ph = 0 then unat sizeof_page_object_ix_header else unat sizeof_page_object_ix)"

definition ref_span :: "'d spiffs_config \<Rightarrow> spiffs_page_header \<Rightarrow> u16" where
  "ref_span conf ph = (if ph_span_ix ph = 0 then 0
     else ucast (SPIFFS_OBJ_HDR_IX_LEN conf + SPIFFS_OBJ_IX_LEN conf * (ucast (ph_span_ix ph) - 1)))"

text \<open>A reference is a triple of block, entry and number; all of them, and the page one refers to.\<close>

type_synonym ref = "nat \<times> nat \<times> nat"

definition refs :: "'d spiffs_config \<Rightarrow> (nat \<Rightarrow> u8) \<Rightarrow> ref set" where
  "refs conf m = {(b, e, i). b < blks conf \<and> e < ents conf \<and> live_index (header_of conf m b e) \<and>
     i < ref_count conf (header_of conf m b e)}"

fun ref_pix :: "'d spiffs_config \<Rightarrow> (nat \<Rightarrow> u8) \<Rightarrow> ref \<Rightarrow> u16" where
  "ref_pix conf m (b, e, i) = get16 (page_bytes conf m b e) (ref_base (header_of conf m b e) + 2 * i)"

text \<open>A reference leads to the page of an entry, whose header has the object id, the span index and the flags
  of a data page in use.\<close>

definition refers_to_data :: "'d spiffs_config \<Rightarrow> (nat \<Rightarrow> u8) \<Rightarrow> spiffs_page_header \<Rightarrow> int \<Rightarrow> u16 \<Rightarrow> bool" where
  "refers_to_data conf m ph d pix \<longleftrightarrow> (\<exists>b < blks conf. \<exists>e < ents conf. pix = word_of_nat (page_of_entry conf b e) \<and>
     ph_obj_id (header_of conf m b e) = ph_obj_id ph AND NOT SPIFFS_OBJ_ID_IX_FLAG \<and>
     uint (ph_span_ix (header_of conf m b e)) = d \<and>
     ph_flags (header_of conf m b e) AND (SPIFFS_PH_FLAG_DELET OR SPIFFS_PH_FLAG_INDEX OR SPIFFS_PH_FLAG_USED) =
       SPIFFS_PH_FLAG_DELET OR SPIFFS_PH_FLAG_INDEX)"

text \<open>Every reference is empty or leads to its data page, no two lead to the same page, and every page in use
  is an index page or referred to.\<close>

definition references_consistent :: "'d spiffs_config \<Rightarrow> (nat \<Rightarrow> u8) \<Rightarrow> bool" where
  "references_consistent conf m \<longleftrightarrow>
     (\<forall>(b, e, i) \<in> refs conf m. ref_pix conf m (b, e, i) = - 1 \<or>
       refers_to_data conf m (header_of conf m b e) (uint (ref_span conf (header_of conf m b e)) + int i) (ref_pix conf m (b, e, i))) \<and>
     inj_on (ref_pix conf m) {r \<in> refs conf m. ref_pix conf m r \<noteq> - 1} \<and>
     (\<forall>b < blks conf. \<forall>e < ents conf. page_used (header_of conf m b e) \<and> \<not> live_index (header_of conf m b e) \<longrightarrow>
       word_of_nat (page_of_entry conf b e) \<in> ref_pix conf m ` refs conf m)"

text \<open>The flags in the work buffer are the sets \<open>F 0\<close> of pages in use, \<open>F 1\<close> of pages referred to and \<open>F 2\<close> of
  index pages.\<close>

definition flags_are :: "'d spiffs_config \<Rightarrow> u16 \<Rightarrow> (nat \<Rightarrow> u16 set) \<Rightarrow> 'd spiffs \<Rightarrow> bool" where
  "flags_are conf off F fs \<longleftrightarrow> length (work fs) = psz conf \<and>
     (\<forall>q n. in_scan conf off q \<and> n < 4 \<longrightarrow> page_marked off q n fs = Some (q \<in> F n))"

lemma flags_are_work: "flags_are conf off F fs \<Longrightarrow> work fs' = work fs \<Longrightarrow> flags_are conf off F fs'"
proof -
  assume f: "flags_are conf off F fs" and w: "work fs' = work fs"
  have "page_marked off q n fs' = page_marked off q n fs" for q n by (simp add: page_marked_def w Let_def)
  then show ?thesis using f w by (simp add: flags_are_def)
qed

lemma flags_are_clear: "flags_are conf off (\<lambda>_. {}) (fs\<lparr>work := replicate (psz conf) 0\<rparr>)"
  using scan_byte_bound by (auto simp: flags_are_def page_marked_def Let_def)

lemma flags_are_mark:
  assumes f: "flags_are conf off F fs" and p: "in_scan conf off p" and n: "n < 4"
  shows "\<exists>w. mark_page off p n fs = Some (fs\<lparr>work := w\<rparr>) \<and> flags_are conf off (F(n := insert p (F n))) (fs\<lparr>work := w\<rparr>)"
proof -
  have l: "length (work fs) = psz conf" using f by (simp add: flags_are_def)
  from mark_page_ok [OF l p n] obtain fs' where m: "mark_page off p n fs = Some fs'" and l': "length (work fs') = psz conf"
    and s: "\<And>q k. in_scan conf off q \<Longrightarrow> k < 4 \<Longrightarrow>
      page_marked off q k fs' = map_option (\<lambda>x. x \<or> q = p \<and> k = n) (page_marked off q k fs)" by blast
  obtain w where w: "fs' = fs\<lparr>work := w\<rparr>" using m by (auto simp: mark_page_def Let_def split: if_splits)
  have "flags_are conf off (F(n := insert p (F n))) fs'"
    using f l' s by (auto simp: flags_are_def)
  then show ?thesis using m w by blast
qed

section \<open>The walk over the pages\<close>

text \<open>The flags after the entries \<open>A\<close>, the index pages of \<open>B\<close>, and the references \<open>S\<close>.\<close>

definition pages_with :: "'d spiffs_config \<Rightarrow> (nat \<Rightarrow> u8) \<Rightarrow> (spiffs_page_header \<Rightarrow> bool) \<Rightarrow> (nat \<times> nat) set \<Rightarrow> u16 set" where
  "pages_with conf m P A = {word_of_nat (page_of_entry conf b e) | b e. (b, e) \<in> A \<and> P (header_of conf m b e)}"

definition scanned :: "'d spiffs_config \<Rightarrow> (nat \<Rightarrow> u8) \<Rightarrow> (nat \<times> nat) set \<Rightarrow> (nat \<times> nat) set \<Rightarrow> ref set \<Rightarrow> nat \<Rightarrow> u16 set" where
  "scanned conf m A B S = (\<lambda>_. {})(0 := pages_with conf m page_used A, 2 := pages_with conf m live_index B, 1 := ref_pix conf m ` S)"

lemma pages_with_insert: "pages_with conf m P (insert (b, e) A) =
    (if P (header_of conf m b e) then insert (word_of_nat (page_of_entry conf b e)) (pages_with conf m P A) else pages_with conf m P A)"
  by (auto simp: pages_with_def)

definition refs_in :: "'d spiffs_config \<Rightarrow> (nat \<Rightarrow> u8) \<Rightarrow> (nat \<times> nat) set \<Rightarrow> ref set" where
  "refs_in conf m A = {(b, e, i) \<in> refs conf m. (b, e) \<in> A}"

lemma in_scan_not_empty:
  assumes "in_scan conf off q" "unat off + unat (pages_per_scan conf) \<le> 65535"
  shows "q \<noteq> - 1"
proof
  assume "q = - 1"
  then have "unat q = 65535" by (simp add: unsigned_minus_1_eq_mask mask_eq_exp_minus_1)
  then show False using assms by (simp add: in_scan_nat)
qed

context spiffs_flash
begin

text \<open>A state of the scan of the range at \<open>off\<close>.\<close>

definition scanning :: "(nat \<Rightarrow> u8) \<Rightarrow> 'd spiffs \<Rightarrow> u16 \<Rightarrow> (nat \<Rightarrow> u16 set) \<Rightarrow> 'd spiffs \<Rightarrow> bool" where
  "scanning m p off F fs \<longleftrightarrow> (\<exists>w. matches m (p\<lparr>work := w\<rparr>) fs) \<and> flags_are conf off F fs"

lemma scanning_matches: "scanning m p off F fs \<Longrightarrow> \<exists>w. matches m (p\<lparr>work := w\<rparr>) fs"
  by (simp add: scanning_def)

lemma scanning_cfg: "scanning m p off F fs \<Longrightarrow> cfg fs = conf"
  using matches_fields(1) by (auto simp: scanning_def)

lemma scanning_step:
  assumes s: "scanning m p off F fs" and m: "\<And>w. matches m (p\<lparr>work := w\<rparr>) fs \<Longrightarrow> matches m (p\<lparr>work := w\<rparr>) fs'"
  shows "scanning m p off F fs'"
proof -
  from s obtain w where w: "matches m (p\<lparr>work := w\<rparr>) fs" and f: "flags_are conf off F fs" by (auto simp: scanning_def)
  have "work fs' = work fs" using matches_frame(5) [OF w] matches_frame(5) [OF m [OF w]] by simp
  then show ?thesis using m [OF w] flags_are_work [OF f] by (auto simp: scanning_def)
qed

lemma scanning_mark:
  assumes s: "scanning m p off F fs" and q: "in_scan conf off q" "n < 4"
  shows "\<exists>fs'. mark_page off q n fs = Some fs' \<and> scanning m p off (F(n := insert q (F n))) fs' \<and>
    ticks fs' = ticks fs \<and> lu_work fs' = lu_work fs"
proof -
  from s obtain w0 where w0: "matches m (p\<lparr>work := w0\<rparr>) fs" and f: "flags_are conf off F fs" by (auto simp: scanning_def)
  from flags_are_mark [OF f q] obtain w where w: "mark_page off q n fs = Some (fs\<lparr>work := w\<rparr>)"
    "flags_are conf off (F(n := insert q (F n))) (fs\<lparr>work := w\<rparr>)" by blast
  have "matches m (p\<lparr>work := w\<rparr>) (fs\<lparr>work := w\<rparr>)" using matches_updates(8) [OF w0, of w] by simp
  then show ?thesis using w by (auto simp: scanning_def)
qed

lemma scanning_header:
  assumes s: "scanning m p off F fs" and be: "b < blks conf" "e < ents conf" and t: "ticks fs < 2 ^ 32 - 1"
  shows "\<exists>fs'. read_header fs (word_of_nat (entry_page b e)) = Some (SPIFFS_OK, header_of conf m b e, fs') \<and>
    scanning m p off F fs' \<and> ticks fs' = ticks fs + 1 \<and> lu_work fs' = lu_work fs"
proof -
  from s obtain w where w: "matches m (p\<lparr>work := w\<rparr>) fs" by (auto simp: scanning_def)
  from read_header_ok [OF w be t] obtain fs' where r: "read_header fs (word_of_nat (entry_page b e)) =
      Some (SPIFFS_OK, header_of conf m b e, fs')" "matches m (p\<lparr>work := w\<rparr>) fs'" "ticks fs' = ticks fs + 1"
      "lu_work fs' = lu_work fs" by blast
  have "work fs' = work fs" using matches_frame(5) [OF w] matches_frame(5) [OF r(2)] by simp
  then have "scanning m p off F fs'" using s r(2) flags_are_work by (auto simp: scanning_def)
  then show ?thesis using r by blast
qed

text \<open>One reference.\<close>

lemma check_reference_ok:
  assumes s: "scanning m p off F fs" and t: "ticks fs < 2 ^ 32 - 1" and o: "unat off + unat (pages_per_scan conf) \<le> 65535"
    and r: "pix = - 1 \<or> refers_to_data conf m ph d pix" and n: "in_scan conf off pix \<Longrightarrow> pix \<notin> F 1"
  shows "\<exists>fs'. check_reference off ph cur d pix SPIFFS_OK fs = Some (SPIFFS_OK, False, False, fs') \<and>
    scanning m p off (if in_scan conf off pix then F(1 := insert pix (F 1)) else F) fs' \<and>
    ticks fs' \<le> ticks fs + 1 \<and> lu_work fs' = lu_work fs"
proof (cases "in_scan conf off pix")
  case False
  have "\<not> (pix \<noteq> - 1 \<and> ucast pix > SPIFFS_MAX_PAGES conf)"
    using r entry_not_lookup(2) by (auto simp: refers_to_data_def)
  then have "check_reference off ph cur d pix SPIFFS_OK fs = Some (SPIFFS_OK, False, False, fs)"
    unfolding check_reference_def scanning_cfg [OF s] using False by auto
  then show ?thesis using False s by simp
next
  case True
  have "pix \<noteq> - 1" by (rule in_scan_not_empty [OF True o])
  then obtain b e where be: "b < blks conf" "e < ents conf" and pix: "pix = word_of_nat (entry_page b e)"
    and h: "ph_obj_id (header_of conf m b e) = ph_obj_id ph AND NOT SPIFFS_OBJ_ID_IX_FLAG"
      "uint (ph_span_ix (header_of conf m b e)) = d"
      "ph_flags (header_of conf m b e) AND (SPIFFS_PH_FLAG_DELET OR SPIFFS_PH_FLAG_INDEX OR SPIFFS_PH_FLAG_USED) =
       SPIFFS_PH_FLAG_DELET OR SPIFFS_PH_FLAG_INDEX"
    using r by (auto simp: refers_to_data_def)
  have nb: "\<not> (pix \<noteq> - 1 \<and> ucast pix > SPIFFS_MAX_PAGES conf \<or> in_scan conf off pix \<and> SPIFFS_IS_LOOKUP_PAGE conf (ucast pix))"
    using entry_not_lookup [OF be] by (simp add: pix SPIFFS_IS_LOOKUP_PAGE_def)
  from scanning_header [OF s be t] obtain fs1 where
    r1: "read_header fs pix = Some (SPIFFS_OK, header_of conf m b e, fs1)"
    and s1: "scanning m p off F fs1" "ticks fs1 = ticks fs + 1" "lu_work fs1 = lu_work fs" unfolding pix by blast
  have m1: "page_marked off pix 1 fs1 = Some False"
    using s1(1) True n by (simp add: scanning_def flags_are_def)
  from scanning_mark [OF s1(1) True, of 1] obtain fs2 where
    r2: "mark_page off pix 1 fs1 = Some fs2" and s2: "scanning m p off (F(1 := insert pix (F 1))) fs2"
      "ticks fs2 = ticks fs1" "lu_work fs2 = lu_work fs1" by auto
  have "check_reference off ph cur d pix SPIFFS_OK fs = check_good_reference off ph cur d pix fs"
    unfolding check_reference_def scanning_cfg [OF s] using nb True by auto
  also have "\<dots> = Some (SPIFFS_OK, False, False, fs2)"
    unfolding check_good_reference_def r1 using h m1 r2 by simp
  finally show ?thesis using True s2 s1 by simp
qed

lemma scanning_cong:
  assumes "scanning m p off F fs" "\<And>q n. in_scan conf off q \<Longrightarrow> n < 4 \<Longrightarrow> q \<in> F n \<longleftrightarrow> q \<in> F' n"
  shows "scanning m p off F' fs"
  using assms by (simp add: scanning_def flags_are_def)

lemma ref_slot: "i < ref_count conf ph \<Longrightarrow> ref_base ph + 2 * i + 2 \<le> psz conf"
proof -
  assume i: "i < ref_count conf ph"
  have p: "64 \<le> psz conf" "psz conf mod 2 = 0" using geometry_facts [OF g] by auto
  have "44 + 2 * i + 2 \<le> psz conf" if "i < (psz conf - 44) div 2" using that p by presburger
  moreover have "6 + 2 * i + 2 \<le> psz conf" if "i < (psz conf - 6) div 2" using that p by presburger
  ultimately show ?thesis using i by (simp add: ref_count_def ref_base_def unat_ix_len split: if_splits)
qed

lemma check_references_ok:
  assumes c: "references_consistent conf m" and be: "b < blks conf" "e < ents conf" and l: "live_index (header_of conf m b e)"
    and o: "unat off + unat (pages_per_scan conf) \<le> 65535" and k: "k \<le> ref_count conf (header_of conf m b e)"
    and "lu_work fs = content m b e" "S \<subseteq> refs conf m" "\<And>j. (b, e, j) \<in> S \<Longrightarrow> j < k"
    and "scanning m p off (F(1 := ref_pix conf m ` S)) fs" "ticks fs + (ref_count conf (header_of conf m b e) - k) < 2 ^ 32 - 1"
  shows "\<exists>fs'. check_references off (header_of conf m b e) cur (ref_base (header_of conf m b e))
      (ref_span conf (header_of conf m b e)) [k..<ref_count conf (header_of conf m b e)] SPIFFS_OK fs =
      Some (SPIFFS_OK, False, fs') \<and>
    scanning m p off (F(1 := ref_pix conf m ` (S \<union> {b} \<times> {e} \<times> {k..<ref_count conf (header_of conf m b e)}))) fs' \<and>
    ticks fs' \<le> ticks fs + (ref_count conf (header_of conf m b e) - k)"
  using k assms(7-)
proof (induction "ref_count conf (header_of conf m b e) - k" arbitrary: k S fs)
  case 0
  then show ?case by simp
next
  case (Suc n)
  let ?ph = "header_of conf m b e"
  let ?n = "ref_count conf ?ph"
  let ?r = "ref_pix conf m (b, e, k)"
  have kn: "k < ?n" using Suc(2) by simp
  have rk: "(b, e, k) \<in> refs conf m" using be l kn by (simp add: refs_def)
  have rd: "?r = - 1 \<or> refers_to_data conf m ?ph (uint (ref_span conf ?ph) + int k) ?r"
    using c rk unfolding references_consistent_def by blast
  have inj: "inj_on (ref_pix conf m) {r \<in> refs conf m. ref_pix conf m r \<noteq> - 1}"
    using c unfolding references_consistent_def by blast
  have new: "?r \<notin> (F(1 := ref_pix conf m ` S)) 1" if i: "in_scan conf off ?r"
  proof
    assume "?r \<in> (F(1 := ref_pix conf m ` S)) 1"
    then obtain s where s: "s \<in> S" "ref_pix conf m s = ?r" by auto
    have "?r \<noteq> - 1" by (rule in_scan_not_empty [OF i o])
    then have "s = (b, e, k)"
      using inj s rk Suc(5) by (intro inj_onD [OF inj s(2)]) auto
    then show False using Suc(6) s(1) by blast
  qed
  have t: "ticks fs < 2 ^ 32 - 1" using Suc(8) by simp
  from check_reference_ok [OF Suc(7) t o rd new, of cur] obtain fs1 where
    r: "check_reference off ?ph cur (uint (ref_span conf ?ph) + int k) ?r SPIFFS_OK fs = Some (SPIFFS_OK, False, False, fs1)"
    and s1: "scanning m p off (if in_scan conf off ?r then (F(1 := ref_pix conf m ` S))(1 := insert ?r ((F(1 := ref_pix conf m ` S)) 1))
      else F(1 := ref_pix conf m ` S)) fs1"
    and t1: "ticks fs1 \<le> ticks fs + 1" and w1: "lu_work fs1 = lu_work fs" by blast
  have s2: "scanning m p off (F(1 := ref_pix conf m ` insert (b, e, k) S)) fs1"
    by (rule scanning_cong [OF s1]) auto
  have n: "n = ?n - Suc k" using Suc(2) by simp
  have w: "lu_work fs1 = content m b e" using w1 Suc(4) by simp
  have sub: "insert (b, e, k) S \<subseteq> refs conf m" using Suc(5) rk by simp
  have bd: "j < Suc k" if "(b, e, j) \<in> insert (b, e, k) S" for j using that Suc(6) by (auto simp: less_Suc_eq)
  have t2: "ticks fs1 + (?n - Suc k) < 2 ^ 32 - 1" using Suc(8) t1 kn by linarith
  have kn': "Suc k \<le> ?n" using kn by simp
  from Suc(1) [OF n kn' w sub bd s2 t2] obtain fs2 where
    r2: "check_references off ?ph cur (ref_base ?ph) (ref_span conf ?ph) [Suc k..<?n] SPIFFS_OK fs1 = Some (SPIFFS_OK, False, fs2)"
    and s3: "scanning m p off (F(1 := ref_pix conf m ` (insert (b, e, k) S \<union> {b} \<times> {e} \<times> {Suc k..<?n}))) fs2"
    and t3: "ticks fs2 \<le> ticks fs1 + (?n - Suc k)" by blast
  have u: "[k..<?n] = k # [Suc k..<?n]" using kn by (rule upt_conv_Cons)
  have len: "ref_base ?ph + 2 * k + 2 \<le> length (lu_work fs)" using ref_slot [OF kn] by (simp add: Suc(4))
  have "check_references off ?ph cur (ref_base ?ph) (ref_span conf ?ph) [k..<?n] SPIFFS_OK fs = Some (SPIFFS_OK, False, fs2)"
    unfolding u using len by (simp add: Suc(4) r [unfolded ref_pix.simps] r2)
  moreover have "insert (b, e, k) S \<union> {b} \<times> {e} \<times> {Suc k..<?n} = S \<union> {b} \<times> {e} \<times> {k..<?n}" using kn by auto
  moreover have "ticks fs2 \<le> ticks fs + (?n - k)" using t1 t3 kn by linarith
  ultimately show ?case using s3 by metis
qed

lemma refs_in_insert: "live_index (header_of conf m b e) \<Longrightarrow> b < blks conf \<Longrightarrow> e < ents conf \<Longrightarrow>
    refs_in conf m (insert (b, e) A) = refs_in conf m A \<union> {b} \<times> {e} \<times> {0..<ref_count conf (header_of conf m b e)}"
  "\<not> live_index (header_of conf m b e) \<Longrightarrow> refs_in conf m (insert (b, e) A) = refs_in conf m A"
  by (auto simp: refs_in_def refs_def)

lemma scanning_lu: "scanning m p off F fs \<Longrightarrow> scanning m p off F (fs\<lparr>lu_work := w\<rparr>)"
  by (erule scanning_step, rule matches_lu_work)

lemma scanning_page:
  assumes s: "scanning m p off F fs" and be: "b < blks conf" "e < ents conf" and t: "ticks fs < 2 ^ 32 - 1"
  shows "\<exists>fs'. spiffs_phys_rd fs op 0 (SPIFFS_PAGE_TO_PADDR conf (ucast (word_of_nat (entry_page b e) :: u16))) (log_page_size conf) =
      Some (SPIFFS_OK, content m b e, fs') \<and> scanning m p off F (fs'\<lparr>lu_work := content m b e\<rparr>) \<and> ticks fs' = ticks fs + 1"
proof -
  from s obtain w where w: "matches m (p\<lparr>work := w\<rparr>) fs" by (auto simp: scanning_def)
  have l: "unat (log_page_size conf) \<le> psz conf" by (simp add: psz_def)
  from read_page_head_ok [OF w be t entry_addrs(3) [OF be] l, of op 0] obtain fs' where
    r: "spiffs_phys_rd fs op 0 (SPIFFS_PAGE_TO_PADDR conf (ucast (word_of_nat (entry_page b e) :: u16))) (log_page_size conf) =
      Some (0, take (unat (log_page_size conf)) (content m b e), fs')"
    and m: "matches m (p\<lparr>work := w\<rparr>) fs'" "ticks fs' = ticks fs + 1" by blast
  have "take (unat (log_page_size conf)) (content m b e) = content m b e" by (simp add: psz_def [symmetric])
  moreover have "work fs' = work fs" using matches_frame(5) [OF w] matches_frame(5) [OF m(1)] by simp
  then have "scanning m p off F fs'" using s m(1) flags_are_work by (auto simp: scanning_def)
  ultimately show ?thesis using r m(2) scanning_lu by (simp add: SPIFFS_OK_def)
qed

text \<open>A page marked where a condition says so, in the range or not.\<close>

lemma mark_when:
  assumes s: "scanning m p off F fs" and n: "n < 4"
  shows "\<exists>fs'. (if in_scan conf off q \<and> P then mark_page off q n fs else Some fs) = Some fs' \<and>
    scanning m p off (F(n := if P then insert q (F n) else F n)) fs' \<and> ticks fs' = ticks fs \<and> lu_work fs' = lu_work fs"
proof (cases "in_scan conf off q \<and> P")
  case True
  then show ?thesis using scanning_mark [OF s _ n, of q] by auto
next
  case False
  have "scanning m p off (F(n := if P then insert q (F n) else F n)) fs"
    by (rule scanning_cong [OF s]) (use False in auto)
  then show ?thesis using False by auto
qed

lemma check_page_fold:
  "check_page off cur fs = do {
     (res, ph, fs) \<leftarrow> read_header fs cur;
     if res < SPIFFS_OK then Some (res, False, fs) else do {
     let within_range = in_scan (cfg fs) off cur;
     fs \<leftarrow> (if within_range \<and> page_used ph then mark_page off cur 0 fs else Some fs);
     if live_index ph
     then do {
       fs \<leftarrow> (if within_range then mark_page off cur 2 fs else Some fs);
       (res, bs, fs) \<leftarrow> spiffs_phys_rd fs (SPIFFS_OP_T_OBJ_LU2 OR SPIFFS_OP_C_READ) 0
         (SPIFFS_PAGE_TO_PADDR (cfg fs) (ucast cur)) (log_page_size (cfg fs));
       let fs = fs\<lparr>lu_work := bs\<rparr>;
       if res < SPIFFS_OK then Some (res, False, fs)
       else check_references off ph cur (ref_base ph) (ref_span (cfg fs) ph) [0..<ref_count (cfg fs) ph] res fs }
     else Some (res, False, fs) }}"
  unfolding check_page_def page_used_def live_index_def ref_base_def ref_span_def ref_count_def if_distrib [of upt] Let_def
  by (intro arg_cong2 [where f = Option.bind] refl ext) (auto split: prod.splits cong: if_cong)

lemma check_page_ok:
  assumes c: "references_consistent conf m" and be: "b < blks conf" "e < ents conf"
    and o: "unat off + unat (pages_per_scan conf) \<le> 65535" and A: "(b, e) \<notin> A"
    and s: "scanning m p off (scanned conf m A A (refs_in conf m A)) fs" and t: "ticks fs + (psz conf + 2) < 2 ^ 32 - 1"
  shows "\<exists>fs'. check_page off (word_of_nat (entry_page b e)) fs = Some (SPIFFS_OK, False, fs') \<and>
    scanning m p off (scanned conf m (insert (b, e) A) (insert (b, e) A) (refs_in conf m (insert (b, e) A))) fs' \<and>
    ticks fs' \<le> ticks fs + (psz conf + 2)"
proof -
  let ?q = "word_of_nat (entry_page b e) :: u16"
  let ?ph = "header_of conf m b e"
  let ?A = "insert (b, e) A"
  have t0: "ticks fs < 2 ^ 32 - 1" using t by simp
  from scanning_header [OF s be t0] obtain fs1 where
    r1: "read_header fs ?q = Some (SPIFFS_OK, ?ph, fs1)"
    and s1: "scanning m p off (scanned conf m A A (refs_in conf m A)) fs1" and t1: "ticks fs1 = ticks fs + 1" by blast
  from mark_when [OF s1, of 0 ?q "page_used ?ph"] obtain fs2 where
    r2: "(if in_scan conf off ?q \<and> page_used ?ph then mark_page off ?q 0 fs1 else Some fs1) = Some fs2"
    and s2: "scanning m p off (scanned conf m ?A A (refs_in conf m A)) fs2" and t2: "ticks fs2 = ticks fs1"
    by (auto simp: scanned_def pages_with_insert fun_upd_twist split: if_splits)
  show ?thesis
  proof (cases "live_index ?ph")
    case False
    then have "check_page off ?q fs = Some (SPIFFS_OK, False, fs2)"
      using r2 unfolding check_page_fold r1 by (simp add: scanning_cfg [OF s1] Let_def)
    moreover have "scanned conf m ?A A (refs_in conf m A) = scanned conf m ?A ?A (refs_in conf m ?A)"
      using False by (simp add: scanned_def pages_with_insert refs_in_insert)
    ultimately show ?thesis using s2 t1 t2 by simp
  next
    case True
    from mark_when [OF s2, of 2 ?q True] obtain fs3 where
      r3: "(if in_scan conf off ?q then mark_page off ?q 2 fs2 else Some fs2) = Some fs3"
      and s3: "scanning m p off (scanned conf m ?A ?A (refs_in conf m A)) fs3" and t3: "ticks fs3 = ticks fs2"
      using True by (auto simp: scanned_def pages_with_insert fun_upd_twist split: if_splits)
    have "ticks fs3 < 2 ^ 32 - 1" using t t1 t2 t3 by simp
    from scanning_page [OF s3 be this] obtain fs4 where
      r4: "spiffs_phys_rd fs3 (SPIFFS_OP_T_OBJ_LU2 OR SPIFFS_OP_C_READ) 0 (SPIFFS_PAGE_TO_PADDR conf (ucast ?q)) (log_page_size conf) =
        Some (SPIFFS_OK, content m b e, fs4)"
      and s4: "scanning m p off (scanned conf m ?A ?A (refs_in conf m A)) (fs4\<lparr>lu_work := content m b e\<rparr>)"
      and t4: "ticks fs4 = ticks fs3 + 1" by blast
    let ?n = "ref_count conf ?ph"
    have n: "?n \<le> psz conf" by (auto simp: ref_count_def unat_ix_len)
    have S: "refs_in conf m A \<subseteq> refs conf m" "\<And>j. (b, e, j) \<in> refs_in conf m A \<Longrightarrow> j < 0"
      using A by (auto simp: refs_in_def)
    have t5: "ticks (fs4\<lparr>lu_work := content m b e\<rparr>) + (?n - 0) < 2 ^ 32 - 1" using t t1 t2 t3 t4 n by simp
    have s5: "scanning m p off ((scanned conf m ?A ?A {})(1 := ref_pix conf m ` refs_in conf m A)) (fs4\<lparr>lu_work := content m b e\<rparr>)"
      using s4 by (simp add: scanned_def)
    from check_references_ok [OF c be True o _ _ S s5 t5, of ?q] obtain fs5 where
      r5: "check_references off ?ph ?q (ref_base ?ph) (ref_span conf ?ph) [0..<?n] SPIFFS_OK (fs4\<lparr>lu_work := content m b e\<rparr>) =
        Some (SPIFFS_OK, False, fs5)"
      and s6: "scanning m p off ((scanned conf m ?A ?A {})(1 := ref_pix conf m ` (refs_in conf m A \<union> {b} \<times> {e} \<times> {0..<?n}))) fs5"
      and t6: "ticks fs5 \<le> ticks fs4 + ?n" by auto
    have "check_page off ?q fs = Some (SPIFFS_OK, False, fs5)"
      unfolding check_page_fold r1
      using True r2 r3 r4 r5 scanning_cfg [OF s1] scanning_cfg [OF s3] scanning_cfg [OF s4]
      by (simp add: Let_def)
    moreover have "(scanned conf m ?A ?A {})(1 := ref_pix conf m ` (refs_in conf m A \<union> {b} \<times> {e} \<times> {0..<?n})) =
        scanned conf m ?A ?A (refs_in conf m ?A)"
      by (simp add: refs_in_insert(1) [OF True be] scanned_def)
    ultimately show ?thesis using s6 t1 t2 t3 t4 t6 n by simp
  qed
qed

lemma page_numbers:
  assumes "b < blks conf"
  shows "unat (SPIFFS_PAGES_PER_BLOCK conf * (ucast (word_of_nat b :: u16) + 1)) = ppb conf * Suc b"
    "(ucast (SPIFFS_OBJ_LOOKUP_PAGES conf + SPIFFS_PAGES_PER_BLOCK conf * ucast (word_of_nat b :: u16)) :: u16) =
      word_of_nat (entry_page b 0)"
proof -
  have b: "unat (ucast (word_of_nat b :: u16) :: u32) = b" using entry_words(1) [OF assms ents_pos] .
  have top: "ppb conf * Suc b \<le> 65535"
    using mult_le_of_le [OF assms, of "ppb conf"] geometry_facts(7) [OF g] by (simp add: algebra_simps)
  have b1: "unat (ucast (word_of_nat b :: u16) + 1 :: u32) = Suc b"
    using entry_words(3) [OF assms ents_pos] by (subst unat_add_no_wrap) (simp_all add: b)
  show "unat (SPIFFS_PAGES_PER_BLOCK conf * (ucast (word_of_nat b :: u16) + 1)) = ppb conf * Suc b"
    using top by (subst unat_mult_no_wrap) (simp_all add: b1 unat_pages_per_block)
  have m: "unat (SPIFFS_PAGES_PER_BLOCK conf * ucast (word_of_nat b :: u16)) = ppb conf * b"
    using top by (subst unat_mult_no_wrap) (simp_all add: b unat_pages_per_block)
  have "lups conf + ppb conf * b \<le> 65535" using top geometry_facts(10) [OF g] by (simp add: algebra_simps)
  then have "unat (SPIFFS_OBJ_LOOKUP_PAGES conf + SPIFFS_PAGES_PER_BLOCK conf * ucast (word_of_nat b :: u16)) = entry_page b 0"
    by (subst unat_add_no_wrap) (simp_all add: m unat_lookup_pages page_of_entry_def mult.commute)
  then show "(ucast (SPIFFS_OBJ_LOOKUP_PAGES conf + SPIFFS_PAGES_PER_BLOCK conf * ucast (word_of_nat b :: u16)) :: u16) =
      word_of_nat (entry_page b 0)"
    by (metis of_nat_unat)
qed

lemma page_in_block:
  assumes "b < blks conf" "e \<le> ents conf"
  shows "ucast (word_of_nat (entry_page b e) :: u16) < SPIFFS_PAGES_PER_BLOCK conf * (ucast (word_of_nat b :: u16) + 1) \<longleftrightarrow> e < ents conf"
proof -
  have "entry_page b e \<le> ppb conf * Suc b"
    using assms(2) geometry_facts(10) [OF g] by (simp add: page_of_entry_def ents_def algebra_simps)
  moreover have "ppb conf * Suc b \<le> 65535"
    using mult_le_of_le [OF assms(1), of "ppb conf"] geometry_facts(7) [OF g] by (simp add: algebra_simps)
  ultimately have "unat (ucast (word_of_nat (entry_page b e) :: u16) :: u32) = entry_page b e"
    by (simp add: unat_ucast_16 unat_of_nat)
  then show ?thesis unfolding word_less_nat_alt page_numbers(1) [OF assms(1)]
    using assms(2) geometry_facts(10) [OF g] by (simp add: page_of_entry_def ents_def algebra_simps) linarith
qed

abbreviation page_scan :: "(nat \<Rightarrow> u8) \<Rightarrow> 'd spiffs \<Rightarrow> u16 \<Rightarrow> (nat \<times> nat) set \<Rightarrow> 'd spiffs \<Rightarrow> bool" where
  "page_scan m p off A \<equiv> scanning m p off (scanned conf m A A (refs_in conf m A))"

lemma check_pages_ok:
  assumes c: "references_consistent conf m" and b: "b < blks conf" and o: "unat off + unat (pages_per_scan conf) \<le> 65535"
    and "e \<le> ents conf" "A \<inter> {b} \<times> {e..<ents conf} = {}" "page_scan m p off A fs"
    and "ticks fs + (ents conf - e) * (psz conf + 2) < 2 ^ 32 - 1"
  shows "\<exists>fs'. check_pages off (word_of_nat b) (word_of_nat (entry_page b e)) SPIFFS_OK fs = Some (SPIFFS_OK, False, fs') \<and>
    page_scan m p off (A \<union> {b} \<times> {e..<ents conf}) fs' \<and> ticks fs' \<le> ticks fs + (ents conf - e) * (psz conf + 2)"
  using assms(4-)
proof (induction "ents conf - e" arbitrary: e A fs)
  case 0
  then have e: "e = ents conf" by simp
  have "\<not> ucast (word_of_nat (entry_page b e) :: u16) < SPIFFS_PAGES_PER_BLOCK conf * (ucast (word_of_nat b :: u16) + 1)"
    using page_in_block [OF b 0(2)] e by simp
  then have "check_pages off (word_of_nat b) (word_of_nat (entry_page b e)) SPIFFS_OK fs = Some (SPIFFS_OK, False, fs)"
    by (subst check_pages.simps) (simp add: scanning_cfg [OF 0(4)])
  then show ?case using 0 e by simp
next
  case (Suc n)
  have e: "e < ents conf" using Suc(2) by simp
  have cost: "(ents conf - e) * (psz conf + 2) = (psz conf + 2) + (ents conf - Suc e) * (psz conf + 2)"
    using e by (metis Suc_diff_Suc mult_Suc)
  have new: "(b, e) \<notin> A" using Suc(4) e by auto
  have "ticks fs + (psz conf + 2) < 2 ^ 32 - 1" using Suc(6) cost by linarith
  from check_page_ok [OF c b e o new Suc(5) this] obtain fs1 where
    r1: "check_page off (word_of_nat (entry_page b e)) fs = Some (SPIFFS_OK, False, fs1)"
    and s1: "page_scan m p off (insert (b, e) A) fs1" and t1: "ticks fs1 \<le> ticks fs + (psz conf + 2)" by blast
  have n: "n = ents conf - Suc e" and e': "Suc e \<le> ents conf" using Suc(2) e by simp_all
  have dis: "insert (b, e) A \<inter> {b} \<times> {Suc e..<ents conf} = {}" using Suc(4) by auto
  have t2: "ticks fs1 + (ents conf - Suc e) * (psz conf + 2) < 2 ^ 32 - 1" using Suc(6) t1 cost by linarith
  from Suc(1) [OF n e' dis s1 t2] obtain fs2 where
    r2: "check_pages off (word_of_nat b) (word_of_nat (entry_page b (Suc e))) SPIFFS_OK fs1 = Some (SPIFFS_OK, False, fs2)"
    and s2: "page_scan m p off (insert (b, e) A \<union> {b} \<times> {Suc e..<ents conf}) fs2"
    and t3: "ticks fs2 \<le> ticks fs1 + (ents conf - Suc e) * (psz conf + 2)" by blast
  have "word_of_nat (entry_page b e) + 1 = (word_of_nat (entry_page b (Suc e)) :: u16)" by (simp add: page_of_entry_def)
  then have "check_pages off (word_of_nat b) (word_of_nat (entry_page b e)) SPIFFS_OK fs = Some (SPIFFS_OK, False, fs2)"
    using page_in_block [OF b Suc(3)] e visit_codes(5)
    by (subst check_pages.simps) (simp add: scanning_cfg [OF Suc(5)] r1 r2)
  moreover have "insert (b, e) A \<union> {b} \<times> {Suc e..<ents conf} = A \<union> {b} \<times> {e..<ents conf}" using e by auto
  moreover have "ticks fs2 \<le> ticks fs + (ents conf - e) * (psz conf + 2)" using t1 t3 cost by linarith
  ultimately show ?case using s2 by metis
qed

lemma scanning_blocks: "scanning m p off F fs \<Longrightarrow> unat (block_count fs) = blks conf"
  using matches_fields(8) by (auto simp: scanning_def)

lemma check_blocks_ok:
  assumes c: "references_consistent conf m" and o: "unat off + unat (pages_per_scan conf) \<le> 65535"
    and "b \<le> blks conf" "page_scan m p off ({..<b} \<times> {..<ents conf}) fs"
    and "ticks fs + (blks conf - b) * (ents conf * (psz conf + 2)) < 2 ^ 32 - 1"
  shows "\<exists>fs'. check_blocks off (word_of_nat b) SPIFFS_OK fs = Some (SPIFFS_OK, False, fs') \<and>
    page_scan m p off ({..<blks conf} \<times> {..<ents conf}) fs' \<and>
    ticks fs' \<le> ticks fs + (blks conf - b) * (ents conf * (psz conf + 2))"
  using assms(3-)
proof (induction "blks conf - b" arbitrary: b fs)
  case 0
  then have b: "b = blks conf" by simp
  have "unat (ucast (word_of_nat b :: u16) :: u32) = b" using b blks_bound by (simp add: unat_ucast_16 unat_of_nat)
  then have "\<not> ucast (word_of_nat b :: u16) < block_count fs"
    using b scanning_blocks [OF 0(3)] by (simp add: word_less_nat_alt)
  then have "check_blocks off (word_of_nat b) SPIFFS_OK fs = Some (SPIFFS_OK, False, fs)"
    by (subst check_blocks.simps) simp
  then show ?case using 0 b by simp
next
  case (Suc n)
  let ?k = "ents conf * (psz conf + 2)"
  have b: "b < blks conf" using Suc(2) by simp
  have cost: "(blks conf - b) * ?k = ?k + (blks conf - Suc b) * ?k" using b by (metis Suc_diff_Suc mult_Suc)
  have "ticks fs + (ents conf - 0) * (psz conf + 2) < 2 ^ 32 - 1" using Suc(5) cost by simp
  from check_pages_ok [OF c b o _ _ Suc(4) this] obtain fs1 where
    r1: "check_pages off (word_of_nat b) (word_of_nat (entry_page b 0)) SPIFFS_OK fs = Some (SPIFFS_OK, False, fs1)"
    and s1: "page_scan m p off ({..<b} \<times> {..<ents conf} \<union> {b} \<times> {0..<ents conf}) fs1" and t1: "ticks fs1 \<le> ticks fs + ?k" by auto
  have "{..<b} \<times> {..<ents conf} \<union> {b} \<times> {0..<ents conf} = {..<Suc b} \<times> {..<ents conf}" by auto
  then have s1': "page_scan m p off ({..<Suc b} \<times> {..<ents conf}) fs1" using s1 by simp
  have n: "n = blks conf - Suc b" and b': "Suc b \<le> blks conf" using Suc(2) b by simp_all
  have t2: "ticks fs1 + (blks conf - Suc b) * ?k < 2 ^ 32 - 1" using Suc(5) t1 cost by linarith
  from Suc(1) [OF n b' s1' t2] obtain fs2 where
    r2: "check_blocks off (word_of_nat (Suc b)) SPIFFS_OK fs1 = Some (SPIFFS_OK, False, fs2)"
    and s2: "page_scan m p off ({..<blks conf} \<times> {..<ents conf}) fs2"
    and t3: "ticks fs2 \<le> ticks fs1 + (blks conf - Suc b) * ?k" by blast
  have "ucast (word_of_nat b :: u16) < block_count fs"
    using b scanning_blocks [OF Suc(4)] entry_words(1) [OF b ents_pos] by (simp add: word_less_nat_alt)
  moreover have "check_blocks off (word_of_nat b + 1) SPIFFS_OK fs1 = Some (SPIFFS_OK, False, fs2)"
    using r2 by (simp add: add.commute)
  ultimately have "check_blocks off (word_of_nat b) SPIFFS_OK fs = Some (SPIFFS_OK, False, fs2)"
    using visit_codes(5) page_numbers(2) [OF b] r1
    by (subst check_blocks.simps) (simp add: scanning_cfg [OF Suc(4)])
  moreover have "ticks fs2 \<le> ticks fs + (blks conf - b) * ?k" using t1 t3 cost by linarith
  ultimately show ?case using s2 by blast
qed

end

lemma nibble_flags:
  assumes "drop_bit k (w :: u8) AND 7 = 1"
  shows "bit w k" "\<not> bit w (k + 1)" "\<not> bit w (k + 2)"
proof -
  have *: "bit (drop_bit k w AND 7) n \<longleftrightarrow> bit w (k + n) \<and> bit (7 :: u8) n" for n
    by (simp add: bit_and_iff bit_drop_bit_eq)
  show "bit w k" using * [of 0] unfolding assms by simp
  show "\<not> bit w (k + 1)" using * [of 1] unfolding assms by (simp add: bit_1_iff bit_numeral_rec)
  show "\<not> bit w (k + 2)" using * [of 2] unfolding assms by (simp add: bit_1_iff bit_numeral_rec numeral_2_eq_2)
qed

context spiffs_flash
begin

lemma scan_place:
  assumes o: "even (unat off)" "unat off + 2 * psz conf \<le> 65535" "unat (pages_per_scan conf) = 2 * psz conf"
    and i: "i < psz conf" "j < 2"
  defines "q \<equiv> off + word_of_nat (2 * i + j)"
  shows "in_scan conf off q" "scan_byte off q = i" "scan_bit q = 4 * j"
proof -
  have w: "unat (word_of_nat (2 * i + j) :: u16) = 2 * i + j" using i o(2) by (intro unat_u16_of_nat) linarith
  have q: "unat q = unat off + (2 * i + j)"
    unfolding q_def using i o(2) w by (subst unat_add_no_wrap) simp_all
  show s: "in_scan conf off q" unfolding in_scan_nat q o(3) using i by linarith
  show "scan_byte off q = i" unfolding scan_byte_eq [OF s] q using i(2) by simp
  have "unat q mod 2 = j" unfolding q using o(1) i(2) by (auto simp: less_2_cases_iff mod2_eq_if)
  then show "scan_bit q = 4 * j" by (simp add: scan_bit_eq)
qed

lemma check_bitmap_ok:
  assumes c: "references_consistent conf m"
    and o: "even (unat off)" "unat off + 2 * psz conf \<le> 65535" "unat (pages_per_scan conf) = 2 * psz conf"
    and f: "page_scan m p off ({..<blks conf} \<times> {..<ents conf}) fs"
    and "set l \<subseteq> {0..<psz conf} \<times> {0, 1}"
  shows "check_bitmap off l SPIFFS_OK fs = Some (SPIFFS_OK, False, fs)"
  using assms(6)
proof (induction l)
  case (Cons ij l)
  obtain i j where ij: "ij = (i, j)" by fastforce
  have i: "i < psz conf" "j < 2" using Cons(2) ij by auto
  let ?q = "off + word_of_nat (2 * i + j)"
  let ?A = "{..<blks conf} \<times> {..<ents conf}"
  let ?F = "scanned conf m ?A ?A (refs_in conf m ?A)"
  note q = scan_place [OF o i]
  have l: "length (work fs) = psz conf" and fl: "page_marked off ?q n fs = Some (?q \<in> ?F n)" if "n < 4" for n
    using f q(1) that by (auto simp: scanning_def flags_are_def)
  have len: "length (work fs) = psz conf" using l [of 0] by simp
  have b: "bit (work fs ! i) (4 * j + n) \<longleftrightarrow> ?q \<in> ?F n" if "n < 4" for n
    using fl [OF that] q(2,3) i len by (simp add: page_marked_def Let_def)
  have "drop_bit (4 * j) (work fs ! i) AND 7 \<noteq> 1"
  proof
    assume "drop_bit (4 * j) (work fs ! i) AND 7 = 1"
    from nibble_flags [OF this] b [of 0] b [of 1] b [of 2]
    have m: "?q \<in> ?F 0" "?q \<notin> ?F 1" "?q \<notin> ?F 2" by simp_all
    from m(1) obtain b e where be: "b < blks conf" "e < ents conf" "?q = word_of_nat (page_of_entry conf b e)"
      "page_used (header_of conf m b e)" by (auto simp: scanned_def pages_with_def)
    have "\<not> live_index (header_of conf m b e)"
      using m(3) be(1,2) unfolding be(3) by (auto simp: scanned_def pages_with_def)
    then have "?q \<in> ref_pix conf m ` refs conf m"
      using c be unfolding references_consistent_def by metis
    moreover have "refs_in conf m ?A = refs conf m" by (auto simp: refs_in_def refs_def)
    ultimately show False using m(2) by (simp add: scanned_def)
  qed
  then show ?case using Cons i len by (simp add: ij)
qed simp

end

text \<open>The flash accesses of the check of the references, for every range of pages all of them.\<close>

definition scan_count :: "'d spiffs_config \<Rightarrow> nat" where
  "scan_count conf = (blks conf * ppb conf + 2 * psz conf - 1) div (2 * psz conf)"

definition scan_cost :: "'d spiffs_config \<Rightarrow> nat" where
  "scan_cost conf = scan_count conf * (blks conf * (ents conf * (psz conf + 2)))"

context spiffs_flash
begin

lemma scan_count_less: "k * (2 * psz conf) < blks conf * ppb conf \<longleftrightarrow> k < scan_count conf"
  unfolding scan_count_def using psz_pos
  by (simp add: less_eq_div_iff_mult_less_eq Suc_le_eq [symmetric] algebra_simps) linarith

lemma scan_offset:
  assumes small: "blks conf * ppb conf + 2 * psz conf \<le> 65535" and k: "k \<le> scan_count conf"
  shows "unat (word_of_nat (k * (2 * psz conf)) :: u16) = k * (2 * psz conf)"
    "unat (pages_per_scan conf) = 2 * psz conf"
    "word_of_nat (k * (2 * psz conf)) + pages_per_scan conf = (word_of_nat (Suc k * (2 * psz conf)) :: u16)"
proof -
  have "k * (2 * psz conf) \<le> scan_count conf * (2 * psz conf)" using k by (rule mult_le_mono1)
  also have "\<dots> \<le> blks conf * ppb conf + 2 * psz conf - 1" unfolding scan_count_def by (rule div_times_less_eq_dividend)
  finally have "k * (2 * psz conf) < 65536" using small by linarith
  then show "unat (word_of_nat (k * (2 * psz conf)) :: u16) = k * (2 * psz conf)" by (rule unat_u16_of_nat)
  have "unat (log_page_size conf * 8 div 4) = 2 * psz conf"
    using small by (simp add: unat_div psz_def [symmetric]) (subst unat_mult_no_wrap; simp add: psz_def [symmetric])
  then show p: "unat (pages_per_scan conf) = 2 * psz conf"
    using small by (simp add: pages_per_scan_def unsigned_ucast_eq take_bit_nat_eq_self)
  then have "pages_per_scan conf = word_of_nat (2 * psz conf)" by (metis of_nat_unat ucast_id)
  then show "word_of_nat (k * (2 * psz conf)) + pages_per_scan conf = (word_of_nat (Suc k * (2 * psz conf)) :: u16)"
    by (simp add: add.commute)
qed

lemma scan_limit:
  assumes small: "blks conf * ppb conf + 2 * psz conf \<le> 65535" and k: "k \<le> scan_count conf" and m: "matches m p fs"
  shows "ucast (word_of_nat (k * (2 * psz conf)) :: u16) < SPIFFS_PAGES_PER_BLOCK (cfg fs) * block_count fs \<longleftrightarrow> k < scan_count conf"
proof -
  have "unat (SPIFFS_PAGES_PER_BLOCK conf * block_count fs) = ppb conf * blks conf"
    using small by (subst unat_mult_no_wrap) (simp_all add: unat_pages_per_block matches_fields(8) [OF m] mult.commute)
  then show ?thesis
    unfolding word_less_nat_alt unat_ucast_16 matches_fields(1) [OF m] scan_offset(1) [OF small k]
    using scan_count_less [of k] by (simp add: mult.commute)
qed

lemma check_ranges_ok:
  assumes c: "references_consistent conf m" and small: "blks conf * ppb conf + 2 * psz conf \<le> 65535"
    and "k \<le> scan_count conf" "matches m (p\<lparr>work := w\<rparr>) fs"
    and "ticks fs + (scan_count conf - k) * (blks conf * (ents conf * (psz conf + 2))) < 2 ^ 32 - 1"
  shows "\<exists>w' fs'. check_ranges (word_of_nat (k * (2 * psz conf))) SPIFFS_OK fs = Some (SPIFFS_OK, fs') \<and>
    matches m (p\<lparr>work := w'\<rparr>) fs'"
  using assms(3-)
proof (induction "scan_count conf - k" arbitrary: k w fs)
  case 0
  then have "\<not> ucast (word_of_nat (k * (2 * psz conf)) :: u16) < SPIFFS_PAGES_PER_BLOCK (cfg fs) * block_count fs"
    using scan_limit [OF small 0(2,3)] by simp
  then have "check_ranges (word_of_nat (k * (2 * psz conf))) SPIFFS_OK fs = Some (SPIFFS_OK, fs)"
    by (subst check_ranges.simps) simp
  then show ?case using 0(3) by blast
next
  case (Suc n)
  let ?off = "word_of_nat (k * (2 * psz conf)) :: u16"
  let ?A = "{..<blks conf} \<times> {..<ents conf}"
  let ?K = "blks conf * (ents conf * (psz conf + 2))"
  have k: "k < scan_count conf" using Suc(2) by simp
  then have kk: "k * (2 * psz conf) < blks conf * ppb conf" by (simp only: scan_count_less)
  have cost: "(scan_count conf - k) * ?K = ?K + (scan_count conf - Suc k) * ?K" using k by (metis Suc_diff_Suc mult_Suc)
  note off = scan_offset [OF small Suc(3)]
  have o: "unat ?off + unat (pages_per_scan conf) \<le> 65535" using kk small unfolding off by linarith
  let ?fs = "fs\<lparr>work := replicate (psz conf) 0\<rparr>"
  have e: "scanned conf m ({..<0} \<times> {..<ents conf}) ({..<0} \<times> {..<ents conf}) (refs_in conf m ({..<0} \<times> {..<ents conf})) = (\<lambda>_. {})"
    by (rule ext) (auto simp: scanned_def pages_with_def refs_in_def)
  have "matches m (p\<lparr>work := replicate (psz conf) 0\<rparr>) ?fs" using matches_updates(8) [OF Suc(4)] by simp
  then have s0: "page_scan m p ?off ({..<0} \<times> {..<ents conf}) ?fs"
    unfolding e using flags_are_clear by (auto simp: scanning_def)
  have "ticks ?fs + (blks conf - 0) * (ents conf * (psz conf + 2)) < 2 ^ 32 - 1" using Suc(5) cost by simp
  from check_blocks_ok [OF c o _ s0 this] obtain fs1 where
    r1: "check_blocks ?off 0 SPIFFS_OK ?fs = Some (SPIFFS_OK, False, fs1)"
    and s1: "page_scan m p ?off ?A fs1" and t1: "ticks fs1 \<le> ticks fs + ?K" by auto
  have ev: "even (unat ?off)" unfolding off(1) by simp
  have r2: "check_bitmap ?off (List.product [0..<psz conf] [0, 1]) SPIFFS_OK fs1 = Some (SPIFFS_OK, False, fs1)"
    by (rule check_bitmap_ok [OF c ev o [unfolded off(2)] off(2) s1]) auto
  obtain w1 where m1: "matches m (p\<lparr>work := w1\<rparr>) fs1" using s1 by (auto simp: scanning_def)
  have n: "n = scan_count conf - Suc k" and k': "Suc k \<le> scan_count conf" using Suc(2) k by simp_all
  have "ticks fs1 + (scan_count conf - Suc k) * ?K < 2 ^ 32 - 1" using Suc(5) t1 cost by linarith
  from Suc(1) [OF n k' m1 this] obtain w2 fs2 where
    r3: "check_ranges (word_of_nat (Suc k * (2 * psz conf))) SPIFFS_OK fs1 = Some (SPIFFS_OK, fs2)"
    and m2: "matches m (p\<lparr>work := w2\<rparr>) fs2" by blast
  have "ucast ?off < SPIFFS_PAGES_PER_BLOCK (cfg fs) * block_count fs" using scan_limit [OF small Suc(3,4)] k by simp
  then have "check_ranges ?off SPIFFS_OK fs = Some (SPIFFS_OK, fs2)"
    using visit_codes(5) r1 r2 r3 off(3) matches_fields(1) [OF Suc(4)] matches_fields(1) [OF m1]
    by (subst check_ranges.simps) (simp add: psz_def [symmetric] Let_def del: mult_Suc of_nat_mult of_nat_Suc)
  then show ?case using m2 by blast
qed

lemma page_check_ok:
  assumes c: "references_consistent conf m" and small: "blks conf * ppb conf + 2 * psz conf \<le> 65535"
    and m: "matches m p fs" and t: "ticks fs + scan_cost conf < 2 ^ 32 - 1"
  shows "\<exists>w fs'. spiffs_page_consistency_check fs = Some (SPIFFS_OK, fs') \<and> matches m (p\<lparr>work := w\<rparr>) fs'"
proof -
  have "matches m (p\<lparr>work := work p\<rparr>) fs" using m by simp
  from check_ranges_ok [OF c small _ this, of 0] t show ?thesis
    by (simp add: spiffs_page_consistency_check_def spiffs_page_consistency_check_i_def scan_cost_def)
qed

lemma SPIFFS_check_ok:
  assumes i: "fs_inv conf view fs" and api: "SPIFFS_CHECK_CFG fs" "SPIFFS_CHECK_MOUNT fs"
    and c: "lookup_consistent conf (view (dev fs))" "index_pages_live conf (view (dev fs))"
      "references_consistent conf (view (dev fs))" and small: "blks conf * ppb conf + 2 * psz conf \<le> 65535"
    and t: "ticks fs + 2 * search_cost 1 + scan_cost conf < 2 ^ 32 - 1"
  shows "\<exists>w fs'. SPIFFS_check fs = spiffs_obj_lu_scan fs' \<and> matches (view (dev fs)) (fs\<lparr>work := w\<rparr>) fs'"
proof -
  let ?m = "view (dev fs)"
  note m0 = inv_matches [OF i]
  have t0: "ticks fs + search_cost 1 < 2 ^ 32 - 1" using t by linarith
  from quiet_visit [OF lookup_check_v_quiet [OF c(1)] m0 t0, of "()"] obtain fs1 where
    r1: "spiffs_lookup_consistency_check fs = Some (SPIFFS_OK, fs1)" and m1: "matches ?m fs fs1"
    and t1: "ticks fs1 \<le> ticks fs + search_cost 1"
    by (fastforce simp: spiffs_lookup_consistency_check_def)
  let ?w = "replicate (psz conf) (0 :: u8)"
  have m1': "matches ?m (fs\<lparr>work := ?w\<rparr>) (fs1\<lparr>work := ?w\<rparr>)" by (rule matches_updates(8) [OF m1])
  have t1': "ticks (fs1\<lparr>work := ?w\<rparr>) + search_cost 1 < 2 ^ 32 - 1" using t t1 by simp
  from quiet_visit [OF index_check_v_quiet [OF c(2)] m1' t1', of 0] obtain fs2 where
    r2: "spiffs_object_index_consistency_check fs1 = Some (SPIFFS_OK, fs2)" and m2: "matches ?m (fs\<lparr>work := ?w\<rparr>) fs2"
    and t2: "ticks fs2 \<le> ticks fs1 + search_cost 1"
    by (fastforce simp: spiffs_object_index_consistency_check_def matches_fields(1) [OF m1] psz_def)
  have "ticks fs2 + scan_cost conf < 2 ^ 32 - 1" using t t1 t2 by linarith
  from page_check_ok [OF c(3) small m2 this] obtain w fs3 where
    "spiffs_page_consistency_check fs2 = Some (SPIFFS_OK, fs3)" "matches ?m (fs\<lparr>work := w\<rparr>) fs3" by auto
  then show ?thesis by (auto simp: SPIFFS_check_def api_checks_pass [OF api] r1 r2)
qed

end

section \<open>Examples\<close>

text \<open>The file system with the file \<open>a\<close> is consistent.\<close>

lemma blank_header: "get_page_header (replicate 256 0xff) = \<lparr>ph_obj_id = 0xffff, ph_span_ix = 0xffff, ph_flags = 0xff\<rparr>"
  by (simp add: get_page_header_def get16_def word16_def)

lemma file_header: "e < 31 \<Longrightarrow> header_of example_config (flash_window id (dev file_fs)) b e =
    (if (b, e) = (0, 0) then \<lparr>ph_obj_id = 0x8001, ph_span_ix = 0, ph_flags = 0xf8\<rparr>
     else if (b, e) = (0, 1) then \<lparr>ph_obj_id = 1, ph_span_ix = 0, ph_flags = 0xfc\<rparr>
     else \<lparr>ph_obj_id = 0xffff, ph_span_ix = 0xffff, ph_flags = 0xff\<rparr>)"
proof -
  assume e: "e < 31"
  consider "(b, e) = (0, 0)" | "(b, e) = (0, 1)" | "(b, e) \<noteq> (0, 0)" "(b, e) \<noteq> (0, 1)" by blast
  then show ?thesis
  proof cases
    case 3
    then show ?thesis using e by (simp add: header_of_def file_pages(3) blank_header)
  qed (simp_all add: file_headers [unfolded One_nat_def] file_headers)
qed

lemma file_lookup_consistent: "lookup_consistent example_config (flash_window id (dev file_fs))"
  "index_pages_live example_config (flash_window id (dev file_fs))"
  by (auto simp: lookup_consistent_def index_pages_live_def layout_simps file_entry_ids file_header entry_agrees_def
      index_id_def final_index_def ph_flag_defs SPIFFS_OBJ_ID_FREE_def SPIFFS_OBJ_ID_DELETED_def)

lemma file_live_index: "e < 31 \<Longrightarrow> live_index (header_of example_config (flash_window id (dev file_fs)) b e) \<longleftrightarrow> (b, e) = (0, 0)"
  and file_page_used: "e < 31 \<Longrightarrow> page_used (header_of example_config (flash_window id (dev file_fs)) b e) \<longleftrightarrow>
    (b, e) = (0, 0) \<or> (b, e) = (0, 1)"
  by (auto simp: file_header live_index_def page_used_def ph_flag_defs)

lemma file_refs: "r \<in> refs example_config (flash_window id (dev file_fs)) \<longleftrightarrow> (\<exists>i < 106. r = (0, 0, i))"
proof -
  have "ref_count example_config (header_of example_config (flash_window id (dev file_fs)) 0 0) = 106"
    by (simp add: file_header ref_count_def SPIFFS_OBJ_HDR_IX_LEN_def example_config_fields)
  then show ?thesis by (auto simp: refs_def layout_simps file_live_index)
qed

lemma file_ref_pix: "i < 106 \<Longrightarrow> ref_pix example_config (flash_window id (dev file_fs)) (0, 0, i) = (if i = 0 then 2 else - 1)"
proof -
  assume i: "i < 106"
  have b: "ref_base (header_of example_config (flash_window id (dev file_fs)) 0 0) = 44" by (simp add: file_headers ref_base_def)
  have "(example_header_page @ replicate 210 0xff) ! 44 = 2" "(example_header_page @ replicate 210 0xff) ! 45 = 0"
    by (simp_all add: example_header_page_def nth_append)
  moreover have "(example_header_page @ replicate 210 0xff) ! k = 0xff" if "46 \<le> k" "k < 256" for k
    using that by (simp add: nth_append example_pages)
  ultimately show ?thesis using i by (cases i) (simp_all add: b file_pages get16_def word16_def)
qed

lemma file_references_consistent: "references_consistent example_config (flash_window id (dev file_fs))"
proof -
  let ?m = "flash_window id (dev file_fs)"
  have r: "refers_to_data example_config ?m (header_of example_config ?m 0 0) 0 2"
    unfolding refers_to_data_def
    by (rule exI [of _ 0], simp add: layout_simps, rule exI [of _ 1])
      (simp add: layout_simps file_headers [unfolded One_nat_def] file_headers page_of_entry_def ph_flag_defs)
  have z: "uint (ref_span example_config (header_of example_config ?m 0 0)) = 0" by (simp add: file_headers ref_span_def)
  have a: "ref_pix example_config ?m (b, e, i) = - 1 \<or> refers_to_data example_config ?m (header_of example_config ?m b e)
        (uint (ref_span example_config (header_of example_config ?m b e)) + int i) (ref_pix example_config ?m (b, e, i))"
    if "(b, e, i) \<in> refs example_config ?m" for b e i
  proof -
    from that have "b = 0 \<and> e = 0 \<and> i < 106" by (simp only: file_refs) blast
    then have i: "b = 0" "e = 0" "i < 106" by simp_all
    show ?thesis unfolding i(1,2) file_ref_pix [OF i(3)] z using r by simp
  qed
  have "inj_on (ref_pix example_config ?m) {r \<in> refs example_config ?m. ref_pix example_config ?m r \<noteq> - 1}"
    by (rule inj_onI) (auto simp: file_refs file_ref_pix simp del: ref_pix.simps split: if_splits)
  moreover have "word_of_nat (page_of_entry example_config b e) \<in> ref_pix example_config ?m ` refs example_config ?m"
    if "e < ents example_config" "page_used (header_of example_config ?m b e)" "\<not> live_index (header_of example_config ?m b e)" for b e
  proof -
    have be: "b = 0" "e = 1" using that file_page_used file_live_index by (auto simp: layout_simps)
    have "(0, 0, 0) \<in> refs example_config ?m" "ref_pix example_config ?m (0, 0, 0) = 2"
      using file_refs file_ref_pix [of 0] by simp_all
    moreover have "(word_of_nat (page_of_entry example_config 0 1) :: u16) = 2" by (simp add: page_of_entry_def layout_simps)
    ultimately show ?thesis unfolding be by (metis image_eqI)
  qed
  ultimately show ?thesis using a unfolding references_consistent_def by blast
qed

text \<open>A chip whose only page is an index page with span index 1: its object has no index header.\<close>

definition orphan_chip :: "nat \<Rightarrow> u8" where
  "orphan_chip i =
     (if i = 0x100000 then 2 else if i = 0x100001 then 0x80
      else if 0x100100 \<le> i \<and> i < 0x100105 then [2, 0x80, 1, 0, 0xf8] ! (i - 0x100100) else 0xff)"

definition orphan_fs :: "(nat \<Rightarrow> u8) flash_hw spiffs" where
  "orphan_fs = (example_mount orphan_chip)\<lparr>free_blocks := 127\<rparr>"

lemma orphan_view: "flash_window id (dev orphan_fs) i = (if i < 0x40200000 then 0 else orphan_chip (i - 0x40200000))"
  by (simp add: orphan_fs_def example_mount_ready flash_window_def)

lemma orphan_ids: "e < 31 \<Longrightarrow> lu_id example_config (flash_window id (dev orphan_fs)) b e = (if b = 0 \<and> e = 0 then 0x8002 else 0xffff)"
proof (cases "b = 0")
  case False
  then have "orphan_chip (0x100000 + b * 8192 + 2 * e) = 0xff \<and> orphan_chip (0x100000 + b * 8192 + 2 * e + 1) = 0xff"
    by (simp add: orphan_chip_def)
  then show ?thesis using False by (simp add: lu_id_def orphan_view layout_simps word16_def add.assoc)
qed (auto simp: lu_id_def orphan_view layout_simps orphan_chip_def word16_def)

lemma orphan_pages: "e < 31 \<Longrightarrow> page_bytes example_config (flash_window id (dev orphan_fs)) b e =
    (if b = 0 \<and> e = 0 then [2, 0x80, 1, 0, 0xf8] @ replicate 251 0xff else replicate 256 0xff)"
proof (rule nth_equalityI)
  fix i assume e: "e < 31" and "i < length (page_bytes example_config (flash_window id (dev orphan_fs)) b e)"
  then have i: "i < 256" by (simp only: length_file_page)
  have "page_bytes example_config (flash_window id (dev orphan_fs)) b e ! i = orphan_chip (0x100000 + (b * 32 + (1 + e)) * 256 + i)"
    using i by (simp add: page_bytes_def nor_read_def orphan_view addr_of_page_def page_of_entry_def layout_simps algebra_simps del: upt_Suc)
  then show "page_bytes example_config (flash_window id (dev orphan_fs)) b e ! i =
      (if b = 0 \<and> e = 0 then [2, 0x80, 1, 0, 0xf8] @ replicate 251 0xff else replicate 256 0xff) ! i"
    using i by (auto simp: orphan_chip_def nth_append simp del: append_Cons)
qed (simp add: layout_simps)

lemma orphan_state:
  "fs_inv example_config (flash_window id) orphan_fs" "ticks orphan_fs = 0" "cursor_block_ix orphan_fs = 0"
proof -
  have "ready example_config (flash_window id (dev orphan_fs)) orphan_fs"
    using example_mount_ready(1) [of _ orphan_chip] by (simp add: orphan_fs_def ready_def)
  moreover have "unat (block_count orphan_fs) = blks example_config"
    by (simp add: orphan_fs_def example_mount_def SPIFFS_mount_state_fields example_config_fields layout_simps)
  moreover have "free_pages_blank example_config (flash_window id (dev orphan_fs))"
    by (auto simp: free_pages_blank_def orphan_pages orphan_ids layout_simps SPIFFS_OBJ_ID_FREE_def)
  moreover have "unat (free_cursor_block_ix orphan_fs) < blks example_config"
    by (simp add: orphan_fs_def example_mount_def mount_free_cursor layout_simps)
  ultimately show "fs_inv example_config (flash_window id) orphan_fs" by (simp add: fs_inv_def)
  show "ticks orphan_fs = 0" using example_mount_ready(2) [of orphan_chip] by (simp add: orphan_fs_def ticks_def)
  show "cursor_block_ix orphan_fs = 0" by (simp add: orphan_fs_def example_mount_def mount_fields2)
qed

lemma orphan_header: "header_of example_config (flash_window id (dev orphan_fs)) 0 0 = \<lparr>ph_obj_id = 0x8002, ph_span_ix = 1, ph_flags = 0xf8\<rparr>"
  unfolding header_of_def by (simp add: orphan_pages get_page_header_def get16_def word16_def)

lemma orphan_live: "index_pages_live example_config (flash_window id (dev orphan_fs))"
  by (auto simp: index_pages_live_def layout_simps orphan_ids orphan_header index_id_def final_index_def ph_flag_defs
      SPIFFS_OBJ_ID_FREE_def)

section \<open>Properties\<close>

text \<open>C12 (safety). The check of a consistent file system ends, reports nothing and changes nothing on the flash: when
  the lookup entries agree with the page headers, the index pages are final and not deleted, every reference of an
  index page is empty or leads to its data page, no page is referred to twice and every page in use is an index page
  or referred to, \<^verbatim>\<open>SPIFFS_check\<close> comes down to the scan of the lookup that ends it, on the same flash.\<close>

theorem SPIFFS_check_keeps_consistent:
  assumes "spiffs_flash conf view lo hi" "fs_inv conf view fs" "SPIFFS_CHECK_CFG fs" "SPIFFS_CHECK_MOUNT fs"
    and "lookup_consistent conf (view (dev fs))" "index_pages_live conf (view (dev fs))"
    and "references_consistent conf (view (dev fs))" "blks conf * ppb conf + 2 * psz conf \<le> 65535"
    and "ticks fs + 2 * walk_cost conf 1 + scan_cost conf < 2 ^ 32 - 1"
  shows "\<exists>w fs'. SPIFFS_check fs = spiffs_obj_lu_scan fs' \<and> same_but_flash (fs\<lparr>work := w\<rparr>) fs' \<and>
    view (dev fs') = view (dev fs)"
  using spiffs_flash.SPIFFS_check_ok [OF assms] spiffs_flash.matches_same [OF assms(1)] by blast

theorem SPIFFS_check_keeps_consistent_witness:
  "\<exists>w fs'. SPIFFS_check file_fs = spiffs_obj_lu_scan fs' \<and> same_but_flash (file_fs\<lparr>work := w\<rparr>) fs' \<and>
    flash_window id (dev fs') = flash_window id (dev file_fs)"
proof -
  have s: "blks example_config * ppb example_config + 2 * psz example_config \<le> 65535" by (simp add: layout_simps)
  have t: "ticks file_fs + 2 * walk_cost example_config 1 + scan_cost example_config < 2 ^ 32 - 1"
    by (simp add: file_fs_state walk_cost_def scan_cost_def scan_count_def layout_simps)
  show ?thesis
    by (rule SPIFFS_check_keeps_consistent [OF example_flash.spiffs_flash_axioms file_fs_state(1,3,4)
          file_lookup_consistent file_references_consistent s t])
qed

text \<open>C36 (safety). The check of the index pages deletes none that is final and not deleted, whether or not its
  object has an index header: an index page without header, which the check is for, stays, and the flash with it.\<close>

theorem index_check_keeps_orphans:
  assumes "spiffs_flash conf view lo hi" "fs_inv conf view fs" "index_pages_live conf (view (dev fs))"
    and "ticks fs + walk_cost conf 1 < 2 ^ 32 - 1"
  shows "\<exists>fs'. spiffs_object_index_consistency_check fs = Some (SPIFFS_OK, fs') \<and>
    same_but_flash (fs\<lparr>work := replicate (psz conf) 0\<rparr>) fs' \<and> view (dev fs') = view (dev fs)"
proof -
  have c: "cfg fs = conf" using spiffs_flash.matches_fields(1) [OF assms(1) spiffs_flash.inv_matches [OF assms(1,2)]] .
  have m: "spiffs_flash.matches conf view (view (dev fs)) (fs\<lparr>work := replicate (psz conf) 0\<rparr>) (fs\<lparr>work := replicate (psz conf) 0\<rparr>)"
    by (rule spiffs_flash.matches_updates(8) [OF assms(1) spiffs_flash.inv_matches [OF assms(1,2)]])
  have "ticks (fs\<lparr>work := replicate (psz conf) 0\<rparr>) + walk_cost conf 1 < 2 ^ 32 - 1" using assms(4) by simp
  from spiffs_flash.quiet_visit [OF assms(1) spiffs_flash.index_check_v_quiet [OF assms(1,3)] m this, of 0]
  show ?thesis using spiffs_flash.matches_same [OF assms(1)]
    by (fastforce simp: spiffs_object_index_consistency_check_def c psz_def)
qed



theorem index_check_keeps_orphans_witness:
  "(\<exists>fs'. spiffs_object_index_consistency_check orphan_fs = Some (SPIFFS_OK, fs') \<and>
      flash_window id (dev fs') = flash_window id (dev orphan_fs)) \<and>
    lu_id example_config (flash_window id (dev orphan_fs)) 0 0 = 0x8002 \<and>
    (\<exists>fs'. spiffs_obj_lu_find_id_and_span orphan_fs 0x8002 0 0 = Some (SPIFFS_ERR_NOT_FOUND, 0, fs'))"
proof -
  let ?m = "flash_window id (dev orphan_fs)"
  have t: "ticks orphan_fs + walk_cost example_config 1 < 2 ^ 32 - 1"
    by (simp add: orphan_state walk_cost_def layout_simps)
  have n: "\<not> (\<exists>b < blks example_config. \<exists>e < ents example_config. span_entry example_config ?m 0x8002 0 0 b e)"
    by (auto simp: span_entry_def layout_simps orphan_ids orphan_header span_page_def span_header_def split: if_splits)
  have "unat (cursor_block_ix orphan_fs) < blks example_config" by (simp add: orphan_state layout_simps)
  from example_flash.span_search_ok [OF example_flash.inv_matches [OF orphan_state(1)] this t, where oid = "0x8002" and spix = 0 and excl = 0] n
  have "\<exists>fs'. spiffs_obj_lu_find_id_and_span orphan_fs 0x8002 0 0 = Some (SPIFFS_ERR_NOT_FOUND, 0, fs')" by auto
  moreover obtain fs' where "spiffs_object_index_consistency_check orphan_fs = Some (SPIFFS_OK, fs')"
    "flash_window id (dev fs') = flash_window id (dev orphan_fs)"
    using index_check_keeps_orphans [OF example_flash.spiffs_flash_axioms orphan_state(1) orphan_live t] by blast
  ultimately show ?thesis using orphan_ids [of 0 0] by simp
qed

text \<open>C37 (error). A final index page whose lookup entry has another object id, while the object of its header has no
  other index page of the span and no data page with span index 0 (an empty file has none), makes the check of the
  lookup read a page index that was never set: the search that fails clears the page of the index instead.\<close>

theorem index_page_under_two_ids_undefined:
  assumes "spiffs_flash conf view lo hi" "fs_inv conf view fs" "unat (cursor_block_ix fs) < blks conf"
    and "oid \<noteq> SPIFFS_OBJ_ID_FREE" "oid \<noteq> SPIFFS_OBJ_ID_DELETED"
    and "ph_obj_id ph OR SPIFFS_OBJ_ID_IX_FLAG \<noteq> oid OR SPIFFS_OBJ_ID_IX_FLAG"
    and "final_index ph"
    and "\<forall>b < blks conf. \<forall>e < ents conf.
      \<not> span_entry conf (view (dev fs)) (ph_obj_id ph OR SPIFFS_OBJ_ID_IX_FLAG) (ph_span_ix ph) 0 b e \<and>
      \<not> span_entry conf (view (dev fs)) (ph_obj_id ph AND NOT SPIFFS_OBJ_ID_IX_FLAG) 0 0 b e"
    and "ticks fs + 4 * walk_cost conf 1 < 2 ^ 32 - 1"
  shows "spiffs_lookup_check_validate fs oid ph pix = None"
proof -
  have "check_index_ids fs oid ph pix = None"
    using assms(8) by (intro spiffs_flash.index_ids_undefined [OF assms(1) spiffs_flash.inv_matches [OF assms(1,2)] assms(3,9)]) blast+
  moreover have "check_entry fs oid ph pix = check_index_ids fs oid ph pix"
    using assms(4-6) by (simp add: check_entry_def check_differing_ids_def final_index_flags [OF assms(7)])
  ultimately show ?thesis by (simp add: spiffs_lookup_check_validate_def)
qed


theorem index_page_under_two_ids_undefined_witness:
  "spiffs_lookup_check_validate file_fs 0x8002 \<lparr>ph_obj_id = 0x8003, ph_span_ix = 0, ph_flags = 0xf8\<rparr> 3 = None"
proof -
  let ?m = "flash_window id (dev file_fs)"
  have t: "ticks file_fs + 4 * walk_cost example_config 1 < 2 ^ 32 - 1"
    by (simp add: file_fs_state walk_cost_def layout_simps)
  have n: "\<forall>b < blks example_config. \<forall>e < ents example_config.
      \<not> span_entry example_config ?m (0x8003 OR SPIFFS_OBJ_ID_IX_FLAG) 0 0 b e \<and>
      \<not> span_entry example_config ?m (0x8003 AND NOT SPIFFS_OBJ_ID_IX_FLAG) 0 0 b e"
    by (auto simp: span_entry_def layout_simps file_entry_ids ph_flag_defs split: if_splits)
  show ?thesis
    using n by (intro index_page_under_two_ids_undefined [OF example_flash.spiffs_flash_axioms file_fs_state(1,5) _ _ _ _ _ t])
      (simp_all add: final_index_def ph_flag_defs SPIFFS_OBJ_ID_FREE_def SPIFFS_OBJ_ID_DELETED_def)
qed

end
