(* ===== verification/Spec2Isabelle.thy ===== *)
theory Spec2Isabelle
  imports Prelude Libc NumConv Flashmem SpiffsLayout SpiffsCache SpiffsLookup
    SpiffsPage SpiffsGc SpiffsObject SpiffsApi SpiffsPageFacts SpiffsSearch SpiffsRead SpiffsHandles WString
    WebServer Eeprom Monitor MonitorFacts MonitorPulse MonitorWeb MonitorMain
    Gpio Cbuf Serial SerialFacts SpiffsCheck SpiffsCheckFacts SpiffsCheckPages
begin

text \<open>
  A verification library for powermon, a pulse counter for electricity meters that runs on the ESP8266.
  The repository holds the application (\<^verbatim>\<open>src/*.ino\<close>) and the Arduino core it was built with
  (\<^verbatim>\<open>.pioenvs/esp01\<close>): C library replacements, strings, the web server, the EEPROM emulation and the
  SPIFFS flash file system.  The theories below model these parts as functions in HOL and prove what they
  do, together with a number of inputs for which they do something else.

  \<^bold>\<open>The parts and how they interact.\<close>
  \<^item> The SDK's flash routines (\<^verbatim>\<open>spi_flash_read/write/erase_sector\<close>, not in the repository) are the record
    parameter \<open>sdk\<close> of theory Flashmem; the locale \<open>flash_chip\<close> states their documented behaviour on a NOR
    chip seen through \<open>view\<close>, \<open>spi_chip\<close> adds a heap that never runs out, and \<open>reference_sdk\<close> is an instance on which every locale and witness is
    interpreted.
  \<^item> Flashmem (\<^verbatim>\<open>spiffs_esp8266.c\<close>, callbacks of \<^verbatim>\<open>FileSystem.cpp\<close>) turns unaligned requests into aligned
    ones.  SPIFFS and the EEPROM emulation are its clients.
  \<^item> SPIFFS: SpiffsLayout (\<^verbatim>\<open>spiffs_nucleus.h\<close>: address arithmetic, mount configuration), SpiffsCache
    (\<^verbatim>\<open>spiffs_cache.c\<close>), SpiffsLookup and SpiffsPage (\<^verbatim>\<open>spiffs_nucleus.c\<close>: lookup visitor, searches, pages,
    descriptors), SpiffsGc (\<^verbatim>\<open>spiffs_gc.c\<close>), SpiffsObject (append, modify, truncate, read), SpiffsApi
    (\<^verbatim>\<open>spiffs_hydrogen.c\<close>).  The state is the record \<open>spiffs\<close> with cache, descriptors, cursors and the chip;
    error codes are the \<open>int\<close> results of the code, and \<open>None\<close> is undefined behaviour or a loop out of fuel.
    SpiffsCheck (\<^verbatim>\<open>spiffs_check.c\<close>) is the consistency check.  SpiffsPageFacts, SpiffsSearch, SpiffsRead,
    SpiffsHandles, SpiffsCheckFacts and SpiffsCheckPages hold the lemmas and properties.
  \<^item> Libc (\<^verbatim>\<open>libc_replacements.c\<close>) and NumConv (\<^verbatim>\<open>core_esp8266_noniso.c\<close>) are the C string functions and the
    number conversions; WString (\<^verbatim>\<open>WString.cpp\<close>) is the class \<^verbatim>\<open>String\<close> on its heap buffers, with
    \<^verbatim>\<open>realloc\<close> as a parameter, and the refinement that its operations compute functions on texts.
  \<^item> WebServer (\<^verbatim>\<open>ESP8266WebServer.cpp\<close>, \<^verbatim>\<open>Parsing.cpp\<close>, two reads of \<^verbatim>\<open>Stream.cpp\<close>) parses a request from the
    bytes of a connection, finds its handler and builds the response.
  \<^item> Eeprom (\<^verbatim>\<open>EEPROM.cpp\<close>, \<^verbatim>\<open>EEPROM.h\<close>) is a RAM copy of a flash sector that \<^verbatim>\<open>commit\<close> writes back.
  \<^item> The application: Monitor (\<^verbatim>\<open>Globals.h\<close>, \<^verbatim>\<open>Globals.ino\<close>, \<^verbatim>\<open>Settings.ino\<close> and the two update functions)
    with its global variables in the record \<open>monitor\<close>; MonitorPulse (\<^verbatim>\<open>Other.ino\<close>: buffer of readings,
    counter, push); MonitorWeb (\<^verbatim>\<open>WiFiFunctions.ino\<close>, \<^verbatim>\<open>WebContent.ino\<close>: connecting, pages, handlers);
    MonitorMain (\<^verbatim>\<open>Main.ino\<close>: start and main loop, which composes all of them over the same state).
    What the device does outside is a list of \<open>action\<close>s; what it gets from outside (a reading, the clock,
    the bytes of a request, outcomes of allocations and connections) is an argument.
  \<^item> The drivers work on memory mapped registers: the record parameter \<open>bus\<close> of Gpio (\<^verbatim>\<open>esp8266_peri.h\<close>, pins of
    \<^verbatim>\<open>core_esp8266_wiring_digital.c\<close>).  Cbuf (\<^verbatim>\<open>cbuf.h\<close>) is the ring buffer and Serial (\<^verbatim>\<open>HardwareSerial.cpp\<close>) the
    serial ports, whose \<^verbatim>\<open>write\<close> is cut into steps where the interrupt routine can come in; locale \<open>uart_chip\<close>
    of SerialFacts states the behaviour of the transmit FIFO, \<open>reference_uart\<close> is an instance.
  \<^item> Prelude holds what all share: word types, C division, buffers as byte lists (\<open>slice\<close>, \<open>blit\<close>), C strings.

  \<^bold>\<open>What the lemmas show.\<close>
  \<^item> Flash: a write programs exactly the bytes of its range (or, when the copy of an unaligned source cannot be
    allocated, all but its whole words), a read returns exactly them; the erase callback erases one sector too many.
  \<^item> Cache: reads through it are flash reads and writes reach the flash, under the coherence invariant
    \<open>cache_ok\<close>; with every page taken by write caches a read is undefined.
  \<^item> Lookup and pages: searches are sound, complete and terminate; allocation, move and delete change
    exactly one lookup entry and one header and keep the file system invariant \<open>fs_inv\<close>, as long as two blocks are
    free or the file system is being cleaned, so that no garbage collection comes in; the descriptor
    table is a map of handles; events keep open descriptors in step with the index pages.
  \<^item> Consistency check: on a consistent file system all three passes end and leave the flash alone; the pass over
    the index pages also leaves the orphans it is for, and an index page under two ids makes the first pass read
    an unset variable.
  \<^item> Objects and API: reading an open file returns its bytes; calls need a mounted file system.
  \<^item> Strings: every operation keeps the representation \<open>holds\<close> and computes its text function, but two uses
    overrun their buffer.
  \<^item> EEPROM and settings: a commit survives a restart; a text in a field comes back, cut to the field; any
    single changed byte is noticed; the whole of \<^verbatim>\<open>saveSettings\<close> survives a restart; and the inputs for
    which it does not (zero, long addresses, five digits, an erased chip).
  \<^item> Counter: with limits below 255 the three \<^verbatim>\<open>char\<close> counters implement the specification \<open>pulse_step\<close> with
    unbounded runs, and every edge is counted once; with limits of 255, those of a new chip, none ever is; the buffer search ends; the push timer is right across the wrap.
  \<^item> Serial port: the ring buffer is a bounded queue; under every interleaving of writer, interrupt and
    transmitter the bytes keep their order, with the interrupt kept out of a running write all of them are sent,
    and without that a byte can be lost and the port can fall silent for good.
  \<^item> Web: a posted form is parsed to its fields; a truncated or long multipart form is not survived; the
    form of the general settings fits its buffer.  \<open>posted_settings_take_effect\<close> runs through all layers:
    bytes of a request, handler, settings, EEPROM, flash.

  \<^bold>\<open>Bounds and fuel.\<close>  The cache's access counter must stay below \<^verbatim>\<open>2^32\<close> for the replacement order
  (\<open>ticks\<close>; \<open>walk_cost\<close> bounds what a search adds).  Loops whose end depends on the flash content or on bytes
  that arrive take fuel; the searches, the counter and the buffer search are proved to end within it.
  The EEPROM has the 200 bytes \<^verbatim>\<open>setup\<close> asks for; texts written to it are shorter than 256 bytes less their
  start, the case in which a \<^verbatim>\<open>char\<close> sum does not wrap, and the wrapping case is stated on its own.  \<^verbatim>\<open>char\<close> is
  unsigned on this processor and a \<open>u8\<close> here.

  \<^bold>\<open>Not modelled.\<close>
  \<^item> The C++ classes \<^verbatim>\<open>FSClass\<close> and \<^verbatim>\<open>FSFile\<close> around the SPIFFS API, which the application does not use.
  \<^item> The alignment of the buffer a flash read writes to.
  \<^item> Floating point conversions, the \<^verbatim>\<open>printf\<close> family and \<^verbatim>\<open>Print\<close>, the IP address class.
  \<^item> Drivers of PWM, timers and software I2C, start-up and coroutine code: effects on
    memory mapped registers, interrupts and assembler.
  \<^item> The WiFi and mDNS classes and the lwIP stack: calls into a closed SDK of which only headers are present.
  \<^item> In the application, messages to the serial port and the freeing of settings blocks.  Allocation failure
    inside \<^verbatim>\<open>String\<close> is modelled in WString and taken not to happen in the application's texts.
\<close>

end
